(* ===== verification/Prelude.thy ===== *)
theory Prelude
  imports Main "HOL-Library.AList" "HOL-Library.Multiset" "HOL-Library.List_Lexorder"
    "HOL-Library.Char_ord"
begin

text \<open>
  What every component shares: Go's 64-bit \<open>int\<close> with its wrap-around, Go maps as
  association lists, \<open>cmp.Compare\<close> and \<open>cmp.Or\<close>, and the generic lemmas on sorted lists
  and association lists that the component proofs use.

  Go's \<open>int\<close> and \<open>int64\<close> are both 64 bits wide on the platforms the releases are built for
  (amd64 and arm64). A value is an \<open>int\<close> of HOL, and every sum of values that come from
  input is taken with \<open>add64\<close>, which wraps as the machine does. A counter that only counts
  elements of a slice held in memory cannot reach the limit and is a plain sum.
\<close>

named_theorems go64 \<open>facts on 64-bit arithmetic in range\<close>
named_theorems gomap \<open>facts on Go maps as association lists\<close>

section \<open>64-bit integers\<close>

definition maxInt64 :: int where
  "maxInt64 = 9223372036854775807"

definition minInt64 :: int where
  "minInt64 = -9223372036854775808"

definition inInt64 :: "int \<Rightarrow> bool" where
  "inInt64 x \<longleftrightarrow> minInt64 \<le> x \<and> x \<le> maxInt64"

definition wrap64 :: "int \<Rightarrow> int" where
  "wrap64 x = (x + 9223372036854775808) mod 18446744073709551616 - 9223372036854775808"

definition add64 :: "int \<Rightarrow> int \<Rightarrow> int" where
  "add64 a b = wrap64 (a + b)"

lemma wrap64_id [go64]: "inInt64 x \<Longrightarrow> wrap64 x = x"
  by (simp add: wrap64_def inInt64_def minInt64_def maxInt64_def)

lemma wrap64_range: "inInt64 (wrap64 x)"
  using pos_mod_bound [of 18446744073709551616 "x + 9223372036854775808"]
    pos_mod_sign [of 18446744073709551616 "x + 9223372036854775808"]
  by (simp add: wrap64_def inInt64_def minInt64_def maxInt64_def)

lemma wrap64_wrap64_add: "wrap64 (wrap64 a + b) = wrap64 (a + b)"
proof -
  have "(wrap64 a + b + 9223372036854775808) mod 18446744073709551616
      = ((a + 9223372036854775808) mod 18446744073709551616 + b) mod 18446744073709551616"
    by (simp add: wrap64_def)
  also have "\<dots> = (a + 9223372036854775808 + b) mod 18446744073709551616"
    by (rule mod_add_left_eq)
  finally show ?thesis by (simp add: wrap64_def ac_simps)
qed

lemma add64_commute: "add64 a b = add64 b a"
  by (simp add: add64_def add.commute)

lemma add64_assoc: "add64 (add64 a b) c = add64 a (add64 b c)"
  using wrap64_wrap64_add [of "a + b" c] wrap64_wrap64_add [of "b + c" a]
  by (simp add: add64_def ac_simps)

lemma add64_id [go64]: "inInt64 (a + b) \<Longrightarrow> add64 a b = a + b"
  by (simp add: add64_def wrap64_id)

lemma add64_nonneg_id [go64]:
  "0 \<le> a \<Longrightarrow> 0 \<le> b \<Longrightarrow> a + b \<le> maxInt64 \<Longrightarrow> add64 a b = a + b"
  by (rule add64_id) (simp add: inInt64_def minInt64_def)

lemma add64_succ [go64]: "0 \<le> a \<Longrightarrow> a < maxInt64 \<Longrightarrow> add64 a 1 = a + 1"
  by (rule add64_nonneg_id) (auto simp: maxInt64_def)

lemma add64_range: "inInt64 (add64 a b)"
  by (simp add: add64_def wrap64_range)

section \<open>cmp.Compare and cmp.Or\<close>

definition cmpCompare :: "'a::linorder \<Rightarrow> 'a \<Rightarrow> int" where
  "cmpCompare a b = (if a < b then -1 else if b < a then 1 else 0)"

text \<open>\<open>cmp.Or\<close> returns its first argument that is not zero.\<close>

fun cmpOr :: "int list \<Rightarrow> int" where
  "cmpOr [] = 0"
| "cmpOr (c # cs) = (if c \<noteq> 0 then c else cmpOr cs)"

lemma cmpCompare_simps [simp]:
  "cmpCompare a b < 0 \<longleftrightarrow> a < b"
  "cmpCompare a b = 0 \<longleftrightarrow> a = b"
  "0 < cmpCompare a b \<longleftrightarrow> b < a"
  "cmpCompare a b \<le> 0 \<longleftrightarrow> a \<le> b"
  "0 \<le> cmpCompare a b \<longleftrightarrow> b \<le> a"
  by (auto simp: cmpCompare_def)

section \<open>Strictly sorted lists\<close>

text \<open>
  Go sorts the keys of a map, and those are distinct: the result is strictly sorted, and
  the only strictly sorted list with its elements, so no iteration order and no unstable
  sort can show in it.
\<close>

lemma distinct_map_mset: "mset xs = mset ys \<Longrightarrow> distinct (map f xs) \<longleftrightarrow> distinct (map f ys)"
  by (metis mset_eq_imp_distinct_iff mset_map)

lemma sorted_strict_unique:
  fixes f :: "'a \<Rightarrow> 'b::linorder"
  assumes xs: "sorted_wrt (<) (map f xs)" and ys: "sorted_wrt (<) (map f ys)"
    and m: "mset xs = mset ys"
  shows "xs = ys"
proof -
  have inj: "inj_on f (set xs)"
    using xs by (simp add: strict_sorted_iff distinct_map)
  have "set xs = set ys" using m by (rule mset_eq_setD)
  moreover have "map f xs = map f ys"
  proof (rule sorted_distinct_set_unique)
    show "sorted (map f xs)" "distinct (map f xs)" "sorted (map f ys)" "distinct (map f ys)"
      using xs ys by (simp_all add: strict_sorted_iff)
    show "set (map f xs) = set (map f ys)"
      using \<open>set xs = set ys\<close> by simp
  qed
  ultimately show ?thesis using inj by (metis Un_absorb map_inj_on)
qed

lemma sort_key_strict:
  fixes f :: "'a \<Rightarrow> 'b::linorder"
  shows "distinct (map f xs) \<Longrightarrow> sorted_wrt (<) (map f (sort_key f xs))"
  by (simp add: strict_sorted_iff distinct_map_mset [of "sort_key f xs" xs])

lemma sort_key_perm:
  fixes f :: "'a \<Rightarrow> 'b::linorder"
  assumes "distinct (map f xs)" and "mset xs = mset ys"
  shows "sort_key f xs = sort_key f ys"
proof (rule sorted_strict_unique [of f])
  show "sorted_wrt (<) (map f (sort_key f xs))"
    using assms by (intro sort_key_strict)
  show "sorted_wrt (<) (map f (sort_key f ys))"
    using assms by (intro sort_key_strict) (simp add: distinct_map_mset [of xs ys])
qed (use assms in simp)

lemma sort_key_idem:
  fixes f :: "'a \<Rightarrow> 'b::linorder"
  shows "sorted_wrt (<) (map f xs) \<Longrightarrow> sort_key f xs = xs"
  by (rule sorted_strict_unique [of f, OF sort_key_strict]) (simp_all add: strict_sorted_iff)

lemma strict_sorted_list_of_set:
  fixes xs :: "'a::linorder list"
  assumes "sorted_wrt (<) xs" and "set xs = A"
  shows "xs = sorted_list_of_set A"
proof (rule strict_sorted_equal [symmetric])
  show "sorted_wrt (<) xs" by fact
  have "finite A" using assms(2) by (metis List.finite_set)
  then show "sorted_wrt (<) (sorted_list_of_set A)" "set (sorted_list_of_set A) = set xs"
    using assms(2) by (simp_all add: strict_sorted_iff)
qed

section \<open>Go maps as association lists\<close>

text \<open>
  A Go map is an association list without a repeated key; the order of the list is the
  map's iteration order, which Go leaves unspecified.
\<close>

type_synonym ('k, 'v) gomap = "('k \<times> 'v) list"

abbreviation keysOf :: "('k, 'v) gomap \<Rightarrow> 'k list" where
  "keysOf m \<equiv> map fst m"

definition wfMap :: "('k, 'v) gomap \<Rightarrow> bool" where
  "wfMap m \<longleftrightarrow> distinct (keysOf m)"

lemma wfMap_Nil [gomap, simp]: "wfMap []"
  by (simp add: wfMap_def)

lemma wfMap_update [gomap, simp]: "wfMap m \<Longrightarrow> wfMap (AList.update k v m)"
  by (simp add: wfMap_def distinct_update)

lemma wfMap_delete [gomap, simp]: "wfMap m \<Longrightarrow> wfMap (AList.delete k m)"
  by (simp add: wfMap_def distinct_delete)

lemma map_of_update [gomap, simp]:
  "map_of (AList.update k v m) k' = (if k' = k then Some v else map_of m k')"
  by (simp add: update_conv')

lemma map_of_delete [gomap, simp]:
  "map_of (AList.delete k m) k' = (if k' = k then None else map_of m k')"
  by (simp add: delete_conv')

lemma set_keysOf: "set (keysOf m) = dom (map_of m)"
  by (simp add: dom_map_of_conv_image_fst)

lemma wfMap_map_of: "wfMap m \<Longrightarrow> (k, v) \<in> set m \<longleftrightarrow> map_of m k = Some v"
  by (simp add: wfMap_def)

end
