(* ===== verification/Float64.thy ===== *)
theory Float64
  imports Prelude Complex_Main
begin

text \<open>
  Go's \<open>float64\<close>: IEEE 754 binary64 with round-to-nearest, ties to even. A finite value is
  the rational it denotes, and every operation is the exact one followed by \<open>f64\<close>, the
  rounding: the exponent of the value fixes the quantum, \<open>2 powi (e - 52)\<close> but never below
  \<open>2 powi -1074\<close> (the subnormal range), and the multiple of it is rounded half to even.
  The values of this program (percentages, statement counts below \<open>2 ^ 63\<close> and products of
  two of them) stay far below the overflow threshold \<open>2 ^ 1024\<close>, so infinities do not arise;
  no operation divides by zero (\<open>Percent\<close> tests the total first), so neither do NaNs.
\<close>

section \<open>Rounding\<close>

text \<open>The number of bits of a positive integer, as \<open>bits.Len64\<close> counts them.\<close>

function bitLen :: "int \<Rightarrow> int" where
  "bitLen n = (if n \<le> 0 then 0 else 1 + bitLen (n div 2))"
  by pat_completeness auto
termination
  by (relation "measure nat") auto

declare bitLen.simps [simp del]

lemma powi2_less_iff [simp]: "(2::rat) powi a < 2 powi b \<longleftrightarrow> a < b"
  using power_int_strict_increasing [of a b "2::rat"] power_int_increasing [of b a "2::rat"]
  by (cases "a < b") (simp_all add: not_less)

lemma powi2_le_iff [simp]: "(2::rat) powi a \<le> 2 powi b \<longleftrightarrow> a \<le> b"
  by (simp flip: not_less)

text \<open>\<open>ilog2 x\<close> is the exponent of a positive \<open>x\<close>: \<open>2 powi ilog2 x \<le> x < 2 powi (ilog2 x + 1)\<close>.\<close>

definition ilog2 :: "rat \<Rightarrow> int" where
  "ilog2 x = (let (a, b) = quotient_of x;
                  e = bitLen a - bitLen b
              in if 2 powi e \<le> x then e else e - 1)"

lemma bitLen_nonneg: "0 \<le> bitLen n"
  by (induction n rule: bitLen.induct) (simp add: bitLen.simps)

lemma bitLen_bounds:
  "0 < n \<Longrightarrow> (2::rat) powi (bitLen n - 1) \<le> of_int n \<and> of_int n < (2::rat) powi bitLen n"
proof (induction n rule: bitLen.induct)
  case (1 n)
  let ?m = "n div 2"
  show ?case
  proof (cases "?m = 0")
    case True
    with 1 have "n = 1" by linarith
    then show ?thesis by (simp add: bitLen.simps [of 1] bitLen.simps [of 0])
  next
    case False
    then have IH: "(2::rat) powi (bitLen ?m - 1) \<le> of_int ?m" "of_int ?m < (2::rat) powi bitLen ?m"
      using 1 by linarith+
    have len: "bitLen n = bitLen ?m + 1" using "1.prems" by (subst bitLen.simps) simp
    have n: "2 * ?m \<le> n" "n < 2 * (?m + 1)" by presburger+
    have "(2::rat) powi bitLen ?m = 2 * 2 powi (bitLen ?m - 1)"
      using power_int_add_1' [of "2::rat" "bitLen ?m - 1"] by simp
    also have "\<dots> \<le> 2 * of_int ?m" using IH(1) by simp
    also have "\<dots> = of_int (2 * ?m)" by simp
    also have "\<dots> \<le> of_int n" using n(1) by (simp only: of_int_le_iff)
    finally have lo: "(2::rat) powi bitLen ?m \<le> of_int n" .
    have "(2::rat) powi bitLen ?m = of_int (2 ^ nat (bitLen ?m))"
      using bitLen_nonneg [of ?m] by (simp add: power_int_def)
    then have "?m < 2 ^ nat (bitLen ?m)" using IH(2) by (simp only: of_int_less_iff)
    then have "n < 2 * 2 ^ nat (bitLen ?m)" using n(2) by linarith
    then have "(of_int n :: rat) < of_int (2 * 2 ^ nat (bitLen ?m))" by (simp only: of_int_less_iff)
    also have "\<dots> = 2 powi bitLen n"
      using bitLen_nonneg [of ?m] power_int_add_1' [of "2::rat" "bitLen ?m"]
      by (simp add: len power_int_def nat_add_distrib)
    finally show ?thesis using lo by (simp add: len)
  qed
qed

lemmas powi_bounds = bitLen_bounds [THEN conjunct1] bitLen_bounds [THEN conjunct2]

lemma ilog2_bounds:
  assumes "0 < x"
  shows "2 powi ilog2 x \<le> x" and "x < 2 powi (ilog2 x + 1)"
proof -
  obtain a b where q: "quotient_of x = (a, b)" by fastforce
  have b: "0 < b" using q by (rule quotient_of_denom_pos)
  have x: "x = of_int a / of_int b" using q by (rule quotient_of_div)
  have a: "0 < a" using assms b unfolding x by (simp add: zero_less_divide_iff)
  define la where "la = bitLen a"
  define lb where "lb = bitLen b"
  have A: "(2::rat) powi (la - 1) \<le> of_int a" "of_int a < (2::rat) powi la"
    using powi_bounds [of a] a by (simp_all add: la_def)
  have B: "(2::rat) powi (lb - 1) \<le> of_int b" "of_int b < (2::rat) powi lb"
    using powi_bounds [of b] b by (simp_all add: lb_def)
  have bp: "(0::rat) < of_int b" using b by simp
  have up: "x < 2 powi (la - lb + 1)"
  proof -
    have "of_int a < (2::rat) powi la" by (rule A)
    also have "\<dots> = 2 powi (la - lb + 1) * 2 powi (lb - 1)"
      by (simp flip: power_int_add)
    also have "\<dots> \<le> 2 powi (la - lb + 1) * of_int b"
      by (rule mult_left_mono [OF B(1)]) simp
    finally show ?thesis using bp by (simp add: x divide_less_eq)
  qed
  have lo: "2 powi (la - lb - 1) \<le> x"
  proof -
    have "(2::rat) powi (la - lb - 1) * of_int b \<le> 2 powi (la - lb - 1) * 2 powi lb"
      using B(2) by (intro mult_left_mono) (auto intro: less_imp_le)
    also have "\<dots> = 2 powi (la - 1)" by (simp flip: power_int_add)
    also have "\<dots> \<le> of_int a" by (rule A)
    finally show ?thesis using bp by (simp add: x le_divide_eq)
  qed
  have e: "ilog2 x = (if 2 powi (la - lb) \<le> x then la - lb else la - lb - 1)"
    by (simp add: ilog2_def q la_def lb_def)
  show "2 powi ilog2 x \<le> x" "x < 2 powi (ilog2 x + 1)"
    using up lo by (auto simp: e not_le)
qed

lemma ilog2_unique:
  assumes "2 powi e \<le> x" and "x < 2 powi (e + 1)"
  shows "ilog2 x = e"
proof -
  have "0 < x" using assms(1) by (rule order.strict_trans2 [rotated]) simp
  note b = ilog2_bounds [OF this]
  have "(2::rat) powi ilog2 x < 2 powi (e + 1)" "(2::rat) powi e < 2 powi (ilog2 x + 1)"
    by (rule le_less_trans [OF b(1) assms(2)], rule le_less_trans [OF assms(1) b(2)])
  then show ?thesis by simp
qed

lemma ilog2_mono:
  assumes "0 < x" and "x \<le> y"
  shows "ilog2 x \<le> ilog2 y"
proof -
  have "(2::rat) powi ilog2 x \<le> x" using ilog2_bounds assms by blast
  also have "x < 2 powi (ilog2 y + 1)"
    using ilog2_bounds(2) [of y] assms by (auto intro: le_less_trans)
  finally show ?thesis by simp
qed

text \<open>The nearest integer, a tie going to the even neighbour.\<close>

definition roundHalfEven :: "rat \<Rightarrow> int" where
  "roundHalfEven x =
     (let f = \<lfloor>x\<rfloor>; d = x - of_int f
      in if d < 1 / 2 then f else if 1 / 2 < d then f + 1 else if even f then f else f + 1)"

definition quantum :: "rat \<Rightarrow> rat" where
  "quantum x = 2 powi (max (ilog2 \<bar>x\<bar> - 52) (-1074))"

definition f64 :: "rat \<Rightarrow> rat" where
  "f64 x = (if x = 0 then 0 else of_int (roundHalfEven (x / quantum x)) * quantum x)"

lemma quantum_pos [simp]: "0 < quantum x"
  by (simp add: quantum_def)

lemma quantum_neg [simp]: "quantum (- x) = quantum x"
  by (simp add: quantum_def)

lemma f64_0 [simp]: "f64 0 = 0"
  by (simp add: f64_def)

lemma roundHalfEven_error: "\<bar>of_int (roundHalfEven x) - x\<bar> \<le> 1 / 2"
proof -
  have "of_int \<lfloor>x\<rfloor> \<le> x" "x < of_int \<lfloor>x\<rfloor> + 1" by linarith+
  then show ?thesis by (auto simp: roundHalfEven_def Let_def abs_le_iff)
qed

lemma roundHalfEven_of_int [simp]: "roundHalfEven (of_int k) = k"
  by (simp add: roundHalfEven_def)

lemma roundHalfEven_mono:
  assumes "x \<le> y"
  shows "roundHalfEven x \<le> roundHalfEven y"
proof (cases "\<lfloor>x\<rfloor> = \<lfloor>y\<rfloor>")
  case True
  with assms show ?thesis by (auto simp: roundHalfEven_def Let_def)
next
  case False
  then have "\<lfloor>x\<rfloor> + 1 \<le> \<lfloor>y\<rfloor>" using floor_mono [OF assms] by simp
  then show ?thesis by (auto simp: roundHalfEven_def Let_def)
qed

lemma floor_neg_frac:
  fixes x :: rat
  assumes "of_int \<lfloor>x\<rfloor> \<noteq> x"
  shows "\<lfloor>- x\<rfloor> = - \<lfloor>x\<rfloor> - 1"
  using assms floor_correct [of x] by (intro floor_unique) (auto simp: less_le)

lemma roundHalfEven_neg: "roundHalfEven (- x) = - roundHalfEven x"
proof (cases "of_int \<lfloor>x\<rfloor> = x")
  case True
  then obtain k where "x = of_int k" by metis
  then show ?thesis using roundHalfEven_of_int [of k] roundHalfEven_of_int [of "- k"] by simp
next
  case False
  then show ?thesis
    by (auto simp: roundHalfEven_def Let_def floor_neg_frac)
qed

lemma f64_neg: "f64 (- x) = - f64 x"
  by (simp add: f64_def roundHalfEven_neg)

lemma f64_error: "\<bar>f64 x - x\<bar> \<le> quantum x / 2"
proof (cases "x = 0")
  case False
  have "f64 x - x = (of_int (roundHalfEven (x / quantum x)) - x / quantum x) * quantum x"
    using False by (simp add: f64_def left_diff_distrib less_imp_neq [OF quantum_pos, symmetric])
  then have "\<bar>f64 x - x\<bar> = \<bar>of_int (roundHalfEven (x / quantum x)) - x / quantum x\<bar> * quantum x"
    by (simp only: abs_mult abs_of_pos [OF quantum_pos])
  also have "\<dots> \<le> 1 / 2 * quantum x"
    by (rule mult_right_mono [OF roundHalfEven_error]) (simp add: less_imp_le)
  finally show ?thesis by simp
qed (simp add: less_imp_le)

section \<open>Monotonicity and exact values\<close>

lemma quantum_mono: "0 < x \<Longrightarrow> x \<le> y \<Longrightarrow> quantum x \<le> quantum y"
  using ilog2_mono [of x y] by (simp add: quantum_def)

text \<open>A multiple of \<open>x\<close>'s quantum bounds the rounding on the side it bounds \<open>x\<close>.\<close>

lemma f64_le_multiple:
  assumes "0 < x" and "x \<le> of_int k * quantum x"
  shows "f64 x \<le> of_int k * quantum x"
proof -
  have "x / quantum x \<le> of_int k"
    using assms by (simp add: divide_le_eq)
  then have "roundHalfEven (x / quantum x) \<le> k"
    using roundHalfEven_mono roundHalfEven_of_int by metis
  then show ?thesis using assms(1) by (simp add: f64_def)
qed

lemma f64_ge_multiple:
  assumes "0 < x" and "of_int k * quantum x \<le> x"
  shows "of_int k * quantum x \<le> f64 x"
proof -
  have "of_int k \<le> x / quantum x"
    using assms by (simp add: le_divide_eq)
  then have "k \<le> roundHalfEven (x / quantum x)"
    using roundHalfEven_mono roundHalfEven_of_int by metis
  then show ?thesis using assms(1) by (simp add: f64_def)
qed

lemma f64_nonneg: "0 \<le> x \<Longrightarrow> 0 \<le> f64 x"
  using f64_ge_multiple [of x 0] by (cases "x = 0") simp_all

text \<open>The power of two above \<open>x\<close> is a multiple of \<open>x\<close>'s quantum, unless it is below the
  smallest quantum; then that quantum, \<open>2 powi -1074\<close>, is the multiple.\<close>

lemma powi2_int_multiple: "0 \<le> i \<Longrightarrow> (2::rat) powi i = of_int (2 ^ nat i)"
  by (simp add: power_int_def)

lemma f64_mono_pos:
  assumes "0 < x" and "x \<le> y"
  shows "f64 x \<le> f64 y"
proof (cases "quantum x = quantum y")
  case True
  have "x / quantum x \<le> y / quantum x"
    using assms by (intro divide_right_mono) (simp_all add: less_imp_le)
  then have "roundHalfEven (x / quantum x) \<le> roundHalfEven (y / quantum y)"
    using True by (metis roundHalfEven_mono)
  then show ?thesis using assms True by (simp add: f64_def)
next
  case False
  have y: "0 < y" using assms by simp
  define e where "e = ilog2 y"
  have "\<not> e - 52 \<le> -1074"
    using False ilog2_mono [OF assms] assms y by (auto simp: quantum_def e_def max_def)
  then have qy: "quantum y = 2 powi (e - 52)" using y by (simp add: quantum_def e_def max_def)
  have "ilog2 x < e"
    using False ilog2_mono [OF assms] assms y by (auto simp: quantum_def e_def le_less)
  define i where "i = e - max (ilog2 x - 52) (-1074)"
  have i: "0 \<le> i" using \<open>ilog2 x < e\<close> \<open>\<not> e - 52 \<le> -1074\<close> by (simp add: i_def)
  have "of_int (2 ^ nat i) * quantum x = 2 powi e"
  proof -
    have "of_int (2 ^ nat i) * quantum x = 2 powi i * 2 powi (e - i)"
      using assms(1) unfolding powi2_int_multiple [OF i] by (simp add: quantum_def i_def)
    also have "\<dots> = 2 powi (i + (e - i))" by (rule power_int_add [symmetric]) simp
    finally show ?thesis by simp
  qed
  moreover have "x \<le> 2 powi e"
  proof -
    have "x < 2 powi (ilog2 x + 1)" using assms(1) by (rule ilog2_bounds)
    also have "\<dots> \<le> 2 powi e" using \<open>ilog2 x < e\<close> by simp
    finally show ?thesis by simp
  qed
  ultimately have "f64 x \<le> 2 powi e" using f64_le_multiple [OF assms(1)] by metis
  also have eq: "2 powi e = of_int (2 ^ 52) * quantum y"
    by (simp add: qy power_int_diff)
  also have "of_int (2 ^ 52) * quantum y \<le> f64 y"
  proof (rule f64_ge_multiple [OF y])
    show "of_int (2 ^ 52) * quantum y \<le> y"
      unfolding eq [symmetric] unfolding e_def by (rule ilog2_bounds(1) [OF y])
  qed
  finally show ?thesis .
qed

theorem f64_mono:
  assumes "x \<le> y"
  shows "f64 x \<le> f64 y"
proof -
  consider "0 < x" | "x \<le> 0" "0 \<le> y" | "y < 0" using assms by linarith
  then show ?thesis
  proof cases
    case 1
    with assms show ?thesis by (intro f64_mono_pos)
  next
    case 2
    have "0 \<le> f64 (- x)" using 2 by (intro f64_nonneg) simp
    then show ?thesis using f64_nonneg [of y] 2 by (simp add: f64_neg)
  next
    case 3
    then have "f64 (- y) \<le> f64 (- x)" using assms by (intro f64_mono_pos) simp_all
    then show ?thesis by (simp add: f64_neg)
  qed
qed

text \<open>Integers of at most 53 bits are exact.\<close>

lemma f64_exact:
  assumes "x = of_int k * 2 powi q" and "quantum x \<le> 2 powi q"
  shows "f64 x = x"
proof (cases "x = 0")
  case False
  define r where "r = max (ilog2 \<bar>x\<bar> - 52) (-1074)"
  have Q: "quantum x = 2 powi r" by (simp add: quantum_def r_def)
  have "r \<le> q" using assms(2) by (simp add: Q)
  then have i: "0 \<le> q - r" by simp
  have "x / quantum x = of_int k * 2 powi (q - r)"
    unfolding Q by (simp add: assms(1) power_int_diff)
  also have "\<dots> = of_int (k * 2 ^ nat (q - r))"
    by (simp only: powi2_int_multiple [OF i] of_int_mult)
  finally have e: "x / quantum x = of_int (k * 2 ^ nat (q - r))" .
  have "f64 x = x / quantum x * quantum x"
    using False by (simp only: f64_def e roundHalfEven_of_int) simp
  then show ?thesis using quantum_pos [of x] by simp
qed simp

lemma f64_of_int:
  assumes "\<bar>n\<bar> < 2 ^ 53"
  shows "f64 (of_int n) = of_int n"
proof (cases "n = 0")
  case False
  have pos: "0 < \<bar>of_int n :: rat\<bar>" using False by simp
  have "2 powi ilog2 \<bar>of_int n\<bar> \<le> \<bar>of_int n :: rat\<bar>"
    using ilog2_bounds(1) [OF pos] by simp
  also have "\<dots> < of_int (2 ^ 53)"
    using assms by (simp only: of_int_less_iff flip: of_int_abs)
  also have "\<dots> = 2 powi 53" using powi2_int_multiple [of 53] by simp
  finally have "ilog2 \<bar>of_int n\<bar> < 53" by (simp only: powi2_less_iff)
  then have "quantum (of_int n) \<le> 2 powi 0"
    by (simp only: quantum_def powi2_le_iff)
  then show ?thesis by (intro f64_exact [of _ n 0]) simp_all
qed simp

section \<open>Relative error\<close>

text \<open>Away from the subnormal range the error is at most \<open>\<bar>x\<bar> / 2 ^ 53\<close>.\<close>

lemma f64_rel_error:
  assumes "2 powi -1022 \<le> \<bar>x\<bar>"
  shows "\<bar>f64 x - x\<bar> \<le> \<bar>x\<bar> / 2 ^ 53"
proof -
  have "(0::rat) < 2 powi -1022" by (rule zero_less_power_int) simp
  then have pos: "0 < \<bar>x\<bar>" using assms by linarith
  have "(2::rat) powi -1022 < 2 powi (ilog2 \<bar>x\<bar> + 1)"
    by (rule le_less_trans [OF assms ilog2_bounds(2) [OF pos]])
  then have "-1022 < ilog2 \<bar>x\<bar> + 1" by (simp only: powi2_less_iff)
  then have "max (ilog2 \<bar>x\<bar> - 52) (-1074) = ilog2 \<bar>x\<bar> - 52" by simp
  then have "quantum x = 2 powi (ilog2 \<bar>x\<bar> - 52)" by (simp only: quantum_def)
  also have "\<dots> = 2 powi ilog2 \<bar>x\<bar> / 2 ^ 52"
    by (simp add: power_int_diff)
  also have "\<dots> \<le> \<bar>x\<bar> / 2 ^ 52"
    by (rule divide_right_mono [OF ilog2_bounds(1) [OF pos]]) simp
  finally show ?thesis using f64_error [of x] by simp
qed

lemma f64_abs_error:
  assumes "\<bar>x\<bar> \<le> B" and "2 powi -1022 \<le> B"
  shows "\<bar>f64 x - x\<bar> \<le> B / 2 ^ 53"
proof (cases "2 powi -1022 \<le> \<bar>x\<bar>")
  case True
  have "\<bar>x\<bar> / 2 ^ 53 \<le> B / 2 ^ 53" using assms(1) by (intro divide_right_mono) simp_all
  with f64_rel_error [OF True] show ?thesis by (rule order_trans)
next
  case False
  show ?thesis
  proof (cases "x = 0")
    case False
    then have pos: "0 < \<bar>x\<bar>" by simp
    have "(2::rat) powi ilog2 \<bar>x\<bar> < 2 powi -1022"
      by (rule le_less_trans [OF ilog2_bounds(1) [OF pos]]) (use \<open>\<not> 2 powi -1022 \<le> \<bar>x\<bar>\<close> in simp)
    then have "ilog2 \<bar>x\<bar> < -1022" by (simp only: powi2_less_iff)
    then have q: "quantum x = 2 powi -1074" by (simp only: quantum_def max_def) simp
    have "(2::rat) powi -1074 / 2 = 2 powi -1022 / 2 ^ 53"
      using power_int_diff [of "2::rat" "-1022" 52] by simp
    also have "\<dots> \<le> B / 2 ^ 53" using assms(2) by (intro divide_right_mono) simp_all
    finally show ?thesis using f64_error [of x] q by simp
  qed (use assms(1) in simp)
qed

end
