(* ===== verification/Profile.thy ===== *)
theory Profile
  imports Prelude Float64
begin

text \<open>
  The normalised coverage model of \<open>internal/profile/profile.go\<close> (blocks, files, profiles,
  their statement counts and the percentage) and the merge of several profiles into one,
  \<open>internal/profile/merge.go\<close>. The lemmas characterise the merge by what it reports for a
  path and a position; its order, its independence of the order of the inputs and the
  canonical form of its output all follow from that.
\<close>

section \<open>Blocks, files and profiles\<close>

record block =
  StartLine :: int
  StartCol :: int
  EndLine :: int
  EndCol :: int
  NumStmts :: int
  Count :: int

record profFile =
  fPath :: string
  fBlocks :: "block list"

record profile =
  Files :: "profFile list"

definition fileCoverage :: "profFile \<Rightarrow> int \<times> int" where
  "fileCoverage f =
     foldl (\<lambda>(covered, total) b.
         (if Count b > 0 then add64 covered (NumStmts b) else covered, add64 total (NumStmts b)))
       (0, 0) (fBlocks f)"

definition profileCoverage :: "profile \<Rightarrow> int \<times> int" where
  "profileCoverage p =
     foldl (\<lambda>(covered, total) f. let (c, t) = fileCoverage f in (add64 covered c, add64 total t))
       (0, 0) (Files p)"

text \<open>\<open>float64(covered) / float64(total) * 100\<close>, each operation rounded.\<close>

definition Percent :: "int \<Rightarrow> int \<Rightarrow> rat" where
  "Percent covered tot =
     (if tot = 0 then 0
      else f64 (f64 (f64 (of_int covered) / f64 (of_int tot)) * 100))"

section \<open>Positions\<close>

text \<open>The struct Go keys the blocks of a file by, ordered as \<open>comparePos\<close> orders blocks.\<close>

datatype blockKey = BlockKey (kStartLine: int) (kStartCol: int) (kEndLine: int) (kEndCol: int)

instantiation blockKey :: linorder
begin

fun less_eq_blockKey :: "blockKey \<Rightarrow> blockKey \<Rightarrow> bool" where
  "less_eq_blockKey (BlockKey a b c d) (BlockKey a' b' c' d') \<longleftrightarrow>
     a < a' \<or> (a = a' \<and> (b < b' \<or> (b = b' \<and> (c < c' \<or> (c = c' \<and> d \<le> d')))))"

fun less_blockKey :: "blockKey \<Rightarrow> blockKey \<Rightarrow> bool" where
  "less_blockKey (BlockKey a b c d) (BlockKey a' b' c' d') \<longleftrightarrow>
     a < a' \<or> (a = a' \<and> (b < b' \<or> (b = b' \<and> (c < c' \<or> (c = c' \<and> d < d')))))"

instance
proof
  fix x y z :: blockKey
  show "x < y \<longleftrightarrow> x \<le> y \<and> \<not> y \<le> x"
    by (cases x; cases y;
        rule linorder_cases [of "kStartLine x" "kStartLine y"];
        rule linorder_cases [of "kStartCol x" "kStartCol y"];
        rule linorder_cases [of "kEndLine x" "kEndLine y"]; simp; linarith)
  show "x \<le> x" by (cases x) simp
  show "x \<le> y \<Longrightarrow> y \<le> z \<Longrightarrow> x \<le> z" by (cases x; cases y; cases z) auto
  show "x \<le> y \<Longrightarrow> y \<le> x \<Longrightarrow> x = y" by (cases x; cases y) auto
  show "x \<le> y \<or> y \<le> x" by (cases x; cases y) auto
qed

end

definition keyOf :: "block \<Rightarrow> blockKey" where
  "keyOf b = BlockKey (StartLine b) (StartCol b) (EndLine b) (EndCol b)"

definition comparePos :: "block \<Rightarrow> block \<Rightarrow> int" where
  "comparePos a b =
     cmpOr [cmpCompare (StartLine a) (StartLine b), cmpCompare (StartCol a) (StartCol b),
            cmpCompare (EndLine a) (EndLine b), cmpCompare (EndCol a) (EndCol b)]"

text \<open>Sorting by \<open>comparePos\<close> is sorting by \<open>keyOf\<close>.\<close>

lemma cmpOr_sign:
  "cmpOr (cmpCompare a b # cs) < 0 \<longleftrightarrow> a < b \<or> a = b \<and> cmpOr cs < 0"
  "cmpOr (cmpCompare a b # cs) = 0 \<longleftrightarrow> a = b \<and> cmpOr cs = 0"
  by (auto simp: cmpCompare_def)

lemma comparePos_keyOf:
  "comparePos a b < 0 \<longleftrightarrow> keyOf a < keyOf b"
  "comparePos a b = 0 \<longleftrightarrow> keyOf a = keyOf b"
  "0 \<le> comparePos a b \<longleftrightarrow> keyOf b \<le> keyOf a"
proof -
  show less: "comparePos a b < 0 \<longleftrightarrow> keyOf a < keyOf b"
    unfolding comparePos_def cmpOr_sign keyOf_def by simp
  show "comparePos a b = 0 \<longleftrightarrow> keyOf a = keyOf b"
    unfolding comparePos_def cmpOr_sign keyOf_def by simp
  show "0 \<le> comparePos a b \<longleftrightarrow> keyOf b \<le> keyOf a"
    using less by (simp flip: not_less)
qed

definition Canonical :: "block list \<Rightarrow> bool" where
  "Canonical blocks \<longleftrightarrow>
     (\<forall>i \<in> set [1..<length blocks]. \<not> comparePos (blocks ! (i - 1)) (blocks ! i) \<ge> 0)"

lemma Canonical_strict: "Canonical blocks \<longleftrightarrow> sorted_wrt (<) (map keyOf blocks)"
proof -
  have "Canonical blocks \<longleftrightarrow> (\<forall>j. Suc j < length blocks \<longrightarrow> keyOf (blocks ! j) < keyOf (blocks ! Suc j))"
    (is "_ \<longleftrightarrow> (\<forall>j. ?P j)")
  proof
    assume c: "Canonical blocks"
    show "\<forall>j. ?P j"
    proof (intro allI impI)
      fix j assume "Suc j < length blocks"
      then have "Suc j \<in> set [1..<length blocks]" by simp
      with c show "keyOf (blocks ! j) < keyOf (blocks ! Suc j)"
        unfolding Canonical_def comparePos_keyOf not_le by fastforce
    qed
  next
    assume P: "\<forall>j. ?P j"
    show "Canonical blocks"
      unfolding Canonical_def comparePos_keyOf not_le
    proof
      fix i assume "i \<in> set [1..<length blocks]"
      then show "keyOf (blocks ! (i - 1)) < keyOf (blocks ! i)"
        using P [rule_format, of "i - 1"] by simp
    qed
  qed
  also have "\<dots> \<longleftrightarrow> sorted_wrt (<) (map keyOf blocks)"
    by (subst sorted_wrt_iff_nth_Suc_transp) (auto simp: transp_on_def)
  finally show ?thesis .
qed

section \<open>Merge\<close>

text \<open>
  \<open>byFile\<close> is Go's map of maps. \<open>combine\<close> is what the inner loop does to the block already
  kept at a position.
\<close>

definition combine :: "block \<Rightarrow> block \<Rightarrow> block" where
  "combine ex b =
     (let ex' = ex\<lparr>Count := add64 (Count ex) (Count b)\<rparr>
      in if NumStmts b > NumStmts ex' then ex'\<lparr>NumStmts := NumStmts b\<rparr> else ex')"

definition addBlock :: "(blockKey, block) gomap \<Rightarrow> block \<Rightarrow> (blockKey, block) gomap" where
  "addBlock blocks b =
     (case map_of blocks (keyOf b) of
        Some ex \<Rightarrow> AList.update (keyOf b) (combine ex b) blocks
      | None \<Rightarrow> AList.update (keyOf b) b blocks)"

definition addFile ::
  "(string, (blockKey, block) gomap) gomap \<Rightarrow> profFile \<Rightarrow> (string, (blockKey, block) gomap) gomap" where
  "addFile byFile f =
     (let blocks = (case map_of byFile (fPath f) of None \<Rightarrow> [] | Some m \<Rightarrow> m)
      in AList.update (fPath f) (foldl addBlock blocks (fBlocks f)) byFile)"

definition addProfile ::
  "(string, (blockKey, block) gomap) gomap \<Rightarrow> profile option
    \<Rightarrow> (string, (blockKey, block) gomap) gomap" where
  "addProfile byFile p = (case p of None \<Rightarrow> byFile | Some q \<Rightarrow> foldl addFile byFile (Files q))"

definition emit :: "(string, (blockKey, block) gomap) gomap \<Rightarrow> string \<Rightarrow> profFile" where
  "emit byFile path =
     (let blocks = (case map_of byFile path of None \<Rightarrow> [] | Some m \<Rightarrow> m)
      in \<lparr>fPath = path, fBlocks = sort_key keyOf (map snd blocks)\<rparr>)"

definition Merge :: "profile option list \<Rightarrow> profile" where
  "Merge profiles =
     (let byFile = foldl addProfile [] profiles
      in \<lparr>Files = map (emit byFile) (sort (keysOf byFile))\<rparr>)"

section \<open>What the merge holds\<close>

text \<open>
  The reference view: all files in order, the blocks they hold for a path, and the blocks
  among those at one position, combined from left to right.
\<close>

definition filesOf :: "profile option list \<Rightarrow> profFile list" where
  "filesOf ps = concat (map (\<lambda>p. case p of None \<Rightarrow> [] | Some q \<Rightarrow> Files q) ps)"

definition blocksOf :: "profFile list \<Rightarrow> string \<Rightarrow> block list" where
  "blocksOf fs p = concat (map fBlocks (filter (\<lambda>f. fPath f = p) fs))"

definition accBlock :: "block option \<Rightarrow> block \<Rightarrow> block option" where
  "accBlock acc b = Some (case acc of None \<Rightarrow> b | Some ex \<Rightarrow> combine ex b)"

definition combineAll :: "block list \<Rightarrow> block option" where
  "combineAll bs = foldl accBlock None bs"

definition blockAt :: "profFile list \<Rightarrow> string \<Rightarrow> blockKey \<Rightarrow> block option" where
  "blockAt fs p k = combineAll (filter (\<lambda>b. keyOf b = k) (blocksOf fs p))"

lemma combine_fields [simp]:
  "StartLine (combine a b) = StartLine a" "StartCol (combine a b) = StartCol a"
  "EndLine (combine a b) = EndLine a" "EndCol (combine a b) = EndCol a"
  "Count (combine a b) = add64 (Count a) (Count b)"
  "NumStmts (combine a b) = max (NumStmts a) (NumStmts b)"
  "keyOf (combine a b) = keyOf a"
  by (auto simp: combine_def Let_def keyOf_def)

lemma block_eqI:
  "keyOf a = keyOf (b::block) \<Longrightarrow> NumStmts a = NumStmts b \<Longrightarrow> Count a = Count b \<Longrightarrow> a = b"
  by (simp add: keyOf_def)

text \<open>A map of blocks is well formed when every block sits under its own position.\<close>

definition wfBlocks :: "(blockKey, block) gomap \<Rightarrow> bool" where
  "wfBlocks m \<longleftrightarrow> wfMap m \<and> (\<forall>k b. map_of m k = Some b \<longrightarrow> keyOf b = k)"

lemma addBlock_lookup:
  "map_of (addBlock m b) k = (if k = keyOf b then accBlock (map_of m k) b else map_of m k)"
  by (auto simp: addBlock_def accBlock_def split: option.splits)

lemma addBlock_wf: "wfBlocks m \<Longrightarrow> wfBlocks (addBlock m b)"
  by (auto simp: wfBlocks_def addBlock_lookup accBlock_def split: option.splits if_splits)
     (auto simp: addBlock_def split: option.splits)

lemma foldl_addBlock_lookup:
  "map_of (foldl addBlock m bs) k = foldl accBlock (map_of m k) (filter (\<lambda>b. keyOf b = k) bs)"
  by (induction bs arbitrary: m) (auto simp: addBlock_lookup)

lemma foldl_addBlock_wf: "wfBlocks m \<Longrightarrow> wfBlocks (foldl addBlock m bs)"
  by (induction bs arbitrary: m) (auto simp: addBlock_wf)

definition innerMap :: "(string, (blockKey, block) gomap) gomap \<Rightarrow> string \<Rightarrow> (blockKey, block) gomap" where
  "innerMap byFile p = (case map_of byFile p of None \<Rightarrow> [] | Some m \<Rightarrow> m)"

definition wfByFile :: "(string, (blockKey, block) gomap) gomap \<Rightarrow> bool" where
  "wfByFile byFile \<longleftrightarrow> wfMap byFile \<and> (\<forall>p. wfBlocks (innerMap byFile p))"

lemma innerMap_addFile:
  "innerMap (addFile byFile f) p =
     (if p = fPath f then foldl addBlock (innerMap byFile p) (fBlocks f) else innerMap byFile p)"
  by (simp add: innerMap_def addFile_def Let_def)

lemma addFile_wf: "wfByFile byFile \<Longrightarrow> wfByFile (addFile byFile f)"
  by (auto simp: wfByFile_def innerMap_addFile foldl_addBlock_wf) (simp add: addFile_def Let_def)

lemma addFile_keys: "set (keysOf (addFile byFile f)) = insert (fPath f) (set (keysOf byFile))"
  by (simp add: addFile_def Let_def dom_update)

text \<open>The whole scan is one pass over the files in order.\<close>

lemma addProfile_files: "foldl addProfile byFile ps = foldl addFile byFile (filesOf ps)"
  by (induction ps arbitrary: byFile) (simp_all add: filesOf_def addProfile_def split: option.split)

lemma foldl_addFile_wf: "wfByFile byFile \<Longrightarrow> wfByFile (foldl addFile byFile fs)"
  by (induction fs arbitrary: byFile) (simp_all add: addFile_wf)

lemma foldl_addFile_keys:
  "set (keysOf (foldl addFile byFile fs)) = set (keysOf byFile) \<union> set (map fPath fs)"
  by (induction fs arbitrary: byFile) (simp_all add: addFile_keys del: set_map)

lemma foldl_addFile_inner:
  "innerMap (foldl addFile byFile fs) p = foldl addBlock (innerMap byFile p) (blocksOf fs p)"
  by (induction fs arbitrary: byFile) (simp_all add: innerMap_addFile blocksOf_def)

abbreviation byFileOf :: "profile option list \<Rightarrow> (string, (blockKey, block) gomap) gomap" where
  "byFileOf ps \<equiv> foldl addFile [] (filesOf ps)"

lemma byFileOf_wf: "wfByFile (byFileOf ps)"
  by (rule foldl_addFile_wf) (simp add: wfByFile_def innerMap_def wfBlocks_def)

lemma byFileOf_lookup: "map_of (innerMap (byFileOf ps) p) k = blockAt (filesOf ps) p k"
  by (simp add: foldl_addFile_inner foldl_addBlock_lookup blockAt_def combineAll_def)
     (simp add: innerMap_def)

lemma Merge_unfold:
  "Files (Merge ps) = map (emit (byFileOf ps)) (sorted_list_of_set (set (map fPath (filesOf ps))))"
proof -
  have "sort (keysOf (byFileOf ps)) = sorted_list_of_set (set (keysOf (byFileOf ps)))"
    using byFileOf_wf [of ps]
    by (simp only: sorted_list_of_set_sort_remdups wfByFile_def wfMap_def distinct_remdups_id)
  then show ?thesis
    by (simp only: Merge_def Let_def addProfile_files foldl_addFile_keys profile.select_convs) simp
qed

lemma emit_path [simp]: "fPath (emit m p) = p"
  by (simp add: emit_def Let_def)

lemma emit_blocks:
  assumes "wfBlocks (innerMap m p)"
  shows "sorted_wrt (<) (map keyOf (fBlocks (emit m p)))"
    and "set (fBlocks (emit m p)) = {b. map_of (innerMap m p) (keyOf b) = Some b}"
proof -
  let ?m = "innerMap m p"
  have e: "fBlocks (emit m p) = sort_key keyOf (map snd ?m)"
    by (simp add: emit_def innerMap_def Let_def)
  have wf: "wfMap ?m" and k: "\<And>k b. (k, b) \<in> set ?m \<Longrightarrow> keyOf b = k"
    using assms by (auto simp: wfBlocks_def wfMap_map_of)
  have "map keyOf (map snd ?m) = keysOf ?m"
    using k by (auto simp: map_eq_conv)
  then have "distinct (map keyOf (map snd ?m))" using wf by (simp only: wfMap_def)
  then show "sorted_wrt (<) (map keyOf (fBlocks (emit m p)))"
    unfolding e by (rule sort_key_strict)
  show "set (fBlocks (emit m p)) = {b. map_of ?m (keyOf b) = Some b}"
    using k by (force simp: e simp flip: wfMap_map_of [OF wf])
qed

lemma Merge_paths: "map fPath (Files (Merge ps)) = sorted_list_of_set (set (map fPath (filesOf ps)))"
  by (simp add: Merge_unfold comp_def)

lemma Merge_file:
  assumes "f \<in> set (Files (Merge ps))"
  shows "Canonical (fBlocks f)"
    and "b \<in> set (fBlocks f) \<longleftrightarrow> blockAt (filesOf ps) (fPath f) (keyOf b) = Some b"
proof -
  obtain p where f: "f = emit (byFileOf ps) p" using assms by (auto simp: Merge_unfold)
  have wf: "wfBlocks (innerMap (byFileOf ps) p)" using byFileOf_wf by (simp add: wfByFile_def)
  show "Canonical (fBlocks f)" using emit_blocks(1) [OF wf] by (simp add: Canonical_strict f)
  show "b \<in> set (fBlocks f) \<longleftrightarrow> blockAt (filesOf ps) (fPath f) (keyOf b) = Some b"
    using emit_blocks(2) [OF wf] by (simp add: f byFileOf_lookup)
qed

text \<open>Files are determined by their paths and what they hold at each position.\<close>

lemma canonical_files_eq:
  fixes fs gs :: "profFile list"
  assumes p: "map fPath fs = map fPath gs"
    and c: "\<forall>f \<in> set fs. Canonical (fBlocks f)" "\<forall>g \<in> set gs. Canonical (fBlocks g)"
    and b: "\<And>f g. f \<in> set fs \<Longrightarrow> g \<in> set gs \<Longrightarrow> fPath f = fPath g
        \<Longrightarrow> set (fBlocks f) = set (fBlocks g)"
  shows "fs = gs"
proof (rule nth_equalityI)
  show len: "length fs = length gs" using p by (metis length_map)
  fix i assume i: "i < length fs"
  let ?f = "fs ! i" and ?g = "gs ! i"
  have m: "?f \<in> set fs" "?g \<in> set gs" using i len by simp_all
  have path: "fPath ?f = fPath ?g" using p i len by (metis nth_map)
  have st: "sorted_wrt (<) (map keyOf (fBlocks ?f))" "sorted_wrt (<) (map keyOf (fBlocks ?g))"
    using c m by (simp_all add: Canonical_strict)
  then have "distinct (fBlocks ?f)" "distinct (fBlocks ?g)"
    by (simp_all add: strict_sorted_iff distinct_map)
  then have "mset (fBlocks ?f) = mset (fBlocks ?g)"
    using b [OF m path] by (simp add: set_eq_iff_mset_eq_distinct)
  then have "fBlocks ?f = fBlocks ?g" using st by (intro sorted_strict_unique [of keyOf])
  with path show "?f = ?g" by simp
qed

lemma Merge_cong:
  assumes "set (map fPath (filesOf ps)) = set (map fPath (filesOf qs))"
    and "\<And>p k. blockAt (filesOf ps) p k = blockAt (filesOf qs) p k"
  shows "Merge ps = Merge qs"
proof -
  have "Files (Merge ps) = Files (Merge qs)"
    by (rule canonical_files_eq)
       (auto simp only: Merge_paths assms Merge_file(1) Merge_file(2))
  then show ?thesis by simp
qed

section \<open>Order, canonical inputs, repeated merging\<close>

lemma combineAll_Nil [simp]: "combineAll [] = None"
  by (simp add: combineAll_def)

lemma combineAll_snoc: "combineAll (bs @ [b]) = accBlock (combineAll bs) b"
  by (simp add: combineAll_def)

lemma foldl_accBlock_Some:
  "foldl accBlock (Some b) bs = Some (foldl combine b bs)"
  by (induction bs arbitrary: b) (simp_all add: accBlock_def)

lemma combineAll_Cons: "combineAll (b # bs) = Some (foldl combine b bs)"
  by (simp add: combineAll_def foldl_accBlock_Some [symmetric]) (simp add: accBlock_def)

lemma foldl_combine_fields:
  "keyOf (foldl combine b bs) = keyOf b"
  "NumStmts (foldl combine b bs) = foldl max (NumStmts b) (map NumStmts bs)"
  "Count (foldl combine b bs) = foldl add64 (Count b) (map Count bs)"
  by (induction bs arbitrary: b) simp_all

lemma combine_swap: "combine (combine e a) b = combine (combine e b) a"
  by (rule block_eqI) (auto simp: add64_assoc add64_commute [of "Count a"] max.assoc
    max.commute [of "NumStmts a"])

lemma combine_comm: "keyOf a = keyOf b \<Longrightarrow> combine a b = combine b a"
  by (rule block_eqI) (auto simp: add64_commute [of "Count a"] max.commute [of "NumStmts a"])

lemma accBlock_swap:
  "keyOf a = keyOf b \<Longrightarrow> accBlock (accBlock acc a) b = accBlock (accBlock acc b) a"
  by (auto simp: accBlock_def combine_swap combine_comm split: option.split)

lemma combineAll_perm:
  assumes "mset bs = mset cs" and "\<forall>b \<in> set bs. keyOf b = k"
  shows "combineAll bs = combineAll cs"
proof -
  have "fold (\<lambda>b acc. accBlock acc b) bs = fold (\<lambda>b acc. accBlock acc b) cs"
    using assms by (intro fold_multiset_equiv) (auto simp: fun_eq_iff intro: accBlock_swap)
  then show ?thesis by (simp add: combineAll_def foldl_conv_fold)
qed

lemma mset_blocksOf_eq:
  "mset (blocksOf fs p)
     = sum_mset (image_mset (\<lambda>f. mset (fBlocks f)) (filter_mset (\<lambda>f. fPath f = p) (mset fs)))"
  by (induction fs) (simp_all add: blocksOf_def)

lemma mset_blocksOf: "mset fs = mset gs \<Longrightarrow> mset (blocksOf fs p) = mset (blocksOf gs p)"
  by (simp only: mset_blocksOf_eq)

lemma blockAt_perm: "mset fs = mset gs \<Longrightarrow> blockAt fs p k = blockAt gs p k"
  unfolding blockAt_def
  by (rule combineAll_perm [of _ _ k]) (auto dest!: mset_blocksOf [of _ _ p])

theorem Merge_perm:
  assumes "mset (filesOf ps) = mset (filesOf qs)"
  shows "Merge ps = Merge qs"
  by (rule Merge_cong) (simp_all add: mset_eq_setD [OF assms] blockAt_perm [OF assms])

text \<open>Files that are already canonical come back as they are.\<close>

definition canonicalProfile :: "profile \<Rightarrow> bool" where
  "canonicalProfile p \<longleftrightarrow>
     sorted_wrt (<) (map fPath (Files p)) \<and> (\<forall>f \<in> set (Files p). Canonical (fBlocks f))"

lemma blocksOf_distinct:
  "distinct (map fPath fs) \<Longrightarrow> f \<in> set fs \<Longrightarrow> blocksOf fs (fPath f) = fBlocks f"
proof (induction fs)
  case (Cons g fs)
  show ?case
  proof (cases "f = g")
    case True
    then have "filter (\<lambda>h. fPath h = fPath g) fs = []"
      using Cons.prems by (auto simp: filter_empty_conv rev_image_eqI)
    then show ?thesis using True by (simp add: blocksOf_def)
  next
    case False
    then have "f \<in> set fs" "fPath g \<noteq> fPath f" using Cons.prems by auto
    then show ?thesis using Cons by (simp add: blocksOf_def)
  qed
qed simp

lemma combineAll_distinct:
  assumes "distinct (map keyOf bs)"
  shows "combineAll (filter (\<lambda>b. keyOf b = k) bs) = Some b \<longleftrightarrow> b \<in> set bs \<and> keyOf b = k"
  using assms
proof (induction bs)
  case (Cons c bs)
  show ?case
  proof (cases "keyOf c = k")
    case True
    then have "filter (\<lambda>b. keyOf b = k) bs = []"
      using Cons.prems by (auto simp: filter_empty_conv rev_image_eqI)
    moreover have "b \<in> set bs \<Longrightarrow> keyOf b \<noteq> k"
      using True Cons.prems by (auto simp: rev_image_eqI)
    ultimately show ?thesis using True by (auto simp: combineAll_Cons)
  next
    case False
    then show ?thesis using Cons by auto
  qed
qed simp

lemma blockAt_canonical:
  assumes "canonicalProfile p" and "f \<in> set (Files p)"
  shows "blockAt (Files p) (fPath f) k = Some b \<longleftrightarrow> b \<in> set (fBlocks f) \<and> keyOf b = k"
proof -
  have "distinct (map fPath (Files p))" "distinct (map keyOf (fBlocks f))"
    using assms by (auto simp: canonicalProfile_def Canonical_strict strict_sorted_iff)
  then show ?thesis
    using assms(2) by (simp add: blockAt_def blocksOf_distinct combineAll_distinct)
qed

lemma Merge_canonical: "canonicalProfile (Merge ps)"
  by (simp add: canonicalProfile_def Merge_paths Merge_file(1))

lemma filesOf_simps [simp]:
  "filesOf [] = []" "filesOf (None # ps) = filesOf ps"
  "filesOf (Some p # ps) = Files p @ filesOf ps"
  "filesOf (ps @ qs) = filesOf ps @ filesOf qs"
  by (simp_all add: filesOf_def)

theorem Merge_single:
  assumes "canonicalProfile p"
  shows "Merge [Some p] = p"
proof -
  have "Files (Merge [Some p]) = Files p"
  proof (rule canonical_files_eq)
    have s: "sorted_wrt (<) (map fPath (Files p))" using assms by (simp add: canonicalProfile_def)
    have "sorted_list_of_set (set (map fPath (Files p))) = map fPath (Files p)"
      using s by (simp only: sorted_list_of_set.idem_if_sorted_distinct strict_sorted_iff)
    then show "map fPath (Files (Merge [Some p])) = map fPath (Files p)"
      by (simp only: Merge_paths filesOf_simps append_Nil2)
    show "\<forall>f \<in> set (Files (Merge [Some p])). Canonical (fBlocks f)" by (simp add: Merge_file(1))
    show "\<forall>g \<in> set (Files p). Canonical (fBlocks g)" using assms by (simp add: canonicalProfile_def)
    fix f g
    assume "f \<in> set (Files (Merge [Some p]))" "g \<in> set (Files p)" "fPath f = fPath g"
    then show "set (fBlocks f) = set (fBlocks g)"
      using assms by (auto simp: Merge_file(2) blockAt_canonical)
  qed
  then show ?thesis by simp
qed

lemma blocksOf_append: "blocksOf (fs @ gs) p = blocksOf fs p @ blocksOf gs p"
  by (simp add: blocksOf_def)

lemma blocksOf_none: "p \<notin> set (map fPath fs) \<Longrightarrow> blocksOf fs p = []"
  by (auto simp: blocksOf_def filter_empty_conv)

lemma blockAt_Merge: "blockAt (Files (Merge ps)) p k = blockAt (filesOf ps) p k"
proof (cases "p \<in> set (map fPath (Files (Merge ps)))")
  case True
  then obtain f where f: "f \<in> set (Files (Merge ps))" "fPath f = p" by auto
  have key: "keyOf b = k" if "blockAt (filesOf ps) p k = Some b" for b
    using that unfolding blockAt_def
    by (cases "filter (\<lambda>b. keyOf b = k) (blocksOf (filesOf ps) p)")
       (auto simp: combineAll_Cons foldl_combine_fields filter_eq_Cons_iff)
  have "blockAt (Files (Merge ps)) p k = Some b \<longleftrightarrow> blockAt (filesOf ps) p k = Some b" for b
    using blockAt_canonical [OF Merge_canonical f(1), of k b] Merge_file(2) [OF f(1), of b] f(2) key
    by auto
  then show ?thesis by (metis not_None_eq)
next
  case False
  then have "p \<notin> set (map fPath (filesOf ps))" by (simp add: Merge_paths del: set_map)
  then show ?thesis using False by (simp add: blockAt_def blocksOf_none del: set_map)
qed

theorem Merge_Merge: "Merge (Some (Merge ps) # qs) = Merge (ps @ qs)"
proof (rule Merge_cong)
  show "set (map fPath (filesOf (Some (Merge ps) # qs))) = set (map fPath (filesOf (ps @ qs)))"
    by (simp add: Merge_paths flip: list.set_map [of fPath "Files (Merge ps)"])
  fix p k
  have "combineAll (bs @ cs) = foldl accBlock (combineAll bs) cs" for bs cs
    by (simp add: combineAll_def)
  then show "blockAt (filesOf (Some (Merge ps) # qs)) p k = blockAt (filesOf (ps @ qs)) p k"
    using blockAt_Merge [of ps p k] by (simp add: blockAt_def blocksOf_append)
qed

section \<open>Counts of the merge\<close>

text \<open>The hit counts the inputs report for one position of one path, in input order.\<close>

definition hitsAt :: "profile option list \<Rightarrow> string \<Rightarrow> blockKey \<Rightarrow> int list" where
  "hitsAt ps p k = map Count (filter (\<lambda>b. keyOf b = k) (blocksOf (filesOf ps) p))"

lemma foldl_add64_sum:
  assumes "0 \<le> c" and "\<forall>x \<in> set xs. 0 \<le> x" and "c + sum_list xs \<le> maxInt64"
  shows "foldl add64 c xs = c + sum_list xs"
  using assms
proof (induction xs arbitrary: c)
  case (Cons x xs)
  have "0 \<le> sum_list xs" using Cons.prems by (intro sum_list_nonneg) simp
  then have "add64 c x = c + x" using Cons.prems by (intro add64_nonneg_id) simp_all
  then show ?case using Cons by simp
qed simp

lemma Merge_member:
  assumes "f \<in> set (Files (Merge ps))" and "b \<in> set (fBlocks f)"
  obtains c cs where
    "filter (\<lambda>c. keyOf c = keyOf b) (blocksOf (filesOf ps) (fPath f)) = c # cs"
    "b = foldl combine c cs"
proof -
  have "combineAll (filter (\<lambda>c. keyOf c = keyOf b) (blocksOf (filesOf ps) (fPath f))) = Some b"
    using Merge_file(2) [OF assms(1), of b] assms(2) by (simp add: blockAt_def)
  then show ?thesis using that
    by (cases "filter (\<lambda>c. keyOf c = keyOf b) (blocksOf (filesOf ps) (fPath f))")
       (auto simp: combineAll_Cons)
qed

lemma Merge_count:
  assumes "f \<in> set (Files (Merge ps))" and "b \<in> set (fBlocks f)"
    and "\<forall>n \<in> set (hitsAt ps (fPath f) (keyOf b)). 0 \<le> n"
    and "sum_list (hitsAt ps (fPath f) (keyOf b)) \<le> maxInt64"
  shows "Count b = sum_list (hitsAt ps (fPath f) (keyOf b))"
proof -
  obtain c cs where
    c: "filter (\<lambda>c. keyOf c = keyOf b) (blocksOf (filesOf ps) (fPath f)) = c # cs"
    "b = foldl combine c cs"
    using assms(1,2) by (rule Merge_member)
  then have h: "hitsAt ps (fPath f) (keyOf b) = Count c # map Count cs" by (simp add: hitsAt_def)
  have "foldl add64 (Count c) (map Count cs) = Count c + sum_list (map Count cs)"
    using assms(3,4) by (intro foldl_add64_sum) (simp_all add: h)
  moreover have "Count b = foldl add64 (Count c) (map Count cs)"
    using c(2) by (simp add: foldl_combine_fields)
  ultimately show ?thesis by (simp add: h)
qed

lemma sum_list_pos_iff:
  "\<forall>x \<in> set xs. (0::int) \<le> x \<Longrightarrow> 0 < sum_list xs \<longleftrightarrow> (\<exists>x \<in> set xs. 0 < x)"
proof (induction xs)
  case (Cons x xs)
  then have "0 \<le> sum_list xs" by (intro sum_list_nonneg) simp
  then show ?case using Cons by auto
qed simp

text \<open>All blocks the inputs report for one position of one path.\<close>

definition occurrences :: "profile option list \<Rightarrow> string \<Rightarrow> blockKey \<Rightarrow> block list" where
  "occurrences ps p k = filter (\<lambda>c. keyOf c = k) (blocksOf (filesOf ps) p)"

lemma foldl_max: "foldl max (a::'a::linorder) xs = Max (set (a # xs))"
proof (induction xs arbitrary: a)
  case (Cons x xs)
  then show ?case by (cases "xs = []") (simp_all add: max.assoc)
qed simp

lemma Merge_numStmts:
  assumes "f \<in> set (Files (Merge ps))" and "b \<in> set (fBlocks f)"
  shows "NumStmts b = Max (NumStmts ` set (occurrences ps (fPath f) (keyOf b)))"
proof -
  obtain c cs where
    c: "occurrences ps (fPath f) (keyOf b) = c # cs" "b = foldl combine c cs"
    using assms unfolding occurrences_def by (rule Merge_member)
  have "NumStmts b = Max (set (map NumStmts (c # cs)))"
    by (simp only: c(2) foldl_combine_fields foldl_max list.map)
  then show ?thesis by (simp only: c(1) set_map)
qed

lemma filesOf_filter: "filesOf (filter (\<lambda>p. p \<noteq> None) ps) = filesOf ps"
  by (induction ps) (auto simp: filesOf_def split: option.split)

lemma mset_filesOf:
  assumes "mset (filter (\<lambda>p. p \<noteq> None) ps) = mset (filter (\<lambda>p. p \<noteq> None) qs)"
  shows "mset (filesOf ps) = mset (filesOf qs)"
proof -
  have "mset (filesOf xs) = sum_mset (image_mset (\<lambda>p. mset (filesOf [p])) (mset xs))" for xs
    by (induction xs) (simp_all add: filesOf_def)
  then show ?thesis using assms filesOf_filter by metis
qed

section \<open>The percentage\<close>

text \<open>
  How far the floating-point \<open>Percent\<close> is from the exact ratio. Four roundings (the two
  conversions, the quotient, the product) keep it within \<open>2 ^ -43\<close>, ten thousand times less
  than the tolerance the gate allows for it.
\<close>

lemma f64_of_int_error: "\<bar>f64 (of_int n) - of_int n\<bar> \<le> \<bar>of_int n\<bar> / 2 ^ 53"
proof (cases "n = 0")
  case False
  have "(2::rat) powi -1022 \<le> 2 powi 0" by (simp only: powi2_le_iff)
  also have "\<dots> \<le> \<bar>of_int n\<bar>" using False by simp
  finally show ?thesis by (rule f64_rel_error)
qed simp

lemma f64_of_int_pos:
  assumes "0 < n"
  shows "of_int n / 2 < f64 (of_int n)"
proof -
  have "of_int n - f64 (of_int n) \<le> of_int n / 2 ^ 53"
  proof -
    have "\<bar>of_int n :: rat\<bar> = of_int n" using assms by simp
    then show ?thesis using f64_of_int_error [of n] by linarith
  qed
  moreover have "(of_int n :: rat) / 2 ^ 53 < of_int n / 2"
    using assms by (intro divide_strict_left_mono) simp_all
  ultimately show ?thesis by (simp add: field_simps)
qed

lemma f64_quotient_error:
  assumes t: "0 < t" and c: "0 \<le> c" "c \<le> t"
  shows "\<bar>f64 (of_int c) / f64 (of_int t) - of_int c / of_int t\<bar> \<le> 4 / 2 ^ 53"
proof -
  let ?c = "of_int c :: rat" and ?t = "of_int t :: rat"
  define C where "C = f64 ?c"
  define T where "T = f64 ?t"
  have C: "\<bar>C - ?c\<bar> \<le> ?c / 2 ^ 53" and T: "\<bar>T - ?t\<bar> \<le> ?t / 2 ^ 53"
    using f64_of_int_error [of c] f64_of_int_error [of t] assms by (simp_all add: C_def T_def)
  have tp: "0 < ?t" and Tp: "?t / 2 < T"
    using t f64_of_int_pos [OF t] by (simp_all add: T_def)
  have num: "\<bar>C * ?t - ?c * T\<bar> \<le> 2 * ?t * ?t / 2 ^ 53"
  proof -
    have "C * ?t - ?c * T = (C - ?c) * ?t - ?c * (T - ?t)" by (simp add: algebra_simps)
    then have "\<bar>C * ?t - ?c * T\<bar> \<le> \<bar>(C - ?c) * ?t\<bar> + \<bar>?c * (T - ?t)\<bar>"
      by (metis abs_triangle_ineq4)
    also have "\<dots> = \<bar>C - ?c\<bar> * ?t + ?c * \<bar>T - ?t\<bar>" using c tp by (simp add: abs_mult)
    also have "\<dots> \<le> ?c / 2 ^ 53 * ?t + ?c * (?t / 2 ^ 53)"
      using C T tp c by (intro add_mono mult_right_mono mult_left_mono) simp_all
    also have "\<dots> = 2 * (?c * ?t) / 2 ^ 53" by (simp add: field_simps)
    also have "\<dots> \<le> 2 * (?t * ?t) / 2 ^ 53"
      using c tp by (intro divide_right_mono mult_left_mono mult_right_mono) simp_all
    finally show ?thesis by (simp add: mult.assoc)
  qed
  have Tpos: "0 < T" using tp Tp by (meson half_gt_zero less_trans)
  have "C / T - ?c / ?t = (C * ?t - ?c * T) / (T * ?t)"
    using tp Tpos by (simp add: field_simps)
  then have "\<bar>C / T - ?c / ?t\<bar> = \<bar>C * ?t - ?c * T\<bar> / (T * ?t)"
    using tp Tpos by (simp add: abs_divide abs_mult)
  also have "\<dots> \<le> (2 * ?t * ?t / 2 ^ 53) / (T * ?t)"
    using num tp Tpos by (intro divide_right_mono) simp_all
  also have "\<dots> \<le> (2 * ?t * ?t / 2 ^ 53) / (?t / 2 * ?t)"
    using tp Tp by (intro divide_left_mono mult_right_mono mult_pos_pos) simp_all
  also have "\<dots> = 4 / 2 ^ 53" using tp by (simp add: field_simps)
  finally show ?thesis by (simp add: C_def T_def)
qed

lemma powi_le_small: "1 \<le> B \<Longrightarrow> (2::rat) powi -1022 \<le> B"
  by (rule order_trans [of _ "2 powi 0"]) (simp_all only: powi2_le_iff, simp_all)

lemma Percent_error:
  assumes t: "0 < t" and c: "0 \<le> c" "c \<le> t"
  shows "\<bar>Percent c t - 100 * of_int c / of_int t\<bar> \<le> 1 / 2 ^ 43"
proof -
  let ?r = "of_int c / of_int t :: rat"
  define Q where "Q = f64 (of_int c) / f64 (of_int t)"
  have u: "(6::rat) / 2 ^ 53 \<le> 1 / 4" by simp
  have r: "0 \<le> ?r" "?r \<le> 1" using assms by simp_all
  have Q: "\<bar>Q - ?r\<bar> \<le> 4 / 2 ^ 53" unfolding Q_def by (rule f64_quotient_error) fact+
  then have "\<bar>Q\<bar> \<le> 2" using r u by linarith
  then have Q2: "\<bar>f64 Q - Q\<bar> \<le> 2 / 2 ^ 53" by (rule f64_abs_error) (rule powi_le_small, simp)
  have F: "\<bar>f64 Q - ?r\<bar> \<le> 6 / 2 ^ 53" using Q Q2 by linarith
  then have "\<bar>f64 Q * 100\<bar> \<le> 128" using r u by linarith
  then have P: "\<bar>f64 (f64 Q * 100) - f64 Q * 100\<bar> \<le> 128 / 2 ^ 53"
    by (rule f64_abs_error) (rule powi_le_small, simp)
  have "\<bar>f64 Q * 100 - 100 * ?r\<bar> \<le> 600 / 2 ^ 53" using F by linarith
  then have "\<bar>f64 (f64 Q * 100) - 100 * ?r\<bar> \<le> 728 / 2 ^ 53" using P by linarith
  moreover have "Percent c t = f64 (f64 Q * 100)" using t by (simp add: Percent_def Q_def)
  ultimately show ?thesis by simp
qed

lemma f64_of_int_gt0: "0 < n \<Longrightarrow> 0 < f64 (of_int n)"
  using f64_of_int_pos [of n] by (meson half_gt_zero less_trans of_int_0_less_iff)

lemma Percent_mono:
  assumes "0 < t" and "c \<le> c'"
  shows "Percent c t \<le> Percent c' t"
proof -
  have "f64 (of_int c) / f64 (of_int t) \<le> f64 (of_int c') / f64 (of_int t)"
    using assms f64_of_int_gt0 [of t] by (intro divide_right_mono f64_mono) simp_all
  then have "f64 (f64 (of_int c) / f64 (of_int t)) * 100 \<le> f64 (f64 (of_int c') / f64 (of_int t)) * 100"
    by (intro mult_right_mono f64_mono) simp_all
  then show ?thesis using assms by (simp add: Percent_def f64_mono)
qed

lemma Percent_full: "0 < t \<Longrightarrow> Percent t t = 100"
  using f64_of_int_gt0 [of t] f64_of_int [of 1] f64_of_int [of 100] by (simp add: Percent_def)

lemma Percent_none: "Percent 0 t = 0"
  by (simp add: Percent_def)

lemma Percent_range: "0 \<le> c \<Longrightarrow> c \<le> t \<Longrightarrow> 0 \<le> Percent c t \<and> Percent c t \<le> 100"
proof (cases "t = 0")
  case False
  assume c: "0 \<le> c" "c \<le> t"
  then have t: "0 < t" using False by simp
  then show ?thesis
    using Percent_mono [OF t c(1)] Percent_mono [OF t c(2)] by (simp add: Percent_full Percent_none)
qed (simp add: Percent_def)

section \<open>Properties\<close>



text \<open>
  The merge does not depend on the order in which the parts of a commit arrive, nor on
  absent parts: any two input lists with the same profiles give the same result, file for file
  and block for block.
\<close>

theorem merge_ignores_part_order:
  assumes "mset (filter (\<lambda>p. p \<noteq> None) ps) = mset (filter (\<lambda>p. p \<noteq> None) qs)"
  shows "Merge ps = Merge qs"
  by (rule Merge_perm) (rule mset_filesOf [OF assms])

theorem merge_ignores_part_order_witness:
  "let a = \<lparr>Files = [\<lparr>fPath = ''a.go'', fBlocks = []\<rparr>]\<rparr>;
       b = \<lparr>Files = [\<lparr>fPath = ''b.go'', fBlocks = []\<rparr>]\<rparr>
   in Merge [Some a, None, Some b] = Merge [Some b, Some a]"
  unfolding Let_def by (rule merge_ignores_part_order) simp

text \<open>
  Merging can be done step by step. Merging a merge with further profiles is the merge of
  all of them at once, so a commit rebuilt part by part ends at the same report; the result is
  canonical (files strictly by path, blocks strictly by position), and merging it again
  changes nothing.
\<close>

theorem merge_is_incremental:
  "Merge (Some (Merge ps) # qs) = Merge (ps @ qs) \<and> canonicalProfile (Merge ps)
     \<and> Merge [Some (Merge ps)] = Merge ps"
  using Merge_Merge [of ps qs] Merge_canonical [of ps] Merge_single by blast

text \<open>
  The sum of hit counts is not guarded. Two reports of one covered statement whose counts
  exceed Go's \<open>int\<close> together wrap to a negative count, and the merged statement reads as not
  covered although both inputs cover it.
\<close>

theorem merge_count_overflow_uncovers:
  "let stmt = (\<lambda>n. \<lparr>StartLine = 1, StartCol = 1, EndLine = 2, EndCol = 1, NumStmts = 2, Count = n\<rparr>);
       prof = (\<lambda>n. \<lparr>Files = [\<lparr>fPath = ''a.go'', fBlocks = [stmt n]\<rparr>]\<rparr>)
   in profileCoverage (prof maxInt64) = (2, 2) \<and> profileCoverage (prof 1) = (2, 2)
    \<and> Merge [Some (prof maxInt64), Some (prof 1)] = prof minInt64
    \<and> profileCoverage (Merge [Some (prof maxInt64), Some (prof 1)]) = (0, 2)"
  by code_simp

end
