(* ===== verification/GoStrings.thy ===== *)
theory GoStrings
  imports Prelude
begin

text \<open>
  The parts of Go's \<open>strings\<close>, \<open>strconv\<close>, \<open>bufio\<close> and \<open>unicode/utf8\<close> packages the program
  uses. A Go string is its bytes, so it is a HOL \<open>string\<close>, one \<open>char\<close> per byte; the functions
  that look at runes decode UTF-8 from those bytes.
\<close>

named_theorems gostr \<open>facts on Go strings\<close>

section \<open>Prefixes, suffixes, searching\<close>

definition hasPrefix :: "string \<Rightarrow> string \<Rightarrow> bool" where
  "hasPrefix s p \<longleftrightarrow> take (length p) s = p"

definition hasSuffix :: "string \<Rightarrow> string \<Rightarrow> bool" where
  "hasSuffix s p \<longleftrightarrow> hasPrefix (rev s) (rev p)"

definition trimPrefix :: "string \<Rightarrow> string \<Rightarrow> string" where
  "trimPrefix s p = (if hasPrefix s p then drop (length p) s else s)"

definition trimSuffix :: "string \<Rightarrow> string \<Rightarrow> string" where
  "trimSuffix s p = (if hasSuffix s p then take (length s - length p) s else s)"

text \<open>\<open>strings.CutPrefix\<close>: the rest, if the prefix is there.\<close>

definition cutPrefix :: "string \<Rightarrow> string \<Rightarrow> string option" where
  "cutPrefix s p = (if hasPrefix s p then Some (drop (length p) s) else None)"

text \<open>The bytes before the first \<open>c\<close>, and those after it when there is one.\<close>

fun cutByte :: "char \<Rightarrow> string \<Rightarrow> (string \<times> string) option" where
  "cutByte c [] = None"
| "cutByte c (x # xs) =
     (if x = c then Some ([], xs)
      else case cutByte c xs of None \<Rightarrow> None | Some (a, b) \<Rightarrow> Some (x # a, b))"

text \<open>The same around the last \<open>c\<close>: \<open>strings.CutLast\<close>.\<close>

definition cutLastByte :: "char \<Rightarrow> string \<Rightarrow> (string \<times> string) option" where
  "cutLastByte c s =
     (case cutByte c (rev s) of None \<Rightarrow> None | Some (a, b) \<Rightarrow> Some (rev b, rev a))"

text \<open>\<open>strings.Split\<close> around one byte: never empty.\<close>

fun splitByte :: "char \<Rightarrow> string \<Rightarrow> string list" where
  "splitByte c [] = [[]]"
| "splitByte c (x # xs) =
     (if x = c then [] # splitByte c xs
      else case splitByte c xs of [] \<Rightarrow> [[x]] | w # ws \<Rightarrow> (x # w) # ws)"

fun containsStr :: "string \<Rightarrow> string \<Rightarrow> bool" where
  "containsStr [] p = (p = [])"
| "containsStr (x # xs) p = (hasPrefix (x # xs) p \<or> containsStr xs p)"

text \<open>\<open>strings.ReplaceAll\<close> of a non-empty string.\<close>

function replaceAll :: "string \<Rightarrow> string \<Rightarrow> string \<Rightarrow> string" where
  "replaceAll s old new =
     (if old = [] then s
      else case s of [] \<Rightarrow> []
      | c # cs \<Rightarrow> if hasPrefix s old then new @ replaceAll (drop (length old) s) old new
                 else c # replaceAll cs old new)"
  by pat_completeness auto
termination
  by (relation "measure (\<lambda>(s, _, _). length s)") (auto simp: diff_less)

declare replaceAll.simps [simp del]

text \<open>\<open>strings.Trim\<close> with a set of ASCII bytes.\<close>

definition trimLeftSet :: "char set \<Rightarrow> string \<Rightarrow> string" where
  "trimLeftSet A s = dropWhile (\<lambda>c. c \<in> A) s"

definition trimRightSet :: "char set \<Rightarrow> string \<Rightarrow> string" where
  "trimRightSet A s = rev (dropWhile (\<lambda>c. c \<in> A) (rev s))"

definition trimSet :: "char set \<Rightarrow> string \<Rightarrow> string" where
  "trimSet A s = trimRightSet A (trimLeftSet A s)"

fun joinWith :: "string \<Rightarrow> string list \<Rightarrow> string" where
  "joinWith sep [] = []"
| "joinWith sep [w] = w"
| "joinWith sep (w # ws) = w @ sep @ joinWith sep ws"

lemma hasPrefix_append [gostr, simp]: "hasPrefix (p @ s) p"
  by (simp add: hasPrefix_def)

lemma hasPrefix_iff: "hasPrefix s p \<longleftrightarrow> (\<exists>r. s = p @ r)"
  by (metis append_eq_conv_conj append_take_drop_id hasPrefix_def)

lemma hasSuffix_iff: "hasSuffix s p \<longleftrightarrow> (\<exists>r. s = r @ p)"
  unfolding hasSuffix_def hasPrefix_iff by (metis rev_append rev_rev_ident)

lemma hasPrefix_Nil [gostr, simp]: "hasPrefix s []"
  by (simp add: hasPrefix_def)

lemma hasPrefix_Cons [gostr, simp]: "hasPrefix (c # s) (d # p) \<longleftrightarrow> c = d \<and> hasPrefix s p"
  by (auto simp: hasPrefix_def)

lemma hasPrefix_Nil_Cons [gostr, simp]: "\<not> hasPrefix [] (d # p)"
  by (simp add: hasPrefix_def)

lemma trimPrefix_append [gostr, simp]: "trimPrefix (p @ s) p = s"
  by (simp add: trimPrefix_def)

lemma cutByte_append [gostr]: "c \<notin> set a \<Longrightarrow> cutByte c (a @ c # b) = Some (a, b)"
  by (induction a) auto

lemma cutByte_None [gostr]: "cutByte c s = None \<longleftrightarrow> c \<notin> set s"
  by (induction s) (auto split: option.splits)

lemma cutByte_Some: "cutByte c s = Some (a, b) \<Longrightarrow> s = a @ c # b \<and> c \<notin> set a"
  by (induction s arbitrary: a) (auto split: option.splits if_splits)

lemma cutLastByte_append [gostr]: "c \<notin> set b \<Longrightarrow> cutLastByte c (a @ c # b) = Some (a, b)"
  using cutByte_append [of c "rev b" "rev a"] by (simp add: cutLastByte_def)

lemma cutLastByte_Some: "cutLastByte c s = Some (a, b) \<Longrightarrow> s = a @ c # b \<and> c \<notin> set b"
  by (auto simp: cutLastByte_def split: option.splits prod.splits dest!: cutByte_Some)
    (metis append.assoc append_Cons append_Nil rev.simps(2) rev_append rev_rev_ident)

lemma cutLastByte_None: "cutLastByte c s = None \<longleftrightarrow> c \<notin> set s"
  using cutByte_None [of c "rev s"] by (auto simp: cutLastByte_def split: option.splits)

lemma splitByte_nonempty [simp]: "splitByte c s \<noteq> []"
  by (induction s) (auto split: list.split)

lemma splitByte_none [gostr]: "c \<notin> set s \<Longrightarrow> splitByte c s = [s]"
  by (induction s) auto

lemma splitByte_append [gostr]: "c \<notin> set a \<Longrightarrow> splitByte c (a @ c # b) = a # splitByte c b"
  by (induction a) auto

section \<open>Decimal numbers\<close>

abbreviation byteOf :: "char \<Rightarrow> int" where
  "byteOf c \<equiv> of_char c"

definition isDigit :: "char \<Rightarrow> bool" where
  "isDigit c \<longleftrightarrow> 48 \<le> byteOf c \<and> byteOf c \<le> 57"

definition digitVal :: "char \<Rightarrow> int" where
  "digitVal c = byteOf c - 48"

definition digitChar :: "int \<Rightarrow> char" where
  "digitChar d = char_of (48 + d)"

definition decimal :: "string \<Rightarrow> int" where
  "decimal ds = foldl (\<lambda>v c. v * 10 + digitVal c) 0 ds"

text \<open>\<open>strconv.Atoi\<close>: an optional sign, at least one digit, a value of 64 bits.\<close>

definition atoi :: "string \<Rightarrow> int option" where
  "atoi s =
     (let neg = (s \<noteq> [] \<and> hd s = CHR ''-'');
          ds = (if s \<noteq> [] \<and> (hd s = CHR ''-'' \<or> hd s = CHR ''+'') then tl s else s);
          v = (if neg then - decimal ds else decimal ds)
      in if ds = [] \<or> \<not> list_all isDigit ds then None
         else if inInt64 v then Some v else None)"

text \<open>\<open>strconv.Itoa\<close>, the decimal digits of an integer.\<close>

function digitsOf :: "int \<Rightarrow> string" where
  "digitsOf n = (if n < 10 then [digitChar n] else digitsOf (n div 10) @ [digitChar (n mod 10)])"
  by pat_completeness auto
termination
  by (relation "measure nat") auto

declare digitsOf.simps [simp del]

definition itoa :: "int \<Rightarrow> string" where
  "itoa n = (if n < 0 then CHR ''-'' # digitsOf (- n) else digitsOf n)"

lemma byteOf_digitChar: "0 \<le> d \<Longrightarrow> d < 10 \<Longrightarrow> byteOf (digitChar d) = 48 + d"
  by (simp add: digitChar_def take_bit_eq_mod)

lemma digitVal_digitChar [gostr, simp]: "0 \<le> d \<Longrightarrow> d < 10 \<Longrightarrow> digitVal (digitChar d) = d"
  by (simp add: digitVal_def byteOf_digitChar)

lemma isDigit_digitChar [gostr, simp]: "0 \<le> d \<Longrightarrow> d < 10 \<Longrightarrow> isDigit (digitChar d)"
  by (simp add: isDigit_def byteOf_digitChar)

lemma decimal_snoc [gostr]: "decimal (ds @ [c]) = decimal ds * 10 + digitVal c"
  by (simp add: decimal_def)

lemma digitsOf_correct:
  "0 \<le> n \<Longrightarrow> decimal (digitsOf n) = n \<and> list_all isDigit (digitsOf n) \<and> digitsOf n \<noteq> []"
proof (induction n rule: digitsOf.induct)
  case (1 n)
  show ?case
  proof (cases "n < 10")
    case True
    with 1 show ?thesis by (subst (1 2 3) digitsOf.simps) (simp add: decimal_def)
  next
    case False
    then show ?thesis using 1
      by (subst (1 2 3) digitsOf.simps) (simp add: decimal_snoc)
  qed
qed

lemma digit_not_sign: "isDigit c \<Longrightarrow> c \<noteq> CHR ''-'' \<and> c \<noteq> CHR ''+'' \<and> c \<noteq> CHR '',''
    \<and> c \<noteq> CHR ''.'' \<and> c \<noteq> CHR '':'' \<and> c \<noteq> CHR '' ''"
  by (auto simp: isDigit_def)

lemma digits_hd:
  "list_all isDigit ds \<Longrightarrow> ds \<noteq> [] \<Longrightarrow> hd ds \<noteq> CHR ''-'' \<and> hd ds \<noteq> CHR ''+''"
  by (cases ds) (auto simp: digit_not_sign)

theorem atoi_itoa [gostr]: "inInt64 n \<Longrightarrow> atoi (itoa n) = Some n"
proof (cases "n < 0")
  case True
  assume r: "inInt64 n"
  note d = digitsOf_correct [of "- n"]
  show ?thesis using True r d by (simp add: atoi_def itoa_def)
next
  case False
  assume r: "inInt64 n"
  note d = digitsOf_correct [of n]
  then show ?thesis using False r digits_hd [of "digitsOf n"] by (simp add: atoi_def itoa_def Let_def)
qed

lemma atoi_range: "atoi s = Some v \<Longrightarrow> inInt64 v"
  by (auto simp: atoi_def Let_def split: if_splits)

lemma itoa_chars: "c \<in> set (itoa n) \<Longrightarrow> isDigit c \<or> c = CHR ''-''"
  using digitsOf_correct [of n] digitsOf_correct [of "- n"]
  by (auto simp: itoa_def list_all_iff split: if_splits)

lemma digitsOf_length: "n < 10 ^ Suc k \<Longrightarrow> length (digitsOf n) \<le> Suc k"
proof (induction k arbitrary: n)
  case 0
  then show ?case by (simp add: digitsOf.simps [of n])
next
  case (Suc k)
  show ?case
  proof (cases "n < 10")
    case False
    have "n div 10 < 10 ^ Suc k" using Suc.prems by (simp add: div_less_iff_less_mult)
    then show ?thesis using Suc.IH [of "n div 10"] False by (subst digitsOf.simps) simp
  qed (simp add: digitsOf.simps [of n])
qed

lemma itoa_length: "inInt64 n \<Longrightarrow> length (itoa n) \<le> 20"
  using digitsOf_length [of n 18] digitsOf_length [of "- n" 18]
  by (auto simp: itoa_def inInt64_def minInt64_def maxInt64_def)

section \<open>UTF-8\<close>

text \<open>
  \<open>decodeRune\<close> is \<open>utf8.DecodeRuneInString\<close>: the rune at the head of a non-empty string and
  its width in bytes, or the replacement character U+FFFD and width 1 when the bytes are not
  the shortest UTF-8 encoding of a code point outside the surrogates.
\<close>

abbreviation runeError :: int where
  "runeError \<equiv> 65533"

definition contByte :: "char \<Rightarrow> bool" where
  "contByte c \<longleftrightarrow> 128 \<le> byteOf c \<and> byteOf c \<le> 191"

definition decodeRune :: "string \<Rightarrow> int \<times> nat" where
  "decodeRune s = (case s of
     [] \<Rightarrow> (runeError, 0)
   | c0 # r0 \<Rightarrow> (let b0 = byteOf c0 in
       if b0 < 128 then (b0, 1)
       else if b0 < 194 then (runeError, 1)
       else case r0 of [] \<Rightarrow> (runeError, 1)
       | c1 # r1 \<Rightarrow> (let b1 = byteOf c1 in
           if b0 < 224 then
             (if contByte c1 then ((b0 - 192) * 64 + (b1 - 128), 2) else (runeError, 1))
           else case r1 of [] \<Rightarrow> (runeError, 1)
           | c2 # r2 \<Rightarrow> (let b2 = byteOf c2 in
               if b0 < 240 then
                 (if contByte c1 \<and> contByte c2 \<and> (b0 = 224 \<longrightarrow> 160 \<le> b1) \<and> (b0 = 237 \<longrightarrow> b1 < 160)
                  then ((b0 - 224) * 4096 + (b1 - 128) * 64 + (b2 - 128), 3) else (runeError, 1))
               else case r2 of [] \<Rightarrow> (runeError, 1)
               | c3 # r3 \<Rightarrow> (let b3 = byteOf c3 in
                   if b0 < 245 \<and> contByte c1 \<and> contByte c2 \<and> contByte c3
                      \<and> (b0 = 240 \<longrightarrow> 144 \<le> b1) \<and> (b0 = 244 \<longrightarrow> b1 < 144)
                   then ((b0 - 240) * 262144 + (b1 - 128) * 4096 + (b2 - 128) * 64 + (b3 - 128), 4)
                   else (runeError, 1))))))"

text \<open>\<open>utf8.AppendRune\<close>: a code point as UTF-8, U+FFFD for one that is not valid.\<close>

definition encodeRune :: "int \<Rightarrow> string" where
  "encodeRune r0 =
     (let r = (if r0 < 0 \<or> 1114111 < r0 \<or> (55296 \<le> r0 \<and> r0 \<le> 57343) then runeError else r0)
      in if r < 128 then [char_of r]
         else if r < 2048 then [char_of (192 + r div 64), char_of (128 + r mod 64)]
         else if r < 65536 then
           [char_of (224 + r div 4096), char_of (128 + r div 64 mod 64), char_of (128 + r mod 64)]
         else [char_of (240 + r div 262144), char_of (128 + r div 4096 mod 64),
               char_of (128 + r div 64 mod 64), char_of (128 + r mod 64)])"

section \<open>White space\<close>

text \<open>
  The runes of \<open>unicode.IsSpace\<close>, as their UTF-8 bytes: TAB, LF, VT, FF, CR, SPACE, U+0085,
  U+00A0, U+1680, U+2000 to U+200A, U+2028, U+2029, U+202F, U+205F and U+3000. No encoding is
  a proper prefix or suffix of another, and none can start inside a longer rune, so matching
  bytes at either end of a string is decoding the rune there.
\<close>

definition asciiSpace :: "char \<Rightarrow> bool" where
  "asciiSpace c \<longleftrightarrow> (9 \<le> byteOf c \<and> byteOf c \<le> 13) \<or> byteOf c = 32"

definition wideSpaces :: "string list" where
  "wideSpaces =
     [[CHR 0xC2, CHR 0x85], [CHR 0xC2, CHR 0xA0], [CHR 0xE1, CHR 0x9A, CHR 0x80],
      [CHR 0xE2, CHR 0x80, CHR 0x80], [CHR 0xE2, CHR 0x80, CHR 0x81], [CHR 0xE2, CHR 0x80, CHR 0x82],
      [CHR 0xE2, CHR 0x80, CHR 0x83], [CHR 0xE2, CHR 0x80, CHR 0x84], [CHR 0xE2, CHR 0x80, CHR 0x85],
      [CHR 0xE2, CHR 0x80, CHR 0x86], [CHR 0xE2, CHR 0x80, CHR 0x87], [CHR 0xE2, CHR 0x80, CHR 0x88],
      [CHR 0xE2, CHR 0x80, CHR 0x89], [CHR 0xE2, CHR 0x80, CHR 0x8A], [CHR 0xE2, CHR 0x80, CHR 0xA8],
      [CHR 0xE2, CHR 0x80, CHR 0xA9], [CHR 0xE2, CHR 0x80, CHR 0xAF], [CHR 0xE2, CHR 0x81, CHR 0x9F],
      [CHR 0xE3, CHR 0x80, CHR 0x80]]"

text \<open>How many bytes of white space the string starts, and ends, with: one rune's worth.\<close>

definition leadSpace :: "string \<Rightarrow> nat" where
  "leadSpace s = (case s of [] \<Rightarrow> 0
     | c # _ \<Rightarrow> if asciiSpace c then 1
                else case filter (hasPrefix s) wideSpaces of [] \<Rightarrow> 0 | w # _ \<Rightarrow> length w)"

definition trailSpace :: "string \<Rightarrow> nat" where
  "trailSpace s = (case rev s of [] \<Rightarrow> 0
     | c # _ \<Rightarrow> if asciiSpace c then 1
                else case filter (hasSuffix s) wideSpaces of [] \<Rightarrow> 0 | w # _ \<Rightarrow> length w)"

lemma filter_headD: "filter P xs = w # ws \<Longrightarrow> P w"
  by (metis filter_eq_ConsD)

lemma hasPrefix_length: "hasPrefix s p \<Longrightarrow> length p \<le> length s"
  by (auto simp: hasPrefix_iff)

lemma hasSuffix_length: "hasSuffix s p \<Longrightarrow> length p \<le> length s"
  unfolding hasSuffix_def by (drule hasPrefix_length) simp

lemma leadSpace_le: "leadSpace s \<le> length s"
  by (cases s) (auto simp: leadSpace_def split: list.split dest!: filter_headD hasPrefix_length)

lemma trailSpace_le: "trailSpace s \<le> length s"
  by (cases "rev s")
     (auto simp: trailSpace_def split: list.split dest!: filter_headD hasSuffix_length)

function trimLeftSpace :: "string \<Rightarrow> string" where
  "trimLeftSpace s = (if leadSpace s = 0 then s else trimLeftSpace (drop (leadSpace s) s))"
  by pat_completeness auto
termination
proof (relation "measure length")
  fix s assume "leadSpace s \<noteq> 0"
  then show "(drop (leadSpace s) s, s) \<in> measure length"
    using leadSpace_le [of s] by simp
qed simp

function trimRightSpace :: "string \<Rightarrow> string" where
  "trimRightSpace s =
     (if trailSpace s = 0 then s else trimRightSpace (take (length s - trailSpace s) s))"
  by pat_completeness auto
termination
proof (relation "measure length")
  fix s assume "trailSpace s \<noteq> 0"
  then show "(take (length s - trailSpace s) s, s) \<in> measure length"
    using trailSpace_le [of s] by simp
qed simp

declare trimLeftSpace.simps [simp del] trimRightSpace.simps [simp del]

text \<open>\<open>strings.TrimSpace\<close>.\<close>

definition trimSpace :: "string \<Rightarrow> string" where
  "trimSpace s = trimRightSpace (trimLeftSpace s)"

text \<open>\<open>strings.Fields\<close>: the runs of bytes between white space.\<close>

fun takeWord :: "string \<Rightarrow> string \<times> string" where
  "takeWord [] = ([], [])"
| "takeWord (c # cs) =
     (if leadSpace (c # cs) \<noteq> 0 then ([], c # cs)
      else case takeWord cs of (w, r) \<Rightarrow> (c # w, r))"

lemma takeWord_append: "takeWord s = (w, r) \<Longrightarrow> s = w @ r"
  by (induction s arbitrary: w) (auto split: if_splits prod.splits)

lemma trimLeftSpace_length: "length (trimLeftSpace s) \<le> length s"
proof (induction s rule: trimLeftSpace.induct)
  case (1 s)
  then show ?case by (subst trimLeftSpace.simps) (auto intro: le_trans)
qed

lemma trimLeftSpace_lead: "leadSpace (trimLeftSpace s) = 0"
proof (induction s rule: trimLeftSpace.induct)
  case (1 s)
  then show ?case by (subst trimLeftSpace.simps) auto
qed

function fieldsOf :: "string \<Rightarrow> string list" where
  "fieldsOf s =
     (let s' = trimLeftSpace s
      in if s' = [] then [] else fst (takeWord s') # fieldsOf (snd (takeWord s')))"
  by pat_completeness auto
termination
proof (relation "measure length")
  fix s s' assume s': "s' = trimLeftSpace s" "s' \<noteq> []"
  obtain c cs where c: "s' = c # cs" using s'(2) by (cases s') auto
  have "leadSpace (c # cs) = 0" using trimLeftSpace_lead [of s] s'(1) c by simp
  then have "length (snd (takeWord s')) < length s'"
    using takeWord_append [of cs] by (auto simp: c split: prod.split)
  also have "\<dots> \<le> length s" using trimLeftSpace_length [of s] s'(1) by simp
  finally show "(snd (takeWord s'), s) \<in> measure length" by simp
qed simp

declare fieldsOf.simps [simp del]

text \<open>Text that neither starts nor ends with white space, such as a number, is left alone.\<close>

definition tight :: "string \<Rightarrow> bool" where
  "tight s \<longleftrightarrow> leadSpace s = 0 \<and> trailSpace s = 0"

lemma trimSpace_tight [gostr, simp]: "tight s \<Longrightarrow> trimSpace s = s"
  by (simp add: trimSpace_def tight_def trimLeftSpace.simps trimRightSpace.simps)

lemma wideSpaces_bytes:
  "list_all (\<lambda>w. w \<noteq> [] \<and> 128 \<le> byteOf (hd w) \<and> 128 \<le> byteOf (last w)) wideSpaces"
  by code_simp

lemma ascii_leadSpace:
  assumes "\<not> asciiSpace c" and "byteOf c < 128"
  shows "leadSpace (c # cs) = 0"
proof -
  have "\<not> hasPrefix (c # cs) w" if w: "w \<in> set wideSpaces" for w
  proof -
    obtain d ds where "w = d # ds" "128 \<le> byteOf d"
      using wideSpaces_bytes w by (cases w) (auto simp: list_all_iff)
    then show ?thesis using assms(2) by auto
  qed
  then have "filter (hasPrefix (c # cs)) wideSpaces = []" by (simp add: filter_empty_conv)
  then show ?thesis using assms(1) by (simp add: leadSpace_def)
qed

lemma ascii_trailSpace:
  assumes "\<not> asciiSpace c" and "byteOf c < 128"
  shows "trailSpace (cs @ [c]) = 0"
proof -
  have "\<not> hasSuffix (cs @ [c]) w" if w: "w \<in> set wideSpaces" for w
  proof -
    obtain d ds where "w = ds @ [d]" "128 \<le> byteOf d"
      using wideSpaces_bytes w by (cases w rule: rev_cases) (auto simp: list_all_iff)
    then show ?thesis using assms(2) by (auto simp: hasSuffix_def)
  qed
  then have "filter (hasSuffix (cs @ [c])) wideSpaces = []" by (simp add: filter_empty_conv)
  then show ?thesis using assms(1) by (simp add: trailSpace_def)
qed

lemma ascii_tight:
  assumes "s \<noteq> []" and "\<forall>c \<in> {hd s, last s}. \<not> asciiSpace c \<and> byteOf c < 128"
  shows "tight s"
proof -
  obtain c cs where c: "s = c # cs" using assms(1) by (cases s) auto
  have "leadSpace s = 0" unfolding c using assms(2) by (intro ascii_leadSpace) (simp_all add: c)
  moreover obtain d ds where d: "s = ds @ [d]" using assms(1) by (cases s rule: rev_cases) auto
  have "trailSpace s = 0" unfolding d using assms(2) by (intro ascii_trailSpace) (simp_all add: d)
  ultimately show ?thesis by (simp add: tight_def)
qed

lemma digit_ascii: "isDigit c \<or> c = CHR ''-'' \<Longrightarrow> \<not> asciiSpace c \<and> byteOf c < 128"
  by (auto simp: isDigit_def asciiSpace_def)

lemma itoa_nonempty [simp]: "itoa n \<noteq> []"
  using digitsOf_correct [of n] by (cases "n < 0") (auto simp: itoa_def)

lemma itoa_tight [gostr, simp]: "tight (itoa n)"
proof (rule ascii_tight)
  have "\<not> asciiSpace c \<and> byteOf c < 128" if "c \<in> set (itoa n)" for c
    by (rule digit_ascii) (rule itoa_chars [OF that])
  then show "\<forall>c \<in> {hd (itoa n), last (itoa n)}. \<not> asciiSpace c \<and> byteOf c < 128"
    by simp
qed simp

lemma itoa_no_byte [gostr]: "\<not> isDigit c \<Longrightarrow> c \<noteq> CHR ''-'' \<Longrightarrow> c \<notin> set (itoa n)"
  by (auto dest: itoa_chars)

section \<open>bufio.Scanner\<close>

text \<open>
  \<open>bufio.Scanner\<close> with \<open>ScanLines\<close> over input held in memory and a buffer of at most
  \<open>maxTok\<close> bytes. The lines come without their line end (LF or CR LF); a line whose bytes
  before the LF fill the buffer stops the scan with \<open>ErrTooLong\<close>, the flag of the result. What
  follows the last LF is a line too, unless it is empty.
\<close>

definition dropCR :: "string \<Rightarrow> string" where
  "dropCR s = (if s \<noteq> [] \<and> last s = CHR 0x0D then butlast s else s)"

abbreviation LF :: char where
  "LF \<equiv> CHR 0x0A"

function scanLines :: "int \<Rightarrow> string \<Rightarrow> string list \<times> bool" where
  "scanLines maxTok s =
     (if s = [] then ([], False)
      else let l = takeWhile (\<lambda>c. c \<noteq> LF) s; r = dropWhile (\<lambda>c. c \<noteq> LF) s
           in if int (length l) \<ge> maxTok then ([], True)
              else let (ls, e) = scanLines maxTok (tl r) in (dropCR l # ls, e))"
  by pat_completeness auto
termination
proof (relation "measure (\<lambda>(_, s). length s)")
  fix maxTok s and l r :: string
  assume "s \<noteq> []" "r = dropWhile (\<lambda>c. c \<noteq> LF) s"
  moreover have "length (dropWhile (\<lambda>c. c \<noteq> LF) s) \<le> length s" by (rule length_dropWhile_le)
  ultimately show "((maxTok, tl r), maxTok, s) \<in> measure (\<lambda>(_, s). length s)"
    by (cases s) (auto simp: less_Suc_eq_le)
qed simp

declare scanLines.simps [simp del]

lemma scanLines_Nil [gostr, simp]: "scanLines m [] = ([], False)"
  by (simp add: scanLines.simps)

lemma scanLines_line [gostr]:
  assumes "LF \<notin> set l" and "int (length l) < m"
  shows "scanLines m (l @ LF # s) = (dropCR l # fst (scanLines m s), snd (scanLines m s))"
proof -
  have "takeWhile (\<lambda>c. c \<noteq> LF) (l @ LF # s) = l" "dropWhile (\<lambda>c. c \<noteq> LF) (l @ LF # s) = LF # s"
    using assms(1) by (simp_all add: takeWhile_append dropWhile_append)
  then show ?thesis using assms(2)
    by (subst scanLines.simps) (simp add: Let_def split: prod.split)
qed

text \<open>A text of short lines scans to exactly those lines.\<close>

lemma scanLines_text:
  assumes "\<forall>l \<in> set ls. LF \<notin> set l \<and> int (length l) < m"
  shows "scanLines m (concat (map (\<lambda>l. l @ [LF]) ls)) = (map dropCR ls, False)"
  using assms by (induction ls) (auto simp: scanLines_line)

end
