(* ===== verification/LineHits.thy ===== *)
theory LineHits
  imports Profile GoStrings
begin

text \<open>
  The tail that the line-oriented parsers share (\<open>internal/profile/lcov.go\<close>): per-line hit
  counts become blocks, \<open>blocksFromLineHits\<close>, and per-file counts a profile,
  \<open>fromLineHits\<close>. The lemmas show that the blocks spell out exactly the lines and counts they
  were built from, and that they are canonical.
\<close>

definition maxLineNumber :: int where
  "maxLineNumber = 5000000"

section \<open>From line hits to blocks\<close>

definition lineBlock :: "int \<Rightarrow> int \<Rightarrow> block" where
  "lineBlock lno n =
     \<lparr>StartLine = lno, StartCol = 1, EndLine = lno, EndCol = 1, NumStmts = 1, Count = n\<rparr>"

text \<open>One round of the loop: extend the last block by the next line, or start a new one.\<close>

definition pushLine :: "block list \<Rightarrow> int \<times> int \<Rightarrow> block list" where
  "pushLine blocks lc =
     (case lc of (lno, n) \<Rightarrow>
        if blocks \<noteq> [] \<and> lno = add64 (EndLine (last blocks)) 1 \<and> n = Count (last blocks)
        then butlast blocks @
          [(last blocks)\<lparr>EndLine := lno, NumStmts := add64 (NumStmts (last blocks)) 1\<rparr>]
        else blocks @ [lineBlock lno n])"

definition blocksFromLineHits :: "(int, int) gomap \<Rightarrow> block list" where
  "blocksFromLineHits lines =
     foldl pushLine []
       (map (\<lambda>lno. (lno, case map_of lines lno of None \<Rightarrow> 0 | Some n \<Rightarrow> n)) (sort (keysOf lines)))"

definition fromLineHits :: "string \<Rightarrow> (string, (int, int) gomap) gomap \<Rightarrow> string + profile" where
  "fromLineHits format files =
     (let fs = map (\<lambda>(path, lines). \<lparr>fPath = path, fBlocks = blocksFromLineHits lines\<rparr>)
                 (filter (\<lambda>(_, lines). lines \<noteq> []) files)
      in if fs = [] then Inl (format @ '': no line coverage data found'')
         else Inr \<lparr>Files = sort_key fPath fs\<rparr>)"

section \<open>What the blocks say\<close>

text \<open>A block of a line-oriented report stands for its lines, each with its count.\<close>

definition blockLines :: "block \<Rightarrow> (int \<times> int) list" where
  "blockLines b = map (\<lambda>l. (l, Count b)) [StartLine b..EndLine b]"

definition wfLineBlock :: "block \<Rightarrow> bool" where
  "wfLineBlock b \<longleftrightarrow> 1 \<le> StartLine b \<and> StartLine b \<le> EndLine b \<and> EndLine b \<le> maxLineNumber
     \<and> StartCol b = 1 \<and> EndCol b = 1 \<and> NumStmts b = EndLine b - StartLine b + 1"

definition lineBlocksInv :: "(int \<times> int) list \<Rightarrow> block list \<Rightarrow> bool" where
  "lineBlocksInv lcs bs \<longleftrightarrow>
     concat (map blockLines bs) = lcs \<and> (\<forall>b \<in> set bs. wfLineBlock b)
     \<and> sorted_wrt (\<lambda>a b. EndLine a < StartLine b) bs"

lemma pushLine_inv:
  assumes inv: "lineBlocksInv lcs bs" and lno: "1 \<le> lno" "lno \<le> maxLineNumber"
    and gt: "\<forall>(l, _) \<in> set lcs. l < lno"
  shows "lineBlocksInv (lcs @ [(lno, n)]) (pushLine bs (lno, n))"
proof (cases "bs = []")
  case True
  with inv lno show ?thesis
    by (simp add: lineBlocksInv_def pushLine_def lineBlock_def blockLines_def wfLineBlock_def)
next
  case False
  then obtain init b where bs: "bs = init @ [b]" by (metis append_butlast_last_id)
  have b: "wfLineBlock b" and init: "\<forall>a \<in> set init. wfLineBlock a"
    and sep: "sorted_wrt (\<lambda>a b. EndLine a < StartLine b) init" "\<forall>a \<in> set init. EndLine a < StartLine b"
    using inv by (auto simp: lineBlocksInv_def bs sorted_wrt_append)
  have lines: "concat (map blockLines init) @ blockLines b = lcs"
    using inv by (simp add: lineBlocksInv_def bs)
  have "(EndLine b, Count b) \<in> set lcs"
    using b by (auto simp: wfLineBlock_def blockLines_def simp flip: lines)
  then have e: "EndLine b < lno" using gt by auto
  have small: "0 \<le> EndLine b" "EndLine b < maxInt64" "0 \<le> NumStmts b" "NumStmts b < maxInt64"
    using b by (auto simp: wfLineBlock_def maxLineNumber_def maxInt64_def)
  show ?thesis
  proof (cases "lno = EndLine b + 1 \<and> n = Count b")
    case True
    have "[StartLine b..lno] = [StartLine b..EndLine b] @ [lno]"
      using True b by (simp add: wfLineBlock_def upto_rec2)
    then show ?thesis
      using True b init sep small lno
      by (simp add: lineBlocksInv_def pushLine_def bs add64_succ blockLines_def wfLineBlock_def
          sorted_wrt_append flip: lines)
  next
    case False
    then have "pushLine bs (lno, n) = bs @ [lineBlock lno n]"
      using small by (auto simp: pushLine_def bs add64_succ)
    moreover have "\<forall>a \<in> set bs. EndLine a < lno"
      using b e sep(2) by (fastforce simp: bs wfLineBlock_def)
    ultimately show ?thesis
      using inv lno by (auto simp: lineBlocksInv_def lineBlock_def blockLines_def wfLineBlock_def
          sorted_wrt_append)
  qed
qed

lemma foldl_pushLine_inv:
  assumes "sorted_wrt (<) (map fst lcs)" and "\<forall>(l, _) \<in> set lcs. 1 \<le> l \<and> l \<le> maxLineNumber"
  shows "lineBlocksInv lcs (foldl pushLine [] lcs)"
  using assms
proof (induction lcs rule: rev_induct)
  case Nil
  show ?case by (simp add: lineBlocksInv_def)
next
  case (snoc lc lcs)
  obtain lno n where lc: "lc = (lno, n)" by fastforce
  show ?case
    using snoc unfolding lc by (auto intro!: pushLine_inv simp: sorted_wrt_append)
qed

definition wfLines :: "(int, int) gomap \<Rightarrow> bool" where
  "wfLines lines \<longleftrightarrow> wfMap lines \<and> (\<forall>l \<in> set (keysOf lines). 1 \<le> l \<and> l \<le> maxLineNumber)"

definition hitList :: "(int, int) gomap \<Rightarrow> (int \<times> int) list" where
  "hitList lines = map (\<lambda>lno. (lno, case map_of lines lno of None \<Rightarrow> 0 | Some n \<Rightarrow> n)) (sort (keysOf lines))"

lemma hitList_sorted: "wfMap lines \<Longrightarrow> sorted_wrt (<) (map fst (hitList lines))"
  by (simp add: hitList_def comp_def strict_sorted_iff wfMap_def)

lemma blocksFromLineHits_inv:
  "wfLines lines \<Longrightarrow> lineBlocksInv (hitList lines) (blocksFromLineHits lines)"
  unfolding blocksFromLineHits_def hitList_def [symmetric]
  by (rule foldl_pushLine_inv) (auto simp: wfLines_def hitList_sorted, auto simp: hitList_def)

lemma set_hitList: "wfMap lines \<Longrightarrow> set (hitList lines) = set lines"
  by (auto simp: hitList_def wfMap_map_of split: option.splits intro!: image_eqI)

text \<open>Blocks in line order are canonical.\<close>

lemma line_blocks_canonical:
  "sorted_wrt (\<lambda>a b. EndLine a < StartLine b) bs \<Longrightarrow> \<forall>b \<in> set bs. wfLineBlock b \<Longrightarrow> Canonical bs"
  unfolding Canonical_strict sorted_wrt_map
  by (erule sorted_wrt_mono_rel [rotated]) (fastforce simp: keyOf_def wfLineBlock_def)

lemma blocksFromLineHits_canonical: "wfLines lines \<Longrightarrow> Canonical (blocksFromLineHits lines)"
  using blocksFromLineHits_inv [of lines] line_blocks_canonical by (auto simp: lineBlocksInv_def)

section \<open>Counting lines\<close>

text \<open>Within range, a file's coverage is the plain sum over its blocks.\<close>

lemma coverage_foldl:
  assumes "\<forall>b \<in> set bs. 0 \<le> NumStmts b" and "0 \<le> c" and "c \<le> t"
    and "t + (\<Sum>b\<leftarrow>bs. NumStmts b) \<le> maxInt64"
  shows "foldl (\<lambda>(covered, tot) b.
         (if Count b > 0 then add64 covered (NumStmts b) else covered, add64 tot (NumStmts b))) (c, t) bs
    = (c + (\<Sum>b\<leftarrow>filter (\<lambda>b. Count b > 0) bs. NumStmts b), t + (\<Sum>b\<leftarrow>bs. NumStmts b))"
  using assms
proof (induction bs arbitrary: c t)
  case (Cons b bs)
  have "0 \<le> (\<Sum>b\<leftarrow>bs. NumStmts b)" using Cons.prems(1) by (intro sum_list_nonneg) auto
  then have "add64 c (NumStmts b) = c + NumStmts b" "add64 t (NumStmts b) = t + NumStmts b"
    using Cons.prems by (auto intro!: add64_nonneg_id)
  then show ?case using Cons.prems by (simp add: Cons.IH)
qed simp

lemma fileCoverage_sum:
  assumes "\<forall>b \<in> set (fBlocks f). 0 \<le> NumStmts b" and "(\<Sum>b\<leftarrow>fBlocks f. NumStmts b) \<le> maxInt64"
  shows "fileCoverage f = (\<Sum>b\<leftarrow>filter (\<lambda>b. Count b > 0) (fBlocks f). NumStmts b,
                           \<Sum>b\<leftarrow>fBlocks f. NumStmts b)"
  using coverage_foldl [of "fBlocks f" 0 0] assms by (simp add: fileCoverage_def)

lemma blockLines_length: "wfLineBlock b \<Longrightarrow> int (length (blockLines b)) = NumStmts b"
  by (simp add: blockLines_def wfLineBlock_def)

lemma sum_blockLines:
  "\<forall>b \<in> set bs. wfLineBlock b \<Longrightarrow> (\<Sum>b\<leftarrow>bs. NumStmts b) = int (length (concat (map blockLines bs)))"
  by (induction bs) (simp_all add: blockLines_length)

lemma sum_covered_blockLines:
  "\<forall>b \<in> set bs. wfLineBlock b \<Longrightarrow> (\<Sum>b\<leftarrow>filter (\<lambda>b. Count b > 0) bs. NumStmts b)
     = int (length (filter (\<lambda>(l, n). 0 < n) (concat (map blockLines bs))))"
proof (induction bs)
  case (Cons b bs)
  have "filter (\<lambda>(l, n). 0 < n) (blockLines b) = (if 0 < Count b then blockLines b else [])"
    by (simp add: blockLines_def filter_map comp_def)
  then show ?case using Cons by (simp add: blockLines_length)
qed simp

lemma wfLines_length: "wfLines lines \<Longrightarrow> int (length lines) \<le> maxLineNumber"
proof -
  assume wf: "wfLines lines"
  then have "set (keysOf lines) \<subseteq> {1..maxLineNumber}" by (auto simp: wfLines_def)
  then have "card (set (keysOf lines)) \<le> card {1..maxLineNumber}" by (intro card_mono) simp_all
  moreover have "card (set (keysOf lines)) = length lines"
    using wf distinct_card [of "keysOf lines"] by (simp only: wfLines_def wfMap_def length_map)
  ultimately show ?thesis by (simp add: maxLineNumber_def)
qed

lemma hitList_mset: "wfMap lines \<Longrightarrow> mset (hitList lines) = mset lines"
proof (rule set_eq_iff_mset_eq_distinct [THEN iffD1])
  assume wf: "wfMap lines"
  show "distinct (hitList lines)"
    using hitList_sorted [OF wf] by (auto simp: strict_sorted_iff distinct_map)
  show "distinct lines" using wf by (simp add: wfMap_def distinct_map)
  show "set (hitList lines) = set lines" using wf by (rule set_hitList)
qed

lemma line_file_coverage:
  assumes "wfLines lines"
  shows "fileCoverage \<lparr>fPath = p, fBlocks = blocksFromLineHits lines\<rparr>
       = (int (length (filter (\<lambda>(l, n). 0 < n) lines)), int (length lines))"
proof -
  let ?bs = "blocksFromLineHits lines"
  have inv: "concat (map blockLines ?bs) = hitList lines" "\<forall>b \<in> set ?bs. wfLineBlock b"
    using blocksFromLineHits_inv [OF assms] by (simp_all add: lineBlocksInv_def)
  have wf: "wfMap lines" using assms by (simp add: wfLines_def)
  have len: "length (hitList lines) = length lines"
    "length (filter (\<lambda>(l, n). 0 < n) (hitList lines)) = length (filter (\<lambda>(l, n). 0 < n) lines)"
    using hitList_mset [OF wf] by (metis size_mset, metis mset_filter size_mset)
  have t: "(\<Sum>b\<leftarrow>?bs. NumStmts b) = int (length lines)"
    using sum_blockLines [OF inv(2)] by (simp add: inv(1) len)
  have c: "(\<Sum>b\<leftarrow>filter (\<lambda>b. Count b > 0) ?bs. NumStmts b)
      = int (length (filter (\<lambda>(l, n). 0 < n) lines))"
    using sum_covered_blockLines [OF inv(2)] by (simp add: inv(1) len)
  have "\<forall>b \<in> set ?bs. 0 \<le> NumStmts b" using inv(2) by (auto simp: wfLineBlock_def)
  moreover have "(\<Sum>b\<leftarrow>?bs. NumStmts b) \<le> maxInt64"
    using wfLines_length [OF assms] by (simp add: t maxInt64_def maxLineNumber_def)
  ultimately show ?thesis using fileCoverage_sum [of "\<lparr>fPath = p, fBlocks = ?bs\<rparr>"] by (simp add: t c)
qed

section \<open>The parsers' contract\<close>

text \<open>
  The Go interface \<open>profile.Parser\<close> and what its clients rely on. Every parser bounds the
  lines it accepts, so that no later pass over a block's lines can run away; the parsers that
  build their blocks from line hits also leave canonical files, one per path in path order.
\<close>

definition saneBlock :: "block \<Rightarrow> bool" where
  "saneBlock b \<longleftrightarrow> 1 \<le> StartLine b \<and> StartLine b \<le> EndLine b \<and> EndLine b \<le> maxLineNumber
     \<and> 0 \<le> NumStmts b"

definition saneProfile :: "profile \<Rightarrow> bool" where
  "saneProfile p \<longleftrightarrow> sorted_wrt (<) (map fPath (Files p)) \<and>
     (\<forall>f \<in> set (Files p). \<forall>b \<in> set (fBlocks f). saneBlock b)"

locale coverage_parser =
  fixes parse :: "'i \<Rightarrow> 'e + profile"
  assumes parse_sane: "parse input = Inr p \<Longrightarrow> saneProfile p"
begin

lemma parse_paths_distinct: "parse input = Inr p \<Longrightarrow> distinct (map fPath (Files p))"
  using parse_sane by (auto simp: saneProfile_def strict_sorted_iff)

lemma parse_block: "parse input = Inr p \<Longrightarrow> f \<in> set (Files p) \<Longrightarrow> b \<in> set (fBlocks f) \<Longrightarrow> saneBlock b"
  using parse_sane by (auto simp: saneProfile_def)

end

locale canonical_parser = coverage_parser +
  assumes parse_blocks_canonical:
    "parse input = Inr p \<Longrightarrow> f \<in> set (Files p) \<Longrightarrow> Canonical (fBlocks f)"
begin

lemma parse_canonical: "parse input = Inr p \<Longrightarrow> canonicalProfile p"
  using parse_sane parse_blocks_canonical by (auto simp: canonicalProfile_def saneProfile_def)

text \<open>A report uploaded alone is its own merge, and merging it into others may be done late.\<close>

lemma parse_own_merge: "parse input = Inr p \<Longrightarrow> Merge [Some p] = p"
  by (rule Merge_single) (rule parse_canonical)

end

text \<open>The tail of a line-oriented parser keeps the contract.\<close>

definition wfLineFiles :: "(string, (int, int) gomap) gomap \<Rightarrow> bool" where
  "wfLineFiles files \<longleftrightarrow> wfMap files \<and> (\<forall>(p, lines) \<in> set files. wfLines lines)"

definition lineProfile :: "(string, (int, int) gomap) gomap \<Rightarrow> profile" where
  "lineProfile files =
     \<lparr>Files = sort_key fPath
        (map (\<lambda>(path, lines). \<lparr>fPath = path, fBlocks = blocksFromLineHits lines\<rparr>) files)\<rparr>"

lemma wfLineBlock_sane: "wfLineBlock b \<Longrightarrow> saneBlock b"
  by (auto simp: wfLineBlock_def saneBlock_def)

lemma lineProfile_file:
  "f \<in> set (Files (lineProfile files)) \<longleftrightarrow>
     (\<exists>lines. (fPath f, lines) \<in> set files \<and> f = \<lparr>fPath = fPath f, fBlocks = blocksFromLineHits lines\<rparr>)"
  by (force simp: lineProfile_def)

lemma lineProfile_sorted: "wfMap files \<Longrightarrow> sorted_wrt (<) (map fPath (Files (lineProfile files)))"
proof -
  assume wf: "wfMap files"
  let ?fs = "map (\<lambda>(path, lines). \<lparr>fPath = path, fBlocks = blocksFromLineHits lines\<rparr>) files"
  have "map fPath ?fs = keysOf files" by (induction files) auto
  then have "distinct (map fPath ?fs)" using wf by (simp only: wfMap_def)
  then show ?thesis unfolding lineProfile_def profile.select_convs by (rule sort_key_strict)
qed

lemma lineProfile_sane: "wfLineFiles files \<Longrightarrow> saneProfile (lineProfile files)"
  using blocksFromLineHits_inv wfLineBlock_sane
  by (auto simp: saneProfile_def lineProfile_sorted wfLineFiles_def lineProfile_file lineBlocksInv_def)
     (metis (no_types, lifting) case_prodD profFile.select_convs(2))

lemma lineProfile_canonical:
  "wfLineFiles files \<Longrightarrow> f \<in> set (Files (lineProfile files)) \<Longrightarrow> Canonical (fBlocks f)"
  by (auto simp: lineProfile_file wfLineFiles_def)
     (metis (no_types, lifting) blocksFromLineHits_canonical case_prodD profFile.select_convs(2))

end
