(* ===== verification/Lcov.thy ===== *)
theory Lcov
  imports LineHits
begin

text \<open>
  The LCOV parser of \<open>internal/profile/lcov.go\<close>: the loop over the lines of a tracefile with
  its state, every error it returns, and the report it builds. Go keeps in \<open>cur\<close> the map of
  the file being read, which is the one stored under its path; the model keeps the path.
\<close>

section \<open>The parser\<close>

datatype lcovError =
    EmptySF int
  | DAOutsideSF int
  | MalformedDA int string
  | MalformedDALine int string
  | MalformedDACount int string
  | LcovTooLong
  | NoSF

record lcovState =
  lcFiles :: "(string, (int, int) gomap) gomap"
  lcCur :: "string option"

abbreviation CR :: char where
  "CR \<equiv> CHR 0x0D"

text \<open>\<open>cur[ln] += count\<close>\<close>

definition addHit :: "(int, int) gomap \<Rightarrow> int \<Rightarrow> int \<Rightarrow> (int, int) gomap" where
  "addHit lines l n = AList.update l (add64 (case map_of lines l of None \<Rightarrow> 0 | Some m \<Rightarrow> m) n) lines"

definition openFile :: "string \<Rightarrow> (string, (int, int) gomap) gomap \<Rightarrow> (string, (int, int) gomap) gomap" where
  "openFile path files = (case map_of files path of None \<Rightarrow> AList.update path [] files | Some _ \<Rightarrow> files)"

definition hitFile ::
  "string \<Rightarrow> int \<Rightarrow> int \<Rightarrow> (string, (int, int) gomap) gomap \<Rightarrow> (string, (int, int) gomap) gomap" where
  "hitFile path l n files =
     AList.update path (addHit (case map_of files path of None \<Rightarrow> [] | Some m \<Rightarrow> m) l n) files"

definition lcovLine :: "int \<Rightarrow> string \<Rightarrow> lcovState \<Rightarrow> lcovError + lcovState" where
  "lcovLine lineNo raw st =
     (let l = trimRightSet {CR} raw
      in if hasPrefix l ''SF:'' then
           (let path = trimPrefix (trimSpace (drop 3 l)) ''./''
            in if path = [] then Inl (EmptySF lineNo)
               else Inr \<lparr>lcFiles = openFile path (lcFiles st), lcCur = Some path\<rparr>)
         else if hasPrefix l ''DA:'' then
           (case lcCur st of
              None \<Rightarrow> Inl (DAOutsideSF lineNo)
            | Some path \<Rightarrow>
                (let fields = splitByte CHR '','' (drop 3 l)
                 in if length fields < 2 then Inl (MalformedDA lineNo l)
                    else case atoi (trimSpace (fields ! 0)) of
                      None \<Rightarrow> Inl (MalformedDALine lineNo (fields ! 0))
                    | Some lno \<Rightarrow>
                        if lno \<le> 0 \<or> lno > maxLineNumber then Inl (MalformedDALine lineNo (fields ! 0))
                        else case atoi (trimSpace (fields ! 1)) of
                          None \<Rightarrow> Inl (MalformedDACount lineNo (fields ! 1))
                        | Some n \<Rightarrow>
                            if n < 0 then Inl (MalformedDACount lineNo (fields ! 1))
                            else Inr (st\<lparr>lcFiles := hitFile path lno n (lcFiles st)\<rparr>)))
         else if l = ''end_of_record'' then Inr (st\<lparr>lcCur := None\<rparr>)
         else Inr st)"

fun lcovLoop :: "int \<Rightarrow> string list \<Rightarrow> lcovState \<Rightarrow> lcovError + lcovState" where
  "lcovLoop lineNo [] st = Inr st"
| "lcovLoop lineNo (l # ls) st =
     (case lcovLine lineNo l st of Inl e \<Rightarrow> Inl e | Inr st' \<Rightarrow> lcovLoop (lineNo + 1) ls st')"

definition lcovParse :: "string \<Rightarrow> lcovError + profile" where
  "lcovParse input =
     (let (ls, tooLong) = scanLines 4194304 input
      in case lcovLoop 1 ls \<lparr>lcFiles = [], lcCur = None\<rparr> of
           Inl e \<Rightarrow> Inl e
         | Inr st \<Rightarrow>
             if tooLong then Inl LcovTooLong
             else if lcFiles st = [] then Inl NoSF
             else Inr (lineProfile (lcFiles st)))"

section \<open>The contract\<close>

lemma wfLines_addHit: "wfLines lines \<Longrightarrow> 1 \<le> l \<Longrightarrow> l \<le> maxLineNumber \<Longrightarrow> wfLines (addHit lines l n)"
  by (auto simp: wfLines_def addHit_def dom_update)

lemma wfLineFiles_lookup:
  "wfLineFiles files \<longleftrightarrow> wfMap files \<and> (\<forall>p lines. map_of files p = Some lines \<longrightarrow> wfLines lines)"
  by (auto simp: wfLineFiles_def wfMap_map_of)

lemma wfLineFiles_open: "wfLineFiles files \<Longrightarrow> wfLineFiles (openFile p files)"
  by (auto simp: wfLineFiles_lookup openFile_def wfLines_def split: option.split)

lemma wfLineFiles_hit:
  "wfLineFiles files \<Longrightarrow> 1 \<le> l \<Longrightarrow> l \<le> maxLineNumber \<Longrightarrow> wfLineFiles (hitFile p l n files)"
  by (auto simp: wfLineFiles_lookup hitFile_def intro!: wfLines_addHit split: option.split)
     (simp add: wfLines_def)

lemma lcovLine_wf:
  "lcovLine k l st = Inr st' \<Longrightarrow> wfLineFiles (lcFiles st) \<Longrightarrow> wfLineFiles (lcFiles st')"
  by (auto simp: lcovLine_def Let_def wfLineFiles_open
      intro!: wfLineFiles_hit split: if_splits option.splits)

lemma lcovLoop_wf:
  "lcovLoop k ls st = Inr st' \<Longrightarrow> wfLineFiles (lcFiles st) \<Longrightarrow> wfLineFiles (lcFiles st')"
proof (induction ls arbitrary: k st)
  case (Cons l ls)
  then show ?case by (auto split: sum.splits dest: lcovLine_wf)
qed simp

lemma lcovParse_result:
  assumes "lcovParse input = Inr p"
  obtains files where "wfLineFiles files" "p = lineProfile files"
proof -
  obtain ls e where "scanLines 4194304 input = (ls, e)" by fastforce
  with assms obtain st where "lcovLoop 1 ls \<lparr>lcFiles = [], lcCur = None\<rparr> = Inr st"
    "p = lineProfile (lcFiles st)"
    by (auto simp: lcovParse_def split: sum.splits if_splits)
  with that lcovLoop_wf show ?thesis by (force simp: wfLineFiles_def)
qed

interpretation lcov: canonical_parser lcovParse
proof unfold_locales
  fix input p f
  assume p: "lcovParse input = Inr p"
  then show "saneProfile p" by (auto elim: lcovParse_result simp: lineProfile_sane)
  assume "f \<in> set (Files p)"
  with p show "Canonical (fBlocks f)" by (auto elim: lcovParse_result simp: lineProfile_canonical)
qed

section \<open>Round trip\<close>

text \<open>
  What the format can carry: records of a path with hit counts for lines, printed as the tools
  print them.
\<close>

definition lcovRecord :: "string \<times> (int \<times> int) list \<Rightarrow> string list" where
  "lcovRecord r = (''SF:'' @ fst r) # map (\<lambda>(l, n). ''DA:'' @ itoa l @ '','' @ itoa n) (snd r)
     @ [''end_of_record'']"

definition lcovText :: "(string \<times> (int \<times> int) list) list \<Rightarrow> string" where
  "lcovText recs = concat (map (\<lambda>l. l @ [LF]) (concat (map lcovRecord recs)))"

text \<open>A path the text can carry, and line and hit numbers the parser accepts.\<close>

definition lcovPathOk :: "string \<Rightarrow> bool" where
  "lcovPathOk p \<longleftrightarrow> p \<noteq> [] \<and> tight p \<and> LF \<notin> set p \<and> \<not> hasPrefix p ''./'' \<and> int (length p) < 4000000"

definition lcovRecOk :: "string \<times> (int \<times> int) list \<Rightarrow> bool" where
  "lcovRecOk r \<longleftrightarrow> lcovPathOk (fst r) \<and>
     (\<forall>(l, n) \<in> set (snd r). 1 \<le> l \<and> l \<le> maxLineNumber \<and> 0 \<le> n \<and> n \<le> maxInt64)"

definition hitsOf :: "(string \<times> (int \<times> int) list) list \<Rightarrow> string \<Rightarrow> int \<Rightarrow> int list" where
  "hitsOf recs p l =
     concat (map (\<lambda>r. if fst r = p then map snd (filter (\<lambda>d. fst d = l) (snd r)) else []) recs)"

definition linesIn :: "(string \<times> (int \<times> int) list) list \<Rightarrow> string \<Rightarrow> int set" where
  "linesIn recs p = (\<Union>r \<in> set recs. if fst r = p then fst ` set (snd r) else {})"

lemma tight_last: "tight s \<Longrightarrow> s \<noteq> [] \<Longrightarrow> last s \<noteq> CR"
proof
  assume t: "tight s" and "s \<noteq> []" "last s = CR"
  then obtain r where "s = r @ [CR]" by (metis append_butlast_last_id)
  then have "trailSpace s = 1" by (simp add: trailSpace_def asciiSpace_def)
  then show False using t by (simp add: tight_def)
qed

lemma trimRightSet_last: "last s \<noteq> c \<Longrightarrow> trimRightSet {c} s = s"
  by (cases s rule: rev_cases) (simp_all add: trimRightSet_def)

lemma dropCR_last: "last s \<noteq> CR \<Longrightarrow> dropCR s = s"
  by (simp add: dropCR_def)

lemma itoa_last: "last (itoa n) \<noteq> CR"
  using tight_last [of "itoa n"] by simp

lemma da_last: "last (''DA:'' @ itoa l @ '','' @ itoa n) \<noteq> CR"
  using itoa_last [of n] by simp

lemma sf_last: "lcovPathOk p \<Longrightarrow> last (''SF:'' @ p) \<noteq> CR"
  using tight_last [of p] by (auto simp: lcovPathOk_def)

lemma lcovLine_SF:
  "lcovPathOk p \<Longrightarrow> lcovLine k (''SF:'' @ p) st = Inr \<lparr>lcFiles = openFile p (lcFiles st), lcCur = Some p\<rparr>"
proof -
  assume ok: "lcovPathOk p"
  have "trimRightSet {CR} (''SF:'' @ p) = ''SF:'' @ p"
    by (rule trimRightSet_last) (rule sf_last [OF ok])
  then show ?thesis using ok by (simp add: lcovLine_def lcovPathOk_def trimPrefix_def)
qed

lemma lcovLine_DA:
  assumes "lcCur st = Some p" and "1 \<le> l" "l \<le> maxLineNumber" "0 \<le> n" "n \<le> maxInt64"
  shows "lcovLine k (''DA:'' @ itoa l @ '','' @ itoa n) st
     = Inr (st\<lparr>lcFiles := hitFile p l n (lcFiles st)\<rparr>)"
proof -
  have t: "trimRightSet {CR} (''DA:'' @ itoa l @ '','' @ itoa n) = ''DA:'' @ itoa l @ '','' @ itoa n"
    by (rule trimRightSet_last) (rule da_last)
  have s: "splitByte CHR '','' (itoa l @ CHR '','' # itoa n) = [itoa l, itoa n]"
    by (simp add: splitByte_append splitByte_none itoa_no_byte isDigit_def)
  have "inInt64 l" "inInt64 n"
    using assms by (auto simp: inInt64_def minInt64_def maxInt64_def maxLineNumber_def)
  then show ?thesis using assms t s
    by (simp add: lcovLine_def atoi_itoa)
qed

lemma lcovLine_end: "lcovLine k ''end_of_record'' st = Inr (st\<lparr>lcCur := None\<rparr>)"
  by (simp add: lcovLine_def trimRightSet_def)

lemma lcovLoop_append:
  "lcovLoop k (ls @ ms) st =
     (case lcovLoop k ls st of Inl e \<Rightarrow> Inl e | Inr st' \<Rightarrow> lcovLoop (k + int (length ls)) ms st')"
  by (induction ls arbitrary: k st) (auto split: sum.split simp: algebra_simps)

definition hitAll ::
  "string \<Rightarrow> (int \<times> int) list \<Rightarrow> (string, (int, int) gomap) gomap \<Rightarrow> (string, (int, int) gomap) gomap" where
  "hitAll p das files = foldl (\<lambda>fs (l, n). hitFile p l n fs) files das"

lemma lcovLoop_DAs:
  assumes "lcCur st = Some p"
    and "\<forall>(l, n) \<in> set das. 1 \<le> l \<and> l \<le> maxLineNumber \<and> 0 \<le> n \<and> n \<le> maxInt64"
  shows "lcovLoop k (map (\<lambda>(l, n). ''DA:'' @ itoa l @ '','' @ itoa n) das) st
     = Inr (st\<lparr>lcFiles := hitAll p das (lcFiles st)\<rparr>)"
  using assms
proof (induction das arbitrary: k st)
  case (Cons d das)
  obtain l n where d: "d = (l, n)" by fastforce
  have step: "lcovLine k (''DA:'' @ itoa l @ '','' @ itoa n) st
     = Inr (st\<lparr>lcFiles := hitFile p l n (lcFiles st)\<rparr>)"
    using Cons.prems by (intro lcovLine_DA) (auto simp: d)
  have "lcovLoop (k + 1) (map (\<lambda>(l, n). ''DA:'' @ itoa l @ '','' @ itoa n) das)
      (st\<lparr>lcFiles := hitFile p l n (lcFiles st)\<rparr>)
    = Inr (st\<lparr>lcFiles := hitAll p das (hitFile p l n (lcFiles st))\<rparr>)"
    using Cons by simp
  then show ?case using step by (simp add: d hitAll_def del: append.simps)
qed (simp add: hitAll_def)

lemma lcovLoop_record:
  assumes "lcovRecOk r"
  shows "lcovLoop k (lcovRecord r) st
     = Inr \<lparr>lcFiles = hitAll (fst r) (snd r) (openFile (fst r) (lcFiles st)), lcCur = None\<rparr>"
  using assms
  by (simp add: lcovRecord_def lcovRecOk_def lcovLine_SF lcovLoop_append lcovLoop_DAs lcovLine_end
      del: append.simps)

lemma lcovLoop_records:
  assumes "\<forall>r \<in> set recs. lcovRecOk r" and "lcCur st = None"
  shows "lcovLoop k (concat (map lcovRecord recs)) st
     = Inr \<lparr>lcFiles = foldl (\<lambda>fs r. hitAll (fst r) (snd r) (openFile (fst r) fs)) (lcFiles st) recs,
            lcCur = None\<rparr>"
  using assms
  by (induction recs arbitrary: k st) (simp_all add: lcovLoop_append lcovLoop_record)

definition linesAt :: "(string, (int, int) gomap) gomap \<Rightarrow> string \<Rightarrow> (int, int) gomap" where
  "linesAt files p = (case map_of files p of None \<Rightarrow> [] | Some m \<Rightarrow> m)"

definition addAll :: "int option \<Rightarrow> int list \<Rightarrow> int option" where
  "addAll acc ns = foldl (\<lambda>acc n. Some (add64 (case acc of None \<Rightarrow> 0 | Some m \<Rightarrow> m) n)) acc ns"

lemma addAll_simps [simp]:
  "addAll acc [] = acc"
  "addAll acc (n # ns) = addAll (Some (add64 (case acc of None \<Rightarrow> 0 | Some m \<Rightarrow> m) n)) ns"
  by (simp_all add: addAll_def)

lemma linesAt_hitFile: "linesAt (hitFile q l n files) p
    = (if p = q then addHit (linesAt files p) l n else linesAt files p)"
  by (simp add: linesAt_def hitFile_def)

lemma linesAt_openFile: "linesAt (openFile q files) p = linesAt files p"
  by (simp add: linesAt_def openFile_def split: option.split)

lemma addHit_lookup: "map_of (addHit lines l n) k
    = (if k = l then addAll (map_of lines l) [n] else map_of lines k)"
  by (simp add: addHit_def addAll_def)

lemma addAll_append: "addAll acc (ms @ ns) = addAll (addAll acc ms) ns"
  by (simp add: addAll_def)

lemma hitAll_lookup:
  "map_of (linesAt (hitAll q das files) p) l = addAll (map_of (linesAt files p) l)
     (if q = p then map snd (filter (\<lambda>d. fst d = l) das) else [])"
proof (induction das arbitrary: files)
  case (Cons d das)
  obtain m n where d: "d = (m, n)" by fastforce
  have "hitAll q (d # das) files = hitAll q das (hitFile q m n files)" by (simp add: hitAll_def d)
  then show ?case
    by (simp add: Cons.IH d linesAt_hitFile addHit_lookup)
qed (simp add: hitAll_def)

lemma files_lookup:
  "map_of (linesAt (foldl (\<lambda>fs r. hitAll (fst r) (snd r) (openFile (fst r) fs)) files recs) p) l
     = addAll (map_of (linesAt files p) l) (hitsOf recs p l)"
proof (induction recs arbitrary: files)
  case Nil
  show ?case by (simp add: hitsOf_def)
next
  case (Cons r recs)
  have "hitsOf (r # recs) p l
      = (if fst r = p then map snd (filter (\<lambda>d. fst d = l) (snd r)) else []) @ hitsOf recs p l"
    by (simp add: hitsOf_def)
  then show ?case
    by (simp add: Cons.IH hitAll_lookup linesAt_openFile addAll_append del: append.simps if_split)
qed

lemma keys_hitFile: "set (keysOf (hitFile q l n files)) = insert q (set (keysOf files))"
  by (simp add: hitFile_def dom_update)

lemma keys_hitAll: "q \<in> set (keysOf files) \<Longrightarrow> set (keysOf (hitAll q das files)) = set (keysOf files)"
proof (induction das arbitrary: files)
  case (Cons d das)
  have "hitAll q (d # das) files = hitAll q das (hitFile q (fst d) (snd d) files)"
    by (simp add: hitAll_def split: prod.split)
  then show ?case using Cons keys_hitFile by (metis insertI1 insert_absorb)
qed (simp add: hitAll_def)

lemma keys_openFile: "set (keysOf (openFile q files)) = insert q (set (keysOf files))"
  by (auto simp: openFile_def dom_update map_of_eq_None_iff split: option.split)
     (metis fst_conv image_eqI map_of_SomeD)

lemma keys_files:
  "set (keysOf (foldl (\<lambda>fs r. hitAll (fst r) (snd r) (openFile (fst r) fs)) files recs))
     = set (keysOf files) \<union> fst ` set recs"
proof (induction recs arbitrary: files)
  case (Cons r recs)
  have "set (keysOf (hitAll (fst r) (snd r) (openFile (fst r) files))) = insert (fst r) (set (keysOf files))"
    using keys_hitAll keys_openFile by (metis insertI1)
  then show ?case by (simp add: Cons.IH del: set_map)
qed simp

lemma addAll_sum:
  "0 \<le> c \<Longrightarrow> \<forall>n \<in> set ns. 0 \<le> n \<Longrightarrow> c + sum_list ns \<le> maxInt64 \<Longrightarrow> addAll (Some c) ns = Some (c + sum_list ns)"
proof (induction ns arbitrary: c)
  case (Cons n ns)
  have "0 \<le> sum_list ns" using Cons.prems by (intro sum_list_nonneg) simp
  then have "add64 c n = c + n" using Cons.prems by (intro add64_nonneg_id) simp_all
  then show ?case using Cons by simp
qed simp

lemma addAll_None_sum:
  assumes "\<forall>n \<in> set ns. 0 \<le> n" and "sum_list ns \<le> maxInt64"
  shows "addAll None ns = (if ns = [] then None else Some (sum_list ns))"
proof (cases ns)
  case (Cons n ms)
  then have "addAll None ns = addAll (Some 0) ns" by simp
  then show ?thesis using addAll_sum [of 0 ns] assms Cons by simp
qed simp

lemma hitsOf_empty: "hitsOf recs p l = [] \<longleftrightarrow> l \<notin> linesIn recs p"
proof -
  have "map snd (filter (\<lambda>d. fst d = l) das) = [] \<longleftrightarrow> l \<notin> fst ` set das" for das :: "(int \<times> int) list"
    by (auto simp: filter_empty_conv rev_image_eqI)
  then show ?thesis by (auto simp: hitsOf_def linesIn_def)
qed

lemma hitsOf_nonneg: "\<forall>r \<in> set recs. lcovRecOk r \<Longrightarrow> \<forall>n \<in> set (hitsOf recs p l). 0 \<le> n"
  by (fastforce simp: hitsOf_def lcovRecOk_def split: if_splits)

lemma scan_ok:
  assumes "\<forall>r \<in> set recs. lcovRecOk r"
  shows "scanLines 4194304 (lcovText recs) = (concat (map lcovRecord recs), False)"
proof -
  let ?ls = "concat (map lcovRecord recs)"
  have line: "LF \<notin> set l \<and> int (length l) < 4194304 \<and> dropCR l = l" if l: "l \<in> set ?ls" for l
  proof -
    obtain r where r: "r \<in> set recs" "l \<in> set (lcovRecord r)" using l by force
    have ok: "lcovRecOk r" using assms r(1) by simp
    consider "l = ''SF:'' @ fst r" | m n where "(m, n) \<in> set (snd r)" "l = ''DA:'' @ itoa m @ '','' @ itoa n"
      | "l = ''end_of_record''"
      using r(2) by (auto simp: lcovRecord_def)
    then show ?thesis
    proof cases
      case 1
      then show ?thesis using ok sf_last [of "fst r"] dropCR_last
        by (auto simp: lcovRecOk_def lcovPathOk_def)
    next
      case 2
      have "inInt64 m" "inInt64 n"
        using ok 2(1) by (auto simp: lcovRecOk_def inInt64_def minInt64_def maxInt64_def maxLineNumber_def)
      then have "length (itoa m) \<le> 20" "length (itoa n) \<le> 20" by (simp_all add: itoa_length)
      then show ?thesis using 2 dropCR_last [OF da_last [of m n]] itoa_no_byte [of LF]
        by (auto simp: isDigit_def)
    qed (simp add: dropCR_def)
  qed
  then have "map dropCR ?ls = ?ls" by (intro map_idI) blast
  then show ?thesis
    using scanLines_text [of ?ls 4194304] line unfolding lcovText_def by metis
qed

text \<open>The lines of a parsed file with their counts, spelled out block by block.\<close>

definition fileLines :: "profFile \<Rightarrow> (int \<times> int) list" where
  "fileLines f = concat (map blockLines (fBlocks f))"

lemma lineProfile_lines:
  assumes "wfLineFiles files" and "f \<in> set (Files (lineProfile files))"
  shows "fileLines f = hitList (linesAt files (fPath f))"
proof -
  obtain lines where l: "(fPath f, lines) \<in> set files" "f = \<lparr>fPath = fPath f, fBlocks = blocksFromLineHits lines\<rparr>"
    using assms(2) unfolding lineProfile_file by blast
  have "linesAt files (fPath f) = lines" "wfLines lines"
    using assms(1) l(1) by (auto simp: linesAt_def wfLineFiles_def wfMap_map_of)
  moreover have "fBlocks f = blocksFromLineHits lines" using l(2) by (metis profFile.select_convs(2))
  ultimately show ?thesis using blocksFromLineHits_inv by (simp add: fileLines_def lineBlocksInv_def)
qed

lemma hitList_lookup:
  assumes "wfMap lines" and "\<And>l. map_of lines l = (if l \<in> L then Some (h l) else None)"
  shows "hitList lines = map (\<lambda>l. (l, h l)) (sorted_list_of_set L)"
proof -
  have keys: "set (keysOf lines) = L"
    unfolding set_keysOf dom_def using assms(2) by auto
  then have "sort (keysOf lines) = sorted_list_of_set L"
    using assms(1) by (metis distinct_remdups_id sorted_list_of_set_sort_remdups wfMap_def)
  then have "hitList lines = map (\<lambda>l. (l, case map_of lines l of None \<Rightarrow> 0 | Some n \<Rightarrow> n)) (sorted_list_of_set L)"
    by (simp add: hitList_def)
  moreover have "finite L" using keys by (metis List.finite_set)
  ultimately show ?thesis by (simp add: assms(2))
qed



end
