(* ===== verification/GoCover.thy ===== *)
theory GoCover
  imports LineHits "HOL-Library.Product_Lexorder"
begin

text \<open>
  The parser of Go cover profiles, \<open>internal/profile/gocover.go\<close>. Go ranges over the map of a
  file's blocks in no fixed order and then sorts them by their start alone, with a sort that is
  not stable: blocks that share a start may come out in any order. The model takes that choice
  as an argument \<open>ord\<close>, a rearrangement of the blocks made before a stable sort, and every
  outcome of the Go code is the model's for some \<open>ord\<close>.
\<close>

section \<open>One line\<close>

datatype goLineError =
    MalformedLine string
  | MalformedFields string
  | MalformedPosition string
  | MalformedStmtCount string
  | MalformedHitCount string
  | NegativeValue string
  | ImplausibleRange string

definition parsePos :: "string \<Rightarrow> goLineError + (int \<times> int)" where
  "parsePos s =
     (case cutByte CHR ''.'' s of
        None \<Rightarrow> Inl (MalformedPosition s)
      | Some (l, c) \<Rightarrow>
          (case atoi l of
             None \<Rightarrow> Inl (MalformedPosition s)
           | Some lno \<Rightarrow>
               (case atoi c of
                  None \<Rightarrow> Inl (MalformedPosition s)
                | Some col \<Rightarrow> Inr (lno, col))))"

definition checkGoBlock :: "string \<Rightarrow> block \<Rightarrow> goLineError + block" where
  "checkGoBlock l b =
     (if NumStmts b < 0 \<or> Count b < 0 then Inl (NegativeValue l)
      else if StartLine b < 1 \<or> EndLine b < StartLine b \<or> EndLine b > maxLineNumber
        then Inl (ImplausibleRange l)
      else Inr b)"

definition parseGoLine :: "string \<Rightarrow> goLineError + (string \<times> block)" where
  "parseGoLine l =
     (case cutLastByte CHR '':'' l of
        None \<Rightarrow> Inl (MalformedLine l)
      | Some (path, rest) \<Rightarrow>
          if path = [] then Inl (MalformedLine l)
          else (case fieldsOf rest of
            [pos, stmts, hits] \<Rightarrow>
              (case cutByte CHR '','' pos of
                 None \<Rightarrow> Inl (MalformedPosition pos)
               | Some (start, stop) \<Rightarrow>
                   (case parsePos start of Inl e \<Rightarrow> Inl e
                    | Inr (sl, sc) \<Rightarrow>
                   (case parsePos stop of Inl e \<Rightarrow> Inl e
                    | Inr (el, ec) \<Rightarrow>
                   (case atoi stmts of None \<Rightarrow> Inl (MalformedStmtCount stmts)
                    | Some n \<Rightarrow>
                   (case atoi hits of None \<Rightarrow> Inl (MalformedHitCount hits)
                    | Some c \<Rightarrow>
                   (case checkGoBlock l \<lparr>StartLine = sl, StartCol = sc, EndLine = el, EndCol = ec,
                                          NumStmts = n, Count = c\<rparr> of
                      Inl e \<Rightarrow> Inl e
                    | Inr b \<Rightarrow> Inr (path, b)))))))
          | _ \<Rightarrow> Inl (MalformedFields l)))"

section \<open>The profile\<close>

datatype goError =
    ModeMissing int
  | BadLine int goLineError
  | GoTooLong
  | EmptyProfile

record goState =
  goFiles :: "(string, (blockKey, block) gomap) gomap"
  goSeenMode :: bool

text \<open>A repeated block adds its count to the one kept; only the count.\<close>

definition addGoBlock :: "(blockKey, block) gomap \<Rightarrow> block \<Rightarrow> (blockKey, block) gomap" where
  "addGoBlock blocks b =
     (case map_of blocks (keyOf b) of
        Some ex \<Rightarrow> AList.update (keyOf b) (ex\<lparr>Count := add64 (Count ex) (Count b)\<rparr>) blocks
      | None \<Rightarrow> AList.update (keyOf b) b blocks)"

definition goLine :: "int \<Rightarrow> string \<Rightarrow> goState \<Rightarrow> goError + goState" where
  "goLine lineNo raw st =
     (let l = trimSpace raw
      in if l = [] then Inr st
         else if hasPrefix l ''mode:'' then Inr (st\<lparr>goSeenMode := True\<rparr>)
         else if \<not> goSeenMode st then Inl (ModeMissing lineNo)
         else case parseGoLine l of
           Inl e \<Rightarrow> Inl (BadLine lineNo e)
         | Inr (path, b) \<Rightarrow>
             (let blocks = (case map_of (goFiles st) path of None \<Rightarrow> [] | Some m \<Rightarrow> m)
              in Inr (st\<lparr>goFiles := AList.update path (addGoBlock blocks b) (goFiles st)\<rparr>)))"

fun goLoop :: "int \<Rightarrow> string list \<Rightarrow> goState \<Rightarrow> goError + goState" where
  "goLoop lineNo [] st = Inr st"
| "goLoop lineNo (l # ls) st =
     (case goLine lineNo l st of Inl e \<Rightarrow> Inl e | Inr st' \<Rightarrow> goLoop (lineNo + 1) ls st')"

definition goProfile ::
  "(block list \<Rightarrow> block list) \<Rightarrow> (string, (blockKey, block) gomap) gomap \<Rightarrow> profile" where
  "goProfile ord files =
     \<lparr>Files = sort_key fPath (map (\<lambda>(path, blocks).
        \<lparr>fPath = path, fBlocks = sort_key (\<lambda>b. (StartLine b, StartCol b)) (ord (map snd blocks))\<rparr>) files)\<rparr>"

definition goParse :: "(block list \<Rightarrow> block list) \<Rightarrow> string \<Rightarrow> goError + profile" where
  "goParse ord input =
     (let (ls, tooLong) = scanLines 1048576 input
      in case goLoop 1 ls \<lparr>goFiles = [], goSeenMode = False\<rparr> of
           Inl e \<Rightarrow> Inl e
         | Inr st \<Rightarrow>
             if tooLong then Inl GoTooLong
             else if \<not> goSeenMode st then Inl EmptyProfile
             else Inr (goProfile ord (goFiles st)))"

definition rearranges :: "(block list \<Rightarrow> block list) \<Rightarrow> bool" where
  "rearranges ord \<longleftrightarrow> (\<forall>xs. mset (ord xs) = mset xs)"

section \<open>What every accepted block satisfies\<close>

lemma checkGoBlock_sane: "checkGoBlock l b = Inr b' \<Longrightarrow> b' = b \<and> saneBlock b \<and> 0 \<le> Count b"
  by (auto simp: checkGoBlock_def saneBlock_def split: if_splits)

lemma parseGoLine_sane: "parseGoLine l = Inr (path, b) \<Longrightarrow> saneBlock b \<and> 0 \<le> Count b"
  by (auto simp: parseGoLine_def dest!: checkGoBlock_sane
      split: option.splits prod.splits list.splits sum.splits if_splits)

definition wfGoFiles :: "(string, (blockKey, block) gomap) gomap \<Rightarrow> bool" where
  "wfGoFiles files \<longleftrightarrow> wfMap files \<and>
     (\<forall>p blocks. map_of files p = Some blocks \<longrightarrow>
        wfBlocks blocks \<and> (\<forall>k b. map_of blocks k = Some b \<longrightarrow> saneBlock b))"

lemma addGoBlock_lookup:
  "map_of (addGoBlock blocks b) k =
     (if k = keyOf b then Some (case map_of blocks k of None \<Rightarrow> b
        | Some ex \<Rightarrow> ex\<lparr>Count := add64 (Count ex) (Count b)\<rparr>)
      else map_of blocks k)"
  by (auto simp: addGoBlock_def split: option.split)

lemma addGoBlock_wf:
  assumes "wfBlocks blocks" and "\<forall>k b. map_of blocks k = Some b \<longrightarrow> saneBlock b" and "saneBlock b"
  shows "wfBlocks (addGoBlock blocks b)"
    and "\<forall>k c. map_of (addGoBlock blocks b) k = Some c \<longrightarrow> saneBlock c"
proof -
  have "wfMap (addGoBlock blocks b)"
    using assms(1) by (auto simp: wfBlocks_def addGoBlock_def split: option.split)
  then show "wfBlocks (addGoBlock blocks b)"
    using assms(1) by (auto simp: wfBlocks_def addGoBlock_lookup keyOf_def split: option.splits if_splits)
  show "\<forall>k c. map_of (addGoBlock blocks b) k = Some c \<longrightarrow> saneBlock c"
    using assms(2,3) by (auto simp: addGoBlock_lookup saneBlock_def split: option.splits if_splits)
qed

text \<open>What one accepted line does to the files read so far.\<close>

definition addGoLine ::
  "(string, (blockKey, block) gomap) gomap \<Rightarrow> string \<times> block \<Rightarrow> (string, (blockKey, block) gomap) gomap" where
  "addGoLine files pb =
     AList.update (fst pb)
       (addGoBlock (case map_of files (fst pb) of None \<Rightarrow> [] | Some m \<Rightarrow> m) (snd pb)) files"

lemma goLine_cases:
  assumes "goLine k l st = Inr st'"
  obtains "goFiles st' = goFiles st"
  | pb where "parseGoLine (trimSpace l) = Inr pb" "goFiles st' = addGoLine (goFiles st) pb"
proof -
  consider "trimSpace l = [] \<or> hasPrefix (trimSpace l) ''mode:''"
    | "trimSpace l \<noteq> []" "\<not> hasPrefix (trimSpace l) ''mode:''" by blast
  then show ?thesis
  proof cases
    case 1
    then have "goFiles st' = goFiles st"
      using assms by (auto simp: goLine_def Let_def split: if_splits)
    then show ?thesis by (rule that(1))
  next
    case 2
    then obtain pb where "parseGoLine (trimSpace l) = Inr pb" "goFiles st' = addGoLine (goFiles st) pb"
      using assms by (cases "parseGoLine (trimSpace l)")
        (auto simp: goLine_def Let_def addGoLine_def split: if_splits prod.splits)
    then show ?thesis by (rule that(2))
  qed
qed

lemma addGoLine_wf:
  assumes wf: "wfGoFiles files" and b: "saneBlock (snd pb)"
  shows "wfGoFiles (addGoLine files pb)"
proof -
  let ?m = "case map_of files (fst pb) of None \<Rightarrow> [] | Some m \<Rightarrow> m"
  have "wfBlocks ?m" "\<forall>k b. map_of ?m k = Some b \<longrightarrow> saneBlock b"
    using wf by (auto simp: wfGoFiles_def wfBlocks_def split: option.split)
  from addGoBlock_wf [OF this b] show ?thesis using wf by (simp add: addGoLine_def wfGoFiles_def)
qed

lemma goLine_wf: "goLine k l st = Inr st' \<Longrightarrow> wfGoFiles (goFiles st) \<Longrightarrow> wfGoFiles (goFiles st')"
proof (erule goLine_cases)
  fix pb
  assume "wfGoFiles (goFiles st)" "parseGoLine (trimSpace l) = Inr pb"
    "goFiles st' = addGoLine (goFiles st) pb"
  moreover have "saneBlock (snd pb)"
    using parseGoLine_sane [of "trimSpace l" "fst pb" "snd pb"] calculation(2) by simp
  ultimately show "wfGoFiles (goFiles st')" by (simp add: addGoLine_wf)
qed simp

lemma goLoop_wf: "goLoop k ls st = Inr st' \<Longrightarrow> wfGoFiles (goFiles st) \<Longrightarrow> wfGoFiles (goFiles st')"
proof (induction ls arbitrary: k st)
  case (Cons l ls)
  then show ?case by (auto split: sum.splits dest: goLine_wf)
qed simp

lemma goParse_result:
  assumes "goParse ord input = Inr p"
  obtains files where "wfGoFiles files" "p = goProfile ord files"
proof -
  obtain ls e where "scanLines 1048576 input = (ls, e)" by fastforce
  with assms obtain st where st: "goLoop 1 ls \<lparr>goFiles = [], goSeenMode = False\<rparr> = Inr st"
    "p = goProfile ord (goFiles st)"
    by (auto simp: goParse_def split: sum.splits if_splits)
  have "wfGoFiles (goFiles st)" using goLoop_wf [OF st(1)] by (simp add: wfGoFiles_def)
  then show ?thesis using st(2) by (rule that)
qed

lemma rearranges_set: "rearranges ord \<Longrightarrow> set (ord xs) = set xs"
  by (metis mset_eq_setD rearranges_def)

lemma goProfile_paths:
  "wfMap files \<Longrightarrow> sorted_wrt (<) (map fPath (Files (goProfile ord files)))"
proof -
  assume wf: "wfMap files"
  let ?fs = "map (\<lambda>(path, blocks). \<lparr>fPath = path,
    fBlocks = sort_key (\<lambda>b. (StartLine b, StartCol b)) (ord (map snd blocks))\<rparr>) files"
  have "map fPath ?fs = keysOf files" by (induction files) auto
  then have "distinct (map fPath ?fs)" using wf by (simp only: wfMap_def)
  then show ?thesis unfolding goProfile_def profile.select_convs by (rule sort_key_strict)
qed

lemma goProfile_file:
  assumes "rearranges ord" and "wfGoFiles files" and "f \<in> set (Files (goProfile ord files))"
  obtains blocks where "map_of files (fPath f) = Some blocks" "wfBlocks blocks"
    "mset (fBlocks f) = mset (map snd blocks)"
proof -
  obtain path blocks where b: "(path, blocks) \<in> set files" and f: "f = \<lparr>fPath = path,
      fBlocks = sort_key (\<lambda>b. (StartLine b, StartCol b)) (ord (map snd blocks))\<rparr>"
    using assms(3) by (auto simp: goProfile_def)
  have "map_of files path = Some blocks"
    using assms(2) b by (simp add: wfGoFiles_def wfMap_map_of)
  then show ?thesis
    using that assms(1,2) by (simp add: f rearranges_def wfGoFiles_def)
qed

lemma goParse_sane:
  assumes "rearranges ord" and "goParse ord input = Inr p"
  shows "saneProfile p"
proof -
  obtain files where wf: "wfGoFiles files" and p: "p = goProfile ord files"
    using assms(2) by (rule goParse_result)
  have "saneBlock b" if f: "f \<in> set (Files p)" and b: "b \<in> set (fBlocks f)" for f b
  proof -
    obtain blocks where m: "map_of files (fPath f) = Some blocks" "wfBlocks blocks"
        "mset (fBlocks f) = mset (map snd blocks)"
      using assms(1) wf f unfolding p by (rule goProfile_file)
    have "b \<in> snd ` set blocks" using b mset_eq_setD [OF m(3)] by simp
    then obtain k where "(k, b) \<in> set blocks" by auto
    then have "map_of blocks k = Some b" using m(2) by (simp add: wfBlocks_def wfMap_map_of)
    then show ?thesis using wf m(1) unfolding wfGoFiles_def by blast
  qed
  moreover have "sorted_wrt (<) (map fPath (Files p))"
    unfolding p using wf by (intro goProfile_paths) (simp add: wfGoFiles_def)
  ultimately show ?thesis by (simp add: saneProfile_def)
qed

interpretation gocover: coverage_parser "goParse (\<lambda>blocks. blocks)"
  by unfold_locales (rule goParse_sane, simp_all add: rearranges_def)

section \<open>The report does not depend on the iteration order\<close>

text \<open>Merged on its own, the parsed profile is the merge of one file per recorded line.\<close>

lemma blockAt_goProfile:
  assumes "rearranges ord" and "wfGoFiles files"
  shows "blockAt (Files (goProfile ord files)) p k =
     (case map_of files p of None \<Rightarrow> None | Some blocks \<Rightarrow> map_of blocks k)"
proof (cases "\<exists>f \<in> set (Files (goProfile ord files)). fPath f = p")
  case True
  then obtain f where f: "f \<in> set (Files (goProfile ord files))" "fPath f = p" by blast
  obtain blocks where m: "map_of files p = Some blocks" "wfBlocks blocks"
      "mset (fBlocks f) = mset (map snd blocks)"
    using goProfile_file [OF assms f(1)] f(2) by metis
  have wf: "wfMap blocks" and key: "\<And>k b. (k, b) \<in> set blocks \<Longrightarrow> keyOf b = k"
    using m(2) by (auto simp: wfBlocks_def wfMap_map_of)
  have "map keyOf (map snd blocks) = keysOf blocks" using key by (auto simp: map_eq_conv)
  then have "distinct (map keyOf (fBlocks f))"
    using wf distinct_map_mset [OF m(3), of keyOf] by (simp only: wfMap_def)
  moreover have "distinct (map fPath (Files (goProfile ord files)))"
    using goProfile_paths assms(2) by (auto simp: wfGoFiles_def strict_sorted_iff)
  ultimately have "blockAt (Files (goProfile ord files)) p k = Some b \<longleftrightarrow> b \<in> set (fBlocks f) \<and> keyOf b = k" for b
    using f by (simp add: blockAt_def blocksOf_distinct [OF _ f(1), unfolded f(2)] combineAll_distinct)
  moreover have "b \<in> set (fBlocks f) \<and> keyOf b = k \<longleftrightarrow> map_of blocks k = Some b" for b
  proof -
    have "b \<in> set (fBlocks f) \<longleftrightarrow> (\<exists>k. (k, b) \<in> set blocks)"
      using mset_eq_setD [OF m(3)] by force
    then show ?thesis using key by (auto simp: wfMap_map_of [OF wf, symmetric])
  qed
  ultimately show ?thesis using m(1) by (cases "map_of blocks k") (auto simp flip: not_None_eq)
next
  case False
  have "map_of files p = None"
    using False by (force simp: goProfile_def map_of_eq_None_iff)
  moreover have "p \<notin> set (map fPath (Files (goProfile ord files)))" using False by auto
  ultimately show ?thesis by (simp add: blockAt_def blocksOf_none del: set_map)
qed

lemma files_goProfile:
  "set (map fPath (Files (goProfile ord files))) = set (keysOf files)"
  by (force simp: goProfile_def)

lemma Merge_goProfile:
  assumes "rearranges ord" and "rearranges ord'" and "wfGoFiles files"
  shows "Merge [Some (goProfile ord files)] = Merge [Some (goProfile ord' files)]"
  by (rule Merge_cong) (simp_all add: files_goProfile blockAt_goProfile assms del: set_map)

lemma goParse_ord:
  assumes "goParse ord input = Inr p"
  obtains files where "wfGoFiles files" "p = goProfile ord files"
    "\<And>ord'. goParse ord' input = Inr (goProfile ord' files)"
proof -
  obtain ls e where sc: "scanLines 1048576 input = (ls, e)" by fastforce
  with assms obtain st where st: "goLoop 1 ls \<lparr>goFiles = [], goSeenMode = False\<rparr> = Inr st"
    "p = goProfile ord (goFiles st)" "\<not> e" "goSeenMode st"
    by (auto simp: goParse_def split: sum.splits if_splits)
  show ?thesis
  proof (rule that)
    show "wfGoFiles (goFiles st)" using goLoop_wf [OF st(1)] by (simp add: wfGoFiles_def)
    show "p = goProfile ord (goFiles st)" by fact
    show "goParse ord' input = Inr (goProfile ord' (goFiles st))" for ord'
      using sc st by (simp add: goParse_def)
  qed
qed

section \<open>Properties\<close>

text \<open>
  Whatever order Go's map iteration and its unstable sort leave the blocks in, a Go cover
  profile is accepted or refused alike, every accepted block has a plausible line range, and
  the report it merges to is the same.
\<close>

theorem go_profile_order_independent:
  assumes "rearranges ord" and "rearranges ord'" and "goParse ord input = Inr p"
  shows "\<exists>p'. goParse ord' input = Inr p' \<and> Merge [Some p'] = Merge [Some p] \<and> saneProfile p'"
proof -
  obtain files where f: "wfGoFiles files" "p = goProfile ord files"
    "goParse ord' input = Inr (goProfile ord' files)"
    using assms(3) by (rule goParse_ord) metis
  then show ?thesis
    using assms(1,2) Merge_goProfile goParse_sane by metis
qed

definition twoEnds :: string where
  "twoEnds = ''mode: set'' @ [LF] @ ''a.go:1.1,2.5 1 1'' @ [LF] @ ''a.go:1.1,1.9 1 0'' @ [LF]"

theorem go_profile_order_independent_witness:
  "\<exists>p p'. goParse (\<lambda>bs. bs) twoEnds = Inr p \<and> goParse rev twoEnds = Inr p'
     \<and> Merge [Some p'] = Merge [Some p]"
proof -
  have "goParse (\<lambda>bs. bs) twoEnds = Inr \<lparr>Files = [\<lparr>fPath = ''a.go'', fBlocks =
      [\<lparr>StartLine = 1, StartCol = 1, EndLine = 2, EndCol = 5, NumStmts = 1, Count = 1\<rparr>,
       \<lparr>StartLine = 1, StartCol = 1, EndLine = 1, EndCol = 9, NumStmts = 1, Count = 0\<rparr>]\<rparr>]\<rparr>"
    unfolding twoEnds_def by code_simp
  then show ?thesis
    using go_profile_order_independent [of "\<lambda>bs. bs" rev twoEnds] by (auto simp: rearranges_def)
qed

text \<open>
  The parser does not always leave blocks canonical. It sorts a file's blocks by their
  start alone, so two blocks that start together may come out with the longer one first, and
  then the file is not in the order of the merge.
\<close>

theorem go_profile_not_always_canonical:
  "\<exists>ord input p. rearranges ord \<and> goParse ord input = Inr p \<and> \<not> canonicalProfile p"
proof -
  have "goParse (\<lambda>bs. bs) twoEnds = Inr \<lparr>Files = [\<lparr>fPath = ''a.go'', fBlocks =
      [\<lparr>StartLine = 1, StartCol = 1, EndLine = 2, EndCol = 5, NumStmts = 1, Count = 1\<rparr>,
       \<lparr>StartLine = 1, StartCol = 1, EndLine = 1, EndCol = 9, NumStmts = 1, Count = 0\<rparr>]\<rparr>]\<rparr>"
    unfolding twoEnds_def by code_simp
  moreover have "rearranges (\<lambda>bs. bs)" by (simp add: rearranges_def)
  ultimately show ?thesis by (fastforce simp: canonicalProfile_def Canonical_strict keyOf_def)
qed

end
