(* ===== verification/GoPath.thy ===== *)
theory GoPath
  imports GoStrings
begin

text \<open>
  Go's package \<open>path\<close>, as the source uses it: \<open>path.Match\<close>, shell patterns within one path
  segment, and \<open>path.Ext\<close>. \<open>Inl ()\<close> is \<open>path.ErrBadPattern\<close>.
\<close>

section \<open>Patterns\<close>

text \<open>The next stretch of a pattern without a star, and whether stars stand before it.\<close>

fun scanBody :: "bool \<Rightarrow> string \<Rightarrow> string \<times> string" where
  "scanBody inrange [] = ([], [])"
| "scanBody inrange (c # p) =
     (if c = CHR 0x5C then (case p of [] \<Rightarrow> ([c], []) | d # q \<Rightarrow> let (a, b) = scanBody inrange q in (c # d # a, b))
      else if c = CHR ''*'' \<and> \<not> inrange then ([], c # p)
      else let (a, b) = scanBody (if c = CHR ''['' then True else if c = CHR '']'' then False else inrange) p in (c # a, b))"

definition scanChunk :: "string \<Rightarrow> bool \<times> string \<times> string" where
  "scanChunk pat = (pat \<noteq> [] \<and> hd pat = CHR ''*'', scanBody False (dropWhile (\<lambda>c. c = CHR ''*'') pat))"

lemma scanBody_append: "scanBody b p = (a, r) \<Longrightarrow> a @ r = p"
  by (induction b p arbitrary: a r rule: scanBody.induct)
    (auto simp: Let_def split: if_splits list.splits prod.splits)

text \<open>A character of a class, which a backslash may escape.\<close>

definition getEsc :: "string \<Rightarrow> (int \<times> string) option" where
  "getEsc chunk =
     (if chunk = [] \<or> hd chunk = CHR ''-'' \<or> hd chunk = CHR '']'' then None
      else let chunk = (if hd chunk = CHR 0x5C then tl chunk else chunk)
        in if chunk = [] then None
           else let (r, n) = decodeRune chunk
             in if (r = runeError \<and> n = 1) \<or> drop n chunk = [] then None else Some (r, drop n chunk))"

lemma decodeRune_advances: "s \<noteq> [] \<Longrightarrow> 0 < snd (decodeRune s)"
  by (cases s) (auto simp: decodeRune_def Let_def split: list.splits if_splits)

lemma getEsc_length: "getEsc s = Some (r, t) \<Longrightarrow> length t < length s"
  using decodeRune_advances [of s] decodeRune_advances [of "tl s"]
  by (auto simp: getEsc_def Let_def split: if_splits prod.splits)

text \<open>The ranges of a class up to its bracket: whether one holds the rune, and what is left.\<close>

function classRanges :: "int \<Rightarrow> bool \<Rightarrow> bool \<Rightarrow> string \<Rightarrow> (bool \<times> string) option" where
  "classRanges r some hit chunk =
     (if chunk \<noteq> [] \<and> hd chunk = CHR '']'' \<and> some then Some (hit, tl chunk)
      else case getEsc chunk of None \<Rightarrow> None
        | Some (lo, rest) \<Rightarrow>
            (case (if rest \<noteq> [] \<and> hd rest = CHR ''-'' then getEsc (tl rest) else Some (lo, rest)) of None \<Rightarrow> None
             | Some (hi, rest') \<Rightarrow> classRanges r True (hit \<or> (lo \<le> r \<and> r \<le> hi)) rest'))"
  by pat_completeness auto
termination
  by (relation "measure (\<lambda>(_, _, _, s). length s)") (fastforce dest!: getEsc_length split: if_splits)+

declare classRanges.simps [simp del]

lemma classRanges_length: "classRanges r b h s = Some (x, t) \<Longrightarrow> length t < length s"
proof (induction r b h s rule: classRanges.induct)
  case (1 r some hit chunk)
  show ?case
  proof (cases "chunk \<noteq> [] \<and> hd chunk = CHR '']'' \<and> some")
    case True
    then show ?thesis using "1.prems" unfolding classRanges.simps [of r some hit chunk] by auto
  next
    case False
    obtain lo rest where e: "getEsc chunk = Some (lo, rest)" using "1.prems" False
      by (cases "getEsc chunk") (auto simp: classRanges.simps [of r some])
    obtain hi rest' where f: "(if rest \<noteq> [] \<and> hd rest = CHR ''-'' then getEsc (tl rest) else Some (lo, rest)) = Some (hi, rest')"
      using "1.prems" False by (auto simp: classRanges.simps [of r some] e split: option.splits)
    have "length rest' \<le> length rest" using f getEsc_length [of "tl rest" hi rest'] by (auto split: if_splits)
    moreover have "length t < length rest'" using "1.IH" [OF False e refl f refl] "1.prems" False f
      by (simp add: classRanges.simps [of r some] e)
    ultimately show ?thesis using getEsc_length [OF e] by linarith
  qed
qed

section \<open>Matching\<close>

text \<open>
  One chunk against the head of \<open>s\<close>: what is left of \<open>s\<close>, \<open>None\<close> when it does not match. Once it
  has failed, the rest of the chunk is only checked.
\<close>

function matchChunk :: "bool \<Rightarrow> string \<Rightarrow> string \<Rightarrow> unit + string option" where
  "matchChunk failed0 chunk s =
     (case chunk of
        [] \<Rightarrow> Inr (if failed0 then None else Some s)
      | c # cs \<Rightarrow>
          (let failed = (failed0 \<or> s = [])
           in if c = CHR ''['' then
                (let (r, n) = (if failed then (0, 0) else decodeRune s);
                     negated = (cs \<noteq> [] \<and> hd cs = CHR 0x5E);
                     cs = (if negated then tl cs else cs)
                 in case classRanges r False False cs of None \<Rightarrow> Inl ()
                    | Some (hit, rest) \<Rightarrow> matchChunk (failed \<or> hit = negated) rest (drop n s))
              else if c = CHR ''?'' then
                (if failed then matchChunk True cs s
                 else matchChunk (hd s = CHR ''/'') cs (drop (snd (decodeRune s)) s))
              else if c = CHR 0x5C \<and> cs = [] then Inl ()
              else (let (d, ds) = (if c = CHR 0x5C then (hd cs, tl cs) else (c, cs))
                    in if failed then matchChunk True ds s
                       else matchChunk (d \<noteq> hd s) ds (tl s))))"
  by pat_completeness auto
termination
  by (relation "measure (\<lambda>(_, c, _). length c)") (fastforce dest!: classRanges_length split: if_splits)+

declare matchChunk.simps [simp del]

fun skipLoop :: "string \<Rightarrow> bool \<Rightarrow> string \<Rightarrow> unit + string option" where
  "skipLoop chunk final [] = Inr None"
| "skipLoop chunk final (c # name) =
     (if c = CHR ''/'' then Inr None
      else case matchChunk False chunk name of Inl e \<Rightarrow> Inl e
        | Inr None \<Rightarrow> skipLoop chunk final name
        | Inr (Some t) \<Rightarrow> if final \<and> t \<noteq> [] then skipLoop chunk final name else Inr (Some t))"

lemma scanChunk_length: "scanChunk p = (star, chunk, rest) \<Longrightarrow> p \<noteq> [] \<Longrightarrow> length rest < length p"
proof -
  assume a: "scanChunk p = (star, chunk, rest)" "p \<noteq> []"
  let ?q = "dropWhile (\<lambda>c. c = CHR ''*'') p"
  have q: "chunk @ rest = ?q" using a(1) by (auto simp: scanChunk_def intro: scanBody_append)
  show ?thesis
  proof (cases "hd p = CHR ''*''")
    case True
    then have "length ?q < length p" using a(2) by (cases p) (auto simp: length_dropWhile_le less_Suc_eq_le)
    then show ?thesis using arg_cong [OF q, of length] by simp
  next
    case False
    then have "?q = p" using a(2) by (cases p) auto
    moreover have "chunk \<noteq> []" using a False by (cases p) (auto simp: scanChunk_def Let_def split: if_splits list.splits prod.splits)
    ultimately show ?thesis using q by (metis add_diff_cancel_right' length_append length_greater_0_conv less_add_same_cancel2)
  qed
qed

function badRest :: "string \<Rightarrow> bool" where
  "badRest pat =
     (if pat = [] then False
      else let (star, chunk, rest) = scanChunk pat
        in (case matchChunk False chunk [] of Inl _ \<Rightarrow> True | Inr _ \<Rightarrow> badRest rest))"
  by pat_completeness auto
termination
  by (relation "measure length") (auto dest: scanChunk_length [OF sym])

declare badRest.simps [simp del]

function pathMatch :: "string \<Rightarrow> string \<Rightarrow> unit + bool" where
  "pathMatch pat name =
     (if pat = [] then Inr (name = [])
      else let (star, chunk, rest) = scanChunk pat
        in if star \<and> chunk = [] then Inr (CHR ''/'' \<notin> set name)
           else (case matchChunk False chunk name of
               Inl e \<Rightarrow> Inl e
             | Inr (Some t) \<Rightarrow> if t = [] \<or> rest \<noteq> [] then pathMatch rest t
                 else if star then (case skipLoop chunk (rest = []) name of Inl e \<Rightarrow> Inl e
                   | Inr (Some t) \<Rightarrow> pathMatch rest t
                   | Inr None \<Rightarrow> if badRest rest then Inl () else Inr False)
                 else if badRest rest then Inl () else Inr False
             | Inr None \<Rightarrow> if star then (case skipLoop chunk (rest = []) name of Inl e \<Rightarrow> Inl e
                   | Inr (Some t) \<Rightarrow> pathMatch rest t
                   | Inr None \<Rightarrow> if badRest rest then Inl () else Inr False)
                 else if badRest rest then Inl () else Inr False))"
  by pat_completeness auto
termination
  by (relation "measure (\<lambda>(p, _). length p)") (auto dest: scanChunk_length [OF sym])

declare pathMatch.simps [simp del]

section \<open>Patterns without special characters\<close>

definition plainSeg :: "string \<Rightarrow> bool" where
  "plainSeg p \<longleftrightarrow> (\<forall>c \<in> set p. c \<noteq> CHR ''*'' \<and> c \<noteq> CHR ''?'' \<and> c \<noteq> CHR ''['' \<and> c \<noteq> CHR 0x5C)"

lemma scanBody_plain: "plainSeg p \<Longrightarrow> scanBody b p = (p, [])"
  by (induction p arbitrary: b) (auto simp: plainSeg_def)

lemma matchChunk_plain:
  "plainSeg p \<Longrightarrow> matchChunk failed p s = Inr (if failed \<or> \<not> hasPrefix s p then None else Some (drop (length p) s))"
proof (induction p arbitrary: failed s)
  case (Cons c p)
  then have c: "c \<noteq> CHR ''['' \<and> c \<noteq> CHR ''?'' \<and> c \<noteq> CHR 0x5C" and p: "plainSeg p" by (auto simp: plainSeg_def)
  show ?case using Cons.IH [OF p] c by (cases s) (auto simp: matchChunk.simps [of failed "c # p"])
qed (simp add: matchChunk.simps)

lemma pathMatch_plain: "plainSeg p \<Longrightarrow> pathMatch p name = Inr (p = name)"
proof (cases "p = []")
  case False
  assume p: "plainSeg p"
  then have d: "dropWhile (\<lambda>c. c = CHR ''*'') p = p" "hd p \<noteq> CHR ''*''" using False by (cases p; auto simp: plainSeg_def)+
  have "scanChunk p = (False, p, [])" using scanBody_plain [OF p] d by (simp add: scanChunk_def)
  then show ?thesis using matchChunk_plain [OF p, of False name] False
    by (auto simp: pathMatch.simps [of p] pathMatch.simps [of "[]"] badRest.simps [of "[]"] hasPrefix_iff)
qed (auto simp: pathMatch.simps)

section \<open>Extensions\<close>

text \<open>\<open>path.Ext\<close>: from the last dot of the last segment.\<close>

definition pathExt :: "string \<Rightarrow> string" where
  "pathExt p =
     (let base = rev (takeWhile (\<lambda>c. c \<noteq> CHR ''/'') (rev p))
      in case cutLastByte CHR ''.'' base of None \<Rightarrow> [] | Some (_, ext) \<Rightarrow> CHR ''.'' # ext)"

lemma path_examples:
  "pathMatch ''*_mock.go'' ''user_mock.go'' = Inr True" "pathMatch ''*_mock.go'' ''user.go'' = Inr False"
  "pathMatch ''a[0-9]?.ts'' ''a7x.ts'' = Inr True" "pathMatch ''[^a]*b'' ''ab'' = Inr False"
  "pathMatch ''[a'' ''a'' = Inl ()" "pathExt ''src/a.b/c.test.ts'' = ''.ts''" "pathExt ''a.b/c'' = []"
  by code_simp+

end
