(* ===== verification/Formats.thy ===== *)
theory Formats
  imports Lcov GoCover GoPath
begin

text \<open>
  The registry of coverage formats, \<open>internal/profile/formats.go\<close>, and the recognition of a
  report's format from its first bytes, \<open>Detect\<close> in \<open>internal/profile/profile.go\<close> with
  \<open>detectXccov\<close> in \<open>internal/profile/xccov.go\<close>. The parsers of a format and its cheaper path
  reader are functions of their own; the record holds what the rest of the pipeline reads of a
  format. The constant sets of slashes and suffixes are written out as the source has them.
\<close>

section \<open>The registry\<close>

record Format =
  fmName :: string
  fmFilename :: string
  fmSourceExts :: "string list"
  fmTestSuffixes :: "string list"
  fmTestDirs :: "string list"
  fmAbsolutePaths :: bool

definition zeroFormat :: Format where
  "zeroFormat = \<lparr>fmName = [], fmFilename = [], fmSourceExts = [], fmTestSuffixes = [], fmTestDirs = [], fmAbsolutePaths = False\<rparr>"

definition jsExts :: "string list" where
  "jsExts = [''.js'', ''.jsx'', ''.ts'', ''.tsx'', ''.mjs'', ''.cjs'', ''.vue'', ''.svelte'']"

definition jsTestSuffixes :: "string list" where
  "jsTestSuffixes = foldl (\<lambda>out ext. out @ [''.test'' @ ext, ''.spec'' @ ext]) [] jsExts"

definition jvmExts :: "string list" where
  "jvmExts = [''.java'', ''.kt'', ''.kts'', ''.scala'', ''.groovy'']"

definition dotnetExts :: "string list" where
  "dotnetExts = [''.cs'', ''.vb'', ''.fs'']"

definition rubyExts :: "string list" where
  "rubyExts = [''.rb'', ''.rake'']"

definition elixirExts :: "string list" where
  "elixirExts = [''.ex'', ''.exs'']"

definition nativeExts :: "string list" where
  "nativeExts = [''.c'', ''.cc'', ''.cpp'', ''.m'', ''.mm'', ''.swift'']"

definition languageFamilies :: "string list list" where
  "languageFamilies = [[''.go''], jsExts, jvmExts, [''.py''], dotnetExts, [''.php''], rubyExts,
     [''.rs''], [''.dart''], elixirExts, nativeExts]"

definition hasAnySuffix :: "string \<Rightarrow> string list \<Rightarrow> bool" where
  "hasAnySuffix path suffixes = list_ex (\<lambda>s. hasSuffix path s) suffixes"

definition familyByExt :: "(string, nat) gomap" where
  "familyByExt = foldl (\<lambda>m (i, exts). foldl (\<lambda>m ext. AList.update ext i m) m exts) [] (enumerate 0 languageFamilies)"

definition familyOf :: "string \<Rightarrow> int" where
  "familyOf p = (case map_of familyByExt (pathExt p) of Some i \<Rightarrow> int i | None \<Rightarrow> -1)"

definition IsTestFile :: "Format \<Rightarrow> string \<Rightarrow> bool" where
  "IsTestFile f path =
     (if hasAnySuffix path (fmTestSuffixes f) then True
      else list_ex (\<lambda>dir. hasPrefix path dir \<or> containsStr path (''/'' @ dir)) (fmTestDirs f))"

text \<open>The flags per family, index 0 for a file of no family, as the closure captures them.\<close>

definition measuredFamilies :: "profile \<Rightarrow> bool list" where
  "measuredFamilies p =
     foldl (\<lambda>m file. m[nat (familyOf (fPath file) + 1) := True]) (replicate (length languageFamilies + 1) False) (Files p)"

definition ExpectsCoverage :: "Format \<Rightarrow> profile \<Rightarrow> string \<Rightarrow> bool" where
  "ExpectsCoverage f p path =
     (if IsTestFile f path then False
      else if length (fmSourceExts f) = 0 then True
      else if \<not> hasAnySuffix path (fmSourceExts f) then False
      else measuredFamilies p ! nat (familyOf path + 1))"

definition formats :: "Format list" where
  "formats =
    [zeroFormat\<lparr>fmName := ''go'', fmFilename := ''coverage.out'', fmSourceExts := [''.go''], fmTestSuffixes := [''_test.go'']\<rparr>,
     zeroFormat\<lparr>fmName := ''lcov'', fmFilename := ''lcov.info'',
       fmSourceExts := jsExts @ [''.rs'', ''.dart''] @ elixirExts @ nativeExts,
       fmTestSuffixes := jsTestSuffixes @ [''_test.dart'', ''_test.exs''],
       fmTestDirs := [''tests/'', ''test/'', ''benches/'']\<rparr>,
     zeroFormat\<lparr>fmName := ''jacoco'', fmFilename := ''jacoco.xml'', fmSourceExts := jvmExts\<rparr>,
     zeroFormat\<lparr>fmName := ''cobertura'', fmFilename := ''cobertura.xml'',
       fmSourceExts := [''.py'', ''.cs'', ''.php'', ''.rs'', ''.scala''] @ nativeExts,
       fmTestDirs := [''tests/'', ''test/'', ''benches/'']\<rparr>,
     zeroFormat\<lparr>fmName := ''clover'', fmFilename := ''clover.xml'',
       fmSourceExts := [''.php''] @ jsExts @ [''.java'', ''.groovy'', ''.kt''], fmTestSuffixes := jsTestSuffixes\<rparr>,
     zeroFormat\<lparr>fmName := ''simplecov'', fmFilename := ''resultset.json'', fmSourceExts := rubyExts,
       fmTestSuffixes := [''_spec.rb'', ''_test.rb'']\<rparr>,
     zeroFormat\<lparr>fmName := ''opencover'', fmFilename := ''coverage.opencover.xml'', fmSourceExts := dotnetExts,
       fmAbsolutePaths := True\<rparr>,
     zeroFormat\<lparr>fmName := ''xccov'', fmFilename := ''xccov.json'', fmSourceExts := nativeExts,
       fmTestSuffixes := [''Tests.swift'', ''Spec.swift'', ''Tests.m'', ''Tests.mm''], fmAbsolutePaths := True\<rparr>]"

definition formatNames :: "string list" where
  "formatNames = map fmName formats"

text \<open>The format of the name, or the zero format and \<open>False\<close>.\<close>

definition formatLookup :: "string \<Rightarrow> Format \<times> bool" where
  "formatLookup name = (case find (\<lambda>f. fmName f = name) formats of None \<Rightarrow> (zeroFormat, False) | Some f \<Rightarrow> (f, True))"

section \<open>Recognising a report\<close>

definition detectWindow :: nat where
  "detectWindow = 64 * 1024"

definition detectXccov :: "string \<Rightarrow> bool" where
  "detectXccov head =
     (let t = trimSpace head
      in if length t = 0 \<or> hd t \<noteq> CHR ''{'' then False
         else if containsStr head (CHR 0x22 # ''isExecutable'' @ [CHR 0x22]) then True
         else containsStr head (CHR 0x22 # ''targets'' @ [CHR 0x22])
           \<and> containsStr head (CHR 0x22 # ''executableLines'' @ [CHR 0x22]))"

text \<open>\<open>bytes.Lines\<close>: each line with its newline; the last one may have none.\<close>

function bytesLines :: "string \<Rightarrow> string list" where
  "bytesLines s =
     (if s = [] then []
      else let l = takeWhile (\<lambda>c. c \<noteq> LF) s; r = dropWhile (\<lambda>c. c \<noteq> LF) s
        in (l @ take 1 r) # bytesLines (drop 1 r))"
  by pat_completeness auto
termination
proof (relation "measure length")
  fix s and l r :: string
  assume "s \<noteq> []" "r = dropWhile (\<lambda>c. c \<noteq> LF) s"
  moreover have "length (dropWhile (\<lambda>c. c \<noteq> LF) s) \<le> length s" by (rule length_dropWhile_le)
  ultimately show "(drop 1 r, s) \<in> measure length" by (cases s) auto
qed simp

declare bytesLines.simps [simp del]

text \<open>What one trimmed line says: a format, a bare \<open><coverage\<close> root, or nothing.\<close>

datatype lineMark = Marks string | CoverageRoot | NoMark

definition detectLine :: "string \<Rightarrow> lineMark" where
  "detectLine line =
     (if hasPrefix line ''mode:'' then Marks ''go''
      else if containsStr line ''<CoverageSession'' then Marks ''opencover''
      else if hasPrefix line ''TN:'' \<or> hasPrefix line ''SF:'' then Marks ''lcov''
      else if containsStr line ''JACOCO'' \<or> containsStr line ''<report'' then Marks ''jacoco''
      else if containsStr line (CHR 0x22 # ''coverage'' @ CHR 0x22 # '':'') then Marks ''simplecov''
      else if containsStr line ''clover='' \<or> containsStr line ''<project'' then Marks ''clover''
      else if containsStr line ''cobertura'' \<or> containsStr line ''<packages'' \<or> containsStr line ''<sources'' then Marks ''cobertura''
      else if containsStr line ''<coverage'' then CoverageRoot
      else NoMark)"

fun detectLoop :: "nat \<Rightarrow> bool \<Rightarrow> string list \<Rightarrow> string" where
  "detectLoop seen sawRoot [] = (if sawRoot then ''cobertura'' else [])"
| "detectLoop seen sawRoot (raw # lns) =
     (if seen = 10 then (if sawRoot then ''cobertura'' else [])
      else let line = trimSpace raw
        in if line = [] then detectLoop seen sawRoot lns
           else (case detectLine line of
               Marks f \<Rightarrow> f
             | CoverageRoot \<Rightarrow> detectLoop (seen + 1) True lns
             | NoMark \<Rightarrow> detectLoop (seen + 1) sawRoot lns))"

definition Detect :: "string \<Rightarrow> string" where
  "Detect data =
     (let head = take (min (length data) detectWindow) data
      in if detectXccov head then ''xccov'' else detectLoop 0 False (bytesLines head))"

text \<open>Windows separators and a leading \<open>./\<close> of a report's paths.\<close>

definition normalizePath :: "string \<Rightarrow> string" where
  "normalizePath p = trimPrefix (replaceAll p [CHR 0x5C] ''/'') ''./''"

section \<open>Language families\<close>

text \<open>An extension of one dot, which a path ends in exactly when it is the path's extension.\<close>

definition simpleExt :: "string \<Rightarrow> bool" where
  "simpleExt e \<longleftrightarrow> e \<noteq> [] \<and> hd e = CHR ''.'' \<and> CHR ''.'' \<notin> set (tl e) \<and> CHR ''/'' \<notin> set (tl e)"

lemma pathExt_suffix:
  assumes "simpleExt e"
  shows "pathExt p = e \<longleftrightarrow> hasSuffix p e"
proof
  obtain b where e: "e = CHR ''.'' # b" "CHR ''.'' \<notin> set b" "CHR ''/'' \<notin> set b"
    using assms by (cases e) (auto simp: simpleExt_def)
  let ?base = "rev (takeWhile (\<lambda>c. c \<noteq> CHR ''/'') (rev p))"
  show "hasSuffix p e" if "pathExt p = e"
  proof -
    have "(case cutLastByte CHR ''.'' ?base of None \<Rightarrow> [] | Some (_, ext) \<Rightarrow> CHR ''.'' # ext) = CHR ''.'' # b"
      using that by (simp add: pathExt_def Let_def e(1))
    then obtain a where "cutLastByte CHR ''.'' ?base = Some (a, b)" by (auto split: option.splits)
    then have "?base = a @ e" using cutLastByte_Some e(1) by blast
    moreover have "p = rev (dropWhile (\<lambda>c. c \<noteq> CHR ''/'') (rev p)) @ ?base"
      by (metis rev_append rev_rev_ident takeWhile_dropWhile_id)
    ultimately show ?thesis unfolding hasSuffix_iff by (metis append_assoc)
  qed
  show "pathExt p = e" if suf: "hasSuffix p e"
  proof -
    obtain r where p: "p = r @ CHR ''.'' # b" using suf unfolding hasSuffix_iff e(1) by blast
    have "takeWhile (\<lambda>c. c \<noteq> CHR ''/'') (rev b @ CHR ''.'' # rev r) = rev b @ CHR ''.'' # takeWhile (\<lambda>c. c \<noteq> CHR ''/'') (rev r)"
      using e(3) by (subst takeWhile_append2) auto
    then have "?base = rev (takeWhile (\<lambda>c. c \<noteq> CHR ''/'') (rev r)) @ CHR ''.'' # b" by (simp add: p)
    then show ?thesis using e cutLastByte_append [OF e(2)] by (simp add: pathExt_def Let_def)
  qed
qed

lemma families_simple: "\<forall>e \<in> set (concat languageFamilies). simpleExt e"
  by code_simp

lemma families_distinct: "distinct (concat languageFamilies)"
  by code_simp

lemma familyByExt_eq: "familyByExt = concat (map (\<lambda>(i, exts). map (\<lambda>e. (e, i)) exts) (enumerate 0 languageFamilies))"
  by code_simp

lemma familyByExt_lookup:
  "map_of familyByExt e = Some i \<longleftrightarrow> i < length languageFamilies \<and> e \<in> set (languageFamilies ! i)"
proof -
  have "keysOf familyByExt = concat languageFamilies" by code_simp
  then have "distinct (keysOf familyByExt)" using families_distinct by (simp only:)
  then have "map_of familyByExt e = Some i \<longleftrightarrow> (e, i) \<in> set familyByExt" by (rule map_of_eq_Some_iff)
  also have "\<dots> \<longleftrightarrow> i < length languageFamilies \<and> e \<in> set (languageFamilies ! i)"
  proof -
    have "(e, i) \<in> set familyByExt \<longleftrightarrow> (\<exists>exts. (i, exts) \<in> set (enumerate 0 languageFamilies) \<and> e \<in> set exts)"
      unfolding familyByExt_eq by force
    then show ?thesis by (auto simp: in_set_enumerate_eq)
  qed
  finally show ?thesis .
qed

lemma familyOf_nat: "familyOf p = int i \<longleftrightarrow> i < length languageFamilies \<and> (\<exists>e \<in> set (languageFamilies ! i). hasSuffix p e)"
proof -
  have "familyOf p = int i \<longleftrightarrow> map_of familyByExt (pathExt p) = Some i"
    by (auto simp: familyOf_def split: option.split)
  also have "\<dots> \<longleftrightarrow> i < length languageFamilies \<and> (\<exists>e \<in> set (languageFamilies ! i). pathExt p = e)"
    by (auto simp: familyByExt_lookup)
  also have "\<dots> \<longleftrightarrow> i < length languageFamilies \<and> (\<exists>e \<in> set (languageFamilies ! i). hasSuffix p e)"
  proof -
    have "pathExt p = e \<longleftrightarrow> hasSuffix p e" if "i < length languageFamilies" "e \<in> set (languageFamilies ! i)" for e
      using families_simple that by (intro pathExt_suffix) auto
    then show ?thesis by blast
  qed
  finally show ?thesis .
qed

lemma familyOf_range: "- 1 \<le> familyOf p" "familyOf p < int (length languageFamilies)"
  by (auto simp: familyOf_def familyByExt_lookup split: option.split)

lemma measuredFamilies_nth:
  assumes "k < length languageFamilies + 1"
  shows "measuredFamilies p ! k \<longleftrightarrow> (\<exists>g \<in> set (Files p). familyOf (fPath g) + 1 = int k)"
proof -
  let ?step = "\<lambda>m file. m[nat (familyOf (fPath file) + 1) := True]"
  have "length (foldl ?step (replicate (length languageFamilies + 1) False) fs) = length languageFamilies + 1
    \<and> (foldl ?step (replicate (length languageFamilies + 1) False) fs ! k \<longleftrightarrow> (\<exists>g \<in> set fs. familyOf (fPath g) + 1 = int k))" for fs
  proof (induction fs rule: rev_induct)
    case (snoc f fs)
    have "familyOf (fPath f) + 1 = int (nat (familyOf (fPath f) + 1))" using familyOf_range(1) [of "fPath f"] by simp
    then show ?case using snoc assms familyOf_range(2) [of "fPath f"] by (auto simp: nth_list_update)
  qed (use assms in \<open>simp add: nth_replicate del: replicate_Suc\<close>)
  then show ?thesis unfolding measuredFamilies_def by blast
qed

lemma source_exts_in_families: "\<forall>f \<in> set formats. set (fmSourceExts f) \<subseteq> set (concat languageFamilies) \<and> fmSourceExts f \<noteq> []"
  by code_simp

text \<open>
  Which changed files a report is expected to cover. For every registered format a file
  that is no test counts as untested when the report has no data for it exactly when it ends in
  a source extension of the format and the report measures some file of the same family of
  languages; every source extension belongs to exactly one family, whatever extensions end others.
\<close>

theorem expects_measured_languages:
  assumes "f \<in> set formats"
  shows "(ExpectsCoverage f p path \<longleftrightarrow> \<not> IsTestFile f path
    \<and> (\<exists>i e. i < length languageFamilies \<and> e \<in> set (languageFamilies ! i) \<and> e \<in> set (fmSourceExts f) \<and> hasSuffix path e
        \<and> (\<exists>g \<in> set (Files p). \<exists>e' \<in> set (languageFamilies ! i). hasSuffix (fPath g) e')))
    \<and> (\<forall>e \<in> set (fmSourceExts f). \<exists>!i. i < length languageFamilies \<and> e \<in> set (languageFamilies ! i))"
proof -
  have src: "\<exists>i. i < length languageFamilies \<and> e \<in> set (languageFamilies ! i)" if "e \<in> set (fmSourceExts f)" for e
  proof -
    have "e \<in> set (concat languageFamilies)" using source_exts_in_families assms that by blast
    then obtain fam where "fam \<in> set languageFamilies" "e \<in> set fam" by auto
    then show ?thesis by (metis in_set_conv_nth)
  qed
  have one: "i = j" if "e \<in> set (languageFamilies ! i)" "i < length languageFamilies" "e \<in> set (languageFamilies ! j)" "j < length languageFamilies" for e i j
    using that familyByExt_lookup [of e i] familyByExt_lookup [of e j] by simp
  have uniq: "\<exists>!i. i < length languageFamilies \<and> e \<in> set (languageFamilies ! i)" if "e \<in> set (fmSourceExts f)" for e
    using src [OF that] one by blast
  have hit: "measuredFamilies p ! nat (familyOf path + 1) \<longleftrightarrow> (\<exists>g \<in> set (Files p). \<exists>e' \<in> set (languageFamilies ! i). hasSuffix (fPath g) e')"
    if "i < length languageFamilies" "e \<in> set (languageFamilies ! i)" "hasSuffix path e" for i e
  proof -
    have fam: "familyOf path = int i" using that familyOf_nat by blast
    then have k: "nat (familyOf path + 1) = Suc i" by simp
    show ?thesis unfolding k using that(1) measuredFamilies_nth [of "Suc i" p] familyOf_nat [of _ i] by simp
  qed
  have ne: "length (fmSourceExts f) \<noteq> 0" using source_exts_in_families assms by simp
  have suf: "hasAnySuffix path (fmSourceExts f) \<longleftrightarrow> (\<exists>e \<in> set (fmSourceExts f). hasSuffix path e)"
    by (simp add: hasAnySuffix_def list_ex_iff)
  have "ExpectsCoverage f p path \<longleftrightarrow> \<not> IsTestFile f path \<and> (\<exists>e \<in> set (fmSourceExts f). hasSuffix path e) \<and> measuredFamilies p ! nat (familyOf path + 1)"
    unfolding ExpectsCoverage_def using suf by (simp only: ne if_False) simp
  also have "\<dots> \<longleftrightarrow> \<not> IsTestFile f path
    \<and> (\<exists>i e. i < length languageFamilies \<and> e \<in> set (languageFamilies ! i) \<and> e \<in> set (fmSourceExts f) \<and> hasSuffix path e
        \<and> (\<exists>g \<in> set (Files p). \<exists>e' \<in> set (languageFamilies ! i). hasSuffix (fPath g) e'))"
    (is "?l \<longleftrightarrow> ?r")
  proof
    assume l: ?l
    then obtain e i where e: "e \<in> set (fmSourceExts f)" "hasSuffix path e" "i < length languageFamilies" "e \<in> set (languageFamilies ! i)"
      using src by blast
    have "\<exists>g \<in> set (Files p). \<exists>e' \<in> set (languageFamilies ! i). hasSuffix (fPath g) e'"
      using l hit [OF e(3,4,2)] by blast
    then show ?r using l e by blast
  next
    assume r: ?r
    then obtain i e where e: "i < length languageFamilies" "e \<in> set (languageFamilies ! i)" "e \<in> set (fmSourceExts f)" "hasSuffix path e"
      "\<exists>g \<in> set (Files p). \<exists>e' \<in> set (languageFamilies ! i). hasSuffix (fPath g) e'" by blast
    then show ?l using r hit [OF e(1,2,4)] by blast
  qed
  finally show ?thesis by (rule conjI) (rule ballI, erule uniq)
qed

theorem expects_measured_languages_witness:
  "let lcov = fst (formatLookup ''lcov''); p = \<lparr>Files = [\<lparr>fPath = ''src/app.tsx'', fBlocks = []\<rparr>]\<rparr>
   in ExpectsCoverage lcov p ''lib/util.js'' \<and> \<not> ExpectsCoverage lcov p ''core/main.rs''
     \<and> (\<exists>i e. e \<in> set (languageFamilies ! i) \<and> e \<in> set (fmSourceExts lcov) \<and> hasSuffix ''lib/util.js'' e)"
proof -
  let ?lcov = "fst (formatLookup ''lcov'')" and ?p = "\<lparr>Files = [\<lparr>fPath = ''src/app.tsx'', fBlocks = []\<rparr>]\<rparr>"
  have f: "?lcov \<in> set formats" by code_simp
  have e: "ExpectsCoverage ?lcov ?p ''lib/util.js''" "\<not> ExpectsCoverage ?lcov ?p ''core/main.rs''" by code_simp+
  then show ?thesis using expects_measured_languages [OF f, of ?p "''lib/util.js''"] unfolding Let_def by blast
qed

end
