(* ===== verification/LineParsers.thy ===== *)
theory LineParsers
  imports Formats
begin

text \<open>
  The line-oriented XML and JSON parsers of \<open>internal/profile\<close>: Cobertura, Clover, JaCoCo,
  OpenCover, SimpleCov and xccov. What \<open>encoding/xml\<close> and \<open>encoding/json\<close> decode a report into is
  the parsers' input: the argument \<open>decode\<close> takes the raw bytes to the decoded structure or an
  error, and the theorems hold for every decoder. Each parser turns the structure into hit counts
  per line and hands them to \<open>fromLineHits\<close>; all of them are shown to read a report the way the
  LCOV parser reads the same records.
\<close>

section \<open>Errors and loops\<close>

datatype reportError =
    DecodeFailed string
  | NamelessFile string
  | MalformedLine int string
  | MalformedRange int int string
  | NegativeHits string int
  | TooManyMarks
  | TooManyLines string
  | BadEntry string string string
  | NotAnObject
  | XccovReportSchema
  | NoLineData string

text \<open>A loop that returns at the first error.\<close>

fun foldErr :: "('s \<Rightarrow> 'a \<Rightarrow> 'e + 's) \<Rightarrow> 's \<Rightarrow> 'a list \<Rightarrow> 'e + 's" where
  "foldErr f s [] = Inr s"
| "foldErr f s (x # xs) = (case f s x of Inl e \<Rightarrow> Inl e | Inr s' \<Rightarrow> foldErr f s' xs)"

lemma foldErr_cong [fundef_cong]:
  "xs = ys \<Longrightarrow> s = t \<Longrightarrow> (\<And>x s. x \<in> set ys \<Longrightarrow> f s x = g s x) \<Longrightarrow> foldErr f s xs = foldErr g t ys"
  by (induction xs arbitrary: ys s t) (auto split: sum.split)

type_synonym lineFiles = "(string, (int, int) gomap) gomap"

definition withHits :: "string \<Rightarrow> reportError + lineFiles \<Rightarrow> reportError + profile" where
  "withHits format res =
     (case res of Inl e \<Rightarrow> Inl e
      | Inr files \<Rightarrow> (case fromLineHits format files of Inl e \<Rightarrow> Inl (NoLineData e) | Inr p \<Rightarrow> Inr p))"

section \<open>Cobertura\<close>

record coberturaLine =
  cbNumber :: int
  cbHits :: int

record coberturaClass =
  cbFilename :: string
  cbLines :: "coberturaLine list"

record coberturaPackage =
  cbClasses :: "coberturaClass list"

record coberturaCoverage =
  cbPackages :: "coberturaPackage list"

definition coberturaHit :: "string \<Rightarrow> lineFiles \<Rightarrow> coberturaLine \<Rightarrow> reportError + lineFiles" where
  "coberturaHit path files l =
     (if cbNumber l \<le> 0 \<or> cbNumber l > maxLineNumber then Inl (MalformedLine (cbNumber l) path)
      else if cbHits l < 0 then Inl (NegativeHits path (cbNumber l))
      else Inr (hitFile path (cbNumber l) (cbHits l) files))"

definition coberturaAdd :: "lineFiles \<Rightarrow> coberturaClass \<Rightarrow> reportError + lineFiles" where
  "coberturaAdd files cls =
     (if cbFilename cls = [] then Inl (NamelessFile ''cobertura'')
      else let path = normalizePath (cbFilename cls)
        in foldErr (coberturaHit path) (openFile path files) (cbLines cls))"

definition coberturaParse :: "(string \<Rightarrow> string + coberturaCoverage) \<Rightarrow> string \<Rightarrow> reportError + profile" where
  "coberturaParse decode r =
     (case decode r of Inl e \<Rightarrow> Inl (DecodeFailed e)
      | Inr report \<Rightarrow> withHits ''cobertura''
          (foldErr (\<lambda>files pkg. foldErr coberturaAdd files (cbClasses pkg)) [] (cbPackages report)))"

section \<open>Clover\<close>

record cloverLine =
  clNum :: int
  clType :: string
  clCount :: int

record cloverFile =
  clName :: string
  clPath :: string
  clLines :: "cloverLine list"

record cloverPackage =
  clPkgFiles :: "cloverFile list"

record cloverCoverage =
  clFiles :: "cloverFile list"
  clPackages :: "cloverPackage list"

definition cloverHit :: "string \<Rightarrow> lineFiles \<Rightarrow> cloverLine \<Rightarrow> reportError + lineFiles" where
  "cloverHit path files l =
     (if clType l = ''method'' then Inr files
      else if clNum l \<le> 0 \<or> clNum l > maxLineNumber then Inl (MalformedLine (clNum l) path)
      else if clCount l < 0 then Inl (NegativeHits path (clNum l))
      else Inr (hitFile path (clNum l) (clCount l) files))"

definition cloverFileName :: "cloverFile \<Rightarrow> string" where
  "cloverFileName f = (if clPath f = [] then clName f else clPath f)"

definition cloverAdd :: "lineFiles \<Rightarrow> cloverFile \<Rightarrow> reportError + lineFiles" where
  "cloverAdd files f =
     (if cloverFileName f = [] then Inl (NamelessFile ''clover'')
      else let path = normalizePath (cloverFileName f)
        in foldErr (cloverHit path) (openFile path files) (clLines f))"

definition cloverAll :: "cloverCoverage \<Rightarrow> cloverFile list" where
  "cloverAll report = foldl (\<lambda>a pkg. a @ clPkgFiles pkg) (clFiles report) (clPackages report)"

definition cloverParse :: "(string \<Rightarrow> string + cloverCoverage) \<Rightarrow> string \<Rightarrow> reportError + profile" where
  "cloverParse decode r =
     (case decode r of Inl e \<Rightarrow> Inl (DecodeFailed e)
      | Inr report \<Rightarrow> withHits ''clover'' (foldErr cloverAdd [] (cloverAll report)))"

section \<open>JaCoCo\<close>

record jacocoLine =
  jcNr :: int
  jcMI :: int
  jcCI :: int

record jacocoSourceFile =
  jcFileName :: string
  jcLines :: "jacocoLine list"

record jacocoPackage =
  jcPkgName :: string
  jcSourceFiles :: "jacocoSourceFile list"

datatype jacocoGroup = JacocoGroup (jcGroups: "jacocoGroup list") (jcPackages: "jacocoPackage list")

definition jacocoHit :: "string \<Rightarrow> lineFiles \<Rightarrow> jacocoLine \<Rightarrow> reportError + lineFiles" where
  "jacocoHit path files l =
     (if jcNr l \<le> 0 \<or> jcNr l > maxLineNumber then Inl (MalformedLine (jcNr l) path)
      else if jcMI l = 0 \<and> jcCI l = 0 then Inr files
      else Inr (hitFile path (jcNr l) (jcCI l) files))"

definition jacocoPath :: "jacocoPackage \<Rightarrow> jacocoSourceFile \<Rightarrow> string" where
  "jacocoPath pkg sf = (if jcPkgName pkg \<noteq> [] then jcPkgName pkg @ ''/'' @ jcFileName sf else jcFileName sf)"

definition jacocoAdd :: "jacocoPackage \<Rightarrow> lineFiles \<Rightarrow> jacocoSourceFile \<Rightarrow> reportError + lineFiles" where
  "jacocoAdd pkg files sf =
     (if jcFileName sf = [] then Inl (NamelessFile ''jacoco'')
      else foldErr (jacocoHit (jacocoPath pkg sf)) (openFile (jacocoPath pkg sf) files) (jcLines sf))"

text \<open>\<open>walk\<close>: the packages, then each nested group.\<close>

fun jacocoWalk :: "lineFiles \<Rightarrow> jacocoGroup \<Rightarrow> reportError + lineFiles" where
  "jacocoWalk files (JacocoGroup groups packages) =
     (case foldErr (\<lambda>files pkg. foldErr (jacocoAdd pkg) files (jcSourceFiles pkg)) files packages of
        Inl e \<Rightarrow> Inl e
      | Inr files' \<Rightarrow> foldErr jacocoWalk files' groups)"

text \<open>The report's own groups and packages are walked like a group's.\<close>

definition jacocoParse :: "(string \<Rightarrow> string + jacocoGroup) \<Rightarrow> string \<Rightarrow> reportError + profile" where
  "jacocoParse decode r =
     (case decode r of Inl e \<Rightarrow> Inl (DecodeFailed e)
      | Inr report \<Rightarrow> withHits ''jacoco'' (jacocoWalk [] report))"

section \<open>OpenCover\<close>

record openCoverFile =
  ocfUID :: string
  ocfFullPath :: string

record openCoverPoint =
  ocpVC :: int
  ocpSL :: int
  ocpEL :: int
  ocpFileID :: string

record openCoverMethod =
  ocmFileRef :: string
  ocmPoints :: "openCoverPoint list"

record openCoverModule =
  ocFiles :: "openCoverFile list"
  ocClasses :: "openCoverMethod list list"

definition openCoverHiddenLine :: int where
  "openCoverHiddenLine = 0xFEEFEE"

definition maxOpenCoverLineMarks :: int where
  "maxOpenCoverLineMarks = 4000000"

text \<open>The module's files by uid.\<close>

definition openCoverLocal :: "openCoverModule \<Rightarrow> (string, string) gomap" where
  "openCoverLocal m =
     foldl (\<lambda>local f. if ocfUID f \<noteq> [] \<and> ocfFullPath f \<noteq> [] then AList.update (ocfUID f) (normalizePath (ocfFullPath f)) local else local)
       [] (ocFiles m)"

definition pointPath :: "(string, string) gomap \<Rightarrow> openCoverMethod \<Rightarrow> openCoverPoint \<Rightarrow> string option" where
  "pointPath local meth sp = map_of local (if ocpFileID sp = [] then ocmFileRef meth else ocpFileID sp)"

definition pointEnd :: "openCoverPoint \<Rightarrow> int" where
  "pointEnd sp = max (ocpEL sp) (ocpSL sp)"

definition hidden :: "openCoverPoint \<Rightarrow> bool" where
  "hidden sp \<longleftrightarrow> ocpSL sp = openCoverHiddenLine \<or> ocpEL sp = openCoverHiddenLine"

text \<open>One sequence point; the state is the work counted so far and the hits.\<close>

definition openCoverAdd :: "(string, string) gomap \<Rightarrow> openCoverMethod \<Rightarrow> int \<times> lineFiles \<Rightarrow> openCoverPoint \<Rightarrow> reportError + (int \<times> lineFiles)" where
  "openCoverAdd local meth st sp =
     (if hidden sp then Inr st
      else case pointPath local meth sp of None \<Rightarrow> Inr st
        | Some path \<Rightarrow>
            if ocpSL sp \<le> 0 \<or> pointEnd sp > maxLineNumber then Inl (MalformedRange (ocpSL sp) (ocpEL sp) path)
            else if ocpVC sp < 0 then Inl (NegativeHits path (ocpSL sp))
            else let marks = fst st + (pointEnd sp - ocpSL sp + 1)
              in if marks > maxOpenCoverLineMarks then Inl TooManyMarks
                 else Inr (marks, foldl (\<lambda>files ln. hitFile path ln (ocpVC sp) files) (openFile path (snd st)) [ocpSL sp..pointEnd sp]))"

definition openCoverModuleAdd :: "int \<times> lineFiles \<Rightarrow> openCoverModule \<Rightarrow> reportError + (int \<times> lineFiles)" where
  "openCoverModuleAdd st m =
     (let local = openCoverLocal m
      in foldErr (\<lambda>st cls. foldErr (\<lambda>st meth. foldErr (openCoverAdd local meth) st (ocmPoints meth)) st cls) st (ocClasses m))"

definition openCoverParse :: "(string \<Rightarrow> string + openCoverModule list) \<Rightarrow> string \<Rightarrow> reportError + profile" where
  "openCoverParse decode r =
     (case decode r of Inl e \<Rightarrow> Inl (DecodeFailed e)
      | Inr modules \<Rightarrow> withHits ''opencover''
          (case foldErr openCoverModuleAdd (0, []) modules of Inl e \<Rightarrow> Inl e | Inr st \<Rightarrow> Inr (snd st)))"

text \<open>
  \<open>openCoverPaths\<close> over the token stream of the XML decoder, which ends in EOF or an error.
\<close>

datatype xmlToken = StartElement string "(string \<times> string) list" | OtherToken

definition elementPaths :: "xmlToken \<Rightarrow> string list" where
  "elementPaths tok = (case tok of
       StartElement name attrs \<Rightarrow>
         if name \<noteq> ''File'' then []
         else map (\<lambda>a. normalizePath (snd a)) (filter (\<lambda>a. fst a = ''fullPath'' \<and> snd a \<noteq> []) attrs)
     | OtherToken \<Rightarrow> [])"

definition openCoverPaths :: "(string \<Rightarrow> xmlToken list \<times> string option) \<Rightarrow> string \<Rightarrow> reportError + string list" where
  "openCoverPaths tokens r =
     (case tokens r of
        (toks, None) \<Rightarrow> Inr (foldl (\<lambda>paths tok. paths @ elementPaths tok) [] toks)
      | (toks, Some e) \<Rightarrow> Inl (DecodeFailed e))"

section \<open>SimpleCov\<close>

text \<open>
  The suites and files come in the order Go's map iteration visits them. \<open>entry\<close> reads one file's
  raw entry in the modern and in the legacy layout; the first that fits wins.
\<close>

definition simplecovLines :: "(string \<Rightarrow> int option list option) \<Rightarrow> (string \<Rightarrow> int option list option) \<Rightarrow> string \<Rightarrow> int option list option" where
  "simplecovLines modern legacy raw =
     (case modern raw of Some counts \<Rightarrow> Some counts | None \<Rightarrow> legacy raw)"

definition simplecovHit :: "string \<Rightarrow> lineFiles \<Rightarrow> nat \<times> int option \<Rightarrow> reportError + lineFiles" where
  "simplecovHit path files x =
     (case snd x of None \<Rightarrow> Inr files
      | Some c \<Rightarrow> if c < 0 then Inl (NegativeHits path (int (fst x) + 1))
                  else Inr (hitFile path (int (fst x) + 1) c files))"

definition simplecovAdd :: "(string \<Rightarrow> int option list option) \<Rightarrow> string \<Rightarrow> lineFiles \<Rightarrow> string \<times> string \<Rightarrow> reportError + lineFiles" where
  "simplecovAdd entry suite files x =
     (case entry (snd x) of None \<Rightarrow> Inl (BadEntry suite (fst x) ''unrecognized coverage entry'')
      | Some counts \<Rightarrow>
          if int (length counts) > maxLineNumber then Inl (TooManyLines (fst x))
          else let path = normalizePath (fst x)
            in foldErr (simplecovHit path) (openFile path files) (enumerate 0 counts))"

definition simplecovParse ::
  "(string \<Rightarrow> string + (string \<times> (string \<times> string) list) list) \<Rightarrow> (string \<Rightarrow> int option list option) \<Rightarrow> string \<Rightarrow> reportError + profile" where
  "simplecovParse decode entry r =
     (case decode r of Inl e \<Rightarrow> Inl (DecodeFailed e)
      | Inr suites \<Rightarrow> withHits ''simplecov''
          (foldErr (\<lambda>files s. foldErr (simplecovAdd entry (fst s)) files (snd s)) [] suites))"

section \<open>xccov\<close>

text \<open>
  The top-level object as the streaming decoder reads it: the keys with what their values decode
  to, and whether the object's end was read without an error. \<open>None\<close> is a report that does not
  start with an object.
\<close>

record xccovLine =
  xcLine :: int
  xcIsExecutable :: bool
  xcExecutionCount :: int

datatype xccovItem =
    XcEntry string "xccovLine list"
  | XcMismatch string string
  | XcSyntax string string
  | XcBadKey string

type_synonym xccovObject = "xccovItem list \<times> string option"

definition isXccovReportKey :: "string \<Rightarrow> bool" where
  "isXccovReportKey k \<longleftrightarrow> k = ''coveredLines'' \<or> k = ''executableLines'' \<or> k = ''lineCoverage'' \<or> k = ''targets''"

definition xccovItemStep :: "(string \<Rightarrow> 's \<Rightarrow> xccovItem \<Rightarrow> reportError + 's) \<Rightarrow> 's \<Rightarrow> xccovItem \<Rightarrow> reportError + 's" where
  "xccovItemStep fn s item =
     (case item of XcBadKey e \<Rightarrow> Inl (DecodeFailed e)
      | XcEntry key _ \<Rightarrow> if isXccovReportKey key then Inl XccovReportSchema else fn (normalizePath key) s item
      | XcMismatch key _ \<Rightarrow> if isXccovReportKey key then Inl XccovReportSchema else fn (normalizePath key) s item
      | XcSyntax key _ \<Rightarrow> if isXccovReportKey key then Inl XccovReportSchema else fn (normalizePath key) s item)"

definition walkXccov :: "(string \<Rightarrow> xccovObject option) \<Rightarrow> string \<Rightarrow> (string \<Rightarrow> 's \<Rightarrow> xccovItem \<Rightarrow> reportError + 's) \<Rightarrow> 's \<Rightarrow> reportError + 's" where
  "walkXccov decode r fn s =
     (case decode r of None \<Rightarrow> Inl NotAnObject
      | Some (items, ending) \<Rightarrow>
          (case foldErr (xccovItemStep fn) s items of Inl e \<Rightarrow> Inl e
           | Inr s' \<Rightarrow> (case ending of None \<Rightarrow> Inr s' | Some e \<Rightarrow> Inl (DecodeFailed e))))"

definition xccovHit :: "string \<Rightarrow> lineFiles \<Rightarrow> xccovLine \<Rightarrow> reportError + lineFiles" where
  "xccovHit path files e =
     (if \<not> xcIsExecutable e then Inr files
      else if xcLine e \<le> 0 \<or> xcLine e > maxLineNumber then Inl (MalformedLine (xcLine e) path)
      else if xcExecutionCount e < 0 then Inl (NegativeHits path (xcLine e))
      else Inr (hitFile path (xcLine e) (xcExecutionCount e) files))"

definition xccovAdd :: "string \<Rightarrow> lineFiles \<Rightarrow> xccovItem \<Rightarrow> reportError + lineFiles" where
  "xccovAdd path files item =
     (case item of
        XcEntry _ entries \<Rightarrow> foldErr (xccovHit path) (openFile path files) entries
      | XcMismatch _ e \<Rightarrow> Inl (BadEntry ''xccov'' path e)
      | XcSyntax _ e \<Rightarrow> Inl (BadEntry ''xccov'' path e)
      | XcBadKey e \<Rightarrow> Inl (DecodeFailed e))"

definition xccovParse :: "(string \<Rightarrow> xccovObject option) \<Rightarrow> string \<Rightarrow> reportError + profile" where
  "xccovParse decode r = withHits ''xccov'' (walkXccov decode r xccovAdd [])"

text \<open>\<open>xccovPaths\<close> skips over each value: only a syntax error stops it.\<close>

definition xccovPaths :: "(string \<Rightarrow> xccovObject option) \<Rightarrow> string \<Rightarrow> reportError + string list" where
  "xccovPaths decode r =
     walkXccov decode r (\<lambda>path paths item. case item of XcSyntax _ e \<Rightarrow> Inl (DecodeFailed e) | _ \<Rightarrow> Inr (paths @ [path])) []"

text \<open>\<open>Format.FilePaths\<close>: the format's own path reader, or the paths of a full parse.\<close>

definition FilePaths :: "(string \<Rightarrow> 'e + string list) option \<Rightarrow> (string \<Rightarrow> 'e + profile) \<Rightarrow> string \<Rightarrow> 'e + string list" where
  "FilePaths paths parse r =
     (case paths of Some f \<Rightarrow> f r
      | None \<Rightarrow> (case parse r of Inl e \<Rightarrow> Inl e | Inr p \<Rightarrow> Inr (map fPath (Files p))))"

section \<open>The parsers' contract\<close>

lemma foldErr_inv:
  "foldErr f s xs = Inr t \<Longrightarrow> P s \<Longrightarrow> (\<And>x s s'. x \<in> set xs \<Longrightarrow> f s x = Inr s' \<Longrightarrow> P s \<Longrightarrow> P s') \<Longrightarrow> P t"
proof (induction xs arbitrary: s)
  case (Cons x xs)
  obtain s' where s': "f s x = Inr s'" "foldErr f s' xs = Inr t" using Cons.prems(1) by (auto split: sum.splits)
  have "P s'" by (rule Cons.prems(3) [OF _ s'(1) Cons.prems(2)]) simp
  then show ?case by (rule Cons.IH [OF s'(2)]) (rule Cons.prems(3); simp)
qed simp

lemma foldErr_ok:
  "(\<And>x s. x \<in> set xs \<Longrightarrow> f s x = Inr (g s x)) \<Longrightarrow> foldErr f s xs = Inr (foldl g s xs)"
  by (induction xs arbitrary: s) auto

lemma fromLineHits_profile:
  "fromLineHits format files = Inr p \<Longrightarrow> p = lineProfile (filter (\<lambda>(_, lines). lines \<noteq> []) files)"
  by (auto simp: fromLineHits_def lineProfile_def Let_def split: if_splits)

lemma wfLineFiles_filter: "wfLineFiles files \<Longrightarrow> wfLineFiles (filter P files)"
  by (auto simp: wfLineFiles_def wfMap_def distinct_map_filter)

lemma withHits_profile:
  assumes "withHits format res = Inr p" and "\<And>files. res = Inr files \<Longrightarrow> wfLineFiles files"
  obtains files where "wfLineFiles files" "p = lineProfile files"
proof -
  obtain files where "res = Inr files" "fromLineHits format files = Inr p"
    using assms(1) by (auto simp: withHits_def split: sum.splits)
  with that assms(2) fromLineHits_profile wfLineFiles_filter show ?thesis by blast
qed

lemma withHits_contract:
  assumes "withHits format res = Inr p" and "\<And>files. res = Inr files \<Longrightarrow> wfLineFiles files"
  shows "saneProfile p \<and> (\<forall>f \<in> set (Files p). Canonical (fBlocks f))"
  using withHits_profile [OF assms] lineProfile_sane lineProfile_canonical by metis

lemmas wf_foldErr = foldErr_inv [where P = wfLineFiles]

lemma wfLineFiles_guarded_hit:
  "wfLineFiles files \<Longrightarrow> \<not> l \<le> 0 \<Longrightarrow> \<not> l > maxLineNumber \<Longrightarrow> wfLineFiles (hitFile p l n files)"
  by (rule wfLineFiles_hit) simp_all

lemmas parser_intros = wfLineFiles_open wfLineFiles_guarded_hit

lemma wfLineFiles_Nil: "wfLineFiles []"
  by (simp add: wfLineFiles_def)

lemma coberturaAdd_wf: "coberturaAdd files cls = Inr files' \<Longrightarrow> wfLineFiles files \<Longrightarrow> wfLineFiles files'"
  by (auto simp: coberturaAdd_def Let_def coberturaHit_def intro: parser_intros elim!: wf_foldErr split: if_splits)

lemma cloverAdd_wf: "cloverAdd files f = Inr files' \<Longrightarrow> wfLineFiles files \<Longrightarrow> wfLineFiles files'"
  by (auto simp: cloverAdd_def Let_def cloverHit_def intro: parser_intros elim!: wf_foldErr split: if_splits)

lemma jacocoAdd_wf: "jacocoAdd pkg files sf = Inr files' \<Longrightarrow> wfLineFiles files \<Longrightarrow> wfLineFiles files'"
  by (auto simp: jacocoAdd_def jacocoHit_def intro: parser_intros elim!: wf_foldErr split: if_splits)

lemma jacocoWalk_wf: "jacocoWalk files g = Inr files' \<Longrightarrow> wfLineFiles files \<Longrightarrow> wfLineFiles files'"
proof (induction files g arbitrary: files' rule: jacocoWalk.induct)
  case (1 files groups packages)
  let ?inner = "foldErr (\<lambda>files pkg. foldErr (jacocoAdd pkg) files (jcSourceFiles pkg)) files packages"
  obtain mid where mid: "?inner = Inr mid" "foldErr jacocoWalk mid groups = Inr files'"
    using "1.prems"(1) by (auto split: sum.splits)
  have "wfLineFiles mid"
    by (rule wf_foldErr [OF mid(1) "1.prems"(2)]) (erule wf_foldErr, assumption, erule jacocoAdd_wf)
  then show ?case
    by (rule wf_foldErr [OF mid(2)]) (erule (2) "1.IH" [OF mid(1)])
qed

lemma hits_wf:
  "wfLineFiles files \<Longrightarrow> \<forall>ln \<in> set lns. 1 \<le> ln \<and> ln \<le> maxLineNumber \<Longrightarrow> wfLineFiles (foldl (\<lambda>files ln. hitFile p ln n files) files lns)"
  by (induction lns arbitrary: files) (auto intro: wfLineFiles_hit)

lemma openCoverAdd_wf: "openCoverAdd local meth st sp = Inr st' \<Longrightarrow> wfLineFiles (snd st) \<Longrightarrow> wfLineFiles (snd st')"
  by (auto simp: openCoverAdd_def Let_def intro!: hits_wf wfLineFiles_open split: if_splits option.splits)

lemma openCoverModuleAdd_wf: "openCoverModuleAdd st m = Inr st' \<Longrightarrow> wfLineFiles (snd st) \<Longrightarrow> wfLineFiles (snd st')"
  unfolding openCoverModuleAdd_def Let_def
  by (erule foldErr_inv [where P = "\<lambda>st. wfLineFiles (snd st)"], assumption, erule foldErr_inv [where P = "\<lambda>st. wfLineFiles (snd st)"], assumption, erule foldErr_inv [where P = "\<lambda>st. wfLineFiles (snd st)"], assumption, erule openCoverAdd_wf)

lemma simplecovAdd_wf: "simplecovAdd entry suite files x = Inr files' \<Longrightarrow> wfLineFiles files \<Longrightarrow> wfLineFiles files'"
  by (auto simp: simplecovAdd_def Let_def simplecovHit_def in_set_enumerate_eq intro!: wfLineFiles_open wfLineFiles_hit elim!: wf_foldErr
      split: if_splits option.splits)

lemma xccovAdd_wf: "xccovAdd path files item = Inr files' \<Longrightarrow> wfLineFiles files \<Longrightarrow> wfLineFiles files'"
  by (auto simp: xccovAdd_def xccovHit_def intro: parser_intros elim!: wf_foldErr split: if_splits xccovItem.splits)

lemma walkXccov_wf: "walkXccov decode r xccovAdd files = Inr files' \<Longrightarrow> wfLineFiles files \<Longrightarrow> wfLineFiles files'"
proof -
  assume run: "walkXccov decode r xccovAdd files = Inr files'" and wf: "wfLineFiles files"
  then obtain items where items: "foldErr (xccovItemStep xccovAdd) files items = Inr files'"
    by (auto simp: walkXccov_def split: option.splits sum.splits)
  have "xccovItemStep xccovAdd s x = Inr s' \<Longrightarrow> wfLineFiles s \<Longrightarrow> wfLineFiles s'" for s x s'
    by (cases x) (auto simp: xccovItemStep_def dest!: xccovAdd_wf split: if_splits)
  then show "wfLineFiles files'" by (rule wf_foldErr [OF items wf])
qed

lemma hits_contract:
  assumes "\<And>input files. parse input = Inr files \<Longrightarrow> wfLineFiles files"
    and "\<And>input p. run input = Inr p \<Longrightarrow> withHits format (parse input) = Inr p"
  shows "canonical_parser run"
proof unfold_locales
  fix input p f
  assume p: "run input = Inr p"
  have c: "saneProfile p \<and> (\<forall>f \<in> set (Files p). Canonical (fBlocks f))"
    using assms(2) [OF p] by (rule withHits_contract) (rule assms(1))
  show "saneProfile p" using c by blast
  show "f \<in> set (Files p) \<Longrightarrow> Canonical (fBlocks f)" using c by blast
qed

interpretation cobertura: canonical_parser "coberturaParse decode" for decode
proof (rule hits_contract)
  let ?hits = "\<lambda>r. case decode r of Inl e \<Rightarrow> Inl (DecodeFailed e)
    | Inr report \<Rightarrow> foldErr (\<lambda>files pkg. foldErr coberturaAdd files (cbClasses pkg)) [] (cbPackages report)"
  show "coberturaParse decode r = Inr p \<Longrightarrow> withHits ''cobertura'' (?hits r) = Inr p" for r p
    by (auto simp: coberturaParse_def split: sum.splits)
  show "?hits r = Inr files \<Longrightarrow> wfLineFiles files" for r files
    by (auto elim!: wf_foldErr intro: coberturaAdd_wf wfLineFiles_Nil split: sum.splits)
qed

interpretation clover: canonical_parser "cloverParse decode" for decode
proof (rule hits_contract)
  let ?hits = "\<lambda>r. case decode r of Inl e \<Rightarrow> Inl (DecodeFailed e) | Inr report \<Rightarrow> foldErr cloverAdd [] (cloverAll report)"
  show "cloverParse decode r = Inr p \<Longrightarrow> withHits ''clover'' (?hits r) = Inr p" for r p
    by (auto simp: cloverParse_def split: sum.splits)
  show "?hits r = Inr files \<Longrightarrow> wfLineFiles files" for r files
    by (auto elim!: wf_foldErr intro: cloverAdd_wf wfLineFiles_Nil split: sum.splits)
qed

interpretation jacoco: canonical_parser "jacocoParse decode" for decode
proof (rule hits_contract)
  let ?hits = "\<lambda>r. case decode r of Inl e \<Rightarrow> Inl (DecodeFailed e) | Inr report \<Rightarrow> jacocoWalk [] report"
  show "jacocoParse decode r = Inr p \<Longrightarrow> withHits ''jacoco'' (?hits r) = Inr p" for r p
    by (auto simp: jacocoParse_def split: sum.splits)
  show "?hits r = Inr files \<Longrightarrow> wfLineFiles files" for r files
    by (auto intro: jacocoWalk_wf wfLineFiles_Nil split: sum.splits)
qed

interpretation opencover: canonical_parser "openCoverParse decode" for decode
proof (rule hits_contract)
  let ?hits = "\<lambda>r. case decode r of Inl e \<Rightarrow> Inl (DecodeFailed e)
    | Inr modules \<Rightarrow> (case foldErr openCoverModuleAdd (0, []) modules of Inl e \<Rightarrow> Inl e | Inr st \<Rightarrow> Inr (snd st))"
  show "openCoverParse decode r = Inr p \<Longrightarrow> withHits ''opencover'' (?hits r) = Inr p" for r p
    by (auto simp: openCoverParse_def split: sum.splits)
  have "foldErr openCoverModuleAdd (0, []) modules = Inr st \<Longrightarrow> wfLineFiles (snd st)" for modules st
    by (erule foldErr_inv [where P = "\<lambda>st. wfLineFiles (snd st)"]) (auto intro: openCoverModuleAdd_wf wfLineFiles_Nil)
  then show "?hits r = Inr files \<Longrightarrow> wfLineFiles files" for r files
    by (auto split: sum.splits)
qed

interpretation simplecov: canonical_parser "simplecovParse decode entry" for decode entry
proof (rule hits_contract)
  let ?hits = "\<lambda>r. case decode r of Inl e \<Rightarrow> Inl (DecodeFailed e)
    | Inr suites \<Rightarrow> foldErr (\<lambda>files s. foldErr (simplecovAdd entry (fst s)) files (snd s)) [] suites"
  show "simplecovParse decode entry r = Inr p \<Longrightarrow> withHits ''simplecov'' (?hits r) = Inr p" for r p
    by (auto simp: simplecovParse_def split: sum.splits)
  show "?hits r = Inr files \<Longrightarrow> wfLineFiles files" for r files
    by (auto elim!: wf_foldErr intro: simplecovAdd_wf wfLineFiles_Nil split: sum.splits)
qed

interpretation xccov: canonical_parser "xccovParse decode" for decode
  by (rule hits_contract [of "\<lambda>r. walkXccov decode r xccovAdd []" _ "''xccov''"])
    (auto simp: xccovParse_def intro: walkXccov_wf wfLineFiles_Nil)

section \<open>All formats read alike\<close>

text \<open>
  A report of any of the formats records hit counts for lines of files: the records below, in the
  vocabulary of the LCOV round trip.
\<close>

type_synonym lineRecord = "string \<times> (int \<times> int) list"

definition addRecord :: "lineFiles \<Rightarrow> lineRecord \<Rightarrow> lineFiles" where
  "addRecord files r = hitAll (fst r) (snd r) (openFile (fst r) files)"

definition recordOk :: "lineRecord \<Rightarrow> bool" where
  "recordOk r \<longleftrightarrow> lcovRecOk r \<and> snd r \<noteq> []"

definition coberturaRecord :: "coberturaClass \<Rightarrow> lineRecord" where
  "coberturaRecord cls = (normalizePath (cbFilename cls), map (\<lambda>l. (cbNumber l, cbHits l)) (cbLines cls))"

definition coberturaRecords :: "coberturaCoverage \<Rightarrow> lineRecord list" where
  "coberturaRecords rep = map coberturaRecord (concat (map cbClasses (cbPackages rep)))"

definition cloverRecord :: "cloverFile \<Rightarrow> lineRecord" where
  "cloverRecord f = (normalizePath (cloverFileName f),
     map (\<lambda>l. (clNum l, clCount l)) (filter (\<lambda>l. clType l \<noteq> ''method'') (clLines f)))"

definition cloverRecords :: "cloverCoverage \<Rightarrow> lineRecord list" where
  "cloverRecords rep = map cloverRecord (clFiles rep @ concat (map clPkgFiles (clPackages rep)))"

fun jacocoFiles :: "jacocoGroup \<Rightarrow> (jacocoPackage \<times> jacocoSourceFile) list" where
  "jacocoFiles (JacocoGroup groups packages) =
     concat (map (\<lambda>pkg. map (Pair pkg) (jcSourceFiles pkg)) packages) @ concat (map jacocoFiles groups)"

definition jacocoRecord :: "jacocoPackage \<times> jacocoSourceFile \<Rightarrow> lineRecord" where
  "jacocoRecord x = (jacocoPath (fst x) (snd x),
     map (\<lambda>l. (jcNr l, jcCI l)) (filter (\<lambda>l. \<not> (jcMI l = 0 \<and> jcCI l = 0)) (jcLines (snd x))))"

text \<open>JaCoCo checks the numbers of all lines, also of those that are not executable.\<close>

definition jacocoOk :: "jacocoGroup \<Rightarrow> bool" where
  "jacocoOk g \<longleftrightarrow> (\<forall>x \<in> set (jacocoFiles g). jcFileName (snd x) \<noteq> [] \<and> (\<forall>l \<in> set (jcLines (snd x)). 1 \<le> jcNr l \<and> jcNr l \<le> maxLineNumber))"

definition openCoverPoints :: "openCoverModule list \<Rightarrow> ((string, string) gomap \<times> openCoverMethod \<times> openCoverPoint) list" where
  "openCoverPoints modules = concat (map (\<lambda>m. concat (map (\<lambda>cls. concat (map (\<lambda>meth.
     map (\<lambda>sp. (openCoverLocal m, meth, sp)) (ocmPoints meth)) cls)) (ocClasses m))) modules)"

definition pointRecord :: "(string, string) gomap \<times> openCoverMethod \<times> openCoverPoint \<Rightarrow> lineRecord option" where
  "pointRecord x = (case x of (local, meth, sp) \<Rightarrow>
     if hidden sp then None
     else map_option (\<lambda>path. (path, map (\<lambda>l. (l, ocpVC sp)) [ocpSL sp..pointEnd sp])) (pointPath local meth sp))"

definition openCoverRecords :: "openCoverModule list \<Rightarrow> lineRecord list" where
  "openCoverRecords modules = List.map_filter pointRecord (openCoverPoints modules)"

definition markCount :: "lineRecord list \<Rightarrow> int" where
  "markCount recs = sum_list (map (\<lambda>r. int (length (snd r))) recs)"

definition simplecovRecord :: "string \<Rightarrow> int option list \<Rightarrow> lineRecord" where
  "simplecovRecord name counts =
     (normalizePath name, List.map_filter (\<lambda>x. map_option (\<lambda>c. (int (fst x) + 1, c)) (snd x)) (enumerate 0 counts))"

definition simplecovFiles :: "(string \<Rightarrow> int option list option) \<Rightarrow> (string \<times> (string \<times> string) list) list \<Rightarrow> (string \<times> int option list option) list" where
  "simplecovFiles entry suites = concat (map (\<lambda>s. map (\<lambda>x. (fst x, entry (snd x))) (snd s)) suites)"

definition simplecovRecords :: "(string \<Rightarrow> int option list option) \<Rightarrow> (string \<times> (string \<times> string) list) list \<Rightarrow> lineRecord list" where
  "simplecovRecords entry suites = map (\<lambda>x. simplecovRecord (fst x) (the (snd x))) (simplecovFiles entry suites)"

definition simplecovOk :: "(string \<Rightarrow> int option list option) \<Rightarrow> (string \<times> (string \<times> string) list) list \<Rightarrow> bool" where
  "simplecovOk entry suites \<longleftrightarrow> (\<forall>x \<in> set (simplecovFiles entry suites). \<exists>counts. snd x = Some counts \<and> int (length counts) \<le> maxLineNumber)"

definition xccovRecord :: "string \<times> xccovLine list \<Rightarrow> lineRecord" where
  "xccovRecord x = (normalizePath (fst x), map (\<lambda>e. (xcLine e, xcExecutionCount e)) (filter xcIsExecutable (snd x)))"

definition xccovDoc :: "(string \<times> xccovLine list) list \<Rightarrow> xccovObject" where
  "xccovDoc entries = (map (\<lambda>x. XcEntry (fst x) (snd x)) entries, None)"

lemma foldErr_append: "foldErr f s (xs @ ys) = (case foldErr f s xs of Inl e \<Rightarrow> Inl e | Inr s' \<Rightarrow> foldErr f s' ys)"
  by (induction xs arbitrary: s) (auto split: sum.split)

lemma foldErr_concat: "foldErr (\<lambda>s y. foldErr f s (g y)) s ys = foldErr f s (concat (map g ys))"
  by (induction ys arbitrary: s) (auto simp: foldErr_append split: sum.split)

lemma foldErr_map: "foldErr f s (map g xs) = foldErr (\<lambda>s x. f s (g x)) s xs"
  by (induction xs arbitrary: s) (auto split: sum.split)

lemma foldErr_filter:
  "foldErr (\<lambda>s x. if P x then f s x else Inr s) s xs = foldErr f s (filter P xs)"
  by (induction xs arbitrary: s) (auto split: sum.split)

text \<open>A run whose every step adds one record adds them all.\<close>

lemma foldErr_records:
  assumes "\<And>x files. x \<in> set xs \<Longrightarrow> f files x = Inr (addRecord files (r x))"
  shows "foldErr f files xs = Inr (foldl addRecord files (map r xs))"
  using assms by (subst foldErr_ok [where g = "\<lambda>files x. addRecord files (r x)"]) (simp_all add: foldl_map)

lemma foldErr_hits:
  assumes "\<And>x files. x \<in> set xs \<Longrightarrow> f files x = Inr (hitFile path (l x) (n x) files)"
  shows "foldErr f files xs = Inr (hitAll path (map (\<lambda>x. (l x, n x)) xs) files)"
  using assms by (subst foldErr_ok [where g = "\<lambda>files x. hitFile path (l x) (n x) files"]) (simp_all add: hitAll_def foldl_map)

lemma recordOk_lines: "recordOk r \<Longrightarrow> (l, n) \<in> set (snd r) \<Longrightarrow> 0 < l \<and> l \<le> maxLineNumber \<and> 0 \<le> n"
  by (auto simp: recordOk_def lcovRecOk_def)

lemma recordOk_path: "recordOk r \<Longrightarrow> fst r \<noteq> []"
  by (simp add: recordOk_def lcovRecOk_def lcovPathOk_def)

lemma normalizePath_Nil: "normalizePath [] = []"
  by (simp add: normalizePath_def replaceAll.simps trimPrefix_def)

lemma coberturaAdd_record:
  assumes "recordOk (coberturaRecord cls)"
  shows "coberturaAdd files cls = Inr (addRecord files (coberturaRecord cls))"
proof -
  have "cbFilename cls \<noteq> []" using recordOk_path [OF assms] by (auto simp: coberturaRecord_def normalizePath_Nil)
  moreover have "coberturaHit p files l = Inr (hitFile p (cbNumber l) (cbHits l) files)" if "l \<in> set (cbLines cls)" for l p files
    using recordOk_lines [OF assms, of "cbNumber l" "cbHits l"] that by (auto simp: coberturaHit_def coberturaRecord_def)
  ultimately show ?thesis
    by (simp add: coberturaAdd_def addRecord_def coberturaRecord_def Let_def foldErr_hits)
qed

lemma cloverAdd_record:
  assumes "recordOk (cloverRecord f)"
  shows "cloverAdd files f = Inr (addRecord files (cloverRecord f))"
proof -
  have "cloverFileName f \<noteq> []" using recordOk_path [OF assms] by (auto simp: cloverRecord_def normalizePath_Nil)
  moreover have "foldErr (cloverHit p) files (clLines f) = Inr (hitAll p (snd (cloverRecord f)) files)" for p files
  proof -
    have "cloverHit p = (\<lambda>files l. if clType l \<noteq> ''method'' then cloverHit p files l else Inr files)"
      by (auto simp: cloverHit_def fun_eq_iff)
    then have "foldErr (cloverHit p) files (clLines f) = foldErr (cloverHit p) files (filter (\<lambda>l. clType l \<noteq> ''method'') (clLines f))"
      using foldErr_filter [of "\<lambda>l. clType l \<noteq> ''method''" "cloverHit p"] by simp
    also have "\<dots> = Inr (hitAll p (map (\<lambda>l. (clNum l, clCount l)) (filter (\<lambda>l. clType l \<noteq> ''method'') (clLines f))) files)"
    proof (rule foldErr_hits)
      fix l files assume l: "l \<in> set (filter (\<lambda>l. clType l \<noteq> ''method'') (clLines f))"
      then show "cloverHit p files l = Inr (hitFile p (clNum l) (clCount l) files)"
        using recordOk_lines [OF assms, of "clNum l" "clCount l"] by (auto simp: cloverHit_def cloverRecord_def)
    qed
    finally show ?thesis by (simp add: cloverRecord_def)
  qed
  ultimately show ?thesis by (simp add: cloverAdd_def addRecord_def cloverRecord_def Let_def)
qed

lemma jacocoAdd_record:
  assumes ok: "recordOk (jacocoRecord (pkg, sf))" and name: "jcFileName sf \<noteq> []"
    and nrs: "\<forall>l \<in> set (jcLines sf). 1 \<le> jcNr l \<and> jcNr l \<le> maxLineNumber"
  shows "jacocoAdd pkg files sf = Inr (addRecord files (jacocoRecord (pkg, sf)))"
proof -
  let ?run = "\<lambda>l. \<not> (jcMI l = 0 \<and> jcCI l = 0)" and ?p = "jacocoPath pkg sf"
  have "foldErr (jacocoHit ?p) files (jcLines sf) = foldErr (\<lambda>files l. if ?run l then Inr (hitFile ?p (jcNr l) (jcCI l) files) else Inr files) files (jcLines sf)" for files
    using nrs by (intro foldErr_cong) (auto simp: jacocoHit_def)
  also have "\<dots> files = foldErr (\<lambda>files l. Inr (hitFile ?p (jcNr l) (jcCI l) files)) files (filter ?run (jcLines sf))" for files
    by (rule foldErr_filter)
  also have "\<dots> files = Inr (hitAll ?p (map (\<lambda>l. (jcNr l, jcCI l)) (filter ?run (jcLines sf))) files)" for files
    by (rule foldErr_hits) simp
  finally show ?thesis using name by (simp add: jacocoAdd_def addRecord_def jacocoRecord_def)
qed

lemma jacocoWalk_files: "jacocoWalk files g = foldErr (\<lambda>files x. jacocoAdd (fst x) files (snd x)) files (jacocoFiles g)"
proof (induction files g rule: jacocoWalk.induct)
  case (1 files groups packages)
  let ?add = "\<lambda>files x. jacocoAdd (fst x) files (snd x)"
  have pkgs: "foldErr (\<lambda>files pkg. foldErr (jacocoAdd pkg) files (jcSourceFiles pkg)) files packages
      = foldErr ?add files (concat (map (\<lambda>pkg. map (Pair pkg) (jcSourceFiles pkg)) packages))"
    by (simp add: foldErr_concat [symmetric] foldErr_map)
  have "foldErr jacocoWalk mid groups = foldErr ?add mid (concat (map jacocoFiles groups))"
    if "foldErr (\<lambda>files pkg. foldErr (jacocoAdd pkg) files (jcSourceFiles pkg)) files packages = Inr mid" for mid
    unfolding foldErr_concat [symmetric] by (rule foldErr_cong [OF refl refl]) (erule "1.IH" [OF that])
  then show ?case by (simp add: foldErr_append flip: pkgs split: sum.split)
qed

text \<open>OpenCover counts a mark per line of a point, and stops past the cap.\<close>

lemma openCover_points:
  "foldErr openCoverModuleAdd st modules = foldErr (\<lambda>st x. openCoverAdd (fst x) (fst (snd x)) st (snd (snd x))) st (openCoverPoints modules)"
  by (simp add: openCoverPoints_def openCoverModuleAdd_def [abs_def] Let_def foldErr_concat [symmetric] foldErr_map)

lemma openCoverAdd_record:
  assumes "\<And>r. pointRecord (local, meth, sp) = Some r \<Longrightarrow> recordOk r \<and> k + int (length (snd r)) \<le> maxOpenCoverLineMarks"
  shows "openCoverAdd local meth (k, files) sp = Inr (case pointRecord (local, meth, sp) of
     None \<Rightarrow> (k, files) | Some r \<Rightarrow> (k + int (length (snd r)), addRecord files r))"
proof (cases "pointRecord (local, meth, sp)")
  case None
  then show ?thesis by (auto simp: pointRecord_def openCoverAdd_def split: if_splits)
next
  case (Some r)
  then obtain path where path: "\<not> hidden sp" "pointPath local meth sp = Some path" and r: "r = (path, map (\<lambda>l. (l, ocpVC sp)) [ocpSL sp..pointEnd sp])"
    by (auto simp: pointRecord_def split: if_splits)
  have le: "ocpSL sp \<le> pointEnd sp" by (simp add: pointEnd_def)
  have ok: "recordOk r" "k + int (length (snd r)) \<le> maxOpenCoverLineMarks" using assms [OF Some] by simp_all
  have "0 < ocpSL sp" "pointEnd sp \<le> maxLineNumber" "0 \<le> ocpVC sp"
    using recordOk_lines [OF ok(1), of "ocpSL sp" "ocpVC sp"] recordOk_lines [OF ok(1), of "pointEnd sp" "ocpVC sp"] le by (auto simp: r)
  moreover have "int (length (snd r)) = pointEnd sp - ocpSL sp + 1" using le by (simp add: r)
  ultimately show ?thesis using ok(2) path Some
    by (simp add: openCoverAdd_def Let_def addRecord_def r hitAll_def foldl_map algebra_simps)
qed

lemma openCover_records:
  assumes "\<forall>r \<in> set (List.map_filter pointRecord pts). recordOk r" and "k + markCount (List.map_filter pointRecord pts) \<le> maxOpenCoverLineMarks"
  shows "foldErr (\<lambda>st x. openCoverAdd (fst x) (fst (snd x)) st (snd (snd x))) (k, files) pts
     = Inr (k + markCount (List.map_filter pointRecord pts), foldl addRecord files (List.map_filter pointRecord pts))"
  using assms
proof (induction pts arbitrary: k files)
  case (Cons x pts)
  obtain local meth sp where x: "x = (local, meth, sp)" by (cases x)
  have nonneg: "0 \<le> markCount (List.map_filter pointRecord pts)" by (auto simp: markCount_def intro!: sum_list_nonneg)
  have step: "openCoverAdd local meth (k, files) sp = Inr (case pointRecord x of
     None \<Rightarrow> (k, files) | Some r \<Rightarrow> (k + int (length (snd r)), addRecord files r))"
    unfolding x using Cons.prems nonneg by (intro openCoverAdd_record) (auto simp: x List.map_filter_simps markCount_def)
  show ?case
  proof (cases "pointRecord x")
    case None
    then show ?thesis using Cons step by (simp add: x List.map_filter_simps)
  next
    case (Some r)
    then show ?thesis using Cons.IH [of "k + int (length (snd r))" "addRecord files r"] Cons.prems step
      by (simp add: x List.map_filter_simps markCount_def algebra_simps)
  qed
qed (simp add: List.map_filter_simps markCount_def)

lemma simplecovAdd_record:
  assumes ok: "recordOk (simplecovRecord (fst x) counts)" and e: "entry (snd x) = Some counts" and len: "int (length counts) \<le> maxLineNumber"
  shows "simplecovAdd entry suite files x = Inr (addRecord files (simplecovRecord (fst x) counts))"
proof -
  let ?p = "normalizePath (fst x)" and ?m = "\<lambda>y. map_option (\<lambda>c. (int (fst y) + 1, c)) (snd y)"
  have "foldErr (simplecovHit ?p) files ys = Inr (hitAll ?p (List.map_filter ?m ys) files)"
    if "\<forall>(l, n) \<in> set (List.map_filter ?m ys). 0 \<le> n" for ys :: "(nat \<times> int option) list" and files
    using that
  proof (induction ys arbitrary: files)
    case (Cons y ys)
    then show ?case by (cases "snd y") (auto simp: simplecovHit_def List.map_filter_simps hitAll_def)
  qed (simp add: List.map_filter_simps hitAll_def)
  from this [of "enumerate 0 counts"] have "foldErr (simplecovHit ?p) files (enumerate 0 counts) = Inr (hitAll ?p (List.map_filter ?m (enumerate 0 counts)) files)" for files
    using recordOk_lines [OF ok] by (auto simp: simplecovRecord_def)
  then show ?thesis using e len by (simp add: simplecovAdd_def addRecord_def simplecovRecord_def Let_def)
qed

lemma xccovAdd_record:
  assumes ok: "recordOk (xccovRecord x)"
  shows "xccovAdd (normalizePath (fst x)) files (XcEntry k (snd x)) = Inr (addRecord files (xccovRecord x))"
proof -
  let ?p = "normalizePath (fst x)"
  have "xccovHit ?p = (\<lambda>files e. if xcIsExecutable e then xccovHit ?p files e else Inr files)"
    by (auto simp: xccovHit_def fun_eq_iff)
  then have "foldErr (xccovHit ?p) files (snd x) = foldErr (xccovHit ?p) files (filter xcIsExecutable (snd x))" for files
    using foldErr_filter [of xcIsExecutable "xccovHit ?p"] by simp
  also have "\<dots> files = Inr (hitAll ?p (map (\<lambda>e. (xcLine e, xcExecutionCount e)) (filter xcIsExecutable (snd x))) files)" for files
  proof (rule foldErr_hits)
    fix e files assume e: "e \<in> set (filter xcIsExecutable (snd x))"
    then show "xccovHit ?p files e = Inr (hitFile ?p (xcLine e) (xcExecutionCount e) files)"
      using recordOk_lines [OF ok, of "xcLine e" "xcExecutionCount e"] by (auto simp: xccovHit_def xccovRecord_def)
  qed
  finally show ?thesis by (simp add: xccovAdd_def addRecord_def xccovRecord_def)
qed

lemma lineProfile_text:
  assumes "\<forall>r \<in> set recs. recordOk r" and "recs \<noteq> []"
  shows "lcovParse (lcovText recs) = Inr (lineProfile (foldl addRecord [] recs))"
    and "withHits format (Inr (foldl addRecord [] recs)) = Inr (lineProfile (foldl addRecord [] recs))"
proof -
  let ?files = "foldl addRecord [] recs"
  have fold: "?files = foldl (\<lambda>fs r. hitAll (fst r) (snd r) (openFile (fst r) fs)) [] recs"
    by (simp add: addRecord_def [abs_def])
  have ok: "\<forall>r \<in> set recs. lcovRecOk r" using assms(1) by (simp add: recordOk_def)
  have loop: "lcovLoop 1 (concat (map lcovRecord recs)) \<lparr>lcFiles = [], lcCur = None\<rparr> = Inr \<lparr>lcFiles = ?files, lcCur = None\<rparr>"
    using lcovLoop_records [OF ok] by (simp add: fold)
  have keys: "set (keysOf ?files) = fst ` set recs" unfolding fold keys_files by simp
  then have ne: "?files \<noteq> []" using assms(2) by (metis image_is_empty list.simps(8) set_empty)
  then show "lcovParse (lcovText recs) = Inr (lineProfile ?files)"
    by (simp add: lcovParse_def scan_ok [OF ok] loop)
  have wf: "wfMap ?files" using lcovLoop_wf [OF loop] by (simp add: wfLineFiles_def)
  have "lines \<noteq> []" if entry: "(p, lines) \<in> set ?files" for p lines
  proof -
    have at: "linesAt ?files p = lines" using entry wf by (simp add: linesAt_def wfMap_map_of)
    have "p \<in> fst ` set recs" unfolding keys [symmetric] using entry by force
    then obtain r where r: "r \<in> set recs" "fst r = p" by blast
    then obtain l where "l \<in> fst ` set (snd r)" using assms(1) by (cases "snd r") (auto simp: recordOk_def)
    then have "hitsOf recs p l \<noteq> []" using r hitsOf_empty [of recs p l] by (auto simp: linesIn_def)
    then have "addAll None (hitsOf recs p l) \<noteq> None" by (cases "hitsOf recs p l" rule: rev_cases) (simp_all add: addAll_def)
    then have "map_of lines l \<noteq> None" using files_lookup [of "[]" recs p l] at unfolding fold by (simp add: linesAt_def)
    then show ?thesis by auto
  qed
  then have "filter (\<lambda>(_, lines). lines \<noteq> []) ?files = ?files" by (auto simp: filter_id_conv)
  then show "withHits format (Inr ?files) = Inr (lineProfile ?files)"
    using ne by (simp add: withHits_def fromLineHits_def lineProfile_def Let_def)
qed



section \<open>The cost of an OpenCover report\<close>

text \<open>
  The updates of line counts that a run performs until it ends or stops at an error: one per line
  of each point it takes in. A point that is refused updates nothing.
\<close>

fun openCoverUpdates :: "int \<times> lineFiles \<Rightarrow> ((string, string) gomap \<times> openCoverMethod \<times> openCoverPoint) list \<Rightarrow> int" where
  "openCoverUpdates st [] = 0"
| "openCoverUpdates st (x # pts) =
     (case openCoverAdd (fst x) (fst (snd x)) st (snd (snd x)) of
        Inl e \<Rightarrow> 0
      | Inr st' \<Rightarrow> (case pointRecord x of None \<Rightarrow> 0 | Some r \<Rightarrow> int (length (snd r))) + openCoverUpdates st' pts)"

lemma openCoverAdd_marks:
  "openCoverAdd local meth st sp = Inr st' \<Longrightarrow> fst st \<le> maxOpenCoverLineMarks \<Longrightarrow>
     fst st' = fst st + (case pointRecord (local, meth, sp) of None \<Rightarrow> 0 | Some r \<Rightarrow> int (length (snd r))) \<and> fst st' \<le> maxOpenCoverLineMarks"
  by (auto simp: openCoverAdd_def pointRecord_def pointEnd_def Let_def split: if_splits option.splits)

text \<open>
  No report, however hostile, makes the OpenCover parser do more than four million updates,
  even if it ends in an error; and a report that is read through counts exactly its updates.
\<close>

theorem opencover_work_bounded:
  "0 \<le> openCoverUpdates (0, []) (openCoverPoints modules)
   \<and> openCoverUpdates (0, []) (openCoverPoints modules) \<le> maxOpenCoverLineMarks
   \<and> (case foldErr openCoverModuleAdd (0, []) modules of Inl e \<Rightarrow> True
      | Inr st \<Rightarrow> fst st = openCoverUpdates (0, []) (openCoverPoints modules))"
proof -
  let ?add = "\<lambda>st x. openCoverAdd (fst x) (fst (snd x)) st (snd (snd x))"
  have "0 \<le> openCoverUpdates st pts \<and> fst st + openCoverUpdates st pts \<le> maxOpenCoverLineMarks
      \<and> (case foldErr ?add st pts of Inl e \<Rightarrow> True | Inr st' \<Rightarrow> fst st' = fst st + openCoverUpdates st pts)"
    if "fst st \<le> maxOpenCoverLineMarks" for st pts
    using that
  proof (induction pts arbitrary: st)
    case (Cons x pts)
    show ?case
    proof (cases "?add st x")
      case (Inr st')
      have m: "fst st' = fst st + (case pointRecord x of None \<Rightarrow> 0 | Some r \<Rightarrow> int (length (snd r)))" "fst st' \<le> maxOpenCoverLineMarks"
        using openCoverAdd_marks [OF Inr Cons.prems] by simp_all
      then show ?thesis using Cons.IH [OF m(2)] Inr by (auto split: option.splits sum.splits)
    qed (use Cons.prems in simp)
  qed simp
  from this [of "(0, [])" "openCoverPoints modules"] show ?thesis
    by (auto simp: openCover_points maxOpenCoverLineMarks_def split: sum.splits)
qed

end
