(* ===== verification/DiffParse.thy ===== *)
theory DiffParse
  imports GoStrings
begin

text \<open>
  \<open>ParseUnifiedDiff\<close> of \<open>internal/diffcov/diffcov.go\<close>: the added lines of each file of a
  unified diff, with the hunk header's regular expression, the target path of a \<open>+++\<close> line and
  \<open>strconv.Unquote\<close>, which decodes the paths git quotes.
\<close>

section \<open>strconv.Unquote\<close>

text \<open>
  The value of a double-quoted Go string. \<open>UnquoteChar\<close> returns the rune, whether it is to be
  encoded as UTF-8 (an escape \<open>\x\<close> or an octal one is a byte), and the rest. The fast path Go
  takes for a valid UTF-8 string without escapes returns the same value and is left out.
\<close>

definition hexVal :: "char \<Rightarrow> int option" where
  "hexVal c =
     (if isDigit c then Some (digitVal c)
      else if 97 \<le> byteOf c \<and> byteOf c \<le> 102 then Some (byteOf c - 87)
      else if 65 \<le> byteOf c \<and> byteOf c \<le> 70 then Some (byteOf c - 55)
      else None)"

fun hexDigits :: "nat \<Rightarrow> int \<Rightarrow> string \<Rightarrow> (int \<times> string) option" where
  "hexDigits 0 v s = Some (v, s)"
| "hexDigits (Suc n) v [] = None"
| "hexDigits (Suc n) v (c # s) =
     (case hexVal c of None \<Rightarrow> None | Some x \<Rightarrow> hexDigits n (v * 16 + x) s)"

definition validRune :: "int \<Rightarrow> bool" where
  "validRune r \<longleftrightarrow> (0 \<le> r \<and> r < 55296) \<or> (57343 < r \<and> r \<le> 1114111)"

definition octal :: "char \<Rightarrow> bool" where
  "octal c \<longleftrightarrow> 48 \<le> byteOf c \<and> byteOf c \<le> 55"

definition simpleEscape :: "char \<Rightarrow> int option" where
  "simpleEscape c = map_of
     [(CHR ''a'', 7), (CHR ''b'', 8), (CHR ''f'', 12), (CHR ''n'', 10), (CHR ''r'', 13),
      (CHR ''t'', 9), (CHR ''v'', 11), (CHR 0x5C, 92), (CHR 0x22, 34)] c"

definition unquoteEscape :: "string \<Rightarrow> (int \<times> bool \<times> string) option" where
  "unquoteEscape s = (case s of
     [] \<Rightarrow> None
   | c # s' \<Rightarrow>
       (case simpleEscape c of
          Some v \<Rightarrow> Some (v, False, s')
        | None \<Rightarrow>
            if c = CHR ''x'' then
              (case hexDigits 2 0 s' of None \<Rightarrow> None | Some (v, r) \<Rightarrow> Some (v, False, r))
            else if c = CHR ''u'' \<or> c = CHR ''U'' then
              (case hexDigits (if c = CHR ''u'' then 4 else 8) 0 s' of None \<Rightarrow> None
               | Some (v, r) \<Rightarrow> if validRune v then Some (v, True, r) else None)
            else if octal c then
              (case s' of
                 d # e # r \<Rightarrow>
                   if octal d \<and> octal e then
                     let v = (digitVal c * 8 + digitVal d) * 8 + digitVal e
                     in if v > 255 then None else Some (v, False, r)
                   else None
               | _ \<Rightarrow> None)
            else None))"

definition UnquoteChar :: "string \<Rightarrow> (int \<times> bool \<times> string) option" where
  "UnquoteChar s = (case s of
     [] \<Rightarrow> None
   | c # s' \<Rightarrow>
       if c = CHR 0x22 then None
       else if byteOf c \<ge> 128 then
         (let (r, w) = decodeRune s in Some (r, True, drop w s))
       else if c \<noteq> CHR 0x5C then Some (byteOf c, False, s')
       else unquoteEscape s')"

lemma hexDigits_length: "hexDigits n v s = Some (x, r) \<Longrightarrow> length r \<le> length s"
  by (induction n v s rule: hexDigits.induct) (auto split: option.splits)

lemma unquoteEscape_length: "unquoteEscape s = Some (v, m, r) \<Longrightarrow> length r < length s"
  by (auto simp: unquoteEscape_def Let_def less_Suc_eq_le split: list.splits option.splits if_splits
      dest!: hexDigits_length)

lemma decodeRune_width: "s \<noteq> [] \<Longrightarrow> snd (decodeRune s) > 0"
  by (auto simp: decodeRune_def Let_def split: list.splits)

lemma UnquoteChar_length: "UnquoteChar s = Some (v, m, r) \<Longrightarrow> length r < length s"
  using decodeRune_width [of s]
  by (auto simp: UnquoteChar_def split: list.splits if_splits prod.splits dest!: unquoteEscape_length)

text \<open>The bytes up to the closing quote, and the rest from that quote on.\<close>

function unquoteLoop :: "string \<Rightarrow> (string \<times> string) option" where
  "unquoteLoop s =
     (if s = [] \<or> hd s = CHR 0x22 then Some ([], s)
      else if hd s = LF then None
      else case UnquoteChar s of
        None \<Rightarrow> None
      | Some (r, multibyte, rest) \<Rightarrow>
          (case unquoteLoop rest of
             None \<Rightarrow> None
           | Some (buf, left) \<Rightarrow>
               Some ((if r < 128 \<or> \<not> multibyte then [char_of r] else encodeRune r) @ buf, left)))"
  by pat_completeness auto
termination
  by (relation "measure length") (auto dest: UnquoteChar_length)

declare unquoteLoop.simps [simp del]

definition Unquote :: "string \<Rightarrow> string option" where
  "Unquote s =
     (case s of
        c # s' \<Rightarrow>
          if c = CHR 0x22 \<and> length s \<ge> 2 then
            (case unquoteLoop s' of
               Some (buf, [q]) \<Rightarrow> if q = CHR 0x22 then Some buf else None
             | _ \<Rightarrow> None)
          else None
      | [] \<Rightarrow> None)"

section \<open>The target of a file section\<close>

definition beforeTab :: "string \<Rightarrow> string" where
  "beforeTab p = (case cutByte CHR 0x09 p of Some (a, _) \<Rightarrow> a | None \<Rightarrow> p)"

definition targetPath :: "string \<Rightarrow> string" where
  "targetPath l =
     (let p = trimPrefix l ''+++ '';
          p = beforeTab p;
          p = trimSpace p;
          p = (if hasPrefix p [CHR 0x22]
               then (case Unquote p of Some uq \<Rightarrow> uq | None \<Rightarrow> trimSet {CHR 0x22} p)
               else p)
      in if p = ''/dev/null'' then [] else trimPrefix p ''b/'')"

section \<open>The hunk header\<close>

text \<open>
  The groups of \<open>^@@ -\d+(?:,(\d+))? \+(\d+)(?:,(\d+))? @@\<close>. A digit cannot follow where the
  expression leaves a run of digits, so the longest run is the only one that can match.
\<close>

definition spanDigits :: "string \<Rightarrow> string \<times> string" where
  "spanDigits s = (takeWhile isDigit s, dropWhile isDigit s)"

text \<open>\<open>(?:,(\d+))?\<close>: the digits, empty when the group does not match, and the rest.\<close>

definition optCount :: "string \<Rightarrow> string \<times> string" where
  "optCount s = (case s of
     [] \<Rightarrow> ([], [])
   | c # s' \<Rightarrow> if c = CHR '','' \<and> fst (spanDigits s') \<noteq> [] then spanDigits s' else ([], s))"

definition hunkRe :: "string \<Rightarrow> (string \<times> string \<times> string) option" where
  "hunkRe l =
     (case cutPrefix l ''@@ -'' of None \<Rightarrow> None | Some s \<Rightarrow>
        let (oldStart, s) = spanDigits s; (m1, s) = optCount s
        in if oldStart = [] then None
           else case cutPrefix s '' +'' of None \<Rightarrow> None | Some s \<Rightarrow>
             let (m2, s) = spanDigits s; (m3, s) = optCount s
             in if m2 = [] \<or> \<not> hasPrefix s '' @@'' then None else Some (m1, m2, m3))"

definition hunkCount :: "string \<Rightarrow> int" where
  "hunkCount s = (if s = [] then 1 else case atoi s of Some n \<Rightarrow> n | None \<Rightarrow> 1)"

section \<open>ParseUnifiedDiff\<close>

datatype diffError = DiffMalformedHunk int string | DiffTooLong

record diffState =
  added :: "(string, int list) gomap"
  dFile :: string
  dLine :: int
  oldRem :: int
  newRem :: int
  lineNo :: int

definition appendAdded :: "string \<Rightarrow> int \<Rightarrow> (string, int list) gomap \<Rightarrow> (string, int list) gomap" where
  "appendAdded f l m = AList.update f ((case map_of m f of Some ls \<Rightarrow> ls | None \<Rightarrow> []) @ [l]) m"

definition hunkLine :: "diffState \<Rightarrow> string \<Rightarrow> diffState" where
  "hunkLine st l =
     (if hasPrefix l ''+'' then
        st\<lparr>added := (if dFile st \<noteq> [] then appendAdded (dFile st) (dLine st) (added st) else added st),
           dLine := add64 (dLine st) 1, newRem := newRem st - 1\<rparr>
      else if hasPrefix l ''-'' then st\<lparr>oldRem := oldRem st - 1\<rparr>
      else if hasPrefix l [CHR 0x5C] then st
      else st\<lparr>dLine := add64 (dLine st) 1, oldRem := oldRem st - 1, newRem := newRem st - 1\<rparr>)"

definition headerLine :: "diffState \<Rightarrow> string \<Rightarrow> diffError + diffState" where
  "headerLine st l =
     (if hasPrefix l ''diff '' then Inr (st\<lparr>dFile := []\<rparr>)
      else if hasPrefix l ''+++ '' then Inr (st\<lparr>dFile := targetPath l\<rparr>)
      else if hasPrefix l ''@@'' then
        (case hunkRe l of
           None \<Rightarrow> Inl (DiffMalformedHunk (lineNo st) l)
         | Some (m1, m2, m3) \<Rightarrow>
             (case atoi m2 of
                None \<Rightarrow> Inl (DiffMalformedHunk (lineNo st) l)
              | Some start \<Rightarrow>
                  Inr (st\<lparr>dLine := start, oldRem := hunkCount m1, newRem := hunkCount m3\<rparr>)))
      else Inr st)"

definition diffLine :: "diffState \<Rightarrow> string \<Rightarrow> diffError + diffState" where
  "diffLine st0 l =
     (let st = st0\<lparr>lineNo := lineNo st0 + 1\<rparr>
      in if oldRem st > 0 \<or> newRem st > 0 then Inr (hunkLine st l) else headerLine st l)"

fun diffLoop :: "diffState \<Rightarrow> string list \<Rightarrow> diffError + diffState" where
  "diffLoop st [] = Inr st"
| "diffLoop st (l # ls) =
     (case diffLine st l of Inl e \<Rightarrow> Inl e | Inr st' \<Rightarrow> diffLoop st' ls)"

definition diffStart :: diffState where
  "diffStart = \<lparr>added = [], dFile = [], dLine = 0, oldRem = 0, newRem = 0, lineNo = 0\<rparr>"

definition ParseUnifiedDiff :: "string \<Rightarrow> diffError + (string, int list) gomap" where
  "ParseUnifiedDiff r =
     (let (ls, tooLong) = scanLines 4194304 r
      in case diffLoop diffStart ls of
           Inl e \<Rightarrow> Inl e
         | Inr st \<Rightarrow> if tooLong then Inl DiffTooLong
                    else Inr (map (\<lambda>(f, lines). (f, sort lines)) (added st)))"

section \<open>The paths git writes\<close>

text \<open>
  Git writes \<open>+++ b/path\<close>, with a TAB behind a path that has a space, and quotes a path with
  bytes outside printable ASCII, quotes or backslashes.
\<close>

definition gitEscape :: "char \<Rightarrow> string" where
  "gitEscape c =
     (case map_of [(CHR 0x07, CHR ''a''), (CHR 0x08, CHR ''b''), (CHR 0x09, CHR ''t''), (CHR 0x0A, CHR ''n''),
        (CHR 0x0B, CHR ''v''), (CHR 0x0C, CHR ''f''), (CHR 0x0D, CHR ''r''), (CHR 0x22, CHR 0x22),
        (CHR 0x5C, CHR 0x5C)] c of
        Some e \<Rightarrow> [CHR 0x5C, e]
      | None \<Rightarrow>
          if 32 \<le> byteOf c \<and> byteOf c < 127 then [c]
          else [CHR 0x5C, digitChar (byteOf c div 64), digitChar (byteOf c div 8 mod 8), digitChar (byteOf c mod 8)])"

definition gitQuote :: "string \<Rightarrow> string" where
  "gitQuote p = concat (map gitEscape p)"

definition plainPath :: "string \<Rightarrow> bool" where
  "plainPath p \<longleftrightarrow> list_all (\<lambda>c. gitEscape c = [c]) p"

definition gitTarget :: "string \<Rightarrow> string" where
  "gitTarget p =
     (if plainPath p then ''+++ b/'' @ p @ (if CHR '' '' \<in> set p then [CHR 0x09] else [])
      else ''+++ '' @ [CHR 0x22] @ ''b/'' @ gitQuote p @ [CHR 0x22])"

lemma octal_digit:
  assumes "0 \<le> d" and "d < 8"
  shows "octal (digitChar d)" and "digitVal (digitChar d) = d" and "simpleEscape (digitChar d) = None"
    and "digitChar d \<noteq> CHR ''x''" and "digitChar d \<noteq> CHR ''u''" and "digitChar d \<noteq> CHR ''U''"
proof -
  have b: "byteOf (digitChar d) = 48 + d" using assms byteOf_digitChar by simp
  then show "octal (digitChar d)" "digitVal (digitChar d) = d" using assms by (simp_all add: octal_def digitVal_def)
  have "digitChar d \<noteq> c" if "byteOf c < 48 \<or> 55 < byteOf c" for c
    using b that assms by auto
  then show "digitChar d \<noteq> CHR ''x''" "digitChar d \<noteq> CHR ''u''" "digitChar d \<noteq> CHR ''U''"
    "simpleEscape (digitChar d) = None"
    by (simp_all add: simpleEscape_def)
qed

lemma byteOf_range: "0 \<le> byteOf c" "byteOf c < 256"
  using of_char_mod_256 [of c, where ?'a = int] pos_mod_bound [of 256 "byteOf c"] pos_mod_sign [of 256 "byteOf c"]
  by simp_all

lemma octal_parts:
  fixes b :: int
  assumes "0 \<le> b" and "b < 256"
  shows "0 \<le> b div 64" "b div 64 < 8" "0 \<le> b div 8 mod 8" "b div 8 mod 8 < 8" "0 \<le> b mod 8" "b mod 8 < 8"
    "64 * (b div 64) + b div 8 mod 8 * 8 + b mod 8 = b"
proof -
  have "b div 64 = b div 8 div 8" by (simp flip: div_mult2_eq)
  then show "64 * (b div 64) + b div 8 mod 8 * 8 + b mod 8 = b"
    using div_mult_mod_eq [of "b div 8" 8] div_mult_mod_eq [of b 8] by linarith
qed (use assms in auto)

lemma UnquoteChar_gitEscape: "UnquoteChar (gitEscape c @ s) = Some (byteOf c, False, s)"
proof (cases "c \<in> {CHR 0x07, CHR 0x08, CHR 0x09, CHR 0x0A, CHR 0x0B, CHR 0x0C, CHR 0x0D, CHR 0x22, CHR 0x5C}")
  case True
  then show ?thesis by (auto simp: gitEscape_def UnquoteChar_def unquoteEscape_def simpleEscape_def)
next
  case False
  then have n: "map_of [(CHR 0x07, CHR ''a''), (CHR 0x08, CHR ''b''), (CHR 0x09, CHR ''t''), (CHR 0x0A, CHR ''n''),
        (CHR 0x0B, CHR ''v''), (CHR 0x0C, CHR ''f''), (CHR 0x0D, CHR ''r''), (CHR 0x22, CHR 0x22),
        (CHR 0x5C, CHR 0x5C)] c = None" by simp
  show ?thesis
  proof (cases "32 \<le> byteOf c \<and> byteOf c < 127")
    case True
    then have "gitEscape c = [c]" unfolding gitEscape_def n by simp
    then show ?thesis using False True by (simp add: UnquoteChar_def)
  next
    case not: False
    let ?b = "byteOf c"
    note d = octal_parts [OF byteOf_range [of c]]
    have "unquoteEscape (digitChar (?b div 64) # digitChar (?b div 8 mod 8) # digitChar (?b mod 8) # s)
        = Some (?b, False, s)"
      unfolding unquoteEscape_def using byteOf_range [of c]
      by (simp add: octal_digit [OF d(1,2)] octal_digit [OF d(3,4)] octal_digit [OF d(5,6)] d(7))
    moreover have "gitEscape c
        = [CHR 0x5C, digitChar (?b div 64), digitChar (?b div 8 mod 8), digitChar (?b mod 8)]"
      using not unfolding gitEscape_def n by simp
    ultimately show ?thesis by (simp add: UnquoteChar_def)
  qed
qed

lemma gitEscape_hd: "gitEscape c \<noteq> [] \<and> hd (gitEscape c) \<noteq> CHR 0x22 \<and> hd (gitEscape c) \<noteq> LF"
  by (auto simp: gitEscape_def split: if_splits option.splits)

lemma unquoteLoop_gitQuote:
  "unquoteLoop (gitQuote p @ CHR 0x22 # s) = Some (p, CHR 0x22 # s)"
proof (induction p)
  case Nil
  then show ?case by (subst unquoteLoop.simps) (simp add: gitQuote_def)
next
  case (Cons c p)
  have "gitQuote (c # p) @ CHR 0x22 # s = gitEscape c @ (gitQuote p @ CHR 0x22 # s)" (is "?l = _")
    by (simp add: gitQuote_def)
  then have "UnquoteChar ?l = Some (byteOf c, False, gitQuote p @ CHR 0x22 # s)"
    "?l \<noteq> []" "hd ?l \<noteq> CHR 0x22" "hd ?l \<noteq> LF"
    using gitEscape_hd [of c] UnquoteChar_gitEscape by simp_all
  then show ?case using Cons.IH by (subst unquoteLoop.simps) simp
qed

lemma Unquote_gitQuote: "Unquote (CHR 0x22 # gitQuote p @ [CHR 0x22]) = Some p"
  by (simp add: Unquote_def unquoteLoop_gitQuote)

lemma gitEscape_bytes: "x \<in> set (gitEscape c) \<Longrightarrow> 32 \<le> byteOf x \<and> byteOf x < 127"
proof -
  have d: "32 \<le> byteOf (digitChar d) \<and> byteOf (digitChar d) < 127" if "0 \<le> d" "d < 8" for d
    using byteOf_digitChar [of d] that by simp
  have "0 \<le> byteOf c div 64" "byteOf c div 64 < 8" using byteOf_range [of c] by auto
  then show "x \<in> set (gitEscape c) \<Longrightarrow> ?thesis"
    by (auto simp: gitEscape_def d split: if_splits)
qed

lemma plainPath_bytes: "plainPath p \<Longrightarrow> c \<in> set p \<Longrightarrow> 32 \<le> byteOf c \<and> byteOf c < 127 \<and> c \<noteq> CHR 0x22"
proof -
  assume "plainPath p" "c \<in> set p"
  then have e: "gitEscape c = [c]" by (auto simp: plainPath_def list_all_iff)
  then show ?thesis using gitEscape_bytes [of c c] gitEscape_hd [of c] by auto
qed

definition wfPath :: "string \<Rightarrow> bool" where
  "wfPath p \<longleftrightarrow> p \<noteq> [] \<and> (plainPath p \<longrightarrow> last p \<noteq> CHR '' '')"

lemma targetPath_tight:
  assumes "beforeTab (trimPrefix l ''+++ '') = p" and "tight p"
  shows "targetPath l =
    (let q = (if hasPrefix p [CHR 0x22] then (case Unquote p of Some uq \<Rightarrow> uq | None \<Rightarrow> trimSet {CHR 0x22} p) else p)
     in if q = ''/dev/null'' then [] else trimPrefix q ''b/'')"
  using assms by (simp only: targetPath_def Let_def trimSpace_tight)

lemma targetPath_gitTarget:
  assumes "wfPath p"
  shows "targetPath (gitTarget p) = p"
proof (cases "plainPath p")
  case True
  note b = plainPath_bytes [OF True]
  have last: "last p \<noteq> CHR '' ''" "p \<noteq> []" using assms True by (auto simp: wfPath_def)
  have "CHR 0x09 \<notin> set (''b/'' @ p)" using b [of "CHR 0x09"] by auto
  then have cut: "beforeTab (''b/'' @ p) = ''b/'' @ p" "beforeTab (''b/'' @ p @ [CHR 0x09]) = ''b/'' @ p"
    using cutByte_append [of "CHR 0x09" "''b/'' @ p" "[]"] cutByte_None [of "CHR 0x09" "''b/'' @ p"]
    by (simp_all add: beforeTab_def)
  have "trimPrefix (gitTarget p) ''+++ '' = ''b/'' @ p @ (if CHR '' '' \<in> set p then [CHR 0x09] else [])"
    using True trimPrefix_append [of "''+++ ''"] by (simp add: gitTarget_def)
  then have pre: "beforeTab (trimPrefix (gitTarget p) ''+++ '') = ''b/'' @ p"
    using cut by (cases "CHR '' '' \<in> set p") simp_all
  have "tight (''b/'' @ p)"
  proof (rule ascii_tight)
    have "last p \<in> set p" using last by simp
    then have "byteOf (last p) \<noteq> 32" "32 \<le> byteOf (last p)" "byteOf (last p) < 127"
      using b [of "last p"] last(1) by (auto simp: of_char_eq_iff [of _ "CHR '' ''", simplified])
    then show "\<forall>c \<in> {hd (''b/'' @ p), last (''b/'' @ p)}. \<not> asciiSpace c \<and> byteOf c < 128"
      using last(2) by (auto simp: asciiSpace_def)
  qed simp
  then show ?thesis using targetPath_tight [OF pre] trimPrefix_append [of "''b/''" p] by simp
next
  case False
  let ?q = "[CHR 0x22] @ ''b/'' @ gitQuote p @ [CHR 0x22]"
  have "CHR 0x09 \<notin> set (gitQuote p)" using gitEscape_bytes [of "CHR 0x09"] by (auto simp: gitQuote_def)
  then have "cutByte CHR 0x09 ?q = None" by (subst cutByte_None) auto
  moreover have "trimPrefix (gitTarget p) ''+++ '' = ?q"
    using False trimPrefix_append [of "''+++ ''" ?q] by (simp add: gitTarget_def)
  ultimately have pre: "beforeTab (trimPrefix (gitTarget p) ''+++ '') = ?q" by (simp add: beforeTab_def)
  have tight: "tight ?q" by (rule ascii_tight) (auto simp: asciiSpace_def)
  have "?q = CHR 0x22 # gitQuote (''b/'' @ p) @ [CHR 0x22]"
    by (simp add: gitQuote_def gitEscape_def)
  then have "Unquote ?q = Some (''b/'' @ p)" by (metis Unquote_gitQuote)
  then show ?thesis using targetPath_tight [OF pre tight] trimPrefix_append [of "''b/''" p] by simp
qed

section \<open>The diffs git writes\<close>

text \<open>
  A file's section: its metadata lines, the target, and the hunks. The text of a context, removed
  or added line is arbitrary but for the line feed that ends it, so it may look like a header.
\<close>

datatype hunkItem = Ctx string | Rem string | Add string | NoNewline

record hunk =
  hOldStart :: int
  hNewStart :: int
  hSection :: string
  hItems :: "hunkItem list"

datatype fileTarget = NoContent | Deleted | Target string

record fileSection =
  sMeta :: "string list"
  sTarget :: fileTarget
  sHunks :: "hunk list"

fun itemLine :: "hunkItem \<Rightarrow> string" where
  "itemLine (Ctx s) = CHR '' '' # s"
| "itemLine (Rem s) = CHR ''-'' # s"
| "itemLine (Add s) = CHR ''+'' # s"
| "itemLine NoNewline = CHR 0x5C # '' No newline at end of file''"

fun oldCount :: "hunkItem list \<Rightarrow> int" where
  "oldCount [] = 0"
| "oldCount (Ctx _ # is) = oldCount is + 1"
| "oldCount (Rem _ # is) = oldCount is + 1"
| "oldCount (_ # is) = oldCount is"

fun newCount :: "hunkItem list \<Rightarrow> int" where
  "newCount [] = 0"
| "newCount (Ctx _ # is) = newCount is + 1"
| "newCount (Add _ # is) = newCount is + 1"
| "newCount (_ # is) = newCount is"

text \<open>The numbers of the added lines, from the new file's line \<open>l\<close> on.\<close>

fun addedLines :: "int \<Rightarrow> hunkItem list \<Rightarrow> int list" where
  "addedLines l [] = []"
| "addedLines l (Ctx _ # is) = addedLines (l + 1) is"
| "addedLines l (Add _ # is) = l # addedLines (l + 1) is"
| "addedLines l (_ # is) = addedLines l is"

definition countText :: "int \<Rightarrow> string" where
  "countText n = (if n = 1 then [] else CHR '','' # itoa n)"

definition hunkHeader :: "hunk \<Rightarrow> string" where
  "hunkHeader h = ''@@ -'' @ itoa (hOldStart h) @ countText (oldCount (hItems h))
     @ '' +'' @ itoa (hNewStart h) @ countText (newCount (hItems h)) @ '' @@'' @ hSection h"

definition hunkLines :: "hunk \<Rightarrow> string list" where
  "hunkLines h = hunkHeader h # map itemLine (hItems h)"

definition targetLines :: "fileTarget \<Rightarrow> string list" where
  "targetLines t = (case t of NoContent \<Rightarrow> [] | Deleted \<Rightarrow> [''+++ /dev/null''] | Target p \<Rightarrow> [gitTarget p])"

definition sectionLines :: "fileSection \<Rightarrow> string list" where
  "sectionLines f = sMeta f @ targetLines (sTarget f) @ concat (map hunkLines (sHunks f))"

definition diffLines :: "fileSection list \<Rightarrow> string list" where
  "diffLines fs = concat (map sectionLines fs)"

definition diffText :: "fileSection list \<Rightarrow> string" where
  "diffText fs = concat (map (\<lambda>l. l @ [LF]) (diffLines fs))"

definition hunkAdded :: "hunk \<Rightarrow> int list" where
  "hunkAdded h = addedLines (hNewStart h) (hItems h)"

definition sectionAdded :: "fileSection \<Rightarrow> (string \<times> int) list" where
  "sectionAdded f = (case sTarget f of
     Target p \<Rightarrow> map (Pair p) (concat (map hunkAdded (sHunks f))) | _ \<Rightarrow> [])"

text \<open>What the diff adds to the file at a path.\<close>

definition addedTo :: "fileSection list \<Rightarrow> string \<Rightarrow> int list" where
  "addedTo fs p = concat (map (\<lambda>f. if sTarget f = Target p then concat (map hunkAdded (sHunks f)) else []) fs)"

definition wfHunk :: "hunk \<Rightarrow> bool" where
  "wfHunk h \<longleftrightarrow> 0 \<le> hOldStart h \<and> hOldStart h \<le> maxInt64 \<and> 0 \<le> hNewStart h
     \<and> oldCount (hItems h) \<le> maxInt64 \<and> hNewStart h + newCount (hItems h) \<le> maxInt64"

definition wfSection :: "fileSection \<Rightarrow> bool" where
  "wfSection f \<longleftrightarrow> list_all (\<lambda>m. \<not> hasPrefix m ''+++ '' \<and> \<not> hasPrefix m ''@@'') (sMeta f)
     \<and> (case sTarget f of NoContent \<Rightarrow> sHunks f = [] | Deleted \<Rightarrow> True | Target p \<Rightarrow> wfPath p)
     \<and> list_all wfHunk (sHunks f)"

definition wfDiff :: "fileSection list \<Rightarrow> bool" where
  "wfDiff fs \<longleftrightarrow> list_all wfSection fs
     \<and> list_all (\<lambda>l. LF \<notin> set l \<and> int (length l) < 4194304) (diffLines fs)"

section \<open>Reading one back\<close>

lemma counts_nonneg: "0 \<le> oldCount is" "0 \<le> newCount is"
  by (induction "is" rule: oldCount.induct) simp_all

lemma dropCR_prefix: "hasPrefix (dropCR s) p \<Longrightarrow> hasPrefix s p"
  by (cases s rule: rev_cases) (auto simp: dropCR_def hasPrefix_iff split: if_splits)

lemma dropCR_append: "p \<noteq> [] \<Longrightarrow> last p \<noteq> CHR 0x0D \<Longrightarrow> dropCR (p @ s) = p @ dropCR s"
  by (cases s rule: rev_cases) (auto simp: dropCR_def butlast_append)

lemma dropCR_Cons: "c \<noteq> CHR 0x0D \<Longrightarrow> dropCR (c # s) = c # dropCR s"
  using dropCR_append [of "[c]" s] by simp

lemma digitsOf_digits: "0 \<le> n \<Longrightarrow> list_all isDigit (itoa n)"
  using digitsOf_correct [of n] by (simp add: itoa_def)

lemma spanDigits_itoa:
  assumes "0 \<le> n" and "r = [] \<or> \<not> isDigit (hd r)"
  shows "spanDigits (itoa n @ r) = (itoa n, r)"
proof -
  have "\<forall>c \<in> set (itoa n). isDigit c" using digitsOf_digits [OF assms(1)] by (simp add: list_all_iff)
  then show ?thesis using assms(2) by (cases r) (auto simp: spanDigits_def takeWhile_append dropWhile_append)
qed

lemma optCount_countText:
  assumes "0 \<le> n" and "r \<noteq> []" and "hd r = CHR '' ''"
  shows "optCount (countText n @ r) = (if n = 1 then [] else itoa n, r)"
proof -
  have r: "\<not> isDigit (hd r)" using assms(3) by (simp add: isDigit_def)
  then show ?thesis using assms spanDigits_itoa [OF assms(1), of r]
    by (cases r) (auto simp: countText_def optCount_def)
qed

lemma hunkCount_countText: "0 \<le> n \<Longrightarrow> n \<le> maxInt64 \<Longrightarrow> hunkCount (if n = 1 then [] else itoa n) = n"
  by (simp add: hunkCount_def atoi_itoa inInt64_def minInt64_def)

lemma hunkRe_header:
  assumes "wfHunk h"
  shows "hunkRe (''@@ -'' @ itoa (hOldStart h) @ countText (oldCount (hItems h))
     @ '' +'' @ itoa (hNewStart h) @ countText (newCount (hItems h)) @ '' @@'' @ sec)
   = Some (if oldCount (hItems h) = 1 then [] else itoa (oldCount (hItems h)), itoa (hNewStart h),
           if newCount (hItems h) = 1 then [] else itoa (newCount (hItems h)))"
proof -
  have n: "0 \<le> hOldStart h" "0 \<le> hNewStart h" using assms by (auto simp: wfHunk_def)
  note c = counts_nonneg [of "hItems h"]
  have nd: "\<not> isDigit (CHR '' '')" "\<not> isDigit (CHR '','')" by (simp_all add: isDigit_def)
  let ?t2 = "countText (newCount (hItems h)) @ '' @@'' @ sec"
  let ?t1 = "'' +'' @ itoa (hNewStart h) @ ?t2"
  have hd: "countText k @ CHR '' '' # x = [] \<or> \<not> isDigit (hd (countText k @ CHR '' '' # x))" for k x
    using nd by (simp add: countText_def)
  have "spanDigits (itoa (hOldStart h) @ countText (oldCount (hItems h)) @ ?t1)
      = (itoa (hOldStart h), countText (oldCount (hItems h)) @ ?t1)"
    using n hd by (intro spanDigits_itoa) simp_all
  moreover have "optCount (countText (oldCount (hItems h)) @ ?t1)
      = (if oldCount (hItems h) = 1 then [] else itoa (oldCount (hItems h)), ?t1)"
    using c by (intro optCount_countText) simp_all
  moreover have "cutPrefix ?t1 '' +'' = Some (itoa (hNewStart h) @ ?t2)"
    by (simp add: cutPrefix_def)
  moreover have "spanDigits (itoa (hNewStart h) @ ?t2) = (itoa (hNewStart h), ?t2)"
    using n hd by (intro spanDigits_itoa) simp_all
  moreover have "optCount ?t2 = (if newCount (hItems h) = 1 then [] else itoa (newCount (hItems h)), '' @@'' @ sec)"
    using c by (intro optCount_countText) simp_all
  moreover have "cutPrefix (''@@ -'' @ itoa (hOldStart h) @ countText (oldCount (hItems h)) @ ?t1) ''@@ -''
      = Some (itoa (hOldStart h) @ countText (oldCount (hItems h)) @ ?t1)"
    by (simp add: cutPrefix_def)
  ultimately show ?thesis unfolding hunkRe_def by (simp only: option.case Let_def prod.case) simp
qed

definition addPairs :: "(string, int list) gomap \<Rightarrow> (string \<times> int) list \<Rightarrow> (string, int list) gomap" where
  "addPairs m ps = foldl (\<lambda>m (f, l). appendAdded f l m) m ps"

lemma addPairs_simps [simp]:
  "addPairs m [] = m" "addPairs m ((f, l) # ps) = addPairs (appendAdded f l m) ps"
  "addPairs m (ps @ qs) = addPairs (addPairs m ps) qs"
  by (simp_all add: addPairs_def)

definition filePairs :: "string \<Rightarrow> int list \<Rightarrow> (string \<times> int) list" where
  "filePairs f ls = (if f = [] then [] else map (Pair f) ls)"

lemma filePairs_simps [simp]:
  "filePairs f [] = []" "f \<noteq> [] \<Longrightarrow> filePairs f (l # ls) = (f, l) # filePairs f ls" "filePairs [] ls = []"
  "filePairs f (ls @ ks) = filePairs f ls @ filePairs f ks"
  by (simp_all add: filePairs_def)

text \<open>Between hunks nothing remains; a state is compared up to its line counters.\<close>

definition between :: "diffState \<Rightarrow> string \<Rightarrow> (string, int list) gomap \<Rightarrow> bool" where
  "between st f m \<longleftrightarrow> oldRem st = 0 \<and> newRem st = 0 \<and> dFile st = f \<and> added st = m"

lemma diffLoop_items:
  assumes "oldRem st = oldCount is" and "newRem st = newCount is" and "0 \<le> dLine st"
    and "dLine st + newCount is \<le> maxInt64"
  shows "\<exists>st'. diffLoop st (map (\<lambda>i. dropCR (itemLine i)) is @ rest) = diffLoop st' rest
    \<and> between st' (dFile st) (addPairs (added st) (filePairs (dFile st) (addedLines (dLine st) is)))"
  using assms
proof (induction "is" arbitrary: st)
  case Nil
  then show ?case by (auto simp: between_def)
next
  case (Cons i "is")
  note c = counts_nonneg [of "is"]
  have step: "\<exists>st'. diffLoop st (map (\<lambda>i. dropCR (itemLine i)) (i # is) @ rest) = diffLoop st' rest
      \<and> between st' (dFile st1) (addPairs (added st1) (filePairs (dFile st1) (addedLines (dLine st1) is)))"
    if "diffLine st (dropCR (itemLine i)) = Inr st1" "oldRem st1 = oldCount is" "newRem st1 = newCount is"
      "0 \<le> dLine st1" "dLine st1 + newCount is \<le> maxInt64" for st1
    using Cons.IH [OF that(2-5)] that(1) by simp
  show ?case
  proof (cases i)
    case (Ctx x)
    have "add64 (dLine st) 1 = dLine st + 1" using Cons.prems c by (intro add64_succ) (simp_all add: Ctx)
    then show ?thesis using Cons.prems c
      step [of "st\<lparr>dLine := dLine st + 1, oldRem := oldRem st - 1, newRem := newRem st - 1, lineNo := lineNo st + 1\<rparr>"]
      by (simp add: Ctx diffLine_def hunkLine_def dropCR_Cons Let_def)
  next
    case (Rem x)
    then show ?thesis using Cons.prems c step [of "st\<lparr>oldRem := oldRem st - 1, lineNo := lineNo st + 1\<rparr>"]
      by (simp add: diffLine_def hunkLine_def dropCR_Cons Let_def)
  next
    case (Add x)
    have "add64 (dLine st) 1 = dLine st + 1" using Cons.prems c by (intro add64_succ) (simp_all add: Add)
    then show ?thesis using Cons.prems c
      step [of "st\<lparr>added := (if dFile st \<noteq> [] then appendAdded (dFile st) (dLine st) (added st) else added st),
           dLine := dLine st + 1, newRem := newRem st - 1, lineNo := lineNo st + 1\<rparr>"]
      by (cases "dFile st = []") (simp_all add: Add diffLine_def hunkLine_def dropCR_Cons Let_def)
  next
    case NoNewline
    have "dropCR (itemLine NoNewline) = itemLine NoNewline" by (simp add: dropCR_def)
    then show ?thesis using Cons.prems c step [of "st\<lparr>lineNo := lineNo st + 1\<rparr>"]
      by (simp add: NoNewline diffLine_def hunkLine_def headerLine_def Let_def)
  qed
qed

lemma diffLoop_hunk:
  assumes "wfHunk h" and "between st f m"
  shows "\<exists>st'. diffLoop st (map dropCR (hunkLines h) @ rest) = diffLoop st' rest
    \<and> between st' f (addPairs m (filePairs f (hunkAdded h)))"
proof -
  let ?items = "hItems h"
  define hdr where "hdr = ''@@ -'' @ itoa (hOldStart h) @ countText (oldCount ?items)
     @ '' +'' @ itoa (hNewStart h) @ countText (newCount ?items) @ '' @@''"
  have cr: "dropCR (hunkHeader h) = hdr @ dropCR (hSection h)"
    using dropCR_append [of hdr "hSection h"] by (simp add: hunkHeader_def hdr_def)
  have re: "hunkRe (hdr @ dropCR (hSection h)) = Some (if oldCount ?items = 1 then [] else itoa (oldCount ?items),
      itoa (hNewStart h), if newCount ?items = 1 then [] else itoa (newCount ?items))"
    using hunkRe_header [OF assms(1)] by (simp add: hdr_def)
  have n: "0 \<le> hNewStart h" "hNewStart h + newCount ?items \<le> maxInt64" "oldCount ?items \<le> maxInt64"
    "inInt64 (hNewStart h)" "newCount ?items \<le> maxInt64"
    using assms(1) counts_nonneg [of ?items] by (auto simp: wfHunk_def inInt64_def minInt64_def)
  let ?st = "st\<lparr>lineNo := lineNo st + 1, dLine := hNewStart h, oldRem := oldCount ?items, newRem := newCount ?items\<rparr>"
  have "diffLine st (hdr @ dropCR (hSection h)) = Inr ?st"
  proof -
    have "hasPrefix (hdr @ x) ''@@''" "\<not> hasPrefix (hdr @ x) ''diff ''" "\<not> hasPrefix (hdr @ x) ''+++ ''" for x
      by (simp_all add: hdr_def)
    then show ?thesis using assms(2) n counts_nonneg [of ?items]
      by (simp add: diffLine_def headerLine_def between_def re atoi_itoa hunkCount_countText Let_def)
  qed
  moreover obtain st' where "diffLoop ?st (map (\<lambda>i. dropCR (itemLine i)) ?items @ rest) = diffLoop st' rest"
    "between st' (dFile ?st) (addPairs (added ?st) (filePairs (dFile ?st) (addedLines (dLine ?st) ?items)))"
    using diffLoop_items [of ?st ?items rest] n by auto
  ultimately show ?thesis using assms(2)
    by (intro exI [of _ st']) (simp add: hunkLines_def cr between_def hunkAdded_def comp_def)
qed

lemma diffLoop_hunks:
  assumes "list_all wfHunk hs" and "between st f m"
  shows "\<exists>st'. diffLoop st (map dropCR (concat (map hunkLines hs)) @ rest) = diffLoop st' rest
    \<and> between st' f (addPairs m (filePairs f (concat (map hunkAdded hs))))"
  using assms
proof (induction hs arbitrary: st m)
  case (Cons h hs)
  obtain st1 where st1: "diffLoop st (map dropCR (hunkLines h) @ map dropCR (concat (map hunkLines hs)) @ rest)
      = diffLoop st1 (map dropCR (concat (map hunkLines hs)) @ rest)"
    "between st1 f (addPairs m (filePairs f (hunkAdded h)))"
    using diffLoop_hunk [of h st f m] Cons.prems by auto
  then show ?case using Cons.IH [OF _ st1(2)] Cons.prems(1) by auto
qed auto

lemma diffLoop_meta:
  assumes "list_all (\<lambda>m. \<not> hasPrefix m ''+++ '' \<and> \<not> hasPrefix m ''@@'') ms" and "between st f m"
  shows "\<exists>st' f'. diffLoop st (map dropCR ms @ rest) = diffLoop st' rest \<and> between st' f' m"
  using assms
proof (induction ms arbitrary: st f)
  case (Cons x ms)
  have "\<not> hasPrefix (dropCR x) ''+++ ''" "\<not> hasPrefix (dropCR x) ''@@''"
    using Cons.prems(1) dropCR_prefix by auto
  then have "\<exists>st1 f1. diffLine st (dropCR x) = Inr st1 \<and> between st1 f1 m"
    using Cons.prems(2)
    by (cases "hasPrefix (dropCR x) ''diff ''") (simp_all add: diffLine_def headerLine_def between_def Let_def)
  then obtain st1 f1 where "diffLine st (dropCR x) = Inr st1" "between st1 f1 m" by blast
  then show ?case using Cons.IH [of st1 f1] Cons.prems(1) by simp
qed auto

definition targetFile :: "fileTarget \<Rightarrow> string" where
  "targetFile t = (case t of Target p \<Rightarrow> p | _ \<Rightarrow> [])"

lemma dropCR_gitTarget: "dropCR (gitTarget p) = gitTarget p"
proof (cases "plainPath p")
  case True
  then have "CHR 0x0D \<notin> set p" using plainPath_bytes [OF True, of "CHR 0x0D"] by auto
  then have "CHR 0x0D \<notin> set (gitTarget p)" using True by (simp add: gitTarget_def)
  then show ?thesis unfolding dropCR_def by (metis last_in_set)
next
  case False
  then show ?thesis by (simp add: gitTarget_def dropCR_def)
qed

lemma gitTarget_prefix: "hasPrefix (gitTarget p) ''+++ ''"
  by (simp add: gitTarget_def)

lemma devNull_target: "targetPath ''+++ /dev/null'' = []"
  by code_simp

lemma diffLine_target:
  assumes "oldRem st = 0" and "newRem st = 0" and "hasPrefix l ''+++ ''"
  shows "diffLine st l = Inr (st\<lparr>lineNo := lineNo st + 1, dFile := targetPath l\<rparr>)"
proof -
  have "\<not> hasPrefix l ''diff ''" using assms(3) by (auto simp: hasPrefix_iff)
  then show ?thesis using assms by (simp add: diffLine_def headerLine_def Let_def)
qed

lemma diffLoop_target:
  assumes "case t of NoContent \<Rightarrow> True | Deleted \<Rightarrow> True | Target p \<Rightarrow> wfPath p" and "between st f m"
  shows "\<exists>st' f'. diffLoop st (map dropCR (targetLines t) @ rest) = diffLoop st' rest \<and> between st' f' m
    \<and> (t \<noteq> NoContent \<longrightarrow> f' = targetFile t)"
proof (cases t)
  case NoContent
  then show ?thesis using assms(2) by (auto simp: targetLines_def)
next
  case Deleted
  have "diffLine st ''+++ /dev/null'' = Inr (st\<lparr>lineNo := lineNo st + 1, dFile := targetPath ''+++ /dev/null''\<rparr>)"
    using assms(2) by (intro diffLine_target) (simp_all add: between_def)
  then show ?thesis using assms(2) devNull_target
    by (auto simp: Deleted targetLines_def targetFile_def dropCR_def between_def)
next
  case (Target p)
  have "diffLine st (gitTarget p) = Inr (st\<lparr>lineNo := lineNo st + 1, dFile := p\<rparr>)"
    using assms targetPath_gitTarget [of p] diffLine_target [OF _ _ gitTarget_prefix, of st p]
    by (simp add: between_def Target)
  then show ?thesis using assms(2)
    by (auto simp: Target targetLines_def targetFile_def dropCR_gitTarget between_def)
qed

lemma diffLoop_section:
  assumes "wfSection x" and "between st f m"
  shows "\<exists>st' f'. diffLoop st (map dropCR (sectionLines x) @ rest) = diffLoop st' rest
    \<and> between st' f' (addPairs m (sectionAdded x))"
proof -
  let ?h = "map dropCR (concat (map hunkLines (sHunks x)))"
  obtain st1 f1 where 1: "diffLoop st (map dropCR (sMeta x) @ map dropCR (targetLines (sTarget x)) @ ?h @ rest)
      = diffLoop st1 (map dropCR (targetLines (sTarget x)) @ ?h @ rest)" "between st1 f1 m"
    using diffLoop_meta [OF _ assms(2)] assms(1) unfolding wfSection_def by blast
  have t: "case sTarget x of NoContent \<Rightarrow> True | Deleted \<Rightarrow> True | Target p \<Rightarrow> wfPath p"
    using assms(1) by (auto simp: wfSection_def split: fileTarget.splits)
  obtain st2 f2 where 2: "diffLoop st1 (map dropCR (targetLines (sTarget x)) @ ?h @ rest) = diffLoop st2 (?h @ rest)"
    "between st2 f2 m" "sTarget x \<noteq> NoContent \<longrightarrow> f2 = targetFile (sTarget x)"
    using diffLoop_target [OF t 1(2)] by blast
  obtain st3 where 3: "diffLoop st2 (?h @ rest) = diffLoop st3 rest"
    "between st3 f2 (addPairs m (filePairs f2 (concat (map hunkAdded (sHunks x)))))"
    using diffLoop_hunks [OF _ 2(2)] assms(1) unfolding wfSection_def by blast
  have "filePairs f2 (concat (map hunkAdded (sHunks x))) = sectionAdded x"
    using 2(3) assms(1)
    by (cases "sTarget x") (auto simp: wfSection_def wfPath_def sectionAdded_def targetFile_def filePairs_def)
  then show ?thesis using 1 2 3 by (auto simp: sectionLines_def)
qed

lemma diffLoop_diff:
  assumes "list_all wfSection fs" and "between st f m"
  shows "\<exists>st'. diffLoop st (map dropCR (diffLines fs)) = Inr st'
    \<and> added st' = addPairs m (concat (map sectionAdded fs))"
  using assms
proof (induction fs arbitrary: st f m)
  case (Cons x fs)
  obtain st1 f1 where "diffLoop st (map dropCR (sectionLines x) @ map dropCR (diffLines fs))
      = diffLoop st1 (map dropCR (diffLines fs))" "between st1 f1 (addPairs m (sectionAdded x))"
    using diffLoop_section [OF _ Cons.prems(2)] Cons.prems(1) by fastforce
  then show ?case using Cons.IH [of st1 f1] Cons.prems(1) by (simp add: diffLines_def)
qed (auto simp: diffLines_def between_def)

lemma map_of_addPairs:
  "map_of (addPairs m ps) p =
     (let ls = map snd (filter (\<lambda>(f, _). f = p) ps)
      in if ls = [] then map_of m p else Some ((case map_of m p of Some ks \<Rightarrow> ks | None \<Rightarrow> []) @ ls))"
proof (induction ps arbitrary: m)
  case (Cons x ps)
  then show ?case
    by (cases x; cases "fst x = p") (auto simp: appendAdded_def Let_def split: option.splits)
qed simp

lemma wfMap_addPairs: "wfMap m \<Longrightarrow> wfMap (addPairs m ps)"
  by (induction ps arbitrary: m) (auto simp: appendAdded_def)

lemma sectionAdded_to:
  "map snd (filter (\<lambda>(f, _). f = p) (concat (map sectionAdded fs))) = addedTo fs p"
proof (induction fs)
  case (Cons x fs)
  have "map snd (filter (\<lambda>(f, _). f = p) (sectionAdded x))
      = (if sTarget x = Target p then concat (map hunkAdded (sHunks x)) else [])"
    by (cases "sTarget x") (auto simp: sectionAdded_def filter_map comp_def)
  then show ?case using Cons.IH by (simp add: addedTo_def)
qed (simp add: addedTo_def)

text \<open>
  C22: Reading a diff. Whatever files a diff names, deletes or only renames, and whatever its
  lines say (a removed line whose text makes it \<open>--- foo\<close>, an added one reading \<open>+++ bar\<close>, a
  context line that looks like a hunk header), \<open>ParseUnifiedDiff\<close> accepts the text git writes
  for it and maps each path, quoted or not, to the sorted numbers of the lines added to it: no
  other path has an entry, and no line of a hunk is taken for a header.
\<close>

theorem parse_diff_roundtrip:
  assumes "wfDiff fs"
  shows "\<exists>m. ParseUnifiedDiff (diffText fs) = Inr m \<and> wfMap m
    \<and> (\<forall>p. map_of m p = (if addedTo fs p = [] then None else Some (sort (addedTo fs p))))"
proof -
  have "scanLines 4194304 (diffText fs) = (map dropCR (diffLines fs), False)"
    unfolding diffText_def using assms by (intro scanLines_text) (simp add: wfDiff_def list_all_iff)
  moreover obtain st where st: "diffLoop diffStart (map dropCR (diffLines fs)) = Inr st"
    "added st = addPairs [] (concat (map sectionAdded fs))"
    using diffLoop_diff [of fs diffStart "[]" "[]"] assms by (auto simp: wfDiff_def between_def diffStart_def)
  ultimately have p: "ParseUnifiedDiff (diffText fs) = Inr (map (\<lambda>(f, lines). (f, sort lines)) (added st))"
    by (simp add: ParseUnifiedDiff_def)
  have "map_of (map (\<lambda>(f, lines). (f, sort lines)) (added st)) p
      = (if addedTo fs p = [] then None else Some (sort (addedTo fs p)))" for p
    using map_of_addPairs [of "[]" "concat (map sectionAdded fs)" p]
    unfolding st(2) map_of_map Let_def sectionAdded_to by simp
  moreover have "wfMap (map (\<lambda>(f, lines). (f, sort lines)) (added st))"
    using wfMap_addPairs [of "[]"] by (simp add: st(2) wfMap_def comp_def case_prod_beta)
  ultimately show ?thesis using p by blast
qed

theorem parse_diff_roundtrip_witness:
  "let fs = [\<lparr>sMeta = [''diff --git a/x.sql b/x.sql'', ''--- a/x.sql''], sTarget = Target ''x.sql'',
              sHunks = [\<lparr>hOldStart = 3, hNewStart = 3, hSection = [],
                hItems = [Ctx ''a'', Rem ''-- foo'', Add ''++ bar'', Add ''@@ -1 +1 @@'', NoNewline]\<rparr>]\<rparr>]
   in \<exists>m. ParseUnifiedDiff (diffText fs) = Inr m \<and> map_of m ''x.sql'' = Some [4, 5] \<and> map_of m ''bar'' = None"
proof -
  let ?fs = "[\<lparr>sMeta = [''diff --git a/x.sql b/x.sql'', ''--- a/x.sql''], sTarget = Target ''x.sql'',
              sHunks = [\<lparr>hOldStart = 3, hNewStart = 3, hSection = [],
                hItems = [Ctx ''a'', Rem ''-- foo'', Add ''++ bar'', Add ''@@ -1 +1 @@'', NoNewline]\<rparr>]\<rparr>]"
  have w: "wfDiff ?fs" by code_simp
  have a: "addedTo ?fs ''x.sql'' = [4, 5]" "addedTo ?fs ''bar'' = []" by code_simp+
  obtain m where m: "ParseUnifiedDiff (diffText ?fs) = Inr m"
    "\<forall>p. map_of m p = (if addedTo ?fs p = [] then None else Some (sort (addedTo ?fs p)))"
    using parse_diff_roundtrip [OF w] by blast
  have "map_of m ''x.sql'' = Some [4, 5]" "map_of m ''bar'' = None"
    using m(2) [rule_format, of "''x.sql''"] m(2) [rule_format, of "''bar''"] by (simp_all add: a)
  then show ?thesis using m(1) unfolding Let_def by blast
qed

end
