(* ===== verification/Spans.thy ===== *)
theory Spans
  imports LineHits
begin

text \<open>
  Line spans of \<open>internal/diffcov/diffcov.go\<close>: the rule by which a line is executable or
  covered, the merged spans of a file's blocks, their difference, intersection and membership
  test, and the runs of a list of lines. Each operation is related to the set of lines its
  arguments stand for.
\<close>

section \<open>Spans and the lines they stand for\<close>

record span =
  Start :: int
  End :: int

abbreviation mkSpan :: "int \<Rightarrow> int \<Rightarrow> span" where
  "mkSpan a b \<equiv> \<lparr>Start = a, End = b\<rparr>"

definition linesOf :: "span list \<Rightarrow> int set" where
  "linesOf ss = (\<Union>s \<in> set ss. {Start s..End s})"

text \<open>Sorted and merged: no span empty, and a gap between any two.\<close>

definition merged :: "span list \<Rightarrow> bool" where
  "merged ss \<longleftrightarrow> (\<forall>s \<in> set ss. Start s \<le> End s) \<and> sorted_wrt (\<lambda>s t. End s + 1 < Start t) ss"

text \<open>Line numbers of the program are positive and far from the ends of \<open>int\<close>.\<close>

definition inRange :: "span list \<Rightarrow> bool" where
  "inRange ss \<longleftrightarrow> (\<forall>s \<in> set ss. 0 \<le> Start s \<and> 0 \<le> End s \<and> End s < maxInt64)"

lemma linesOf_simps [simp]:
  "linesOf [] = {}" "linesOf (s # ss) = {Start s..End s} \<union> linesOf ss"
  "linesOf (ss @ ts) = linesOf ss \<union> linesOf ts"
  by (auto simp: linesOf_def)

lemma merged_simps [simp]:
  "merged []"
  "merged (s # ss) \<longleftrightarrow> Start s \<le> End s \<and> (\<forall>t \<in> set ss. End s + 1 < Start t) \<and> merged ss"
  by (auto simp: merged_def)

lemma merged_append:
  "merged (ss @ ts) \<longleftrightarrow> merged ss \<and> merged ts \<and> (\<forall>s \<in> set ss. \<forall>t \<in> set ts. End s + 1 < Start t)"
  by (induction ss) auto

lemma inRange_simps [simp]:
  "inRange []" "inRange (s # ss) \<longleftrightarrow> 0 \<le> Start s \<and> 0 \<le> End s \<and> End s < maxInt64 \<and> inRange ss"
  by (auto simp: inRange_def)

section \<open>Which blocks count\<close>

definition Statement :: "block \<Rightarrow> bool" where
  "Statement b \<longleftrightarrow> NumStmts b > 0"

definition Ran :: "block \<Rightarrow> bool" where
  "Ran b \<longleftrightarrow> NumStmts b > 0 \<and> Count b > 0"

section \<open>MergedSpans\<close>

text \<open>The loop over the sorted spans: widen the last merged span, or append the next.\<close>

definition joinSpan :: "span list \<Rightarrow> span \<Rightarrow> span list" where
  "joinSpan acc sp =
     (if acc \<noteq> [] \<and> Start sp \<le> add64 (End (last acc)) 1
      then butlast acc @ [(last acc)\<lparr>End := max (End (last acc)) (End sp)\<rparr>]
      else acc @ [sp])"

definition keptSpans :: "block list \<Rightarrow> (block \<Rightarrow> bool) \<Rightarrow> span list" where
  "keptSpans blocks keep =
     map (\<lambda>b. mkSpan (max (StartLine b) 1) (EndLine b))
       (filter (\<lambda>b. keep b \<and> max (StartLine b) 1 \<le> EndLine b) blocks)"

definition MergedSpans :: "block list \<Rightarrow> (block \<Rightarrow> bool) \<Rightarrow> span list" where
  "MergedSpans blocks keep = foldl joinSpan [] (sort_key Start (keptSpans blocks keep))"

lemma joinSpan_inv:
  assumes "merged acc" and "inRange acc" and "Start sp \<le> End sp" and "0 \<le> Start sp" and "End sp < maxInt64"
    and "\<forall>s \<in> set acc. Start s \<le> Start sp"
  shows "merged (joinSpan acc sp)" and "inRange (joinSpan acc sp)"
    and "linesOf (joinSpan acc sp) = linesOf acc \<union> {Start sp..End sp}"
    and "\<forall>s \<in> set (joinSpan acc sp). Start s \<le> Start sp"
proof -
  have "merged (joinSpan acc sp) \<and> inRange (joinSpan acc sp)
      \<and> linesOf (joinSpan acc sp) = linesOf acc \<union> {Start sp..End sp}
      \<and> (\<forall>s \<in> set (joinSpan acc sp). Start s \<le> Start sp)"
  proof (cases acc rule: rev_cases)
    case Nil
    with assms show ?thesis by (auto simp: joinSpan_def)
  next
    case (snoc init s)
    have s: "0 \<le> End s" "End s < maxInt64" "Start s \<le> End s" "Start s \<le> Start sp"
      using assms by (auto simp: snoc inRange_def merged_append)
    have j: "joinSpan acc sp = (if Start sp \<le> End s + 1 then init @ [s\<lparr>End := max (End s) (End sp)\<rparr>] else acc @ [sp])"
      using s by (simp add: joinSpan_def snoc add64_succ)
    show ?thesis
    proof (cases "Start sp \<le> End s + 1")
      case True
      have "{Start s..max (End s) (End sp)} = {Start s..End s} \<union> {Start sp..End sp}"
        using True s assms(3) by auto
      then show ?thesis using True assms s unfolding j
        by (auto simp: snoc merged_append inRange_def)
    next
      case False
      have "\<forall>t \<in> set init. End t + 1 < Start sp"
        using assms(1) s by (fastforce simp: snoc merged_append)
      then show ?thesis using False assms s unfolding j
        by (auto simp: snoc merged_append inRange_def)
    qed
  qed
  then show "merged (joinSpan acc sp)" "inRange (joinSpan acc sp)"
    "linesOf (joinSpan acc sp) = linesOf acc \<union> {Start sp..End sp}"
    "\<forall>s \<in> set (joinSpan acc sp). Start s \<le> Start sp"
    by blast+
qed

lemma foldl_joinSpan:
  assumes "sorted (map Start sps)" and "\<forall>s \<in> set sps. 0 \<le> Start s \<and> Start s \<le> End s \<and> End s < maxInt64"
    and "merged acc" and "inRange acc" and "\<forall>s \<in> set acc. \<forall>t \<in> set sps. Start s \<le> Start t"
  shows "merged (foldl joinSpan acc sps) \<and> inRange (foldl joinSpan acc sps)
    \<and> linesOf (foldl joinSpan acc sps) = linesOf acc \<union> linesOf sps"
  using assms
proof (induction sps arbitrary: acc)
  case (Cons sp sps)
  have h: "Start sp \<le> End sp" "0 \<le> Start sp" "End sp < maxInt64" "\<forall>s \<in> set acc. Start s \<le> Start sp"
    using Cons.prems by auto
  note j = joinSpan_inv [OF Cons.prems(3,4) h]
  have "\<forall>s \<in> set (joinSpan acc sp). \<forall>t \<in> set sps. Start s \<le> Start t"
    using j(4) Cons.prems(1) by fastforce
  then have "merged (foldl joinSpan (joinSpan acc sp) sps) \<and> inRange (foldl joinSpan (joinSpan acc sp) sps)
    \<and> linesOf (foldl joinSpan (joinSpan acc sp) sps) = linesOf (joinSpan acc sp) \<union> linesOf sps"
    using Cons.prems j by (intro Cons.IH) auto
  then show ?case using j(3) by auto
qed simp

definition endsInRange :: "block list \<Rightarrow> bool" where
  "endsInRange blocks \<longleftrightarrow> (\<forall>b \<in> set blocks. EndLine b < maxInt64)"

definition keptLines :: "block list \<Rightarrow> (block \<Rightarrow> bool) \<Rightarrow> int set" where
  "keptLines blocks keep = {l. 1 \<le> l \<and> (\<exists>b \<in> set blocks. keep b \<and> StartLine b \<le> l \<and> l \<le> EndLine b)}"

lemma linesOf_keptSpans: "linesOf (keptSpans blocks keep) = keptLines blocks keep"
  by (auto simp: linesOf_def keptSpans_def keptLines_def)

lemma keptSpans_ok:
  "endsInRange blocks \<Longrightarrow> \<forall>s \<in> set (keptSpans blocks keep). 0 \<le> Start s \<and> Start s \<le> End s \<and> End s < maxInt64"
  by (auto simp: keptSpans_def endsInRange_def)

lemma MergedSpans_correct:
  assumes "endsInRange blocks"
  shows "merged (MergedSpans blocks keep)" and "inRange (MergedSpans blocks keep)"
    and "linesOf (MergedSpans blocks keep) = keptLines blocks keep"
proof -
  let ?sps = "sort_key Start (keptSpans blocks keep)"
  have "linesOf ?sps = keptLines blocks keep"
    using linesOf_keptSpans [of blocks keep] by (simp add: linesOf_def)
  then show "merged (MergedSpans blocks keep)" "inRange (MergedSpans blocks keep)"
    "linesOf (MergedSpans blocks keep) = keptLines blocks keep"
    using foldl_joinSpan [of ?sps "[]"] keptSpans_ok [OF assms, of keep]
    by (simp_all add: MergedSpans_def)
qed

lemma keptLines_mono: "(\<And>b. keep b \<Longrightarrow> keep' b) \<Longrightarrow> keptLines blocks keep \<subseteq> keptLines blocks keep'"
  by (auto simp: keptLines_def)

text \<open>
  A set of lines has one merged form. The order in which spans that share a start are sorted
  (Go's sort is not stable) therefore never shows.
\<close>

lemma merged_above: "merged (s # ss) \<Longrightarrow> l \<in> linesOf ss \<Longrightarrow> End s + 1 < l"
  by (auto simp: linesOf_def)

lemma merged_unique: "merged ss \<Longrightarrow> merged ts \<Longrightarrow> linesOf ss = linesOf ts \<Longrightarrow> ss = (ts::span list)"
proof (induction ss arbitrary: ts)
  case Nil
  then show ?case by (cases ts) auto
next
  case (Cons s ss)
  have "Start s \<in> linesOf ts" using Cons.prems by (simp flip: Cons.prems(3))
  then obtain t ts' where ts: "ts = t # ts'" by (cases ts) auto
  have eq: "{Start s..End s} \<union> linesOf ss = {Start t..End t} \<union> linesOf ts'"
    using Cons.prems(3) by (simp add: ts)
  note m = Cons.prems(1) Cons.prems(2) [unfolded ts]
  have le: "Start s \<le> End s" "Start t \<le> End t" using m by simp_all
  have above: "\<And>l. l \<in> linesOf ss \<Longrightarrow> End s + 1 < l" "\<And>l. l \<in> linesOf ts' \<Longrightarrow> End t + 1 < l"
    using merged_above m by blast+
  have "Start s \<in> {Start t..End t} \<union> linesOf ts'" "Start t \<in> {Start s..End s} \<union> linesOf ss"
    using le eq by auto
  then have st: "Start s = Start t" using above le by fastforce
  have "\<not> End s < End t"
  proof
    assume "End s < End t"
    then have "End s + 1 \<in> {Start s..End s} \<union> linesOf ss" unfolding eq using le st by auto
    then show False using above(1) by fastforce
  qed
  moreover have "\<not> End t < End s"
  proof
    assume "End t < End s"
    then have "End t + 1 \<in> {Start t..End t} \<union> linesOf ts'" unfolding eq [symmetric] using le st by auto
    then show False using above(2) by fastforce
  qed
  ultimately have en: "End s = End t" by simp
  have "linesOf ss = ({Start s..End s} \<union> linesOf ss) - {..End s}"
    "linesOf ts' = ({Start t..End t} \<union> linesOf ts') - {..End t}"
    using above by fastforce+
  then have "linesOf ss = linesOf ts'" using eq en by simp
  then have "ss = ts'" using Cons.IH m by simp
  then show ?case using st en by (simp add: ts)
qed

section \<open>SubtractSpans\<close>

text \<open>
  \<open>subtractInner\<close> is the loop over \<open>k\<close> from \<open>j\<close> on; it returns the start that is left and the
  spans emitted. \<open>b\<close> is the part of the second list from index \<open>j\<close> on, which the outer loop
  only moves forward.
\<close>

fun subtractInner :: "span list \<Rightarrow> int \<Rightarrow> int \<Rightarrow> int \<times> span list" where
  "subtractInner [] stop start = (start, [])"
| "subtractInner (bk # bs) stop start =
     (if Start bk \<le> stop
      then let (start', out) = subtractInner bs stop (max start (add64 (End bk) 1))
           in (start', (if Start bk > start then [mkSpan start (Start bk - 1)] else []) @ out)
      else (start, []))"

fun SubtractSpans :: "span list \<Rightarrow> span list \<Rightarrow> span list" where
  "SubtractSpans [] b = []"
| "SubtractSpans (sp # a) b =
     (let b' = dropWhile (\<lambda>s. End s < Start sp) b;
          (start, out) = subtractInner b' (End sp) (Start sp)
      in out @ (if start \<le> End sp then [mkSpan start (End sp)] else []) @ SubtractSpans a b')"

definition subtractOne :: "span list \<Rightarrow> int \<Rightarrow> int \<Rightarrow> span list" where
  "subtractOne b stop start =
     (let (start', out) = subtractInner b stop start
      in out @ (if start' \<le> stop then [mkSpan start' stop] else []))"

lemma SubtractSpans_Cons:
  "SubtractSpans (sp # a) b =
     subtractOne (dropWhile (\<lambda>s. End s < Start sp) b) (End sp) (Start sp)
       @ SubtractSpans a (dropWhile (\<lambda>s. End s < Start sp) b)"
  by (simp add: subtractOne_def Let_def split: prod.split)

lemma subtractOne_simps:
  "subtractOne [] stop start = (if start \<le> stop then [mkSpan start stop] else [])"
  "subtractOne (bk # bs) stop start =
     (if Start bk \<le> stop
      then (if Start bk > start then [mkSpan start (Start bk - 1)] else [])
             @ subtractOne bs stop (max start (add64 (End bk) 1))
      else if start \<le> stop then [mkSpan start stop] else [])"
  by (simp_all add: subtractOne_def Let_def split: prod.split)

lemma subtractOne_correct:
  assumes "merged b" and "inRange b"
  shows "linesOf (subtractOne b stop start) = {start..stop} - linesOf b
    \<and> merged (subtractOne b stop start) \<and> (\<forall>s \<in> set (subtractOne b stop start). start \<le> Start s \<and> End s \<le> stop)"
  using assms
proof (induction b arbitrary: start)
  case Nil
  then show ?case by (auto simp: subtractOne_simps)
next
  case (Cons bk bs)
  have e: "add64 (End bk) 1 = End bk + 1" using Cons.prems by (simp add: add64_succ)
  have above: "\<And>l. l \<in> linesOf bs \<Longrightarrow> End bk + 1 < l"
    using merged_above Cons.prems(1) by blast
  show ?case
  proof (cases "Start bk \<le> stop")
    case True
    let ?start = "max start (End bk + 1)"
    let ?pre = "if Start bk > start then [mkSpan start (Start bk - 1)] else []"
    have IH: "linesOf (subtractOne bs stop ?start) = {?start..stop} - linesOf bs"
      "merged (subtractOne bs stop ?start)"
      "\<forall>s \<in> set (subtractOne bs stop ?start). ?start \<le> Start s \<and> End s \<le> stop"
      using Cons.IH [of ?start] Cons.prems by simp_all
    have eq: "subtractOne (bk # bs) stop start = ?pre @ subtractOne bs stop ?start"
      using True by (simp add: subtractOne_simps e)
    have bk: "Start bk \<le> End bk" using Cons.prems by simp
    have "linesOf (?pre @ subtractOne bs stop ?start) = {start..stop} - linesOf (bk # bs)"
      using True bk above IH(1) by (auto dest: above)
    moreover have "merged (?pre @ subtractOne bs stop ?start)"
    proof -
      have "End bk + 1 \<le> Start s" if "s \<in> set (subtractOne bs stop ?start)" for s
        using IH(3) that by auto
      then show ?thesis using IH(2) bk by (fastforce simp: merged_append)
    qed
    moreover have "\<forall>s \<in> set (?pre @ subtractOne bs stop ?start). start \<le> Start s \<and> End s \<le> stop"
      using IH(3) True by auto
    ultimately show ?thesis unfolding eq by blast
  next
    case False
    have "{start..stop} \<inter> linesOf (bk # bs) = {}"
      using False Cons.prems(1) above by (fastforce dest: above)
    then show ?thesis using False by (auto simp: subtractOne_simps)
  qed
qed

lemma takeWhile_below: "x \<in> linesOf (takeWhile (\<lambda>s. End s < l) b) \<Longrightarrow> x < l"
  by (induction b) (auto split: if_splits)

lemma linesOf_dropWhile: "l \<le> x \<Longrightarrow> x \<in> linesOf (dropWhile (\<lambda>s. End s < l) b) \<longleftrightarrow> x \<in> linesOf b"
  using takeWhile_below [of x l b] linesOf_simps(3) [of "takeWhile (\<lambda>s. End s < l) b" "dropWhile (\<lambda>s. End s < l) b"]
  by auto

lemma merged_dropWhile: "merged b \<Longrightarrow> merged (dropWhile P b)"
  by (induction b) auto

lemma inRange_dropWhile: "inRange b \<Longrightarrow> inRange (dropWhile P b)"
  by (induction b) auto

lemma SubtractSpans_correct:
  assumes "merged a" and "merged b" and "inRange b"
  shows "linesOf (SubtractSpans a b) = linesOf a - linesOf b \<and> merged (SubtractSpans a b)
    \<and> (\<forall>s \<in> set (SubtractSpans a b). \<exists>sp \<in> set a. Start sp \<le> Start s \<and> End s \<le> End sp)"
  using assms
proof (induction a arbitrary: b)
  case (Cons sp a)
  let ?b = "dropWhile (\<lambda>s. End s < Start sp) b"
  have b: "merged ?b" "inRange ?b" using Cons.prems by (simp_all add: merged_dropWhile inRange_dropWhile)
  have keep: "l \<in> linesOf ?b \<longleftrightarrow> l \<in> linesOf b" if "Start sp \<le> l" for l
    using that by (rule linesOf_dropWhile)
  note one = subtractOne_correct [OF b, of "End sp" "Start sp"]
  have IH: "linesOf (SubtractSpans a ?b) = linesOf a - linesOf ?b" "merged (SubtractSpans a ?b)"
    "\<forall>s \<in> set (SubtractSpans a ?b). \<exists>sp \<in> set a. Start sp \<le> Start s \<and> End s \<le> End sp"
    using Cons.IH [OF _ b] Cons.prems by auto
  have above: "\<And>l. l \<in> linesOf a \<Longrightarrow> Start sp \<le> l"
    using merged_above [OF Cons.prems(1)] Cons.prems(1) by fastforce
  have "linesOf (SubtractSpans (sp # a) b) = ({Start sp..End sp} - linesOf ?b) \<union> (linesOf a - linesOf ?b)"
    using one IH(1) by (simp add: SubtractSpans_Cons del: SubtractSpans.simps)
  also have "\<dots> = linesOf (sp # a) - linesOf b" using keep above by auto
  finally show ?case using one IH Cons.prems(1)
    by (fastforce simp: SubtractSpans_Cons merged_append simp del: SubtractSpans.simps)
qed simp

section \<open>IntersectSpans\<close>

fun IntersectSpans :: "span list \<Rightarrow> span list \<Rightarrow> span list" where
  "IntersectSpans (x # a) (y # b) =
     (let start = max (Start x) (Start y); stop = min (End x) (End y)
      in (if start \<le> stop then [mkSpan start stop] else [])
           @ (if End x < End y then IntersectSpans a (y # b) else IntersectSpans (x # a) b))"
| "IntersectSpans _ _ = []"

lemma IntersectSpans_within:
  "s \<in> set (IntersectSpans a b) \<Longrightarrow>
     \<exists>x \<in> set a. \<exists>y \<in> set b. max (Start x) (Start y) \<le> Start s \<and> End s \<le> min (End x) (End y)"
proof (induction a b rule: IntersectSpans.induct)
  case (1 x a y b)
  consider "s = mkSpan (max (Start x) (Start y)) (min (End x) (End y))"
    | "End x < End y" "s \<in> set (IntersectSpans a (y # b))"
    | "\<not> End x < End y" "s \<in> set (IntersectSpans (x # a) b)"
    using 1(3) by (auto simp: Let_def split: if_splits)
  then show ?case
  proof cases
    case 1
    then show ?thesis by simp
  next
    case 2
    then show ?thesis using "1.IH"(1) by (meson list.set_intros(2))
  next
    case 3
    then show ?thesis using "1.IH"(2) by (meson list.set_intros(2))
  qed
qed simp_all

lemma merged_pre_append:
  "merged pre \<Longrightarrow> merged ss \<Longrightarrow> (\<And>s. s \<in> set pre \<Longrightarrow> End s \<le> l) \<Longrightarrow> (\<And>s. s \<in> set ss \<Longrightarrow> l + 1 < Start s)
    \<Longrightarrow> merged (pre @ ss)"
  unfolding merged_append by fastforce

lemma IntersectSpans_correct:
  assumes "merged a" and "merged b"
  shows "linesOf (IntersectSpans a b) = linesOf a \<inter> linesOf b \<and> merged (IntersectSpans a b)"
  using assms
proof (induction a b rule: IntersectSpans.induct)
  case (1 x a y b)
  let ?pre = "if max (Start x) (Start y) \<le> min (End x) (End y)
    then [mkSpan (max (Start x) (Start y)) (min (End x) (End y))] else []"
  have pre: "linesOf ?pre = {Start x..End x} \<inter> {Start y..End y}" "merged ?pre"
    "\<And>s. s \<in> set ?pre \<Longrightarrow> End s \<le> End x \<and> End s \<le> End y"
    by auto
  have above: "\<And>l. l \<in> linesOf a \<Longrightarrow> End x + 1 < l" "\<And>l. l \<in> linesOf b \<Longrightarrow> End y + 1 < l"
    using merged_above 1(3,4) by blast+
  show ?case
  proof (cases "End x < End y")
    case True
    have IH: "linesOf (IntersectSpans a (y # b)) = linesOf a \<inter> linesOf (y # b)" "merged (IntersectSpans a (y # b))"
      using 1 True by simp_all
    have gap: "End x + 1 < Start s" if "s \<in> set (IntersectSpans a (y # b))" for s
      using IntersectSpans_within [OF that] 1(3) by fastforce
    have eq: "IntersectSpans (x # a) (y # b) = ?pre @ IntersectSpans a (y # b)"
      using True by (simp add: Let_def)
    have "{Start x..End x} \<inter> linesOf b = {}" using True above(2) by fastforce
    then have "linesOf (?pre @ IntersectSpans a (y # b)) = linesOf (x # a) \<inter> linesOf (y # b)"
      using IH(1) pre(1) by auto
    moreover have "merged (?pre @ IntersectSpans a (y # b))"
      using merged_pre_append [OF pre(2) IH(2), of "End x"] pre(3) gap by blast
    ultimately show ?thesis unfolding eq by blast
  next
    case False
    have IH: "linesOf (IntersectSpans (x # a) b) = linesOf (x # a) \<inter> linesOf b" "merged (IntersectSpans (x # a) b)"
      using 1 False by simp_all
    have gap: "End y + 1 < Start s" if "s \<in> set (IntersectSpans (x # a) b)" for s
      using IntersectSpans_within [OF that] 1(4) by fastforce
    have eq: "IntersectSpans (x # a) (y # b) = ?pre @ IntersectSpans (x # a) b"
      using False by (simp add: Let_def)
    have "{Start y..End y} \<inter> linesOf a = {}" using False above(1) by fastforce
    then have "linesOf (?pre @ IntersectSpans (x # a) b) = linesOf (x # a) \<inter> linesOf (y # b)"
      using IH(1) pre(1) by auto
    moreover have "merged (?pre @ IntersectSpans (x # a) b)"
      using merged_pre_append [OF pre(2) IH(2), of "End y"] pre(3) gap by blast
    ultimately show ?thesis unfolding eq by blast
  qed
qed auto

section \<open>inSpans\<close>

text \<open>
  \<open>slices.BinarySearchFunc\<close> by \<open>End\<close>: the first index in \<open>i..j\<close> whose span ends at the line
  or after it.
\<close>

function searchSpans :: "span list \<Rightarrow> int \<Rightarrow> nat \<Rightarrow> nat \<Rightarrow> nat" where
  "searchSpans spans l i j =
     (if i < j
      then let h = (i + j) div 2
           in if cmpCompare (End (spans ! h)) l < 0 then searchSpans spans l (h + 1) j
              else searchSpans spans l i h
      else i)"
  by pat_completeness auto
termination
  by (relation "measure (\<lambda>(_, _, i, j). j - i)") auto

declare searchSpans.simps [simp del]

definition inSpans :: "span list \<Rightarrow> int \<Rightarrow> bool" where
  "inSpans spans l =
     (let i = searchSpans spans l 0 (length spans)
      in i < length spans \<and> Start (spans ! i) \<le> l)"

lemma searchSpans_correct:
  assumes "\<And>p q. p < q \<Longrightarrow> q < length spans \<Longrightarrow> End (spans ! p) < End (spans ! q)"
    and "i \<le> j" and "j \<le> length spans"
    and "\<And>p. p < i \<Longrightarrow> End (spans ! p) < l" and "\<And>p. j \<le> p \<Longrightarrow> p < length spans \<Longrightarrow> l \<le> End (spans ! p)"
  shows "searchSpans spans l i j \<le> length spans
    \<and> (\<forall>p < searchSpans spans l i j. End (spans ! p) < l)
    \<and> (\<forall>p. searchSpans spans l i j \<le> p \<and> p < length spans \<longrightarrow> l \<le> End (spans ! p))"
  using assms
proof (induction spans l i j rule: searchSpans.induct)
  case (1 spans l i j)
  show ?case
  proof (cases "i < j")
    case False
    then have "searchSpans spans l i j = i" by (simp add: searchSpans.simps)
    then show ?thesis using False 1(4-7) by auto
  next
    case True
    let ?h = "(i + j) div 2"
    have h: "i \<le> ?h" "?h < j" using True by auto
    note mono = 1(3)
    show ?thesis
    proof (cases "End (spans ! ?h) < l")
      case below: True
      have "End (spans ! p) < l" if "p < ?h + 1" for p
        using mono [of p ?h] below that h 1(5) by (cases "p = ?h") force+
      then have "searchSpans spans l (?h + 1) j \<le> length spans
        \<and> (\<forall>p < searchSpans spans l (?h + 1) j. End (spans ! p) < l)
        \<and> (\<forall>p. searchSpans spans l (?h + 1) j \<le> p \<and> p < length spans \<longrightarrow> l \<le> End (spans ! p))"
        using True below h 1(5,7) mono by (intro 1(1)) (auto simp: cmpCompare_simps)
      then show ?thesis using True below by (subst (1 2 3) searchSpans.simps) (simp add: Let_def)
    next
      case above: False
      have "l \<le> End (spans ! p)" if "?h \<le> p" "p < length spans" for p
        using mono [of ?h p] above that by (cases "p = ?h") force+
      then have "searchSpans spans l i ?h \<le> length spans
        \<and> (\<forall>p < searchSpans spans l i ?h. End (spans ! p) < l)
        \<and> (\<forall>p. searchSpans spans l i ?h \<le> p \<and> p < length spans \<longrightarrow> l \<le> End (spans ! p))"
        using True above h 1(5,6) mono by (intro 1(2)) (auto simp: cmpCompare_simps)
      then show ?thesis using True above by (subst (1 2 3) searchSpans.simps) (simp add: Let_def)
    qed
  qed
qed

lemma merged_nth:
  "merged ss \<Longrightarrow> p < q \<Longrightarrow> q < length ss \<Longrightarrow>
     End (ss ! p) + 1 < Start (ss ! q) \<and> Start (ss ! q) \<le> End (ss ! q)"
  by (auto simp: merged_def sorted_wrt_iff_nth_less)

lemma inSpans_correct:
  assumes "merged ss"
  shows "inSpans ss l \<longleftrightarrow> l \<in> linesOf ss"
proof -
  let ?i = "searchSpans ss l 0 (length ss)"
  note nth = merged_nth [OF assms]
  have i: "?i \<le> length ss" "\<And>p. p < ?i \<Longrightarrow> End (ss ! p) < l"
    "\<And>p. ?i \<le> p \<Longrightarrow> p < length ss \<Longrightarrow> l \<le> End (ss ! p)"
    using searchSpans_correct [of ss 0 "length ss" l] nth by fastforce+
  have mem: "l \<in> linesOf ss \<longleftrightarrow> (\<exists>p < length ss. Start (ss ! p) \<le> l \<and> l \<le> End (ss ! p))"
    unfolding linesOf_def by (force simp: in_set_conv_nth)
  show ?thesis
  proof
    assume "inSpans ss l"
    then show "l \<in> linesOf ss" unfolding mem using i(3) by (auto simp: inSpans_def Let_def)
  next
    assume "l \<in> linesOf ss"
    then obtain p where p: "p < length ss" "Start (ss ! p) \<le> l" "l \<le> End (ss ! p)"
      using mem by blast
    have "\<not> p < ?i" using i(2) p by fastforce
    moreover have "\<not> ?i < p" using i(3) [of ?i] nth [of ?i p] p by fastforce
    ultimately have "?i = p" by simp
    then show "inSpans ss l" using p by (simp add: inSpans_def)
  qed
qed

section \<open>MissedSpans\<close>

definition MissedSpans :: "block list \<Rightarrow> span list" where
  "MissedSpans blocks = SubtractSpans (MergedSpans blocks Statement) (MergedSpans blocks Ran)"

lemma MissedSpans_lines:
  assumes "endsInRange blocks"
  shows "linesOf (MissedSpans blocks) = keptLines blocks Statement - keptLines blocks Ran
    \<and> merged (MissedSpans blocks)"
  using SubtractSpans_correct [of "MergedSpans blocks Statement" "MergedSpans blocks Ran"]
    MergedSpans_correct [OF assms]
  by (simp add: MissedSpans_def)

section \<open>LineSpans and Ranges\<close>

fun lineSpansFrom :: "span \<Rightarrow> int list \<Rightarrow> span list" where
  "lineSpansFrom sp [] = [sp]"
| "lineSpansFrom sp (l # lines) =
     (if l = End sp \<or> l = add64 (End sp) 1 then lineSpansFrom (sp\<lparr>End := l\<rparr>) lines
      else sp # lineSpansFrom (mkSpan l l) lines)"

fun LineSpans :: "int list \<Rightarrow> span list" where
  "LineSpans [] = []"
| "LineSpans (l # lines) = lineSpansFrom (mkSpan l l) lines"

definition spanString :: "span \<Rightarrow> string" where
  "spanString sp =
     (if Start sp = End sp then itoa (Start sp) else itoa (Start sp) @ ''-'' @ itoa (End sp))"

definition Ranges :: "int list \<Rightarrow> string" where
  "Ranges lines = joinWith '', '' (map spanString (LineSpans lines))"

lemma lineSpansFrom_correct:
  assumes "sorted (End sp # lines)" and "Start sp \<le> End sp"
    and "\<forall>l \<in> set (End sp # lines). minInt64 \<le> l \<and> l < maxInt64"
  shows "merged (lineSpansFrom sp lines) \<and> linesOf (lineSpansFrom sp lines) = {Start sp..End sp} \<union> set lines
    \<and> (\<forall>s \<in> set (lineSpansFrom sp lines). Start sp \<le> Start s)"
  using assms
proof (induction lines arbitrary: sp)
  case (Cons l lines)
  have e: "add64 (End sp) 1 = End sp + 1"
    using Cons.prems(3) by (intro add64_id) (auto simp: inInt64_def)
  have l: "End sp \<le> l" "sorted (l # lines)" using Cons.prems(1) by simp_all
  show ?case
  proof (cases "l = End sp \<or> l = End sp + 1")
    case True
    have IH: "merged (lineSpansFrom (sp\<lparr>End := l\<rparr>) lines)
      \<and> linesOf (lineSpansFrom (sp\<lparr>End := l\<rparr>) lines) = {Start sp..l} \<union> set lines
      \<and> (\<forall>s \<in> set (lineSpansFrom (sp\<lparr>End := l\<rparr>) lines). Start sp \<le> Start s)"
      using Cons.IH [of "sp\<lparr>End := l\<rparr>"] Cons.prems l by simp
    have "{Start sp..l} = {Start sp..End sp} \<union> {l}" using True Cons.prems(2) by auto
    then show ?thesis using IH True by (auto simp: e)
  next
    case False
    have IH: "merged (lineSpansFrom (mkSpan l l) lines)
      \<and> linesOf (lineSpansFrom (mkSpan l l) lines) = {l..l} \<union> set lines
      \<and> (\<forall>s \<in> set (lineSpansFrom (mkSpan l l) lines). l \<le> Start s)"
      using Cons.IH [of "mkSpan l l"] Cons.prems(3) l by simp
    then show ?thesis using False l Cons.prems(2) by (fastforce simp: e)
  qed
qed simp

lemma LineSpans_correct:
  assumes "sorted lines" and "\<forall>l \<in> set lines. minInt64 \<le> l \<and> l < maxInt64"
  shows "merged (LineSpans lines) \<and> linesOf (LineSpans lines) = set lines"
proof (cases lines)
  case (Cons l ls)
  then show ?thesis using lineSpansFrom_correct [of "mkSpan l l" ls] assms by auto
qed simp

section \<open>Properties\<close>

text \<open>
  The uncovered ranges shown for a file. \<open>MissedSpans\<close> lists exactly the lines some
  statement block spans and no block that ran spans, as runs with a gap between any two, and
  no other list of runs does: the answer does not depend on the order of the blocks, nor on
  how Go's unstable sort places spans with equal starts.
\<close>

theorem missed_spans_exact:
  assumes "endsInRange blocks"
  shows "(\<forall>l. l \<in> linesOf (MissedSpans blocks) \<longleftrightarrow>
        1 \<le> l \<and> (\<exists>b \<in> set blocks. Statement b \<and> StartLine b \<le> l \<and> l \<le> EndLine b)
          \<and> \<not> (\<exists>b \<in> set blocks. Ran b \<and> StartLine b \<le> l \<and> l \<le> EndLine b))
    \<and> (\<forall>ss. merged ss \<and> linesOf ss = linesOf (MissedSpans blocks) \<longleftrightarrow> ss = MissedSpans blocks)"
  using MissedSpans_lines [OF assms] merged_unique by (auto simp: keptLines_def)

theorem missed_spans_exact_witness:
  "let blocks = [\<lparr>StartLine = 1, StartCol = 1, EndLine = 9, EndCol = 2, NumStmts = 2, Count = 0\<rparr>,
                 \<lparr>StartLine = 4, StartCol = 1, EndLine = 5, EndCol = 2, NumStmts = 1, Count = 7\<rparr>]
   in MissedSpans blocks = [mkSpan 1 3, mkSpan 6 9] \<and> 3 \<in> linesOf (MissedSpans blocks)"
proof -
  let ?b = "[\<lparr>StartLine = 1, StartCol = 1, EndLine = 9, EndCol = 2, NumStmts = 2, Count = 0\<rparr>,
             \<lparr>StartLine = 4, StartCol = 1, EndLine = 5, EndCol = 2, NumStmts = 1, Count = 7\<rparr>]"
  have r: "endsInRange ?b" by code_simp
  have "MissedSpans ?b = [mkSpan 1 3, mkSpan 6 9]" by code_simp
  moreover have "3 \<in> linesOf (MissedSpans ?b)"
    using missed_spans_exact [OF r] by (auto simp: Statement_def Ran_def)
  ultimately show ?thesis by (simp add: Let_def)
qed

text \<open>
  The set operations on spans. On sorted and merged spans, \<open>SubtractSpans\<close> and
  \<open>IntersectSpans\<close> split the lines of the first list into those outside and those inside the
  second, each again sorted and merged, and the binary search of \<open>inSpans\<close> decides membership.
\<close>

theorem spans_partition:
  assumes "merged a" and "merged b" and "inRange b"
  shows "linesOf (SubtractSpans a b) = linesOf a - linesOf b
    \<and> linesOf (IntersectSpans a b) = linesOf a \<inter> linesOf b
    \<and> merged (SubtractSpans a b) \<and> merged (IntersectSpans a b)
    \<and> (\<forall>l. inSpans a l \<longleftrightarrow> inSpans (SubtractSpans a b) l \<or> inSpans (IntersectSpans a b) l)"
  using SubtractSpans_correct [OF assms] IntersectSpans_correct [OF assms(1,2)] assms(1)
  by (auto simp: inSpans_correct)

theorem spans_partition_witness:
  "let a = [mkSpan 1 5, mkSpan 8 20]; b = [mkSpan 4 9, mkSpan 12 13]
   in SubtractSpans a b = [mkSpan 1 3, mkSpan 10 11, mkSpan 14 20]
    \<and> linesOf (SubtractSpans a b) = linesOf a - linesOf b"
proof -
  let ?a = "[mkSpan 1 5, mkSpan 8 20]" and ?b = "[mkSpan 4 9, mkSpan 12 13]"
  have h: "merged ?a" "merged ?b" "inRange ?b" by (simp_all add: maxInt64_def)
  have "SubtractSpans ?a ?b = [mkSpan 1 3, mkSpan 10 11, mkSpan 14 20]" by code_simp
  then show ?thesis using spans_partition [OF h] by (simp add: Let_def)
qed

end
