(* ===== verification/DiffCov.thy ===== *)
theory DiffCov
  imports Spans
begin

text \<open>
  Diff coverage of \<open>internal/diffcov/diffcov.go\<close>: the index that pairs a diff's paths with the
  files of a profile (\<open>newProfileIndex\<close>, \<open>match\<close>), the set of paths a diff touches
  (\<open>DiffPaths\<close>) and \<open>Compute\<close>, each with the rule it implements stated without the index.
\<close>

section \<open>The data\<close>

record fileBlocks =
  fbPath :: string
  fbBlocks :: "block list"

record fileCov =
  fcPath :: string
  fcCoveredLines :: int
  fcTotalLines :: int
  fcUncoveredLines :: "int list"

record diffResult =
  rFiles :: "fileCov list"
  rCoveredLines :: int
  rTotalLines :: int
  rUnmatchedFiles :: "string list"

definition resultPercent :: "diffResult \<Rightarrow> rat" where
  "resultPercent r =
     (if rTotalLines r = 0 then 100
      else f64 (f64 (f64 (of_int (rCoveredLines r)) / f64 (of_int (rTotalLines r))) * 100))"

text \<open>\<open>Clone\<close> copies the slices, so that no later write through one result shows in another.\<close>

definition resultClone :: "diffResult option \<Rightarrow> diffResult option" where
  "resultClone r = (case r of None \<Rightarrow> None
     | Some r \<Rightarrow> Some (r\<lparr>rFiles := map (\<lambda>f. f\<lparr>fcUncoveredLines := [] @ fcUncoveredLines f\<rparr>) (rFiles r),
                        rUnmatchedFiles := [] @ rUnmatchedFiles r\<rparr>))"

section \<open>Directory-aligned suffixes\<close>

function dirSuffixes :: "string \<Rightarrow> string list" where
  "dirSuffixes p = (case cutByte CHR ''/'' p of None \<Rightarrow> [] | Some (_, r) \<Rightarrow> r # dirSuffixes r)"
  by pat_completeness auto
termination
  by (relation "measure length") (auto dest!: cutByte_Some)

declare dirSuffixes.simps [simp del]

abbreviation hasSlash :: "string \<Rightarrow> bool" where
  "hasSlash s \<equiv> containsStr s ''/''"

text \<open>The suffixes a loop over \<open>dirSuffixes\<close> sees before it breaks at a bare name.\<close>

definition slashSuffixes :: "string \<Rightarrow> string list" where
  "slashSuffixes p = takeWhile hasSlash (dirSuffixes p)"

lemma hasSlash_iff: "hasSlash s \<longleftrightarrow> CHR ''/'' \<in> set s"
  by (induction s) auto

lemma dirSuffixes_rec: "CHR ''/'' \<notin> set a \<Longrightarrow> dirSuffixes (a @ CHR ''/'' # r) = r # dirSuffixes r"
  by (subst dirSuffixes.simps) (simp add: cutByte_append)

lemma dirSuffixes_none: "CHR ''/'' \<notin> set p \<Longrightarrow> dirSuffixes p = []"
  using cutByte_None [of "CHR ''/''" p] by (subst dirSuffixes.simps) simp

definition dirSuffix :: "string \<Rightarrow> string \<Rightarrow> bool" where
  "dirSuffix s p \<longleftrightarrow> hasSuffix p (CHR ''/'' # s)"

lemma dirSuffix_iff: "dirSuffix s p \<longleftrightarrow> (\<exists>q. p = q @ CHR ''/'' # s)"
  by (simp add: dirSuffix_def hasSuffix_iff)

lemma dirSuffix_split:
  assumes "CHR ''/'' \<notin> set a"
  shows "dirSuffix s (a @ CHR ''/'' # r) \<longleftrightarrow> s = r \<or> dirSuffix s r"
proof
  assume "dirSuffix s (a @ CHR ''/'' # r)"
  then obtain q where q: "a @ CHR ''/'' # r = q @ CHR ''/'' # s" by (auto simp: dirSuffix_iff)
  then consider us where "a = q @ us" "us @ CHR ''/'' # r = CHR ''/'' # s"
    | us where "a @ us = q" "CHR ''/'' # r = us @ CHR ''/'' # s"
    by (auto simp: append_eq_append_conv2)
  then show "s = r \<or> dirSuffix s r"
  proof cases
    case 1
    then show ?thesis using assms by (cases us) auto
  next
    case 2
    then show ?thesis by (cases us) (auto simp: dirSuffix_iff)
  qed
next
  assume "s = r \<or> dirSuffix s r"
  then show "dirSuffix s (a @ CHR ''/'' # r)" unfolding dirSuffix_iff by (metis append_Cons append_assoc)
qed

lemma set_dirSuffixes: "s \<in> set (dirSuffixes p) \<longleftrightarrow> dirSuffix s p"
proof (induction p rule: dirSuffixes.induct)
  case (1 p)
  show ?case
  proof (cases "cutByte CHR ''/'' p")
    case None
    then have "CHR ''/'' \<notin> set p" by (simp add: cutByte_None)
    then show ?thesis by (auto simp: dirSuffixes_none dirSuffix_iff)
  next
    case (Some x)
    then obtain a r where x: "x = (a, r)" and p: "p = a @ CHR ''/'' # r" "CHR ''/'' \<notin> set a"
      using cutByte_Some [of "CHR ''/''" p] by (cases x) auto
    then show ?thesis using 1 Some by (simp add: dirSuffixes_rec dirSuffix_split)
  qed
qed

lemma dirSuffixes_shorter: "sorted_wrt (\<lambda>s t. length t < length s) (p # dirSuffixes p)"
proof (induction p rule: dirSuffixes.induct)
  case (1 p)
  show ?case
  proof (cases "cutByte CHR ''/'' p")
    case None
    then show ?thesis by (subst dirSuffixes.simps) simp
  next
    case (Some x)
    then obtain a r where x: "x = (a, r)" and p: "p = a @ CHR ''/'' # r" "CHR ''/'' \<notin> set a"
      using cutByte_Some [of "CHR ''/''" p] by (cases x) auto
    then have "sorted_wrt (\<lambda>s t. length t < length s) (r # dirSuffixes r)" using 1 Some by simp
    then show ?thesis using p by (force simp: dirSuffixes_rec)
  qed
qed

lemma dirSuffix_trans: "dirSuffix s t \<Longrightarrow> dirSuffix t p \<Longrightarrow> dirSuffix s p"
  unfolding dirSuffix_iff by (metis append_Cons append_assoc)

lemma dirSuffixes_slash_down:
  "dirSuffixes p = xs @ s # ys \<Longrightarrow> hasSlash s \<Longrightarrow> \<forall>x \<in> set xs. hasSlash x"
proof (induction xs arbitrary: p)
  case (Cons x xs)
  obtain a where "CHR ''/'' \<notin> set a" "p = a @ CHR ''/'' # x" and r: "dirSuffixes x = xs @ s # ys"
    using Cons.prems(1) cutByte_Some [of "CHR ''/''" p]
    by (subst (asm) dirSuffixes.simps) (auto split: option.splits)
  have "dirSuffix s x" using r set_dirSuffixes [of s x] by simp
  then have "hasSlash x" by (auto simp: hasSlash_iff dirSuffix_iff)
  then show ?case using Cons.IH [OF r Cons.prems(2)] by simp
qed simp

lemma set_slashSuffixes: "s \<in> set (slashSuffixes p) \<longleftrightarrow> dirSuffix s p \<and> hasSlash s"
proof
  assume "s \<in> set (slashSuffixes p)"
  then show "dirSuffix s p \<and> hasSlash s"
    using set_dirSuffixes set_takeWhileD by (fastforce simp: slashSuffixes_def)
next
  assume s: "dirSuffix s p \<and> hasSlash s"
  then obtain xs ys where xs: "dirSuffixes p = xs @ s # ys"
    using set_dirSuffixes by (metis split_list)
  then have "\<forall>x \<in> set xs. hasSlash x" using s dirSuffixes_slash_down by blast
  then show "s \<in> set (slashSuffixes p)" using s by (simp add: slashSuffixes_def xs takeWhile_append)
qed

section \<open>The index of a profile's paths\<close>

record profileIndex =
  piFiles :: "fileBlocks list"
  byPath :: "(string, nat) gomap"
  forward :: "(string, nat) gomap"

definition seePath :: "(string, nat) gomap \<Rightarrow> nat \<times> fileBlocks \<Rightarrow> (string, nat) gomap" where
  "seePath m x = (case map_of m (fbPath (snd x)) of
     None \<Rightarrow> AList.update (fbPath (snd x)) (fst x) m | Some _ \<Rightarrow> m)"

definition seeSuffix :: "fileBlocks list \<Rightarrow> nat \<times> fileBlocks \<Rightarrow> (string, nat) gomap \<Rightarrow> string \<Rightarrow> (string, nat) gomap" where
  "seeSuffix files x m suffix = (case map_of m suffix of
     None \<Rightarrow> AList.update suffix (fst x) m
   | Some best \<Rightarrow>
       if length (fbPath (snd x)) < length (fbPath (files ! best)) then AList.update suffix (fst x) m else m)"

definition seeSuffixes :: "fileBlocks list \<Rightarrow> (string, nat) gomap \<Rightarrow> nat \<times> fileBlocks \<Rightarrow> (string, nat) gomap" where
  "seeSuffixes files m x = foldl (seeSuffix files x) m (slashSuffixes (fbPath (snd x)))"

definition newProfileIndex :: "fileBlocks list \<Rightarrow> string \<Rightarrow> profileIndex" where
  "newProfileIndex files pathPrefix =
     \<lparr>piFiles = files, byPath = foldl seePath [] (enumerate 0 files),
      forward = (if pathPrefix \<noteq> [] then [] else foldl (seeSuffixes files) [] (enumerate 0 files))\<rparr>"

fun firstHit :: "(string, nat) gomap \<Rightarrow> string list \<Rightarrow> nat option" where
  "firstHit m [] = None"
| "firstHit m (s # ss) = (case map_of m s of Some i \<Rightarrow> Some i | None \<Rightarrow> firstHit m ss)"

definition matchIndex :: "profileIndex \<Rightarrow> string \<Rightarrow> string \<Rightarrow> nat option" where
  "matchIndex idx diffPath pathPrefix =
     (if pathPrefix \<noteq> [] then
        let want = trimSuffix pathPrefix ''/'' @ ''/'' @ diffPath
        in case map_of (byPath idx) want of
             Some i \<Rightarrow>
               (case map_of (byPath idx) diffPath of
                  Some j \<Rightarrow> if i < j then Some i else Some j
                | None \<Rightarrow> Some i)
           | None \<Rightarrow> map_of (byPath idx) diffPath
      else case map_of (byPath idx) diffPath of
        Some i \<Rightarrow> Some i
      | None \<Rightarrow>
          (case (if hasSlash diffPath then map_of (forward idx) diffPath else None) of
             Some i \<Rightarrow> Some i
           | None \<Rightarrow> firstHit (byPath idx) (slashSuffixes diffPath)))"

definition match :: "profileIndex \<Rightarrow> string \<Rightarrow> string \<Rightarrow> fileBlocks option" where
  "match idx diffPath pathPrefix = map_option (nth (piFiles idx)) (matchIndex idx diffPath pathPrefix)"

section \<open>The pairing rule without the index\<close>

text \<open>The first element whose key is smallest.\<close>

definition firstMin :: "('a \<Rightarrow> 'b::linorder) \<Rightarrow> 'a list \<Rightarrow> 'a option" where
  "firstMin k xs = find (\<lambda>x. \<forall>y \<in> set xs. k x \<le> k y) xs"

text \<open>
  With a prefix, the first file at either path. Without one: the file at the path itself; else
  the shortest profile path that ends with the diff path, if that is no bare name; else the
  longest profile path, no bare name either, that the diff path ends with.
\<close>

definition pairing :: "fileBlocks list \<Rightarrow> string \<Rightarrow> string \<Rightarrow> fileBlocks option" where
  "pairing files pathPrefix dp =
     (if pathPrefix \<noteq> [] then
        find (\<lambda>f. fbPath f = trimSuffix pathPrefix ''/'' @ ''/'' @ dp \<or> fbPath f = dp) files
      else case find (\<lambda>f. fbPath f = dp) files of
        Some f \<Rightarrow> Some f
      | None \<Rightarrow>
          (case firstMin (\<lambda>f. length (fbPath f)) (filter (\<lambda>f. hasSlash dp \<and> dirSuffix dp (fbPath f)) files) of
             Some f \<Rightarrow> Some f
           | None \<Rightarrow> firstMin (\<lambda>f. - int (length (fbPath f)))
               (filter (\<lambda>f. hasSlash (fbPath f) \<and> dirSuffix (fbPath f) dp) files)))"

lemma firstMin_Some:
  "firstMin k xs = Some y \<longleftrightarrow>
     (\<exists>us vs. xs = us @ y # vs \<and> (\<forall>u \<in> set us. k y < k u) \<and> (\<forall>v \<in> set vs. k y \<le> k v))"
  (is "_ \<longleftrightarrow> ?R")
proof
  assume "firstMin k xs = Some y"
  then obtain i where i: "i < length xs" "y = xs ! i" "\<forall>z \<in> set xs. k y \<le> k z"
    "\<forall>j < i. \<not> (\<forall>z \<in> set xs. k (xs ! j) \<le> k z)"
    by (auto simp: firstMin_def find_Some_iff)
  have "k y < k u" if u: "u \<in> set (take i xs)" for u
  proof -
    obtain j where "j < i" "u = xs ! j" using u i(1) by (auto simp: in_set_conv_nth)
    then obtain z where "z \<in> set xs" "k z < k u" using i(4) by (auto simp: not_le)
    then show ?thesis using i(3) by fastforce
  qed
  moreover have "xs = take i xs @ y # drop (Suc i) xs" using i by (simp add: id_take_nth_drop)
  moreover have "\<forall>v \<in> set (drop (Suc i) xs). k y \<le> k v" using i(3) in_set_dropD by fastforce
  ultimately show ?R by blast
next
  assume ?R
  then obtain us vs where x: "xs = us @ y # vs" "\<forall>u \<in> set us. k y < k u" "\<forall>v \<in> set vs. k y \<le> k v" by blast
  have "\<not> (\<forall>z \<in> set xs. k u \<le> k z)" if "u \<in> set us" for u
    using that x by (auto simp: not_le)
  then have "find (\<lambda>x. \<forall>z \<in> set xs. k x \<le> k z) us = None" by (simp add: find_None_iff)
  moreover have "\<forall>z \<in> set xs. k y \<le> k z" using x by fastforce
  ultimately have "find (\<lambda>x. \<forall>z \<in> set xs. k x \<le> k z) (us @ y # vs) = Some y"
    by (induction us) (auto split: if_splits)
  then show "firstMin k xs = Some y" by (simp add: firstMin_def flip: x(1))
qed

lemma firstMin_None: "firstMin k xs = None \<longleftrightarrow> xs = []"
proof
  assume n: "firstMin k xs = None"
  show "xs = []"
  proof (rule ccontr)
    assume "xs \<noteq> []"
    then have "Min (k ` set xs) \<in> k ` set xs" by simp
    then obtain x where x: "x \<in> set xs" "k x = Min (k ` set xs)" by auto
    then have "\<forall>y \<in> set xs. k x \<le> k y" by simp
    then show False using n x(1) by (auto simp: firstMin_def find_None_iff)
  qed
qed (simp add: firstMin_def)

lemma firstMin_snoc:
  "firstMin k (xs @ [x]) = (case firstMin k xs of None \<Rightarrow> Some x | Some y \<Rightarrow> if k x < k y then Some x else Some y)"
proof (cases "firstMin k xs")
  case None
  then show ?thesis by (simp add: firstMin_None) (simp add: firstMin_def)
next
  case (Some y)
  then obtain us vs where xs: "xs = us @ y # vs" "\<forall>u \<in> set us. k y < k u" "\<forall>v \<in> set vs. k y \<le> k v"
    using firstMin_Some by metis
  show ?thesis
  proof (cases "k x < k y")
    case True
    then have "\<forall>u \<in> set xs. k x < k u" using xs by auto
    then have "firstMin k (xs @ [x]) = Some x" by (subst firstMin_Some) (intro exI [of _ xs] exI [of _ "[]"], simp)
    then show ?thesis using True Some by simp
  next
    case False
    then have "firstMin k (xs @ [x]) = Some y" using xs
      by (subst firstMin_Some) (intro exI [of _ us] exI [of _ "vs @ [x]"], auto)
    then show ?thesis using False Some by simp
  qed
qed

section \<open>The index implements the rule\<close>

lemma find_append: "find P (xs @ ys) = (case find P xs of Some x \<Rightarrow> Some x | None \<Rightarrow> find P ys)"
  by (induction xs) auto

lemma map_of_seePath:
  "map_of (foldl seePath [] ps) s = map_option fst (find (\<lambda>x. fbPath (snd x) = s) ps)"
proof (induction ps rule: rev_induct)
  case (snoc x ps)
  show ?case
  proof (cases "s = fbPath (snd x)")
    case True
    show ?thesis using snoc unfolding True
      by (cases "map_of (foldl seePath [] ps) (fbPath (snd x))") (auto simp: seePath_def find_append split: option.splits)
  next
    case False
    then show ?thesis using snoc by (auto simp: seePath_def find_append split: option.splits)
  qed
qed simp

lemma find_enumerate:
  "find (\<lambda>x. P (snd x)) (enumerate n xs) = Some (i, f) \<Longrightarrow>
     find P xs = Some f \<and> n \<le> i \<and> i - n < length xs \<and> xs ! (i - n) = f"
  by (induction xs arbitrary: n) (fastforce simp: Suc_diff_le Suc_le_eq nth_Cons' split: if_splits)+

lemma find_enumerate_None: "find (\<lambda>x. P (snd x)) (enumerate n xs) = None \<longleftrightarrow> find P xs = None"
  by (induction xs arbitrary: n) auto

lemma find_or:
  assumes "sorted_wrt (\<lambda>x y. fst x < fst y) (ps :: (nat \<times> 'a) list)"
  shows "find (\<lambda>x. P x \<or> Q x) ps =
    (case find P ps of
       Some x \<Rightarrow> (case find Q ps of Some y \<Rightarrow> if fst x < fst y then Some x else Some y | None \<Rightarrow> Some x)
     | None \<Rightarrow> find Q ps)"
  using assms
proof (induction ps)
  case (Cons x ps)
  have later: "find R ps = Some y \<Longrightarrow> fst x < fst y" for R y
    using Cons.prems by (auto simp: find_Some_iff)
  then show ?case using Cons
    by (auto split: option.splits dest!: later)
qed simp

lemma enumerate_sorted: "sorted_wrt (\<lambda>x y. fst x < fst y) (enumerate n xs)"
  by (simp add: sorted_wrt_iff_nth_less nth_enumerate_eq)

definition shortestWith :: "string \<Rightarrow> (nat \<times> fileBlocks) list \<Rightarrow> (nat \<times> fileBlocks) option" where
  "shortestWith s ps =
     firstMin (\<lambda>x. length (fbPath (snd x))) (filter (\<lambda>x. hasSlash s \<and> dirSuffix s (fbPath (snd x))) ps)"

lemma foldl_seeSuffix:
  assumes "distinct ss"
  shows "map_of (foldl (seeSuffix files x) m ss) s =
    (if s \<in> set ss then
       (case map_of m s of None \<Rightarrow> Some (fst x)
        | Some best \<Rightarrow> Some (if length (fbPath (snd x)) < length (fbPath (files ! best)) then fst x else best))
     else map_of m s)"
  using assms
proof (induction ss arbitrary: m)
  case (Cons t ss)
  have "map_of (seeSuffix files x m t) r = (if r = t then
       (case map_of m t of None \<Rightarrow> Some (fst x)
        | Some best \<Rightarrow> Some (if length (fbPath (snd x)) < length (fbPath (files ! best)) then fst x else best))
      else map_of m r)" for r
    by (cases "map_of m t") (auto simp: seeSuffix_def)
  then show ?case using Cons by simp
qed simp

lemma sorted_wrt_distinct: "sorted_wrt R xs \<Longrightarrow> (\<And>x. \<not> R x x) \<Longrightarrow> distinct xs"
  by (induction xs) auto

lemma distinct_slashSuffixes: "distinct (slashSuffixes p)"
proof -
  have "sorted_wrt (\<lambda>s t. length t < length s) (dirSuffixes p)"
    using dirSuffixes_shorter [of p] by simp
  then have "distinct (dirSuffixes p)" by (rule sorted_wrt_distinct) simp
  then show ?thesis by (simp add: slashSuffixes_def distinct_takeWhile)
qed

lemma map_of_forward:
  assumes "\<forall>x \<in> set ps. files ! fst x = snd x"
  shows "map_of (foldl (seeSuffixes files) [] ps) s = map_option fst (shortestWith s ps)"
  using assms
proof (induction ps rule: rev_induct)
  case Nil
  then show ?case by (simp add: shortestWith_def firstMin_def)
next
  case (snoc x ps)
  let ?m = "foldl (seeSuffixes files) [] ps"
  have IH: "map_of ?m s = map_option fst (shortestWith s ps)" using snoc by simp
  have at: "files ! fst y = snd y" if "shortestWith s ps = Some y" for y
    using that snoc.prems by (auto simp: shortestWith_def firstMin_def find_Some_iff dest!: nth_mem)
  have "map_of (foldl (seeSuffixes files) [] (ps @ [x])) s =
    (if dirSuffix s (fbPath (snd x)) \<and> hasSlash s then
       (case map_of ?m s of None \<Rightarrow> Some (fst x)
        | Some best \<Rightarrow> Some (if length (fbPath (snd x)) < length (fbPath (files ! best)) then fst x else best))
     else map_of ?m s)"
    by (simp add: seeSuffixes_def foldl_seeSuffix [OF distinct_slashSuffixes] set_slashSuffixes)
  also have "\<dots> = map_option fst (shortestWith s (ps @ [x]))"
    using IH at by (auto simp: shortestWith_def firstMin_snoc split: option.splits)
  finally show ?case .
qed

lemma firstHit_find:
  "firstHit m ss = (case find (\<lambda>s. map_of m s \<noteq> None) ss of Some s \<Rightarrow> map_of m s | None \<Rightarrow> None)"
  by (induction ss) (auto split: option.splits)

lemma find_map: "find P (map f xs) = map_option f (find (\<lambda>x. P (f x)) xs)"
  by (induction xs) auto

lemma firstMin_map: "firstMin k (map f xs) = map_option f (firstMin (\<lambda>x. k (f x)) xs)"
  by (simp add: firstMin_def find_map)

lemma firstMin_set: "firstMin k xs = Some y \<Longrightarrow> y \<in> set xs"
  by (auto simp: firstMin_Some)

lemma nth_fst_enumerate:
  assumes "\<And>x. r = Some x \<Longrightarrow> x \<in> set (enumerate 0 files)"
  shows "map_option (nth files) (map_option fst r) = map_option snd r"
  using assms by (cases r) (force simp: in_set_enumerate_eq)+

lemma nth_find:
  "map_option (nth files) (map_option fst (find (\<lambda>x. P (snd x)) (enumerate 0 files))) = find P files"
proof -
  have "find P (map snd (enumerate 0 files)) = map_option snd (find (\<lambda>x. P (snd x)) (enumerate 0 files))"
    by (rule find_map)
  moreover have "x \<in> set (enumerate 0 files)" if "find (\<lambda>x. P (snd x)) (enumerate 0 files) = Some x" for x
    using that by (auto simp: find_Some_iff)
  ultimately show ?thesis using nth_fst_enumerate [of "find (\<lambda>x. P (snd x)) (enumerate 0 files)" files] by simp
qed

lemma nth_shortestWith:
  "map_option (nth files) (map_option fst (shortestWith s (enumerate 0 files))) =
     firstMin (\<lambda>f. length (fbPath f)) (filter (\<lambda>f. hasSlash s \<and> dirSuffix s (fbPath f)) files)"
proof -
  have "filter (\<lambda>f. hasSlash s \<and> dirSuffix s (fbPath f)) (map snd (enumerate 0 files))
      = map snd (filter (\<lambda>x. hasSlash s \<and> dirSuffix s (fbPath (snd x))) (enumerate 0 files))"
    by (simp only: filter_map comp_def)
  then have "firstMin (\<lambda>f. length (fbPath f)) (filter (\<lambda>f. hasSlash s \<and> dirSuffix s (fbPath f)) files)
      = map_option snd (shortestWith s (enumerate 0 files))"
    by (simp add: shortestWith_def firstMin_map)
  moreover have "x \<in> set (enumerate 0 files)" if "shortestWith s (enumerate 0 files) = Some x" for x
    using firstMin_set that by (fastforce simp: shortestWith_def)
  ultimately show ?thesis using nth_fst_enumerate [of "shortestWith s (enumerate 0 files)"] by simp
qed

lemma dirSuffix_length_unique: "dirSuffix s p \<Longrightarrow> dirSuffix t p \<Longrightarrow> length s = length t \<Longrightarrow> s = t"
  unfolding dirSuffix_iff by (metis append_eq_append_conv length_Cons list.inject)

lemma longest_suffix:
  assumes "find (\<lambda>s. find (\<lambda>f. fbPath f = s) files \<noteq> None) (slashSuffixes dp) = Some s"
    and "find (\<lambda>f. fbPath f = s) files = Some y"
  shows "firstMin (\<lambda>f. - int (length (fbPath f))) (filter (\<lambda>f. hasSlash (fbPath f) \<and> dirSuffix (fbPath f) dp) files)
    = Some y"
proof -
  let ?C = "\<lambda>f. hasSlash (fbPath f) \<and> dirSuffix (fbPath f) dp"
  have sorted: "sorted_wrt (\<lambda>s t. length t < length s) (slashSuffixes dp)"
    using dirSuffixes_shorter [of dp] by (simp add: slashSuffixes_def sorted_wrt_takeWhile)
  obtain i where i: "i < length (slashSuffixes dp)" "s = slashSuffixes dp ! i"
    "\<forall>j < i. find (\<lambda>f. fbPath f = slashSuffixes dp ! j) files = None"
    using assms(1) [unfolded find_Some_iff not_not] by blast
  have s: "hasSlash s" "dirSuffix s dp" using i set_slashSuffixes [of s dp] by auto
  have short: "length (fbPath f) \<le> length s \<and> (length (fbPath f) = length s \<longrightarrow> fbPath f = s)"
    if f: "f \<in> set files" "?C f" for f
  proof -
    obtain j where j: "j < length (slashSuffixes dp)" "fbPath f = slashSuffixes dp ! j"
      using f(2) set_slashSuffixes [of "fbPath f" dp] by (auto simp: in_set_conv_nth)
    have "\<not> j < i" using i(3) j(2) f(1) by (auto simp: find_None_iff)
    then have "length (fbPath f) \<le> length s"
      using sorted i(1,2) j by (cases "j = i") (auto simp: sorted_wrt_iff_nth_less less_imp_le)
    then show ?thesis using dirSuffix_length_unique f(2) s(2) by blast
  qed
  obtain k where k: "k < length files" "y = files ! k" "fbPath y = s" "\<forall>j < k. fbPath (files ! j) \<noteq> s"
    using assms(2) by (auto simp: find_Some_iff)
  have "files = take k files @ y # drop (Suc k) files" using k by (simp add: id_take_nth_drop)
  then have "filter ?C files = filter ?C (take k files) @ filter ?C (y # drop (Suc k) files)"
    by (metis filter_append)
  then have f: "filter ?C files = filter ?C (take k files) @ y # filter ?C (drop (Suc k) files)"
    using k(3) s by simp
  have "length (fbPath u) < length s" if u: "u \<in> set (filter ?C (take k files))" for u
  proof -
    obtain j where "j < k" "u = files ! j" using u k(1) by (auto simp: in_set_conv_nth)
    moreover have "u \<in> set files" "?C u" using u in_set_takeD by fastforce+
    ultimately show ?thesis using short [of u] k(4) by (cases "length (fbPath u) = length s") auto
  qed
  moreover have "length (fbPath v) \<le> length s" if "v \<in> set (filter ?C (drop (Suc k) files))" for v
    using that short [of v] in_set_dropD by fastforce
  ultimately show ?thesis unfolding firstMin_Some using k(3) 
    by (intro exI [of _ "filter ?C (take k files)"] exI [of _ "filter ?C (drop (Suc k) files)"] conjI f) auto
qed

lemma match_pairing: "match (newProfileIndex files pathPrefix) dp pathPrefix = pairing files pathPrefix dp"
proof -
  let ?ps = "enumerate 0 files"
  define idx where "idx = newProfileIndex files pathPrefix"
  have idx: "piFiles idx = files" "\<And>s. map_of (byPath idx) s = map_option fst (find (\<lambda>x. fbPath (snd x) = s) ?ps)"
    by (simp_all add: idx_def newProfileIndex_def map_of_seePath)
  have at: "map_option (nth files) (map_of (byPath idx) s) = find (\<lambda>f. fbPath f = s) files" for s
    unfolding idx(2) by (rule nth_find)
  have none: "map_of (byPath idx) s = None \<longleftrightarrow> find (\<lambda>f. fbPath f = s) files = None" for s
    using at [of s] by (metis option.map_disc_iff)
  have "match idx dp pathPrefix = pairing files pathPrefix dp"
  proof (cases "pathPrefix = []")
    case False
    let ?want = "trimSuffix pathPrefix ''/'' @ ''/'' @ dp"
    have "matchIndex idx dp pathPrefix
        = map_option fst (find (\<lambda>x. fbPath (snd x) = ?want \<or> fbPath (snd x) = dp) ?ps)"
      unfolding find_or [OF enumerate_sorted] matchIndex_def idx(2)
      using False by (simp add: Let_def split: option.split)
    then show ?thesis using False nth_find [of files "\<lambda>f. fbPath f = ?want \<or> fbPath f = dp"]
      by (simp add: match_def pairing_def idx(1))
  next
    case True
    have fwd: "map_of (forward idx) s = map_option fst (shortestWith s ?ps)" for s
    proof -
      have "\<forall>x \<in> set ?ps. files ! fst x = snd x" by (auto simp: in_set_enumerate_eq)
      then show ?thesis using True map_of_forward [of ?ps files s] by (simp add: idx_def newProfileIndex_def)
    qed
    let ?short = "firstMin (\<lambda>f. length (fbPath f)) (filter (\<lambda>f. hasSlash dp \<and> dirSuffix dp (fbPath f)) files)"
    let ?long = "firstMin (\<lambda>f. - int (length (fbPath f)))
      (filter (\<lambda>f. hasSlash (fbPath f) \<and> dirSuffix (fbPath f) dp) files)"
    have sh: "map_option (nth files) (if hasSlash dp then map_of (forward idx) dp else None) = ?short"
      using nth_shortestWith [of files dp] fwd [of dp] by (auto simp: firstMin_def)
    have lo: "map_option (nth files) (firstHit (byPath idx) (slashSuffixes dp)) = ?long"
    proof (cases "find (\<lambda>s. find (\<lambda>f. fbPath f = s) files \<noteq> None) (slashSuffixes dp)")
      case None
      then have "\<forall>f \<in> set files. fbPath f \<notin> set (slashSuffixes dp)" by (fastforce simp: find_None_iff)
      then have "filter (\<lambda>f. hasSlash (fbPath f) \<and> dirSuffix (fbPath f) dp) files = []"
        by (auto simp: set_slashSuffixes filter_empty_conv)
      then show ?thesis using None by (simp add: firstHit_find none firstMin_def)
    next
      case (Some s)
      then obtain y where y: "find (\<lambda>f. fbPath f = s) files = Some y" by (auto simp: find_Some_iff)
      then show ?thesis using Some at [of s] longest_suffix [OF Some y] by (simp add: firstHit_find none)
    qed
    show ?thesis using at [of dp] none [of dp] sh lo True
      by (auto simp: match_def matchIndex_def pairing_def idx(1) split: option.splits)
  qed
  then show ?thesis by (simp add: idx_def)
qed

section \<open>Compute\<close>

text \<open>
  The Go map of the changed lines inside a statement block, each with whether it ran. Its
  iteration order is the list's; the result counts the entries and sorts what it lists.
\<close>

definition executableLines :: "span list \<Rightarrow> span list \<Rightarrow> int list \<Rightarrow> (int, bool) gomap" where
  "executableLines allSpans ranSpans lines =
     foldl (\<lambda>m l. if inSpans allSpans l then AList.update l (inSpans ranSpans l) m else m) [] lines"

definition countLine :: "fileCov \<Rightarrow> int \<times> bool \<Rightarrow> fileCov" where
  "countLine fc x =
     (if snd x then fc\<lparr>fcCoveredLines := fcCoveredLines fc + 1\<rparr>
      else fc\<lparr>fcUncoveredLines := fcUncoveredLines fc @ [fst x]\<rparr>)"

definition computeFile :: "string \<Rightarrow> block list \<Rightarrow> int list \<Rightarrow> fileCov option" where
  "computeFile dp blocks lines =
     (let executable = executableLines (MergedSpans blocks Statement) (MergedSpans blocks Ran) lines
      in if executable = [] then None
         else let fc = foldl countLine \<lparr>fcPath = dp, fcCoveredLines = 0,
                    fcTotalLines = int (length executable), fcUncoveredLines = []\<rparr> executable
              in Some (fc\<lparr>fcUncoveredLines := sort (fcUncoveredLines fc)\<rparr>))"

definition computePath :: "profileIndex \<Rightarrow> string \<Rightarrow> (string, int list) gomap \<Rightarrow> diffResult \<Rightarrow> string \<Rightarrow> diffResult" where
  "computePath idx pathPrefix added res dp =
     (let lines = (case map_of added dp of Some ls \<Rightarrow> ls | None \<Rightarrow> [])
      in if lines = [] then res
         else case match idx dp pathPrefix of
           None \<Rightarrow> res\<lparr>rUnmatchedFiles := rUnmatchedFiles res @ [dp]\<rparr>
         | Some fb \<Rightarrow>
             (case computeFile dp (fbBlocks fb) lines of
                None \<Rightarrow> res
              | Some fc \<Rightarrow> res\<lparr>rFiles := rFiles res @ [fc],
                  rCoveredLines := rCoveredLines res + fcCoveredLines fc,
                  rTotalLines := rTotalLines res + fcTotalLines fc\<rparr>))"

definition Compute :: "fileBlocks list \<Rightarrow> (string, int list) gomap \<Rightarrow> string \<Rightarrow> diffResult" where
  "Compute files added pathPrefix =
     foldl (computePath (newProfileIndex files pathPrefix) pathPrefix added)
       \<lparr>rFiles = [], rCoveredLines = 0, rTotalLines = 0, rUnmatchedFiles = []\<rparr>
       (sort (keysOf added))"

section \<open>The rule by lines\<close>

text \<open>
  What the documentation promises, line by line: of the changed lines, those a statement block
  spans count, and those a block that ran spans are covered.
\<close>

definition changedIn :: "block list \<Rightarrow> (block \<Rightarrow> bool) \<Rightarrow> int list \<Rightarrow> int set" where
  "changedIn blocks keep lines = set lines \<inter> keptLines blocks keep"

definition lineCoverage :: "string \<Rightarrow> block list \<Rightarrow> int list \<Rightarrow> fileCov" where
  "lineCoverage dp blocks lines =
     (let executable = changedIn blocks Statement lines; ran = changedIn blocks Ran lines
      in \<lparr>fcPath = dp, fcCoveredLines = int (card ran), fcTotalLines = int (card executable),
          fcUncoveredLines = sorted_list_of_set (executable - ran)\<rparr>)"

definition measured :: "fileBlocks list \<Rightarrow> (string, int list) gomap \<Rightarrow> string \<Rightarrow> string \<Rightarrow> fileCov option" where
  "measured files added pathPrefix dp =
     (case (map_of added dp, pairing files pathPrefix dp) of
        (Some lines, Some fb) \<Rightarrow>
          if changedIn (fbBlocks fb) Statement lines = {} then None
          else Some (lineCoverage dp (fbBlocks fb) lines)
      | _ \<Rightarrow> None)"

lemma keptLines_ran: "keptLines blocks Ran \<subseteq> keptLines blocks Statement"
  by (rule keptLines_mono) (simp add: Ran_def Statement_def)

lemma executableLines_inv:
  fixes P Q :: "int \<Rightarrow> bool"
  shows "wfMap (foldl (\<lambda>m l. if P l then AList.update l (Q l) m else m) [] lines)
    \<and> map_of (foldl (\<lambda>m l. if P l then AList.update l (Q l) m else m) [] lines)
        = (\<lambda>l. if l \<in> set lines \<and> P l then Some (Q l) else None)"
  by (induction lines rule: rev_induct) auto

lemma countLine_fold:
  "foldl countLine fc xs = fc\<lparr>fcCoveredLines := fcCoveredLines fc + int (length (filter snd xs)),
     fcUncoveredLines := fcUncoveredLines fc @ map fst (filter (\<lambda>x. \<not> snd x) xs)\<rparr>"
  by (induction xs arbitrary: fc) (simp_all add: countLine_def)

lemma wfMap_filter: "wfMap m \<Longrightarrow> distinct (map fst (filter P m))"
  by (simp add: wfMap_def distinct_map_filter)

lemma set_keys_filter: "set (map fst (filter P m)) = {l. \<exists>c. (l, c) \<in> set m \<and> P (l, c)}"
  by force

lemma computeFile_lines:
  assumes "endsInRange blocks"
  shows "computeFile dp blocks lines =
    (if changedIn blocks Statement lines = {} then None else Some (lineCoverage dp blocks lines))"
proof -
  let ?m = "executableLines (MergedSpans blocks Statement) (MergedSpans blocks Ran) lines"
  let ?ex = "changedIn blocks Statement lines" and ?ran = "changedIn blocks Ran lines"
  note spans = MergedSpans_correct [OF assms]
  have m: "wfMap ?m" "map_of ?m = (\<lambda>l. if l \<in> ?ex then Some (l \<in> ?ran) else None)"
    using executableLines_inv [of "inSpans (MergedSpans blocks Statement)" "inSpans (MergedSpans blocks Ran)" lines]
    by (auto simp: executableLines_def changedIn_def inSpans_correct spans fun_eq_iff)
  have mem: "(l, c) \<in> set ?m \<longleftrightarrow> l \<in> ?ex \<and> (c \<longleftrightarrow> l \<in> ?ran)" for l c
    using wfMap_map_of [OF m(1), of l c] m(2) by auto
  have sub: "?ran \<subseteq> ?ex" using keptLines_ran by (auto simp: changedIn_def)
  have keys: "set (map fst (filter snd ?m)) = ?ran" "set (map fst (filter (\<lambda>x. \<not> snd x) ?m)) = ?ex - ?ran"
    unfolding set_keys_filter mem using sub by auto
  have dom: "set (keysOf ?m) = ?ex" unfolding set_keysOf m(2) by (auto split: if_splits)
  have cards: "length ?m = card ?ex" "length (filter snd ?m) = card ?ran"
    using distinct_card [of "keysOf ?m"] distinct_card [OF wfMap_filter [OF m(1), of snd]] m(1) keys(1) dom
    by (simp_all add: wfMap_def)
  have un: "sort (map fst (filter (\<lambda>x. \<not> snd x) ?m)) = sorted_list_of_set (?ex - ?ran)"
    using wfMap_filter [OF m(1)] keys(2) by (metis sorted_list_of_set_sort_remdups distinct_remdups_id)
  have "?m = [] \<longleftrightarrow> ?ex = {}" using dom by auto
  then show ?thesis
    by (simp add: computeFile_def lineCoverage_def countLine_fold cards un Let_def)
qed

definition optList :: "'a option \<Rightarrow> 'a list" where
  "optList x = (case x of None \<Rightarrow> [] | Some y \<Rightarrow> [y])"

lemma pairing_set: "pairing files pathPrefix dp = Some f \<Longrightarrow> f \<in> set files"
  by (auto simp: pairing_def find_Some_iff split: if_splits option.splits dest!: firstMin_set)

lemma computePath_step:
  assumes "\<forall>f \<in> set files. endsInRange (fbBlocks f)"
  shows "computePath (newProfileIndex files pathPrefix) pathPrefix added res dp =
    res\<lparr>rFiles := rFiles res @ optList (measured files added pathPrefix dp),
        rCoveredLines := rCoveredLines res + sum_list (map fcCoveredLines (optList (measured files added pathPrefix dp))),
        rTotalLines := rTotalLines res + sum_list (map fcTotalLines (optList (measured files added pathPrefix dp))),
        rUnmatchedFiles := rUnmatchedFiles res @
          (if map_of added dp \<notin> {None, Some []} \<and> pairing files pathPrefix dp = None then [dp] else [])\<rparr>"
proof -
  have empty: "changedIn bs Statement [] = {}" for bs
    by (simp add: changedIn_def)
  show ?thesis
  proof (cases "pairing files pathPrefix dp")
    case None
    then show ?thesis
      by (auto simp: computePath_def match_pairing measured_def optList_def split: option.splits)
  next
    case (Some f)
    then have "endsInRange (fbBlocks f)" using assms pairing_set by blast
    then show ?thesis using Some computeFile_lines [of "fbBlocks f" dp]
      by (auto simp: computePath_def match_pairing measured_def optList_def empty split: option.splits)
  qed
qed

lemma computePath_fold:
  assumes "\<forall>f \<in> set files. endsInRange (fbBlocks f)"
  shows "foldl (computePath (newProfileIndex files pathPrefix) pathPrefix added) res dps =
    res\<lparr>rFiles := rFiles res @ List.map_filter (measured files added pathPrefix) dps,
        rCoveredLines := rCoveredLines res + sum_list (map fcCoveredLines (List.map_filter (measured files added pathPrefix) dps)),
        rTotalLines := rTotalLines res + sum_list (map fcTotalLines (List.map_filter (measured files added pathPrefix) dps)),
        rUnmatchedFiles := rUnmatchedFiles res @
          filter (\<lambda>dp. map_of added dp \<notin> {None, Some []} \<and> pairing files pathPrefix dp = None) dps\<rparr>"
  by (induction dps arbitrary: res)
     (simp_all add: computePath_step [OF assms] optList_def map_filter_simps split: option.split)

section \<open>DiffPaths\<close>

record diffPaths =
  dpPaths :: "(string, bool) gomap"
  dpSuffixes :: "(string, bool) gomap"

abbreviation isSet :: "(string, bool) gomap \<Rightarrow> string \<Rightarrow> bool" where
  "isSet m s \<equiv> map_of m s = Some True"

definition addPath :: "diffPaths \<Rightarrow> string \<Rightarrow> diffPaths" where
  "addPath d p = d\<lparr>dpPaths := AList.update p True (dpPaths d),
     dpSuffixes := foldl (\<lambda>m suffix. AList.update suffix True m) (dpSuffixes d) (dirSuffixes p)\<rparr>"

definition NewDiffPaths :: "string list \<Rightarrow> diffPaths" where
  "NewDiffPaths paths = foldl addPath \<lparr>dpPaths = [], dpSuffixes = []\<rparr> paths"

definition Touches :: "diffPaths \<Rightarrow> string \<Rightarrow> string \<Rightarrow> bool" where
  "Touches d profilePath pathPrefix =
     (if isSet (dpPaths d) profilePath then True
      else if pathPrefix \<noteq> [] then
        isSet (dpPaths d)
          (case cutPrefix profilePath (trimSuffix pathPrefix ''/'' @ ''/'') of
             Some rest \<Rightarrow> rest | None \<Rightarrow> profilePath)
      else list_ex (isSet (dpPaths d)) (slashSuffixes profilePath)
        \<or> (hasSlash profilePath \<and> isSet (dpSuffixes d) profilePath))"

lemma isSet_fold: "isSet (foldl (\<lambda>m s. AList.update s True m) m ss) s \<longleftrightarrow> s \<in> set ss \<or> isSet m s"
  by (induction ss arbitrary: m) auto

lemma NewDiffPaths_sets:
  "isSet (dpPaths (NewDiffPaths paths)) s \<longleftrightarrow> s \<in> set paths"
  "isSet (dpSuffixes (NewDiffPaths paths)) s \<longleftrightarrow> (\<exists>p \<in> set paths. dirSuffix s p)"
proof -
  have "(isSet (dpPaths (foldl addPath d paths)) s \<longleftrightarrow> s \<in> set paths \<or> isSet (dpPaths d) s)
    \<and> (isSet (dpSuffixes (foldl addPath d paths)) s \<longleftrightarrow> (\<exists>p \<in> set paths. dirSuffix s p) \<or> isSet (dpSuffixes d) s)" for d
    by (induction paths arbitrary: d) (auto simp: addPath_def isSet_fold set_dirSuffixes)
  then show "isSet (dpPaths (NewDiffPaths paths)) s \<longleftrightarrow> s \<in> set paths"
    "isSet (dpSuffixes (NewDiffPaths paths)) s \<longleftrightarrow> (\<exists>p \<in> set paths. dirSuffix s p)"
    by (simp_all add: NewDiffPaths_def)
qed

text \<open>When the rule can bind a path of the diff to a profile path at all.\<close>

definition binds :: "string \<Rightarrow> string \<Rightarrow> string \<Rightarrow> bool" where
  "binds pathPrefix dp q \<longleftrightarrow>
     q = dp \<or>
     (if pathPrefix \<noteq> [] then q = trimSuffix pathPrefix ''/'' @ ''/'' @ dp
      else (hasSlash dp \<and> dirSuffix dp q) \<or> (hasSlash q \<and> dirSuffix q dp))"

lemma Touches_binds: "Touches (NewDiffPaths paths) q pathPrefix \<longleftrightarrow> (\<exists>dp \<in> set paths. binds pathPrefix dp q)"
proof (cases "pathPrefix = []")
  case True
  have "list_ex (isSet (dpPaths (NewDiffPaths paths))) (slashSuffixes q)
      \<longleftrightarrow> (\<exists>dp \<in> set paths. hasSlash dp \<and> dirSuffix dp q)"
    by (auto simp: list_ex_iff NewDiffPaths_sets set_slashSuffixes)
  then show ?thesis using True by (auto simp: Touches_def binds_def NewDiffPaths_sets)
next
  case False
  have "(case cutPrefix q p of Some rest \<Rightarrow> rest | None \<Rightarrow> q) \<in> set paths \<and> q \<notin> set paths
      \<longleftrightarrow> (\<exists>dp \<in> set paths. q = p @ dp) \<and> q \<notin> set paths" for p
    by (auto simp: cutPrefix_def hasPrefix_iff)
  from this [of "trimSuffix pathPrefix ''/'' @ ''/''"] show ?thesis using False
    by (auto simp: Touches_def binds_def NewDiffPaths_sets)
qed

lemma pairing_binds: "pairing files pathPrefix dp = Some f \<Longrightarrow> binds pathPrefix dp (fbPath f)"
  by (auto simp: pairing_def binds_def find_Some_iff split: if_splits option.splits dest!: firstMin_set)

lemma binds_pairing: "pairing files pathPrefix dp = None \<Longrightarrow> f \<in> set files \<Longrightarrow> \<not> binds pathPrefix dp (fbPath f)"
  by (auto simp: pairing_def binds_def find_None_iff firstMin_None filter_empty_conv split: if_splits option.splits)

text \<open>
  C9: Which file a changed path is measured against. Through its two maps, built once, \<open>match\<close>
  returns the file the documented rule names: with a path prefix the first file at the prefixed
  path or at the path itself; without one the file at the path, else the first of the shortest
  profile paths ending with it, else the first of the longest profile paths it ends with, a bare
  name never matching by suffix.
\<close>

theorem match_documented_rule:
  "match (newProfileIndex files pathPrefix) dp pathPrefix =
    (if pathPrefix \<noteq> [] then
       find (\<lambda>f. fbPath f = trimSuffix pathPrefix ''/'' @ ''/'' @ dp \<or> fbPath f = dp) files
     else case find (\<lambda>f. fbPath f = dp) files of
       Some f \<Rightarrow> Some f
     | None \<Rightarrow>
         (case firstMin (\<lambda>f. length (fbPath f)) (filter (\<lambda>f. hasSlash dp \<and> dirSuffix dp (fbPath f)) files) of
            Some f \<Rightarrow> Some f
          | None \<Rightarrow> firstMin (\<lambda>f. - int (length (fbPath f)))
              (filter (\<lambda>f. hasSlash (fbPath f) \<and> dirSuffix (fbPath f) dp) files)))"
  by (simp only: match_pairing pairing_def)

text \<open>
  C10: Diff coverage is line coverage of the changed lines. For every changed path, in sorted
  order, \<open>Compute\<close> reports the paired file's executable changed lines, those of them a block
  that ran spans, and the rest as sorted uncovered lines; a path without a file is unmatched;
  the totals are the sums. Nothing depends on the order in which the diff's map is iterated,
  nor on how many lines the blocks claim.
\<close>

theorem compute_by_lines:
  assumes "wfMap changes" and "\<forall>f \<in> set files. endsInRange (fbBlocks f)"
  shows "let dps = sorted_list_of_set (dom (map_of changes));
             fcs = List.map_filter (measured files changes pathPrefix) dps
    in Compute files changes pathPrefix =
       \<lparr>rFiles = fcs, rCoveredLines = sum_list (map fcCoveredLines fcs),
        rTotalLines = sum_list (map fcTotalLines fcs),
        rUnmatchedFiles =
          filter (\<lambda>dp. map_of changes dp \<noteq> Some [] \<and> pairing files pathPrefix dp = None) dps\<rparr>"
proof -
  have "sort (keysOf changes) = sorted_list_of_set (dom (map_of changes))"
    using assms(1) by (metis set_keysOf sorted_list_of_set_sort_remdups distinct_remdups_id wfMap_def)
  moreover have "finite (dom (map_of changes))" by (rule finite_dom_map_of)
  then have "filter (\<lambda>dp. map_of changes dp \<noteq> Some [] \<and> pairing files pathPrefix dp = None)
        (sorted_list_of_set (dom (map_of changes)))
      = filter (\<lambda>dp. map_of changes dp \<notin> {None, Some []} \<and> pairing files pathPrefix dp = None)
        (sorted_list_of_set (dom (map_of changes)))"
    by (intro filter_cong) auto
  ultimately show ?thesis by (simp add: Compute_def computePath_fold [OF assms(2)] Let_def)
qed

theorem compute_by_lines_witness:
  "let b = (\<lambda>s e c. \<lparr>StartLine = s, StartCol = 1, EndLine = e, EndCol = 2, NumStmts = 1, Count = c\<rparr>);
       files = [\<lparr>fbPath = ''ex.com/m/a/b.go'', fbBlocks = [b 1 4 0, b 3 4 2]\<rparr>];
       r = Compute files [(''z.go'', [1]), (''a/b.go'', [2, 3, 9])] []
   in rFiles r = [\<lparr>fcPath = ''a/b.go'', fcCoveredLines = 1, fcTotalLines = 2, fcUncoveredLines = [2]\<rparr>]
    \<and> rTotalLines r = sum_list (map fcTotalLines (rFiles r)) \<and> rUnmatchedFiles r = [''z.go'']"
proof -
  let ?b = "\<lambda>s e c. \<lparr>StartLine = s, StartCol = 1, EndLine = e, EndCol = 2, NumStmts = 1, Count = c\<rparr>"
  let ?files = "[\<lparr>fbPath = ''ex.com/m/a/b.go'', fbBlocks = [?b 1 4 0, ?b 3 4 2]\<rparr>]"
  let ?ch = "[(''z.go'', [1]), (''a/b.go'', [2, 3, 9])] :: (string, int list) gomap"
  have h: "wfMap ?ch" "\<forall>f \<in> set ?files. endsInRange (fbBlocks f)" by code_simp+
  have r: "rFiles (Compute ?files ?ch [])
      = [\<lparr>fcPath = ''a/b.go'', fcCoveredLines = 1, fcTotalLines = 2, fcUncoveredLines = [2]\<rparr>]"
    "rUnmatchedFiles (Compute ?files ?ch []) = [''z.go'']" by code_simp+
  have "rTotalLines (Compute ?files ?ch []) = sum_list (map fcTotalLines (rFiles (Compute ?files ?ch [])))"
    using compute_by_lines [OF h, of "[]"] by (simp add: Let_def)
  then show ?thesis using r by (simp add: Let_def)
qed

text \<open>
  The files flagged as changed are those diff coverage measures. Every file some changed
  path is paired with is touched by the diff, and a file no changed path could be paired with,
  were it the only one in the profile, is not: \<open>Touches\<close> and \<open>match\<close> apply one rule through
  two different indexes.
\<close>

theorem touches_as_measured:
  "(\<forall>files dp f. dp \<in> set paths \<and> match (newProfileIndex files pathPrefix) dp pathPrefix = Some f
      \<longrightarrow> Touches (NewDiffPaths paths) (fbPath f) pathPrefix)
   \<and> (\<forall>f. Touches (NewDiffPaths paths) (fbPath f) pathPrefix
      \<longleftrightarrow> (\<exists>dp \<in> set paths. match (newProfileIndex [f] pathPrefix) dp pathPrefix = Some f))"
proof (intro conjI allI impI)
  fix files dp f
  assume "dp \<in> set paths \<and> match (newProfileIndex files pathPrefix) dp pathPrefix = Some f"
  then show "Touches (NewDiffPaths paths) (fbPath f) pathPrefix"
    unfolding match_pairing Touches_binds using pairing_binds by blast
next
  fix f
  have "binds pathPrefix dp (fbPath f) \<longleftrightarrow> pairing [f] pathPrefix dp = Some f" for dp
    using binds_pairing [of "[f]" pathPrefix dp f] pairing_binds [of "[f]" pathPrefix dp f]
      pairing_set [of "[f]" pathPrefix dp] by (cases "pairing [f] pathPrefix dp") auto
  then show "Touches (NewDiffPaths paths) (fbPath f) pathPrefix
      \<longleftrightarrow> (\<exists>dp \<in> set paths. match (newProfileIndex [f] pathPrefix) dp pathPrefix = Some f)"
    by (simp add: match_pairing Touches_binds)
qed

theorem touches_as_measured_witness:
  "let d = [''src/main/java/com/x/Foo.java'', ''main.go'']
   in match (newProfileIndex [\<lparr>fbPath = ''com/x/Foo.java'', fbBlocks = []\<rparr>] []) (hd d) []
        = Some \<lparr>fbPath = ''com/x/Foo.java'', fbBlocks = []\<rparr>
    \<and> Touches (NewDiffPaths d) ''com/x/Foo.java'' [] \<and> \<not> Touches (NewDiffPaths d) ''cmd/main.go'' []"
proof -
  let ?d = "[''src/main/java/com/x/Foo.java'', ''main.go'']"
  let ?f = "\<lparr>fbPath = ''com/x/Foo.java'', fbBlocks = []\<rparr>"
  have m: "match (newProfileIndex [?f] []) (hd ?d) [] = Some ?f" by code_simp
  then have "Touches (NewDiffPaths ?d) (fbPath ?f) []"
    using touches_as_measured [of ?d "[]", THEN conjunct1, rule_format, of "hd ?d" "[?f]" ?f] by simp
  moreover have "\<not> Touches (NewDiffPaths ?d) ''cmd/main.go'' []" by code_simp
  ultimately show ?thesis using m by (simp add: Let_def)
qed

end
