(* ===== verification/DiffMerge.thy ===== *)
theory DiffMerge
  imports DiffCov
begin

text \<open>
  \<open>internal/diffcov/merge.go\<close>: the diff coverage of a commit out of the diff coverage of its
  parts.
\<close>

section \<open>mergeFile\<close>

text \<open>The first loop: the largest total, and whether all are the same.\<close>

definition stepTotal :: "int \<times> bool \<Rightarrow> fileCov \<Rightarrow> int \<times> bool" where
  "stepTotal x f = (case x of (tot, agree) \<Rightarrow>
     (if fcTotalLines f > tot then fcTotalLines f else tot, if fcTotalLines f \<noteq> tot then False else agree))"

definition countUncovered :: "(int, int) gomap \<Rightarrow> int \<Rightarrow> (int, int) gomap" where
  "countUncovered m l = AList.update l ((case map_of m l of Some n \<Rightarrow> n | None \<Rightarrow> 0) + 1) m"

definition mergeFile :: "string \<Rightarrow> fileCov list \<Rightarrow> fileCov \<times> bool" where
  "mergeFile path parts =
     (let (tot, agree) = foldl stepTotal (fcTotalLines (hd parts), True) (tl parts);
          uncoveredCount = foldl (\<lambda>m f. foldl countUncovered m (fcUncoveredLines f)) [] parts;
          uncovered = sort (map fst (filter (\<lambda>(_, n). (agree \<and> n = int (length parts)) \<or> \<not> agree) uncoveredCount));
          tot = (if int (length uncovered) > tot then int (length uncovered) else tot)
      in (\<lparr>fcPath = path, fcCoveredLines = tot - int (length uncovered), fcTotalLines = tot,
           fcUncoveredLines = uncovered\<rparr>, \<not> agree))"

section \<open>Merge\<close>

definition groupFile :: "(string, fileCov list) gomap \<times> string list \<Rightarrow> fileCov \<Rightarrow> (string, fileCov list) gomap \<times> string list" where
  "groupFile x f = (case x of (m, order) \<Rightarrow>
     (case map_of m (fcPath f) of
        None \<Rightarrow> (AList.update (fcPath f) [f] m, order @ [fcPath f])
      | Some fs \<Rightarrow> (AList.update (fcPath f) (fs @ [f]) m, order)))"

definition addMerged :: "(string, fileCov list) gomap \<Rightarrow> fileCov list \<times> string list \<Rightarrow> string \<Rightarrow> fileCov list \<times> string list" where
  "addMerged m x path = (case x of (out, conflicts) \<Rightarrow>
     let (fc, conflicted) = mergeFile path (case map_of m path of Some fs \<Rightarrow> fs | None \<Rightarrow> [])
     in (out @ [fc], if conflicted then conflicts @ [path] else conflicts))"

definition addUnmatched :: "(string, fileCov list) gomap \<Rightarrow> string list \<Rightarrow> string \<Rightarrow> string list" where
  "addUnmatched m seen p = (if p \<notin> set seen \<and> map_of m p = None then seen @ [p] else seen)"

definition diffcovMerge :: "diffResult option list \<Rightarrow> diffResult option \<times> string list" where
  "diffcovMerge results =
     (let present = List.map_filter id results
      in if present = [] then (None, [])
         else
           let (m, order) = foldl (\<lambda>x r. foldl groupFile x (rFiles r)) ([], []) present;
               (files, conflicts) = foldl (addMerged m) ([], []) order;
               files = sort_key fcPath files;
               unmatched = foldl (\<lambda>seen r. foldl (addUnmatched m) seen (rUnmatchedFiles r)) [] present
           in (Some \<lparr>rFiles = files, rCoveredLines = foldl (\<lambda>c f. c + fcCoveredLines f) 0 files,
                     rTotalLines = foldl (\<lambda>t f. t + fcTotalLines f) 0 files,
                     rUnmatchedFiles = sort unmatched\<rparr>,
               sort conflicts))"

section \<open>Closed forms\<close>

definition agreeing :: "fileCov list \<Rightarrow> bool" where
  "agreeing parts \<longleftrightarrow> (\<forall>f \<in> set parts. \<forall>g \<in> set parts. fcTotalLines f = fcTotalLines g)"

definition occursIn :: "fileCov list \<Rightarrow> int \<Rightarrow> int" where
  "occursIn parts l = (\<Sum>f\<leftarrow>parts. int (count_list (fcUncoveredLines f) l))"

definition uncoveredIn :: "fileCov list \<Rightarrow> int set" where
  "uncoveredIn parts =
     (if agreeing parts then {l \<in> (\<Union>f \<in> set parts. set (fcUncoveredLines f)). occursIn parts l = int (length parts)}
      else (\<Union>f \<in> set parts. set (fcUncoveredLines f)))"

definition mergedTotal :: "fileCov list \<Rightarrow> int" where
  "mergedTotal parts = max (Max (fcTotalLines ` set parts)) (int (card (uncoveredIn parts)))"

lemma foldl_stepTotal:
  "foldl stepTotal (t, a) fs =
    (Max (insert t (fcTotalLines ` set fs)), a \<and> (\<forall>f \<in> set fs. fcTotalLines f = t))"
proof (induction fs arbitrary: t a)
  case (Cons f fs)
  have "Max (insert (max t x) A) = Max (insert t (insert x A))" if "finite A" for x :: int and A
    using that by (cases "A = {}") (simp_all add: max.assoc max.commute max.left_commute)
  then have "Max (insert (max t (fcTotalLines f)) (fcTotalLines ` set fs))
      = Max (insert t (insert (fcTotalLines f) (fcTotalLines ` set fs)))" by simp
  moreover have "(if fcTotalLines f > t then fcTotalLines f else t) = max t (fcTotalLines f)" by simp
  ultimately show ?case using Cons.IH [of "max t (fcTotalLines f)"]
    by (cases "fcTotalLines f = t") (auto simp: stepTotal_def)
qed simp

lemma foldl_countUncovered:
  "wfMap m \<Longrightarrow> wfMap (foldl countUncovered m ls)
    \<and> map_of (foldl countUncovered m ls) l =
        (if l \<in> set ls \<or> map_of m l \<noteq> None
         then Some ((case map_of m l of Some n \<Rightarrow> n | None \<Rightarrow> 0) + int (count_list ls l)) else None)"
proof (induction ls arbitrary: m)
  case (Cons k ls)
  then show ?case by (cases "l = k") (auto simp: countUncovered_def split: option.splits)
qed (auto split: option.split)

lemma uncoveredCount_parts:
  "wfMap (foldl (\<lambda>m f. foldl countUncovered m (fcUncoveredLines f)) [] parts)
    \<and> map_of (foldl (\<lambda>m f. foldl countUncovered m (fcUncoveredLines f)) [] parts) l =
        (if l \<in> (\<Union>f \<in> set parts. set (fcUncoveredLines f)) then Some (occursIn parts l) else None)"
proof (induction parts rule: rev_induct)
  case (snoc f parts)
  let ?m = "foldl (\<lambda>m f. foldl countUncovered m (fcUncoveredLines f)) [] parts"
  have "occursIn parts l = 0" if "l \<notin> (\<Union>f \<in> set parts. set (fcUncoveredLines f))"
    using that by (simp add: occursIn_def count_list_0_iff cong: map_cong)
  then show ?case using snoc foldl_countUncovered [of ?m "fcUncoveredLines f" l]
    by (auto simp: occursIn_def count_list_0_iff)
qed (simp add: occursIn_def)

lemma mergeFile_closed:
  assumes "parts \<noteq> []"
  shows "mergeFile path parts =
    (\<lparr>fcPath = path, fcCoveredLines = mergedTotal parts - int (card (uncoveredIn parts)),
      fcTotalLines = mergedTotal parts, fcUncoveredLines = sorted_list_of_set (uncoveredIn parts)\<rparr>,
     \<not> agreeing parts)"
proof -
  let ?m = "foldl (\<lambda>m f. foldl countUncovered m (fcUncoveredLines f)) [] parts"
  let ?P = "\<lambda>(l :: int, n). (agreeing parts \<and> n = int (length parts)) \<or> \<not> agreeing parts"
  have ins: "insert (fcTotalLines (hd parts)) (fcTotalLines ` set (tl parts)) = fcTotalLines ` set parts"
    using assms by (cases parts) auto
  have ag: "(\<forall>f \<in> set (tl parts). fcTotalLines f = fcTotalLines (hd parts)) \<longleftrightarrow> agreeing parts"
    using assms by (cases parts) (auto simp: agreeing_def)
  have t: "foldl stepTotal (fcTotalLines (hd parts), True) (tl parts) = (Max (fcTotalLines ` set parts), agreeing parts)"
    by (simp add: foldl_stepTotal ins ag)
  note u = uncoveredCount_parts [of parts]
  have wf: "wfMap ?m" using u by blast
  have mem: "(l, n) \<in> set ?m \<longleftrightarrow> l \<in> (\<Union>f \<in> set parts. set (fcUncoveredLines f)) \<and> n = occursIn parts l" for l n
    using wfMap_map_of [OF wf, of l n] u [of l] by auto
  have "set (map fst (filter ?P ?m)) = uncoveredIn parts"
    unfolding set_keys_filter mem uncoveredIn_def by auto
  moreover have "distinct (map fst (filter ?P ?m))" using wf by (rule wfMap_filter)
  ultimately have s: "sort (map fst (filter ?P ?m)) = sorted_list_of_set (uncoveredIn parts)"
    "length (sorted_list_of_set (uncoveredIn parts)) = card (uncoveredIn parts)"
    by (metis sorted_list_of_set_sort_remdups distinct_remdups_id) simp
  show ?thesis unfolding mergeFile_def t Let_def prod.case s(1) s(2)
    by (simp add: mergedTotal_def max_def)
qed

definition partsAt :: "diffResult list \<Rightarrow> string \<Rightarrow> fileCov list" where
  "partsAt present p = filter (\<lambda>f. fcPath f = p) (concat (map rFiles present))"

definition mergedPaths :: "diffResult list \<Rightarrow> string set" where
  "mergedPaths present = fcPath ` set (concat (map rFiles present))"

lemma foldl_concat_map: "foldl (\<lambda>x r. foldl f x (g r)) s rs = foldl f s (concat (map g rs))"
  by (induction rs arbitrary: s) auto

lemma groupFile_none:
  assumes "foldl groupFile ([], []) fs = (m, order)"
  shows "map_of m p = None \<longleftrightarrow> p \<notin> set order"
  using assms
proof (induction fs arbitrary: m order rule: rev_induct)
  case (snoc f fs)
  obtain m' order' where x: "foldl groupFile ([], []) fs = (m', order')" by fastforce
  show ?case using snoc.IH [OF x] snoc.prems unfolding foldl_append foldl.simps x
    by (auto simp: groupFile_def split: option.splits if_splits)
qed auto

lemma groupFile_fold:
  assumes "foldl groupFile ([], []) fs = (m, order)"
  shows "map_of m p = (if filter (\<lambda>f. fcPath f = p) fs = [] then None else Some (filter (\<lambda>f. fcPath f = p) fs))
    \<and> distinct order \<and> set order = fcPath ` set fs"
  using assms
proof (induction fs arbitrary: m order rule: rev_induct)
  case (snoc f fs)
  obtain m' order' where x: "foldl groupFile ([], []) fs = (m', order')" by fastforce
  note IH = snoc.IH [OF x]
  have dom: "map_of m' (fcPath f) = None \<longleftrightarrow> fcPath f \<notin> set order'"
    using snoc.IH [OF x, THEN conjunct2] groupFile_none [OF x] by simp
  show ?case
  proof (cases "map_of m' (fcPath f)")
    case None
    then have "m = AList.update (fcPath f) [f] m'" "order = order' @ [fcPath f]"
      using snoc.prems unfolding foldl_append foldl.simps x by (simp_all add: groupFile_def)
    then show ?thesis using IH None dom by (cases "p = fcPath f") auto
  next
    case (Some gs)
    then have "m = AList.update (fcPath f) (gs @ [f]) m'" "order = order'"
      using snoc.prems unfolding foldl_append foldl.simps x by (simp_all add: groupFile_def)
    then show ?thesis using IH Some dom by (cases "p = fcPath f") (auto split: if_splits)
  qed
qed simp

lemma foldl_addMerged:
  "foldl (addMerged m) (out, conflicts) ps =
    (let g = (\<lambda>p. mergeFile p (case map_of m p of Some fs \<Rightarrow> fs | None \<Rightarrow> []))
     in (out @ map (\<lambda>p. fst (g p)) ps, conflicts @ filter (\<lambda>p. snd (g p)) ps))"
  by (induction ps arbitrary: out conflicts) (auto simp: addMerged_def Let_def split: prod.splits)

lemma foldl_addUnmatched:
  "distinct seen \<Longrightarrow> distinct (foldl (addUnmatched m) seen ps)
    \<and> set (foldl (addUnmatched m) seen ps) = set seen \<union> {p \<in> set ps. map_of m p = None}"
  by (induction ps arbitrary: seen) (auto simp: addUnmatched_def)

lemma mergeFile_path: "fcPath (fst (mergeFile p parts)) = p"
  by (simp add: mergeFile_def Let_def split: prod.split)

lemma sort_distinct_set: "distinct xs \<Longrightarrow> sort xs = sorted_list_of_set (set xs)"
  by (metis sorted_list_of_set_sort_remdups distinct_remdups_id)

lemma sort_key_map_keys:
  fixes g :: "'a::linorder \<Rightarrow> 'b"
  assumes "\<And>p. k (g p) = p" and "distinct ps"
  shows "sort_key k (map g ps) = map g (sorted_list_of_set (set ps))"
proof -
  have "sort_key k (map g ps) = map g (sort ps)"
  proof (rule sorted_strict_unique [of k])
    show "sorted_wrt (<) (map k (sort_key k (map g ps)))"
      using assms by (intro sort_key_strict) (simp add: comp_def)
    show "sorted_wrt (<) (map k (map g (sort ps)))"
      using assms by (simp add: comp_def strict_sorted_iff)
  qed simp
  then show ?thesis using assms(2) by (simp add: sort_distinct_set)
qed

lemma diffcovMerge_closed:
  "diffcovMerge results =
    (let present = List.map_filter id results; ps = sorted_list_of_set (mergedPaths present);
         files = map (\<lambda>p. fst (mergeFile p (partsAt present p))) ps
     in if present = [] then (None, [])
        else (Some \<lparr>rFiles = files, rCoveredLines = sum_list (map fcCoveredLines files),
                    rTotalLines = sum_list (map fcTotalLines files),
                    rUnmatchedFiles = sorted_list_of_set
                      ((\<Union>r \<in> set present. set (rUnmatchedFiles r)) - mergedPaths present)\<rparr>,
              filter (\<lambda>p. snd (mergeFile p (partsAt present p))) ps))"
proof -
  define present where "present = List.map_filter id results"
  obtain m order where mo: "foldl groupFile ([], []) (concat (map rFiles present)) = (m, order)" by fastforce
  note g = groupFile_fold [OF mo]
  have get: "(case map_of m p of Some fs \<Rightarrow> fs | None \<Rightarrow> []) = partsAt present p" for p
    using g [of p] by (simp add: partsAt_def)
  have none: "map_of m p = None \<longleftrightarrow> p \<notin> mergedPaths present" for p
    using g [of p] by (auto simp: mergedPaths_def filter_empty_conv)
  have order: "distinct order" "set order = mergedPaths present"
    using g by (simp_all add: mergedPaths_def)
  have files: "sort_key fcPath (map (\<lambda>p. fst (mergeFile p (partsAt present p))) order)
      = map (\<lambda>p. fst (mergeFile p (partsAt present p))) (sorted_list_of_set (mergedPaths present))"
    using sort_key_map_keys [of fcPath "\<lambda>p. fst (mergeFile p (partsAt present p))" order] order
    by (simp add: mergeFile_path)
  have fin: "finite (mergedPaths present)" by (simp add: mergedPaths_def)
  have "sorted_list_of_set {p \<in> mergedPaths present. snd (mergeFile p (partsAt present p))}
      = filter (\<lambda>p. snd (mergeFile p (partsAt present p))) (sorted_list_of_set (mergedPaths present))"
    using fin by (intro strict_sorted_list_of_set [symmetric])
      (auto simp: sorted_wrt_filter strict_sorted_iff)
  then have conf: "sort (filter (\<lambda>p. snd (mergeFile p (partsAt present p))) order)
      = filter (\<lambda>p. snd (mergeFile p (partsAt present p))) (sorted_list_of_set (mergedPaths present))"
    using order by (simp add: sort_distinct_set Collect_conj_eq flip: set_filter) (simp add: Int_def order)
  have "sort (foldl (\<lambda>seen r. foldl (addUnmatched m) seen (rUnmatchedFiles r)) [] present)
      = sorted_list_of_set ((\<Union>r \<in> set present. set (rUnmatchedFiles r)) - mergedPaths present)"
    using foldl_addUnmatched [of "[]" m "concat (map rUnmatchedFiles present)"] none
    by (simp add: foldl_concat_map sort_distinct_set) (rule arg_cong [of _ _ sorted_list_of_set], auto)
  moreover have "foldl (\<lambda>c f. c + h f) 0 fs = sum_list (map h fs)" for h :: "fileCov \<Rightarrow> int" and fs
    by (induction fs rule: rev_induct) auto
  ultimately show ?thesis unfolding diffcovMerge_def Let_def present_def [symmetric]
    by (simp add: foldl_concat_map mo foldl_addMerged get files conf Let_def)
qed

section \<open>What the parts say together\<close>

lemma distinct_count: "distinct xs \<Longrightarrow> x \<in> set xs \<Longrightarrow> count_list xs x = 1"
  by (induction xs) (auto simp: count_list_0_iff)

lemma occursIn_distinct:
  assumes "\<forall>f \<in> set parts. distinct (fcUncoveredLines f)"
  shows "occursIn parts l = int (length (filter (\<lambda>f. l \<in> set (fcUncoveredLines f)) parts))"
  using assms by (induction parts) (auto simp: occursIn_def count_list_0_iff distinct_count)

lemma occursIn_all:
  assumes "\<forall>f \<in> set parts. distinct (fcUncoveredLines f)"
  shows "occursIn parts l = int (length parts) \<longleftrightarrow> (\<forall>f \<in> set parts. l \<in> set (fcUncoveredLines f))"
  unfolding occursIn_distinct [OF assms] of_nat_eq_iff
  by (metis (mono_tags, lifting) filter_True length_filter_less less_irrefl)

lemma lineCoverage_simps [simp]:
  "fcPath (lineCoverage dp bs lines) = dp"
  "fcTotalLines (lineCoverage dp bs lines) = int (card (changedIn bs Statement lines))"
  "fcCoveredLines (lineCoverage dp bs lines) = int (card (changedIn bs Ran lines))"
  "set (fcUncoveredLines (lineCoverage dp bs lines)) = changedIn bs Statement lines - changedIn bs Ran lines"
  "distinct (fcUncoveredLines (lineCoverage dp bs lines))"
  by (simp_all add: lineCoverage_def changedIn_def Let_def)

lemma finite_changedIn [simp]: "finite (changedIn bs keep lines)"
  by (simp add: changedIn_def)

lemma changedIn_ran: "changedIn bs Ran lines \<subseteq> changedIn bs Statement lines"
  using keptLines_ran by (auto simp: changedIn_def)

lemma changedIn_concat: "changedIn (concat bss) keep lines = (\<Union>bs \<in> set bss. changedIn bs keep lines)"
  by (auto simp: changedIn_def keptLines_def)

lemma merged_agree:
  assumes "bss \<noteq> []" and "\<forall>bs \<in> set bss. changedIn bs Statement lines = E"
  shows "mergeFile dp (map (\<lambda>bs. lineCoverage dp bs lines) bss) = (lineCoverage dp (concat bss) lines, False)"
proof -
  let ?parts = "map (\<lambda>bs. lineCoverage dp bs lines) bss"
  let ?R = "changedIn (concat bss) Ran lines"
  have E: "changedIn (concat bss) Statement lines = E"
    using assms by (auto simp: changedIn_concat)
  have agree: "agreeing ?parts" using assms(2) by (simp add: agreeing_def)
  obtain b where b: "b \<in> set bss" using assms(1) by fastforce
  then have fin: "finite E" using assms(2) finite_changedIn by metis
  have "occursIn ?parts l = int (length ?parts) \<longleftrightarrow> (\<forall>bs \<in> set bss. l \<in> E - changedIn bs Ran lines)" for l
    using occursIn_all [of ?parts l] assms(2) by simp
  then have un: "uncoveredIn ?parts = E - ?R"
    using assms(2) agree b by (auto simp: uncoveredIn_def changedIn_concat)
  have "fcTotalLines ` set ?parts = {int (card E)}" using assms b by (auto simp: image_iff)
  moreover have "card (E - ?R) \<le> card E" using fin by (simp add: card_mono)
  ultimately have tot: "mergedTotal ?parts = int (card E)" by (simp add: mergedTotal_def un)
  have "?R \<subseteq> E" using changedIn_ran E by metis
  then have "int (card E) - int (card (E - ?R)) = int (card ?R)"
    using fin by (simp add: card_Diff_subset finite_subset card_mono)
  then show ?thesis using assms(1)
    by (simp add: mergeFile_closed agree tot un) (simp add: lineCoverage_def E Let_def)
qed

lemma merged_disagree:
  fixes bss :: "block list list" and dp :: string and lines :: "int list"
  defines "parts \<equiv> map (\<lambda>bs. lineCoverage dp bs lines) bss"
  assumes "\<not> agreeing parts"
  shows "fcCoveredLines (fst (mergeFile dp parts)) \<le> fcCoveredLines (lineCoverage dp (concat bss) lines)
    \<and> fcTotalLines (fst (mergeFile dp parts)) \<le> fcTotalLines (lineCoverage dp (concat bss) lines)
    \<and> set (fcUncoveredLines (lineCoverage dp (concat bss) lines)) \<subseteq> set (fcUncoveredLines (fst (mergeFile dp parts)))
    \<and> 0 \<le> fcCoveredLines (fst (mergeFile dp parts))"
proof -
  let ?E = "changedIn (concat bss) Statement lines" and ?R = "changedIn (concat bss) Ran lines"
  have ne: "parts \<noteq> []" using assms(2) by (auto simp: agreeing_def)
  have un: "uncoveredIn parts = (\<Union>bs \<in> set bss. changedIn bs Statement lines - changedIn bs Ran lines)"
    using assms(2) by (simp add: uncoveredIn_def parts_def)
  have sub: "?E - ?R \<subseteq> uncoveredIn parts" "uncoveredIn parts \<subseteq> ?E"
    unfolding un changedIn_concat by auto
  have finU: "finite (uncoveredIn parts)" using sub(2) finite_changedIn finite_subset by blast
  have "card (changedIn bs Statement lines) \<le> card ?E" if "bs \<in> set bss" for bs
    using that by (intro card_mono) (auto simp: changedIn_concat)
  then have "Max (fcTotalLines ` set parts) \<le> int (card ?E)"
    using ne by (subst Max_le_iff) (auto simp: parts_def)
  then have tot: "mergedTotal parts \<le> int (card ?E)" "int (card (uncoveredIn parts)) \<le> mergedTotal parts"
    using card_mono [OF finite_changedIn sub(2)] by (simp_all add: mergedTotal_def)
  have "int (card ?E) - int (card (?E - ?R)) = int (card ?R)"
    using changedIn_ran [of "concat bss" lines] by (simp add: card_Diff_subset finite_subset card_mono)
  moreover have "card (?E - ?R) \<le> card (uncoveredIn parts)" using finU sub(1) by (rule card_mono)
  ultimately show ?thesis using tot sub(1) finU by (simp add: mergeFile_closed [OF ne])
qed

lemma mergeFile_perm:
  assumes "mset parts = mset parts'" and "parts \<noteq> []"
  shows "mergeFile p parts = mergeFile p parts'"
proof -
  have s: "set parts = set parts'" using assms(1) by (rule mset_eq_setD)
  have l: "length parts = length parts'" using assms(1) by (rule mset_eq_length)
  have "occursIn parts = occursIn parts'"
    unfolding occursIn_def sum_mset_sum_list [symmetric] mset_map assms(1) by simp
  moreover have "agreeing parts = agreeing parts'" by (simp add: agreeing_def s)
  ultimately have "uncoveredIn parts = uncoveredIn parts'" by (simp add: uncoveredIn_def s l)
  moreover have "parts' \<noteq> []" using assms by auto
  ultimately show ?thesis using \<open>agreeing parts = agreeing parts'\<close> assms(2)
    by (simp add: mergeFile_closed mergedTotal_def s)
qed

lemma ratio_lower:
  fixes c t c' t' :: int
  assumes "0 \<le> t" and "0 \<le> t - c" and "t \<le> t'" and "t' - c' \<le> t - c"
  shows "c * t' \<le> c' * t"
proof -
  have "(t' - c') * t \<le> (t - c) * t" using assms by (intro mult_right_mono) auto
  also have "\<dots> \<le> (t - c) * t'" using assms by (intro mult_left_mono) auto
  finally show ?thesis by (simp add: algebra_simps)
qed

lemma partsAt_nonempty: "p \<in> mergedPaths present \<longleftrightarrow> partsAt present p \<noteq> []"
  by (auto simp: mergedPaths_def partsAt_def filter_empty_conv)

lemma partsAt_perm: "mset rs = mset rs' \<Longrightarrow> mset (partsAt rs p) = mset (partsAt rs' p)"
proof -
  assume m: "mset rs = mset rs'"
  have "mset (concat (map rFiles xs)) = (\<Sum>r\<in>#mset xs. mset (rFiles r))" for xs :: "diffResult list"
    by (induction xs) auto
  then show ?thesis using m by (simp only: partsAt_def mset_filter)
qed

lemma map_filter_id: "List.map_filter id xs = map the (filter (\<lambda>x. x \<noteq> None) xs)"
  by (induction xs) (auto simp: map_filter_simps split: option.split)

lemma diffcovMerge_cong:
  assumes "mset results = mset results'"
  shows "diffcovMerge results = diffcovMerge results'"
proof -
  let ?p = "List.map_filter id results" and ?p' = "List.map_filter id results'"
  have m: "mset ?p = mset ?p'"
    using assms by (simp add: map_filter_id mset_filter)
  have s: "set ?p = set ?p'" using m by (rule mset_eq_setD)
  have paths: "mergedPaths ?p = mergedPaths ?p'" by (simp add: mergedPaths_def s)
  have fin: "finite (mergedPaths ?p')" by (simp add: mergedPaths_def)
  have same: "mergeFile p (partsAt ?p p) = mergeFile p (partsAt ?p' p)" if "p \<in> mergedPaths ?p'" for p
  proof (rule mergeFile_perm)
    show "partsAt ?p p \<noteq> []" using that paths partsAt_nonempty by metis
  qed (rule partsAt_perm [OF m])
  have files: "map (\<lambda>p. fst (mergeFile p (partsAt ?p p))) (sorted_list_of_set (mergedPaths ?p'))
      = map (\<lambda>p. fst (mergeFile p (partsAt ?p' p))) (sorted_list_of_set (mergedPaths ?p'))"
    using same fin by (intro map_cong) auto
  have conf: "filter (\<lambda>p. snd (mergeFile p (partsAt ?p p))) (sorted_list_of_set (mergedPaths ?p'))
      = filter (\<lambda>p. snd (mergeFile p (partsAt ?p' p))) (sorted_list_of_set (mergedPaths ?p'))"
    using same fin by (intro filter_cong) auto
  have "?p = [] \<longleftrightarrow> ?p' = []" using s by auto
  then show ?thesis unfolding diffcovMerge_closed Let_def paths files conf s by simp
qed

section \<open>Properties\<close>

text \<open>
  C23: Parts that measure the same lines. When every part sees the same executable changed
  lines of a file, merging the parts' results gives, without conflict, exactly the diff coverage
  of a single run holding all their blocks: a line is covered when any part ran it.
\<close>

theorem diff_merge_agreeing_parts:
  assumes "bss \<noteq> []" and "\<forall>bs \<in> set bss. changedIn bs Statement lines = changedIn (hd bss) Statement lines"
  shows "mergeFile dp (map (\<lambda>bs. lineCoverage dp bs lines) bss) = (lineCoverage dp (concat bss) lines, False)"
  using assms by (rule merged_agree)

theorem diff_merge_agreeing_parts_witness:
  "let b = (\<lambda>s c. \<lparr>StartLine = s, StartCol = 1, EndLine = s + 1, EndCol = 2, NumStmts = 1, Count = c\<rparr>);
       bss = [[b 1 0, b 3 2], [b 1 1, b 3 0]]
   in mergeFile ''f'' (map (\<lambda>bs. lineCoverage ''f'' bs [1, 4, 8]) bss) = (lineCoverage ''f'' (concat bss) [1, 4, 8], False)
    \<and> fcCoveredLines (lineCoverage ''f'' (concat bss) [1, 4, 8]) = 2"
proof -
  let ?b = "\<lambda>s c. \<lparr>StartLine = s, StartCol = 1, EndLine = s + 1, EndCol = 2, NumStmts = 1, Count = c\<rparr>"
  let ?bss = "[[?b 1 0, ?b 3 2], [?b 1 1, ?b 3 0]]"
  have e: "changedIn bs Statement [1, 4, 8] = {1, 4}" if "bs \<in> set ?bss" for bs
    using that by (auto simp: changedIn_def keptLines_def Statement_def)
  have h: "?bss \<noteq> []" "\<forall>bs \<in> set ?bss. changedIn bs Statement [1, 4, 8] = changedIn (hd ?bss) Statement [1, 4, 8]"
    using e by (simp, metis hd_in_set list.distinct(1))
  have "changedIn (concat ?bss) Ran [1, 4, 8] = {1, 4}"
    by (auto simp: changedIn_def keptLines_def Ran_def)
  then have "fcCoveredLines (lineCoverage ''f'' (concat ?bss) [1, 4, 8]) = 2" by (simp only: lineCoverage_simps) simp
  then show ?thesis using diff_merge_agreeing_parts [OF h, of "''f''"] by (simp only: Let_def simp_thms)
qed

text \<open>
  Parts that measure different lines. When the parts disagree on how many changed lines a
  file has, the merge reports the conflict and a safe lower bound of a single run holding all
  their blocks: no line uncovered there is missing from the merged list, and neither the number
  of covered lines nor the total nor their ratio is overstated.
\<close>

theorem diff_merge_lower_bound:
  assumes "\<exists>bs \<in> set bss. \<exists>cs \<in> set bss.
      card (changedIn bs Statement lines) \<noteq> card (changedIn cs Statement lines)"
  shows "let m = mergeFile dp (map (\<lambda>bs. lineCoverage dp bs lines) bss); whole = lineCoverage dp (concat bss) lines
    in snd m \<and> set (fcUncoveredLines whole) \<subseteq> set (fcUncoveredLines (fst m))
      \<and> 0 \<le> fcCoveredLines (fst m) \<and> fcCoveredLines (fst m) \<le> fcCoveredLines whole
      \<and> fcTotalLines (fst m) \<le> fcTotalLines whole
      \<and> fcCoveredLines (fst m) * fcTotalLines whole \<le> fcCoveredLines whole * fcTotalLines (fst m)"
proof -
  let ?parts = "map (\<lambda>bs. lineCoverage dp bs lines) bss"
  let ?m = "fst (mergeFile dp ?parts)" and ?w = "lineCoverage dp (concat bss) lines"
  have na: "\<not> agreeing ?parts" using assms by (auto simp: agreeing_def)
  have ne: "?parts \<noteq> []" using assms by auto
  note d = merged_disagree [OF na]
  have tot: "fcTotalLines ?m - fcCoveredLines ?m = int (length (fcUncoveredLines ?m))"
    by (simp add: mergeFile_closed [OF ne])
  have wtot: "fcTotalLines ?w - fcCoveredLines ?w = int (length (fcUncoveredLines ?w))"
    using changedIn_ran [of "concat bss" lines]
    by (simp add: lineCoverage_def Let_def card_Diff_subset finite_subset card_mono)
  have "distinct (fcUncoveredLines ?m)" by (simp add: mergeFile_closed [OF ne])
  then have "length (fcUncoveredLines ?w) \<le> length (fcUncoveredLines ?m)"
    using d by (metis card_mono distinct_card finite_set lineCoverage_simps(5))
  then have u: "fcTotalLines ?w - fcCoveredLines ?w \<le> fcTotalLines ?m - fcCoveredLines ?m"
    using tot wtot by simp
  have "fcCoveredLines ?m * fcTotalLines ?w \<le> fcCoveredLines ?w * fcTotalLines ?m"
    using d tot by (intro ratio_lower u) auto
  then show ?thesis using d ne na by (simp add: Let_def mergeFile_closed)
qed

theorem diff_merge_lower_bound_witness:
  "let b = (\<lambda>s e c. \<lparr>StartLine = s, StartCol = 1, EndLine = e, EndCol = 2, NumStmts = 1, Count = c\<rparr>);
       bss = [[b 1 2 1], [b 5 5 0]]; lines = [1, 2, 5];
       m = mergeFile ''f'' (map (\<lambda>bs. lineCoverage ''f'' bs lines) bss)
   in snd m \<and> fcCoveredLines (fst m) \<le> fcCoveredLines (lineCoverage ''f'' (concat bss) lines)
    \<and> card (changedIn (bss ! 0) Statement lines) \<noteq> card (changedIn (bss ! 1) Statement lines)"
proof -
  let ?b = "\<lambda>s e c. \<lparr>StartLine = s, StartCol = 1, EndLine = e, EndCol = 2, NumStmts = 1, Count = c\<rparr>"
  let ?bss = "[[?b 1 2 1], [?b 5 5 0]]" and ?l = "[1, 2, 5] :: int list"
  have e: "changedIn [?b 1 2 1] Statement ?l = {1, 2}" "changedIn [?b 5 5 0] Statement ?l = {5}"
    by (auto simp: changedIn_def keptLines_def Statement_def)
  then have ne: "card (changedIn (?bss ! 0) Statement ?l) \<noteq> card (changedIn (?bss ! 1) Statement ?l)" by simp
  then have "\<exists>bs \<in> set ?bss. \<exists>cs \<in> set ?bss. card (changedIn bs Statement ?l) \<noteq> card (changedIn cs Statement ?l)"
    by (auto simp: e)
  from diff_merge_lower_bound [OF this, of "''f''"] ne show ?thesis unfolding Let_def by blast
qed

text \<open>
  The merged diff coverage, its totals, unmatched files and conflicts do not depend on the
  order of the parts, nor on parts without diff coverage.
\<close>

theorem diff_merge_order_independent:
  assumes "mset results = mset results'"
  shows "diffcovMerge results = diffcovMerge results' \<and> diffcovMerge (None # results) = diffcovMerge results"
  using diffcovMerge_cong [OF assms] by (simp add: diffcovMerge_def map_filter_simps)

theorem diff_merge_order_independent_witness:
  "let f = (\<lambda>p t u. \<lparr>fcPath = p, fcCoveredLines = t - int (length u), fcTotalLines = t, fcUncoveredLines = u\<rparr>);
       r = (\<lambda>fs. Some \<lparr>rFiles = fs, rCoveredLines = 0, rTotalLines = 0, rUnmatchedFiles = [''u'']\<rparr>);
       a = r [f ''b'' 3 [1], f ''a'' 2 [7]]; b = r [f ''a'' 2 [7, 9]]
   in diffcovMerge [a, b] = diffcovMerge [b, a]
    \<and> fst (diffcovMerge [b, a]) = Some \<lparr>rFiles = [f ''a'' 2 [7], f ''b'' 3 [1]], rCoveredLines = 3, rTotalLines = 5,
        rUnmatchedFiles = [''u'']\<rparr>"
proof -
  let ?f = "\<lambda>p t u. \<lparr>fcPath = p, fcCoveredLines = t - int (length u), fcTotalLines = t, fcUncoveredLines = u\<rparr>"
  let ?r = "\<lambda>fs. Some \<lparr>rFiles = fs, rCoveredLines = 0, rTotalLines = 0, rUnmatchedFiles = [''u'']\<rparr>"
  let ?a = "?r [?f ''b'' 3 [1], ?f ''a'' 2 [7]]" and ?b = "?r [?f ''a'' 2 [7, 9]]"
  have "mset [?a, ?b] = mset [?b, ?a]" by simp
  from diff_merge_order_independent [OF this] have "diffcovMerge [?a, ?b] = diffcovMerge [?b, ?a]" by blast
  moreover have "fst (diffcovMerge [?b, ?a]) = Some \<lparr>rFiles = [?f ''a'' 2 [7], ?f ''b'' 3 [1]], rCoveredLines = 3,
      rTotalLines = 5, rUnmatchedFiles = [''u'']\<rparr>" by code_simp
  ultimately show ?thesis by (simp only: Let_def simp_thms)
qed

text \<open>
  Equal counts are taken for equal lines. Two parts that report the same number of changed
  lines of a file, but different ones, are merged as if they had measured the same lines: here
  neither part ran any of the four changed lines, and the merge reports two lines, both covered,
  and no conflict.
\<close>

theorem diff_merge_overstates_equal_counts:
  "\<exists>a b lines. changedIn a Statement lines \<inter> changedIn b Statement lines = {}
    \<and> fcCoveredLines (lineCoverage ''f'' (a @ b) lines) = 0
    \<and> fcTotalLines (lineCoverage ''f'' (a @ b) lines) = 4
    \<and> mergeFile ''f'' [lineCoverage ''f'' a lines, lineCoverage ''f'' b lines]
        = (\<lparr>fcPath = ''f'', fcCoveredLines = 2, fcTotalLines = 2, fcUncoveredLines = []\<rparr>, False)"
proof -
  let ?b = "\<lambda>s e. \<lparr>StartLine = s, StartCol = 1, EndLine = e, EndCol = 2, NumStmts = 1, Count = 0\<rparr>"
  let ?l = "[1, 2, 5, 6] :: int list"
  have e: "changedIn [?b 1 2] Statement ?l = {1, 2}" "changedIn [?b 5 6] Statement ?l = {5, 6}"
    "changedIn ([?b 1 2] @ [?b 5 6]) Statement ?l = {1, 2, 5, 6}"
    by (auto simp: changedIn_def keptLines_def Statement_def)
  have r: "changedIn [?b 1 2] Ran ?l = {}" "changedIn [?b 5 6] Ran ?l = {}" "changedIn ([?b 1 2] @ [?b 5 6]) Ran ?l = {}"
    by (auto simp: changedIn_def keptLines_def Ran_def)
  have "lineCoverage ''f'' [?b 1 2] ?l = \<lparr>fcPath = ''f'', fcCoveredLines = 0, fcTotalLines = 2, fcUncoveredLines = [1, 2]\<rparr>"
    "lineCoverage ''f'' [?b 5 6] ?l = \<lparr>fcPath = ''f'', fcCoveredLines = 0, fcTotalLines = 2, fcUncoveredLines = [5, 6]\<rparr>"
    by (simp_all add: lineCoverage_def e r Let_def)
  moreover have "mergeFile ''f'' [\<lparr>fcPath = ''f'', fcCoveredLines = 0, fcTotalLines = 2, fcUncoveredLines = [1, 2]\<rparr>,
      \<lparr>fcPath = ''f'', fcCoveredLines = 0, fcTotalLines = 2, fcUncoveredLines = [5, 6]\<rparr>]
      = (\<lparr>fcPath = ''f'', fcCoveredLines = 2, fcTotalLines = 2, fcUncoveredLines = []\<rparr>, False)"
    by code_simp
  ultimately show ?thesis using e r
    by (intro exI [of _ "[?b 1 2]"] exI [of _ "[?b 5 6]"] exI [of _ ?l]) (simp del: append.simps)
qed

end
