(* ===== verification/StoreTypes.thy ===== *)
theory StoreTypes
  imports DiffMerge
begin

text \<open>
  The domain types of \<open>internal/store/store.go\<close> with their methods. A time is an integer, 0 being
  Go's zero time; a pointer that may be nil is an option.
\<close>

type_synonym time = int

record Gate =
  MinCoverage :: "rat option"
  MinDiffCoverage :: "rat option"
  MaxCoverageDrop :: "rat option"

definition JudgedGate :: "Gate option \<Rightarrow> Gate \<Rightarrow> Gate" where
  "JudgedGate recorded current = (case recorded of Some g \<Rightarrow> g | None \<Rightarrow> current)"

definition Configured :: "Gate \<Rightarrow> bool" where
  "Configured g \<longleftrightarrow> MinCoverage g \<noteq> None \<or> MinDiffCoverage g \<noteq> None \<or> MaxCoverageDrop g \<noteq> None"

record RepoRef =
  refForge :: string
  refSlug :: string

record Grant =
  grAccount :: string
  grRefreshToken :: string
  grBroken :: bool

record Workspace =
  wsID :: int
  wsForge :: string
  wsPrefix :: string
  wsToken :: string
  wsDefaultBranch :: string
  wsGate :: Gate
  wsReportRetentionDays :: int
  wsGitHubInstallationID :: int
  wsGitHubAppBroken :: bool
  wsGrant :: Grant
  wsCreatedAt :: time

abbreviation VisibilityPublic :: string where
  "VisibilityPublic \<equiv> ''public''"

abbreviation VisibilityPrivate :: string where
  "VisibilityPrivate \<equiv> ''private''"

record Repo =
  rpID :: int
  rpForge :: string
  rpSlug :: string
  rpToken :: string
  rpDefaultBranch :: string
  rpGate :: Gate
  rpVisibility :: string
  rpVisibilityCheckedAt :: time
  rpPublicReportsDisabled :: bool
  rpIgnorePaths :: "string list"
  rpCreatedAt :: time

definition ReportsPublic :: "Repo \<Rightarrow> bool" where
  "ReportsPublic r \<longleftrightarrow> rpVisibility r = VisibilityPublic \<and> \<not> rpPublicReportsDisabled r"

record UploadMeta =
  mUploader :: string
  mUploaderKind :: string
  mCIProvider :: string
  mCIRunURL :: string
  mCommitMessage :: string
  mCommitAuthor :: string
  mProfileName :: string
  mProfileBytes :: int
  mProcessMillis :: int
  mTokenless :: bool
  mIgnoredFiles :: int

record Upload =
  upID :: int
  upRepoID :: int
  upCommitSHA :: string
  upBranch :: string
  upPRID :: string
  upFormat :: string
  upTotalPct :: rat
  upCoveredStmts :: int
  upTotalStmts :: int
  upRawBlobKey :: string
  upDiffCoverage :: "diffResult option"
  upGateFailed :: bool
  upGateBasePct :: "rat option"
  upGate :: "Gate option"
  upPathPrefix :: string
  upPart :: string
  upCreatedAt :: time
  upMeta :: UploadMeta

record User =
  usID :: int
  usForge :: string
  usForgeUUID :: string
  usEmail :: string
  usDisplayName :: string
  usForgeWorkspaces :: "string list"
  usForgeOwnedWorkspaces :: "string list"
  usCreatedAt :: time
  usLastLoginAt :: time

definition Owns :: "Workspace \<Rightarrow> Repo \<Rightarrow> bool" where
  "Owns w r \<longleftrightarrow> rpForge r = wsForge w \<and> hasPrefix (rpSlug r) (wsPrefix w @ ''/'')"

type_synonym Role = string

abbreviation RoleOwner :: Role where
  "RoleOwner \<equiv> ''owner''"

abbreviation RoleMember :: Role where
  "RoleMember \<equiv> ''member''"

record Membership =
  mbWorkspaceID :: int
  mbRole :: Role

record Session =
  seTokenHash :: string
  seUserID :: int
  seCreatedAt :: time
  seExpiresAt :: time

record OAuthCode =
  ocCodeHash :: string
  ocUserID :: int
  ocClientID :: string
  ocRedirectURI :: string
  ocCodeChallenge :: string
  ocExpiresAt :: time

record MCPToken =
  mtTokenHash :: string
  mtUserID :: int
  mtClientName :: string
  mtCreatedAt :: time
  mtExpiresAt :: time

record CommitReport =
  crID :: int
  crRepoID :: int
  crCommitSHA :: string
  crBranch :: string
  crPRID :: string
  crTotalPct :: rat
  crCoveredStmts :: int
  crTotalStmts :: int
  crGateFailed :: bool
  crGateBasePct :: "rat option"
  crGate :: "Gate option"
  crDiffCoverage :: "diffResult option"
  crPartCount :: int
  crUploadID :: int
  crCreatedAt :: time
  crUpdatedAt :: time

record UploadFile =
  ufUploadID :: int
  ufPath :: string
  ufPct :: rat
  ufCoveredStmts :: int
  ufTotalStmts :: int
  ufBlocks :: "block list"

datatype PushClaim = PushSuperseded | PushClaimed | PushQueued

text \<open>
  The errors of a store: a record that is not there, a repo or workspace whose name or token is
  taken, a user or workspace that a new row names but does not exist, a role that is neither of
  the two.
\<close>

datatype storeError =
    ErrNotFound
  | ErrRepoExists
  | ErrWorkspaceExists
  | ErrNoUser int
  | ErrNoWorkspace int
  | ErrUnknownRole string

section \<open>Zero values\<close>

text \<open>Go's zero values of the rows, from which a literal that names some fields is built.\<close>

definition zeroGate :: Gate where
  "zeroGate = \<lparr>MinCoverage = None, MinDiffCoverage = None, MaxCoverageDrop = None\<rparr>"

definition zeroGrant :: Grant where
  "zeroGrant = \<lparr>grAccount = [], grRefreshToken = [], grBroken = False\<rparr>"

definition zeroWorkspace :: Workspace where
  "zeroWorkspace = \<lparr>wsID = 0, wsForge = [], wsPrefix = [], wsToken = [], wsDefaultBranch = [], wsGate = zeroGate,
     wsReportRetentionDays = 0, wsGitHubInstallationID = 0, wsGitHubAppBroken = False, wsGrant = zeroGrant, wsCreatedAt = 0\<rparr>"

definition zeroRepo :: Repo where
  "zeroRepo = \<lparr>rpID = 0, rpForge = [], rpSlug = [], rpToken = [], rpDefaultBranch = [], rpGate = zeroGate,
     rpVisibility = [], rpVisibilityCheckedAt = 0, rpPublicReportsDisabled = False, rpIgnorePaths = [], rpCreatedAt = 0\<rparr>"

definition zeroMeta :: UploadMeta where
  "zeroMeta = \<lparr>mUploader = [], mUploaderKind = [], mCIProvider = [], mCIRunURL = [], mCommitMessage = [],
     mCommitAuthor = [], mProfileName = [], mProfileBytes = 0, mProcessMillis = 0, mTokenless = False, mIgnoredFiles = 0\<rparr>"

definition zeroUpload :: Upload where
  "zeroUpload = \<lparr>upID = 0, upRepoID = 0, upCommitSHA = [], upBranch = [], upPRID = [], upFormat = [], upTotalPct = 0,
     upCoveredStmts = 0, upTotalStmts = 0, upRawBlobKey = [], upDiffCoverage = None, upGateFailed = False,
     upGateBasePct = None, upGate = None, upPathPrefix = [], upPart = [], upCreatedAt = 0, upMeta = zeroMeta\<rparr>"

definition zeroUser :: User where
  "zeroUser = \<lparr>usID = 0, usForge = [], usForgeUUID = [], usEmail = [], usDisplayName = [], usForgeWorkspaces = [],
     usForgeOwnedWorkspaces = [], usCreatedAt = 0, usLastLoginAt = 0\<rparr>"

definition zeroCommitReport :: CommitReport where
  "zeroCommitReport = \<lparr>crID = 0, crRepoID = 0, crCommitSHA = [], crBranch = [], crPRID = [], crTotalPct = 0,
     crCoveredStmts = 0, crTotalStmts = 0, crGateFailed = False, crGateBasePct = None, crGate = None,
     crDiffCoverage = None, crPartCount = 0, crUploadID = 0, crCreatedAt = 0, crUpdatedAt = 0\<rparr>"

end
