(* ===== verification/GoFormat.thy ===== *)
theory GoFormat
  imports Float64 GoStrings
begin

text \<open>
  The verbs of Go's \<open>fmt\<close> package the program prints percentages with: \<open>%.1f\<close>, \<open>%+.1f\<close> and
  \<open>%.4g\<close>, over finite values. Digits are rounded from the exact value, ties to even, as
  \<open>strconv\<close> does; \<open>%g\<close> drops trailing zeros and turns to an exponent outside its range.
\<close>

section \<open>Fixed point\<close>

definition fixed1 :: "rat \<Rightarrow> string" where
  "fixed1 x = (let m = roundHalfEven (x * 10) in itoa (m div 10) @ ''.'' @ [digitChar (m mod 10)])"

definition fmtF1 :: "rat \<Rightarrow> string" where
  "fmtF1 x = (if x < 0 then ''-'' @ fixed1 (- x) else fixed1 x)"

definition fmtPlusF1 :: "rat \<Rightarrow> string" where
  "fmtPlusF1 x = (if x < 0 then ''-'' @ fixed1 (- x) else ''+'' @ fixed1 x)"

section \<open>Significant digits\<close>

text \<open>The decimal exponent of a positive value: \<open>10 powi decExp x \<le> x < 10 powi (decExp x + 1)\<close>.\<close>

definition decExp :: "rat \<Rightarrow> int" where
  "decExp x = (let (a, b) = quotient_of x; k = int (length (digitsOf a)) - int (length (digitsOf b))
               in if 10 powi k \<le> x then k else k - 1)"

text \<open>The digits without trailing zeros, and how many of them stand before the point.\<close>

definition sigDigits :: "int \<Rightarrow> rat \<Rightarrow> string \<times> int" where
  "sigDigits prec x =
     (if x = 0 then ([], 0)
      else let e = decExp x;
               m = roundHalfEven (x / 10 powi (e - (prec - 1)));
               ds = rev (dropWhile (\<lambda>c. c = CHR ''0'') (rev (digitsOf m)))
           in (ds, if m = 10 ^ nat prec then e + 2 else e + 1))"

text \<open>\<open>fmtE\<close> and \<open>fmtF\<close> of \<open>strconv\<close>, on the digits \<open>ds\<close> with the point after \<open>dp\<close> of them.\<close>

definition digitAt :: "string \<Rightarrow> int \<Rightarrow> char" where
  "digitAt ds i = (if 0 \<le> i \<and> i < int (length ds) then ds ! nat i else CHR ''0'')"

definition digitsE :: "string \<Rightarrow> int \<Rightarrow> string" where
  "digitsE ds dp =
     (let e = (if ds = [] then 0 else dp - 1); a = \<bar>e\<bar>
      in [digitAt ds 0] @ (if length ds > 1 then ''.'' @ tl ds else [])
         @ (if e < 0 then ''e-'' else ''e+'') @ (if a < 10 then ''0'' else []) @ itoa a)"

definition digitsF :: "string \<Rightarrow> int \<Rightarrow> string" where
  "digitsF ds dp =
     (let prec = max (int (length ds) - dp) 0
      in (if dp > 0 then map (\<lambda>i. digitAt ds i) [0..dp - 1] else ''0'')
         @ (if prec > 0 then ''.'' @ map (\<lambda>i. digitAt ds (dp + i)) [0..prec - 1] else []))"

definition fmtG :: "int \<Rightarrow> rat \<Rightarrow> string" where
  "fmtG prec x =
     (let (ds, dp) = sigDigits prec \<bar>x\<bar>; nd = int (length ds);
          eprec = (if prec > nd \<and> nd \<ge> dp then nd else prec)
      in (if x < 0 then ''-'' else [])
         @ (if dp - 1 < -4 \<or> dp - 1 \<ge> eprec then digitsE ds dp else digitsF ds dp))"

abbreviation fmtG4 :: "rat \<Rightarrow> string" where
  "fmtG4 x \<equiv> fmtG 4 x"

text \<open>The forms the program's messages meet.\<close>

lemma fmtG4_examples:
  "fmtG4 0 = ''0''" "fmtG4 80 = ''80''" "fmtG4 100 = ''100''" "fmtG4 (805 / 10) = ''80.5''"
  "fmtG4 (79999 / 1000) = ''80''" "fmtG4 (1 / 3) = ''0.3333''" "fmtG4 (1 / 100000) = ''1e-05''"
  "fmtG4 (- 25 / 2) = ''-12.5''" "fmtG4 123456 = ''1.235e+05''"
  by code_simp+

lemma fmtF1_examples:
  "fmtF1 (1 / 4) = ''0.2''" "fmtF1 (9999 / 100) = ''100.0''" "fmtPlusF1 (- 1 / 100) = ''-0.0''" "fmtPlusF1 3 = ''+3.0''"
  by code_simp+

end
