(* ===== verification/CoverageGate.thy ===== *)
theory CoverageGate
  imports StoreTypes GoFormat
begin

text \<open>
  The coverage gate, \<open>internal/core/gate.go\<close>: the rules, the verdict and the sentence that
  explains it. Percentages and thresholds are float64 values; every operation on them rounds.
\<close>

section \<open>The verdict\<close>

record Verdict =
  vConfigured :: bool
  vFailures :: "string list"

definition Failed :: "Verdict \<Rightarrow> bool" where
  "Failed v \<longleftrightarrow> length (vFailures v) > 0"

definition verdictString :: "Verdict \<Rightarrow> string" where
  "verdictString v = (if Failed v then ''failed: '' @ joinWith ''; '' (vFailures v) else ''passed'')"

definition gateEpsilon :: rat where
  "gateEpsilon = f64 (1 / 1000000000)"

definition belowMin :: "rat \<Rightarrow> rat \<Rightarrow> bool" where
  "belowMin pct minimum \<longleftrightarrow> pct < f64 (minimum - gateEpsilon)"

definition dropOver :: "rat \<Rightarrow> rat \<Rightarrow> bool" where
  "dropOver d allowed \<longleftrightarrow> d > f64 (allowed + gateEpsilon)"

definition diffMeasured :: "diffResult option \<Rightarrow> bool" where
  "diffMeasured diff = (case diff of None \<Rightarrow> False | Some d \<Rightarrow> rTotalLines d > 0)"

definition MinCoverageFailed :: "Gate \<Rightarrow> rat \<Rightarrow> bool" where
  "MinCoverageFailed g totalPct = (case MinCoverage g of None \<Rightarrow> False | Some m \<Rightarrow> belowMin totalPct m)"

definition EvaluateGate :: "Gate \<Rightarrow> rat \<Rightarrow> rat option \<Rightarrow> diffResult option \<Rightarrow> Verdict" where
  "EvaluateGate gate totalPct dropBase diff =
     \<lparr>vConfigured = Configured gate, vFailures =
        (case MinCoverage gate of
           Some m \<Rightarrow> if belowMin totalPct m
             then [''total coverage '' @ fmtG4 totalPct @ ''% is below the minimum '' @ fmtG4 m @ ''%'']
             else []
         | None \<Rightarrow> [])
        @ (case (MaxCoverageDrop gate, dropBase) of
             (Some allowed, Some base) \<Rightarrow> if dropOver (f64 (base - totalPct)) allowed
               then [''coverage dropped '' @ fmtG4 (f64 (base - totalPct)) @ ''% (allowed '' @ fmtG4 allowed @ ''%)'']
               else []
           | _ \<Rightarrow> [])
        @ (case (MinDiffCoverage gate, diff) of
             (Some m, Some d) \<Rightarrow> if diffMeasured diff \<and> belowMin (resultPercent d) m
               then [''diff coverage '' @ fmtG4 (resultPercent d) @ ''% is below the minimum '' @ fmtG4 m @ ''%'']
               else []
           | _ \<Rightarrow> [])\<rparr>"

section \<open>The sentence\<close>

definition emDash :: string where
  "emDash = [CHR 0xE2, CHR 0x80, CHR 0x94]"

text \<open>\<open>strings.ToUpper\<close> on an ASCII byte.\<close>

definition upperByte :: "char \<Rightarrow> char" where
  "upperByte c = (if 97 \<le> byteOf c \<and> byteOf c \<le> 122 then char_of (byteOf c - 32) else c)"

definition minClause :: "Gate \<Rightarrow> rat \<Rightarrow> string list" where
  "minClause g totalPct = (case MinCoverage g of None \<Rightarrow> []
     | Some m \<Rightarrow> [''total coverage '' @ (if belowMin totalPct m then ''is below'' else ''is above'')
                  @ '' the minimum of '' @ fmtG4 m @ ''%''])"

definition dropClause :: "Gate \<Rightarrow> rat \<Rightarrow> rat option \<Rightarrow> string list" where
  "dropClause g totalPct dropBase = (case (MaxCoverageDrop g, dropBase) of
     (Some allowed, Some base) \<Rightarrow>
       (let drop = f64 (base - totalPct)
        in if drop \<le> gateEpsilon then [''coverage held or rose against the default branch'']
           else [''the drop against the default branch is '' @ fmtG4 drop @ ''% '' @ emDash @ '' ''
                 @ (if dropOver drop allowed then ''over'' else ''under'') @ '' the '' @ fmtG4 allowed @ ''% allowed''])
   | _ \<Rightarrow> [])"

definition diffClause :: "Gate \<Rightarrow> diffResult option \<Rightarrow> string list" where
  "diffClause g diff = (case (MinDiffCoverage g, diff) of
     (Some m, Some d) \<Rightarrow>
       if diffMeasured diff
       then [''diff coverage '' @ (if belowMin (resultPercent d) m then ''is below'' else ''meets'')
             @ '' the '' @ fmtG4 m @ ''% minimum'']
       else []
   | _ \<Rightarrow> [])"

definition GateReason :: "rat \<Rightarrow> diffResult option \<Rightarrow> Gate \<Rightarrow> rat option \<Rightarrow> string \<Rightarrow> string" where
  "GateReason totalPct diff g dropBase subject =
     (if \<not> Configured g then
        ''No coverage gate is configured for this repo. '' @ subject @ '' records '' @ fmtF1 totalPct
          @ ''% total coverage.''
      else let parts = minClause g totalPct @ dropClause g totalPct dropBase @ diffClause g diff
        in if parts = [] then subject @ '' records '' @ fmtF1 totalPct @ ''% total coverage.''
           else let sentence = joinWith '', and '' parts
                in upperByte (hd sentence) # tl sentence @ ''.'')"

section \<open>Which coverage fails\<close>

lemma gateEpsilon_bounds: "999999999 / 10 ^ 18 \<le> gateEpsilon \<and> gateEpsilon \<le> 1000000001 / 10 ^ 18"
  by code_simp

lemma f64_error_101:
  assumes "\<bar>x\<bar> \<le> 101"
  shows "\<bar>f64 x - x\<bar> \<le> 1 / 2 ^ 47"
proof (cases "x = 0")
  case False
  have q: "quantum (101 :: rat) = 1 / 2 ^ 46" by code_simp
  have "0 < \<bar>x\<bar>" using False by simp
  then have "quantum \<bar>x\<bar> \<le> 1 / 2 ^ 46" using quantum_mono [of "\<bar>x\<bar>" 101] q assms by simp
  then show ?thesis using f64_error [of x] by (simp add: quantum_def)
qed simp

text \<open>A threshold as the settings form takes it, a decimal number, becomes the float64 next to it.\<close>

lemma belowMin_exact:
  assumes "0 < t" and "0 \<le> c" and "c \<le> t" and "0 \<le> m" and "m \<le> 100"
  shows "m \<le> 100 * of_int c / of_int t \<Longrightarrow> \<not> belowMin (Percent c t) (f64 m)"
    and "100 * of_int c / of_int t \<le> m - 2 / 10 ^ 9 \<Longrightarrow> belowMin (Percent c t) (f64 m)"
proof -
  have m: "\<bar>f64 m - m\<bar> \<le> 1 / 2 ^ 47" using assms by (intro f64_error_101) simp
  have e: "999999999 / 10 ^ 18 \<le> gateEpsilon" "gateEpsilon \<le> 1000000001 / 10 ^ 18"
    using gateEpsilon_bounds by simp_all
  have tiny: "(1 :: rat) / 2 ^ 47 \<le> 1 / 2" "(1000000001 :: rat) / 10 ^ 18 \<le> 1 / 2" "(0 :: rat) \<le> 999999999 / 10 ^ 18"
    by simp_all
  have "\<bar>f64 m - gateEpsilon\<bar> \<le> 101"
    using m assms(4,5) e tiny unfolding abs_le_iff by linarith
  then have s: "\<bar>f64 (f64 m - gateEpsilon) - (f64 m - gateEpsilon)\<bar> \<le> 1 / 2 ^ 47" by (rule f64_error_101)
  have p: "\<bar>Percent c t - 100 * of_int c / of_int t\<bar> \<le> 1 / 2 ^ 43" using Percent_error assms by blast
  let ?s = "f64 (f64 m - gateEpsilon)" and ?p = "Percent c t"
  have up: "?s \<le> m - gateEpsilon + 2 / 2 ^ 47" and lo: "m - gateEpsilon - 2 / 2 ^ 47 \<le> ?s"
    using m s unfolding abs_le_iff by linarith+
  have num: "(1 :: rat) / 2 ^ 43 + 2 / 2 ^ 47 \<le> 999999999 / 10 ^ 18"
    "(1 :: rat) / 2 ^ 43 + 2 / 2 ^ 47 + 1000000001 / 10 ^ 18 < 2 / 10 ^ 9" by simp_all
  show "m \<le> 100 * of_int c / of_int t \<Longrightarrow> \<not> belowMin ?p (f64 m)"
    unfolding belowMin_def not_less using p up e num by (simp only: abs_le_iff) linarith
  show "100 * of_int c / of_int t \<le> m - 2 / 10 ^ 9 \<Longrightarrow> belowMin ?p (f64 m)"
    unfolding belowMin_def using p lo e num by (simp only: abs_le_iff) linarith
qed

text \<open>The drop against a base is the difference of two rounded totals.\<close>

lemma dropOver_exact:
  assumes "0 < t" and "0 \<le> c" and "c \<le> t" and "0 < t'" and "0 \<le> c'" and "c' \<le> t'" and "0 \<le> a" and "a \<le> 100"
  defines "d \<equiv> 100 * of_int c' / of_int t' - 100 * of_int c / of_int t"
  shows "d \<le> a \<Longrightarrow> \<not> dropOver (f64 (Percent c' t' - Percent c t)) (f64 a)"
    and "a + 2 / 10 ^ 9 \<le> d \<Longrightarrow> dropOver (f64 (Percent c' t' - Percent c t)) (f64 a)"
proof -
  let ?x = "Percent c' t' - Percent c t"
  have p: "\<bar>Percent c t - 100 * of_int c / of_int t\<bar> \<le> 1 / 2 ^ 43"
    "\<bar>Percent c' t' - 100 * of_int c' / of_int t'\<bar> \<le> 1 / 2 ^ 43" using Percent_error assms by blast+
  have r: "0 \<le> Percent c t" "Percent c t \<le> 100" "0 \<le> Percent c' t'" "Percent c' t' \<le> 100"
    using Percent_range assms by blast+
  have ax: "\<bar>?x\<bar> \<le> 100" using r by (simp add: abs_le_iff)
  have x: "\<bar>f64 ?x - ?x\<bar> \<le> 1 / 2 ^ 47" using ax by (intro f64_error_101) simp
  have a: "\<bar>f64 a - a\<bar> \<le> 1 / 2 ^ 47" using assms by (intro f64_error_101) simp
  have e: "999999999 / 10 ^ 18 \<le> gateEpsilon" "gateEpsilon \<le> 1000000001 / 10 ^ 18"
    using gateEpsilon_bounds by simp_all
  have tiny: "(1 :: rat) / 2 ^ 47 \<le> 1 / 2" "(1000000001 :: rat) / 10 ^ 18 \<le> 1 / 2" "(0 :: rat) \<le> 999999999 / 10 ^ 18"
    by simp_all
  have "\<bar>f64 a + gateEpsilon\<bar> \<le> 101"
    using a assms(7,8) e tiny unfolding abs_le_iff by linarith
  then have s: "\<bar>f64 (f64 a + gateEpsilon) - (f64 a + gateEpsilon)\<bar> \<le> 1 / 2 ^ 47" by (rule f64_error_101)
  have num: "2 / 2 ^ 43 + (3 :: rat) / 2 ^ 47 \<le> 999999999 / 10 ^ 18"
    "2 / 2 ^ 43 + (3 :: rat) / 2 ^ 47 + 1000000001 / 10 ^ 18 < 2 / 10 ^ 9" by simp_all
  show "d \<le> a \<Longrightarrow> \<not> dropOver (f64 ?x) (f64 a)"
    unfolding dropOver_def not_less d_def using p x a s e num by (simp only: abs_le_iff) linarith
  show "a + 2 / 10 ^ 9 \<le> d \<Longrightarrow> dropOver (f64 ?x) (f64 a)"
    unfolding dropOver_def d_def using p x a s e num by (simp only: abs_le_iff) linarith
qed

lemma EvaluateGate_failed:
  "Failed (EvaluateGate g totalPct dropBase diff) \<longleftrightarrow>
     MinCoverageFailed g totalPct
     \<or> (\<exists>allowed base. MaxCoverageDrop g = Some allowed \<and> dropBase = Some base \<and> dropOver (f64 (base - totalPct)) allowed)
     \<or> (\<exists>m d. MinDiffCoverage g = Some m \<and> diff = Some d \<and> rTotalLines d > 0 \<and> belowMin (resultPercent d) m)"
  by (auto simp: Failed_def EvaluateGate_def MinCoverageFailed_def diffMeasured_def split: option.splits)

lemma belowMin_antimono: "p \<le> q \<Longrightarrow> belowMin q m \<Longrightarrow> belowMin p m"
  by (simp add: belowMin_def)

lemma dropOver_mono: "d \<le> e \<Longrightarrow> dropOver d a \<Longrightarrow> dropOver e a"
  by (simp add: dropOver_def)

lemma belowMin_mono_threshold: "m \<le> n \<Longrightarrow> belowMin p m \<Longrightarrow> belowMin p n"
  using f64_mono [of "m - gateEpsilon" "n - gateEpsilon"] by (simp add: belowMin_def)

lemma resultPercent_Percent:
  "rTotalLines d > 0 \<Longrightarrow> resultPercent d = Percent (rCoveredLines d) (rTotalLines d)"
  by (simp add: resultPercent_def Percent_def)

section \<open>Properties\<close>



text \<open>
  More coverage never fails a gate that less passed. With the gate's other input fixed, a
  commit whose total is higher and whose diff coverage is at least as high passes whenever the
  lower one did; and a stricter minimum never passes what a laxer one failed.
\<close>

theorem gate_monotone:
  assumes "p \<le> q" and "rTotalLines d > 0" and "rTotalLines d = rTotalLines e" and "rCoveredLines d \<le> rCoveredLines e"
    and "\<not> Failed (EvaluateGate g p dropBase (Some d))"
  shows "\<not> Failed (EvaluateGate g q dropBase (Some e))
    \<and> (\<forall>m n. m \<le> n \<and> MinCoverage g = Some n \<longrightarrow> \<not> Failed (EvaluateGate (g\<lparr>MinCoverage := Some m\<rparr>) q dropBase (Some e)))"
proof -
  have diff: "resultPercent d \<le> resultPercent e"
    using Percent_mono assms(2-4) by (simp add: resultPercent_Percent)
  have drop: "f64 (base - q) \<le> f64 (base - p)" for base
    using assms(1) by (intro f64_mono) simp
  have "\<not> MinCoverageFailed g q"
    using assms(1,5) belowMin_antimono by (auto simp: EvaluateGate_failed MinCoverageFailed_def split: option.splits)
  moreover have "\<not> dropOver (f64 (base - q)) allowed" if "MaxCoverageDrop g = Some allowed" "dropBase = Some base" for base allowed
    using that assms(5) dropOver_mono [OF drop] by (auto simp: EvaluateGate_failed)
  moreover have "\<not> belowMin (resultPercent e) m" if "MinDiffCoverage g = Some m" for m
    using that assms(2,5) belowMin_antimono [OF diff] by (auto simp: EvaluateGate_failed)
  ultimately show ?thesis using belowMin_mono_threshold
    by (auto simp: EvaluateGate_failed MinCoverageFailed_def)
qed

theorem gate_monotone_witness:
  "let g = \<lparr>MinCoverage = Some 50, MinDiffCoverage = Some 80, MaxCoverageDrop = None\<rparr>;
       d = (\<lambda>c. \<lparr>rFiles = [], rCoveredLines = c, rTotalLines = 5, rUnmatchedFiles = []\<rparr>)
   in \<not> Failed (EvaluateGate g (Percent 3 5) None (Some (d 4)))
    \<and> \<not> Failed (EvaluateGate g (Percent 4 5) None (Some (d 5)))
    \<and> Failed (EvaluateGate g (Percent 4 5) None (Some (d 3)))"
proof -
  let ?g = "\<lparr>MinCoverage = Some 50, MinDiffCoverage = Some 80, MaxCoverageDrop = (None :: rat option)\<rparr>"
  let ?d = "\<lambda>c. \<lparr>rFiles = [], rCoveredLines = c, rTotalLines = 5, rUnmatchedFiles = []\<rparr>"
  have f: "f64 50 = 50" "f64 80 = 80" using f64_of_int [of 50] f64_of_int [of 80] by simp_all
  have "\<not> belowMin (Percent 3 5) 50" "\<not> belowMin (Percent 4 5) 80" "belowMin (Percent 3 5) 80"
    using belowMin_exact(1) [of 5 3 50] belowMin_exact(1) [of 5 4 80] belowMin_exact(2) [of 5 3 80] f by simp_all
  then have l: "\<not> Failed (EvaluateGate ?g (Percent 3 5) None (Some (?d 4)))"
    and h: "Failed (EvaluateGate ?g (Percent 4 5) None (Some (?d 3)))"
    unfolding EvaluateGate_failed MinCoverageFailed_def by (simp_all add: resultPercent_Percent)
  have "\<not> Failed (EvaluateGate ?g (Percent 4 5) None (Some (?d 5)))"
    by (rule gate_monotone [OF _ _ _ _ l, THEN conjunct1]) (simp_all add: Percent_mono)
  then show ?thesis using l h by (simp only: Let_def simp_thms)
qed

text \<open>
  A finding: the failure message can contradict itself. A total just under the minimum fails, as it
  must, but both numbers are printed with four digits, so the reader is told that coverage of
  80% is below the minimum of 80%.
\<close>

theorem gate_message_hides_shortfall:
  "EvaluateGate \<lparr>MinCoverage = Some 80, MinDiffCoverage = None, MaxCoverageDrop = None\<rparr> (Percent 79999 100000) None None
    = \<lparr>vConfigured = True, vFailures = [''total coverage 80% is below the minimum 80%'']\<rparr>"
  by code_simp

end
