(* ===== verification/MemStore.thy ===== *)
theory MemStore
  imports StoreTypes "HOL-Library.Product_Lexorder"
begin

text \<open>
  The in-memory store, \<open>internal/store/memory/memory.go\<close>: its state and its repo, workspace,
  user and session operations. Every operation runs under the store's mutex, so it is a function
  from the state to its result and the next state; the registries of per-commit and
  per-workspace mutexes hold no data and are left out. A row that goes in or comes out is copied,
  which for values is the identity. The clock is the argument \<open>now\<close>.
\<close>

section \<open>The state\<close>

record memStore =
  repoSeq :: int
  upSeq :: int
  wsSeq :: int
  userSeq :: int
  crSeq :: int
  repos :: "(int, Repo) gomap"
  uploads :: "(int, Upload) gomap"
  files :: "(int, UploadFile list) gomap"
  reports :: "(int, CommitReport) gomap"
  crLease :: "(string, time) gomap"
  crStatus :: "(string, int) gomap"
  workspaces :: "(int, Workspace) gomap"
  users :: "(int, User) gomap"
  sessions :: "(string, Session) gomap"
  oauthCodes :: "(string, OAuthCode) gomap"
  mcpTokens :: "(string, MCPToken) gomap"
  members :: "(int, (int, Role) gomap) gomap"
  tokenless :: "(string, bool) gomap"

definition newStore :: memStore where
  "newStore = \<lparr>repoSeq = 0, upSeq = 0, wsSeq = 0, userSeq = 0, crSeq = 0, repos = [], uploads = [], files = [],
     reports = [], crLease = [], crStatus = [], workspaces = [], users = [], sessions = [], oauthCodes = [],
     mcpTokens = [], members = [], tokenless = []\<rparr>"

type_synonym 'a outcome = "(storeError + 'a) \<times> memStore"

definition findVal :: "('k, 'v) gomap \<Rightarrow> ('v \<Rightarrow> bool) \<Rightarrow> 'v option" where
  "findVal m keep = map_option snd (find (\<lambda>(k, v). keep v) m)"

definition valuesOf :: "('k, 'v) gomap \<Rightarrow> 'v list" where
  "valuesOf m = map snd m"

definition atMost :: "'a list \<Rightarrow> int \<Rightarrow> 'a list" where
  "atMost s limit = (if limit > 0 then take (nat (min (int (length s)) limit)) s else s)"

definition deleteFunc :: "('k, 'v) gomap \<Rightarrow> ('v \<Rightarrow> bool) \<Rightarrow> ('k, 'v) gomap" where
  "deleteFunc m del = filter (\<lambda>(k, v). \<not> del v) m"

text \<open>A read of one row: the row, or \<open>ErrNotFound\<close>.\<close>

definition rowOr :: "'v option \<Rightarrow> storeError + 'v" where
  "rowOr r = (case r of Some v \<Rightarrow> Inr v | None \<Rightarrow> Inl ErrNotFound)"

section \<open>Repos\<close>

definition CreateRepo :: "time \<Rightarrow> Repo \<Rightarrow> memStore \<Rightarrow> Repo outcome" where
  "CreateRepo now r s =
     (if findVal (repos s) (\<lambda>x. (rpForge x = rpForge r \<and> rpSlug x = rpSlug r) \<or> rpToken x = rpToken r) \<noteq> None
      then (Inl (ErrRepoExists), s)
      else let id = repoSeq s + 1;
               r = r\<lparr>rpID := id, rpCreatedAt := (if rpCreatedAt r = 0 then now else rpCreatedAt r)\<rparr>
           in (Inr r, s\<lparr>repoSeq := id, repos := AList.update id (r\<lparr>rpVisibilityCheckedAt := 0\<rparr>) (repos s)\<rparr>))"

definition UpdateRepo :: "Repo \<Rightarrow> memStore \<Rightarrow> unit outcome" where
  "UpdateRepo r s =
     (case map_of (repos s) (rpID r) of
        None \<Rightarrow> (Inl ErrNotFound, s)
      | Some existing \<Rightarrow>
          let cp = r\<lparr>rpCreatedAt := (if rpCreatedAt r = 0 then rpCreatedAt existing else rpCreatedAt r),
                     rpVisibility := rpVisibility existing, rpVisibilityCheckedAt := rpVisibilityCheckedAt existing\<rparr>
          in (Inr (), s\<lparr>repos := AList.update (rpID r) cp (repos s)\<rparr>))"

text \<open>\<open>byForgeSlug\<close> and \<open>byForgePrefix\<close>, as the keys they compare.\<close>

definition byForgeSlug :: "Repo \<Rightarrow> string \<times> string" where
  "byForgeSlug r = (rpForge r, rpSlug r)"

definition byForgePrefix :: "Workspace \<Rightarrow> string \<times> string" where
  "byForgePrefix w = (wsForge w, wsPrefix w)"

definition PublicRepoRefs :: "int \<Rightarrow> memStore \<Rightarrow> RepoRef list" where
  "PublicRepoRefs limit s =
     atMost (map (\<lambda>r. \<lparr>refForge = rpForge r, refSlug = rpSlug r\<rparr>)
               (sort_key byForgeSlug (filter ReportsPublic (valuesOf (repos s))))) limit"

definition SetRepoVisibility :: "int \<Rightarrow> string \<Rightarrow> time \<Rightarrow> memStore \<Rightarrow> unit outcome" where
  "SetRepoVisibility repoID visibility checkedAt s =
     (case map_of (repos s) repoID of
        None \<Rightarrow> (Inl ErrNotFound, s)
      | Some r \<Rightarrow>
          if rpVisibilityCheckedAt r \<noteq> 0 \<and> \<not> rpVisibilityCheckedAt r < checkedAt then (Inr (), s)
          else (Inr (), s\<lparr>repos := AList.update repoID (r\<lparr>rpVisibility := visibility, rpVisibilityCheckedAt := checkedAt\<rparr>) (repos s)\<rparr>))"

definition deleteRepoLocked :: "int \<Rightarrow> memStore \<Rightarrow> memStore" where
  "deleteRepoLocked rid s =
     (let dead = map fst (filter (\<lambda>(uid, u). upRepoID u = rid) (uploads s))
      in s\<lparr>uploads := deleteFunc (uploads s) (\<lambda>u. upRepoID u = rid),
           files := filter (\<lambda>(uid, _). uid \<notin> set dead) (files s),
           reports := deleteFunc (reports s) (\<lambda>cr. crRepoID cr = rid),
           repos := AList.delete rid (repos s)\<rparr>)"

definition DeleteRepo :: "int \<Rightarrow> memStore \<Rightarrow> unit outcome" where
  "DeleteRepo rid s =
     (case map_of (repos s) rid of None \<Rightarrow> (Inl ErrNotFound, s) | Some _ \<Rightarrow> (Inr (), deleteRepoLocked rid s))"

definition RepoByID :: "int \<Rightarrow> memStore \<Rightarrow> storeError + Repo" where
  "RepoByID rid s = rowOr (map_of (repos s) rid)"

definition RepoBySlug :: "string \<Rightarrow> string \<Rightarrow> memStore \<Rightarrow> storeError + Repo" where
  "RepoBySlug forge slug s = rowOr (findVal (repos s) (\<lambda>r. rpForge r = forge \<and> rpSlug r = slug))"

definition RepoByToken :: "string \<Rightarrow> memStore \<Rightarrow> storeError + Repo" where
  "RepoByToken token s = rowOr (findVal (repos s) (\<lambda>r. rpToken r = token))"

definition ListRepos :: "memStore \<Rightarrow> Repo list" where
  "ListRepos s = sort_key byForgeSlug (valuesOf (repos s))"

text \<open>\<open>ws.Owns\<close> on a workspace that has only a forge and a prefix.\<close>

definition ListWorkspaceRepos :: "string \<Rightarrow> string \<Rightarrow> memStore \<Rightarrow> Repo list" where
  "ListWorkspaceRepos forge prefix s =
     sort_key byForgeSlug
       (filter (\<lambda>r. rpForge r = forge \<and> hasPrefix (rpSlug r) (prefix @ ''/'')) (valuesOf (repos s)))"

section \<open>Workspaces\<close>

definition createWorkspaceLocked :: "time \<Rightarrow> Workspace \<Rightarrow> memStore \<Rightarrow> Workspace outcome" where
  "createWorkspaceLocked now w s =
     (if findVal (workspaces s) (\<lambda>x. (wsForge x = wsForge w \<and> wsPrefix x = wsPrefix w) \<or> wsToken x = wsToken w) \<noteq> None
      then (Inl (ErrWorkspaceExists), s)
      else let wid = wsSeq s + 1;
               w = w\<lparr>wsID := wid, wsCreatedAt := (if wsCreatedAt w = 0 then now else wsCreatedAt w)\<rparr>
           in (Inr w, s\<lparr>wsSeq := wid, workspaces := AList.update wid w (workspaces s)\<rparr>))"

definition CreateWorkspace :: "time \<Rightarrow> Workspace \<Rightarrow> memStore \<Rightarrow> Workspace outcome" where
  "CreateWorkspace now w s = createWorkspaceLocked now w s"

definition membersOf :: "memStore \<Rightarrow> int \<Rightarrow> (int, Role) gomap" where
  "membersOf s userID = (case map_of (members s) userID of Some m \<Rightarrow> m | None \<Rightarrow> [])"

definition RegisterWorkspace :: "time \<Rightarrow> Workspace \<Rightarrow> int \<Rightarrow> memStore \<Rightarrow> Workspace outcome" where
  "RegisterWorkspace now w userID s =
     (if map_of (users s) userID = None
      then (Inl (ErrNoUser userID), s)
      else case createWorkspaceLocked now w s of
        (Inl e, s') \<Rightarrow> (Inl e, s')
      | (Inr w', s') \<Rightarrow>
          (Inr w', s'\<lparr>members := AList.update userID (AList.update (wsID w') RoleOwner (membersOf s' userID)) (members s')\<rparr>))"

definition UpdateWorkspace :: "Workspace \<Rightarrow> memStore \<Rightarrow> unit outcome" where
  "UpdateWorkspace w s =
     (case map_of (workspaces s) (wsID w) of
        None \<Rightarrow> (Inl ErrNotFound, s)
      | Some existing \<Rightarrow>
          let cp = w\<lparr>wsCreatedAt := (if wsCreatedAt w = 0 then wsCreatedAt existing else wsCreatedAt w),
                     wsGrant := wsGrant existing\<rparr>
          in (Inr (), s\<lparr>workspaces := AList.update (wsID w) cp (workspaces s)\<rparr>))"

definition SetWorkspaceGrant :: "int \<Rightarrow> string \<Rightarrow> Grant \<Rightarrow> memStore \<Rightarrow> unit outcome" where
  "SetWorkspaceGrant workspaceID forge g s =
     (case map_of (workspaces s) workspaceID of
        None \<Rightarrow> (Inl ErrNotFound, s)
      | Some w \<Rightarrow>
          if wsForge w \<noteq> forge \<or> (forge \<noteq> ''bitbucket'' \<and> forge \<noteq> ''gitlab'') then (Inl ErrNotFound, s)
          else (Inr (), s\<lparr>workspaces := AList.update workspaceID (w\<lparr>wsGrant := g\<rparr>) (workspaces s)\<rparr>))"

definition SetGitHubAppBroken :: "int \<Rightarrow> int \<Rightarrow> bool \<Rightarrow> memStore \<Rightarrow> unit outcome" where
  "SetGitHubAppBroken workspaceID installationID broken s =
     (case map_of (workspaces s) workspaceID of
        None \<Rightarrow> (Inr (), s)
      | Some w \<Rightarrow>
          if wsForge w = ''github'' \<and> installationID \<noteq> 0 \<and> wsGitHubInstallationID w = installationID
          then (Inr (), s\<lparr>workspaces := AList.update workspaceID (w\<lparr>wsGitHubAppBroken := broken\<rparr>) (workspaces s)\<rparr>)
          else (Inr (), s))"

definition MarkWorkspaceGrantBroken :: "int \<Rightarrow> string \<Rightarrow> string \<Rightarrow> memStore \<Rightarrow> unit outcome" where
  "MarkWorkspaceGrantBroken workspaceID forge account s =
     (if forge \<noteq> ''bitbucket'' \<and> forge \<noteq> ''gitlab'' then (Inl ErrNotFound, s)
      else case map_of (workspaces s) workspaceID of
        None \<Rightarrow> (Inr (), s)
      | Some w \<Rightarrow>
          if wsForge w = forge \<and> account \<noteq> [] \<and> grAccount (wsGrant w) = account \<and> grRefreshToken (wsGrant w) \<noteq> []
          then (Inr (), s\<lparr>workspaces :=
                  AList.update workspaceID (w\<lparr>wsGrant := (wsGrant w)\<lparr>grBroken := True\<rparr>\<rparr>) (workspaces s)\<rparr>)
          else (Inr (), s))"

definition DeleteWorkspace :: "int \<Rightarrow> memStore \<Rightarrow> unit outcome" where
  "DeleteWorkspace wid s =
     (case map_of (workspaces s) wid of
        None \<Rightarrow> (Inl ErrNotFound, s)
      | Some ws \<Rightarrow>
          let s' = foldl (\<lambda>s (rid, r). if Owns ws r then deleteRepoLocked rid s else s) s (repos s)
          in (Inr (), s'\<lparr>workspaces := AList.delete wid (workspaces s'),
                        members := map (\<lambda>(uid, m). (uid, AList.delete wid m)) (members s')\<rparr>))"

definition WorkspaceByPrefix :: "string \<Rightarrow> string \<Rightarrow> memStore \<Rightarrow> storeError + Workspace" where
  "WorkspaceByPrefix forge prefix s = rowOr (findVal (workspaces s) (\<lambda>w. wsForge w = forge \<and> wsPrefix w = prefix))"

definition WorkspaceByToken :: "string \<Rightarrow> memStore \<Rightarrow> storeError + Workspace" where
  "WorkspaceByToken token s = rowOr (findVal (workspaces s) (\<lambda>w. wsToken w = token))"

definition ListWorkspaces :: "memStore \<Rightarrow> Workspace list" where
  "ListWorkspaces s = sort_key byForgePrefix (valuesOf (workspaces s))"

section \<open>Memberships\<close>

text \<open>The loop that builds the new set, and stops at the first membership it refuses.\<close>

fun membershipSet :: "memStore \<Rightarrow> (int, Role) gomap \<Rightarrow> Membership list \<Rightarrow> storeError + (int, Role) gomap" where
  "membershipSet s roles [] = Inr roles"
| "membershipSet s roles (m # ms) =
     (if map_of (workspaces s) (mbWorkspaceID m) = None
      then Inl (ErrNoWorkspace (mbWorkspaceID m))
      else if mbRole m \<noteq> RoleOwner \<and> mbRole m \<noteq> RoleMember
      then Inl (ErrUnknownRole (mbRole m))
      else membershipSet s (AList.update (mbWorkspaceID m) (mbRole m) roles) ms)"

definition SetUserMemberships :: "int \<Rightarrow> Membership list \<Rightarrow> memStore \<Rightarrow> unit outcome" where
  "SetUserMemberships userID ms s =
     (if ms = [] then (Inr (), s\<lparr>members := AList.delete userID (members s)\<rparr>)
      else case membershipSet s [] ms of
        Inl e \<Rightarrow> (Inl e, s)
      | Inr roles \<Rightarrow> (Inr (), s\<lparr>members := AList.update userID roles (members s)\<rparr>))"

definition ListMembershipsForUser :: "int \<Rightarrow> memStore \<Rightarrow> Membership list" where
  "ListMembershipsForUser userID s =
     sort_key mbWorkspaceID
       (map (\<lambda>(wid, role). \<lparr>mbWorkspaceID = wid, mbRole = role\<rparr>)
         (filter (\<lambda>(wid, role). map_of (workspaces s) wid \<noteq> None) (membersOf s userID)))"

definition ListWorkspacesForUser :: "int \<Rightarrow> memStore \<Rightarrow> Workspace list" where
  "ListWorkspacesForUser userID s =
     sort_key byForgePrefix (List.map_filter (\<lambda>(wid, role). map_of (workspaces s) wid) (membersOf s userID))"

section \<open>Users\<close>

definition UpsertUser :: "time \<Rightarrow> User \<Rightarrow> memStore \<Rightarrow> User outcome" where
  "UpsertUser now u s =
     (case findVal (users s) (\<lambda>x. usForge x = usForge u \<and> usForgeUUID x = usForgeUUID u) of
        Some existing \<Rightarrow>
          let e = existing\<lparr>usEmail := usEmail u, usDisplayName := usDisplayName u,
                    usForgeWorkspaces := usForgeWorkspaces u, usForgeOwnedWorkspaces := usForgeOwnedWorkspaces u,
                    usLastLoginAt := now\<rparr>
          in (Inr e, s\<lparr>users := AList.update (usID existing) e (users s)\<rparr>)
      | None \<Rightarrow>
          let uid = userSeq s + 1; u = u\<lparr>usID := uid, usCreatedAt := now, usLastLoginAt := now\<rparr>
          in (Inr u, s\<lparr>userSeq := uid, users := AList.update uid u (users s)\<rparr>))"

definition UserByID :: "int \<Rightarrow> memStore \<Rightarrow> storeError + User" where
  "UserByID uid s = rowOr (map_of (users s) uid)"

definition ListUsers :: "memStore \<Rightarrow> User list" where
  "ListUsers s = sort_key usID (valuesOf (users s))"

definition DeleteUser :: "int \<Rightarrow> memStore \<Rightarrow> unit outcome" where
  "DeleteUser uid s =
     (case map_of (users s) uid of
        None \<Rightarrow> (Inl ErrNotFound, s)
      | Some _ \<Rightarrow>
          (Inr (), s\<lparr>users := AList.delete uid (users s), members := AList.delete uid (members s),
             sessions := deleteFunc (sessions s) (\<lambda>sess. seUserID sess = uid),
             oauthCodes := deleteFunc (oauthCodes s) (\<lambda>c. ocUserID c = uid),
             mcpTokens := deleteFunc (mcpTokens s) (\<lambda>t. mtUserID t = uid)\<rparr>))"

section \<open>Sessions, authorization codes and MCP tokens\<close>

definition CreateSession :: "time \<Rightarrow> Session \<Rightarrow> memStore \<Rightarrow> Session outcome" where
  "CreateSession now sess s =
     (if map_of (users s) (seUserID sess) = None
      then (Inl (ErrNoUser (seUserID sess)), s)
      else let sess = sess\<lparr>seCreatedAt := (if seCreatedAt sess = 0 then now else seCreatedAt sess)\<rparr>
           in (Inr sess, s\<lparr>sessions := AList.update (seTokenHash sess) sess (sessions s)\<rparr>))"

definition UserBySession :: "time \<Rightarrow> string \<Rightarrow> memStore \<Rightarrow> User outcome" where
  "UserBySession now tokenHash s =
     (case map_of (sessions s) tokenHash of
        None \<Rightarrow> (Inl ErrNotFound, s)
      | Some sess \<Rightarrow>
          if \<not> seExpiresAt sess > now then (Inl ErrNotFound, s\<lparr>sessions := AList.delete tokenHash (sessions s)\<rparr>)
          else (rowOr (map_of (users s) (seUserID sess)), s))"

definition DeleteSession :: "string \<Rightarrow> memStore \<Rightarrow> unit outcome" where
  "DeleteSession tokenHash s =
     (case map_of (sessions s) tokenHash of
        None \<Rightarrow> (Inl ErrNotFound, s)
      | Some _ \<Rightarrow> (Inr (), s\<lparr>sessions := AList.delete tokenHash (sessions s)\<rparr>))"

definition CreateOAuthCode :: "OAuthCode \<Rightarrow> memStore \<Rightarrow> unit outcome" where
  "CreateOAuthCode c s =
     (if map_of (users s) (ocUserID c) = None
      then (Inl (ErrNoUser (ocUserID c)), s)
      else (Inr (), s\<lparr>oauthCodes := AList.update (ocCodeHash c) c (oauthCodes s)\<rparr>))"

definition ConsumeOAuthCode :: "time \<Rightarrow> string \<Rightarrow> memStore \<Rightarrow> OAuthCode outcome" where
  "ConsumeOAuthCode now codeHash s =
     (case map_of (oauthCodes s) codeHash of
        None \<Rightarrow> (Inl ErrNotFound, s)
      | Some c \<Rightarrow>
          let s' = s\<lparr>oauthCodes := AList.delete codeHash (oauthCodes s)\<rparr>
          in if \<not> ocExpiresAt c > now then (Inl ErrNotFound, s') else (Inr c, s'))"

definition CreateMCPToken :: "time \<Rightarrow> MCPToken \<Rightarrow> memStore \<Rightarrow> MCPToken outcome" where
  "CreateMCPToken now t s =
     (if map_of (users s) (mtUserID t) = None
      then (Inl (ErrNoUser (mtUserID t)), s)
      else let t = t\<lparr>mtCreatedAt := (if mtCreatedAt t = 0 then now else mtCreatedAt t)\<rparr>
           in (Inr t, s\<lparr>mcpTokens := AList.update (mtTokenHash t) t (mcpTokens s)\<rparr>))"

definition UserByMCPToken :: "time \<Rightarrow> string \<Rightarrow> memStore \<Rightarrow> User outcome" where
  "UserByMCPToken now tokenHash s =
     (case map_of (mcpTokens s) tokenHash of
        None \<Rightarrow> (Inl ErrNotFound, s)
      | Some t \<Rightarrow>
          if \<not> mtExpiresAt t > now then (Inl ErrNotFound, s\<lparr>mcpTokens := AList.delete tokenHash (mcpTokens s)\<rparr>)
          else (rowOr (map_of (users s) (mtUserID t)), s))"

section \<open>Tokenless uploads\<close>

definition tokenlessKey :: "int \<Rightarrow> int \<Rightarrow> int \<Rightarrow> string \<Rightarrow> string" where
  "tokenlessKey repoID runID runAttempt part =
     itoa repoID @ '':'' @ itoa runID @ '':'' @ itoa runAttempt @ '':'' @ part"

definition ClaimTokenlessUpload :: "int \<Rightarrow> int \<Rightarrow> int \<Rightarrow> string \<Rightarrow> memStore \<Rightarrow> bool \<times> memStore" where
  "ClaimTokenlessUpload repoID runID runAttempt part s =
     (let key = tokenlessKey repoID runID runAttempt part
      in if map_of (tokenless s) key = Some True then (False, s)
         else (True, s\<lparr>tokenless := AList.update key True (tokenless s)\<rparr>))"

definition ReleaseTokenlessUpload :: "int \<Rightarrow> int \<Rightarrow> int \<Rightarrow> string \<Rightarrow> memStore \<Rightarrow> memStore" where
  "ReleaseTokenlessUpload repoID runID runAttempt part s =
     s\<lparr>tokenless := AList.delete (tokenlessKey repoID runID runAttempt part) (tokenless s)\<rparr>"

end
