(* ===== verification/MemReports.thy ===== *)
theory MemReports
  imports MemStore
begin

text \<open>
  The uploads, merged reports and push leases of the in-memory store,
  \<open>internal/store/memory/memory.go\<close>, continued from the theory \<open>MemStore\<close>.
\<close>

section \<open>Uploads\<close>

definition CreateUpload :: "time \<Rightarrow> Upload \<Rightarrow> UploadFile list \<Rightarrow> memStore \<Rightarrow> Upload outcome" where
  "CreateUpload now u fs s =
     (let uid = upSeq s + 1;
          u = u\<lparr>upID := uid, upCreatedAt := (if upCreatedAt u = 0 then now else upCreatedAt u)\<rparr>
      in (Inr u, s\<lparr>upSeq := uid, uploads := AList.update uid u (uploads s),
            files := AList.update uid (sort_key ufPath (map (\<lambda>f. f\<lparr>ufUploadID := uid\<rparr>) fs)) (files s)\<rparr>))"

definition getUpload :: "int \<Rightarrow> memStore \<Rightarrow> storeError + Upload" where
  "getUpload uid s = rowOr (map_of (uploads s) uid)"

text \<open>Newest first: by descending ID.\<close>

definition newestUploads :: "int \<Rightarrow> int \<Rightarrow> (Upload \<Rightarrow> bool) \<Rightarrow> memStore \<Rightarrow> Upload list" where
  "newestUploads offset limit keep s =
     (let out = sort_key (\<lambda>u. - upID u) (filter keep (valuesOf (uploads s)))
      in atMost (drop (nat (min offset (int (length out)))) out) limit)"

definition ListUploads :: "int \<Rightarrow> int \<Rightarrow> int \<Rightarrow> memStore \<Rightarrow> Upload list" where
  "ListUploads repoID offset limit s = newestUploads offset limit (\<lambda>u. upRepoID u = repoID) s"

definition ListBranchUploads :: "int \<Rightarrow> string \<Rightarrow> int \<Rightarrow> int \<Rightarrow> memStore \<Rightarrow> Upload list" where
  "ListBranchUploads repoID branch offset limit s =
     newestUploads offset limit (\<lambda>u. upRepoID u = repoID \<and> upBranch u = branch) s"

definition RecentBranches :: "int \<Rightarrow> int \<Rightarrow> memStore \<Rightarrow> string list" where
  "RecentBranches repoID scan s =
     sort (remdups (map upBranch (newestUploads 0 scan (\<lambda>u. upRepoID u = repoID) s)))"

definition LatestPassedUpload :: "int \<Rightarrow> string \<Rightarrow> int \<Rightarrow> string \<Rightarrow> memStore \<Rightarrow> storeError + Upload" where
  "LatestPassedUpload repoID branch beforeID excludeCommit s =
     (case newestUploads 0 1 (\<lambda>u. upRepoID u = repoID \<and> upBranch u = branch \<and> upPRID u = [] \<and> \<not> upGateFailed u
              \<and> (beforeID = 0 \<or> upID u < beforeID) \<and> upCommitSHA u \<noteq> excludeCommit) s of
        [] \<Rightarrow> Inl ErrNotFound
      | u # _ \<Rightarrow> Inr u)"

definition filesOfUpload :: "memStore \<Rightarrow> int \<Rightarrow> UploadFile list" where
  "filesOfUpload s uid = (case map_of (files s) uid of Some fs \<Rightarrow> fs | None \<Rightarrow> [])"

definition UploadFiles :: "int \<Rightarrow> memStore \<Rightarrow> UploadFile list" where
  "UploadFiles uploadID s = sort_key ufPath (filesOfUpload s uploadID)"

definition getUploadFile :: "int \<Rightarrow> string \<Rightarrow> memStore \<Rightarrow> storeError + UploadFile" where
  "getUploadFile uploadID path s = rowOr (find (\<lambda>f. ufPath f = path) (filesOfUpload s uploadID))"

definition PartFiles :: "int list \<Rightarrow> memStore \<Rightarrow> UploadFile list" where
  "PartFiles uploadIDs s = concat (map (filesOfUpload s) uploadIDs)"

definition latestPart :: "(string, Upload) gomap \<Rightarrow> Upload \<Rightarrow> (string, Upload) gomap" where
  "latestPart latest u = (case map_of latest (upPart u) of
     None \<Rightarrow> AList.update (upPart u) u latest
   | Some cur \<Rightarrow> if upID u > upID cur then AList.update (upPart u) u latest else latest)"

definition LatestUploadsPerPart :: "int \<Rightarrow> string \<Rightarrow> memStore \<Rightarrow> Upload list" where
  "LatestUploadsPerPart repoID commitSHA s =
     sort_key upID (valuesOf (foldl latestPart []
       (filter (\<lambda>u. \<not> (upRepoID u \<noteq> repoID \<or> upCommitSHA u \<noteq> commitSHA)) (valuesOf (uploads s)))))"

definition CommitParts :: "int \<Rightarrow> string \<Rightarrow> memStore \<Rightarrow> string list" where
  "CommitParts repoID commitSHA s =
     foldl (\<lambda>out u. if upRepoID u = repoID \<and> upCommitSHA u = commitSHA \<and> upPart u \<notin> set out then out @ [upPart u] else out)
       [] (valuesOf (uploads s))"

section \<open>Merged reports\<close>

definition commitReportLocked :: "int \<Rightarrow> string \<Rightarrow> memStore \<Rightarrow> CommitReport option" where
  "commitReportLocked repoID commitSHA s =
     findVal (reports s) (\<lambda>cr. crRepoID cr = repoID \<and> crCommitSHA cr = commitSHA)"

definition UpsertCommitReport :: "time \<Rightarrow> CommitReport \<Rightarrow> memStore \<Rightarrow> CommitReport outcome" where
  "UpsertCommitReport now cr s =
     (case commitReportLocked (crRepoID cr) (crCommitSHA cr) s of
        Some existing \<Rightarrow>
          let cr = cr\<lparr>crID := crID existing, crCreatedAt := crCreatedAt existing, crUpdatedAt := now\<rparr>
          in (Inr cr, s\<lparr>reports := AList.update (crID cr) cr (reports s)\<rparr>)
      | None \<Rightarrow>
          let rid = crSeq s + 1; created = (if crCreatedAt cr = 0 then now else crCreatedAt cr);
              cr = cr\<lparr>crID := rid, crCreatedAt := created,
                     crUpdatedAt := (if crUpdatedAt cr = 0 then created else crUpdatedAt cr)\<rparr>
          in (Inr cr, s\<lparr>crSeq := rid, reports := AList.update rid cr (reports s)\<rparr>))"

definition getCommitReport :: "int \<Rightarrow> string \<Rightarrow> memStore \<Rightarrow> storeError + CommitReport" where
  "getCommitReport repoID commitSHA s = rowOr (commitReportLocked repoID commitSHA s)"

text \<open>The loop of \<open>latestCommitReport\<close>: the row with the highest ID among those it does not skip.\<close>

definition passesOver :: "int \<Rightarrow> string \<Rightarrow> int \<Rightarrow> string \<Rightarrow> bool \<Rightarrow> bool \<Rightarrow> CommitReport \<Rightarrow> bool" where
  "passesOver repoID branch beforeID excludeCommit passedOnly nonPROnly cr \<longleftrightarrow>
     crRepoID cr \<noteq> repoID \<or> crBranch cr \<noteq> branch
     \<or> (passedOnly \<and> crGateFailed cr)
     \<or> (nonPROnly \<and> crPRID cr \<noteq> [])
     \<or> (excludeCommit \<noteq> [] \<and> crCommitSHA cr = excludeCommit)
     \<or> (beforeID > 0 \<and> crID cr \<ge> beforeID)"

definition latestCommitReport :: "int \<Rightarrow> string \<Rightarrow> int \<Rightarrow> string \<Rightarrow> bool \<Rightarrow> bool \<Rightarrow> memStore \<Rightarrow> storeError + CommitReport" where
  "latestCommitReport repoID branch beforeID excludeCommit passedOnly nonPROnly s =
     rowOr (foldl (\<lambda>latest cr.
         if passesOver repoID branch beforeID excludeCommit passedOnly nonPROnly cr then latest
         else case latest of None \<Rightarrow> Some cr | Some l \<Rightarrow> if crID cr > crID l then Some cr else latest)
       None (valuesOf (reports s)))"

definition LatestPassedCommitReport :: "int \<Rightarrow> string \<Rightarrow> int \<Rightarrow> string \<Rightarrow> memStore \<Rightarrow> storeError + CommitReport" where
  "LatestPassedCommitReport repoID branch beforeID excludeCommit s =
     latestCommitReport repoID branch beforeID excludeCommit True True s"

definition ListBranchCommitReports :: "int \<Rightarrow> string \<Rightarrow> int \<Rightarrow> memStore \<Rightarrow> CommitReport list" where
  "ListBranchCommitReports repoID branch limit s =
     (let defaultBranch = (case map_of (repos s) repoID of Some repo \<Rightarrow> branch = rpDefaultBranch repo | None \<Rightarrow> False)
      in atMost (sort_key (\<lambda>cr. - crID cr)
           (filter (\<lambda>cr. crRepoID cr = repoID \<and> crBranch cr = branch \<and> \<not> (defaultBranch \<and> crPRID cr \<noteq> []))
             (valuesOf (reports s)))) limit)"

definition DefaultBranchReports :: "int list \<Rightarrow> int \<Rightarrow> memStore \<Rightarrow> (int, CommitReport list) gomap" where
  "DefaultBranchReports repoIDs limit s =
     foldl (\<lambda>out rid. case map_of (repos s) rid of
         None \<Rightarrow> out
       | Some repo \<Rightarrow>
           let rs = ListBranchCommitReports rid (rpDefaultBranch repo) limit s
           in if rs = [] then out else AList.update rid (map (\<lambda>cr. cr\<lparr>crDiffCoverage := None\<rparr>) rs) out)
       [] repoIDs"

text \<open>
  \<open>WithCommitReportTx\<close> runs \<open>fn\<close> under the commit's mutex, on the store itself; the same holds
  for \<open>WithGrantLock\<close> and the workspace's.
\<close>

definition WithCommitReportTx :: "int \<Rightarrow> string \<Rightarrow> (memStore \<Rightarrow> 'a \<times> memStore) \<Rightarrow> memStore \<Rightarrow> 'a \<times> memStore" where
  "WithCommitReportTx repoID commitSHA fn s = fn s"

section \<open>Push leases\<close>

definition commitKey :: "int \<Rightarrow> string \<Rightarrow> string" where
  "commitKey repoID commitSHA = itoa repoID @ '':'' @ commitSHA"

definition statusOf :: "memStore \<Rightarrow> string \<Rightarrow> int" where
  "statusOf s key = (case map_of (crStatus s) key of Some v \<Rightarrow> v | None \<Rightarrow> 0)"

definition leaseOf :: "memStore \<Rightarrow> string \<Rightarrow> time" where
  "leaseOf s key = (case map_of (crLease s) key of Some t \<Rightarrow> t | None \<Rightarrow> 0)"

definition ClaimPush :: "time \<Rightarrow> int \<Rightarrow> string \<Rightarrow> int \<Rightarrow> time \<Rightarrow> memStore \<Rightarrow> (PushClaim \<times> time) \<times> memStore" where
  "ClaimPush now repoID commitSHA version lease s =
     (let key = commitKey repoID commitSHA
      in if commitReportLocked repoID commitSHA s = None \<or> version < statusOf s key then ((PushSuperseded, 0), s)
         else if leaseOf s key > now then ((PushQueued, 0), s)
         else ((PushClaimed, now + lease), s\<lparr>crLease := AList.update key (now + lease) (crLease s)\<rparr>))"

definition FinishPush :: "int \<Rightarrow> string \<Rightarrow> int \<Rightarrow> time \<Rightarrow> bool \<Rightarrow> memStore \<Rightarrow> bool \<times> memStore" where
  "FinishPush repoID commitSHA version lease pushed s =
     (let key = commitKey repoID commitSHA
      in if commitReportLocked repoID commitSHA s = None then (False, s)
         else let s = (if pushed \<and> version > statusOf s key
                       then s\<lparr>crStatus := AList.update key version (crStatus s)\<rparr> else s)
              in if leaseOf s key \<noteq> lease then (False, s)
                 else (list_ex (\<lambda>u. upRepoID u = repoID \<and> upCommitSHA u = commitSHA \<and> upID u > version) (valuesOf (uploads s)),
                       s\<lparr>crLease := AList.delete key (crLease s)\<rparr>))"

end
