(* ===== verification/MemInvariant.thy ===== *)
theory MemInvariant
  imports MemReports
begin

text \<open>
  The invariant of the in-memory store and its preservation by every operation: rows are kept
  under their own IDs, below the counters that hand those out; what PostgreSQL declares unique is
  unique; sessions, codes and tokens belong to users that exist, memberships to workspaces that do.
\<close>

section \<open>Tables\<close>

definition keyed :: "('v \<Rightarrow> int) \<Rightarrow> int \<Rightarrow> (int, 'v) gomap \<Rightarrow> bool" where
  "keyed idf seq m \<longleftrightarrow> wfMap m \<and> 0 \<le> seq \<and> (\<forall>k v. map_of m k = Some v \<longrightarrow> idf v = k \<and> 0 < k \<and> k \<le> seq)"

definition uniqueBy :: "('v \<Rightarrow> 'u) \<Rightarrow> ('k, 'v) gomap \<Rightarrow> bool" where
  "uniqueBy f m \<longleftrightarrow> (\<forall>k v k' v'. map_of m k = Some v \<and> map_of m k' = Some v' \<and> f v = f v' \<longrightarrow> k = k')"

named_theorems table \<open>facts on tables of rows\<close>

lemma findVal_Some: "wfMap m \<Longrightarrow> findVal m keep = Some v \<Longrightarrow> keep v \<and> (\<exists>k. map_of m k = Some v)"
  by (force simp: findVal_def find_Some_iff wfMap_def in_set_conv_nth)

lemma findVal_None: "wfMap m \<Longrightarrow> findVal m keep = None \<longleftrightarrow> (\<forall>k v. map_of m k = Some v \<longrightarrow> \<not> keep v)"
  by (auto simp: findVal_def find_None_iff wfMap_def)

lemma findVal_unique:
  assumes "wfMap m" and "uniqueBy f m" and "\<And>v. keep v \<longleftrightarrow> f v = x" and "map_of m k = Some v" and "keep v"
  shows "findVal m keep = Some v"
proof (cases "findVal m keep")
  case None
  then show ?thesis using findVal_None [OF assms(1), of keep] assms(4,5) by blast
next
  case (Some w)
  obtain k' where "map_of m k' = Some w" "keep w" using findVal_Some [OF assms(1) Some] by blast
  moreover have "f w = f v" using \<open>keep w\<close> assms(3,5) by simp
  ultimately have "k' = k" using assms(2,4) unfolding uniqueBy_def by blast
  then show ?thesis using Some \<open>map_of m k' = Some w\<close> assms(4) by simp
qed

lemma set_valuesOf: "wfMap m \<Longrightarrow> v \<in> set (valuesOf m) \<longleftrightarrow> (\<exists>k. map_of m k = Some v)"
  by (force simp: valuesOf_def wfMap_def)

lemma wfMap_deleteFunc [table, simp]: "wfMap m \<Longrightarrow> wfMap (deleteFunc m del)"
  by (simp add: wfMap_def deleteFunc_def distinct_map_filter)

lemma map_of_filter_key: "map_of (filter (\<lambda>(k, _). P k) m) k = (if P k then map_of m k else None)"
  by (induction m) auto

lemma map_of_deleteFunc [table]:
  "wfMap m \<Longrightarrow> map_of (deleteFunc m del) k = (case map_of m k of Some v \<Rightarrow> if del v then None else Some v | None \<Rightarrow> None)"
proof (induction m)
  case (Cons x m)
  then have "k = fst x \<Longrightarrow> map_of m k = None"
    by (auto simp: wfMap_def map_of_eq_None_iff)
  then show ?case using Cons by (cases x) (auto simp: deleteFunc_def wfMap_def split: option.splits)
qed (simp add: deleteFunc_def)

lemma keyed_wf [table, simp]: "keyed idf seq m \<Longrightarrow> wfMap m"
  by (simp add: keyed_def)

lemma keyed_Nil [table, simp]: "keyed idf 0 []"
  by (simp add: keyed_def)

lemma uniqueBy_Nil [table, simp]: "uniqueBy f []"
  by (simp add: uniqueBy_def)

lemma keyed_id: "keyed idf seq m \<Longrightarrow> map_of m k = Some v \<Longrightarrow> idf v = k"
  by (simp add: keyed_def)

lemma keyed_fresh: "keyed idf seq m \<Longrightarrow> map_of m (seq + 1) = None"
  by (cases "map_of m (seq + 1)") (fastforce simp: keyed_def)+

lemma row_of_insert:
  assumes "map_of m k = None"
  shows "(\<exists>i. map_of (AList.update k v m) i = Some x) \<longleftrightarrow> x = v \<or> (\<exists>i. map_of m i = Some x)"
proof -
  have "map_of m i = Some x \<Longrightarrow> i \<noteq> k" for i using assms by auto
  then show ?thesis by (metis map_of_update option.inject)
qed

lemma keyed_insert [table]: "keyed idf seq m \<Longrightarrow> idf v = seq + 1 \<Longrightarrow> keyed idf (seq + 1) (AList.update (seq + 1) v m)"
  unfolding keyed_def by (auto simp del: update.simps) fastforce+

lemma keyed_update [table]:
  "keyed idf seq m \<Longrightarrow> map_of m k = Some w \<Longrightarrow> idf v = k \<Longrightarrow> keyed idf seq (AList.update k v m)"
  unfolding keyed_def by (auto simp del: update.simps)

lemma keyed_deleteFunc [table]: "keyed idf seq m \<Longrightarrow> keyed idf seq (deleteFunc m del)"
  by (auto simp: keyed_def map_of_deleteFunc split: option.splits if_splits)

lemma keyed_delete [table]: "keyed idf seq m \<Longrightarrow> keyed idf seq (AList.delete k m)"
  by (auto simp: keyed_def)

lemma uniqueBy_update [table]:
  "uniqueBy f m \<Longrightarrow> (\<And>k' v'. map_of m k' = Some v' \<Longrightarrow> k' \<noteq> k \<Longrightarrow> f v' \<noteq> f v) \<Longrightarrow> uniqueBy f (AList.update k v m)"
  unfolding uniqueBy_def by (metis map_of_update option.inject)

lemma uniqueBy_update_same [table]:
  "uniqueBy f m \<Longrightarrow> map_of m k = Some w \<Longrightarrow> f v = f w \<Longrightarrow> uniqueBy f (AList.update k v m)"
  by (rule uniqueBy_update) (auto simp: uniqueBy_def)

lemma uniqueBy_deleteFunc [table]: "wfMap m \<Longrightarrow> uniqueBy f m \<Longrightarrow> uniqueBy f (deleteFunc m del)"
  unfolding uniqueBy_def by (auto simp: map_of_deleteFunc split: option.splits if_splits)

lemma uniqueBy_delete [table]: "uniqueBy f m \<Longrightarrow> uniqueBy f (AList.delete k m)"
  unfolding uniqueBy_def by auto

text \<open>The two conditions decided row by row, for stores written out in full.\<close>

lemma uniqueBy_rows: "distinct (map (\<lambda>(k, v). f v) m) \<Longrightarrow> uniqueBy f m"
  unfolding uniqueBy_def distinct_map inj_on_def by (fastforce dest!: map_of_SomeD)

lemma keyed_rows: "wfMap m \<Longrightarrow> 0 \<le> seq \<Longrightarrow> list_all (\<lambda>(k, v). idf v = k \<and> 0 < k \<and> k \<le> seq) m \<Longrightarrow> keyed idf seq m"
  unfolding keyed_def list_all_iff by (auto dest: map_of_SomeD)

section \<open>The invariant\<close>

definition repoInv :: "memStore \<Rightarrow> bool" where
  "repoInv s \<longleftrightarrow> keyed rpID (repoSeq s) (repos s) \<and> uniqueBy byForgeSlug (repos s) \<and> uniqueBy rpToken (repos s)"

definition workspaceInv :: "memStore \<Rightarrow> bool" where
  "workspaceInv s \<longleftrightarrow> keyed wsID (wsSeq s) (workspaces s) \<and> uniqueBy byForgePrefix (workspaces s)
     \<and> uniqueBy wsToken (workspaces s)"

definition uploadInv :: "memStore \<Rightarrow> bool" where
  "uploadInv s \<longleftrightarrow> keyed upID (upSeq s) (uploads s) \<and> wfMap (files s)
     \<and> (\<forall>k. map_of (files s) k \<noteq> None \<longleftrightarrow> map_of (uploads s) k \<noteq> None)
     \<and> (\<forall>k fs. map_of (files s) k = Some fs \<longrightarrow> sorted (map ufPath fs) \<and> (\<forall>f \<in> set fs. ufUploadID f = k))"

definition commitOf :: "CommitReport \<Rightarrow> int \<times> string" where
  "commitOf cr = (crRepoID cr, crCommitSHA cr)"

definition reportInv :: "memStore \<Rightarrow> bool" where
  "reportInv s \<longleftrightarrow> keyed crID (crSeq s) (reports s) \<and> uniqueBy commitOf (reports s)"

definition accountOf :: "User \<Rightarrow> string \<times> string" where
  "accountOf u = (usForge u, usForgeUUID u)"

definition userInv :: "memStore \<Rightarrow> bool" where
  "userInv s \<longleftrightarrow> keyed usID (userSeq s) (users s) \<and> uniqueBy accountOf (users s)
     \<and> wfMap (sessions s) \<and> wfMap (oauthCodes s) \<and> wfMap (mcpTokens s)
     \<and> (\<forall>h x. map_of (sessions s) h = Some x \<longrightarrow> map_of (users s) (seUserID x) \<noteq> None)
     \<and> (\<forall>h x. map_of (oauthCodes s) h = Some x \<longrightarrow> map_of (users s) (ocUserID x) \<noteq> None)
     \<and> (\<forall>h x. map_of (mcpTokens s) h = Some x \<longrightarrow> map_of (users s) (mtUserID x) \<noteq> None)"

definition validRole :: "Role \<Rightarrow> bool" where
  "validRole role \<longleftrightarrow> role = RoleOwner \<or> role = RoleMember"

lemma validRole_owner [simp]: "validRole RoleOwner"
  by (simp add: validRole_def)

definition memberInv :: "memStore \<Rightarrow> bool" where
  "memberInv s \<longleftrightarrow> wfMap (members s)
     \<and> (\<forall>u m. map_of (members s) u = Some m \<longrightarrow> wfMap m
          \<and> (\<forall>w role. map_of m w = Some role \<longrightarrow> map_of (workspaces s) w \<noteq> None \<and> validRole role))"

definition storeInv :: "memStore \<Rightarrow> bool" where
  "storeInv s \<longleftrightarrow> repoInv s \<and> workspaceInv s \<and> uploadInv s \<and> reportInv s \<and> userInv s \<and> memberInv s"

lemmas inv_defs = repoInv_def workspaceInv_def uploadInv_def reportInv_def userInv_def memberInv_def

lemma inv_parts:
  "storeInv s \<Longrightarrow> repoInv s" "storeInv s \<Longrightarrow> workspaceInv s" "storeInv s \<Longrightarrow> uploadInv s"
  "storeInv s \<Longrightarrow> reportInv s" "storeInv s \<Longrightarrow> userInv s" "storeInv s \<Longrightarrow> memberInv s"
  by (simp_all add: storeInv_def)

text \<open>Each part reads its own fields only.\<close>

lemma inv_other [simp]:
  "repoInv (s\<lparr>uploads := a\<rparr>) = repoInv s" "repoInv (s\<lparr>files := b\<rparr>) = repoInv s"
  "repoInv (s\<lparr>reports := c\<rparr>) = repoInv s" "repoInv (s\<lparr>workspaces := d\<rparr>) = repoInv s"
  "repoInv (s\<lparr>members := e\<rparr>) = repoInv s"
  by (simp_all add: repoInv_def)

lemma storeInv_new: "storeInv newStore"
  by (simp add: storeInv_def inv_defs newStore_def)

section \<open>Preservation\<close>

lemma CreateRepo_inv: "storeInv s \<Longrightarrow> storeInv (snd (CreateRepo now r s))"
proof -
  assume inv: "storeInv s"
  then have k: "keyed rpID (repoSeq s) (repos s)" and u: "uniqueBy byForgeSlug (repos s)" "uniqueBy rpToken (repos s)"
    by (simp_all add: storeInv_def repoInv_def)
  show ?thesis
  proof (cases "findVal (repos s) (\<lambda>x. (rpForge x = rpForge r \<and> rpSlug x = rpSlug r) \<or> rpToken x = rpToken r)")
    case None
    then have none: "\<And>k' v'. map_of (repos s) k' = Some v' \<Longrightarrow>
        byForgeSlug v' \<noteq> (rpForge r, rpSlug r) \<and> rpToken v' \<noteq> rpToken r"
      using findVal_None [OF keyed_wf [OF k]] by (fastforce simp: byForgeSlug_def)
    have "repoInv (snd (CreateRepo now r s))"
      using k u none None
      by (auto simp: repoInv_def CreateRepo_def Let_def byForgeSlug_def intro!: keyed_insert uniqueBy_update)
    then show ?thesis using inv None by (simp add: storeInv_def inv_defs CreateRepo_def Let_def)
  next
    case (Some x)
    then show ?thesis using inv by (simp add: CreateRepo_def)
  qed
qed

text \<open>
  A full-row save keeps the rows unique if the names and the token it carries are free or the
  row's own.
\<close>

definition repoFree :: "memStore \<Rightarrow> Repo \<Rightarrow> bool" where
  "repoFree s r \<longleftrightarrow> (\<forall>k x. map_of (repos s) k = Some x \<and> k \<noteq> rpID r \<longrightarrow> byForgeSlug x \<noteq> byForgeSlug r \<and> rpToken x \<noteq> rpToken r)"

definition workspaceFree :: "memStore \<Rightarrow> Workspace \<Rightarrow> bool" where
  "workspaceFree s w \<longleftrightarrow>
     (\<forall>k x. map_of (workspaces s) k = Some x \<and> k \<noteq> wsID w \<longrightarrow> byForgePrefix x \<noteq> byForgePrefix w \<and> wsToken x \<noteq> wsToken w)"

lemma UpdateRepo_inv: "storeInv s \<Longrightarrow> repoFree s r \<Longrightarrow> storeInv (snd (UpdateRepo r s))"
proof -
  assume inv: "storeInv s" and free: "repoFree s r"
  then have k: "keyed rpID (repoSeq s) (repos s)" and u: "uniqueBy byForgeSlug (repos s)" "uniqueBy rpToken (repos s)"
    by (simp_all add: storeInv_def repoInv_def)
  show ?thesis
  proof (cases "map_of (repos s) (rpID r)")
    case (Some x)
    have "repoInv (snd (UpdateRepo r s))"
      using k u free Some
      by (auto simp: repoInv_def UpdateRepo_def Let_def byForgeSlug_def repoFree_def intro!: keyed_update uniqueBy_update)
    then show ?thesis using inv Some by (simp add: storeInv_def inv_defs UpdateRepo_def Let_def)
  qed (use inv in \<open>simp add: UpdateRepo_def\<close>)
qed

lemma SetRepoVisibility_inv: "storeInv s \<Longrightarrow> storeInv (snd (SetRepoVisibility rid v t s))"
proof -
  assume inv: "storeInv s"
  then have k: "keyed rpID (repoSeq s) (repos s)" and u: "uniqueBy byForgeSlug (repos s)" "uniqueBy rpToken (repos s)"
    by (simp_all add: storeInv_def repoInv_def)
  show ?thesis
  proof (cases "map_of (repos s) rid")
    case (Some x)
    have id: "rpID x = rid" using k Some by (rule keyed_id)
    have "keyed rpID (repoSeq s) (AList.update rid (x\<lparr>rpVisibility := v, rpVisibilityCheckedAt := t\<rparr>) (repos s))"
      using k Some id by (intro keyed_update) auto
    moreover have "uniqueBy byForgeSlug (AList.update rid (x\<lparr>rpVisibility := v, rpVisibilityCheckedAt := t\<rparr>) (repos s))"
      "uniqueBy rpToken (AList.update rid (x\<lparr>rpVisibility := v, rpVisibilityCheckedAt := t\<rparr>) (repos s))"
      using u Some by (auto intro!: uniqueBy_update_same simp: byForgeSlug_def)
    ultimately show ?thesis using inv Some by (simp add: storeInv_def inv_defs SetRepoVisibility_def)
  qed (use inv in \<open>simp add: SetRepoVisibility_def\<close>)
qed

lemma deleteRepoLocked_inv: "storeInv s \<Longrightarrow> storeInv (deleteRepoLocked rid s)"
proof -
  assume inv: "storeInv s"
  let ?dead = "set (map fst (filter (\<lambda>(uid, u). upRepoID u = rid) (uploads s)))"
  have wfu: "wfMap (uploads s)" and wff: "wfMap (files s)" using inv by (auto simp: storeInv_def uploadInv_def)
  have dead: "uid \<in> ?dead \<longleftrightarrow> (\<exists>u. map_of (uploads s) uid = Some u \<and> upRepoID u = rid)" for uid
    using wfu by (force simp: wfMap_def)
  have fs: "map_of (files (deleteRepoLocked rid s)) k = (if k \<in> ?dead then None else map_of (files s) k)" for k
    using map_of_filter_key [of "\<lambda>k. k \<notin> ?dead" "files s" k] by (simp add: deleteRepoLocked_def Let_def)
  have up: "map_of (uploads (deleteRepoLocked rid s)) k
      = (case map_of (uploads s) k of Some u \<Rightarrow> if upRepoID u = rid then None else Some u | None \<Rightarrow> None)" for k
    by (simp add: deleteRepoLocked_def Let_def map_of_deleteFunc [OF wfu])
  have "wfMap (files (deleteRepoLocked rid s))"
    using wff by (simp add: deleteRepoLocked_def Let_def wfMap_def distinct_map_filter)
  moreover have "\<forall>k. map_of (files (deleteRepoLocked rid s)) k \<noteq> None \<longleftrightarrow> map_of (uploads (deleteRepoLocked rid s)) k \<noteq> None"
    using inv unfolding fs up dead by (auto simp: storeInv_def uploadInv_def split: option.splits)
  moreover have "\<forall>k fs. map_of (files (deleteRepoLocked rid s)) k = Some fs \<longrightarrow>
      sorted (map ufPath fs) \<and> (\<forall>f \<in> set fs. ufUploadID f = k)"
    using inv unfolding fs by (simp add: storeInv_def uploadInv_def)
  moreover have "keyed upID (upSeq s) (uploads (deleteRepoLocked rid s))"
    using inv by (simp add: deleteRepoLocked_def Let_def storeInv_def uploadInv_def keyed_deleteFunc)
  ultimately have "uploadInv (deleteRepoLocked rid s)"
    by (simp add: uploadInv_def) (simp add: deleteRepoLocked_def Let_def)
  moreover have "repoInv (deleteRepoLocked rid s)" "reportInv (deleteRepoLocked rid s)"
    using inv by (auto simp: storeInv_def repoInv_def reportInv_def deleteRepoLocked_def Let_def
        intro!: keyed_delete uniqueBy_delete keyed_deleteFunc uniqueBy_deleteFunc)
  ultimately show ?thesis using inv
    by (simp add: storeInv_def) (simp add: workspaceInv_def userInv_def memberInv_def deleteRepoLocked_def Let_def)
qed

lemma DeleteRepo_inv: "storeInv s \<Longrightarrow> storeInv (snd (DeleteRepo rid s))"
  using deleteRepoLocked_inv by (simp add: DeleteRepo_def split: option.split)

lemma createWorkspaceLocked_inv:
  assumes inv: "storeInv s"
  shows "storeInv (snd (createWorkspaceLocked now w s))"
    and "fst (createWorkspaceLocked now w s) = Inr w' \<Longrightarrow>
      map_of (workspaces (snd (createWorkspaceLocked now w s))) (wsID w') = Some w'"
proof -
  have k: "keyed wsID (wsSeq s) (workspaces s)" and u: "uniqueBy byForgePrefix (workspaces s)" "uniqueBy wsToken (workspaces s)"
    using inv by (simp_all add: storeInv_def workspaceInv_def)
  have "storeInv (snd (createWorkspaceLocked now w s)) \<and>
    (fst (createWorkspaceLocked now w s) = Inr w' \<longrightarrow>
      map_of (workspaces (snd (createWorkspaceLocked now w s))) (wsID w') = Some w')"
  proof (cases "findVal (workspaces s) (\<lambda>x. (wsForge x = wsForge w \<and> wsPrefix x = wsPrefix w) \<or> wsToken x = wsToken w)")
    case None
    then have none: "\<And>k' v'. map_of (workspaces s) k' = Some v' \<Longrightarrow>
        byForgePrefix v' \<noteq> (wsForge w, wsPrefix w) \<and> wsToken v' \<noteq> wsToken w"
      using findVal_None [OF keyed_wf [OF k]] by (fastforce simp: byForgePrefix_def)
    have "workspaceInv (snd (createWorkspaceLocked now w s))"
      using k u none None
      by (auto simp: workspaceInv_def createWorkspaceLocked_def Let_def byForgePrefix_def intro!: keyed_insert uniqueBy_update)
    moreover have "memberInv (snd (createWorkspaceLocked now w s))"
      using inv None by (auto simp: storeInv_def memberInv_def createWorkspaceLocked_def Let_def)
    ultimately show ?thesis using inv None
      by (auto simp: storeInv_def repoInv_def uploadInv_def reportInv_def userInv_def createWorkspaceLocked_def Let_def)
  next
    case (Some x)
    then show ?thesis using inv by (simp add: createWorkspaceLocked_def)
  qed
  then show "storeInv (snd (createWorkspaceLocked now w s))"
    "fst (createWorkspaceLocked now w s) = Inr w' \<Longrightarrow>
      map_of (workspaces (snd (createWorkspaceLocked now w s))) (wsID w') = Some w'" by blast+
qed

lemma CreateWorkspace_inv: "storeInv s \<Longrightarrow> storeInv (snd (CreateWorkspace now w s))"
  by (simp add: CreateWorkspace_def createWorkspaceLocked_inv)

lemma membersOf_wf: "memberInv s \<Longrightarrow> wfMap (membersOf s u)"
  by (auto simp: membersOf_def memberInv_def split: option.split)

lemma membersOf_row:
  "memberInv s \<Longrightarrow> map_of (membersOf s u) w = Some role \<Longrightarrow>
     map_of (workspaces s) w \<noteq> None \<and> validRole role"
  unfolding membersOf_def memberInv_def by (cases "map_of (members s) u") auto

lemma memberInv_update:
  assumes "memberInv s" and "wfMap m"
    and "\<And>w role. map_of m w = Some role \<Longrightarrow> map_of (workspaces s) w \<noteq> None \<and> validRole role"
  shows "memberInv (s\<lparr>members := AList.update u m (members s)\<rparr>)"
  using assms unfolding memberInv_def by (auto simp del: update.simps split: if_splits)

lemma storeInv_members:
  "storeInv s \<Longrightarrow> memberInv (s\<lparr>members := m\<rparr>) \<Longrightarrow> storeInv (s\<lparr>members := m\<rparr>)"
  by (simp add: storeInv_def repoInv_def workspaceInv_def uploadInv_def reportInv_def userInv_def)

lemma RegisterWorkspace_inv: "storeInv s \<Longrightarrow> storeInv (snd (RegisterWorkspace now w u s))"
proof -
  assume inv: "storeInv s"
  obtain r s' where c: "createWorkspaceLocked now w s = (r, s')" by fastforce
  have inv': "storeInv s'" using createWorkspaceLocked_inv(1) [OF inv, of now w] by (simp add: c)
  have "storeInv (s'\<lparr>members := AList.update u (AList.update (wsID w') RoleOwner (membersOf s' u)) (members s')\<rparr>)"
    if "r = Inr w'" for w'
  proof (rule storeInv_members [OF inv'], rule memberInv_update)
    have row: "map_of (workspaces s') (wsID w') = Some w'"
      using createWorkspaceLocked_inv(2) [OF inv, of now w w'] that by (simp add: c)
    show "memberInv s'" using inv' by (rule inv_parts)
    then show "wfMap (AList.update (wsID w') RoleOwner (membersOf s' u))" by (simp add: membersOf_wf)
    fix x role
    assume "map_of (AList.update (wsID w') RoleOwner (membersOf s' u)) x = Some role"
    then show "map_of (workspaces s') x \<noteq> None \<and> validRole role"
      using row membersOf_row [OF \<open>memberInv s'\<close>, of u x role] by (auto split: if_splits)
  qed
  then show ?thesis using inv inv'
    by (auto simp: RegisterWorkspace_def c split: sum.split)
qed

lemma workspaceInv_update:
  assumes "storeInv s" and "map_of (workspaces s) k = Some x" and "wsID w = k" and "workspaceFree s w"
  shows "storeInv (s\<lparr>workspaces := AList.update k w (workspaces s)\<rparr>)"
proof -
  have "workspaceInv (s\<lparr>workspaces := AList.update k w (workspaces s)\<rparr>)"
    using assms by (auto simp: storeInv_def workspaceInv_def workspaceFree_def intro!: keyed_update uniqueBy_update)
  moreover have "memberInv (s\<lparr>workspaces := AList.update k w (workspaces s)\<rparr>)"
    using assms by (auto simp: storeInv_def memberInv_def)
  ultimately show ?thesis using assms
    by (simp add: storeInv_def repoInv_def uploadInv_def reportInv_def userInv_def)
qed

lemma workspaceFree_same:
  assumes "storeInv s" and "map_of (workspaces s) k = Some x" and "wsID w = k"
    and "byForgePrefix w = byForgePrefix x" and "wsToken w = wsToken x"
  shows "workspaceFree s w"
  using assms unfolding workspaceFree_def storeInv_def workspaceInv_def uniqueBy_def by metis

lemma UpdateWorkspace_inv: "storeInv s \<Longrightarrow> workspaceFree s w \<Longrightarrow> storeInv (snd (UpdateWorkspace w s))"
  by (auto simp: UpdateWorkspace_def Let_def workspaceFree_def byForgePrefix_def
      intro!: workspaceInv_update split: option.split)

lemma workspace_field_inv:
  assumes "storeInv s" and "map_of (workspaces s) k = Some x" and "wsID w = wsID x"
    and "byForgePrefix w = byForgePrefix x" and "wsToken w = wsToken x"
  shows "storeInv (s\<lparr>workspaces := AList.update k w (workspaces s)\<rparr>)"
proof -
  have "wsID x = k" using assms by (auto simp: storeInv_def workspaceInv_def dest: keyed_id)
  then show ?thesis using assms workspaceFree_same workspaceInv_update by simp
qed

lemma SetWorkspaceGrant_inv: "storeInv s \<Longrightarrow> storeInv (snd (SetWorkspaceGrant wid f g s))"
  by (auto simp: SetWorkspaceGrant_def byForgePrefix_def intro!: workspace_field_inv split: option.split)

lemma SetGitHubAppBroken_inv: "storeInv s \<Longrightarrow> storeInv (snd (SetGitHubAppBroken wid i b s))"
  by (auto simp: SetGitHubAppBroken_def byForgePrefix_def intro!: workspace_field_inv split: option.split)

lemma MarkWorkspaceGrantBroken_inv: "storeInv s \<Longrightarrow> storeInv (snd (MarkWorkspaceGrantBroken wid f a s))"
  by (auto simp: MarkWorkspaceGrantBroken_def byForgePrefix_def intro!: workspace_field_inv split: option.split)

lemma foldl_deleteRepos_inv:
  "storeInv s \<Longrightarrow> storeInv (foldl (\<lambda>s (rid, r). if P r then deleteRepoLocked rid s else s) s rs)"
  by (induction rs arbitrary: s) (auto simp: deleteRepoLocked_inv)

lemma map_of_map_rows: "map_of (map (\<lambda>(k, v). (k, g v)) m) k = map_option g (map_of m k)"
  by (induction m) auto

lemma wfMap_map_rows: "wfMap (map (\<lambda>(k, v). (k, g v)) m) \<longleftrightarrow> wfMap m"
  by (simp add: wfMap_def comp_def case_prod_beta)

lemma DeleteWorkspace_inv: "storeInv s \<Longrightarrow> storeInv (snd (DeleteWorkspace wid s))"
proof (cases "map_of (workspaces s) wid")
  case (Some ws)
  assume inv: "storeInv s"
  define t where "t = foldl (\<lambda>s (rid, r). if Owns ws r then deleteRepoLocked rid s else s) s (repos s)"
  have t: "storeInv t" unfolding t_def using inv by (rule foldl_deleteRepos_inv)
  let ?t = "t\<lparr>workspaces := AList.delete wid (workspaces t), members := map (\<lambda>(uid, m). (uid, AList.delete wid m)) (members t)\<rparr>"
  have "memberInv ?t"
    using inv_parts(6) [OF t] unfolding memberInv_def
    by (auto simp: map_of_map_rows wfMap_map_rows split: if_splits)
  moreover have "workspaceInv ?t" using t by (auto simp: storeInv_def workspaceInv_def keyed_delete uniqueBy_delete)
  ultimately have "storeInv ?t" using t by (simp add: storeInv_def repoInv_def uploadInv_def reportInv_def userInv_def)
  then show ?thesis using Some by (simp add: DeleteWorkspace_def t_def Let_def)
qed (simp add: DeleteWorkspace_def)

lemma membershipSet_rows:
  "membershipSet s m0 ms = Inr m \<Longrightarrow> wfMap m0 \<Longrightarrow>
     (\<And>w role. map_of m0 w = Some role \<Longrightarrow> map_of (workspaces s) w \<noteq> None \<and> validRole role) \<Longrightarrow>
     wfMap m \<and> (\<forall>w role. map_of m w = Some role \<longrightarrow> map_of (workspaces s) w \<noteq> None \<and> validRole role)"
proof (induction s m0 ms rule: membershipSet.induct)
  case (2 s m0 x ms)
  have ok: "map_of (workspaces s) (mbWorkspaceID x) \<noteq> None" "validRole (mbRole x)"
    and rest: "membershipSet s (AList.update (mbWorkspaceID x) (mbRole x) m0) ms = Inr m"
    using 2(2) by (auto simp: validRole_def split: if_splits)
  show ?case
  proof (rule "2.IH")
    show "wfMap (AList.update (mbWorkspaceID x) (mbRole x) m0)" using 2(3) by simp
    show "map_of (workspaces s) w \<noteq> None \<and> validRole role"
      if "map_of (AList.update (mbWorkspaceID x) (mbRole x) m0) w = Some role" for w role
      using that ok 2(4) [of w role] by (cases "w = mbWorkspaceID x") simp_all
  qed (use ok rest in \<open>auto simp: validRole_def\<close>)
qed auto

lemma SetUserMemberships_inv: "storeInv s \<Longrightarrow> storeInv (snd (SetUserMemberships u ms s))"
proof -
  assume inv: "storeInv s"
  have m: "memberInv s" using inv by (rule inv_parts)
  have "memberInv (s\<lparr>members := AList.delete u (members s)\<rparr>)" using m by (auto simp: memberInv_def)
  then have d: "storeInv (s\<lparr>members := AList.delete u (members s)\<rparr>)" by (rule storeInv_members [OF inv])
  have "storeInv (s\<lparr>members := AList.update u roles (members s)\<rparr>)" if "membershipSet s [] ms = Inr roles" for roles
    using membershipSet_rows [OF that] m by (intro storeInv_members [OF inv] memberInv_update) auto
  then show ?thesis using d inv by (simp add: SetUserMemberships_def split: sum.split)
qed

lemma storeInv_users:
  "storeInv s \<Longrightarrow> userInv t \<Longrightarrow> memberInv t \<Longrightarrow> repos t = repos s \<Longrightarrow> repoSeq t = repoSeq s \<Longrightarrow> uploads t = uploads s
    \<Longrightarrow> upSeq t = upSeq s \<Longrightarrow> files t = files s \<Longrightarrow> reports t = reports s \<Longrightarrow> crSeq t = crSeq s
    \<Longrightarrow> workspaces t = workspaces s \<Longrightarrow> wsSeq t = wsSeq s \<Longrightarrow> storeInv t"
  by (simp add: storeInv_def repoInv_def workspaceInv_def uploadInv_def reportInv_def)

lemma UpsertUser_inv: "storeInv s \<Longrightarrow> storeInv (snd (UpsertUser now u s))"
proof -
  assume inv: "storeInv s"
  have ui: "userInv s" using inv by (rule inv_parts)
  have k: "keyed usID (userSeq s) (users s)" and q: "uniqueBy accountOf (users s)"
    using ui by (auto simp: userInv_def)
  show ?thesis
  proof (cases "findVal (users s) (\<lambda>x. usForge x = usForge u \<and> usForgeUUID x = usForgeUUID u)")
    case None
    then have none: "\<And>k' v'. map_of (users s) k' = Some v' \<Longrightarrow> accountOf v' \<noteq> (usForge u, usForgeUUID u)"
      using findVal_None [OF keyed_wf [OF k]] by (fastforce simp: accountOf_def)
    have "userInv (snd (UpsertUser now u s))"
      using ui none None k q unfolding userInv_def
      by (auto simp: UpsertUser_def Let_def accountOf_def intro!: keyed_insert uniqueBy_update)
    then show ?thesis
      by (rule storeInv_users [OF inv]) (use inv_parts(6) [OF inv] None in
          \<open>simp_all add: UpsertUser_def Let_def memberInv_def\<close>)
  next
    case (Some x)
    then obtain i where i: "map_of (users s) i = Some x" using findVal_Some [OF keyed_wf [OF k]] by blast
    then have id: "usID x = i" using k by (auto dest: keyed_id)
    have "userInv (snd (UpsertUser now u s))"
      using ui i id Some k q unfolding userInv_def
      by (auto simp: UpsertUser_def Let_def accountOf_def intro!: keyed_update uniqueBy_update_same)
    then show ?thesis
      by (rule storeInv_users [OF inv]) (use inv_parts(6) [OF inv] Some in
          \<open>simp_all add: UpsertUser_def Let_def memberInv_def\<close>)
  qed
qed

lemma DeleteUser_inv: "storeInv s \<Longrightarrow> storeInv (snd (DeleteUser uid s))"
proof (cases "map_of (users s) uid")
  case (Some x)
  assume inv: "storeInv s"
  have u: "userInv s" and m: "memberInv s" using inv by (simp_all add: inv_parts)
  have "userInv (snd (DeleteUser uid s))"
    using u Some unfolding userInv_def
    by (auto simp: DeleteUser_def map_of_deleteFunc keyed_delete uniqueBy_delete split: option.splits if_splits)
  moreover have "memberInv (snd (DeleteUser uid s))"
    using m Some unfolding memberInv_def by (auto simp: DeleteUser_def)
  ultimately show ?thesis
    by (rule storeInv_users [OF inv]) (use Some in \<open>simp_all add: DeleteUser_def\<close>)
qed (simp add: DeleteUser_def)

text \<open>The tables of sessions, codes and tokens.\<close>

lemma storeInv_auth:
  assumes "storeInv s" and "wfMap a" and "wfMap b" and "wfMap c"
    and "\<And>h x. map_of a h = Some x \<Longrightarrow> map_of (users s) (seUserID x) \<noteq> None"
    and "\<And>h x. map_of b h = Some x \<Longrightarrow> map_of (users s) (ocUserID x) \<noteq> None"
    and "\<And>h x. map_of c h = Some x \<Longrightarrow> map_of (users s) (mtUserID x) \<noteq> None"
  shows "storeInv (s\<lparr>sessions := a, oauthCodes := b, mcpTokens := c\<rparr>)"
proof (rule storeInv_users [OF assms(1)])
  show "userInv (s\<lparr>sessions := a, oauthCodes := b, mcpTokens := c\<rparr>)"
    using assms(2-) inv_parts(5) [OF assms(1)] unfolding userInv_def by simp
  show "memberInv (s\<lparr>sessions := a, oauthCodes := b, mcpTokens := c\<rparr>)"
    using inv_parts(6) [OF assms(1)] unfolding memberInv_def by simp
qed simp_all

lemma auth_rows:
  assumes "storeInv s"
  shows "wfMap (sessions s)" "wfMap (oauthCodes s)" "wfMap (mcpTokens s)"
    "\<And>h x. map_of (sessions s) h = Some x \<Longrightarrow> map_of (users s) (seUserID x) \<noteq> None"
    "\<And>h x. map_of (oauthCodes s) h = Some x \<Longrightarrow> map_of (users s) (ocUserID x) \<noteq> None"
    "\<And>h x. map_of (mcpTokens s) h = Some x \<Longrightarrow> map_of (users s) (mtUserID x) \<noteq> None"
  using inv_parts(5) [OF assms] unfolding userInv_def by blast+

lemma sessions_inv:
  assumes "storeInv s" and "wfMap a" and "\<And>h x. map_of a h = Some x \<Longrightarrow> map_of (users s) (seUserID x) \<noteq> None"
  shows "storeInv (s\<lparr>sessions := a\<rparr>)"
  using storeInv_auth [OF assms(1,2) auth_rows(2,3) [OF assms(1)] assms(3) auth_rows(5,6) [OF assms(1)]] by simp

lemma codes_inv:
  assumes "storeInv s" and "wfMap b" and "\<And>h x. map_of b h = Some x \<Longrightarrow> map_of (users s) (ocUserID x) \<noteq> None"
  shows "storeInv (s\<lparr>oauthCodes := b\<rparr>)"
  using storeInv_auth [OF assms(1) auth_rows(1) [OF assms(1)] assms(2) auth_rows(3,4) [OF assms(1)] assms(3)
      auth_rows(6) [OF assms(1)]] by simp

lemma tokens_inv:
  assumes "storeInv s" and "wfMap c" and "\<And>h x. map_of c h = Some x \<Longrightarrow> map_of (users s) (mtUserID x) \<noteq> None"
  shows "storeInv (s\<lparr>mcpTokens := c\<rparr>)"
  using storeInv_auth [OF assms(1) auth_rows(1,2) [OF assms(1)] assms(2) auth_rows(4,5) [OF assms(1)] assms(3)] by simp

lemma session_ops_inv:
  assumes "storeInv s"
  shows "storeInv (snd (CreateSession now x s))" "storeInv (snd (UserBySession now h s))" "storeInv (snd (DeleteSession h s))"
  using assms auth_rows [OF assms]
  by (auto simp: CreateSession_def UserBySession_def DeleteSession_def Let_def intro!: sessions_inv split: option.split if_splits)

lemma code_ops_inv:
  assumes "storeInv s"
  shows "storeInv (snd (CreateOAuthCode c s))" "storeInv (snd (ConsumeOAuthCode now h s))"
  using assms auth_rows [OF assms]
  by (auto simp: CreateOAuthCode_def ConsumeOAuthCode_def Let_def intro!: codes_inv split: option.split if_splits)

lemma token_ops_inv:
  assumes "storeInv s"
  shows "storeInv (snd (CreateMCPToken now t s))" "storeInv (snd (UserByMCPToken now h s))"
  using assms auth_rows [OF assms]
  by (auto simp: CreateMCPToken_def UserByMCPToken_def Let_def intro!: tokens_inv split: option.split if_splits)

lemma storeInv_free [simp]:
  "storeInv (s\<lparr>tokenless := a\<rparr>) = storeInv s" "storeInv (s\<lparr>crLease := b\<rparr>) = storeInv s"
  "storeInv (s\<lparr>crStatus := c\<rparr>) = storeInv s"
  by (simp_all add: storeInv_def inv_defs)

lemma tokenless_ops_inv:
  "storeInv s \<Longrightarrow> storeInv (snd (ClaimTokenlessUpload r i a p s))" "storeInv s \<Longrightarrow> storeInv (ReleaseTokenlessUpload r i a p s)"
  by (simp_all add: ClaimTokenlessUpload_def ReleaseTokenlessUpload_def Let_def)

lemma push_ops_inv:
  "storeInv s \<Longrightarrow> storeInv (snd (ClaimPush now r c v l s))" "storeInv s \<Longrightarrow> storeInv (snd (FinishPush r c v t p s))"
  by (simp_all add: ClaimPush_def FinishPush_def Let_def)

lemma CreateUpload_inv: "storeInv s \<Longrightarrow> storeInv (snd (CreateUpload now u fs s))"
proof -
  assume inv: "storeInv s"
  have "uploadInv (snd (CreateUpload now u fs s))"
    using inv_parts(3) [OF inv] unfolding uploadInv_def
    by (auto simp: CreateUpload_def Let_def intro!: keyed_insert split: if_splits)
  then show ?thesis using inv
    by (simp add: storeInv_def repoInv_def workspaceInv_def reportInv_def userInv_def memberInv_def CreateUpload_def Let_def)
qed

lemma UpsertCommitReport_inv: "storeInv s \<Longrightarrow> storeInv (snd (UpsertCommitReport now cr s))"
proof -
  assume inv: "storeInv s"
  have k: "keyed crID (crSeq s) (reports s)" and q: "uniqueBy commitOf (reports s)"
    using inv_parts(4) [OF inv] by (auto simp: reportInv_def)
  have "reportInv (snd (UpsertCommitReport now cr s))"
  proof (cases "commitReportLocked (crRepoID cr) (crCommitSHA cr) s")
    case None
    then have "\<And>k' v'. map_of (reports s) k' = Some v' \<Longrightarrow> commitOf v' \<noteq> commitOf cr"
      using findVal_None [OF keyed_wf [OF k]] by (fastforce simp: commitOf_def commitReportLocked_def)
    then show ?thesis using None k q
      by (auto simp: reportInv_def UpsertCommitReport_def Let_def commitOf_def intro!: keyed_insert uniqueBy_update)
  next
    case (Some x)
    then have x: "crRepoID x = crRepoID cr \<and> crCommitSHA x = crCommitSHA cr" and "\<exists>i. map_of (reports s) i = Some x"
      using findVal_Some [OF keyed_wf [OF k]] by (auto simp: commitReportLocked_def)
    then obtain i where i: "map_of (reports s) i = Some x" by blast
    then have "crID x = i" using k by (auto dest: keyed_id)
    then show ?thesis using Some k q i x
      by (auto simp: reportInv_def UpsertCommitReport_def Let_def commitOf_def intro!: keyed_update uniqueBy_update_same)
  qed
  then show ?thesis using inv
    by (auto simp: storeInv_def repoInv_def workspaceInv_def uploadInv_def userInv_def memberInv_def
        UpsertCommitReport_def Let_def split: option.split)
qed

end
