(* ===== verification/StoreFacts.thy ===== *)
theory StoreFacts
  imports MemInvariant
begin

text \<open>
  What the in-memory store promises its callers: the states it can reach, the reads as functions
  of the rows and not of the map's order, the cascades, the one-time codes and the push leases.
\<close>

section \<open>Reachable states\<close>

inductive memStep :: "memStore \<Rightarrow> memStore \<Rightarrow> bool" where
  step_CreateRepo: "memStep s (snd (CreateRepo now r s))"
| step_UpdateRepo: "repoFree s r \<Longrightarrow> memStep s (snd (UpdateRepo r s))"
| step_SetRepoVisibility: "memStep s (snd (SetRepoVisibility i v t s))"
| step_DeleteRepo: "memStep s (snd (DeleteRepo i s))"
| step_CreateWorkspace: "memStep s (snd (CreateWorkspace now w s))"
| step_RegisterWorkspace: "memStep s (snd (RegisterWorkspace now w u s))"
| step_UpdateWorkspace: "workspaceFree s w \<Longrightarrow> memStep s (snd (UpdateWorkspace w s))"
| step_SetWorkspaceGrant: "memStep s (snd (SetWorkspaceGrant i f g s))"
| step_SetGitHubAppBroken: "memStep s (snd (SetGitHubAppBroken i j b s))"
| step_MarkWorkspaceGrantBroken: "memStep s (snd (MarkWorkspaceGrantBroken i f a s))"
| step_DeleteWorkspace: "memStep s (snd (DeleteWorkspace i s))"
| step_SetUserMemberships: "memStep s (snd (SetUserMemberships u ms s))"
| step_UpsertUser: "memStep s (snd (UpsertUser now x s))"
| step_DeleteUser: "memStep s (snd (DeleteUser i s))"
| step_CreateSession: "memStep s (snd (CreateSession now sess s))"
| step_UserBySession: "memStep s (snd (UserBySession now h s))"
| step_DeleteSession: "memStep s (snd (DeleteSession h s))"
| step_CreateOAuthCode: "memStep s (snd (CreateOAuthCode c s))"
| step_ConsumeOAuthCode: "memStep s (snd (ConsumeOAuthCode now h s))"
| step_CreateMCPToken: "memStep s (snd (CreateMCPToken now tk s))"
| step_UserByMCPToken: "memStep s (snd (UserByMCPToken now h s))"
| step_CreateUpload: "memStep s (snd (CreateUpload now up fs s))"
| step_UpsertCommitReport: "memStep s (snd (UpsertCommitReport now cr s))"
| step_ClaimPush: "memStep s (snd (ClaimPush now i c v l s))"
| step_FinishPush: "memStep s (snd (FinishPush i c v t p s))"
| step_ClaimTokenless: "memStep s (snd (ClaimTokenlessUpload i j k p s))"
| step_ReleaseTokenless: "memStep s (ReleaseTokenlessUpload i j k p s)"

lemmas op_invs =
  CreateRepo_inv UpdateRepo_inv SetRepoVisibility_inv DeleteRepo_inv CreateWorkspace_inv RegisterWorkspace_inv
  UpdateWorkspace_inv SetWorkspaceGrant_inv SetGitHubAppBroken_inv MarkWorkspaceGrantBroken_inv DeleteWorkspace_inv
  SetUserMemberships_inv UpsertUser_inv DeleteUser_inv session_ops_inv code_ops_inv token_ops_inv
  CreateUpload_inv UpsertCommitReport_inv push_ops_inv tokenless_ops_inv

lemma memStep_inv: "memStep s s' \<Longrightarrow> storeInv s \<Longrightarrow> storeInv s'"
  by (induction rule: memStep.induct) (assumption | rule op_invs)+

lemma memReach_inv: "memStep\<^sup>*\<^sup>* newStore s \<Longrightarrow> storeInv s"
  by (induction rule: rtranclp_induct) (auto simp: storeInv_new memStep_inv)

section \<open>The cascade of DeleteWorkspace\<close>

lemma deleteRepoLocked_maps:
  assumes "storeInv s"
  shows "map_of (repos (deleteRepoLocked rid s)) k = (if k = rid then None else map_of (repos s) k)"
    and "map_of (uploads (deleteRepoLocked rid s)) k = (case map_of (uploads s) k of
      Some u \<Rightarrow> if upRepoID u = rid then None else Some u | None \<Rightarrow> None)"
    and "map_of (reports (deleteRepoLocked rid s)) k = (case map_of (reports s) k of
      Some u \<Rightarrow> if crRepoID u = rid then None else Some u | None \<Rightarrow> None)"
  using assms
  by (auto simp: deleteRepoLocked_def Let_def map_of_deleteFunc storeInv_def uploadInv_def reportInv_def split: option.split)

definition keepRest :: "memStore \<Rightarrow> memStore \<Rightarrow> bool" where
  "keepRest s t \<longleftrightarrow> workspaces t = workspaces s \<and> users t = users s \<and> members t = members s
     \<and> sessions t = sessions s \<and> oauthCodes t = oauthCodes s \<and> mcpTokens t = mcpTokens s
     \<and> crStatus t = crStatus s \<and> crLease t = crLease s \<and> tokenless t = tokenless s
     \<and> repoSeq t = repoSeq s \<and> upSeq t = upSeq s \<and> crSeq t = crSeq s \<and> wsSeq t = wsSeq s \<and> userSeq t = userSeq s"

lemma keepRest_trans: "keepRest s t \<Longrightarrow> keepRest t r \<Longrightarrow> keepRest s r"
  by (simp add: keepRest_def)

lemma foldl_deleteRepos:
  fixes rs :: "(int \<times> Repo) list" and P :: "Repo \<Rightarrow> bool"
  assumes "storeInv s"
  defines "t \<equiv> foldl (\<lambda>s (rid, r). if P r then deleteRepoLocked rid s else s) s rs"
    and "dead \<equiv> {rid. \<exists>r. (rid, r) \<in> set rs \<and> P r}"
  shows "map_of (repos t) k = (if k \<in> dead then None else map_of (repos s) k)
    \<and> map_of (uploads t) k = (case map_of (uploads s) k of Some u \<Rightarrow> if upRepoID u \<in> dead then None else Some u | None \<Rightarrow> None)
    \<and> map_of (reports t) k = (case map_of (reports s) k of Some u \<Rightarrow> if crRepoID u \<in> dead then None else Some u | None \<Rightarrow> None)
    \<and> keepRest s t"
  using assms(1) unfolding t_def dead_def
proof (induction rs arbitrary: s)
  case Nil
  then show ?case by (simp add: keepRest_def split: option.split)
next
  case (Cons x rs)
  obtain rid r where x: "x = (rid, r)" by fastforce
  show ?case
  proof (cases "P r")
    case True
    have inv: "storeInv (deleteRepoLocked rid s)" using Cons.prems by (rule deleteRepoLocked_inv)
    have rest: "keepRest s (deleteRepoLocked rid s)" by (simp add: keepRest_def deleteRepoLocked_def Let_def)
    have dead: "{rid. \<exists>r. (rid, r) \<in> set (x # rs) \<and> P r} = insert rid {rid. \<exists>r. (rid, r) \<in> set rs \<and> P r}"
      using True by (auto simp: x)
    have fold: "foldl (\<lambda>s (rid, r). if P r then deleteRepoLocked rid s else s) s (x # rs)
        = foldl (\<lambda>s (rid, r). if P r then deleteRepoLocked rid s else s) (deleteRepoLocked rid s) rs"
      using True by (simp add: x)
    define T where "T = foldl (\<lambda>s (rid, r). if P r then deleteRepoLocked rid s else s) (deleteRepoLocked rid s) rs"
    define D where "D = {rid. \<exists>r. (rid, r) \<in> set rs \<and> P r}"
    note IH = Cons.IH [OF inv, folded T_def D_def, unfolded deleteRepoLocked_maps [OF Cons.prems]]
    have "map_of (repos T) k = (if k \<in> insert rid D then None else map_of (repos s) k)"
      using IH by simp
    moreover have "map_of (uploads T) k = (case map_of (uploads s) k of
        Some u \<Rightarrow> if upRepoID u \<in> insert rid D then None else Some u | None \<Rightarrow> None)"
      using IH by (cases "map_of (uploads s) k") simp_all
    moreover have "map_of (reports T) k = (case map_of (reports s) k of
        Some u \<Rightarrow> if crRepoID u \<in> insert rid D then None else Some u | None \<Rightarrow> None)"
      using IH by (cases "map_of (reports s) k") simp_all
    moreover have "keepRest s T" using rest IH keepRest_trans by blast
    ultimately show ?thesis unfolding fold dead T_def [symmetric] D_def [symmetric] by blast
  next
    case False
    have "{rid. \<exists>r. (rid, r) \<in> set (x # rs) \<and> P r} = {rid. \<exists>r. (rid, r) \<in> set rs \<and> P r}"
      using False by (auto simp: x)
    moreover have "foldl (\<lambda>s (rid, r). if P r then deleteRepoLocked rid s else s) s (x # rs)
        = foldl (\<lambda>s (rid, r). if P r then deleteRepoLocked rid s else s) s rs"
      using False by (simp add: x)
    ultimately show ?thesis using Cons.IH [OF Cons.prems] by (simp only:)
  qed
qed

section \<open>Reads as functions of the rows\<close>

lemma keyed_inj: "keyed idf seq m \<Longrightarrow> u \<in> set (valuesOf m) \<Longrightarrow> v \<in> set (valuesOf m) \<Longrightarrow> idf u = idf v \<Longrightarrow> u = v"
  by (auto simp: set_valuesOf keyed_def)

lemma keyed_distinct: "keyed idf seq m \<Longrightarrow> distinct (map idf (valuesOf m))"
proof -
  assume k: "keyed idf seq m"
  have "map idf (valuesOf m) = keysOf m"
    using k by (auto simp: valuesOf_def keyed_def wfMap_def intro!: map_cong)
  then show ?thesis using k by (simp add: keyed_def wfMap_def)
qed

definition ofCommit :: "int \<Rightarrow> string \<Rightarrow> Upload \<Rightarrow> bool" where
  "ofCommit repoID commitSHA u \<longleftrightarrow> upRepoID u = repoID \<and> upCommitSHA u = commitSHA"

lemma finite_filter_max:
  assumes "{v \<in> A. P v} \<noteq> {}" and "finite A"
  shows "\<exists>w. w \<in> A \<and> P w \<and> (\<forall>v \<in> {v \<in> A. P v}. (f v :: int) \<le> f w)"
proof -
  have fin: "finite (f ` {v \<in> A. P v})" using assms(2) by simp
  then have "Max (f ` {v \<in> A. P v}) \<in> f ` {v \<in> A. P v}" using assms(1) by (intro Max_in) auto
  then obtain w where "w \<in> A" "P w" "f w = Max (f ` {v \<in> A. P v})" by auto
  then show ?thesis using fin by (intro exI [of _ w]) auto
qed

lemma latestPart_snoc:
  "foldl latestPart [] (us @ [x]) = latestPart (foldl latestPart [] us) x"
  by simp

lemma latestPart_cases:
  "map_of m (upPart x) = None \<Longrightarrow> latestPart m x = AList.update (upPart x) x m"
  "map_of m (upPart x) = Some w \<Longrightarrow> latestPart m x = (if upID x > upID w then AList.update (upPart x) x m else m)"
  by (simp_all add: latestPart_def)

lemma latestPart_fold:
  assumes "distinct (map upID us)"
  shows "wfMap (foldl latestPart [] us) \<and> (\<forall>p u. map_of (foldl latestPart [] us) p = Some u \<longleftrightarrow>
    u \<in> set us \<and> upPart u = p \<and> (\<forall>v \<in> set us. upPart v = p \<longrightarrow> upID v \<le> upID u))"
  using assms
proof (induction us rule: rev_induct)
  case (snoc x us)
  let ?m = "foldl latestPart [] us"
  have IH: "wfMap ?m" "\<And>p u. map_of ?m p = Some u \<longleftrightarrow>
      u \<in> set us \<and> upPart u = p \<and> (\<forall>v \<in> set us. upPart v = p \<longrightarrow> upID v \<le> upID u)"
    using snoc by simp_all
  have new: "upID x \<notin> upID ` set us" using snoc.prems by simp
  show ?case
  proof (cases "map_of ?m (upPart x)")
    case None
    have "\<not> (\<exists>v \<in> set us. upPart v = upPart x)"
    proof
      assume "\<exists>v \<in> set us. upPart v = upPart x"
      then have ne: "{v \<in> set us. upPart v = upPart x} \<noteq> {}" by auto
      obtain w where w: "w \<in> set us" "upPart w = upPart x" "\<forall>v \<in> {v \<in> set us. upPart v = upPart x}. upID v \<le> upID w"
        using finite_filter_max [OF ne finite_set, of upID] by blast
      then show False using IH(2) [of "upPart x" w] None by simp
    qed
    then show ?thesis using IH None unfolding latestPart_snoc latestPart_cases(1) [OF None] by auto
  next
    case (Some w)
    have w: "w \<in> set us" "upPart w = upPart x" "\<forall>v \<in> set us. upPart v = upPart x \<longrightarrow> upID v \<le> upID w"
      using IH(2) [of "upPart x" w] Some by simp_all
    have ne: "upID x \<noteq> upID w" using new w(1) by auto
    have m: "foldl latestPart [] (us @ [x]) = (if upID x > upID w then AList.update (upPart x) x ?m else ?m)"
      unfolding latestPart_snoc by (rule latestPart_cases(2) [OF Some])
    have "map_of (foldl latestPart [] (us @ [x])) p = Some u \<longleftrightarrow>
        u \<in> set (us @ [x]) \<and> upPart u = p \<and> (\<forall>v \<in> set (us @ [x]). upPart v = p \<longrightarrow> upID v \<le> upID u)" for p u
    proof (cases "p = upPart x")
      case True
      have u: "u = w" if "u \<in> set us" "upPart u = upPart x" "\<forall>v \<in> set us. upPart v = upPart x \<longrightarrow> upID v \<le> upID u"
        using that IH(2) [of "upPart x" u] Some by auto
      show ?thesis
      proof (cases "upID x > upID w")
        case above: True
        have "\<forall>v \<in> set us. upPart v = upPart x \<longrightarrow> upID v \<le> upID x" using w(3) above by fastforce
        moreover have "u = x" if "u \<in> set us" "upPart u = upPart x" "upID x \<le> upID u" using that w(3) above by fastforce
        ultimately show ?thesis using True above unfolding m by auto
      next
        case False
        then have "upID x < upID w" using ne by simp
        moreover have "u \<noteq> x" if "\<forall>v \<in> set us. upPart v = upPart x \<longrightarrow> upID v \<le> upID u"
          using that w(1,2) \<open>upID x < upID w\<close> by fastforce
        ultimately show ?thesis using True False Some u w unfolding m by auto
      qed
    next
      case False
      then show ?thesis using IH(2) [of p u] unfolding m by auto
    qed
    then show ?thesis using IH(1) unfolding m by auto
  qed
qed simp

lemma mset_wfMap: "mset m = mset m' \<Longrightarrow> wfMap m \<longleftrightarrow> wfMap m'"
  unfolding wfMap_def by (rule distinct_map_mset)

lemma mset_map_of: "mset m = mset m' \<Longrightarrow> wfMap m \<Longrightarrow> map_of m = map_of m'"
proof (rule ext)
  fix k
  assume m: "mset m = mset m'" and wf: "wfMap m"
  have wf': "wfMap m'" using wf mset_wfMap [OF m] by blast
  have eq: "set m = set m'" using m by (rule mset_eq_setD)
  have "map_of m k = Some v \<longleftrightarrow> (k, v) \<in> set m" for v using wfMap_map_of [OF wf] by (rule sym)
  moreover have "map_of m' k = Some v \<longleftrightarrow> (k, v) \<in> set m" for v unfolding eq using wfMap_map_of [OF wf'] by (rule sym)
  ultimately show "map_of m k = map_of m' k" by (metis not_None_eq)
qed

lemma LatestUploadsPerPart_rows:
  assumes "keyed upID seq (uploads s)"
  shows "sorted_wrt (<) (map upID (LatestUploadsPerPart repoID commitSHA s))
    \<and> (\<forall>u. u \<in> set (LatestUploadsPerPart repoID commitSHA s) \<longleftrightarrow>
        (\<exists>k. map_of (uploads s) k = Some u) \<and> ofCommit repoID commitSHA u
        \<and> (\<forall>k v. map_of (uploads s) k = Some v \<and> ofCommit repoID commitSHA v \<and> upPart v = upPart u \<longrightarrow> upID v \<le> upID u))"
proof -
  let ?us = "filter (\<lambda>u. \<not> (upRepoID u \<noteq> repoID \<or> upCommitSHA u \<noteq> commitSHA)) (valuesOf (uploads s))"
  have d: "distinct (map upID ?us)" using keyed_distinct [OF assms] by (simp add: distinct_map_filter)
  have us: "u \<in> set ?us \<longleftrightarrow> (\<exists>k. map_of (uploads s) k = Some u) \<and> ofCommit repoID commitSHA u" for u
    using set_valuesOf [OF keyed_wf [OF assms]] by (auto simp: ofCommit_def)
  note m = latestPart_fold [OF d]
  have wf: "wfMap (foldl latestPart [] ?us)" using m by blast
  have rows: "u \<in> set (LatestUploadsPerPart repoID commitSHA s) \<longleftrightarrow>
      u \<in> set ?us \<and> (\<forall>v \<in> set ?us. upPart v = upPart u \<longrightarrow> upID v \<le> upID u)" for u
    using m set_valuesOf [OF wf] by (auto simp: LatestUploadsPerPart_def)
  have "inj_on upID (set (valuesOf (foldl latestPart [] ?us)))"
    using m set_valuesOf [OF wf] d unfolding distinct_map inj_on_def by blast
  moreover have "distinct (valuesOf (foldl latestPart [] ?us))"
  proof -
    have "map upPart (valuesOf (foldl latestPart [] ?us)) = keysOf (foldl latestPart [] ?us)"
      using wf m by (auto simp: valuesOf_def wfMap_def intro!: map_cong)
    then have "distinct (map upPart (valuesOf (foldl latestPart [] ?us)))" using wf by (simp add: wfMap_def)
    then show ?thesis by (simp only: distinct_map)
  qed
  ultimately have "sorted_wrt (<) (map upID (LatestUploadsPerPart repoID commitSHA s))"
    unfolding LatestUploadsPerPart_def by (intro sort_key_strict) (simp add: distinct_map)
  then show ?thesis using rows us by blast
qed

lemma strict_key_unique:
  fixes k :: "'a \<Rightarrow> 'b::linorder"
  assumes "sorted_wrt (<) (map k xs)" and "sorted_wrt (<) (map k ys)" and "set xs = set ys"
  shows "xs = ys"
proof (rule sorted_strict_unique [OF assms(1,2)])
  have "distinct xs" "distinct ys" using assms(1,2) by (simp_all add: strict_sorted_iff distinct_map)
  then show "mset xs = mset ys" using assms(3) by (simp add: set_eq_iff_mset_eq_distinct)
qed

text \<open>The row a search for the newest report finds.\<close>

definition latestOf :: "('a \<Rightarrow> bool) \<Rightarrow> ('a \<Rightarrow> int) \<Rightarrow> 'a list \<Rightarrow> 'a option" where
  "latestOf skip f xs =
     foldl (\<lambda>l x. if skip x then l else case l of None \<Rightarrow> Some x | Some y \<Rightarrow> if f x > f y then Some x else l) None xs"

lemma latestOf_snoc:
  "latestOf skip f (xs @ [x]) =
     (if skip x then latestOf skip f xs
      else case latestOf skip f xs of None \<Rightarrow> Some x | Some y \<Rightarrow> if f x > f y then Some x else latestOf skip f xs)"
  unfolding latestOf_def by simp

lemma latestOf_Nil [simp]: "latestOf skip f [] = None"
  by (simp add: latestOf_def)

lemma latest_fold:
  fixes f :: "'a \<Rightarrow> int"
  assumes "distinct (map f xs)"
  shows "latestOf skip f xs = Some y \<longleftrightarrow> y \<in> set xs \<and> \<not> skip y \<and> (\<forall>x \<in> set xs. \<not> skip x \<longrightarrow> f x \<le> f y)"
  using assms
proof (induction xs arbitrary: y rule: rev_induct)
  case (snoc x xs)
  let ?l = "latestOf skip f xs"
  have IH: "?l = Some y \<longleftrightarrow> y \<in> set xs \<and> \<not> skip y \<and> (\<forall>x \<in> set xs. \<not> skip x \<longrightarrow> f x \<le> f y)" for y
    using snoc by simp
  have new: "f x \<notin> f ` set xs" using snoc.prems by simp
  show ?case
  proof (cases ?l)
    case None
    have "skip z" if "z \<in> set xs" for z
    proof (rule ccontr)
      assume "\<not> skip z"
      then have "{v \<in> set xs. \<not> skip v} \<noteq> {}" using that by auto
      then obtain w where "w \<in> set xs" "\<not> skip w" "\<forall>v \<in> {v \<in> set xs. \<not> skip v}. f v \<le> f w"
        using finite_filter_max [of "set xs" "\<lambda>v. \<not> skip v" f] by blast
      then show False using IH [of w] None by simp
    qed
    then show ?thesis using None by (auto simp: latestOf_snoc)
  next
    case (Some w)
    have w: "w \<in> set xs" "\<not> skip w" "\<forall>v \<in> set xs. \<not> skip v \<longrightarrow> f v \<le> f w" using IH [of w] Some by simp_all
    have ne: "f x \<noteq> f w" using new w(1) by auto
    show ?thesis
    proof (cases "skip x \<or> \<not> f x > f w")
      case True
      then have "latestOf skip f (xs @ [x]) = Some w" using Some by (auto simp: latestOf_snoc)
      moreover have "y = w" if "y \<in> set (xs @ [x])" "\<not> skip y" "\<forall>x \<in> set (xs @ [x]). \<not> skip x \<longrightarrow> f x \<le> f y"
        using that True w ne IH [of y] Some by (cases "y = x") fastforce+
      ultimately show ?thesis using w True by auto
    next
      case False
      then have "latestOf skip f (xs @ [x]) = Some x" using Some by (auto simp: latestOf_snoc)
      moreover have "y = x" if "y \<in> set (xs @ [x])" "\<not> skip y" "\<forall>x \<in> set (xs @ [x]). \<not> skip x \<longrightarrow> f x \<le> f y"
        using that False w by (cases "y = x") fastforce+
      moreover have "\<forall>z \<in> set (xs @ [x]). \<not> skip z \<longrightarrow> f z \<le> f x" using False w(3) by fastforce
      ultimately show ?thesis using False by auto
    qed
  qed
qed simp

lemma latest_fold_None:
  fixes f :: "'a \<Rightarrow> int"
  assumes "distinct (map f xs)"
  shows "latestOf skip f xs = None \<longleftrightarrow> (\<forall>x \<in> set xs. skip x)"
proof -
  have "(\<exists>y. y \<in> set xs \<and> \<not> skip y \<and> (\<forall>x \<in> set xs. \<not> skip x \<longrightarrow> f x \<le> f y)) \<longleftrightarrow> (\<exists>x \<in> set xs. \<not> skip x)"
    using finite_filter_max [of "set xs" "\<lambda>v. \<not> skip v" f] by fastforce
  then show ?thesis using latest_fold [OF assms, of skip] by (cases "latestOf skip f xs") auto
qed

lemma LatestPassedCommitReport_row:
  assumes "keyed crID seq (reports s)"
  shows "LatestPassedCommitReport repoID branch beforeID excludeCommit s = Inr cr \<longleftrightarrow>
      (\<exists>k. map_of (reports s) k = Some cr) \<and> \<not> passesOver repoID branch beforeID excludeCommit True True cr
      \<and> (\<forall>k c. map_of (reports s) k = Some c \<and> \<not> passesOver repoID branch beforeID excludeCommit True True c \<longrightarrow> crID c \<le> crID cr)"
    and "LatestPassedCommitReport repoID branch beforeID excludeCommit s = Inl e \<longleftrightarrow>
      e = ErrNotFound \<and> (\<forall>k c. map_of (reports s) k = Some c \<longrightarrow> passesOver repoID branch beforeID excludeCommit True True c)"
proof -
  let ?skip = "passesOver repoID branch beforeID excludeCommit True True"
  have eq: "LatestPassedCommitReport repoID branch beforeID excludeCommit s = rowOr (latestOf ?skip crID (valuesOf (reports s)))"
    by (simp add: LatestPassedCommitReport_def latestCommitReport_def latestOf_def)
  have rowOr: "rowOr r = Inr cr \<longleftrightarrow> r = Some cr" "rowOr r = Inl e \<longleftrightarrow> r = None \<and> e = ErrNotFound" for r
    by (auto simp: rowOr_def split: option.split)
  note d = keyed_distinct [OF assms] and v = set_valuesOf [OF keyed_wf [OF assms]]
  show "LatestPassedCommitReport repoID branch beforeID excludeCommit s = Inr cr \<longleftrightarrow>
      (\<exists>k. map_of (reports s) k = Some cr) \<and> \<not> ?skip cr
      \<and> (\<forall>k c. map_of (reports s) k = Some c \<and> \<not> ?skip c \<longrightarrow> crID c \<le> crID cr)"
    unfolding eq rowOr latest_fold [OF d] Ball_def v by blast
  show "LatestPassedCommitReport repoID branch beforeID excludeCommit s = Inl e \<longleftrightarrow>
      e = ErrNotFound \<and> (\<forall>k c. map_of (reports s) k = Some c \<longrightarrow> ?skip c)"
    unfolding eq rowOr latest_fold_None [OF d] Ball_def v by blast
qed

lemma get_findVal:
  assumes "wfMap m" and "uniqueBy f m" and "\<And>v. keep v \<longleftrightarrow> f v = x"
  shows "rowOr (findVal m keep) = Inr v \<longleftrightarrow> (\<exists>k. map_of m k = Some v) \<and> keep v"
proof
  assume "rowOr (findVal m keep) = Inr v"
  then have "findVal m keep = Some v" by (auto simp: rowOr_def split: option.splits)
  then show "(\<exists>k. map_of m k = Some v) \<and> keep v" using findVal_Some [OF assms(1)] by blast
next
  assume "(\<exists>k. map_of m k = Some v) \<and> keep v"
  then have "findVal m keep = Some v" using findVal_unique [OF assms] by blast
  then show "rowOr (findVal m keep) = Inr v" by (simp add: rowOr_def)
qed

lemma newest_of_part:
  assumes rows: "P \<and> (\<forall>u. u \<in> old \<longleftrightarrow> (\<exists>k. M k = Some u) \<and> C u
        \<and> (\<forall>k v. M k = Some v \<and> C v \<and> upPart v = upPart u \<longrightarrow> upID v \<le> upID u))"
    and rows': "P' \<and> (\<forall>u. u \<in> new \<longleftrightarrow> (\<exists>k. M' k = Some u) \<and> C u
        \<and> (\<forall>k v. M' k = Some v \<and> C v \<and> upPart v = upPart u \<longrightarrow> upID v \<le> upID u))"
    and get: "\<And>x. (\<exists>i. M' i = Some x) \<longleftrightarrow> x = v \<or> (\<exists>i. M i = Some x)"
    and below: "\<And>i x. M i = Some x \<Longrightarrow> upID x \<le> n" and v: "upID v = n + 1" "C v" "upPart v = p"
  shows "x \<in> new \<longleftrightarrow> x = v \<or> (x \<in> old \<and> upPart x \<noteq> p)"
proof -
  have new: "x \<in> new \<longleftrightarrow> (\<exists>k. M' k = Some x) \<and> C x
      \<and> (\<forall>y. (\<exists>k. M' k = Some y) \<and> C y \<and> upPart y = upPart x \<longrightarrow> upID y \<le> upID x)" for x
    using rows' by blast
  have old: "x \<in> old \<longleftrightarrow> (\<exists>k. M k = Some x) \<and> C x
      \<and> (\<forall>y. (\<exists>k. M k = Some y) \<and> C y \<and> upPart y = upPart x \<longrightarrow> upID y \<le> upID x)" for x
    using rows by blast
  have lt: "(\<exists>i. M i = Some x) \<Longrightarrow> upID x < upID v" for x using below v(1) by fastforce
  show ?thesis unfolding new old get using lt v(2,3) by (metis less_le_not_le order_refl)
qed

section \<open>Properties\<close>



text \<open>
  Deleting a workspace takes with it every repo it owns, their uploads, the uploads' files
  and the merged reports, and every membership in it, and nothing else.
\<close>

theorem delete_workspace_cascades:
  assumes "storeInv s" and "map_of (workspaces s) wid = Some ws"
  defines "t \<equiv> snd (DeleteWorkspace wid s)"
    and "gone \<equiv> \<lambda>rid. \<exists>r. map_of (repos s) rid = Some r \<and> Owns ws r"
  shows "fst (DeleteWorkspace wid s) = Inr ()
    \<and> (\<forall>k. map_of (repos t) k = (if gone k then None else map_of (repos s) k))
    \<and> (\<forall>k. map_of (uploads t) k = (case map_of (uploads s) k of Some u \<Rightarrow> if gone (upRepoID u) then None else Some u | None \<Rightarrow> None))
    \<and> (\<forall>k. map_of (files t) k \<noteq> None \<longleftrightarrow> map_of (uploads t) k \<noteq> None)
    \<and> (\<forall>k. map_of (reports t) k = (case map_of (reports s) k of Some c \<Rightarrow> if gone (crRepoID c) then None else Some c | None \<Rightarrow> None))
    \<and> (\<forall>k. map_of (workspaces t) k = (if k = wid then None else map_of (workspaces s) k))
    \<and> (\<forall>u k. map_of (membersOf t u) k = (if k = wid then None else map_of (membersOf s u) k))
    \<and> users t = users s \<and> sessions t = sessions s"
proof -
  define d where "d = foldl (\<lambda>s (rid, r). if Owns ws r then deleteRepoLocked rid s else s) s (repos s)"
  have t: "t = d\<lparr>workspaces := AList.delete wid (workspaces d), members := map (\<lambda>(uid, m). (uid, AList.delete wid m)) (members d)\<rparr>"
    "fst (DeleteWorkspace wid s) = Inr ()"
    using assms(2) by (simp_all add: t_def DeleteWorkspace_def d_def Let_def)
  have wf: "wfMap (repos s)" using inv_parts(1) [OF assms(1)] by (auto simp: repoInv_def)
  have dead: "{rid. \<exists>r. (rid, r) \<in> set (repos s) \<and> Owns ws r} = {rid. gone rid}"
    using wfMap_map_of [OF wf] by (auto simp: gone_def)
  note f = foldl_deleteRepos [OF assms(1), of "Owns ws" "repos s", folded d_def, unfolded dead mem_Collect_eq]
  have rest: "keepRest s d" using f by blast
  have mem: "map_of (membersOf t u) k = (if k = wid then None else map_of (membersOf s u) k)" for u k
    using rest by (auto simp: t(1) membersOf_def map_of_map_rows keepRest_def split: option.split)
  have "storeInv t" using DeleteWorkspace_inv [OF assms(1)] by (simp add: t_def)
  then have files: "\<forall>k. map_of (files t) k \<noteq> None \<longleftrightarrow> map_of (uploads t) k \<noteq> None"
    using inv_parts(3) by (auto simp: uploadInv_def)
  have eqs: "repos t = repos d" "uploads t = uploads d" "reports t = reports d" "users t = users s" "sessions t = sessions s"
    "\<And>k. map_of (workspaces t) k = (if k = wid then None else map_of (workspaces s) k)"
    using rest by (simp_all add: t(1) keepRest_def)
  show ?thesis unfolding eqs(1-3) using t(2) f mem files eqs by (simp only: simp_thms)
qed

theorem delete_workspace_cascades_witness:
  "let r = (\<lambda>i slug. (i, zeroRepo\<lparr>rpID := i, rpForge := ''gitlab'', rpSlug := slug, rpToken := slug\<rparr>));
       u = (\<lambda>i rid. (i, zeroUpload\<lparr>upID := i, upRepoID := rid\<rparr>));
       w = zeroWorkspace\<lparr>wsID := 1, wsForge := ''gitlab'', wsPrefix := ''acme''\<rparr>;
       s = newStore\<lparr>repoSeq := 2, repos := [r 1 ''acme/api'', r 2 ''acme2/api''], upSeq := 2, uploads := [u 1 1, u 2 2],
             files := [(1, []), (2, [])], wsSeq := 1, workspaces := [(1, w)]\<rparr>;
       t = snd (DeleteWorkspace 1 s)
   in keysOf (repos t) = [2] \<and> keysOf (uploads t) = [2] \<and> map_of (uploads t) 1 = None \<and> workspaces t = []"
proof -
  define r where "r = (\<lambda>i slug. (i :: int, zeroRepo\<lparr>rpID := i, rpForge := ''gitlab'', rpSlug := slug, rpToken := slug\<rparr>))"
  define u where "u = (\<lambda>i rid. (i :: int, zeroUpload\<lparr>upID := i, upRepoID := rid\<rparr>))"
  define w where "w = zeroWorkspace\<lparr>wsID := 1, wsForge := ''gitlab'', wsPrefix := ''acme''\<rparr>"
  define s where "s = newStore\<lparr>repoSeq := 2, repos := [r 1 ''acme/api'', r 2 ''acme2/api''], upSeq := 2, uploads := [u 1 1, u 2 2],
             files := [(1, []), (2, [])], wsSeq := 1, workspaces := [(1, w)]\<rparr>"
  have inv: "storeInv s"
    unfolding storeInv_def inv_defs
    by (auto intro!: keyed_rows uniqueBy_rows simp: s_def newStore_def r_def u_def w_def wfMap_def
        byForgeSlug_def byForgePrefix_def split: if_splits)
  have ws: "map_of (workspaces s) 1 = Some w" by (simp add: s_def)
  have g: "map_of (uploads (snd (DeleteWorkspace 1 s))) 1 = None"
    using delete_workspace_cascades [OF inv ws]
    by (simp add: s_def u_def r_def w_def Owns_def hasPrefix_def)
  have "keysOf (repos (snd (DeleteWorkspace 1 s))) = [2]" "keysOf (uploads (snd (DeleteWorkspace 1 s))) = [2]"
    "workspaces (snd (DeleteWorkspace 1 s)) = []"
    unfolding s_def r_def u_def w_def by code_simp+
  then show ?thesis using g unfolding s_def r_def u_def w_def Let_def by blast
qed

text \<open>
  Which uploads make up a commit. \<open>LatestUploadsPerPart\<close> returns, by ascending ID, the
  newest upload of each part of the commit and no other, independently of the map's order; a
  further upload of a part replaces the one before it and leaves the other parts alone.
\<close>

theorem latest_uploads_per_part:
  assumes "storeInv s"
  shows "sorted_wrt (<) (map upID (LatestUploadsPerPart repoID sha s))
    \<and> (\<forall>u. u \<in> set (LatestUploadsPerPart repoID sha s) \<longleftrightarrow>
        (\<exists>k. map_of (uploads s) k = Some u) \<and> ofCommit repoID sha u
        \<and> (\<forall>k v. map_of (uploads s) k = Some v \<and> ofCommit repoID sha v \<and> upPart v = upPart u \<longrightarrow> upID v \<le> upID u))
    \<and> (\<forall>m. mset m = mset (uploads s) \<longrightarrow> LatestUploadsPerPart repoID sha (s\<lparr>uploads := m\<rparr>) = LatestUploadsPerPart repoID sha s)
    \<and> (\<forall>now u fs v s'. ofCommit repoID sha u \<and> CreateUpload now u fs s = (Inr v, s') \<longrightarrow>
        LatestUploadsPerPart repoID sha s' = filter (\<lambda>x. upPart x \<noteq> upPart u) (LatestUploadsPerPart repoID sha s) @ [v])"
proof (intro conjI allI impI)
  have k: "keyed upID (upSeq s) (uploads s)" using inv_parts(3) [OF assms] by (auto simp: uploadInv_def)
  note rows = LatestUploadsPerPart_rows [OF k, of repoID sha]
  show "sorted_wrt (<) (map upID (LatestUploadsPerPart repoID sha s))" using rows by blast
  show "u \<in> set (LatestUploadsPerPart repoID sha s) \<longleftrightarrow>
        (\<exists>k. map_of (uploads s) k = Some u) \<and> ofCommit repoID sha u
        \<and> (\<forall>k v. map_of (uploads s) k = Some v \<and> ofCommit repoID sha v \<and> upPart v = upPart u \<longrightarrow> upID v \<le> upID u)" for u
    using rows by blast
  show "LatestUploadsPerPart repoID sha (s\<lparr>uploads := m\<rparr>) = LatestUploadsPerPart repoID sha s"
    if m: "mset m = mset (uploads s)" for m
  proof -
    have eq: "map_of (uploads s) = map_of m" using m k by (intro mset_map_of) auto
    have "keyed upID (upSeq s) (uploads (s\<lparr>uploads := m\<rparr>))"
      using k mset_wfMap [OF m] by (simp add: keyed_def eq)
    from LatestUploadsPerPart_rows [OF this, of repoID sha] show ?thesis
      using rows by (intro strict_key_unique [of upID]) (auto simp: eq)
  qed
  show "LatestUploadsPerPart repoID sha s' = filter (\<lambda>x. upPart x \<noteq> upPart u) (LatestUploadsPerPart repoID sha s) @ [v]"
    if "ofCommit repoID sha u \<and> CreateUpload now u fs s = (Inr v, s')" for now u fs v s'
  proof -
    let ?old = "LatestUploadsPerPart repoID sha s"
    have v: "upID v = upSeq s + 1" "ofCommit repoID sha v" "upPart v = upPart u"
      and s': "uploads s' = AList.update (upSeq s + 1) v (uploads s)" "upSeq s' = upSeq s + 1"
      using that by (auto simp: CreateUpload_def Let_def ofCommit_def)
    have k': "keyed upID (upSeq s + 1) (uploads s')" unfolding s'(1) using k v(1) by (rule keyed_insert)
    note rows' = LatestUploadsPerPart_rows [OF k', of repoID sha]
    have below: "upID x \<le> upSeq s" if "map_of (uploads s) i = Some x" for i x using k that by (auto simp: keyed_def)
    have get: "(\<exists>i. map_of (uploads s') i = Some x) \<longleftrightarrow> x = v \<or> (\<exists>i. map_of (uploads s) i = Some x)" for x
      unfolding s'(1) using keyed_fresh [OF k] by (rule row_of_insert)
    show ?thesis
    proof (rule strict_key_unique [of upID])
      show "sorted_wrt (<) (map upID (LatestUploadsPerPart repoID sha s'))" using rows' by blast
      have "sorted_wrt (<) (map upID (filter (\<lambda>x. upPart x \<noteq> upPart u) ?old))"
        using rows by (auto simp: sorted_wrt_map intro: sorted_wrt_filter)
      moreover have "upID x < upID v" if "x \<in> set ?old" for x
        using that rows below v(1) by fastforce
      ultimately show "sorted_wrt (<) (map upID (filter (\<lambda>x. upPart x \<noteq> upPart u) ?old @ [v]))"
        by (auto simp: sorted_wrt_append)
      have "x \<in> set (LatestUploadsPerPart repoID sha s') \<longleftrightarrow> x = v \<or> (x \<in> set ?old \<and> upPart x \<noteq> upPart u)" for x
        using newest_of_part [OF rows rows' get below v] .
      then show "set (LatestUploadsPerPart repoID sha s') = set (filter (\<lambda>x. upPart x \<noteq> upPart u) ?old @ [v])" by auto
    qed
  qed
qed

theorem latest_uploads_per_part_witness:
  "let u = (\<lambda>i part. (i, zeroUpload\<lparr>upID := i, upRepoID := 1, upCommitSHA := ''c'', upPart := part\<rparr>));
       s = newStore\<lparr>upSeq := 3, uploads := [u 3 ''unit'', u 1 ''unit'', u 2 ''e2e''], files := [(1, []), (2, []), (3, [])]\<rparr>
   in LatestUploadsPerPart 1 ''c'' s = [snd (u 2 ''e2e''), snd (u 3 ''unit'')]
    \<and> snd (u 3 ''unit'') \<in> set (LatestUploadsPerPart 1 ''c'' s)"
proof -
  define u where "u = (\<lambda>i part. (i :: int, zeroUpload\<lparr>upID := i, upRepoID := 1, upCommitSHA := ''c'', upPart := part\<rparr>))"
  define s where "s = newStore\<lparr>upSeq := 3, uploads := [u 3 ''unit'', u 1 ''unit'', u 2 ''e2e''],
     files := [(1, []), (2, []), (3, [])]\<rparr>"
  have inv: "storeInv s"
    unfolding storeInv_def inv_defs
    by (auto intro!: keyed_rows uniqueBy_rows simp: s_def newStore_def u_def wfMap_def split: if_splits)
  have rows: "(\<exists>k. map_of (uploads s) k = Some (snd (u 3 ''unit'')))"
    by (rule exI [of _ 3]) (simp add: s_def u_def)
  have "\<forall>k v. map_of (uploads s) k = Some v \<and> ofCommit 1 ''c'' v \<and> upPart v = upPart (snd (u 3 ''unit'')) \<longrightarrow> upID v \<le> upID (snd (u 3 ''unit''))"
    by (auto simp: s_def u_def split: if_splits)
  with latest_uploads_per_part [OF inv, THEN conjunct2, THEN conjunct1, THEN spec, THEN iffD2, of "snd (u 3 ''unit'')"] rows
  have "snd (u 3 ''unit'') \<in> set (LatestUploadsPerPart 1 ''c'' s)" by (simp add: ofCommit_def u_def)
  moreover have "LatestUploadsPerPart 1 ''c'' s = [snd (u 2 ''e2e''), snd (u 3 ''unit'')]"
    unfolding s_def u_def by code_simp
  ultimately show ?thesis unfolding s_def u_def Let_def by (intro conjI)
qed

end
