(* ===== verification/PushView.thy ===== *)
theory PushView
  imports StoreFacts
begin

text \<open>
  What a push of one commit's status sees of the store: whether the commit has a merged report,
  the version last recorded, the lease and the uploads. The claim and the release of the lease
  (\<open>ClaimPush\<close>, \<open>FinishPush\<close>) are specified on that view, and the store's operations are shown
  to implement the specification.
\<close>

record pushView =
  pvReport :: bool
  pvStatus :: int
  pvLease :: time
  pvUploads :: "int set"

definition commitView :: "int \<Rightarrow> string \<Rightarrow> memStore \<Rightarrow> pushView" where
  "commitView repoID sha s =
     \<lparr>pvReport = (commitReportLocked repoID sha s \<noteq> None), pvStatus = statusOf s (commitKey repoID sha),
      pvLease = leaseOf s (commitKey repoID sha),
      pvUploads = {i. \<exists>u. map_of (uploads s) i = Some u \<and> ofCommit repoID sha u}\<rparr>"

definition specClaim :: "time \<Rightarrow> int \<Rightarrow> time \<Rightarrow> pushView \<Rightarrow> (PushClaim \<times> time) \<times> pushView" where
  "specClaim now version lease V =
     (if \<not> pvReport V \<or> version < pvStatus V then ((PushSuperseded, 0), V)
      else if now < pvLease V then ((PushQueued, 0), V)
      else ((PushClaimed, now + lease), V\<lparr>pvLease := now + lease\<rparr>))"

definition specFinish :: "int \<Rightarrow> time \<Rightarrow> bool \<Rightarrow> pushView \<Rightarrow> bool \<times> pushView" where
  "specFinish version lease pushed V =
     (let V' = V\<lparr>pvStatus := (if pushed then max (pvStatus V) version else pvStatus V)\<rparr>
      in if \<not> pvReport V then (False, V)
         else if pvLease V \<noteq> lease then (False, V')
         else (\<exists>i \<in> pvUploads V. version < i, V'\<lparr>pvLease := 0\<rparr>))"

lemma commitView_simps [simp]:
  "pvReport (commitView r c s) = (commitReportLocked r c s \<noteq> None)"
  "pvStatus (commitView r c s) = statusOf s (commitKey r c)"
  "pvLease (commitView r c s) = leaseOf s (commitKey r c)"
  "i \<in> pvUploads (commitView r c s) \<longleftrightarrow> (\<exists>u. map_of (uploads s) i = Some u \<and> ofCommit r c u)"
  by (simp_all add: commitView_def)

lemma commitView_eq:
  "commitView r c s = V \<longleftrightarrow> (commitReportLocked r c s \<noteq> None) = pvReport V \<and> statusOf s (commitKey r c) = pvStatus V
     \<and> leaseOf s (commitKey r c) = pvLease V
     \<and> (\<forall>i. (\<exists>u. map_of (uploads s) i = Some u \<and> ofCommit r c u) \<longleftrightarrow> i \<in> pvUploads V)"
  by (cases V) (auto simp: commitView_def)

lemma uploads_finite [simp]: "finite (pvUploads (commitView r c s))"
proof (rule finite_subset)
  show "pvUploads (commitView r c s) \<subseteq> dom (map_of (uploads s))" by auto
  show "finite (dom (map_of (uploads s)))" by (rule finite_dom_map_of)
qed

lemma uploads_range: "storeInv s \<Longrightarrow> i \<in> pvUploads (commitView r c s) \<Longrightarrow> 0 < i \<and> i \<le> upSeq s"
  by (auto simp: storeInv_def uploadInv_def keyed_def)

section \<open>The operations of this commit\<close>

lemma itoa_no_colon: "CHR '':'' \<notin> set (itoa n)"
  by (rule itoa_no_byte) (auto simp: isDigit_def)

lemma digitsOf_no_sign: "0 \<le> n \<Longrightarrow> digitsOf n \<noteq> CHR ''-'' # ds"
  using digitsOf_correct [of n] by (auto simp: isDigit_def)

lemma itoa_inj:
  assumes "itoa m = itoa n"
  shows "m = n"
proof -
  have d: "0 \<le> k \<Longrightarrow> decimal (digitsOf k) = k" for k using digitsOf_correct by blast
  note s = digitsOf_no_sign
  consider "m < 0" "n < 0" | "m < 0" "0 \<le> n" | "0 \<le> m" "n < 0" | "0 \<le> m" "0 \<le> n" by linarith
  then show ?thesis
  proof cases
    case 1
    have "- m = decimal (digitsOf (- m))" using d [of "- m"] 1(1) by linarith
    also have "digitsOf (- m) = digitsOf (- n)" using assms 1 by (simp add: itoa_def del: digitsOf.simps)
    also have "decimal (digitsOf (- n)) = - n" using d [of "- n"] 1(2) by linarith
    finally show ?thesis by linarith
  next
    case 2
    then show ?thesis using assms [symmetric] s [of n "digitsOf (- m)"] by (simp add: itoa_def del: digitsOf.simps)
  next
    case 3
    then show ?thesis using assms s [of m "digitsOf (- n)"] by (simp add: itoa_def del: digitsOf.simps)
  next
    case 4
    then have "digitsOf m = digitsOf n" using assms by (simp add: itoa_def del: digitsOf.simps)
    then show ?thesis using d [of m] d [of n] 4 by argo
  qed
qed

lemma commitKey_inj: "commitKey r c = commitKey r' c' \<Longrightarrow> r = r' \<and> c = c'"
proof -
  assume "commitKey r c = commitKey r' c'"
  then have e: "itoa r @ '':'' @ c = itoa r' @ '':'' @ c'" by (simp add: commitKey_def)
  have t: "takeWhile (\<lambda>x. x \<noteq> CHR '':'') (itoa n @ '':'' @ d) = itoa n" for n d
    using itoa_no_colon [of n] by (subst takeWhile_append2) auto
  have "itoa r = itoa r'" using t [of r c] t [of r' c'] e by simp
  then show ?thesis using e itoa_inj by auto
qed

lemma ClaimPush_view:
  "map_prod (\<lambda>x. x) (commitView r c) (ClaimPush now r c v l s) = specClaim now v l (commitView r c s)"
  by (auto simp: ClaimPush_def specClaim_def Let_def commitView_eq commitReportLocked_def statusOf_def leaseOf_def)

lemma newer_upload:
  assumes "storeInv s"
  shows "list_ex (\<lambda>u. upRepoID u = r \<and> upCommitSHA u = c \<and> upID u > v) (valuesOf (uploads s))
     \<longleftrightarrow> (\<exists>i \<in> pvUploads (commitView r c s). v < i)"
proof -
  have k: "keyed upID (upSeq s) (uploads s)" using inv_parts(3) [OF assms] by (simp add: uploadInv_def)
  show ?thesis
    unfolding list_ex_iff Bex_def set_valuesOf [OF keyed_wf [OF k]] commitView_simps
    by (metis keyed_id [OF k] ofCommit_def)
qed

lemma FinishPush_view:
  "storeInv s \<Longrightarrow> map_prod (\<lambda>x. x) (commitView r c) (FinishPush r c v l p s) = specFinish v l p (commitView r c s)"
  using newer_upload [of s r c v]
  by (auto simp: FinishPush_def specFinish_def Let_def commitView_eq commitReportLocked_def statusOf_def leaseOf_def max_def)

lemma CreateUpload_view:
  assumes "storeInv s" and "ofCommit r c u"
  shows "commitView r c (snd (CreateUpload now u fs s))
       = (commitView r c s)\<lparr>pvUploads := insert (upSeq s + 1) (pvUploads (commitView r c s))\<rparr>"
  using assms
  by (auto simp: commitView_eq CreateUpload_def Let_def commitReportLocked_def statusOf_def leaseOf_def ofCommit_def
      split: if_splits)

lemma UpsertCommitReport_view:
  assumes "storeInv s" and "crRepoID cr = r" and "crCommitSHA cr = c"
  shows "commitView r c (snd (UpsertCommitReport now cr s)) = (commitView r c s)\<lparr>pvReport := True\<rparr>"
proof -
  let ?s = "snd (UpsertCommitReport now cr s)"
  have k: "keyed crID (crSeq ?s) (reports ?s)"
    using inv_parts(4) [OF UpsertCommitReport_inv [OF assms(1)]] by (simp add: reportInv_def)
  have "\<exists>i x. map_of (reports ?s) i = Some x \<and> crRepoID x = r \<and> crCommitSHA x = c"
    using assms(2,3) by (auto simp: UpsertCommitReport_def Let_def split: option.split)
  then have "commitReportLocked r c ?s \<noteq> None"
    unfolding commitReportLocked_def findVal_None [OF keyed_wf [OF k]] by blast
  moreover have "uploads ?s = uploads s" "crStatus ?s = crStatus s" "crLease ?s = crLease s"
    by (simp_all add: UpsertCommitReport_def Let_def split: option.split)
  ultimately show ?thesis by (auto simp: commitView_eq statusOf_def leaseOf_def)
qed

section \<open>The newest upload\<close>

text \<open>\<open>slices.MaxFunc\<close> over the parts: the first of the highest IDs.\<close>

definition maxUpload :: "Upload list \<Rightarrow> Upload option" where
  "maxUpload = foldl (\<lambda>m u. case m of None \<Rightarrow> Some u | Some x \<Rightarrow> if upID u > upID x then Some u else m) None"

lemma maxUpload_snoc:
  "maxUpload (us @ [u]) = (case maxUpload us of None \<Rightarrow> Some u | Some x \<Rightarrow> if upID u > upID x then Some u else Some x)"
  by (simp add: maxUpload_def split: option.split)

lemma maxUpload_max:
  "(us = [] \<and> maxUpload us = None) \<or> (\<exists>x. maxUpload us = Some x \<and> x \<in> set us \<and> (\<forall>u \<in> set us. upID u \<le> upID x))"
proof (induction us rule: rev_induct)
  case (snoc u us)
  then show ?case unfolding maxUpload_snoc by (auto split: option.split)
qed (simp add: maxUpload_def)

definition latestVersion :: "int \<Rightarrow> string \<Rightarrow> memStore \<Rightarrow> int option" where
  "latestVersion repoID sha s = map_option upID (maxUpload (LatestUploadsPerPart repoID sha s))"

definition newest :: "pushView \<Rightarrow> int" where
  "newest V = Max (insert 0 (pvUploads V))"

lemma latestVersion_newest:
  assumes inv: "storeInv s" and ne: "pvUploads (commitView r c s) \<noteq> {}"
  shows "latestVersion r c s = Some (newest (commitView r c s))"
proof -
  let ?V = "commitView r c s" and ?ps = "LatestUploadsPerPart r c s"
  have k: "keyed upID (upSeq s) (uploads s)" using inv_parts(3) [OF inv] by (simp add: uploadInv_def)
  note rows = LatestUploadsPerPart_rows [OF k, of r c]
  let ?m = "Max (pvUploads ?V)"
  have m: "?m \<in> pvUploads ?V" "\<And>i. i \<in> pvUploads ?V \<Longrightarrow> i \<le> ?m" using ne by (simp_all del: commitView_simps)
  have new: "newest ?V = ?m" using ne m(1) uploads_range [OF inv m(1)] by (simp add: newest_def)
  obtain u where u: "map_of (uploads s) ?m = Some u" "ofCommit r c u" using m(1) by auto
  have id: "upID v = i" if "map_of (uploads s) i = Some v" for i v using k that by (rule keyed_id)
  have le: "upID v \<le> ?m" if "map_of (uploads s) i = Some v" "ofCommit r c v" for i v
    using m(2) [of i] id [OF that(1)] that by auto
  have uin: "u \<in> set ?ps" using rows u id [OF u(1)] le by auto
  then obtain x where x: "maxUpload ?ps = Some x" "x \<in> set ?ps" "\<forall>v \<in> set ?ps. upID v \<le> upID x"
    using maxUpload_max [of ?ps] by auto
  have "upID x \<le> ?m" using x(2) rows le by blast
  then have "upID x = ?m" using x(3) uin id [OF u(1)] by force
  then show ?thesis using x(1) new by (simp add: latestVersion_def)
qed

section \<open>The lease as the store's interface describes it\<close>

lemma other_commit:
  assumes "(r', c') \<noteq> (r, c)"
  shows "commitView r c (snd (ClaimPush now r' c' v l s)) = commitView r c s"
    and "commitView r c (snd (FinishPush r' c' v t p s)) = commitView r c s"
proof -
  have "commitKey r c \<noteq> commitKey r' c'" using assms commitKey_inj by blast
  then show "commitView r c (snd (ClaimPush now r' c' v l s)) = commitView r c s"
    and "commitView r c (snd (FinishPush r' c' v t p s)) = commitView r c s"
    by (auto simp: ClaimPush_def FinishPush_def Let_def commitView_eq commitReportLocked_def statusOf_def leaseOf_def)
qed

text \<open>
  C25: The push lease as the store's interface describes it. On what a push sees of its commit,
  \<open>ClaimPush\<close> and \<open>FinishPush\<close> do what the interface says: a claim is superseded without a report
  or under the recorded version, queues behind a lease that has not run out, and takes it
  otherwise; a release records the version if it was pushed and is higher, gives up only the lease
  it was given, and says whether a newer upload waits. Pushes of other commits change nothing.
\<close>

theorem lease_ops_refine:
  assumes "storeInv s"
  shows "map_prod (\<lambda>x. x) (commitView r c) (ClaimPush now r c v l s) = specClaim now v l (commitView r c s)
    \<and> map_prod (\<lambda>x. x) (commitView r c) (FinishPush r c v t p s) = specFinish v t p (commitView r c s)
    \<and> ((r', c') \<noteq> (r, c) \<longrightarrow> commitView r c (snd (ClaimPush now r' c' v l s)) = commitView r c s
        \<and> commitView r c (snd (FinishPush r' c' v t p s)) = commitView r c s)"
  by (intro conjI impI ClaimPush_view FinishPush_view [OF assms] other_commit)

theorem lease_ops_refine_witness:
  "storeInv newStore \<and> specClaim 5 1 30 (commitView 1 ''c'' newStore) = ((PushSuperseded, 0), commitView 1 ''c'' newStore)"
  using lease_ops_refine [OF storeInv_new, of 1 "''c''" 5 1 30] storeInv_new
  by (simp add: ClaimPush_def commitReportLocked_def newStore_def findVal_def)

end
