(* ===== verification/PushLease.thy ===== *)
theory PushLease
  imports PushView
begin

text \<open>
  Pushing a commit's status to the forge, \<open>internal/core/publish.go\<close>. Uploads of one commit push
  concurrently; a lease on the commit's report lets one push through at a time, the others queue,
  and whoever releases the lease goes round again if newer uploads arrived. The rounds of all
  uploads of one commit are modelled as steps over the in-memory store, interleaved arbitrarily
  with new uploads, the clock, failures and any other use of the store.
\<close>

section \<open>Rounds\<close>

text \<open>Durations are in nanoseconds.\<close>

definition statusPushTimeout :: time where
  "statusPushTimeout = 20 * 1000000000"

definition pushLease :: time where
  "pushLease = 30 * 1000000000"

text \<open>
  A push that holds a lease: its version, the lease it was given, when its surfaces' context times
  out, and whether its build status has reached the forge.
\<close>

record holder =
  hVersion :: int
  hLease :: time
  hDeadline :: time
  hPosted :: bool

text \<open>
  The uploads that are stored and still to be recomputed, the ones about to claim, the pushes in
  flight, the follow-ups started and not yet reloaded, the version whose build status is on the
  forge (0 for none), and whether work has been lost: a server task died, a follow-up ran out of
  rounds, or the status of the newest upload could not be posted.
\<close>

record pushWorld =
  pwStore :: memStore
  pwNow :: time
  pwArrived :: "int list"
  pwReady :: "int list"
  pwHolders :: "holder list"
  pwFollow :: nat
  pwForge :: int
  pwLost :: bool

definition uploadArrives :: "Upload \<Rightarrow> UploadFile list \<Rightarrow> pushWorld \<Rightarrow> pushWorld" where
  "uploadArrives u fs w =
     (case CreateUpload (pwNow w) u fs (pwStore w) of
        (Inr u', s) \<Rightarrow> w\<lparr>pwStore := s, pwArrived := upID u' # pwArrived w\<rparr>
      | (Inl _, s) \<Rightarrow> w\<lparr>pwStore := s\<rparr>)"

definition recomputed :: "CommitReport \<Rightarrow> pushWorld \<Rightarrow> pushWorld" where
  "recomputed cr w =
     w\<lparr>pwStore := snd (UpsertCommitReport (pwNow w) cr (pwStore w)),
       pwArrived := remove1 (crUploadID cr) (pwArrived w), pwReady := crUploadID cr # pwReady w\<rparr>"

definition claimRound :: "int \<Rightarrow> string \<Rightarrow> int \<Rightarrow> pushWorld \<Rightarrow> pushWorld" where
  "claimRound repoID sha version w =
     (case ClaimPush (pwNow w) repoID sha version pushLease (pwStore w) of ((claim, lease), s) \<Rightarrow>
        w\<lparr>pwStore := s, pwReady := remove1 version (pwReady w),
          pwHolders := (if claim = PushClaimed
            then \<lparr>hVersion = version, hLease = lease, hDeadline = pwNow w + statusPushTimeout, hPosted = False\<rparr> # pwHolders w
            else pwHolders w)\<rparr>)"

definition statusLands :: "holder \<Rightarrow> pushWorld \<Rightarrow> pushWorld" where
  "statusLands h w = w\<lparr>pwForge := hVersion h, pwHolders := h\<lparr>hPosted := True\<rparr> # remove1 h (pwHolders w)\<rparr>"

definition finishRound :: "int \<Rightarrow> string \<Rightarrow> holder \<Rightarrow> bool \<Rightarrow> pushWorld \<Rightarrow> pushWorld" where
  "finishRound repoID sha h pushed w =
     (case FinishPush repoID sha (hVersion h) (hLease h) pushed (pwStore w) of (again, s) \<Rightarrow>
        w\<lparr>pwStore := s, pwHolders := remove1 h (pwHolders w),
          pwFollow := (if again then Suc (pwFollow w) else pwFollow w),
          pwLost := (pwLost w \<or> \<not> pushed \<and> \<not> again \<and> leaseOf (pwStore w) (commitKey repoID sha) = hLease h)\<rparr>)"

text \<open>\<open>latestMerged\<close>: the newest of the commit's parts, which is recomputed like an upload that just arrived.\<close>

definition followRound :: "int \<Rightarrow> string \<Rightarrow> pushWorld \<Rightarrow> pushWorld" where
  "followRound repoID sha w =
     (case latestVersion repoID sha (pwStore w) of
        Some v \<Rightarrow> w\<lparr>pwFollow := pwFollow w - 1, pwArrived := v # pwArrived w\<rparr>
      | None \<Rightarrow> w\<lparr>pwFollow := pwFollow w - 1, pwLost := True\<rparr>)"

section \<open>Steps\<close>

inductive pushMove :: "int \<Rightarrow> string \<Rightarrow> pushWorld \<Rightarrow> pushWorld \<Rightarrow> bool" for repoID sha where
  move_recompute: "\<lbrakk>crUploadID cr \<in> set (pwArrived w); crRepoID cr = repoID; crCommitSHA cr = sha\<rbrakk>
    \<Longrightarrow> pushMove repoID sha w (recomputed cr w)"
| move_claim: "v \<in> set (pwReady w) \<Longrightarrow> pushMove repoID sha w (claimRound repoID sha v w)"
| move_lands: "\<lbrakk>h \<in> set (pwHolders w); \<not> hPosted h; pwNow w \<le> hDeadline h\<rbrakk> \<Longrightarrow> pushMove repoID sha w (statusLands h w)"
| move_finish: "\<lbrakk>h \<in> set (pwHolders w); pushed \<longrightarrow> hPosted h\<rbrakk> \<Longrightarrow> pushMove repoID sha w (finishRound repoID sha h pushed w)"
| move_follow: "0 < pwFollow w \<Longrightarrow> pushMove repoID sha w (followRound repoID sha w)"

text \<open>A server task dies, or a follow-up stops early.\<close>

inductive pushLoss :: "pushWorld \<Rightarrow> pushWorld \<Rightarrow> bool" where
  lose_arrived: "v \<in> set (pwArrived w) \<Longrightarrow> pushLoss w (w\<lparr>pwArrived := remove1 v (pwArrived w), pwLost := True\<rparr>)"
| lose_ready: "v \<in> set (pwReady w) \<Longrightarrow> pushLoss w (w\<lparr>pwReady := remove1 v (pwReady w), pwLost := True\<rparr>)"
| lose_holder: "h \<in> set (pwHolders w) \<Longrightarrow> pushLoss w (w\<lparr>pwHolders := remove1 h (pwHolders w), pwLost := True\<rparr>)"
| lose_follow: "0 < pwFollow w \<Longrightarrow> pushLoss w (w\<lparr>pwFollow := pwFollow w - 1, pwLost := True\<rparr>)"

text \<open>Uploads arrive, time passes, and the store serves everything else that leaves the commit alone.\<close>

inductive pushEnv :: "int \<Rightarrow> string \<Rightarrow> pushWorld \<Rightarrow> pushWorld \<Rightarrow> bool" for repoID sha where
  env_upload: "ofCommit repoID sha u \<Longrightarrow> pushEnv repoID sha w (uploadArrives u fs w)"
| env_tick: "pwNow w \<le> t \<Longrightarrow> pushEnv repoID sha w (w\<lparr>pwNow := t\<rparr>)"
| env_other: "\<lbrakk>memStep (pwStore w) s; commitView repoID sha s = commitView repoID sha (pwStore w)\<rbrakk>
    \<Longrightarrow> pushEnv repoID sha w (w\<lparr>pwStore := s\<rparr>)"

definition pushStep :: "int \<Rightarrow> string \<Rightarrow> pushWorld \<Rightarrow> pushWorld \<Rightarrow> bool" where
  "pushStep repoID sha w w' \<longleftrightarrow> pushMove repoID sha w w' \<or> pushLoss w w' \<or> pushEnv repoID sha w w'"

text \<open>A commit nothing is known of yet.\<close>

definition pushStart :: "int \<Rightarrow> string \<Rightarrow> pushWorld \<Rightarrow> bool" where
  "pushStart repoID sha w \<longleftrightarrow> storeInv (pwStore w) \<and> 0 < pwNow w
     \<and> commitView repoID sha (pwStore w) = \<lparr>pvReport = False, pvStatus = 0, pvLease = 0, pvUploads = {}\<rparr>
     \<and> pwArrived w = [] \<and> pwReady w = [] \<and> pwHolders w = [] \<and> pwFollow w = 0 \<and> pwForge w = 0 \<and> \<not> pwLost w"

definition pushIdle :: "pushWorld \<Rightarrow> bool" where
  "pushIdle w \<longleftrightarrow> pwArrived w = [] \<and> pwReady w = [] \<and> pwHolders w = [] \<and> pwFollow w = 0"

section \<open>The invariant\<close>

text \<open>
  Over the view of the commit: what is in flight are uploads of the commit; the leases of the
  pushes differ, a lease that has not run out is the store's, and the store's is somebody's; a
  status posted under the store's lease is the forge's; and the newest upload is in flight, or a
  push will see it, or it is on the forge and recorded.
\<close>

definition viewInv :: "pushView \<Rightarrow> pushWorld \<Rightarrow> bool" where
  "viewInv V w \<longleftrightarrow>
     finite (pvUploads V) \<and> (\<forall>i \<in> pvUploads V. 0 < i) \<and> 0 < pwNow w
   \<and> set (pwArrived w) \<subseteq> pvUploads V \<and> set (pwReady w) \<subseteq> pvUploads V \<and> hVersion ` set (pwHolders w) \<subseteq> pvUploads V
   \<and> (pwReady w \<noteq> [] \<or> pwHolders w \<noteq> [] \<longrightarrow> pvReport V)
   \<and> (0 < pwFollow w \<longrightarrow> pvUploads V \<noteq> {})
   \<and> 0 \<le> pvStatus V \<and> pvStatus V \<le> newest V
   \<and> distinct (map hLease (pwHolders w))
   \<and> (\<forall>h \<in> set (pwHolders w). 0 < hLease h \<and> hDeadline h < hLease h \<and> (pwNow w < hLease h \<longrightarrow> hLease h = pvLease V))
   \<and> (pvLease V \<noteq> 0 \<longrightarrow> pwLost w \<or> pvLease V \<in> hLease ` set (pwHolders w))
   \<and> (\<forall>h \<in> set (pwHolders w). hPosted h \<and> hLease h = pvLease V \<longrightarrow> pwForge w = hVersion h)"

definition reported :: "pushView \<Rightarrow> pushWorld \<Rightarrow> bool" where
  "reported V w \<longleftrightarrow> pwLost w \<or> pvUploads V = {} \<or> newest V \<in> set (pwArrived w) \<union> set (pwReady w)
     \<or> pvLease V \<in> hLease ` set (pwHolders w) \<or> 0 < pwFollow w \<or> (pwForge w = newest V \<and> pvStatus V = newest V)"

definition pushInv :: "int \<Rightarrow> string \<Rightarrow> pushWorld \<Rightarrow> bool" where
  "pushInv r c w \<longleftrightarrow> storeInv (pwStore w) \<and> viewInv (commitView r c (pwStore w)) w \<and> reported (commitView r c (pwStore w)) w"

lemma viewInvD:
  assumes "viewInv V w"
  shows
    "finite (pvUploads V)" "\<forall>i \<in> pvUploads V. 0 < i" "0 < pwNow w"
    "set (pwArrived w) \<subseteq> pvUploads V" "set (pwReady w) \<subseteq> pvUploads V"
    "hVersion ` set (pwHolders w) \<subseteq> pvUploads V"
    "pwReady w \<noteq> [] \<or> pwHolders w \<noteq> [] \<longrightarrow> pvReport V"
    "0 < pwFollow w \<longrightarrow> pvUploads V \<noteq> {}" "0 \<le> pvStatus V" "pvStatus V \<le> newest V"
    "distinct (map hLease (pwHolders w))"
    "\<forall>h \<in> set (pwHolders w). 0 < hLease h \<and> hDeadline h < hLease h \<and> (pwNow w < hLease h \<longrightarrow> hLease h = pvLease V)"
    "pvLease V \<noteq> 0 \<longrightarrow> pwLost w \<or> pvLease V \<in> hLease ` set (pwHolders w)"
    "\<forall>h \<in> set (pwHolders w). hPosted h \<and> hLease h = pvLease V \<longrightarrow> pwForge w = hVersion h"
  using assms unfolding viewInv_def by blast+

lemma viewInvI:
  assumes
    "finite (pvUploads V)" "\<forall>i \<in> pvUploads V. 0 < i" "0 < pwNow w"
    "set (pwArrived w) \<subseteq> pvUploads V" "set (pwReady w) \<subseteq> pvUploads V"
    "hVersion ` set (pwHolders w) \<subseteq> pvUploads V"
    "pwReady w \<noteq> [] \<or> pwHolders w \<noteq> [] \<longrightarrow> pvReport V"
    "0 < pwFollow w \<longrightarrow> pvUploads V \<noteq> {}" "0 \<le> pvStatus V" "pvStatus V \<le> newest V"
    "distinct (map hLease (pwHolders w))"
    "\<forall>h \<in> set (pwHolders w). 0 < hLease h \<and> hDeadline h < hLease h \<and> (pwNow w < hLease h \<longrightarrow> hLease h = pvLease V)"
    "pvLease V \<noteq> 0 \<longrightarrow> pwLost w \<or> pvLease V \<in> hLease ` set (pwHolders w)"
    "\<forall>h \<in> set (pwHolders w). hPosted h \<and> hLease h = pvLease V \<longrightarrow> pwForge w = hVersion h"
  shows "viewInv V w"
  unfolding viewInv_def by (intro conjI assms)

lemma newest_cong [simp]:
  "newest (V\<lparr>pvReport := a\<rparr>) = newest V" "newest (V\<lparr>pvStatus := b\<rparr>) = newest V" "newest (V\<lparr>pvLease := d\<rparr>) = newest V"
  by (simp_all add: newest_def)

lemma newest_max:
  assumes "finite (pvUploads V)" and "\<forall>i \<in> pvUploads V. 0 < i"
  shows "0 \<le> newest V" "i \<in> pvUploads V \<Longrightarrow> i \<le> newest V" "pvUploads V \<noteq> {} \<Longrightarrow> newest V \<in> pvUploads V"
    "pvUploads V = {} \<Longrightarrow> newest V = 0"
proof -
  have m: "newest V \<in> insert 0 (pvUploads V)" unfolding newest_def using assms(1) by (intro Max_in) auto
  show le: "0 \<le> newest V" "i \<in> pvUploads V \<Longrightarrow> i \<le> newest V" for i using assms(1) by (simp_all add: newest_def)
  show "pvUploads V = {} \<Longrightarrow> newest V = 0" by (simp add: newest_def)
  show "newest V \<in> pvUploads V" if "pvUploads V \<noteq> {}"
    using m that le(2) assms(2) by (metis insert_iff all_not_in_conv linorder_not_less)
qed

lemma newest_insert:
  assumes "finite (pvUploads V)" and "0 < n" and "\<forall>i \<in> pvUploads V. i < n"
  shows "newest (V\<lparr>pvUploads := insert n (pvUploads V)\<rparr>) = n"
  unfolding newest_def using assms by (intro Max_eqI) (auto simp: less_imp_le)

text \<open>Taking a push out of those in flight.\<close>

lemma remove_holder:
  assumes "distinct (map f hs)"
  shows "set (remove1 h hs) = set hs - {h}" "distinct (map f (remove1 h hs))"
proof -
  have "distinct hs" using assms by (simp add: distinct_map)
  then show e: "set (remove1 h hs) = set hs - {h}" by (rule set_remove1_eq)
  show "distinct (map f (remove1 h hs))"
    using assms \<open>distinct hs\<close> unfolding distinct_map e by (auto intro: inj_on_subset)
qed

lemma same_lease: "distinct (map hLease hs) \<Longrightarrow> h \<in> set hs \<Longrightarrow> h' \<in> set hs \<Longrightarrow> hLease h = hLease h' \<Longrightarrow> h = h'"
  by (auto simp: distinct_map inj_on_def)

lemma in_remove1: "x \<in> set xs \<Longrightarrow> x = y \<or> x \<in> set (remove1 y xs)"
  by (cases "x = y") auto

lemmas remove1_sub = subsetD [OF set_remove1_subset]

section \<open>Every step keeps the invariant\<close>

lemma arrive_inv:
  fixes s :: memStore
  assumes inv: "viewInv V w" and n: "0 < n" "\<forall>i \<in> pvUploads V. i < n"
  defines "V' \<equiv> V\<lparr>pvUploads := insert n (pvUploads V)\<rparr>" and "w' \<equiv> w\<lparr>pwStore := s, pwArrived := n # pwArrived w\<rparr>"
  shows "viewInv V' w'" and "reported V' w'"
proof -
  note d = viewInvD [OF inv]
  have new: "newest V' = n" unfolding V'_def using d(1) n by (rule newest_insert)
  have "newest V \<le> n" using newest_max [OF d(1,2)] n by (cases "pvUploads V = {}") fastforce+
  then have "pvStatus V \<le> n" using d(10) by linarith
  then show "viewInv V' w'"
    by (intro viewInvI; use d n(1) new in \<open>simp add: V'_def w'_def\<close>; blast)
  show "reported V' w'" by (simp add: reported_def new w'_def)
qed

lemma recompute_inv:
  fixes s :: memStore
  assumes inv: "viewInv V w" and v: "v \<in> set (pwArrived w)"
  defines "V' \<equiv> V\<lparr>pvReport := True\<rparr>"
    and "w' \<equiv> w\<lparr>pwStore := s, pwArrived := remove1 v (pwArrived w), pwReady := v # pwReady w\<rparr>"
  shows "viewInv V' w'" and "reported V w \<Longrightarrow> reported V' w'"
proof -
  note d = viewInvD [OF inv]
  have sub: "set (remove1 v (pwArrived w)) \<subseteq> pvUploads V" using d(4) set_remove1_subset by fast
  show "viewInv V' w'"
    by (intro viewInvI; use d sub v in \<open>simp add: V'_def w'_def\<close>; blast)
  show "reported V' w'" if "reported V w"
    using that in_remove1 [of "newest V" "pwArrived w" v] by (auto simp: reported_def V'_def w'_def)
qed

lemma claim_inv:
  fixes s :: memStore
  assumes inv: "viewInv V w" and v: "v \<in> set (pwReady w)"
    and spec: "specClaim (pwNow w) v pushLease V = ((claim, lease), V')"
  defines "w' \<equiv> w\<lparr>pwStore := s, pwReady := remove1 v (pwReady w),
          pwHolders := (if claim = PushClaimed
            then \<lparr>hVersion = v, hLease = lease, hDeadline = pwNow w + statusPushTimeout, hPosted = False\<rparr> # pwHolders w
            else pwHolders w)\<rparr>"
  shows "viewInv V' w'" and "reported V w \<Longrightarrow> reported V' w'"
proof -
  note d = viewInvD [OF inv]
  have sub: "set (remove1 v (pwReady w)) \<subseteq> pvUploads V" using d(5) set_remove1_subset by fast
  have rep: "pvReport V" using d(7) v by auto
  have same: "viewInv V w'" if "claim \<noteq> PushClaimed"
    by (intro viewInvI; use d sub rep that in \<open>simp add: w'_def\<close>)
  consider (superseded) "v < pvStatus V" | (queued) "pvStatus V \<le> v" "pwNow w < pvLease V" | (claimed) "pvStatus V \<le> v" "pvLease V \<le> pwNow w"
    by linarith
  then have "viewInv V' w' \<and> (reported V w \<longrightarrow> reported V' w')"
  proof cases
    case superseded
    then have eq: "claim = PushSuperseded" "V' = V" using spec rep by (auto simp: specClaim_def)
    have "v \<noteq> newest V" using superseded d(10) by linarith
    then show ?thesis using same in_remove1 [of "newest V" "pwReady w" v]
      by (auto simp: eq reported_def w'_def)
  next
    case queued
    then have eq: "claim = PushQueued" "V' = V" using spec rep by (auto simp: specClaim_def)
    have "pvLease V \<noteq> 0" using queued(2) d(3) by linarith
    then have "pwLost w \<or> pvLease V \<in> hLease ` set (pwHolders w)" using d(13) by blast
    then show ?thesis using same by (auto simp: eq reported_def w'_def)
  next
    case claimed
    then have eq: "claim = PushClaimed" "lease = pwNow w + pushLease" "V' = V\<lparr>pvLease := pwNow w + pushLease\<rparr>"
      using spec rep by (auto simp: specClaim_def)
    have past: "hLease h \<le> pwNow w" if "h \<in> set (pwHolders w)" for h
      using d(12) that claimed(2) by fastforce
    have L: "0 < pushLease" "statusPushTimeout < pushLease" by (simp_all add: pushLease_def statusPushTimeout_def)
    have "pwNow w + pushLease \<notin> hLease ` set (pwHolders w)" using past L(1) by fastforce
    moreover have "\<forall>h \<in> set (pwHolders w). hLease h \<noteq> pwNow w + pushLease \<and> \<not> pwNow w < hLease h"
      using past L(1) by fastforce
    ultimately have "viewInv V' w'"
      using L by (intro viewInvI; use d sub rep v in \<open>simp add: w'_def eq\<close>; blast)
    moreover have "reported V' w'" by (simp add: reported_def w'_def eq)
    ultimately show ?thesis by blast
  qed
  then show "viewInv V' w'" and "reported V w \<Longrightarrow> reported V' w'" by blast+
qed

lemma own_lease:
  assumes "viewInv V w" and "h \<in> set (pwHolders w)" and "pwNow w \<le> hDeadline h"
  shows "hLease h = pvLease V" "pwNow w < pvLease V"
  using viewInvD(12) [OF assms(1)] assms(2,3) by fastforce+

lemma lands_inv:
  assumes inv: "viewInv V w" and h: "h \<in> set (pwHolders w)" "pwNow w \<le> hDeadline h"
  shows "viewInv V (statusLands h w)" and "reported V (statusLands h w)"
proof -
  note d = viewInvD [OF inv]
  note r = remove_holder [OF d(11), of h]
  note own = own_lease [OF inv h]
  have other: "\<forall>h' \<in> set (pwHolders w) - {h}. hLease h' \<noteq> pvLease V"
    using same_lease [OF d(11) h(1)] own(1) by (metis DiffE singletonI)
  let ?h = "h\<lparr>hPosted := True\<rparr>"
  have hs: "pwHolders (statusLands h w) = ?h # remove1 h (pwHolders w)" "pwForge (statusLands h w) = hVersion h"
    "pwNow (statusLands h w) = pwNow w" "pwArrived (statusLands h w) = pwArrived w" "pwReady (statusLands h w) = pwReady w"
    "pwFollow (statusLands h w) = pwFollow w" "pwLost (statusLands h w) = pwLost w"
    by (simp_all add: statusLands_def)
  have old: "hLease ` set (pwHolders w) = insert (hLease h) (hLease ` (set (pwHolders w) - {h}))" using h(1) by blast
  have dist: "distinct (map hLease (?h # remove1 h (pwHolders w)))" using r other own(1) by fastforce
  have ver: "hVersion ` set (?h # remove1 h (pwHolders w)) \<subseteq> pvUploads V" using d(6) r(1) h(1) by auto
  have all: "\<forall>h \<in> set (?h # remove1 h (pwHolders w)). 0 < hLease h \<and> hDeadline h < hLease h \<and> (pwNow w < hLease h \<longrightarrow> hLease h = pvLease V)"
    using d(12) r(1) h(1) by auto
  have one: "\<forall>h' \<in> set (?h # remove1 h (pwHolders w)). hPosted h' \<and> hLease h' = pvLease V \<longrightarrow> hVersion h = hVersion h'"
    using other r(1) by auto
  have rep: "pwReady w \<noteq> [] \<or> ?h # remove1 h (pwHolders w) \<noteq> [] \<longrightarrow> pvReport V"
    using d(7) h(1) by (cases "pwHolders w") auto
  have own': "pvLease V \<noteq> 0 \<longrightarrow> pwLost w \<or> pvLease V \<in> hLease ` set (?h # remove1 h (pwHolders w))" using own(1) by simp
  show "viewInv V (statusLands h w)"
    by (rule viewInvI; (unfold hs)?) (rule d(1-5) dist ver all one rep own' d(8-10))+
  show "reported V (statusLands h w)" by (simp add: reported_def statusLands_def own)
qed

lemma finish_inv:
  fixes s :: memStore
  assumes inv: "viewInv V w" and h: "h \<in> set (pwHolders w)" and posted: "pushed \<longrightarrow> hPosted h"
    and spec: "specFinish (hVersion h) (hLease h) pushed V = (again, V')"
  defines "w' \<equiv> w\<lparr>pwStore := s, pwHolders := remove1 h (pwHolders w),
          pwFollow := (if again then Suc (pwFollow w) else pwFollow w),
          pwLost := (pwLost w \<or> \<not> pushed \<and> \<not> again \<and> pvLease V = hLease h)\<rparr>"
  shows "viewInv V' w'" and "reported V w \<Longrightarrow> reported V' w'"
proof -
  note d = viewInvD [OF inv]
  note r = remove_holder [OF d(11), of h]
  note m = newest_max [OF d(1,2)]
  have rep: "pvReport V" using d(7) h by (cases "pwHolders w") auto
  have v: "hVersion h \<in> pvUploads V" "hVersion h \<le> newest V" "0 < hVersion h" using d(2,6) h m(2) by auto
  define st where "st = (if pushed then max (pvStatus V) (hVersion h) else pvStatus V)"
  have st: "pvStatus V \<le> st" "0 \<le> st" "st \<le> newest V" using d(9,10) v(2) by (auto simp: st_def)
  have "viewInv V' w' \<and> (reported V w \<longrightarrow> reported V' w')"
  proof (cases "pvLease V = hLease h")
    case False
    then have eq: "again = False" "V' = V\<lparr>pvStatus := st\<rparr>" using spec rep by (auto simp: specFinish_def Let_def st_def)
    have "viewInv V' w'"
      by (intro viewInvI; use d r st rep False in \<open>simp add: w'_def eq\<close>; blast)
    moreover have "reported V' w'" if "reported V w"
      using that False r(1) st by (auto simp: reported_def w'_def eq)
    ultimately show ?thesis by blast
  next
    case True
    then have eq: "again = (\<exists>i \<in> pvUploads V. hVersion h < i)" "V' = V\<lparr>pvStatus := st, pvLease := 0\<rparr>"
      using spec rep by (auto simp: specFinish_def Let_def st_def)
    have other: "\<forall>h' \<in> set (pwHolders w) - {h}. hLease h' \<noteq> pvLease V"
      using same_lease [OF d(11) h] True by (metis DiffE singletonI)
    have zero: "\<forall>h' \<in> set (pwHolders w) - {h}. hLease h' \<noteq> 0" using d(12) by fastforce
    have past: "\<forall>h' \<in> set (pwHolders w) - {h}. \<not> pwNow w < hLease h'" using d(12) other by blast
    have ne: "pvUploads V \<noteq> {}" using v(1) by blast
    have "viewInv V' w'"
      by (intro viewInvI; use d r st rep other zero past ne in \<open>simp add: w'_def eq\<close>; blast)
    moreover have "reported V' w'"
    proof (cases again)
      case True
      then show ?thesis by (simp add: reported_def w'_def)
    next
      case fin: False
      then have "newest V \<le> hVersion h" using m(3) [OF ne] eq(1) by force
      then have new: "hVersion h = newest V" using v(2) by linarith
      show ?thesis
      proof (cases pushed)
        case True
        then have "pwForge w = hVersion h" using d(14) h posted \<open>pvLease V = hLease h\<close> by auto
        moreover have "st = newest V" using True new st(3) by (simp add: st_def)
        ultimately show ?thesis using new by (simp add: reported_def w'_def eq)
      next
        case False
        then show ?thesis using fin \<open>pvLease V = hLease h\<close> by (simp add: reported_def w'_def)
      qed
    qed
    ultimately show ?thesis by blast
  qed
  then show "viewInv V' w'" and "reported V w \<Longrightarrow> reported V' w'" by blast+
qed

lemma lost_inv:
  assumes inv: "viewInv V w" and sub: "set as \<subseteq> set (pwArrived w)" "set rs \<subseteq> set (pwReady w)" "hs = pwHolders w \<or> hs = remove1 h (pwHolders w)" "n \<le> pwFollow w"
  defines "w' \<equiv> w\<lparr>pwArrived := as, pwReady := rs, pwHolders := hs, pwFollow := n, pwLost := True\<rparr>"
  shows "viewInv V w'" and "reported V w'"
proof -
  note d = viewInvD [OF inv]
  have hs: "set hs \<subseteq> set (pwHolders w)" "distinct (map hLease hs)"
    using sub(3) remove_holder [OF d(11), of h] d(11) by auto
  have "rs \<noteq> [] \<or> hs \<noteq> [] \<longrightarrow> pwReady w \<noteq> [] \<or> pwHolders w \<noteq> []" using sub(2) hs(1) by (cases rs; cases hs) auto
  then show "viewInv V w'"
    by (intro viewInvI; use d sub(1,2,4) hs in \<open>simp add: w'_def\<close>; blast)
  show "reported V w'" by (simp add: reported_def w'_def)
qed

section \<open>The commit through all its pushes\<close>

lemma followRound_eq:
  assumes "storeInv (pwStore w)" and "pvUploads (commitView r c (pwStore w)) \<noteq> {}"
  shows "followRound r c w = w\<lparr>pwFollow := pwFollow w - 1, pwArrived := newest (commitView r c (pwStore w)) # pwArrived w\<rparr>"
  using latestVersion_newest [OF assms] by (simp add: followRound_def)

lemma claimRound_eq:
  assumes "specClaim (pwNow w) v pushLease (commitView r c (pwStore w)) = ((claim, lease), V')"
  obtains s where "commitView r c s = V'" "s = snd (ClaimPush (pwNow w) r c v pushLease (pwStore w))"
    "claimRound r c v w = w\<lparr>pwStore := s, pwReady := remove1 v (pwReady w),
          pwHolders := (if claim = PushClaimed
            then \<lparr>hVersion = v, hLease = lease, hDeadline = pwNow w + statusPushTimeout, hPosted = False\<rparr> # pwHolders w
            else pwHolders w)\<rparr>"
proof -
  obtain x s where e: "ClaimPush (pwNow w) r c v pushLease (pwStore w) = (x, s)" by fastforce
  then have "(x, commitView r c s) = ((claim, lease), V')"
    using ClaimPush_view [of r c "pwNow w" v pushLease "pwStore w"] assms by simp
  then show ?thesis using e by (intro that [of s]) (auto simp: claimRound_def)
qed

lemma finishRound_eq:
  assumes "storeInv (pwStore w)" and "specFinish (hVersion h) (hLease h) pushed (commitView r c (pwStore w)) = (again, V')"
  obtains s where "commitView r c s = V'" "s = snd (FinishPush r c (hVersion h) (hLease h) pushed (pwStore w))"
    "finishRound r c h pushed w = w\<lparr>pwStore := s, pwHolders := remove1 h (pwHolders w),
          pwFollow := (if again then Suc (pwFollow w) else pwFollow w),
          pwLost := (pwLost w \<or> \<not> pushed \<and> \<not> again \<and> pvLease (commitView r c (pwStore w)) = hLease h)\<rparr>"
proof -
  obtain x s where e: "FinishPush r c (hVersion h) (hLease h) pushed (pwStore w) = (x, s)" by fastforce
  then have "(x, commitView r c s) = (again, V')"
    using FinishPush_view [OF assms(1), of r c "hVersion h" "hLease h" pushed] assms(2) by simp
  then show ?thesis using e by (intro that [of s]) (auto simp: finishRound_def)
qed

lemma pushInvI:
  "storeInv s \<Longrightarrow> pwStore w = s \<Longrightarrow> commitView r c s = V \<Longrightarrow> viewInv V w \<Longrightarrow> reported V w \<Longrightarrow> pushInv r c w"
  by (simp add: pushInv_def)

lemma pushStart_inv: "pushStart r c w \<Longrightarrow> pushInv r c w"
  unfolding pushStart_def
  by (elim conjE, rule pushInvI [OF _ refl], assumption+) (auto simp: reported_def newest_def intro!: viewInvI)

lemma pushMove_inv: "pushMove r c w w' \<Longrightarrow> pushInv r c w \<Longrightarrow> pushInv r c w'"
proof (induction rule: pushMove.induct)
  case (move_recompute cr w)
  then have p: "storeInv (pwStore w)" "viewInv (commitView r c (pwStore w)) w" "reported (commitView r c (pwStore w)) w"
    by (simp_all add: pushInv_def)
  note i = recompute_inv [OF p(2) move_recompute.hyps(1), where s = "snd (UpsertCommitReport (pwNow w) cr (pwStore w))"]
  have "commitView r c (snd (UpsertCommitReport (pwNow w) cr (pwStore w))) = (commitView r c (pwStore w))\<lparr>pvReport := True\<rparr>"
    using p(1) move_recompute.hyps(2,3) by (rule UpsertCommitReport_view)
  then show ?case unfolding recomputed_def
    by (rule pushInvI [OF UpsertCommitReport_inv [OF p(1)] _ _ i(1) i(2) [OF p(3)], rotated]) simp
next
  case (move_claim v w)
  then have p: "storeInv (pwStore w)" "viewInv (commitView r c (pwStore w)) w" "reported (commitView r c (pwStore w)) w"
    by (simp_all add: pushInv_def)
  obtain claim lease V' where sp: "specClaim (pwNow w) v pushLease (commitView r c (pwStore w)) = ((claim, lease), V')"
    by (metis prod.exhaust)
  note i = claim_inv [OF p(2) move_claim.hyps sp]
  obtain s where s: "commitView r c s = V'" "s = snd (ClaimPush (pwNow w) r c v pushLease (pwStore w))"
    and e: "claimRound r c v w = w\<lparr>pwStore := s, pwReady := remove1 v (pwReady w),
          pwHolders := (if claim = PushClaimed
            then \<lparr>hVersion = v, hLease = lease, hDeadline = pwNow w + statusPushTimeout, hPosted = False\<rparr> # pwHolders w
            else pwHolders w)\<rparr>"
    using sp by (rule claimRound_eq)
  have "storeInv s" using push_ops_inv(1) [OF p(1)] by (simp add: s(2))
  then show ?case unfolding e by (rule pushInvI [OF _ _ s(1) i(1) i(2) [OF p(3)]]) simp
next
  case (move_lands h w)
  then show ?case using lands_inv [of "commitView r c (pwStore w)" w h]
    by (simp add: pushInv_def) (simp add: statusLands_def)
next
  case (move_finish h w pushed)
  then have p: "storeInv (pwStore w)" "viewInv (commitView r c (pwStore w)) w" "reported (commitView r c (pwStore w)) w"
    by (simp_all add: pushInv_def)
  obtain again V' where sp: "specFinish (hVersion h) (hLease h) pushed (commitView r c (pwStore w)) = (again, V')"
    by (metis prod.exhaust)
  note i = finish_inv [OF p(2) move_finish.hyps sp]
  obtain s where s: "commitView r c s = V'" "s = snd (FinishPush r c (hVersion h) (hLease h) pushed (pwStore w))"
    and e: "finishRound r c h pushed w = w\<lparr>pwStore := s, pwHolders := remove1 h (pwHolders w),
          pwFollow := (if again then Suc (pwFollow w) else pwFollow w),
          pwLost := (pwLost w \<or> \<not> pushed \<and> \<not> again \<and> pvLease (commitView r c (pwStore w)) = hLease h)\<rparr>"
    using p(1) sp by (rule finishRound_eq)
  have "storeInv s" using push_ops_inv(2) [OF p(1)] by (simp add: s(2))
  then show ?case unfolding e by (rule pushInvI [OF _ _ s(1) i(1) i(2) [OF p(3)]]) simp
next
  case (move_follow w)
  then have p: "storeInv (pwStore w)" "viewInv (commitView r c (pwStore w)) w" by (simp_all add: pushInv_def)
  note d = viewInvD [OF p(2)]
  have ne: "pvUploads (commitView r c (pwStore w)) \<noteq> {}" using d(8) move_follow by blast
  show ?case unfolding followRound_eq [OF p(1) ne]
  proof (rule pushInvI [OF p(1) _ refl])
    show "viewInv (commitView r c (pwStore w)) (w\<lparr>pwFollow := pwFollow w - 1, pwArrived := newest (commitView r c (pwStore w)) # pwArrived w\<rparr>)"
      by (intro viewInvI; use d ne newest_max(3) [OF d(1,2) ne] in \<open>simp del: commitView_simps\<close>)
  qed (use p in \<open>simp_all add: reported_def del: commitView_simps\<close>)
qed

lemma pushLoss_inv: "pushLoss w w' \<Longrightarrow> pushInv r c w \<Longrightarrow> pushInv r c w'"
proof (induction rule: pushLoss.induct)
  case (lose_arrived v w)
  then show ?case using lost_inv [of "commitView r c (pwStore w)" w "remove1 v (pwArrived w)" "pwReady w" "pwHolders w" _ "pwFollow w"]
    by (simp add: pushInv_def set_remove1_subset)
next
  case (lose_ready v w)
  then show ?case using lost_inv [of "commitView r c (pwStore w)" w "pwArrived w" "remove1 v (pwReady w)" "pwHolders w" _ "pwFollow w"]
    by (simp add: pushInv_def set_remove1_subset)
next
  case (lose_holder h w)
  then show ?case using lost_inv [of "commitView r c (pwStore w)" w "pwArrived w" "pwReady w" "remove1 h (pwHolders w)" h "pwFollow w"]
    by (simp add: pushInv_def)
next
  case (lose_follow w)
  then show ?case using lost_inv [of "commitView r c (pwStore w)" w "pwArrived w" "pwReady w" "pwHolders w" _ "pwFollow w - 1"]
    by (simp add: pushInv_def)
qed

lemma pushEnv_inv: "pushEnv r c w w' \<Longrightarrow> pushInv r c w \<Longrightarrow> pushInv r c w'"
proof (induction rule: pushEnv.induct)
  case (env_upload u w fs)
  then have p: "storeInv (pwStore w)" "viewInv (commitView r c (pwStore w)) w" by (simp_all add: pushInv_def)
  let ?s = "snd (CreateUpload (pwNow w) u fs (pwStore w))" and ?n = "upSeq (pwStore w) + 1"
  have new: "0 < ?n" "\<forall>i \<in> pvUploads (commitView r c (pwStore w)). i < ?n"
    using uploads_range [OF p(1)] inv_parts(3) [OF p(1)] by (fastforce simp: uploadInv_def keyed_def)+
  note i = arrive_inv [OF p(2) new, where s = ?s]
  have e: "uploadArrives u fs w = w\<lparr>pwStore := ?s, pwArrived := ?n # pwArrived w\<rparr>"
    by (simp add: uploadArrives_def CreateUpload_def Let_def)
  show ?case unfolding e
    by (rule pushInvI [OF CreateUpload_inv [OF p(1)] _ CreateUpload_view [OF p(1) env_upload.hyps] i]) simp
next
  case (env_tick w t)
  then have p: "storeInv (pwStore w)" "viewInv (commitView r c (pwStore w)) w" "reported (commitView r c (pwStore w)) w"
    by (simp_all add: pushInv_def)
  note d = viewInvD [OF p(2)]
  have "\<forall>h \<in> set (pwHolders w). t < hLease h \<longrightarrow> hLease h = pvLease (commitView r c (pwStore w))"
    using d(12) env_tick by fastforce
  then have "viewInv (commitView r c (pwStore w)) (w\<lparr>pwNow := t\<rparr>)"
    by (intro viewInvI; use d env_tick in \<open>simp del: commitView_simps\<close>)
  then show ?case using p by (simp add: pushInv_def reported_def del: commitView_simps)
next
  case (env_other w s)
  then have p: "storeInv (pwStore w)" "viewInv (commitView r c (pwStore w)) w" "reported (commitView r c (pwStore w)) w"
    by (simp_all add: pushInv_def)
  have "viewInv (commitView r c (pwStore w)) (w\<lparr>pwStore := s\<rparr>)" "reported (commitView r c (pwStore w)) (w\<lparr>pwStore := s\<rparr>)"
    using p(2,3) by (simp_all add: viewInv_def reported_def del: commitView_simps)
  then show ?case using env_other(2) by (intro pushInvI [OF memStep_inv [OF env_other(1) p(1)] _ refl]) simp_all
qed

lemma pushReach_inv: "(pushStep r c)\<^sup>*\<^sup>* w w' \<Longrightarrow> pushStart r c w \<Longrightarrow> pushInv r c w'"
  by (induction rule: rtranclp_induct) (auto simp: pushStart_inv pushStep_def pushMove_inv pushLoss_inv pushEnv_inv)

section \<open>Rounds come to an end\<close>

text \<open>
  What each thing in flight may still cost: an upload that is not the newest can end in a
  follow-up, which pushes the newest once more.
\<close>

definition stageCost :: "int \<Rightarrow> nat \<Rightarrow> int \<Rightarrow> nat" where
  "stageCost latest base v = (if v = latest then base else base + 5)"

definition pushWork :: "int \<Rightarrow> string \<Rightarrow> pushWorld \<Rightarrow> nat" where
  "pushWork r c w =
     (let latest = newest (commitView r c (pwStore w))
      in (\<Sum>v\<leftarrow>pwArrived w. stageCost latest 4 v) + (\<Sum>v\<leftarrow>pwReady w. stageCost latest 3 v)
       + (\<Sum>h\<leftarrow>pwHolders w. stageCost latest (if hPosted h then 1 else 2) (hVersion h)) + 5 * pwFollow w)"

lemma sum_remove1: "x \<in> set xs \<Longrightarrow> (\<Sum>v\<leftarrow>xs. (f v :: nat)) = f x + (\<Sum>v\<leftarrow>remove1 x xs. f v)"
  by (induction xs) auto

lemma pushWork_idle: "pushWork r c w = 0 \<longleftrightarrow> pushIdle w"
  by (cases "pwArrived w"; cases "pwReady w"; cases "pwHolders w")
     (auto simp: pushWork_def pushIdle_def stageCost_def Let_def)

lemma view_newest: "commitView r c s = V \<Longrightarrow> newest (commitView r c s) = newest V"
  by simp

lemma pushMove_work: "pushMove r c w w' \<Longrightarrow> pushInv r c w \<Longrightarrow> pushWork r c w' < pushWork r c w"
proof (induction rule: pushMove.induct)
  case (move_recompute cr w)
  then have "storeInv (pwStore w)" by (simp add: pushInv_def)
  from view_newest [OF UpsertCommitReport_view [OF this move_recompute.hyps(2,3)]] show ?case
    using sum_remove1 [OF move_recompute.hyps(1)] by (simp add: recomputed_def pushWork_def Let_def stageCost_def)
next
  case (move_claim v w)
  then have p: "storeInv (pwStore w)" by (simp add: pushInv_def)
  obtain claim lease V' where sp: "specClaim (pwNow w) v pushLease (commitView r c (pwStore w)) = ((claim, lease), V')"
    by (metis prod.exhaust)
  then have n: "newest V' = newest (commitView r c (pwStore w))" by (auto simp: specClaim_def split: if_splits)
  show ?case
    by (rule claimRound_eq [OF sp])
       (use n sum_remove1 [OF move_claim.hyps] in \<open>simp add: pushWork_def Let_def stageCost_def\<close>)
next
  case (move_lands h w)
  then show ?case using sum_remove1 [OF move_lands.hyps(1)] by (simp add: statusLands_def pushWork_def Let_def stageCost_def)
next
  case (move_finish h w pushed)
  then have p: "storeInv (pwStore w)" "viewInv (commitView r c (pwStore w)) w" by (simp_all add: pushInv_def)
  note d = viewInvD [OF p(2)]
  obtain again V' where sp: "specFinish (hVersion h) (hLease h) pushed (commitView r c (pwStore w)) = (again, V')"
    by (metis prod.exhaust)
  then have n: "newest V' = newest (commitView r c (pwStore w))" by (auto simp: specFinish_def Let_def split: if_splits)
  have "\<exists>i \<in> pvUploads (commitView r c (pwStore w)). hVersion h < i" if again
    using sp that by (auto simp: specFinish_def Let_def split: if_splits)
  then have "again \<Longrightarrow> hVersion h \<noteq> newest (commitView r c (pwStore w))" using newest_max(2) [OF d(1,2)] by fastforce
  then have cost: "again \<Longrightarrow> 5 < stageCost (newest (commitView r c (pwStore w))) (if hPosted h then 1 else 2) (hVersion h)"
    "0 < stageCost (newest (commitView r c (pwStore w))) (if hPosted h then 1 else 2) (hVersion h)"
    by (simp_all add: stageCost_def)
  obtain s where s: "commitView r c s = V'"
    and e: "finishRound r c h pushed w = w\<lparr>pwStore := s, pwHolders := remove1 h (pwHolders w),
          pwFollow := (if again then Suc (pwFollow w) else pwFollow w),
          pwLost := (pwLost w \<or> \<not> pushed \<and> \<not> again \<and> pvLease (commitView r c (pwStore w)) = hLease h)\<rparr>"
    using p(1) sp by (rule finishRound_eq)
  have nn: "newest (commitView r c s) = newest (commitView r c (pwStore w))" unfolding s by (rule n)
  let ?cost = "\<lambda>h. stageCost (newest (commitView r c (pwStore w))) (if hPosted h then 1 else 2) (hVersion h)"
  define arr where "arr = (\<Sum>v\<leftarrow>pwArrived w. stageCost (newest (commitView r c (pwStore w))) 4 v)"
  define rdy where "rdy = (\<Sum>v\<leftarrow>pwReady w. stageCost (newest (commitView r c (pwStore w))) 3 v)"
  define rest where "rest = (\<Sum>h\<leftarrow>remove1 h (pwHolders w). ?cost h)"
  have after: "pushWork r c (finishRound r c h pushed w) = arr + rdy + rest + 5 * (if again then Suc (pwFollow w) else pwFollow w)"
    unfolding e arr_def rdy_def rest_def by (simp add: pushWork_def Let_def nn)
  have before: "pushWork r c w = arr + rdy + (?cost h + rest) + 5 * pwFollow w"
    unfolding arr_def rdy_def rest_def pushWork_def Let_def sum_remove1 [OF move_finish.hyps(1), of ?cost] ..
  show ?case unfolding after before using cost by (cases again; cases "hPosted h") simp_all
next
  case (move_follow w)
  then have p: "storeInv (pwStore w)" "viewInv (commitView r c (pwStore w)) w" by (simp_all add: pushInv_def)
  note d = viewInvD [OF p(2)]
  have ne: "pvUploads (commitView r c (pwStore w)) \<noteq> {}" using d(8) move_follow by blast
  show ?case using move_follow.hyps
    unfolding followRound_eq [OF p(1) ne] by (simp add: pushWork_def Let_def stageCost_def del: commitView_simps)
qed

lemma pushLoss_work: "pushLoss w w' \<Longrightarrow> pushWork r c w' < pushWork r c w"
proof (induction rule: pushLoss.induct)
  case (lose_arrived v w)
  then show ?case using sum_remove1 [OF lose_arrived.hyps] by (simp add: pushWork_def Let_def stageCost_def)
next
  case (lose_ready v w)
  then show ?case using sum_remove1 [OF lose_ready.hyps] by (simp add: pushWork_def Let_def stageCost_def)
next
  case (lose_holder h w)
  then show ?case using sum_remove1 [OF lose_holder.hyps] by (simp add: pushWork_def Let_def stageCost_def)
next
  case (lose_follow w)
  then show ?case by (simp add: pushWork_def Let_def)
qed

lemma pushMove_enabled:
  assumes "\<not> pushIdle w"
  shows "\<exists>w'. pushMove r c w w'"
proof -
  consider v where "v \<in> set (pwArrived w)" | v where "v \<in> set (pwReady w)" | h where "h \<in> set (pwHolders w)" | "0 < pwFollow w"
    using assms by (cases "pwArrived w"; cases "pwReady w"; cases "pwHolders w") (auto simp: pushIdle_def)
  then show ?thesis
  proof cases
    case (1 v)
    then show ?thesis
      using move_recompute [of "zeroCommitReport\<lparr>crRepoID := r, crCommitSHA := c, crUploadID := v\<rparr>" w r c] by auto
  qed (blast intro: pushMove.intros)+
qed

lemma pushMoves_work:
  "(pushMove r c ^^ n) w w' \<Longrightarrow> pushInv r c w \<Longrightarrow> n + pushWork r c w' \<le> pushWork r c w \<and> pushInv r c w'"
proof (induction n arbitrary: w')
  case (Suc n)
  then obtain u where u: "(pushMove r c ^^ n) w u" "pushMove r c u w'" by auto
  then show ?case using Suc.IH [OF u(1) Suc.prems(2)] pushMove_work [OF u(2)] pushMove_inv [OF u(2)] by fastforce
qed simp

section \<open>One upload, pushed\<close>

text \<open>A run on the empty store, in which the theorems below are seen at work.\<close>

definition runStart :: pushWorld where
  "runStart = \<lparr>pwStore = newStore, pwNow = 1, pwArrived = [], pwReady = [], pwHolders = [], pwFollow = 0, pwForge = 0, pwLost = False\<rparr>"

definition runHolder :: holder where
  "runHolder = \<lparr>hVersion = 1, hLease = 30000000001, hDeadline = 20000000001, hPosted = False\<rparr>"

definition runClaimed :: pushWorld where
  "runClaimed = claimRound 1 ''c'' 1 (recomputed (zeroCommitReport\<lparr>crRepoID := 1, crCommitSHA := ''c'', crUploadID := 1\<rparr>)
     (uploadArrives (zeroUpload\<lparr>upRepoID := 1, upCommitSHA := ''c''\<rparr>) [] runStart))"

definition runDone :: pushWorld where
  "runDone = finishRound 1 ''c'' (runHolder\<lparr>hPosted := True\<rparr>) True (statusLands runHolder runClaimed)"

lemma runStart_ok: "pushStart 1 ''c'' runStart"
  using storeInv_new by (simp add: pushStart_def runStart_def commitView_def newStore_def commitReportLocked_def findVal_def
      statusOf_def leaseOf_def)

lemma runClaimed_reach: "(pushStep 1 ''c'')\<^sup>*\<^sup>* runStart runClaimed"
proof -
  let ?u = "zeroUpload\<lparr>upRepoID := 1, upCommitSHA := ''c''\<rparr>" and ?cr = "zeroCommitReport\<lparr>crRepoID := 1, crCommitSHA := ''c'', crUploadID := 1\<rparr>"
  let ?w1 = "uploadArrives ?u [] runStart"
  let ?w2 = "recomputed ?cr ?w1"
  have "pwArrived ?w1 = [1]" by code_simp
  then have "pushMove 1 ''c'' ?w1 ?w2" by (intro move_recompute) simp_all
  moreover have "pushEnv 1 ''c'' runStart ?w1" by (rule env_upload) (simp add: ofCommit_def)
  moreover have "pwReady ?w2 = [1]" by code_simp
  then have "pushMove 1 ''c'' ?w2 runClaimed" unfolding runClaimed_def by (intro move_claim) simp
  ultimately have "pushStep 1 ''c'' runStart ?w1" "pushStep 1 ''c'' ?w1 ?w2" "pushStep 1 ''c'' ?w2 runClaimed"
    by (simp_all add: pushStep_def)
  then show ?thesis by (meson rtranclp.rtrancl_into_rtrancl rtranclp.rtrancl_refl)
qed

lemma runClaimed_holder: "pwHolders runClaimed = [runHolder]" "pwNow runClaimed = 1"
  by code_simp+

lemma runDone_reach: "(pushStep 1 ''c'')\<^sup>*\<^sup>* runStart runDone"
proof -
  let ?w = "statusLands runHolder runClaimed"
  have "pushMove 1 ''c'' runClaimed ?w"
    by (rule move_lands) (simp_all add: runClaimed_holder, simp_all add: runHolder_def)
  moreover have "pwHolders ?w = [runHolder\<lparr>hPosted := True\<rparr>]" by (simp add: statusLands_def runClaimed_holder)
  then have "pushMove 1 ''c'' ?w runDone" unfolding runDone_def by (intro move_finish) simp_all
  ultimately have "pushStep 1 ''c'' runClaimed ?w" "pushStep 1 ''c'' ?w runDone" by (simp_all add: pushStep_def)
  with runClaimed_reach show ?thesis by (meson rtranclp.rtrancl_into_rtrancl)
qed

lemma runDone_idle: "pushIdle runDone" "\<not> pwLost runDone" "map upID (LatestUploadsPerPart 1 ''c'' (pwStore runDone)) = [1]"
  "pwForge runDone = 1"
  by code_simp+





text \<open>
  C26: Rounds come to an end. Once no further upload of the commit arrives, a run makes at most
  \<open>pushWork\<close> moves, whatever their order, and until nothing is in flight one can be made; the work
  is nothing exactly then.
\<close>

theorem push_rounds_end:
  assumes "pushStart r c w0" and "(pushStep r c)\<^sup>*\<^sup>* w0 w"
  shows "(\<forall>n w'. (pushMove r c ^^ n) w w' \<longrightarrow> n + pushWork r c w' \<le> pushWork r c w)
    \<and> (\<forall>w'. pushLoss w w' \<longrightarrow> pushWork r c w' < pushWork r c w)
    \<and> (pushWork r c w = 0 \<longleftrightarrow> pushIdle w) \<and> (\<not> pushIdle w \<longrightarrow> (\<exists>w'. pushMove r c w w'))"
  using pushReach_inv [OF assms(2,1)] pushMoves_work pushLoss_work pushWork_idle pushMove_enabled by blast

theorem push_rounds_end_witness:
  "pushWork 1 ''c'' runDone = 0 \<and> \<not> pushIdle runClaimed \<and> (\<exists>w'. pushMove 1 ''c'' runClaimed w')"
proof -
  have "\<not> pushIdle runClaimed" by (simp add: pushIdle_def runClaimed_holder)
  then show ?thesis
    using push_rounds_end [OF runStart_ok runDone_reach] push_rounds_end [OF runStart_ok runClaimed_reach] runDone_idle(1) by blast
qed

end
