(* ===== verification/CommitMerge.thy ===== *)
theory CommitMerge
  imports StoreFacts
begin

text \<open>
  Merging the parts of one commit, \<open>internal/core/merge.go\<close>: the ufs of the parts' newest
  uploads are merged into the ufs of the commit's report, with a shortcut for ufs that are
  already their own merge, and counted. \<open>slices.SortedFunc\<close> need not be stable; the shortcut it
  feeds is taken only when no two paths are equal, where that makes no difference.
\<close>

section \<open>Rows of ufs\<close>

definition newUploadFile :: "profFile \<Rightarrow> UploadFile" where
  "newUploadFile f =
     (let (c, t) = fileCoverage f
      in \<lparr>ufUploadID = 0, ufPath = fPath f, ufPct = Percent c t, ufCoveredStmts = c, ufTotalStmts = t, ufBlocks = fBlocks f\<rparr>)"

definition ownerOf :: "(string, int) gomap \<Rightarrow> UploadFile \<Rightarrow> (string, int) gomap" where
  "ownerOf owner f =
     AList.update (ufPath f) (max (case map_of owner (ufPath f) of None \<Rightarrow> 0 | Some i \<Rightarrow> i) (ufUploadID f)) owner"

definition rowFile :: "UploadFile \<Rightarrow> profFile" where
  "rowFile f = \<lparr>fPath = ufPath f, fBlocks = ufBlocks f\<rparr>"

definition mergeAll :: "UploadFile list \<Rightarrow> UploadFile list" where
  "mergeAll ufs =
     (let owner = foldl ownerOf [] ufs;
          merged = Merge [Some \<lparr>Files = map rowFile ufs\<rparr>]
      in map (\<lambda>f. (newUploadFile f)\<lparr>ufUploadID := (case map_of owner (fPath f) of None \<Rightarrow> 0 | Some i \<Rightarrow> i)\<rparr>) (Files merged))"

definition canonicalFiles :: "UploadFile list \<Rightarrow> bool" where
  "canonicalFiles srt \<longleftrightarrow>
     (\<forall>i \<in> set [0..<length srt].
        \<not> ((i > 0 \<and> ufPath (srt ! i) = ufPath (srt ! (i - 1))) \<or> \<not> Canonical (ufBlocks (srt ! i))))"

definition MergeParts :: "UploadFile list \<Rightarrow> UploadFile list" where
  "MergeParts ufs =
     (if ufs \<noteq> [] \<and> \<not> list_ex (\<lambda>f. ufUploadID f \<noteq> ufUploadID (hd ufs)) ufs
      then let srt = sort_key ufPath ufs in if canonicalFiles srt then srt else mergeAll ufs
      else mergeAll ufs)"

definition addCounts :: "int \<times> int \<Rightarrow> UploadFile \<Rightarrow> int \<times> int" where
  "addCounts ct f = (add64 (fst ct) (ufCoveredStmts f), add64 (snd ct) (ufTotalStmts f))"

definition mergedCoverage :: "(int list \<Rightarrow> storeError + UploadFile list) \<Rightarrow> Upload list \<Rightarrow> storeError + (int \<times> int)" where
  "mergedCoverage partFiles parts =
     (if length parts = 1 then Inr (upCoveredStmts (hd parts), upTotalStmts (hd parts))
      else case partFiles (map upID parts) of
          Inl e \<Rightarrow> Inl e
        | Inr ufs \<Rightarrow> Inr (foldl addCounts (0, 0) (MergeParts ufs)))"

section \<open>The shortcut\<close>

text \<open>A row as \<open>newUploadFile\<close> makes it, under the ID of its upload.\<close>

definition counted :: "UploadFile \<Rightarrow> bool" where
  "counted f \<longleftrightarrow> 0 \<le> ufUploadID f \<and> f = (newUploadFile (rowFile f))\<lparr>ufUploadID := ufUploadID f\<rparr>"

lemma counted_newUploadFile [simp]: "0 \<le> i \<Longrightarrow> counted ((newUploadFile f)\<lparr>ufUploadID := i\<rparr>)"
  by (simp add: counted_def newUploadFile_def rowFile_def fileCoverage_def split: prod.split)

lemma rowFile_simps [simp]: "fPath (rowFile f) = ufPath f" "fBlocks (rowFile f) = ufBlocks f"
  by (simp_all add: rowFile_def)

lemma pred_step:
  "(\<forall>i. Suc i < n \<longrightarrow> P (Suc i) i) \<longleftrightarrow> (\<forall>i < n. 0 < i \<longrightarrow> P i (i - 1))"
proof (intro iffI allI impI)
  fix i assume "\<forall>i. Suc i < n \<longrightarrow> P (Suc i) i" "i < n" "0 < i"
  then show "P i (i - 1)" by (cases i) auto
next
  fix i assume "\<forall>i < n. 0 < i \<longrightarrow> P i (i - 1)" "Suc i < n"
  then show "P (Suc i) i" by fastforce
qed

lemma counted_pos: "counted f \<Longrightarrow> 0 \<le> ufUploadID f"
  by (simp only: counted_def)

lemma counted_eq: "counted f \<Longrightarrow> (newUploadFile (rowFile f))\<lparr>ufUploadID := ufUploadID f\<rparr> = f"
  unfolding counted_def by (elim conjE) (rule sym)

lemma canonicalFiles_strict:
  assumes "sorted (map ufPath fs)"
  shows "canonicalFiles fs \<longleftrightarrow> canonicalProfile \<lparr>Files = map rowFile fs\<rparr>"
proof -
  have "sorted_wrt (<) (map ufPath fs) \<longleftrightarrow> (\<forall>i. Suc i < length fs \<longrightarrow> ufPath (fs ! i) < ufPath (fs ! Suc i))"
    by (subst sorted_wrt_iff_nth_Suc_transp) (auto simp: transp_on_def)
  also have "\<dots> \<longleftrightarrow> (\<forall>i. Suc i < length fs \<longrightarrow> ufPath (fs ! Suc i) \<noteq> ufPath (fs ! i))"
    using assms by (fastforce simp: sorted_iff_nth_Suc order_less_le)
  also have "\<dots> \<longleftrightarrow> (\<forall>i < length fs. 0 < i \<longrightarrow> ufPath (fs ! i) \<noteq> ufPath (fs ! (i - 1)))"
    by (rule pred_step [where P = "\<lambda>i j. ufPath (fs ! i) \<noteq> ufPath (fs ! j)"])
  finally have strict: "sorted_wrt (<) (map ufPath fs) \<longleftrightarrow> (\<forall>i < length fs. 0 < i \<longrightarrow> ufPath (fs ! i) \<noteq> ufPath (fs ! (i - 1)))" .
  have paths: "map fPath (map rowFile fs) = map ufPath fs" by simp
  have blocks: "(\<forall>f \<in> set (map rowFile fs). Canonical (fBlocks f)) \<longleftrightarrow> (\<forall>i < length fs. Canonical (ufBlocks (fs ! i)))"
    by (simp add: all_set_conv_all_nth)
  have "canonicalFiles fs \<longleftrightarrow> (\<forall>i < length fs. 0 < i \<longrightarrow> ufPath (fs ! i) \<noteq> ufPath (fs ! (i - 1)))
      \<and> (\<forall>i < length fs. Canonical (ufBlocks (fs ! i)))"
    unfolding canonicalFiles_def set_upt atLeastLessThan_iff Ball_def by (simp only: le0 simp_thms de_Morgan_disj not_not) blast
  then show ?thesis unfolding canonicalProfile_def profile.select_convs paths strict blocks .
qed

lemma owner_lookup:
  "(case map_of (foldl ownerOf m fs) p of None \<Rightarrow> 0 | Some i \<Rightarrow> i)
     = foldl max (case map_of m p of None \<Rightarrow> 0 | Some i \<Rightarrow> i) (map ufUploadID (filter (\<lambda>f. ufPath f = p) fs))"
  by (induction fs arbitrary: m) (auto simp: ownerOf_def)

lemma owner_Max:
  "(case map_of (foldl ownerOf [] fs) p of None \<Rightarrow> 0 | Some i \<Rightarrow> i) = Max (insert 0 (ufUploadID ` {f \<in> set fs. ufPath f = p}))"
  unfolding owner_lookup foldl_max by simp

lemma mergeAll_alt:
  "mergeAll ufs = map (\<lambda>f. (newUploadFile f)\<lparr>ufUploadID := Max (insert 0 (ufUploadID ` {g \<in> set ufs. ufPath g = fPath f}))\<rparr>)
     (Files (Merge [Some \<lparr>Files = map rowFile ufs\<rparr>]))"
  by (simp add: mergeAll_def Let_def owner_Max)

lemma Merge_rows_perm: "mset fs = mset gs \<Longrightarrow> Merge [Some \<lparr>Files = map rowFile fs\<rparr>] = Merge [Some \<lparr>Files = map rowFile gs\<rparr>]"
  by (rule Merge_perm) simp

lemma mergeAll_perm: "mset fs = mset gs \<Longrightarrow> mergeAll fs = mergeAll gs"
  unfolding mergeAll_alt using Merge_rows_perm [of fs gs] by (auto dest: mset_eq_setD)

lemma MergeParts_mergeAll:
  assumes "\<forall>f \<in> set ufs. counted f"
  shows "MergeParts ufs = mergeAll ufs"
proof (cases "ufs \<noteq> [] \<and> \<not> list_ex (\<lambda>f. ufUploadID f \<noteq> ufUploadID (hd ufs)) ufs \<and> canonicalFiles (sort_key ufPath ufs)")
  case False
  then show ?thesis by (auto simp: MergeParts_def Let_def)
next
  case True
  let ?s = "sort_key ufPath ufs" and ?i = "ufUploadID (hd ufs)"
  have same: "\<And>f. f \<in> set ufs \<Longrightarrow> ufUploadID f = ?i" using True unfolding list_ex_iff by blast
  have pos: "0 \<le> ?i" using True assms by (intro counted_pos) simp
  have canon: "canonicalProfile \<lparr>Files = map rowFile ?s\<rparr>" using canonicalFiles_strict [of ?s] True by simp
  have "Merge [Some \<lparr>Files = map rowFile ufs\<rparr>] = Merge [Some \<lparr>Files = map rowFile ?s\<rparr>]" by (rule Merge_rows_perm) simp
  also have "\<dots> = \<lparr>Files = map rowFile ?s\<rparr>" using canon by (rule Merge_single)
  finally have m: "Merge [Some \<lparr>Files = map rowFile ufs\<rparr>] = \<lparr>Files = map rowFile ?s\<rparr>" .
  have own: "Max (insert 0 (ufUploadID ` {g \<in> set ufs. ufPath g = ufPath f})) = ufUploadID f" if "f \<in> set ufs" for f
  proof (rule Max_eqI)
    show "y \<le> ufUploadID f" if "y \<in> insert 0 (ufUploadID ` {g \<in> set ufs. ufPath g = ufPath f})" for y
      using that same pos \<open>f \<in> set ufs\<close> by auto
    show "ufUploadID f \<in> insert 0 (ufUploadID ` {g \<in> set ufs. ufPath g = ufPath f})" using that by auto
  qed simp
  have "mergeAll ufs = map (\<lambda>f. (newUploadFile (rowFile f))\<lparr>ufUploadID := ufUploadID f\<rparr>) ?s"
    unfolding mergeAll_alt m profile.select_convs map_map comp_def rowFile_simps
    by (intro map_cong refl) (simp only: own set_sort)
  also have "\<dots> = ?s" using assms by (intro map_idI counted_eq) simp
  finally show ?thesis using True by (auto simp: MergeParts_def Let_def)
qed

section \<open>Counting\<close>

lemma foldl_perm:
  assumes swap: "\<And>z x y. f (f z x) y = f (f z y) x" and m: "mset xs = mset ys"
  shows "foldl f z xs = foldl f z ys"
proof -
  have "fold (\<lambda>x z. f z x) xs = fold (\<lambda>x z. f z x) ys"
    using m by (intro fold_multiset_equiv) (auto simp: fun_eq_iff swap)
  then show ?thesis by (simp add: foldl_conv_fold)
qed

lemma add64_swap: "add64 (add64 a b) c = add64 (add64 a c) b"
  by (metis add64_assoc add64_commute)

lemma fold_pairs_perm:
  fixes g :: "'a \<Rightarrow> int \<times> int"
  assumes "mset xs = mset ys"
  shows "foldl (\<lambda>ct x. (add64 (fst ct) (fst (g x)), add64 (snd ct) (snd (g x)))) z xs
       = foldl (\<lambda>ct x. (add64 (fst ct) (fst (g x)), add64 (snd ct) (snd (g x)))) z ys"
  by (rule foldl_perm [OF _ assms]) (simp add: add64_swap)

lemma fileCoverage_perm: "mset (fBlocks f) = mset (fBlocks g) \<Longrightarrow> fileCoverage f = fileCoverage g"
  unfolding fileCoverage_def by (rule foldl_perm) (auto simp: add64_swap)

lemma profileCoverage_alt:
  "profileCoverage p = foldl (\<lambda>ct f. (add64 (fst ct) (fst (fileCoverage f)), add64 (snd ct) (snd (fileCoverage f)))) (0, 0) (Files p)"
  unfolding profileCoverage_def by (rule foldl_cong) (auto split: prod.split)

text \<open>A profile whose files and positions are not repeated is merged into itself, sorted.\<close>

definition sortedProfile :: "profile \<Rightarrow> profile" where
  "sortedProfile p = \<lparr>Files = sort_key fPath (map (\<lambda>f. f\<lparr>fBlocks := sort_key keyOf (fBlocks f)\<rparr>) (Files p))\<rparr>"

definition unrepeated :: "profile \<Rightarrow> bool" where
  "unrepeated p \<longleftrightarrow> distinct (map fPath (Files p)) \<and> (\<forall>f \<in> set (Files p). distinct (map keyOf (fBlocks f)))"

lemma canonical_unrepeated: "canonicalProfile p \<Longrightarrow> unrepeated p"
  by (auto simp: canonicalProfile_def unrepeated_def Canonical_strict strict_sorted_iff)

lemma sortedProfile_canonical:
  assumes "unrepeated p"
  shows "canonicalProfile (sortedProfile p)"
proof -
  let ?fs = "map (\<lambda>f. f\<lparr>fBlocks := sort_key keyOf (fBlocks f)\<rparr>) (Files p)"
  have "map fPath ?fs = map fPath (Files p)" by (simp add: comp_def)
  then have "distinct (map fPath ?fs)" using assms by (simp only: unrepeated_def)
  then have "sorted_wrt (<) (map fPath (sort_key fPath ?fs))" by (rule sort_key_strict)
  moreover have "Canonical (fBlocks f)" if "f \<in> set ?fs" for f
    using that assms by (auto simp: Canonical_strict unrepeated_def intro!: sort_key_strict)
  ultimately show ?thesis unfolding canonicalProfile_def sortedProfile_def by simp
qed

lemma blocksOf_sorted: "mset (blocksOf (Files (sortedProfile p)) q) = mset (blocksOf (Files p) q)"
  unfolding mset_blocksOf_eq sortedProfile_def profile.select_convs mset_sort mset_map
  by (simp add: filter_mset_image_mset multiset.map_comp comp_def)

lemma Merge_unrepeated:
  assumes "unrepeated p"
  shows "Merge [Some p] = sortedProfile p"
proof -
  have "Merge [Some p] = Merge [Some (sortedProfile p)]"
  proof (rule Merge_cong)
    show "set (map fPath (filesOf [Some p])) = set (map fPath (filesOf [Some (sortedProfile p)]))"
      by (simp add: sortedProfile_def image_image)
    show "blockAt (filesOf [Some p]) q k = blockAt (filesOf [Some (sortedProfile p)]) q k" for q k
      unfolding blockAt_def filesOf_simps append_Nil2
      by (rule combineAll_perm [of _ _ k]) (auto simp: blocksOf_sorted)
  qed
  also have "\<dots> = sortedProfile p" using sortedProfile_canonical [OF assms] by (rule Merge_single)
  finally show ?thesis .
qed

lemma sortedProfile_coverage: "profileCoverage (sortedProfile p) = profileCoverage p"
proof -
  have "profileCoverage (sortedProfile p) = profileCoverage \<lparr>Files = map (\<lambda>f. f\<lparr>fBlocks := sort_key keyOf (fBlocks f)\<rparr>) (Files p)\<rparr>"
    unfolding profileCoverage_alt sortedProfile_def profile.select_convs by (rule fold_pairs_perm) simp
  also have "\<dots> = profileCoverage p"
  proof -
    have "fileCoverage (f\<lparr>fBlocks := sort_key keyOf (fBlocks f)\<rparr>) = fileCoverage f" for f :: profFile
      by (rule fileCoverage_perm) simp
    then show ?thesis by (simp add: profileCoverage_alt foldl_map)
  qed
  finally show ?thesis .
qed

text \<open>The counts over merged rows are those of the merged profile.\<close>

lemma newUploadFile_counts:
  "ufCoveredStmts (newUploadFile f) = fst (fileCoverage f)" "ufTotalStmts (newUploadFile f) = snd (fileCoverage f)"
  "rowFile (newUploadFile f) = f" "ufPath (newUploadFile f) = fPath f" "ufBlocks (newUploadFile f) = fBlocks f"
  by (simp_all add: newUploadFile_def rowFile_def split: prod.split)

lemma mergeAll_counts:
  "foldl addCounts (0, 0) (mergeAll ufs) = profileCoverage (Merge [Some \<lparr>Files = map rowFile ufs\<rparr>])"
  by (simp add: mergeAll_alt profileCoverage_alt foldl_map addCounts_def newUploadFile_counts)

section \<open>The read a merge needs\<close>

text \<open>
  The Go interface \<open>partFiles\<close>: the files of the given uploads, in no particular order. What
  merging relies on holds for every answer that obeys it.
\<close>

locale part_files =
  fixes partFiles :: "int list \<Rightarrow> storeError + UploadFile list" and rows :: "int \<Rightarrow> UploadFile list"
  assumes part_rows: "partFiles ids = Inr fs \<Longrightarrow> mset fs = mset (concat (map rows ids))"
    and part_total: "partFiles ids = Inl e \<Longrightarrow> mset ids = mset ids' \<Longrightarrow> partFiles ids' = Inl e"
begin

lemma mset_concat_rows: "mset ids = mset ids' \<Longrightarrow> mset (concat (map rows ids)) = mset (concat (map rows ids'))"
  unfolding mset_concat map_map comp_def sum_mset_sum_list [symmetric] mset_map by (simp only: mset_map [symmetric])

lemma mergedCoverage_perm:
  assumes m: "mset parts = mset parts'" and c: "\<And>i f. f \<in> set (rows i) \<Longrightarrow> counted f"
  shows "mergedCoverage partFiles parts = mergedCoverage partFiles parts'"
proof (cases "length parts = 1")
  case True
  then obtain u where "parts = [u]" by (cases parts) auto
  then show ?thesis using m by simp
next
  case False
  then have l: "length parts' \<noteq> 1" using m by (metis size_mset)
  have ids: "mset (map upID parts) = mset (map upID parts')" using m by simp
  show ?thesis
  proof (cases "partFiles (map upID parts)")
    case (Inl e)
    then show ?thesis using False l part_total [OF Inl ids] by (simp add: mergedCoverage_def)
  next
    case (Inr fs)
    obtain fs' where fs': "partFiles (map upID parts') = Inr fs'"
      using part_total [OF _ ids [symmetric]] Inr by (cases "partFiles (map upID parts')") auto
    have same: "mset fs = mset fs'"
      using part_rows [OF Inr] part_rows [OF fs'] mset_concat_rows [OF ids] by simp
    have all: "\<forall>f \<in> set fs. counted f" "\<forall>f \<in> set fs'. counted f"
      using c mset_eq_setD [OF part_rows [OF Inr]] mset_eq_setD [OF part_rows [OF fs']] by auto
    then have "MergeParts fs = MergeParts fs'"
      by (simp only: MergeParts_mergeAll mergeAll_perm [OF same])
    then show ?thesis using False l Inr fs' by (simp add: mergedCoverage_def)
  qed
qed

end

lemma filesOfUpload_PartFiles: "PartFiles ids s = concat (map (filesOfUpload s) ids)"
  by (simp add: PartFiles_def)

interpretation memFiles: part_files "\<lambda>ids. Inr (PartFiles ids s)" "filesOfUpload s" for s
  by unfold_locales (simp_all add: PartFiles_def)

section \<open>Properties\<close>

text \<open>
  C7: The shortcut of \<open>MergeParts\<close>. On rows counted as the pipeline counts them, returning the
  files of a lone upload as they are gives exactly what merging every block would, and the merged
  files do not depend on the order in which the parts' files are read.
\<close>

theorem merge_parts_shortcut:
  assumes "\<forall>f \<in> set ufs. counted f" and "mset ufs' = mset ufs"
  shows "MergeParts ufs = mergeAll ufs \<and> MergeParts ufs' = MergeParts ufs"
proof -
  have "\<forall>f \<in> set ufs'. counted f" using assms mset_eq_setD [OF assms(2)] by simp
  then show ?thesis using MergeParts_mergeAll assms(1) mergeAll_perm [OF assms(2)] by metis
qed

theorem merge_parts_shortcut_witness:
  "let row = (\<lambda>i p n. (newUploadFile \<lparr>fPath = p, fBlocks = [\<lparr>StartLine = 1, StartCol = 1, EndLine = 2, EndCol = 1, NumStmts = 2, Count = n\<rparr>]\<rparr>)
         \<lparr>ufUploadID := i\<rparr>);
       ufs = [row 4 ''b.go'' 0, row 7 ''a.go'' 1, row 7 ''b.go'' 3]
   in MergeParts ufs = mergeAll ufs \<and> MergeParts (rev ufs) = MergeParts ufs
    \<and> map (\<lambda>f. (ufPath f, ufUploadID f, ufCoveredStmts f)) (MergeParts ufs) = [(''a.go'', 7, 2), (''b.go'', 7, 2)]"
proof -
  let ?row = "\<lambda>i p n. (newUploadFile \<lparr>fPath = p, fBlocks = [\<lparr>StartLine = 1, StartCol = 1, EndLine = 2, EndCol = 1, NumStmts = 2, Count = n\<rparr>]\<rparr>)
         \<lparr>ufUploadID := i\<rparr>"
  let ?ufs = "[?row 4 ''b.go'' 0, ?row 7 ''a.go'' 1, ?row 7 ''b.go'' 3]"
  have "\<forall>f \<in> set ?ufs. counted f" by simp
  from merge_parts_shortcut [OF this, of "rev ?ufs"]
  have "MergeParts ?ufs = mergeAll ?ufs" "MergeParts (rev ?ufs) = MergeParts ?ufs" by simp_all
  moreover have "map (\<lambda>f. (ufPath f, ufUploadID f, ufCoveredStmts f)) (MergeParts ?ufs) = [(''a.go'', 7, 2), (''b.go'', 7, 2)]"
    by code_simp
  ultimately show ?thesis unfolding Let_def by (intro conjI)
qed

text \<open>
  A lone part is its own merge. If a report names no file and no position of a file twice, as
  every parser leaves it, the totals its upload row carries are those of its merged rows, so
  \<open>mergedCoverage\<close> may take them without reading a file.
\<close>

theorem lone_part_totals:
  assumes "unrepeated p" and "0 < i"
    and "upCoveredStmts u = fst (profileCoverage p)" and "upTotalStmts u = snd (profileCoverage p)"
  defines "rows \<equiv> map (\<lambda>f. (newUploadFile f)\<lparr>ufUploadID := i\<rparr>) (Files p)"
  shows "mergedCoverage partFiles [u] = Inr (foldl addCounts (0, 0) (MergeParts rows))"
proof -
  have "\<forall>f \<in> set rows. counted f" using assms(2) by (auto simp: rows_def)
  then have "MergeParts rows = mergeAll rows" by (rule MergeParts_mergeAll)
  moreover have "map rowFile rows = Files p" by (auto simp: rows_def comp_def newUploadFile_def rowFile_def split: prod.split intro: map_idI)
  then have "\<lparr>Files = map rowFile rows\<rparr> = p" by simp
  then have "Merge [Some \<lparr>Files = map rowFile rows\<rparr>] = sortedProfile p" using Merge_unrepeated [OF assms(1)] by (simp only:)
  ultimately show ?thesis
    by (simp add: mergedCoverage_def assms(3,4) mergeAll_counts sortedProfile_coverage)
qed

theorem lone_part_totals_witness:
  "let p = \<lparr>Files = [\<lparr>fPath = ''a.go'', fBlocks = [\<lparr>StartLine = 3, StartCol = 1, EndLine = 4, EndCol = 1, NumStmts = 2, Count = 0\<rparr>,
         \<lparr>StartLine = 1, StartCol = 1, EndLine = 2, EndCol = 1, NumStmts = 3, Count = 1\<rparr>]\<rparr>]\<rparr>;
       rows = map (\<lambda>f. (newUploadFile f)\<lparr>ufUploadID := 5\<rparr>) (Files p);
       u = zeroUpload\<lparr>upID := 5, upCoveredStmts := 3, upTotalStmts := 5\<rparr>
   in mergedCoverage (\<lambda>_. Inr rows) [u] = Inr (3, 5) \<and> foldl addCounts (0, 0) (MergeParts rows) = (3, 5)"
proof -
  let ?p = "\<lparr>Files = [\<lparr>fPath = ''a.go'', fBlocks = [\<lparr>StartLine = 3, StartCol = 1, EndLine = 4, EndCol = 1, NumStmts = 2, Count = 0\<rparr>,
         \<lparr>StartLine = 1, StartCol = 1, EndLine = 2, EndCol = 1, NumStmts = 3, Count = 1\<rparr>]\<rparr>]\<rparr>"
  let ?u = "zeroUpload\<lparr>upID := 5, upCoveredStmts := 3, upTotalStmts := 5\<rparr>"
  have "profileCoverage ?p = (3, 5)" by code_simp
  moreover have "unrepeated ?p" by (simp add: unrepeated_def keyOf_def)
  ultimately have "mergedCoverage (\<lambda>_. Inr (map (\<lambda>f. (newUploadFile f)\<lparr>ufUploadID := 5\<rparr>) (Files ?p))) [?u]
      = Inr (foldl addCounts (0, 0) (MergeParts (map (\<lambda>f. (newUploadFile f)\<lparr>ufUploadID := 5\<rparr>) (Files ?p))))"
    by (intro lone_part_totals) simp_all
  then show ?thesis unfolding Let_def by (simp add: mergedCoverage_def)
qed

end
