(* ===== verification/Baseline.thy ===== *)
theory Baseline
  imports CommitMerge
begin

text \<open>
  Comparison baselines, \<open>internal/core/baseline.go\<close>: the earlier coverage a commit or an upload is
  measured against. The Go interface \<open>passedReports\<close> is a record of the reads it offers; the
  in-memory store answers it.
\<close>

section \<open>The searches\<close>

record passedReports =
  prLatestPassed :: "int \<Rightarrow> string \<Rightarrow> int \<Rightarrow> string \<Rightarrow> storeError + CommitReport"
  prPerPart :: "int \<Rightarrow> string \<Rightarrow> storeError + Upload list"
  prPartFiles :: "int list \<Rightarrow> storeError + UploadFile list"

definition memReads :: "memStore \<Rightarrow> passedReports" where
  "memReads s = \<lparr>prLatestPassed = (\<lambda>r b bef ex. LatestPassedCommitReport r b bef ex s),
     prPerPart = (\<lambda>r sha. Inr (LatestUploadsPerPart r sha s)), prPartFiles = (\<lambda>ids. Inr (PartFiles ids s))\<rparr>"

definition baselineSearchDepth :: nat where
  "baselineSearchDepth = 10"

record comparableBase =
  cbReport :: CommitReport
  cbParts :: "Upload list"

definition carries :: "Upload list \<Rightarrow> string list \<Rightarrow> bool" where
  "carries ups parts \<longleftrightarrow> \<not> list_ex (\<lambda>name. \<not> list_ex (\<lambda>u. upPart u = name) ups) parts"

fun comparableLoop :: "nat \<Rightarrow> passedReports \<Rightarrow> int \<Rightarrow> string \<Rightarrow> string \<Rightarrow> int \<Rightarrow> string list \<Rightarrow> storeError + comparableBase" where
  "comparableLoop 0 db repoID branch commit beforeID parts = Inl ErrNotFound"
| "comparableLoop (Suc n) db repoID branch commit beforeID parts =
     (case prLatestPassed db repoID branch beforeID commit of
        Inl e \<Rightarrow> Inl e
      | Inr cr \<Rightarrow>
          (case prPerPart db repoID (crCommitSHA cr) of
             Inl e \<Rightarrow> Inl e
           | Inr ups \<Rightarrow>
               if carries ups parts then Inr \<lparr>cbReport = cr, cbParts = ups\<rparr>
               else comparableLoop n db repoID branch commit (crID cr) parts))"

definition comparableReport :: "passedReports \<Rightarrow> int \<Rightarrow> string \<Rightarrow> string \<Rightarrow> int \<Rightarrow> string list \<Rightarrow> storeError + comparableBase" where
  "comparableReport = comparableLoop baselineSearchDepth"

definition totalOver :: "comparableBase \<Rightarrow> passedReports \<Rightarrow> string list \<Rightarrow> storeError + rat" where
  "totalOver b db parts =
     (if length (cbParts b) = length parts then Inr (crTotalPct (cbReport b))
      else case mergedCoverage (prPartFiles db) (filter (\<lambda>u. upPart u \<in> set parts) (cbParts b)) of
          Inl e \<Rightarrow> Inl e
        | Inr (covered, tot) \<Rightarrow> Inr (Percent covered tot))"

definition gateDropBase :: "passedReports \<Rightarrow> Repo \<Rightarrow> string \<Rightarrow> string list \<Rightarrow> storeError + rat option" where
  "gateDropBase db repo commit parts =
     (if MaxCoverageDrop (rpGate repo) = None then Inr None
      else case comparableReport db (rpID repo) (rpDefaultBranch repo) commit 0 parts of
          Inl e \<Rightarrow> if e = ErrNotFound then Inr None else Inl e
        | Inr base \<Rightarrow> (case totalOver base db parts of Inl e \<Rightarrow> Inl e | Inr pct \<Rightarrow> Inr (Some pct)))"

definition deltaBase :: "passedReports \<Rightarrow> Repo \<Rightarrow> string \<Rightarrow> string \<Rightarrow> int \<Rightarrow> string list \<Rightarrow> storeError + comparableBase option" where
  "deltaBase db repo branch commit beforeID parts =
     (let prev = comparableReport db (rpID repo) branch commit beforeID parts;
          prev = (if prev = Inl ErrNotFound \<and> branch \<noteq> rpDefaultBranch repo
                  then comparableReport db (rpID repo) (rpDefaultBranch repo) commit beforeID parts else prev)
      in case prev of Inl e \<Rightarrow> if e = ErrNotFound then Inr None else Inl e | Inr b \<Rightarrow> Inr (Some b))"

definition CommitBaseline :: "passedReports \<Rightarrow> Repo \<Rightarrow> CommitReport \<Rightarrow> CommitReport option" where
  "CommitBaseline db repo cr =
     (case prPerPart db (rpID repo) (crCommitSHA cr) of
        Inl _ \<Rightarrow> None
      | Inr ups \<Rightarrow>
          (case deltaBase db repo (crBranch cr) (crCommitSHA cr) (crID cr) (map upPart ups) of
             Inr (Some b) \<Rightarrow> Some (cbReport b)
           | _ \<Rightarrow> None))"

definition ReportBaseline :: "CommitReport list \<Rightarrow> CommitReport option \<times> CommitReport option" where
  "ReportBaseline reps =
     (case reps of [] \<Rightarrow> (None, None)
      | cur # earlier \<Rightarrow> (Some cur, find (\<lambda>cr. crPRID cr = [] \<and> \<not> crGateFailed cr) earlier))"

definition UploadBaseline :: "(int \<Rightarrow> string \<Rightarrow> int \<Rightarrow> string \<Rightarrow> storeError + Upload) \<Rightarrow> Repo \<Rightarrow> Upload \<Rightarrow> Upload option" where
  "UploadBaseline latestPassed repo u =
     (let base = latestPassed (rpID repo) (upBranch u) (upID u) [];
          base = (if isl base \<and> upBranch u \<noteq> rpDefaultBranch repo
                  then latestPassed (rpID repo) (rpDefaultBranch repo) (upID u) (upCommitSHA u) else base)
      in case base of Inl _ \<Rightarrow> None | Inr b \<Rightarrow> Some b)"

lemma carries_set: "carries ups parts \<longleftrightarrow> set parts \<subseteq> upPart ` set ups"
  by (auto simp: carries_def list_ex_iff)

section \<open>The interface\<close>

text \<open>
  What a search relies on, as long as the store is in order (\<open>ok\<close>): \<open>prLatestPassed\<close> answers with
  the newest of the reports it does not pass over, and says \<open>ErrNotFound\<close> only when there is none.
\<close>

locale passed_reports = part_files "prPartFiles db" rows for db :: passedReports and rows +
  fixes ok :: bool and reps :: "CommitReport set" and perPart :: "int \<Rightarrow> string \<Rightarrow> Upload list"
  assumes ids: "ok \<Longrightarrow> cr \<in> reps \<Longrightarrow> 0 < crID cr"
    and passed: "ok \<Longrightarrow> prLatestPassed db r b bef ex = Inr cr \<longleftrightarrow> cr \<in> reps \<and> \<not> passesOver r b bef ex True True cr
      \<and> (\<forall>x \<in> reps. \<not> passesOver r b bef ex True True x \<longrightarrow> crID x \<le> crID cr)"
    and unpassed: "ok \<Longrightarrow> prLatestPassed db r b bef ex = Inl e \<longleftrightarrow> e = ErrNotFound \<and> (\<forall>x \<in> reps. passesOver r b bef ex True True x)"
    and parts: "prPerPart db r sha = Inr (perPart r sha)"
begin

text \<open>The reports a search may use, newest first, and the search over that list.\<close>

definition history :: "int \<Rightarrow> string \<Rightarrow> string \<Rightarrow> int \<Rightarrow> CommitReport list \<Rightarrow> bool" where
  "history r b ex bef xs \<longleftrightarrow> sorted_wrt (\<lambda>x y. crID y < crID x) xs \<and> set xs = {x \<in> reps. \<not> passesOver r b bef ex True True x}"

lemma history_Cons:
  assumes ok and "history r b ex bef (c # xs)"
  shows "history r b ex (crID c) xs" "prLatestPassed db r b bef ex = Inr c"
proof -
  have c: "c \<in> reps" "\<not> passesOver r b bef ex True True c" "\<And>x. x \<in> set xs \<Longrightarrow> crID x < crID c" "sorted_wrt (\<lambda>x y. crID y < crID x) xs"
    and all: "\<And>x. x \<in> reps \<Longrightarrow> \<not> passesOver r b bef ex True True x \<Longrightarrow> x = c \<or> x \<in> set xs"
    and only: "\<And>x. x \<in> set xs \<Longrightarrow> x \<in> reps \<and> \<not> passesOver r b bef ex True True x"
    using assms(2) unfolding history_def by (auto simp: set_eq_iff)
  have "0 < crID c" using assms(1) c(1) by (rule ids)
  have "x \<in> set xs \<longleftrightarrow> x \<in> reps \<and> \<not> passesOver r b (crID c) ex True True x" for x
  proof
    assume "x \<in> set xs"
    then show "x \<in> reps \<and> \<not> passesOver r b (crID c) ex True True x"
      using only [of x] c(3) [of x] by (auto simp: passesOver_def)
  next
    assume x: "x \<in> reps \<and> \<not> passesOver r b (crID c) ex True True x"
    then have lt: "crID x < crID c" using \<open>0 < crID c\<close> by (auto simp: passesOver_def)
    have "\<not> passesOver r b bef ex True True x" using x c(2) lt by (auto simp: passesOver_def)
    then show "x \<in> set xs" using all [of x] x lt by auto
  qed
  then show "history r b ex (crID c) xs" using c(4) by (auto simp: history_def)
  show "prLatestPassed db r b bef ex = Inr c" unfolding passed [OF assms(1)] using c(1-3) all by fastforce
qed

lemma comparableLoop_history:
  "ok \<Longrightarrow> history r b ex bef xs \<Longrightarrow> comparableLoop n db r b ex bef names =
     (case find (\<lambda>c. carries (perPart r (crCommitSHA c)) names) (take n xs) of
        None \<Rightarrow> Inl ErrNotFound
      | Some c \<Rightarrow> Inr \<lparr>cbReport = c, cbParts = perPart r (crCommitSHA c)\<rparr>)"
proof (induction n arbitrary: bef xs)
  case (Suc n)
  show ?case
  proof (cases xs)
    case Nil
    then have "prLatestPassed db r b bef ex = Inl ErrNotFound" using Suc.prems(2) unfolding unpassed [OF Suc.prems(1)] history_def by auto
    then show ?thesis using Nil by simp
  next
    case (Cons c ys)
    note h = history_Cons [OF Suc.prems [unfolded Cons]]
    show ?thesis using Suc.IH [OF Suc.prems(1) h(1)] by (simp add: h(2) parts Cons)
  qed
qed simp

end

section \<open>The in-memory store\<close>

text \<open>The gate-passing builds of a branch itself, newest first, and the parts of their commits.\<close>

definition passedHistory :: "memStore \<Rightarrow> int \<Rightarrow> string \<Rightarrow> string \<Rightarrow> int \<Rightarrow> CommitReport list" where
  "passedHistory s r b ex bef = sort_key (\<lambda>c. - crID c) (filter (\<lambda>c. \<not> passesOver r b bef ex True True c) (valuesOf (reports s)))"

lemma passedHistory_rows:
  assumes "storeInv s"
  shows "sorted_wrt (\<lambda>x y. crID y < crID x) (passedHistory s r b ex bef)"
    and "c \<in> set (passedHistory s r b ex bef) \<longleftrightarrow> (\<exists>k. map_of (reports s) k = Some c) \<and> \<not> passesOver r b bef ex True True c"
proof -
  have k: "keyed crID (crSeq s) (reports s)" using inv_parts(4) [OF assms] by (simp add: reportInv_def)
  let ?xs = "filter (\<lambda>c. \<not> passesOver r b bef ex True True c) (valuesOf (reports s))"
  have "distinct (map crID ?xs)" using keyed_distinct [OF k] by (simp add: distinct_map_filter)
  then have "distinct (map (\<lambda>c. - crID c) ?xs)" by (auto simp: distinct_map inj_on_def)
  then have "sorted_wrt (<) (map (\<lambda>c. - crID c) (passedHistory s r b ex bef))"
    unfolding passedHistory_def by (rule sort_key_strict)
  then show "sorted_wrt (\<lambda>x y. crID y < crID x) (passedHistory s r b ex bef)" by (simp add: sorted_wrt_map)
  show "c \<in> set (passedHistory s r b ex bef) \<longleftrightarrow> (\<exists>k. map_of (reports s) k = Some c) \<and> \<not> passesOver r b bef ex True True c"
    using set_valuesOf [OF keyed_wf [OF k]] by (simp add: passedHistory_def)
qed

lemma memReads_simps [simp]:
  "prLatestPassed (memReads s) r b bef ex = LatestPassedCommitReport r b bef ex s"
  "prPerPart (memReads s) r sha = Inr (LatestUploadsPerPart r sha s)" "prPartFiles (memReads s) = (\<lambda>ids. Inr (PartFiles ids s))"
  by (simp_all add: memReads_def)

interpretation memHistory: passed_reports "memReads s" "filesOfUpload s" "storeInv s"
  "{c. \<exists>k. map_of (reports s) k = Some c}" "\<lambda>r sha. LatestUploadsPerPart r sha s" for s
proof unfold_locales
  assume inv: "storeInv s"
  have k: "keyed crID (crSeq s) (reports s)" using inv_parts(4) [OF inv] by (simp add: reportInv_def)
  show "0 < crID cr" if "cr \<in> {c. \<exists>k. map_of (reports s) k = Some c}" for cr using that k by (auto simp: keyed_def)
  show "prLatestPassed (memReads s) r b bef ex = Inr cr \<longleftrightarrow> cr \<in> {c. \<exists>k. map_of (reports s) k = Some c} \<and> \<not> passesOver r b bef ex True True cr
      \<and> (\<forall>x \<in> {c. \<exists>k. map_of (reports s) k = Some c}. \<not> passesOver r b bef ex True True x \<longrightarrow> crID x \<le> crID cr)" for r b bef ex cr
    unfolding memReads_simps LatestPassedCommitReport_row(1) [OF k] by blast
  show "prLatestPassed (memReads s) r b bef ex = Inl e \<longleftrightarrow>
      e = ErrNotFound \<and> (\<forall>x \<in> {c. \<exists>k. map_of (reports s) k = Some c}. passesOver r b bef ex True True x)" for r b bef ex e
    unfolding memReads_simps LatestPassedCommitReport_row(2) [OF k] by blast
qed (simp_all add: PartFiles_def)

lemma comparableReport_mem:
  assumes "storeInv s"
  shows "comparableReport (memReads s) r b ex bef names =
     (case find (\<lambda>c. carries (LatestUploadsPerPart r (crCommitSHA c) s) names) (take baselineSearchDepth (passedHistory s r b ex bef)) of
        None \<Rightarrow> Inl ErrNotFound
      | Some c \<Rightarrow> Inr \<lparr>cbReport = c, cbParts = LatestUploadsPerPart r (crCommitSHA c) s\<rparr>)"
proof -
  have "memHistory.history s r b ex bef (passedHistory s r b ex bef)"
    unfolding memHistory.history_def using passedHistory_rows [OF assms] by (auto simp: set_eq_iff)
  then show ?thesis unfolding comparableReport_def using memHistory.comparableLoop_history [OF assms] by blast
qed

section \<open>What the commit itself adds\<close>

lemma update_fresh: "map_of m k = None \<Longrightarrow> AList.update k v m = m @ [(k, v)]"
  by (induction m) (auto split: if_splits)

lemma CreateUpload_parts:
  assumes "storeInv s" and "\<not> ofCommit r c u"
  shows "LatestUploadsPerPart r c (snd (CreateUpload now u fs s)) = LatestUploadsPerPart r c s"
proof -
  have k: "keyed upID (upSeq s) (uploads s)" using inv_parts(3) [OF assms(1)] by (simp add: uploadInv_def)
  show ?thesis using assms(2)
    by (auto simp: LatestUploadsPerPart_def CreateUpload_def Let_def update_fresh [OF keyed_fresh [OF k]] valuesOf_def ofCommit_def)
qed

lemma CreateUpload_files:
  assumes "storeInv s" and "u' \<in> set (LatestUploadsPerPart r c s)"
  shows "filesOfUpload (snd (CreateUpload now u fs s)) (upID u') = filesOfUpload s (upID u')"
proof -
  have k: "keyed upID (upSeq s) (uploads s)" using inv_parts(3) [OF assms(1)] by (simp add: uploadInv_def)
  have "upID u' \<le> upSeq s" using LatestUploadsPerPart_rows [OF k, of r c] assms(2) k by (auto simp: keyed_def)
  then show ?thesis by (simp add: filesOfUpload_def CreateUpload_def Let_def)
qed

lemma Upsert_rows:
  assumes "storeInv s" and "commitOf x \<noteq> commitOf cr"
  shows "(\<exists>k. map_of (reports (snd (UpsertCommitReport now cr s))) k = Some x) \<longleftrightarrow> (\<exists>k. map_of (reports s) k = Some x)"
proof -
  have k: "keyed crID (crSeq s) (reports s)" using inv_parts(4) [OF assms(1)] by (simp add: reportInv_def)
  show ?thesis
  proof (cases "commitReportLocked (crRepoID cr) (crCommitSHA cr) s")
    case None
    then show ?thesis using assms(2) row_of_insert [OF keyed_fresh [OF k]] by (auto simp: UpsertCommitReport_def Let_def commitOf_def)
  next
    case (Some y)
    then have y: "commitOf y = commitOf cr" "map_of (reports s) (crID y) = Some y"
      using findVal_Some [OF keyed_wf [OF k]] k by (auto simp: commitReportLocked_def keyed_def commitOf_def)
    have "map_of (reports s) i = Some x \<Longrightarrow> i \<noteq> crID y" for i using y assms(2) by auto
    then show ?thesis using Some assms(2) by (auto simp: UpsertCommitReport_def Let_def commitOf_def split: if_splits)
  qed
qed

lemma Upsert_history:
  assumes "storeInv s" and "crCommitSHA cr = ex" and "ex \<noteq> []"
  shows "passedHistory (snd (UpsertCommitReport now cr s)) r b ex bef = passedHistory s r b ex bef"
proof (rule strict_key_unique [of "\<lambda>c. - crID c"])
  let ?s = "snd (UpsertCommitReport now cr s)"
  have inv: "storeInv ?s" using assms(1) by (rule UpsertCommitReport_inv)
  show "sorted_wrt (<) (map (\<lambda>c. - crID c) (passedHistory ?s r b ex bef))"
    "sorted_wrt (<) (map (\<lambda>c. - crID c) (passedHistory s r b ex bef))"
    using passedHistory_rows(1) [OF inv, of r b ex bef] passedHistory_rows(1) [OF assms(1), of r b ex bef] by (simp_all add: sorted_wrt_map)
  have other: "\<not> passesOver r b bef ex True True x \<Longrightarrow> commitOf x \<noteq> commitOf cr" for x
    using assms(2,3) by (auto simp: passesOver_def commitOf_def)
  show "set (passedHistory ?s r b ex bef) = set (passedHistory s r b ex bef)"
    unfolding set_eq_iff passedHistory_rows(2) [OF inv] passedHistory_rows(2) [OF assms(1)]
    using Upsert_rows [OF assms(1) other] by blast
qed

lemma totalOver_reads:
  assumes "\<And>u. u \<in> set (cbParts b) \<Longrightarrow> filesOfUpload s' (upID u) = filesOfUpload s (upID u)"
  shows "totalOver b (memReads s') names = totalOver b (memReads s) names"
proof -
  have "PartFiles (map upID (filter (\<lambda>u. upPart u \<in> set names) (cbParts b))) s'
      = PartFiles (map upID (filter (\<lambda>u. upPart u \<in> set names) (cbParts b))) s"
    using assms by (auto simp: PartFiles_def intro!: arg_cong [where f = concat] map_cong)
  then show ?thesis by (simp add: totalOver_def mergedCoverage_def)
qed

lemma history_commits: "c \<in> set (take n (passedHistory s r b ex bef)) \<Longrightarrow> ex \<noteq> [] \<Longrightarrow> crCommitSHA c \<noteq> ex"
  by (auto simp: passedHistory_def passesOver_def dest!: in_set_takeD)

lemma find_cong_set: "(\<And>x. x \<in> set xs \<Longrightarrow> P x = Q x) \<Longrightarrow> find P xs = find Q xs"
  by (induction xs) auto

text \<open>The gate's baseline, read off the store.\<close>

lemma gateDropBase_mem:
  assumes "storeInv s" and "MaxCoverageDrop (rpGate repo) \<noteq> None"
  shows "gateDropBase (memReads s) repo commit names =
     (case find (\<lambda>c. carries (LatestUploadsPerPart (rpID repo) (crCommitSHA c) s) names)
        (take baselineSearchDepth (passedHistory s (rpID repo) (rpDefaultBranch repo) commit 0)) of
        None \<Rightarrow> Inr None
      | Some c \<Rightarrow> (case totalOver \<lparr>cbReport = c, cbParts = LatestUploadsPerPart (rpID repo) (crCommitSHA c) s\<rparr> (memReads s) names of
          Inl e \<Rightarrow> Inl e | Inr pct \<Rightarrow> Inr (Some pct)))"
  using assms(2) unfolding gateDropBase_def comparableReport_mem [OF assms(1)]
  by (simp only: if_False split: option.split) simp

text \<open>
  Two stores that differ in one commit at most, in what the searches for its baseline read: the
  merged reports of the others, and their parts with their files.
\<close>

definition sameOthers :: "string \<Rightarrow> int \<Rightarrow> memStore \<Rightarrow> memStore \<Rightarrow> bool" where
  "sameOthers commit r s t \<longleftrightarrow> (\<forall>b bef. passedHistory t r b commit bef = passedHistory s r b commit bef)
     \<and> (\<forall>c. c \<noteq> commit \<longrightarrow> LatestUploadsPerPart r c t = LatestUploadsPerPart r c s
         \<and> (\<forall>u \<in> set (LatestUploadsPerPart r c s). filesOfUpload t (upID u) = filesOfUpload s (upID u)))"

lemma comparableReport_others:
  assumes "storeInv s" "storeInv t" and so: "sameOthers commit r s t" and "commit \<noteq> []" and names: "set names' = set names"
  shows "comparableReport (memReads t) r b commit bef names' = comparableReport (memReads s) r b commit bef names"
proof -
  let ?h = "passedHistory s r b commit bef"
  have h: "passedHistory t r b commit bef = ?h" using so by (simp add: sameOthers_def)
  have parts: "LatestUploadsPerPart r (crCommitSHA c) t = LatestUploadsPerPart r (crCommitSHA c) s"
    if "c \<in> set (take baselineSearchDepth ?h)" for c
    using history_commits [OF that assms(4)] so by (simp add: sameOthers_def)
  have f: "find (\<lambda>c. carries (LatestUploadsPerPart r (crCommitSHA c) t) names') (take baselineSearchDepth ?h)
      = find (\<lambda>c. carries (LatestUploadsPerPart r (crCommitSHA c) s) names) (take baselineSearchDepth ?h)"
    by (rule find_cong_set) (simp add: parts carries_set names)
  show ?thesis unfolding comparableReport_mem [OF assms(1)] comparableReport_mem [OF assms(2)] h f
  proof (cases "find (\<lambda>c. carries (LatestUploadsPerPart r (crCommitSHA c) s) names) (take baselineSearchDepth ?h)")
    case (Some c)
    then have "c \<in> set (take baselineSearchDepth ?h)" by (metis find_Some_iff nth_mem)
    then show "(case find (\<lambda>c. carries (LatestUploadsPerPart r (crCommitSHA c) s) names) (take baselineSearchDepth ?h) of
        None \<Rightarrow> Inl ErrNotFound | Some c \<Rightarrow> Inr \<lparr>cbReport = c, cbParts = LatestUploadsPerPart r (crCommitSHA c) t\<rparr>)
      = (case find (\<lambda>c. carries (LatestUploadsPerPart r (crCommitSHA c) s) names) (take baselineSearchDepth ?h) of
        None \<Rightarrow> Inl ErrNotFound | Some c \<Rightarrow> Inr \<lparr>cbReport = c, cbParts = LatestUploadsPerPart r (crCommitSHA c) s\<rparr>)"
      by (simp add: Some parts)
  qed simp
qed

lemma comparableReport_found:
  assumes "storeInv s" and "commit \<noteq> []" and "comparableReport (memReads s) r b commit bef names = Inr base"
  obtains c where "c \<noteq> commit" "cbParts base = LatestUploadsPerPart r c s"
proof -
  obtain c where c: "find (\<lambda>c. carries (LatestUploadsPerPart r (crCommitSHA c) s) names) (take baselineSearchDepth (passedHistory s r b commit bef)) = Some c"
    "base = \<lparr>cbReport = c, cbParts = LatestUploadsPerPart r (crCommitSHA c) s\<rparr>"
    using assms(3) unfolding comparableReport_mem [OF assms(1)] by (auto split: option.splits)
  then have "c \<in> set (take baselineSearchDepth (passedHistory s r b commit bef))" by (metis find_Some_iff nth_mem)
  then have "crCommitSHA c \<noteq> commit" using assms(2) by (rule history_commits)
  then show ?thesis by (rule that) (simp add: c(2))
qed

lemma totalOver_others:
  assumes "sameOthers commit r s t" and "c \<noteq> commit" and "cbParts base = LatestUploadsPerPart r c s"
    and "set names' = set names" and "length names' = length names"
  shows "totalOver base (memReads t) names' = totalOver base (memReads s) names"
proof -
  have "totalOver base (memReads t) names = totalOver base (memReads s) names"
    using assms(1-3) by (intro totalOver_reads) (simp add: sameOthers_def)
  moreover have "totalOver base (memReads t) names' = totalOver base (memReads t) names"
    unfolding totalOver_def assms(4,5) ..
  ultimately show ?thesis by simp
qed

text \<open>Both baselines of a commit are the same in two such stores, in whatever order the parts are named.\<close>

lemma gateDropBase_others:
  assumes "storeInv s" "storeInv t" "sameOthers commit (rpID repo) s t" "commit \<noteq> []" "set names' = set names" "length names' = length names"
  shows "gateDropBase (memReads t) repo commit names' = gateDropBase (memReads s) repo commit names"
proof -
  note c = comparableReport_others [OF assms(1-5), of "rpDefaultBranch repo" 0]
  have "totalOver base (memReads t) names' = totalOver base (memReads s) names"
    if "comparableReport (memReads s) (rpID repo) (rpDefaultBranch repo) commit 0 names = Inr base" for base
    using comparableReport_found [OF assms(1,4) that] totalOver_others [OF assms(3) _ _ assms(5,6)] by metis
  then show ?thesis unfolding gateDropBase_def c by (auto split: sum.splits)
qed

lemma deltaBase_others:
  assumes "storeInv s" "storeInv t" "sameOthers commit (rpID repo) s t" "commit \<noteq> []" "set names' = set names"
  shows "deltaBase (memReads t) repo branch commit bef names' = deltaBase (memReads s) repo branch commit bef names"
  unfolding deltaBase_def comparableReport_others [OF assms] ..

lemma deltaBase_found:
  assumes "storeInv s" and "commit \<noteq> []" and "deltaBase (memReads s) repo branch commit bef names = Inr (Some base)"
  obtains c where "c \<noteq> commit" "cbParts base = LatestUploadsPerPart (rpID repo) c s"
proof -
  have "\<exists>b. comparableReport (memReads s) (rpID repo) b commit bef names = Inr base"
    using assms(3) by (auto simp: deltaBase_def Let_def split: sum.splits if_splits)
  then show ?thesis using comparableReport_found [OF assms(1,2)] that by metis
qed

lemma sameOthers_refl: "sameOthers commit r s s"
  by (simp add: sameOthers_def)

lemma sameOthers_trans: "sameOthers commit r s t \<Longrightarrow> sameOthers commit r t w \<Longrightarrow> sameOthers commit r s w"
  by (simp add: sameOthers_def)

lemma CreateUpload_others:
  assumes "storeInv s" and "upCommitSHA u = commit"
  shows "sameOthers commit r s (snd (CreateUpload now u fs s))"
  unfolding sameOthers_def
  using assms by (auto simp: CreateUpload_parts CreateUpload_files ofCommit_def) (simp add: passedHistory_def CreateUpload_def Let_def)

lemma Upsert_others:
  assumes "storeInv s" and "crCommitSHA cr = commit" and "commit \<noteq> []"
  shows "sameOthers commit r s (snd (UpsertCommitReport now cr s))"
proof -
  have "uploads (snd (UpsertCommitReport now cr s)) = uploads s" "filesOfUpload (snd (UpsertCommitReport now cr s)) = filesOfUpload s"
    by (auto simp: UpsertCommitReport_def Let_def filesOfUpload_def fun_eq_iff split: option.split)
  then show ?thesis using Upsert_history [OF assms] by (simp add: sameOthers_def LatestUploadsPerPart_def)
qed

lemma find_take_first: "find P (take n xs) = Some c \<Longrightarrow> \<exists>ys zs. xs = ys @ c # zs \<and> P c \<and> (\<forall>y \<in> set ys. \<not> P y)"
proof (induction n arbitrary: xs)
  case (Suc n)
  then obtain x xs' where xs: "xs = x # xs'" by (cases xs) auto
  show ?case
  proof (cases "P x")
    case True
    then have "c = x" using Suc.prems by (simp add: xs)
    then show ?thesis using True unfolding xs by (intro exI [of _ "[]"] exI [of _ "xs'"]) simp
  next
    case False
    then obtain ys zs where "xs' = ys @ c # zs" "P c" "\<forall>y \<in> set ys. \<not> P y" using Suc.IH [of xs'] Suc.prems by (auto simp: xs)
    then have "xs = (x # ys) @ c # zs \<and> P c \<and> (\<forall>y \<in> set (x # ys). \<not> P y)" using False by (simp add: xs)
    then show ?thesis by blast
  qed
qed simp

lemma find_newest:
  assumes "sorted_wrt (\<lambda>x y. f y < f x) xs" and "find P (take n xs) = Some c"
  shows "c \<in> set xs \<and> P c \<and> (\<forall>x \<in> set xs. (f x :: int) > f c \<longrightarrow> \<not> P x)"
proof -
  obtain ys zs where xs: "xs = ys @ c # zs" "P c" "\<forall>y \<in> set ys. \<not> P y"
    using find_take_first [OF assms(2)] by blast
  have "\<forall>z \<in> set zs. f z < f c" using assms(1) unfolding xs(1) sorted_wrt_append by simp
  then show ?thesis using xs(2,3) unfolding xs(1) by (auto dest: less_asym)
qed

text \<open>
  What the gate's drop rule compares with. A baseline total is that of a stored report of the
  default branch itself: gate-passing, no pull request's, not the commit's own, carrying every
  part compared, and no newer report like it carries them; the total is counted over these parts.
\<close>

theorem gate_baseline:
  assumes "storeInv s" and "gateDropBase (memReads s) repo commit names = Inr (Some pct)"
  shows "\<exists>c k. map_of (reports s) k = Some c \<and> crRepoID c = rpID repo \<and> crBranch c = rpDefaultBranch repo
    \<and> \<not> crGateFailed c \<and> crPRID c = [] \<and> (crCommitSHA c \<noteq> commit \<or> commit = [])
    \<and> set names \<subseteq> upPart ` set (LatestUploadsPerPart (rpID repo) (crCommitSHA c) s)
    \<and> (\<forall>d \<in> set (passedHistory s (rpID repo) (rpDefaultBranch repo) commit 0).
        crID d > crID c \<longrightarrow> \<not> set names \<subseteq> upPart ` set (LatestUploadsPerPart (rpID repo) (crCommitSHA d) s))
    \<and> totalOver \<lparr>cbReport = c, cbParts = LatestUploadsPerPart (rpID repo) (crCommitSHA c) s\<rparr> (memReads s) names = Inr pct"
proof -
  let ?h = "passedHistory s (rpID repo) (rpDefaultBranch repo) commit 0"
  have on: "MaxCoverageDrop (rpGate repo) \<noteq> None" using assms(2) by (auto simp: gateDropBase_def split: if_splits)
  obtain c where f: "find (\<lambda>c. carries (LatestUploadsPerPart (rpID repo) (crCommitSHA c) s) names) (take baselineSearchDepth ?h) = Some c"
    and t: "totalOver \<lparr>cbReport = c, cbParts = LatestUploadsPerPart (rpID repo) (crCommitSHA c) s\<rparr> (memReads s) names = Inr pct"
    using assms(2) unfolding gateDropBase_mem [OF assms(1) on] by (auto split: option.splits sum.splits)
  note n = find_newest [OF passedHistory_rows(1) [OF assms(1)] f, unfolded carries_set]
  have "\<exists>k. map_of (reports s) k = Some c" "\<not> passesOver (rpID repo) (rpDefaultBranch repo) 0 commit True True c"
    using n passedHistory_rows(2) [OF assms(1)] by blast+
  then show ?thesis using n t by (auto simp: passesOver_def)
qed

theorem gate_baseline_witness:
  "let s = snd (UpsertCommitReport 7 (zeroCommitReport\<lparr>crRepoID := 1, crCommitSHA := ''a'', crBranch := ''main'', crTotalPct := 60\<rparr>)
         (snd (CreateUpload 5 (zeroUpload\<lparr>upRepoID := 1, upCommitSHA := ''a'', upPart := ''unit''\<rparr>) [] newStore)));
       repo = zeroRepo\<lparr>rpID := 1, rpDefaultBranch := ''main'', rpGate := zeroGate\<lparr>MaxCoverageDrop := Some 0\<rparr>\<rparr>
   in gateDropBase (memReads s) repo ''b'' [''unit''] = Inr (Some 60)
    \<and> (\<exists>c k. map_of (reports s) k = Some c \<and> crBranch c = ''main''
        \<and> totalOver \<lparr>cbReport = c, cbParts = LatestUploadsPerPart 1 (crCommitSHA c) s\<rparr> (memReads s) [''unit''] = Inr 60)"
proof -
  let ?s = "snd (UpsertCommitReport 7 (zeroCommitReport\<lparr>crRepoID := 1, crCommitSHA := ''a'', crBranch := ''main'', crTotalPct := 60\<rparr>)
         (snd (CreateUpload 5 (zeroUpload\<lparr>upRepoID := 1, upCommitSHA := ''a'', upPart := ''unit''\<rparr>) [] newStore)))"
  let ?repo = "zeroRepo\<lparr>rpID := 1, rpDefaultBranch := ''main'', rpGate := zeroGate\<lparr>MaxCoverageDrop := Some 0\<rparr>\<rparr>"
  have inv: "storeInv ?s" by (intro UpsertCommitReport_inv CreateUpload_inv storeInv_new)
  have base: "gateDropBase (memReads ?s) ?repo ''b'' [''unit''] = Inr (Some 60)" by code_simp
  have repo: "rpID ?repo = 1" "rpDefaultBranch ?repo = ''main''" by simp_all
  show ?thesis using base gate_baseline [OF inv base] unfolding Let_def repo by blast
qed

text \<open>
  A commit cannot move its own baseline. Whatever is uploaded or recomputed for the commit
  itself, the gate compares it with the same total as before.
\<close>

theorem own_commit_keeps_baseline:
  assumes "storeInv s" and "commit \<noteq> []" and "crCommitSHA cr = commit" and "upCommitSHA u = commit"
  shows "gateDropBase (memReads (snd (UpsertCommitReport now cr s))) repo commit names = gateDropBase (memReads s) repo commit names
    \<and> gateDropBase (memReads (snd (CreateUpload now u fs s))) repo commit names = gateDropBase (memReads s) repo commit names"
  by (intro conjI gateDropBase_others assms Upsert_others CreateUpload_others UpsertCommitReport_inv CreateUpload_inv) simp_all

theorem own_commit_keeps_baseline_witness:
  "let s = snd (UpsertCommitReport 7 (zeroCommitReport\<lparr>crRepoID := 1, crCommitSHA := ''a'', crBranch := ''main'', crTotalPct := 60\<rparr>)
         (snd (CreateUpload 5 (zeroUpload\<lparr>upRepoID := 1, upCommitSHA := ''a'', upPart := ''unit''\<rparr>) [] newStore)));
       repo = zeroRepo\<lparr>rpID := 1, rpDefaultBranch := ''main'', rpGate := zeroGate\<lparr>MaxCoverageDrop := Some 0\<rparr>\<rparr>;
       cr = zeroCommitReport\<lparr>crRepoID := 1, crCommitSHA := ''b'', crBranch := ''main'', crTotalPct := 90\<rparr>
   in gateDropBase (memReads (snd (UpsertCommitReport 9 cr s))) repo ''b'' [''unit''] = Inr (Some 60)
    \<and> gateDropBase (memReads s) repo ''b'' [''unit''] = Inr (Some 60)"
proof -
  let ?s = "snd (UpsertCommitReport 7 (zeroCommitReport\<lparr>crRepoID := 1, crCommitSHA := ''a'', crBranch := ''main'', crTotalPct := 60\<rparr>)
         (snd (CreateUpload 5 (zeroUpload\<lparr>upRepoID := 1, upCommitSHA := ''a'', upPart := ''unit''\<rparr>) [] newStore)))"
  let ?repo = "zeroRepo\<lparr>rpID := 1, rpDefaultBranch := ''main'', rpGate := zeroGate\<lparr>MaxCoverageDrop := Some 0\<rparr>\<rparr>"
  let ?cr = "zeroCommitReport\<lparr>crRepoID := 1, crCommitSHA := ''b'', crBranch := ''main'', crTotalPct := 90\<rparr>"
  have inv: "storeInv ?s" by (intro UpsertCommitReport_inv CreateUpload_inv storeInv_new)
  have base: "gateDropBase (memReads ?s) ?repo ''b'' [''unit''] = Inr (Some 60)" by code_simp
  have same: "gateDropBase (memReads (snd (UpsertCommitReport 9 ?cr ?s))) ?repo ''b'' [''unit''] = gateDropBase (memReads ?s) ?repo ''b'' [''unit'']"
    by (rule own_commit_keeps_baseline [OF inv, where u = "zeroUpload\<lparr>upCommitSHA := ''b''\<rparr>", THEN conjunct1]) simp_all
  show ?thesis unfolding Let_def same base by simp
qed

end
