(* ===== verification/BlocksJson.thy ===== *)
theory BlocksJson
  imports Profile GoStrings
begin

text \<open>
  Reading stored blocks back, \<open>internal/profile/blocksjson.go\<close>: a scanner for the JSON the store
  writes, with a fast path for the exact text Postgres prints, and \<open>json.Unmarshal\<close> for everything
  else. The scanner's position in the data is the data that is left, and every operation returns
  what it leaves. The specification is the JSON grammar of arrays of such objects.
\<close>

section \<open>The scanner\<close>

definition jsonSpace :: "char \<Rightarrow> bool" where
  "jsonSpace c \<longleftrightarrow> c = CHR 0x20 \<or> c = CHR 0x09 \<or> c = CHR 0x0A \<or> c = CHR 0x0D"

definition skipSpace :: "string \<Rightarrow> string" where
  "skipSpace s = dropWhile jsonSpace s"

definition takeByte :: "char \<Rightarrow> string \<Rightarrow> bool \<times> string" where
  "takeByte c s = (case skipSpace s of [] \<Rightarrow> (False, []) | x # r \<Rightarrow> if x = c then (True, r) else (False, x # r))"

definition maxIntDigits :: nat where
  "maxIntDigits = 9 * 64 div 32"

definition scanDigits :: "string \<Rightarrow> (int \<times> string) option" where
  "scanDigits s =
     (let ds = takeWhile isDigit s;
          v = foldl (\<lambda>v c. wrap64 (v * 10 + digitVal c)) 0 ds;
          n = length ds
      in if n = 0 \<or> n > maxIntDigits \<or> (n > 1 \<and> hd ds = CHR ''0'') then None else Some (v, dropWhile isDigit s))"

definition scanInt :: "string \<Rightarrow> (int \<times> string) option" where
  "scanInt s =
     (let (neg, r) = takeByte CHR ''-'' s
      in case scanDigits r of None \<Rightarrow> None | Some (v, r') \<Rightarrow> Some (if neg then - v else v, r'))"

abbreviation quoteChar :: char where
  "quoteChar \<equiv> CHR 0x22"

fun keyBody :: "string \<Rightarrow> (string \<times> string) option" where
  "keyBody [] = None"
| "keyBody (c # s) =
     (if c = quoteChar then Some ([], s)
      else if c = CHR 0x5C \<or> byteOf c < 32 then None
      else case keyBody s of None \<Rightarrow> None | Some (k, r) \<Rightarrow> Some (c # k, r))"

definition scanKey :: "string \<Rightarrow> (string \<times> string) option" where
  "scanKey s = (case takeByte quoteChar s of (False, _) \<Rightarrow> None | (True, r) \<Rightarrow> keyBody r)"

abbreviation zeroBlock :: block where
  "zeroBlock \<equiv> \<lparr>StartLine = 0, StartCol = 0, EndLine = 0, EndCol = 0, NumStmts = 0, Count = 0\<rparr>"

definition setField :: "string \<Rightarrow> int \<Rightarrow> block \<Rightarrow> block option" where
  "setField key v b =
     (if key = ''start_line'' then Some (b\<lparr>StartLine := v\<rparr>)
      else if key = ''start_col'' then Some (b\<lparr>StartCol := v\<rparr>)
      else if key = ''end_line'' then Some (b\<lparr>EndLine := v\<rparr>)
      else if key = ''end_col'' then Some (b\<lparr>EndCol := v\<rparr>)
      else if key = ''num_stmts'' then Some (b\<lparr>NumStmts := v\<rparr>)
      else if key = ''count'' then Some (b\<lparr>Count := v\<rparr>)
      else None)"

lemma skipSpace_length: "length (skipSpace s) \<le> length s"
  by (simp add: skipSpace_def length_dropWhile_le)

lemma takeByte_length:
  "takeByte c s = (True, r) \<Longrightarrow> length r < length s" "takeByte c s = (False, r) \<Longrightarrow> r = skipSpace s"
  using skipSpace_length [of s] by (auto simp: takeByte_def split: list.splits if_splits)

lemma takeByte_le: "takeByte c s = (q, r) \<Longrightarrow> length r \<le> length s"
  using takeByte_length [of c s r] skipSpace_length [of s] by (cases q) auto

lemma keyBody_length: "keyBody s = Some (k, r) \<Longrightarrow> length r < length s"
  by (induction s arbitrary: k) (auto split: if_splits option.splits simp: less_Suc_eq)

lemma scanKey_length: "scanKey s = Some (k, r) \<Longrightarrow> length r < length s"
  using keyBody_length takeByte_length(1) by (fastforce simp: scanKey_def split: prod.splits bool.splits)

lemma scanDigits_length: "scanDigits s = Some (v, r) \<Longrightarrow> length r \<le> length s"
  by (auto simp: scanDigits_def Let_def length_dropWhile_le split: if_splits)

lemma scanInt_length: "scanInt s = Some (v, r) \<Longrightarrow> length r \<le> length s"
proof -
  assume a: "scanInt s = Some (v, r)"
  obtain neg t where t: "takeByte CHR ''-'' s = (neg, t)" by fastforce
  have "length t \<le> length s" using takeByte_length [of _ s t] skipSpace_length [of s] t by (cases neg) fastforce+
  then show ?thesis using a scanDigits_length by (fastforce simp: scanInt_def t split: option.splits)
qed

definition scanMember :: "block \<Rightarrow> string \<Rightarrow> (block \<times> string) option" where
  "scanMember b s =
     (case scanKey s of None \<Rightarrow> None
      | Some (key, s1) \<Rightarrow> (case takeByte CHR '':'' s1 of (False, _) \<Rightarrow> None
      | (True, s2) \<Rightarrow> (case scanInt s2 of None \<Rightarrow> None
      | Some (v, s3) \<Rightarrow> (case setField key v b of None \<Rightarrow> None | Some b' \<Rightarrow> Some (b', s3)))))"

lemma scanMember_length: "scanMember b s = Some (b', r) \<Longrightarrow> length r < length s"
  by (auto simp: scanMember_def split: option.splits prod.splits bool.splits
      dest!: scanKey_length scanInt_length takeByte_length(1))

function scanMembers :: "block \<Rightarrow> string \<Rightarrow> (block \<times> string) option" where
  "scanMembers b s =
     (case scanMember b s of None \<Rightarrow> None
      | Some (b', s1) \<Rightarrow> (case takeByte CHR '','' s1 of
          (True, s2) \<Rightarrow> scanMembers b' s2
        | (False, s2) \<Rightarrow> (case takeByte CHR ''}'' s2 of (True, s3) \<Rightarrow> Some (b', s3) | (False, _) \<Rightarrow> None)))"
  by pat_completeness auto
termination
  by (relation "measure (\<lambda>(_, s). length s)") (auto dest!: scanMember_length takeByte_length(1) [OF sym])

declare scanMembers.simps [simp del]

definition generalBlock :: "string \<Rightarrow> (block \<times> string) option" where
  "generalBlock s =
     (case takeByte CHR ''{'' s of (False, _) \<Rightarrow> None
      | (True, s1) \<Rightarrow> (case takeByte CHR ''}'' s1 of
          (True, s2) \<Rightarrow> Some (zeroBlock, s2)
        | (False, s2) \<Rightarrow> scanMembers zeroBlock s2))"

definition jsonbKeys :: "string list" where
  "jsonbKeys = [CHR ''{'' # quoteChar # ''count'' @ quoteChar # '': '',
     '', '' @ quoteChar # ''end_col'' @ quoteChar # '': '', '', '' @ quoteChar # ''end_line'' @ quoteChar # '': '',
     '', '' @ quoteChar # ''num_stmts'' @ quoteChar # '': '', '', '' @ quoteChar # ''start_col'' @ quoteChar # '': '',
     '', '' @ quoteChar # ''start_line'' @ quoteChar # '': '']"

fun jsonbValues :: "string list \<Rightarrow> string \<Rightarrow> (int list \<times> string) option" where
  "jsonbValues [] s = Some ([], s)"
| "jsonbValues (lit # lits) s =
     (if \<not> hasPrefix s lit then None
      else case scanDigits (drop (length lit) s) of None \<Rightarrow> None
        | Some (n, r) \<Rightarrow> (case jsonbValues lits r of None \<Rightarrow> None | Some (vs, r') \<Rightarrow> Some (n # vs, r')))"

text \<open>A block in Postgres' own layout; \<open>None\<close> puts the scanner back behind the leading space.\<close>

definition jsonbBlock :: "string \<Rightarrow> (block \<times> string) option" where
  "jsonbBlock s =
     (case jsonbValues jsonbKeys (skipSpace s) of None \<Rightarrow> None
      | Some (v, r) \<Rightarrow> (case r of [] \<Rightarrow> None
        | c # r' \<Rightarrow> if c \<noteq> CHR ''}'' then None
           else Some (\<lparr>StartLine = v ! 5, StartCol = v ! 4, EndLine = v ! 2, EndCol = v ! 1, NumStmts = v ! 3, Count = v ! 0\<rparr>, r')))"

definition scanBlock :: "string \<Rightarrow> (block \<times> string) option" where
  "scanBlock s = (case jsonbBlock s of Some br \<Rightarrow> Some br | None \<Rightarrow> generalBlock (skipSpace s))"

lemma scanMembers_length: "scanMembers b s = Some (b', r) \<Longrightarrow> length r < length s"
proof (induction b s rule: scanMembers.induct)
  case (1 b s)
  obtain b1 s1 where m: "scanMember b s = Some (b1, s1)" using "1.prems" by (cases "scanMember b s") (auto simp: scanMembers.simps)
  consider (more) s2 where "takeByte CHR '','' s1 = (True, s2)" | (last) s2 where "takeByte CHR '','' s1 = (False, s2)"
    by (cases "takeByte CHR '','' s1") (metis (full_types))
  then show ?case
  proof cases
    case more
    have "length r < length s2"
      using "1.IH" [OF m refl more [symmetric] refl] "1.prems" by (simp add: scanMembers.simps [of b s] m more)
    then show ?thesis using scanMember_length [OF m] takeByte_length(1) [OF more] by linarith
  next
    case last
    then have "takeByte CHR ''}'' s2 = (True, r)" using "1.prems"
      by (cases "takeByte CHR ''}'' s2") (auto simp: scanMembers.simps [of b s] m split: bool.splits)
    from takeByte_length(1) [OF this] show ?thesis using scanMember_length [OF m] takeByte_le [OF last] by linarith
  qed
qed

lemma scanDigits_le: "jsonbValues lits s = Some (vs, r) \<Longrightarrow> length r \<le> length s"
  by (induction lits s arbitrary: vs rule: jsonbValues.induct)
    (fastforce dest: scanDigits_length split: if_splits option.splits)+

lemma jsonbBlock_length: "jsonbBlock s = Some (b, r) \<Longrightarrow> length r < length s"
  using skipSpace_length [of s]
  by (fastforce simp: jsonbBlock_def dest: scanDigits_le split: option.splits list.splits if_splits)

lemma generalBlock_length: "generalBlock s = Some (b, r) \<Longrightarrow> length r < length s"
proof -
  assume a: "generalBlock s = Some (b, r)"
  obtain s1 where s1: "takeByte CHR ''{'' s = (True, s1)" using a
    by (cases "takeByte CHR ''{'' s") (auto simp: generalBlock_def split: bool.splits)
  consider s2 where "takeByte CHR ''}'' s1 = (True, s2)" | s2 where "takeByte CHR ''}'' s1 = (False, s2)"
    by (cases "takeByte CHR ''}'' s1") (metis (full_types))
  then show ?thesis
    using a takeByte_length [of _ s1] takeByte_length(1) [OF s1] scanMembers_length [of zeroBlock _ b r] skipSpace_length [of s1]
    by cases (fastforce simp: generalBlock_def s1)+
qed

lemma scanBlock_length: "scanBlock s = Some (b, r) \<Longrightarrow> length r < length s"
  using jsonbBlock_length generalBlock_length [of "skipSpace s" b r] skipSpace_length [of s]
  by (fastforce simp: scanBlock_def split: option.splits)

function scanElements :: "string \<Rightarrow> (block list \<times> string) option" where
  "scanElements s =
     (case scanBlock s of None \<Rightarrow> None
      | Some (b, s1) \<Rightarrow> (case takeByte CHR '']'' s1 of
          (True, s2) \<Rightarrow> Some ([b], s2)
        | (False, s2) \<Rightarrow> (case takeByte CHR '','' s2 of
            (False, _) \<Rightarrow> None
          | (True, s3) \<Rightarrow> (case scanElements s3 of None \<Rightarrow> None | Some (bs, r) \<Rightarrow> Some (b # bs, r)))))"
  by pat_completeness auto
termination
  by (relation "measure length") (auto dest!: scanBlock_length takeByte_length(1) [OF sym] takeByte_le [OF sym])

declare scanElements.simps [simp del]

definition scanBlocks :: "string \<Rightarrow> block list option" where
  "scanBlocks data =
     (case takeByte CHR ''['' data of (False, _) \<Rightarrow> None
      | (True, s) \<Rightarrow> (case takeByte CHR '']'' s of
          (True, r) \<Rightarrow> if skipSpace r = [] then Some [] else None
        | (False, s') \<Rightarrow> (case scanElements s' of None \<Rightarrow> None
            | Some (bs, r) \<Rightarrow> if skipSpace r = [] then Some bs else None)))"

definition UnmarshalBlocks :: "(string \<Rightarrow> 'e + block list) \<Rightarrow> string \<Rightarrow> 'e + block list" where
  "UnmarshalBlocks unmarshal data = (case scanBlocks data of Some blocks \<Rightarrow> Inr blocks | None \<Rightarrow> unmarshal data)"

section \<open>The grammar\<close>

text \<open>
  The JSON texts the scanner is for, from the grammar of RFC 8259: white space, an integer of at
  most 18 digits with no fraction and exponent, an object with the six keys as often as one likes,
  the last value of a key counting, and an array of such objects.
\<close>

definition jsonWs :: "string \<Rightarrow> bool" where
  "jsonWs w \<longleftrightarrow> list_all jsonSpace w"

definition jsonNat :: "string \<Rightarrow> bool" where
  "jsonNat ds \<longleftrightarrow> ds \<noteq> [] \<and> list_all isDigit ds \<and> (1 < length ds \<longrightarrow> hd ds \<noteq> CHR ''0'') \<and> length ds \<le> 18"

inductive intText :: "string \<Rightarrow> int \<Rightarrow> bool" where
  plainInt: "jsonNat ds \<Longrightarrow> intText ds (decimal ds)"
| minusInt: "jsonNat ds \<Longrightarrow> intText (CHR ''-'' # ds) (- decimal ds)"

inductive memberText :: "block \<Rightarrow> string \<Rightarrow> block \<Rightarrow> bool" where
  memberText: "list_all jsonWs [w1, w2, w3, w4] \<Longrightarrow> intText t v \<Longrightarrow> setField key v b = Some b' \<Longrightarrow>
    memberText b (w1 @ quoteChar # key @ quoteChar # w2 @ CHR '':'' # w3 @ t @ w4) b'"

inductive membersText :: "block \<Rightarrow> string \<Rightarrow> block \<Rightarrow> bool" where
  memberLast: "memberText b m b' \<Longrightarrow> membersText b m b'"
| memberMore: "memberText b m b' \<Longrightarrow> membersText b' ms b'' \<Longrightarrow> membersText b (m @ CHR '','' # ms) b''"

inductive objectText :: "string \<Rightarrow> block \<Rightarrow> bool" where
  objectEmpty: "jsonWs w1 \<Longrightarrow> jsonWs w2 \<Longrightarrow> objectText (w1 @ CHR ''{'' # w2 @ ''}'') zeroBlock"
| objectMembers: "jsonWs w1 \<Longrightarrow> membersText zeroBlock ms b \<Longrightarrow> objectText (w1 @ CHR ''{'' # ms @ ''}'') b"

inductive elementsText :: "string \<Rightarrow> block list \<Rightarrow> bool" where
  elementLast: "objectText ob b \<Longrightarrow> jsonWs w \<Longrightarrow> elementsText (ob @ w) [b]"
| elementMore: "objectText ob b \<Longrightarrow> jsonWs w \<Longrightarrow> elementsText es bs \<Longrightarrow> elementsText (ob @ w @ CHR '','' # es) (b # bs)"

inductive arrayText :: "string \<Rightarrow> block list \<Rightarrow> bool" where
  arrayEmpty: "list_all jsonWs [w1, w2, w3] \<Longrightarrow> arrayText (w1 @ CHR ''['' # w2 @ CHR '']'' # w3) []"
| arrayElements: "jsonWs w1 \<Longrightarrow> elementsText es bs \<Longrightarrow> jsonWs w2 \<Longrightarrow> arrayText (w1 @ CHR ''['' # es @ CHR '']'' # w2) bs"

section \<open>What the scanner's steps read\<close>

lemma jsonWs_simps [simp]: "jsonWs []" "jsonWs (c # w) \<longleftrightarrow> jsonSpace c \<and> jsonWs w" "jsonWs (v @ w) \<longleftrightarrow> jsonWs v \<and> jsonWs w"
  by (simp_all add: jsonWs_def)

lemma skipSpace_ws [simp]: "jsonWs w \<Longrightarrow> skipSpace (w @ s) = skipSpace s"
  by (induction w) (auto simp: skipSpace_def)

lemma skipSpace_stop: "\<not> jsonSpace c \<Longrightarrow> skipSpace (c # s) = c # s" "skipSpace [] = []"
  by (simp_all add: skipSpace_def)

lemma skipSpace_split: "\<exists>w. jsonWs w \<and> s = w @ skipSpace s"
  unfolding jsonWs_def skipSpace_def list_all_iff using takeWhile_dropWhile_id [of jsonSpace s] set_takeWhileD by metis

lemma skipSpace_idem [simp]: "skipSpace (skipSpace s) = skipSpace s"
  by (simp add: skipSpace_def)

lemma skipSpace_Nil: "skipSpace s = [] \<longleftrightarrow> jsonWs s"
  by (simp add: skipSpace_def dropWhile_eq_Nil_conv jsonWs_def list_all_iff)

lemma takeByte_skip [simp]: "takeByte c (skipSpace s) = takeByte c s"
  by (simp add: takeByte_def)

lemma takeByte_hit: "\<not> jsonSpace c \<Longrightarrow> jsonWs w \<Longrightarrow> takeByte c (w @ c # r) = (True, r)"
  by (simp add: takeByte_def skipSpace_stop)

lemma takeByte_miss: "\<not> jsonSpace d \<Longrightarrow> jsonWs w \<Longrightarrow> d \<noteq> c \<Longrightarrow> takeByte c (w @ d # r) = (False, d # r)"
  by (simp add: takeByte_def skipSpace_stop)

lemma takeByte_True: "takeByte c s = (True, r) \<Longrightarrow> \<exists>w. jsonWs w \<and> s = w @ c # r"
  using skipSpace_split [of s] by (auto simp: takeByte_def split: list.splits if_splits)

lemma takeByte_False: "takeByte c s = (False, r) \<Longrightarrow> r = skipSpace s \<and> (\<forall>r'. r \<noteq> c # r')"
  by (auto simp: takeByte_def split: list.splits if_splits)

lemma spaces [simp]: "jsonSpace CHR 0x20"
  "\<not> jsonSpace CHR ''{''" "\<not> jsonSpace CHR ''}''" "\<not> jsonSpace CHR ''[''" "\<not> jsonSpace CHR '']''"
  "\<not> jsonSpace CHR '',''" "\<not> jsonSpace CHR '':''" "\<not> jsonSpace CHR ''-''" "\<not> jsonSpace quoteChar"
  by (simp_all add: jsonSpace_def)

lemma digit_bytes: "isDigit c \<Longrightarrow> \<not> jsonSpace c \<and> c \<noteq> CHR ''-'' \<and> c \<noteq> CHR ''}'' \<and> c \<noteq> CHR '','' \<and> c \<noteq> CHR '']''"
  by (auto simp: jsonSpace_def isDigit_def)

lemma space_not_digit: "jsonSpace c \<Longrightarrow> \<not> isDigit c"
  using digit_bytes by blast

definition noDigit :: "string \<Rightarrow> bool" where
  "noDigit r \<longleftrightarrow> (case r of [] \<Rightarrow> True | c # _ \<Rightarrow> \<not> isDigit c)"

lemma noDigit_simps [simp]: "noDigit []" "noDigit (c # r) \<longleftrightarrow> \<not> isDigit c"
  by (simp_all add: noDigit_def)

lemma noDigit_ws: "jsonWs w \<Longrightarrow> noDigit r \<Longrightarrow> noDigit (w @ r)"
  by (cases w) (simp_all add: space_not_digit)

lemma decimal_bounds: "list_all isDigit ds \<Longrightarrow> 0 \<le> decimal ds \<and> decimal ds < 10 ^ length ds"
proof (induction ds rule: rev_induct)
  case (snoc c ds)
  then have "0 \<le> digitVal c" "digitVal c \<le> 9" by (auto simp: digitVal_def isDigit_def)
  then show ?case using snoc by (auto simp: decimal_snoc)
qed (simp add: decimal_def)

lemma scan_decimal: "list_all isDigit ds \<Longrightarrow> length ds \<le> 18 \<Longrightarrow> foldl (\<lambda>v c. wrap64 (v * 10 + digitVal c)) 0 ds = decimal ds"
proof (induction ds rule: rev_induct)
  case (snoc c ds)
  have b: "0 \<le> decimal (ds @ [c])" "decimal (ds @ [c]) < 10 ^ length (ds @ [c])" using decimal_bounds snoc.prems(1) by blast+
  have "(10 :: int) ^ length (ds @ [c]) \<le> 10 ^ 18" using snoc.prems(2) by (intro power_increasing) simp_all
  with b have "inInt64 (decimal (ds @ [c]))" by (simp add: inInt64_def minInt64_def maxInt64_def)
  then show ?case using snoc by (simp add: decimal_snoc wrap64_id)
qed (simp add: decimal_def)

lemma scanDigits_iff: "scanDigits s = Some (v, r) \<longleftrightarrow> (\<exists>ds. s = ds @ r \<and> jsonNat ds \<and> v = decimal ds \<and> noDigit r)"
proof
  assume a: "scanDigits s = Some (v, r)"
  let ?ds = "takeWhile isDigit s"
  have d: "list_all isDigit ?ds" by (auto simp: list_all_iff dest: set_takeWhileD)
  have n: "jsonNat ?ds" using a d by (auto simp: scanDigits_def jsonNat_def Let_def maxIntDigits_def split: if_splits)
  have "v = decimal ?ds" using a n scan_decimal [OF d] by (auto simp: scanDigits_def jsonNat_def Let_def split: if_splits)
  moreover have r: "r = dropWhile isDigit s" using a by (auto simp: scanDigits_def Let_def split: if_splits)
  then have "noDigit r" by (auto simp: noDigit_def dropWhile_eq_Cons_conv split: list.split)
  ultimately show "\<exists>ds. s = ds @ r \<and> jsonNat ds \<and> v = decimal ds \<and> noDigit r" using n r takeWhile_dropWhile_id by metis
next
  assume "\<exists>ds. s = ds @ r \<and> jsonNat ds \<and> v = decimal ds \<and> noDigit r"
  then obtain ds where s: "s = ds @ r" and n: "jsonNat ds" and v: "v = decimal ds" and r: "noDigit r" by blast
  have all: "\<forall>c \<in> set ds. isDigit c" using n by (simp add: jsonNat_def list_all_iff)
  then have "takeWhile isDigit s = ds" "dropWhile isDigit s = r" using r by (auto simp: s takeWhile_append dropWhile_append noDigit_def split: list.splits)
  then show "scanDigits s = Some (v, r)" using n v scan_decimal [of ds]
    by (auto simp: scanDigits_def jsonNat_def Let_def maxIntDigits_def)
qed

lemma intText_hd: "intText t v \<Longrightarrow> \<exists>c u. t = c # u \<and> \<not> jsonSpace c"
  by (cases rule: intText.cases, assumption) (auto simp: jsonNat_def neq_Nil_conv list_all_iff dest: digit_bytes)

lemma scanInt_iff: "scanInt s = Some (v, r) \<longleftrightarrow> (\<exists>w t. jsonWs w \<and> s = w @ t @ r \<and> intText t v \<and> noDigit r)"
proof
  assume a: "scanInt s = Some (v, r)"
  obtain q s1 where q: "takeByte CHR ''-'' s = (q, s1)" by fastforce
  obtain n where n: "scanDigits s1 = Some (n, r)" "v = (if q then - n else n)"
    using a by (auto simp: scanInt_def q split: option.splits)
  then obtain ds where ds: "s1 = ds @ r" "jsonNat ds" "n = decimal ds" "noDigit r" by (auto simp: scanDigits_iff)
  show "\<exists>w t. jsonWs w \<and> s = w @ t @ r \<and> intText t v \<and> noDigit r"
  proof (cases q)
    case True
    then have "takeByte CHR ''-'' s = (True, s1)" using q by simp
    then obtain w where "jsonWs w" "s = w @ CHR ''-'' # s1" using takeByte_True by blast
    then show ?thesis using ds n(2) True by (intro exI [of _ w] exI [of _ "CHR ''-'' # ds"]) (auto intro: minusInt)
  next
    case False
    then have "takeByte CHR ''-'' s = (False, s1)" using q by simp
    then have "s1 = skipSpace s" using takeByte_False by blast
    then obtain w where "jsonWs w" "s = w @ s1" using skipSpace_split by blast
    then show ?thesis using ds n(2) False by (intro exI [of _ w] exI [of _ ds]) (auto intro: plainInt)
  qed
next
  assume "\<exists>w t. jsonWs w \<and> s = w @ t @ r \<and> intText t v \<and> noDigit r"
  then obtain w t where w: "jsonWs w" "s = w @ t @ r" "intText t v" "noDigit r" by blast
  from w(3) show "scanInt s = Some (v, r)"
  proof cases
    case plainInt
    then obtain c u where c: "t = c # u" "isDigit c" by (cases t) (auto simp: jsonNat_def)
    have "scanDigits (t @ r) = Some (v, r)" unfolding scanDigits_iff using plainInt w(4) by blast
    then show ?thesis using takeByte_miss [of c w "CHR ''-''" "u @ r"] digit_bytes [OF c(2)] w(1,2) c(1)
      by (simp add: scanInt_def)
  next
    case (minusInt ds)
    have "scanDigits (ds @ r) = Some (decimal ds, r)" unfolding scanDigits_iff using minusInt w(4) by blast
    then show ?thesis using takeByte_hit [of "CHR ''-''" w "ds @ r"] w(1,2) minusInt by (simp add: scanInt_def)
  qed
qed

definition cleanKey :: "string \<Rightarrow> bool" where
  "cleanKey k \<longleftrightarrow> (\<forall>c \<in> set k. c \<noteq> quoteChar \<and> c \<noteq> CHR 0x5C \<and> \<not> byteOf c < 32)"

lemma keyBody_iff: "keyBody s = Some (k, r) \<longleftrightarrow> s = k @ quoteChar # r \<and> cleanKey k"
proof (induction s arbitrary: k)
  case (Cons c s)
  show ?case
  proof (cases k)
    case Nil
    then show ?thesis by (simp add: cleanKey_def split: option.split)
  next
    case k: (Cons x k')
    then show ?thesis using Cons.IH [of k'] by (cases "keyBody s") (auto simp: cleanKey_def)
  qed
qed simp

lemma scanKey_iff: "scanKey s = Some (k, r) \<longleftrightarrow> (\<exists>w. jsonWs w \<and> s = w @ quoteChar # k @ quoteChar # r \<and> cleanKey k)"
proof
  assume a: "scanKey s = Some (k, r)"
  then obtain s1 where "takeByte quoteChar s = (True, s1)" "keyBody s1 = Some (k, r)"
    by (auto simp: scanKey_def split: prod.splits bool.splits)
  then show "\<exists>w. jsonWs w \<and> s = w @ quoteChar # k @ quoteChar # r \<and> cleanKey k" using takeByte_True keyBody_iff by blast
next
  assume "\<exists>w. jsonWs w \<and> s = w @ quoteChar # k @ quoteChar # r \<and> cleanKey k"
  then show "scanKey s = Some (k, r)" by (auto simp: scanKey_def takeByte_hit keyBody_iff)
qed

lemma setField_clean: "setField key v b = Some b' \<Longrightarrow> cleanKey key"
  by (auto simp: setField_def cleanKey_def split: if_splits)

lemma scanMember_sound:
  assumes "scanMember b s = Some (b', r)"
  shows "\<exists>m. memberText b m b' \<and> s = m @ r \<and> noDigit r"
proof -
  obtain key s1 s2 v where k: "scanKey s = Some (key, s1)" and c: "takeByte CHR '':'' s1 = (True, s2)"
    and i: "scanInt s2 = Some (v, r)" and f: "setField key v b = Some b'"
    using assms by (auto simp: scanMember_def split: option.splits prod.splits bool.splits)
  obtain w1 where w1: "jsonWs w1" "s = w1 @ quoteChar # key @ quoteChar # s1" using k by (auto simp: scanKey_iff)
  obtain w2 where w2: "jsonWs w2" "s1 = w2 @ CHR '':'' # s2" using takeByte_True [OF c] by blast
  obtain w3 t where w3: "jsonWs w3" "s2 = w3 @ t @ r" "intText t v" "noDigit r" using i by (auto simp: scanInt_iff)
  have "memberText b (w1 @ quoteChar # key @ quoteChar # w2 @ CHR '':'' # w3 @ t @ []) b'"
    by (rule memberText.intros) (use w1(1) w2(1) w3 f in auto)
  then show ?thesis using w1 w2 w3 by (intro exI conjI) auto
qed

lemma scanMember_complete:
  assumes "memberText b m b'" and "noDigit r"
  shows "\<exists>w. jsonWs w \<and> scanMember b (m @ r) = Some (b', w @ r)"
  using assms(1)
proof cases
  case (memberText w1 w2 w3 w4 t v key)
  then have w: "jsonWs w1" "jsonWs w2" "jsonWs w3" "jsonWs w4" by simp_all
  have "scanInt (w3 @ t @ w4 @ r) = Some (v, w4 @ r)" unfolding scanInt_iff using w memberText(3) noDigit_ws [OF w(4) assms(2)] by blast
  moreover have "scanKey (m @ r) = Some (key, w2 @ CHR '':'' # w3 @ t @ w4 @ r)"
    unfolding scanKey_iff using w(1) setField_clean [OF memberText(4)] by (intro exI [of _ w1]) (simp add: memberText(1))
  ultimately show ?thesis using w memberText(4) by (intro exI [of _ w4]) (simp add: scanMember_def takeByte_hit)
qed

section \<open>What the scanner accepts\<close>

lemma memberText_ws: "memberText b m b' \<Longrightarrow> jsonWs w \<Longrightarrow> memberText b (m @ w) b'"
proof (induction rule: memberText.induct)
  case (memberText w1 w2 w3 w4 t v key b b')
  then show ?case using memberText.intros [of w1 w2 w3 "w4 @ w" t v key b b'] by simp
qed

lemma scanMembers_sound: "scanMembers b s = Some (b', r) \<Longrightarrow> \<exists>ms. membersText b ms b' \<and> s = ms @ CHR ''}'' # r"
proof (induction b s arbitrary: rule: scanMembers.induct)
  case (1 b s)
  obtain b1 s1 where m: "scanMember b s = Some (b1, s1)" using "1.prems" by (cases "scanMember b s") (auto simp: scanMembers.simps)
  from scanMember_sound [OF m] obtain mt where mt: "memberText b mt b1" "s = mt @ s1" by blast
  consider (more) s2 where "takeByte CHR '','' s1 = (True, s2)" | (last) s2 where "takeByte CHR '','' s1 = (False, s2)"
    by (cases "takeByte CHR '','' s1") (metis (full_types))
  then show ?case
  proof cases
    case more
    obtain ms where ms: "membersText b1 ms b'" "s2 = ms @ CHR ''}'' # r"
      using "1.IH" [OF m refl more [symmetric] refl] "1.prems" by (auto simp: scanMembers.simps [of b s] m more)
    obtain w where w: "jsonWs w" "s1 = w @ CHR '','' # s2" using takeByte_True [OF more] by blast
    have "membersText b ((mt @ w) @ CHR '','' # ms) b'" by (rule memberMore [OF memberText_ws [OF mt(1) w(1)] ms(1)])
    then show ?thesis using mt(2) w(2) ms(2) by (intro exI conjI) auto
  next
    case last
    then have e: "takeByte CHR ''}'' s2 = (True, r)" "b' = b1" using "1.prems"
      by (cases "takeByte CHR ''}'' s2"; auto simp: scanMembers.simps [of b s] m split: bool.splits)+
    have "takeByte CHR ''}'' s1 = (True, r)" using e(1) takeByte_False [OF last] by simp
    then obtain w where w: "jsonWs w" "s1 = w @ CHR ''}'' # r" using takeByte_True by blast
    have "membersText b (mt @ w) b'" unfolding e(2) by (rule memberLast [OF memberText_ws [OF mt(1) w(1)]])
    then show ?thesis using mt(2) w(2) by (intro exI conjI) auto
  qed
qed

lemma scanMembers_complete: "membersText b ms b' \<Longrightarrow> scanMembers b (ms @ CHR ''}'' # r) = Some (b', r)"
proof (induction rule: membersText.induct)
  case (memberLast b m b')
  obtain w where w: "jsonWs w" "scanMember b (m @ CHR ''}'' # r) = Some (b', w @ CHR ''}'' # r)"
    using scanMember_complete [OF memberLast, of "CHR ''}'' # r"] by (auto simp: isDigit_def)
  then show ?case using takeByte_hit [of "CHR ''}''" "[]" r]
    by (simp add: scanMembers.simps [of b] takeByte_miss del: append_Nil) simp
next
  case (memberMore b m b' ms b'')
  obtain w where w: "jsonWs w" "scanMember b (m @ CHR '','' # ms @ CHR ''}'' # r) = Some (b', w @ CHR '','' # ms @ CHR ''}'' # r)"
    using scanMember_complete [OF memberMore(1), of "CHR '','' # ms @ CHR ''}'' # r"] by (auto simp: isDigit_def)
  then show ?case using memberMore.IH by (simp add: scanMembers.simps [of b] takeByte_hit)
qed

lemma memberText_pre: "memberText b m b' \<Longrightarrow> jsonWs w \<Longrightarrow> memberText b (w @ m) b'"
proof (induction rule: memberText.induct)
  case (memberText w1 w2 w3 w4 t v key b b')
  then show ?case using memberText.intros [of "w @ w1" w2 w3 w4 t v key b b'] by simp
qed

lemma membersText_ws: "membersText b ms b' \<Longrightarrow> jsonWs w \<Longrightarrow> membersText b (w @ ms) b'"
proof (induction rule: membersText.induct)
  case (memberMore b m b' ms b'')
  from membersText.memberMore [OF memberText_pre [OF memberMore(1) memberMore(4)] memberMore(2)] show ?case by simp
qed (auto intro: membersText.memberLast memberText_pre)

lemma scanMembers_skip: "jsonWs w \<Longrightarrow> scanMembers b (w @ s) = scanMembers b s"
proof -
  assume "jsonWs w"
  then have "takeByte c (w @ s) = takeByte c s" for c by (simp add: takeByte_def)
  then have "scanMember b (w @ s) = scanMember b s" by (simp add: scanMember_def scanKey_def)
  then show ?thesis by (simp only: scanMembers.simps [of b])
qed

lemma memberText_hd: "memberText b m b' \<Longrightarrow> \<exists>w u. jsonWs w \<and> m = w @ quoteChar # u"
  by (erule memberText.cases) auto

lemma membersText_hd: "membersText b ms b' \<Longrightarrow> \<exists>w u. jsonWs w \<and> ms = w @ quoteChar # u"
  by (erule membersText.cases) (fastforce dest: memberText_hd)+

lemma generalBlock_iff: "generalBlock s = Some (b, r) \<longleftrightarrow> (\<exists>ob. objectText ob b \<and> s = ob @ r)"
proof
  assume a: "generalBlock s = Some (b, r)"
  obtain s1 where s1: "takeByte CHR ''{'' s = (True, s1)" using a
    by (cases "takeByte CHR ''{'' s") (auto simp: generalBlock_def split: bool.splits)
  obtain w1 where w1: "jsonWs w1" "s = w1 @ CHR ''{'' # s1" using takeByte_True [OF s1] by blast
  consider (empty) s2 where "takeByte CHR ''}'' s1 = (True, s2)" | (members) s2 where "takeByte CHR ''}'' s1 = (False, s2)"
    by (cases "takeByte CHR ''}'' s1") (metis (full_types))
  then show "\<exists>ob. objectText ob b \<and> s = ob @ r"
  proof cases
    case empty
    obtain w2 where w2: "jsonWs w2" "s1 = w2 @ CHR ''}'' # s2" using takeByte_True [OF empty] by blast
    have "objectText (w1 @ CHR ''{'' # w2 @ ''}'') zeroBlock" by (rule objectEmpty) (use w1 w2 in simp_all)
    moreover have "b = zeroBlock" "r = s2" using a by (simp_all add: generalBlock_def s1 empty)
    ultimately show ?thesis using w1(2) w2(2) by (intro exI [of _ "w1 @ CHR ''{'' # w2 @ ''}''"]) simp
  next
    case members
    obtain ms where ms: "membersText zeroBlock ms b" "s2 = ms @ CHR ''}'' # r"
      using a members scanMembers_sound [of zeroBlock s2 b r] by (auto simp: generalBlock_def s1)
    obtain w2 where w2: "jsonWs w2" "s1 = w2 @ s2" using takeByte_False [OF members] skipSpace_split [of s1] by auto
    have "membersText zeroBlock (w2 @ ms) b" using membersText_ws [OF ms(1) w2(1)] .
    then have "objectText (w1 @ CHR ''{'' # (w2 @ ms) @ ''}'') b" by (rule objectMembers [OF w1(1)])
    then show ?thesis using w1(2) w2(2) ms(2) by (intro exI conjI) auto
  qed
next
  assume "\<exists>ob. objectText ob b \<and> s = ob @ r"
  then obtain ob where ob: "objectText ob b" "s = ob @ r" by blast
  from ob(1) show "generalBlock s = Some (b, r)"
  proof cases
    case (objectEmpty w1 w2)
    then show ?thesis by (simp add: generalBlock_def ob(2) takeByte_hit)
  next
    case (objectMembers w1 ms)
    obtain w u where w: "jsonWs w" "ms = w @ quoteChar # u" using membersText_hd [OF objectMembers(3)] by blast
    have "scanMembers zeroBlock (quoteChar # u @ CHR ''}'' # r) = Some (b, r)"
      using scanMembers_complete [OF objectMembers(3), of r] scanMembers_skip by (simp add: w)
    then show ?thesis using objectMembers w by (simp add: generalBlock_def ob(2) takeByte_hit takeByte_miss)
  qed
qed

lemma jsonbValues_text:
  "jsonbValues lits s = Some (vs, r) \<Longrightarrow>
     \<exists>dss. length dss = length lits \<and> list_all jsonNat dss \<and> vs = map decimal dss \<and> s = concat (map2 (@) lits dss) @ r"
proof (induction lits s arbitrary: vs rule: jsonbValues.induct)
  case (2 lit lits s)
  from "2.prems" have p: "hasPrefix s lit" by (simp split: if_splits)
  then obtain s0 where s0: "s = lit @ s0" by (auto simp: hasPrefix_iff)
  obtain n s1 where n: "scanDigits s0 = Some (n, s1)" using "2.prems" by (auto simp: s0 split: option.splits)
  obtain vs' where vs: "jsonbValues lits s1 = Some (vs', r)" "vs = n # vs'" using "2.prems" by (auto simp: s0 n split: option.splits)
  have "\<not> \<not> hasPrefix s lit" "scanDigits (drop (length lit) s) = Some (n, s1)" using p n by (simp_all add: s0)
  from "2.IH" [OF this refl vs(1)] obtain dss where dss: "length dss = length lits" "list_all jsonNat dss" "vs' = map decimal dss"
    "s1 = concat (map2 (@) lits dss) @ r" by blast
  obtain ds where ds: "s0 = ds @ s1" "jsonNat ds" "n = decimal ds" using n by (auto simp: scanDigits_iff)
  show ?case by (rule exI [of _ "ds # dss"]) (simp add: dss ds s0 vs(2))
qed simp

lemma memberText_plain:
  "jsonNat ds \<Longrightarrow> jsonWs w \<Longrightarrow> setField key (decimal ds) b = Some b' \<Longrightarrow>
    memberText b (w @ quoteChar # key @ quoteChar # CHR '':'' # CHR 0x20 # ds) b'"
  using memberText.intros [of w "[]" "'' ''" "[]" ds "decimal ds" key b b'] plainInt by simp

lemma jsonbBlock_object:
  assumes "jsonbBlock s = Some (b, r)"
  shows "\<exists>ob. objectText ob b \<and> skipSpace s = ob @ r"
proof -
  obtain vs s' where v: "jsonbValues jsonbKeys (skipSpace s) = Some (vs, CHR ''}'' # r)"
    and b: "b = \<lparr>StartLine = vs ! 5, StartCol = vs ! 4, EndLine = vs ! 2, EndCol = vs ! 1, NumStmts = vs ! 3, Count = vs ! 0\<rparr>"
    using assms by (auto simp: jsonbBlock_def split: option.splits list.splits if_splits)
  from jsonbValues_text [OF v] obtain dss where dss: "length dss = length jsonbKeys" "list_all jsonNat dss" "vs = map decimal dss"
    "skipSpace s = concat (map2 (@) jsonbKeys dss) @ CHR ''}'' # r" by blast
  have "length dss = Suc (Suc (Suc (Suc (Suc (Suc 0)))))" using dss(1) by (simp add: jsonbKeys_def)
  then obtain d0 d1 d2 d3 d4 d5 where d: "dss = [d0, d1, d2, d3, d4, d5]" unfolding length_Suc_conv length_0_conv by blast
  then have n: "jsonNat d0" "jsonNat d1" "jsonNat d2" "jsonNat d3" "jsonNat d4" "jsonNat d5"
    and vs: "vs = [decimal d0, decimal d1, decimal d2, decimal d3, decimal d4, decimal d5]" using dss by simp_all
  define key where "key w k d = w @ quoteChar # k @ quoteChar # CHR '':'' # CHR 0x20 # d" for w k d
  let ?ms = "key [] ''count'' d0 @ CHR '','' # key '' '' ''end_col'' d1 @ CHR '','' # key '' '' ''end_line'' d2 @ CHR '','' # key '' '' ''num_stmts'' d3
    @ CHR '','' # key '' '' ''start_col'' d4 @ CHR '','' # key '' '' ''start_line'' d5"
  have m: "jsonNat d \<Longrightarrow> jsonWs w \<Longrightarrow> setField k (decimal d) b1 = Some b2 \<Longrightarrow> memberText b1 (key w k d) b2" for d w k b1 b2
    unfolding key_def by (rule memberText_plain)
  have "membersText zeroBlock ?ms b" unfolding b vs
    by ((rule memberMore [OF m], rule n, simp, simp add: setField_def)+, (rule memberLast [OF m], rule n, simp, simp add: setField_def))
  then have "objectText ([] @ CHR ''{'' # ?ms @ ''}'') b" by (intro objectMembers) simp_all
  then show ?thesis unfolding dss(4) d by (intro exI conjI) (auto simp: key_def jsonbKeys_def)
qed

lemma scanBlock_general: "scanBlock s = generalBlock s"
proof -
  have skip: "generalBlock (skipSpace s) = generalBlock s" by (simp add: generalBlock_def)
  show ?thesis
  proof (cases "jsonbBlock s")
    case (Some br)
    then obtain b r where br: "br = (b, r)" "\<exists>ob. objectText ob b \<and> skipSpace s = ob @ r" using jsonbBlock_object by (cases br) blast
    then have "generalBlock (skipSpace s) = Some (b, r)" by (simp only: generalBlock_iff)
    then show ?thesis using Some br(1) skip by (simp add: scanBlock_def)
  qed (simp add: scanBlock_def skip)
qed

lemma scanElements_sound: "scanElements s = Some (bs, r) \<Longrightarrow> \<exists>es. elementsText es bs \<and> s = es @ CHR '']'' # r"
proof (induction s arbitrary: bs rule: scanElements.induct)
  case (1 s)
  obtain b s1 where b: "scanBlock s = Some (b, s1)" using "1.prems" by (cases "scanBlock s") (auto simp: scanElements.simps)
  then obtain ob where ob: "objectText ob b" "s = ob @ s1" by (auto simp: scanBlock_general generalBlock_iff)
  consider (last) s2 where "takeByte CHR '']'' s1 = (True, s2)" | (more) s2 where "takeByte CHR '']'' s1 = (False, s2)"
    by (cases "takeByte CHR '']'' s1") (metis (full_types))
  then show ?case
  proof cases
    case last
    then have "bs = [b]" "s2 = r" using "1.prems" by (simp_all add: scanElements.simps [of s] b)
    moreover obtain w where "jsonWs w" "s1 = w @ CHR '']'' # s2" using takeByte_True [OF last] by blast
    ultimately show ?thesis using elementLast [OF ob(1)] ob(2) by (intro exI [of _ "ob @ w"]) auto
  next
    case more
    obtain s3 where c: "takeByte CHR '','' s2 = (True, s3)" using "1.prems"
      by (cases "takeByte CHR '','' s2") (auto simp: scanElements.simps [of s] b more split: bool.splits)
    obtain bs' where bs': "scanElements s3 = Some (bs', r)" "bs = b # bs'" using "1.prems"
      by (auto simp: scanElements.simps [of s] b more c split: option.splits)
    from "1.IH" [OF b refl more [symmetric] refl c [symmetric] refl bs'(1)]
    obtain es where es: "elementsText es bs'" "s3 = es @ CHR '']'' # r" by blast
    have "takeByte CHR '','' s1 = (True, s3)" using c takeByte_False [OF more] by simp
    then obtain w where w: "jsonWs w" "s1 = w @ CHR '','' # s3" using takeByte_True by blast
    show ?thesis using elementMore [OF ob(1) w(1) es(1)] ob(2) w(2) es(2) bs'(2)
      by (intro exI [of _ "ob @ w @ CHR '','' # es"]) simp
  qed
qed

lemma scanBlock_object: "objectText ob b \<Longrightarrow> scanBlock (ob @ r) = Some (b, r)"
  by (auto simp: scanBlock_general generalBlock_iff)

lemma scanElements_complete: "elementsText es bs \<Longrightarrow> scanElements (es @ CHR '']'' # r) = Some (bs, r)"
  by (induction rule: elementsText.induct)
    (simp_all add: scanElements.simps [of "_ @ _"] scanBlock_object takeByte_hit takeByte_miss takeByte_miss [of _ "[]", simplified] takeByte_hit [of _ "[]", simplified])

lemma objectText_pre: "objectText ob b \<Longrightarrow> jsonWs w \<Longrightarrow> objectText (w @ ob) b"
proof (induction rule: objectText.induct)
  case (objectEmpty w1 w2)
  then show ?case using objectText.objectEmpty [of "w @ w1" w2] by simp
next
  case (objectMembers w1 ms b)
  then show ?case using objectText.objectMembers [of "w @ w1" ms b] by simp
qed

lemma elementsText_pre: "elementsText es bs \<Longrightarrow> jsonWs w \<Longrightarrow> elementsText (w @ es) bs"
proof (induction rule: elementsText.induct)
  case (elementLast ob b w')
  then show ?case using elementsText.elementLast [OF objectText_pre] by fastforce
next
  case (elementMore ob b w' es bs)
  then show ?case using elementsText.elementMore [OF objectText_pre [OF elementMore(1,5)] elementMore(2,3)] by simp
qed

lemma elementsText_hd: "elementsText es bs \<Longrightarrow> \<exists>w u. jsonWs w \<and> es = w @ CHR ''{'' # u"
  by (erule elementsText.cases; erule objectText.cases) auto

lemma scanBlocks_sound: "scanBlocks data = Some bs \<Longrightarrow> arrayText data bs"
proof -
  assume a: "scanBlocks data = Some bs"
  obtain s where s: "takeByte CHR ''['' data = (True, s)" using a
    by (cases "takeByte CHR ''['' data") (auto simp: scanBlocks_def split: bool.splits)
  obtain w1 where w1: "jsonWs w1" "data = w1 @ CHR ''['' # s" using takeByte_True [OF s] by blast
  consider (empty) r where "takeByte CHR '']'' s = (True, r)" | (elements) s' where "takeByte CHR '']'' s = (False, s')"
    by (cases "takeByte CHR '']'' s") (metis (full_types))
  then show "arrayText data bs"
  proof cases
    case empty
    obtain w2 where w2: "jsonWs w2" "s = w2 @ CHR '']'' # r" using takeByte_True [OF empty] by blast
    have "jsonWs r" "bs = []" using a by (auto simp: scanBlocks_def s empty skipSpace_Nil split: if_splits)
    then show ?thesis using arrayEmpty [of w1 w2 r] w1 w2 by simp
  next
    case elements
    then obtain r where r: "scanElements s' = Some (bs, r)" "jsonWs r"
      using a by (auto simp: scanBlocks_def s skipSpace_Nil split: option.splits if_splits)
    then obtain es where es: "elementsText es bs" "s' = es @ CHR '']'' # r" using scanElements_sound by blast
    obtain w2 where w2: "jsonWs w2" "s = w2 @ s'" using takeByte_False [OF elements] skipSpace_split [of s] by auto
    show ?thesis using arrayElements [OF w1(1) elementsText_pre [OF es(1) w2(1)] r(2)] w1(2) w2(2) es(2) by simp
  qed
qed

lemma scanElements_skip: "jsonWs w \<Longrightarrow> scanElements (w @ s) = scanElements s"
proof -
  assume "jsonWs w"
  then have "takeByte c (w @ s) = takeByte c s" for c by (simp add: takeByte_def)
  then have "scanBlock (w @ s) = scanBlock s" by (simp add: scanBlock_general generalBlock_def)
  then show ?thesis by (simp add: scanElements.simps [of "w @ s"] scanElements.simps [of s])
qed

lemma scanBlocks_complete: "arrayText data bs \<Longrightarrow> scanBlocks data = Some bs"
proof (induction rule: arrayText.induct)
  case (arrayEmpty w1 w2 w3)
  then show ?case by (simp add: scanBlocks_def takeByte_hit skipSpace_Nil)
next
  case (arrayElements w1 es bs w2)
  obtain w u where w: "jsonWs w" "es = w @ CHR ''{'' # u" using elementsText_hd [OF arrayElements(2)] by blast
  have "scanElements (CHR ''{'' # u @ CHR '']'' # w2) = Some (bs, w2)"
    using scanElements_complete [OF arrayElements(2), of w2] scanElements_skip [OF w(1)] by (simp add: w)
  then show ?case using arrayElements(1,3) w by (simp add: scanBlocks_def takeByte_hit takeByte_miss skipSpace_Nil)
qed

section \<open>Properties\<close>

text \<open>
  C27: What the hand-written scanner accepts. The fast path for the text Postgres prints never
  changes how a block is read, and the scanner accepts exactly the JSON arrays of objects over a
  block's six keys and integers of up to 18 digits, reading off the blocks the JSON means.
\<close>

theorem block_scanner_exact:
  "scanBlock s = generalBlock s \<and> (scanBlocks data = Some bs \<longleftrightarrow> arrayText data bs)"
  using scanBlock_general scanBlocks_sound scanBlocks_complete by blast

text \<open>
  The two decoders never disagree. Any decoder that reads these JSON arrays as JSON means
  them, as \<open>json.Unmarshal\<close> does, gives on every input what \<open>UnmarshalBlocks\<close> over it gives.
\<close>

theorem unmarshal_blocks_agrees:
  assumes "\<And>text blocks. arrayText text blocks \<Longrightarrow> unmarshal text = Inr blocks"
  shows "UnmarshalBlocks unmarshal data = unmarshal data"
proof (cases "scanBlocks data")
  case (Some bs)
  from assms [OF scanBlocks_sound [OF Some]] show ?thesis by (simp add: UnmarshalBlocks_def Some)
qed (simp add: UnmarshalBlocks_def)

theorem unmarshal_blocks_agrees_witness:
  "let slow = (\<lambda>text. case scanBlocks text of Some bs \<Rightarrow> Inr bs | None \<Rightarrow> Inl ''not blocks'');
       text = ''[{'' @ quoteChar # ''count'' @ quoteChar # '': 7, '' @ quoteChar # ''end_col'' @ quoteChar # '': 2},{ }]''
   in UnmarshalBlocks slow text = slow text \<and> slow text = Inr [zeroBlock\<lparr>Count := 7, EndCol := 2\<rparr>, zeroBlock]
    \<and> UnmarshalBlocks slow ''[{}'' = Inl ''not blocks''"
proof -
  let ?slow = "\<lambda>text. case scanBlocks text of Some bs \<Rightarrow> Inr bs | None \<Rightarrow> Inl ''not blocks''"
  let ?text = "''[{'' @ quoteChar # ''count'' @ quoteChar # '': 7, '' @ quoteChar # ''end_col'' @ quoteChar # '': 2},{ }]''"
  have "UnmarshalBlocks ?slow ?text = ?slow ?text"
    by (rule unmarshal_blocks_agrees) (simp add: scanBlocks_complete)
  moreover have "?slow ?text = Inr [zeroBlock\<lparr>Count := 7, EndCol := 2\<rparr>, zeroBlock]" by code_simp
  moreover have "UnmarshalBlocks ?slow ''[{}'' = Inl ''not blocks''" by code_simp
  ultimately show ?thesis unfolding Let_def by (intro conjI)
qed

end
