(* ===== verification/Ignore.thy ===== *)
theory Ignore
  imports GoPath
begin

text \<open>
  Ignore patterns, \<open>internal/ignore/ignore.go\<close>: parsing and compiling pattern lists, matching a
  path with a single-backtrack loop under a work budget. The atomic budget counter is threaded
  through the calls; it stops the match as soon as it is below zero and the caller stops at the
  first error, so it stays far from the ends of 64 bits and is an \<open>int\<close>. Indexing an empty slice
  is the outcome \<open>IndexPanic\<close>.
\<close>

section \<open>Rules\<close>

record Rules =
  rulePatterns :: "string list list"
  ruleBudget :: "int option"

datatype ignoreError =
    TooManyPatterns nat
  | PatternTooLong string
  | EmptySegment string
  | BadSegment string
  | IndexPanic

definition MaxPatterns :: nat where
  "MaxPatterns = 100"

definition MaxPatternLength :: nat where
  "MaxPatternLength = 200"

definition Limit :: "int \<Rightarrow> Rules \<Rightarrow> Rules" where
  "Limit units r = r\<lparr>ruleBudget := Some units\<rparr>"

text \<open>Whether \<open>Err\<close> reports \<open>ErrTooCostly\<close>.\<close>

definition TooCostly :: "Rules option \<Rightarrow> bool" where
  "TooCostly r \<longleftrightarrow> (case r of None \<Rightarrow> False | Some r \<Rightarrow> (case ruleBudget r of None \<Rightarrow> False | Some b \<Rightarrow> b < 0))"

fun fieldsBy :: "(char \<Rightarrow> bool) \<Rightarrow> string \<Rightarrow> string list" where
  "fieldsBy sep [] = [[]]"
| "fieldsBy sep (c # s) = (if sep c then [] # fieldsBy sep s else case fieldsBy sep s of [] \<Rightarrow> [[c]] | f # fs \<Rightarrow> (c # f) # fs)"

definition Parse :: "string \<Rightarrow> string list" where
  "Parse txt =
     filter (\<lambda>p. \<not> (p = [] \<or> hasPrefix p ''#''))
       (map trimSpace (filter (\<lambda>f. f \<noteq> []) (fieldsBy (\<lambda>c. c = CHR 0x0A \<or> c = CHR 0x0D \<or> c = CHR '','') txt)))"

fun compileSegs :: "string \<Rightarrow> string list \<Rightarrow> string list \<Rightarrow> ignoreError + string list" where
  "compileSegs p segs [] = Inr segs"
| "compileSegs p segs (seg # rest) =
     (if seg = [] then Inl (EmptySegment p)
      else let (segs, seg) = (if containsStr seg ''**'' \<and> seg \<noteq> ''**'' then (segs @ [''**''], replaceAll seg ''**'' ''*'') else (segs, seg))
        in if seg = ''**'' then
             (if segs = [] then Inl IndexPanic
              else compileSegs p (if last segs \<noteq> ''**'' then segs @ [seg] else segs) rest)
           else (case pathMatch seg [] of Inl _ \<Rightarrow> Inl (BadSegment p)
             | Inr _ \<Rightarrow> compileSegs p (segs @ [seg]) rest))"

definition compilePattern :: "string \<Rightarrow> ignoreError + string list option" where
  "compilePattern p0 =
     (let p = trimSpace p0
      in if p = [] then Inr None
         else if length p > MaxPatternLength then Inl (PatternTooLong p)
         else let anchored = hasPrefix p ''/''; p = trimSet {CHR ''/''} p
           in if p = [] then Inr None
              else case compileSegs p (if anchored then [] else [''**'']) (splitByte CHR ''/'' p) of
                Inl e \<Rightarrow> Inl e | Inr segs \<Rightarrow> Inr (Some segs))"

fun compileAll :: "string list \<Rightarrow> ignoreError + string list list" where
  "compileAll [] = Inr []"
| "compileAll (p # ps) =
     (case compilePattern p of Inl e \<Rightarrow> Inl e
      | Inr o1 \<Rightarrow> (case compileAll ps of Inl e \<Rightarrow> Inl e
          | Inr segss \<Rightarrow> Inr (case o1 of None \<Rightarrow> segss | Some segs \<Rightarrow> segs # segss)))"

definition Compile :: "string list \<Rightarrow> ignoreError + Rules" where
  "Compile ps = (case compileAll ps of Inl e \<Rightarrow> Inl e | Inr segss \<Rightarrow> Inr \<lparr>rulePatterns = segss, ruleBudget = None\<rparr>)"

definition Validate :: "string list \<Rightarrow> ignoreError option" where
  "Validate ps =
     (if length ps > MaxPatterns then Some (TooManyPatterns (length ps))
      else case Compile ps of Inl e \<Rightarrow> Some e | Inr _ \<Rightarrow> None)"

section \<open>Matching\<close>

definition segMatch :: "string \<Rightarrow> string \<Rightarrow> bool" where
  "segMatch pat seg = (case pathMatch pat seg of Inl _ \<Rightarrow> False | Inr ok \<Rightarrow> ok)"

definition compareCost :: "string \<Rightarrow> string \<Rightarrow> int" where
  "compareCost pat seg =
     (let cost = int (length seg) + 1;
          wild = list_ex (\<lambda>c. c = CHR ''*'' \<or> c = CHR ''?'' \<or> c = CHR ''['' \<or> c = CHR 0x5C) pat
      in if wild then cost * (int (length pat) + 1) else cost)"

definition charge :: "int option \<Rightarrow> string \<Rightarrow> string \<Rightarrow> bool \<times> int option" where
  "charge budget pat seg =
     (case budget of None \<Rightarrow> (True, None)
      | Some b \<Rightarrow> let b' = b - (compareCost pat seg + 8) in (b' \<ge> 0, Some b'))"

text \<open>
  The loop. Its indexes into pattern and path are what is left of each; \<open>star\<close> is the pattern
  behind the last \<open>**\<close> and the path it was last tried on.
\<close>

function matchLoop :: "string list \<Rightarrow> string list \<Rightarrow> (string list \<times> string list) option \<Rightarrow> int option \<Rightarrow> bool \<times> int option" where
  "matchLoop pat segs star budget =
     (case segs of
        [] \<Rightarrow> (dropWhile (\<lambda>p. p = ''**'') pat = [], budget)
      | s # ss \<Rightarrow> (case pat of
          [] \<Rightarrow> (True, budget)
        | p # ps \<Rightarrow>
            if p = ''**'' then matchLoop ps (s # ss) (Some (ps, s # ss)) budget
            else (let (ok, budget) = charge budget p s
              in if \<not> ok then (False, budget)
                 else if segMatch p s then matchLoop ps ss star budget
                 else (case star of
                     Some (sp, t # ts) \<Rightarrow> matchLoop sp ts (Some (sp, ts)) budget
                   | _ \<Rightarrow> (False, budget)))))"
  by pat_completeness auto
termination
  by (relation "measures [\<lambda>(pat, _, star, _). max (length pat) (case star of None \<Rightarrow> 0 | Some (sp, _) \<Rightarrow> length sp),
      \<lambda>(_, _, star, _). case star of None \<Rightarrow> 0 | Some (_, ts) \<Rightarrow> length ts, \<lambda>(pat, _, _, _). length pat]")
    (auto split: option.splits)

declare matchLoop.simps [simp del]

definition matchSegments :: "string list \<Rightarrow> string list \<Rightarrow> int option \<Rightarrow> bool \<times> int option" where
  "matchSegments pat segs budget = matchLoop pat segs None budget"

fun matchAny :: "string list list \<Rightarrow> string list \<Rightarrow> int option \<Rightarrow> bool \<times> int option" where
  "matchAny [] segs budget = (False, budget)"
| "matchAny (pat # pats) segs budget =
     (let (ok, budget) = matchSegments pat segs budget
      in if ok then (True, budget) else matchAny pats segs budget)"

definition pathSegs :: "string \<Rightarrow> string list" where
  "pathSegs p = splitByte CHR ''/'' (trimSet {CHR ''/''} p)"

definition matchPath :: "string \<Rightarrow> Rules \<Rightarrow> bool \<times> Rules" where
  "matchPath p r = (let (ok, b) = matchAny (rulePatterns r) (pathSegs p) (ruleBudget r) in (ok, r\<lparr>ruleBudget := b\<rparr>))"

definition Match :: "string \<Rightarrow> string \<Rightarrow> Rules option \<Rightarrow> bool \<times> Rules option" where
  "Match p prefix r0 =
     (case r0 of None \<Rightarrow> (False, None)
      | Some r \<Rightarrow>
          if rulePatterns r = [] then (False, Some r)
          else let (ok, r) = matchPath p r
            in if ok then (True, Some r)
               else if prefix \<noteq> [] then
                 (case cutPrefix p (trimSuffix prefix ''/'' @ ''/'') of
                    None \<Rightarrow> (False, Some r)
                  | Some rest \<Rightarrow> let (ok, r) = matchPath rest r in (ok, Some r))
               else (False, Some r))"

section \<open>What a pattern means\<close>

text \<open>
  The documented meaning, without a strategy: a segment against a segment, \<open>**\<close> for any run of
  segments, and a pattern at its end covers whatever is left of the path.
\<close>

fun covers :: "string list \<Rightarrow> string list \<Rightarrow> bool" where
  "covers [] segs = True"
| "covers (p # ps) segs =
     (if p = ''**'' then list_ex (\<lambda>k. covers ps (drop k segs)) [0..<Suc (length segs)]
      else case segs of [] \<Rightarrow> False | s # ss \<Rightarrow> segMatch p s \<and> covers ps ss)"

lemma covers_star: "covers (''**'' # ps) segs \<longleftrightarrow> (\<exists>k. covers ps (drop k segs))"
proof -
  have "covers ps (drop k segs) \<Longrightarrow> covers ps (drop (min k (length segs)) segs)" for k
    by (cases "k \<le> length segs") (simp_all add: min_def)
  moreover have "min k (length segs) \<in> set [0..<Suc (length segs)]" for k
    unfolding set_upt atLeastLessThan_iff by linarith
  ultimately have "\<exists>k. covers ps (drop k segs) \<Longrightarrow> \<exists>k \<in> set [0..<Suc (length segs)]. covers ps (drop k segs)" by blast
  then show ?thesis by (auto simp: list_ex_iff simp del: upt_Suc)
qed

lemma covers_Nil: "covers pat [] \<longleftrightarrow> dropWhile (\<lambda>p. p = ''**'') pat = []"
  by (induction pat) auto

lemma covers_append:
  "''**'' \<notin> set c \<Longrightarrow> covers (c @ ps) segs \<longleftrightarrow> length c \<le> length segs \<and> list_all2 segMatch c (take (length c) segs) \<and> covers ps (drop (length c) segs)"
  by (induction c arbitrary: segs) (auto split: list.split)

text \<open>What the loop may still try: the pattern as it stands, or the last \<open>**\<close> absorbing more.\<close>

definition retries :: "(string list \<times> string list) option \<Rightarrow> bool" where
  "retries star \<longleftrightarrow> (case star of None \<Rightarrow> False | Some (sp, ts) \<Rightarrow> \<exists>k. covers sp (drop (Suc k) ts))"

definition loopInv :: "string list \<Rightarrow> string list \<Rightarrow> (string list \<times> string list) option \<Rightarrow> bool" where
  "loopInv pat segs star \<longleftrightarrow>
     (case star of None \<Rightarrow> True
      | Some (sp, ts) \<Rightarrow> \<exists>c. sp = c @ pat \<and> ''**'' \<notin> set c \<and> length c \<le> length ts \<and> segs = drop (length c) ts)"

lemma loopInv_step: "loopInv (p # ps) (s # ss) star \<Longrightarrow> p \<noteq> ''**'' \<Longrightarrow> loopInv ps ss star"
proof (cases star)
  case (Some x)
  assume inv: "loopInv (p # ps) (s # ss) star" and p: "p \<noteq> ''**''"
  then obtain sp ts c where c: "x = (sp, ts)" "sp = c @ p # ps" "''**'' \<notin> set c" "length c \<le> length ts" "s # ss = drop (length c) ts"
    using Some by (cases x) (auto simp: loopInv_def)
  have l: "length c < length ts" using c(4,5) by (cases "length c = length ts") auto
  have "ss = drop (length (c @ [p])) ts" using arg_cong [OF c(5), of tl] by (simp add: drop_Suc tl_drop)
  then show ?thesis using Some c p l by (auto simp: loopInv_def intro!: exI [of _ "c @ [p]"])
qed (simp add: loopInv_def)

lemma retries_absorbed:
  assumes "loopInv (''**'' # ps) segs star" and "retries star"
  shows "covers (''**'' # ps) segs"
proof -
  obtain sp ts k where s: "star = Some (sp, ts)" "covers sp (drop (Suc k) ts)" using assms(2) by (auto simp: retries_def split: option.splits)
  then obtain c where c: "sp = c @ ''**'' # ps" "''**'' \<notin> set c" "segs = drop (length c) ts" using assms(1) by (auto simp: loopInv_def)
  have "covers (''**'' # ps) (drop (length c) (drop (Suc k) ts))" using s(2) covers_append [OF c(2), of "''**'' # ps"] c(1) by blast
  then obtain m where "covers ps (drop m (drop (length c) (drop (Suc k) ts)))" unfolding covers_star by blast
  then have "covers ps (drop (m + Suc k) segs)" by (simp add: c(3) add_ac)
  then show ?thesis unfolding covers_star by blast
qed

lemma retries_spent: "loopInv pat [] star \<Longrightarrow> \<not> covers pat [] \<Longrightarrow> \<not> retries star"
proof
  assume inv: "loopInv pat [] star" and no: "\<not> covers pat []" and r: "retries star"
  obtain sp ts k where s: "star = Some (sp, ts)" "covers sp (drop (Suc k) ts)" using r by (auto simp: retries_def split: option.splits)
  then obtain c where c: "sp = c @ pat" "''**'' \<notin> set c" "length c = length ts" using inv by (auto simp: loopInv_def)
  have "length c \<le> length (drop (Suc k) ts)" "covers pat (drop (length c) (drop (Suc k) ts))"
    using s(2) covers_append [OF c(2), of pat] c(1) by blast+
  then show False using no c(3) by (cases ts) auto
qed

lemma matchLoop_covers:
  "loopInv pat segs star \<Longrightarrow> matchLoop pat segs star None = (covers pat segs \<or> retries star, None)"
proof (induction pat segs star "None :: int option" rule: matchLoop.induct)
  case (1 pat segs star)
  show ?case
  proof (cases segs)
    case Nil
    then show ?thesis using retries_spent [of pat star] "1.prems" by (auto simp: matchLoop.simps [of pat] covers_Nil)
  next
    case segs: (Cons s ss)
    show ?thesis
    proof (cases pat)
      case Nil
      then show ?thesis by (simp add: matchLoop.simps [of "[]"] segs)
    next
      case pat: (Cons p ps)
      show ?thesis
      proof (cases "p = ''**''")
        case True
        have "matchLoop ps (s # ss) (Some (ps, s # ss)) None = (covers ps (s # ss) \<or> retries (Some (ps, s # ss)), None)"
          by (rule "1.hyps"(1) [OF segs pat True]) (simp add: loopInv_def)
        moreover have "covers ps (s # ss) \<or> retries (Some (ps, s # ss)) \<longleftrightarrow> covers (''**'' # ps) (s # ss)"
          unfolding covers_star retries_def by (simp del: drop_Suc_Cons) (metis drop0 not0_implies_Suc)
        ultimately show ?thesis using retries_absorbed "1.prems" unfolding pat segs True
          by (simp add: matchLoop.simps [of "''**'' # ps"] del: covers.simps) blast
      next
        case False
        have ch: "charge None p s = (True, None)" by (simp add: charge_def)
        show ?thesis
        proof (cases "segMatch p s")
          case True
          have "loopInv ps ss star" using loopInv_step "1.prems" False unfolding pat segs .
          from "1.hyps"(2) [OF segs pat False ch [symmetric] refl _ True this] show ?thesis
            using False True by (simp add: matchLoop.simps [of "p # ps"] pat segs ch)
        next
          case miss: False
          show ?thesis
          proof (cases star)
            case None
            then show ?thesis using False miss by (simp add: matchLoop.simps [of "p # ps"] pat segs ch retries_def)
          next
            case (Some x)
            then obtain sp ts0 c where c: "x = (sp, ts0)" "sp = c @ p # ps" "length c \<le> length ts0" "s # ss = drop (length c) ts0"
              using "1.prems" by (cases x) (auto simp: loopInv_def pat segs)
            then obtain t ts where ts: "ts0 = t # ts" by (cases ts0) auto
            have "matchLoop sp ts (Some (sp, ts)) None = (covers sp ts \<or> retries (Some (sp, ts)), None)"
              by (rule "1.hyps"(3) [OF segs pat False ch [symmetric] refl _ miss Some]) (simp_all add: c ts loopInv_def)
            moreover have "covers sp ts \<or> retries (Some (sp, ts)) \<longleftrightarrow> retries (Some (sp, t # ts))"
              unfolding retries_def by simp (metis drop0 not0_implies_Suc)
            ultimately show ?thesis using False miss Some c(1) ts by (simp add: matchLoop.simps [of "p # ps"] pat segs ch)
          qed
        qed
      qed
    qed
  qed
qed

section \<open>The budget\<close>

lemma matchLoop_star: "matchLoop (''**'' # ps) (s # ss) star budget = matchLoop ps (s # ss) (Some (ps, s # ss)) budget"
  by (simp add: matchLoop.simps [of "_ # _"])

lemma compareCost_pos: "0 < compareCost p s"
  by (simp add: compareCost_def Let_def zero_less_mult_iff)

lemma matchLoop_budget:
  "\<exists>b'. snd (matchLoop pat segs star (Some b)) = Some b' \<and> b' \<le> b
    \<and> (0 \<le> b' \<longrightarrow> fst (matchLoop pat segs star (Some b)) = fst (matchLoop pat segs star None))"
proof (induction pat segs star "Some b" arbitrary: b rule: matchLoop.induct)
  case (1 pat segs star b)
  show ?case
  proof (cases segs)
    case Nil
    then show ?thesis by (simp add: matchLoop.simps)
  next
    case segs: (Cons s ss)
    show ?thesis
    proof (cases pat)
      case Nil
      then show ?thesis by (simp add: matchLoop.simps [of "[]"] segs)
    next
      case pat: (Cons p ps)
      show ?thesis
      proof (cases "p = ''**''")
        case True
        from "1.hyps"(1) [OF segs pat True] show ?thesis
          unfolding pat segs True matchLoop_star .
      next
        case False
        define b1 where "b1 = b - (compareCost p s + 8)"
        have ch: "charge (Some b) p s = (0 \<le> b1, Some b1)" "charge None p s = (True, None)" by (simp_all add: charge_def b1_def Let_def)
        have lt: "b1 \<le> b" using compareCost_pos [of p s] by (simp add: b1_def)
        show ?thesis
        proof (cases "0 \<le> b1")
          case neg: False
          then show ?thesis using False lt by (simp add: matchLoop.simps [of "p # ps"] pat segs ch)
        next
          case pos: True
          then have ch1: "charge (Some b) p s = (True, Some b1)" by (simp add: ch)
          have nt: "\<not> \<not> True" by simp
          consider (hit) "segMatch p s" | (retry) sp t ts where "\<not> segMatch p s" "star = Some (sp, t # ts)"
            | (fail) "\<not> segMatch p s" "\<And>sp t ts. star \<noteq> Some (sp, t # ts)" by blast
          then show ?thesis
          proof cases
            case hit
            have eqs: "matchLoop (p # ps) (s # ss) star (Some b) = matchLoop ps ss star (Some b1)"
              "matchLoop (p # ps) (s # ss) star None = matchLoop ps ss star None"
              using False hit pos by (simp_all add: matchLoop.simps [of "p # ps"] ch)
            from "1.hyps"(2) [OF segs pat False ch1 [symmetric] refl nt hit] lt show ?thesis
              unfolding pat segs eqs by (elim exE conjE) (intro exI conjI; (assumption | simp))
          next
            case retry
            have eqs: "matchLoop (p # ps) (s # ss) star (Some b) = matchLoop sp ts (Some (sp, ts)) (Some b1)"
              "matchLoop (p # ps) (s # ss) star None = matchLoop sp ts (Some (sp, ts)) None"
              using False retry pos by (simp_all add: matchLoop.simps [of "p # ps"] ch)
            from "1.hyps"(3) [OF segs pat False ch1 [symmetric] refl nt retry(1,2) refl refl] lt show ?thesis
              unfolding pat segs eqs by (elim exE conjE) (intro exI conjI; (assumption | simp))
          next
            case fail
            then consider "star = None" | sp where "star = Some (sp, [])" by (cases star) (auto simp: neq_Nil_conv, metis list.exhaust)
            then show ?thesis using False fail(1) pos lt by cases (simp_all add: matchLoop.simps [of "p # ps"] pat segs ch)
          qed
        qed
      qed
    qed
  qed
qed

text \<open>
  The number of comparisons still to come: an attempt after the last \<open>**\<close> costs one for each
  segment of the pattern behind it, and every further attempt starts one segment later.
\<close>

definition loopWork :: "string list \<Rightarrow> string list \<Rightarrow> (string list \<times> string list) option \<Rightarrow> int" where
  "loopWork pat segs star =
     (case star of None \<Rightarrow> int (length pat) * int (length segs)
      | Some (sp, ts) \<Rightarrow> int (length sp) * int (length ts) - (int (length sp) - int (length pat)))"

definition starIn :: "string set \<Rightarrow> string set \<Rightarrow> (string list \<times> string list) option \<Rightarrow> bool" where
  "starIn P S star \<longleftrightarrow> (case star of None \<Rightarrow> True | Some (sp, ts) \<Rightarrow> set sp \<subseteq> P \<and> set ts \<subseteq> S)"

lemma loopWork_star:
  assumes "loopInv (''**'' # ps) (s # ss) star"
  shows "loopWork ps (s # ss) (Some (ps, s # ss)) \<le> loopWork (''**'' # ps) (s # ss) star"
proof (cases star)
  case None
  then show ?thesis by (simp add: loopWork_def algebra_simps)
next
  case (Some x)
  then obtain sp ts c where c: "x = (sp, ts)" "sp = c @ ''**'' # ps" "length c \<le> length ts" "s # ss = drop (length c) ts"
    using assms by (cases x) (auto simp: loopInv_def)
  have len: "int (length (s # ss)) = int (length ts) - int (length c)" using c(3) by (simp only: c(4) length_drop of_nat_diff)
  have "int (length ps) * (int (length ts) - int (length c)) \<le> int (length ps) * int (length ts)" by (intro mult_left_mono) simp_all
  moreover have "int (length c) \<le> int (length c) * int (length ts) + int (length ts)" using c(3) by (simp add: add_increasing)
  moreover have "loopWork ps (s # ss) (Some (ps, s # ss)) = int (length ps) * (int (length ts) - int (length c))"
    unfolding loopWork_def len [symmetric] by simp
  moreover have "loopWork (''**'' # ps) (s # ss) star = (int (length c) + 1 + int (length ps)) * int (length ts) - int (length c)"
    using Some c(1,2) by (simp add: loopWork_def add_ac)
  moreover have "0 \<le> int (length ps) * int (length c)" by simp
  ultimately show ?thesis unfolding ring_distribs right_diff_distrib by linarith
qed

lemma loopWork_nonneg: "loopInv pat segs star \<Longrightarrow> 0 \<le> loopWork pat segs star"
proof (cases star)
  case (Some x)
  assume inv: "loopInv pat segs star"
  then obtain sp ts c where c: "x = (sp, ts)" "sp = c @ pat" "length c \<le> length ts"
    using Some by (cases x) (auto simp: loopInv_def)
  show ?thesis
  proof (cases ts)
    case (Cons t ts')
    then have "int (length sp) * 1 \<le> int (length sp) * int (length ts)" by (intro mult_left_mono) simp_all
    then have "0 \<le> int (length sp) * int (length ts) - int (length sp)" by linarith
    then show ?thesis using Some c(1) by (simp add: loopWork_def)
  qed (use Some c in \<open>simp add: loopWork_def\<close>)
qed (simp add: loopWork_def)

lemma loopWork_match: "loopWork ps ss star \<le> loopWork (p # ps) (s # ss) star - 1"
  by (simp add: loopWork_def algebra_simps split: option.split prod.split)

lemma loopWork_retry:
  "loopInv (p # ps) (s # ss) (Some (sp, t # ts)) \<Longrightarrow> loopWork sp ts (Some (sp, ts)) \<le> loopWork (p # ps) (s # ss) (Some (sp, t # ts)) - 1"
  by (auto simp: loopWork_def loopInv_def algebra_simps)

lemma matchLoop_work:
  assumes "0 \<le> (C :: int)" and "\<And>p s. p \<in> P \<Longrightarrow> s \<in> S \<Longrightarrow> compareCost p s + 8 \<le> C"
    and "loopInv pat segs star" and "set pat \<subseteq> P" and "set segs \<subseteq> S" and "starIn P S star"
  shows "b - C * loopWork pat segs star \<le> the (snd (matchLoop pat segs star (Some b)))"
  using assms(3-)
proof (induction pat segs star "Some b" arbitrary: b rule: matchLoop.induct)
  case (1 pat segs star b)
  have stop: "b - C * loopWork pat segs star \<le> b" using loopWork_nonneg [OF "1.prems"(1)] assms(1) by simp
  show ?case
  proof (cases segs)
    case Nil
    then show ?thesis using stop by (simp add: matchLoop.simps)
  next
    case segs: (Cons s ss)
    show ?thesis
    proof (cases pat)
      case Nil
      then show ?thesis using stop by (simp add: matchLoop.simps [of "[]"] segs)
    next
      case pat: (Cons p ps)
      note prems = "1.prems" [unfolded pat segs]
      show ?thesis
      proof (cases "p = ''**''")
        case True
        have "b - C * loopWork ps (s # ss) (Some (ps, s # ss)) \<le> the (snd (matchLoop ps (s # ss) (Some (ps, s # ss)) (Some b)))"
          by (rule "1.hyps"(1) [OF segs pat True]) (use prems in \<open>auto simp: loopInv_def starIn_def\<close>)
        moreover have "C * loopWork ps (s # ss) (Some (ps, s # ss)) \<le> C * loopWork (''**'' # ps) (s # ss) star"
          using loopWork_star [of ps s ss star] prems(1) True assms(1) by (intro mult_left_mono) simp_all
        ultimately show ?thesis unfolding pat segs True matchLoop_star by linarith
      next
        case False
        define b1 where "b1 = b - (compareCost p s + 8)"
        have cost: "b - C \<le> b1" using assms(2) [of p s] prems(2,3) by (simp add: b1_def)
        have ch: "charge (Some b) p s = (0 \<le> b1, Some b1)" by (simp add: charge_def b1_def Let_def)
        have next1: "b - C * loopWork pat segs star \<le> x" if "b1 - C * w \<le> x" "w \<le> loopWork pat segs star - 1" for x w
        proof -
          have "C * w \<le> C * (loopWork pat segs star - 1)" using that(2) assms(1) by (intro mult_left_mono)
          then show ?thesis using that(1) cost by (simp add: algebra_simps)
        qed
        have step: "loopInv ps ss star" using loopInv_step prems(1) False .
        have over: "b - C * loopWork pat segs star \<le> b1"
          using next1 [of "loopWork ps ss star" b1] loopWork_match [of ps ss star p s] loopWork_nonneg [OF step] assms(1) by (simp add: pat segs)
        show ?thesis
        proof (cases "0 \<le> b1")
          case neg: False
          then show ?thesis using False over by (simp add: matchLoop.simps [of "p # ps"] pat segs ch)
        next
          case pos: True
          then have ch1: "charge (Some b) p s = (True, Some b1)" by (simp add: ch)
          have nt: "\<not> \<not> True" by simp
          consider (hit) "segMatch p s" | (retry) sp t ts where "\<not> segMatch p s" "star = Some (sp, t # ts)"
            | (fail) "\<not> segMatch p s" "\<And>sp t ts. star \<noteq> Some (sp, t # ts)" by blast
          then show ?thesis
          proof cases
            case hit
            have "b1 - C * loopWork ps ss star \<le> the (snd (matchLoop ps ss star (Some b1)))"
              by (rule "1.hyps"(2) [OF segs pat False ch1 [symmetric] refl nt hit]) (use prems step in auto)
            from next1 [OF this] loopWork_match [of ps ss star p s] show ?thesis
              using False hit pos by (simp add: matchLoop.simps [of "p # ps"] ch pat segs)
          next
            case retry
            have "b1 - C * loopWork sp ts (Some (sp, ts)) \<le> the (snd (matchLoop sp ts (Some (sp, ts)) (Some b1)))"
              by (rule "1.hyps"(3) [OF segs pat False ch1 [symmetric] refl nt retry(1,2) refl refl])
                (use prems retry(2) in \<open>auto simp: loopInv_def starIn_def\<close>)
            from next1 [OF this] loopWork_retry [of p ps s ss sp t ts] prems(1) show ?thesis
              using False retry pos by (simp add: matchLoop.simps [of "p # ps"] ch pat segs)
          next
            case fail
            then consider "star = None" | sp where "star = Some (sp, [])" by (cases star) (auto simp: neq_Nil_conv, metis list.exhaust)
            then show ?thesis using False fail(1) over pos by cases (simp_all add: matchLoop.simps [of "p # ps"] pat segs ch)
          qed
        qed
      qed
    qed
  qed
qed

section \<open>Whole pattern lists\<close>

lemma matchAny_covers: "matchAny pats segs None = (\<exists>pat \<in> set pats. covers pat segs, None)"
  by (induction pats) (auto simp: matchSegments_def matchLoop_covers loopInv_def retries_def)

lemma matchAny_budget:
  "\<exists>b'. snd (matchAny pats segs (Some b)) = Some b' \<and> b' \<le> b
    \<and> (0 \<le> b' \<longrightarrow> fst (matchAny pats segs (Some b)) = fst (matchAny pats segs None))"
proof (induction pats arbitrary: b)
  case (Cons pat pats)
  obtain b1 where b1: "snd (matchLoop pat segs None (Some b)) = Some b1" "b1 \<le> b"
    "0 \<le> b1 \<Longrightarrow> fst (matchLoop pat segs None (Some b)) = fst (matchLoop pat segs None None)" using matchLoop_budget by blast
  obtain ok where ok: "matchLoop pat segs None (Some b) = (ok, Some b1)" using b1(1) by (cases "matchLoop pat segs None (Some b)") auto
  obtain b2 where b2: "snd (matchAny pats segs (Some b1)) = Some b2" "b2 \<le> b1"
    "0 \<le> b2 \<Longrightarrow> fst (matchAny pats segs (Some b1)) = fst (matchAny pats segs None)" using Cons.IH by blast
  obtain ok0 where free: "matchLoop pat segs None None = (ok0, None)" by (simp add: matchLoop_covers loopInv_def)
  show ?case
  proof (cases ok)
    case True
    then have "matchAny (pat # pats) segs (Some b) = (True, Some b1)" "0 \<le> b1 \<Longrightarrow> ok0" using b1(3) by (simp_all add: matchSegments_def ok free)
    then show ?thesis using b1(2) by (auto simp: matchSegments_def free)
  next
    case False
    then have e: "matchAny (pat # pats) segs (Some b) = matchAny pats segs (Some b1)" "0 \<le> b1 \<Longrightarrow> \<not> ok0"
      using b1(3) by (simp_all add: matchSegments_def ok free)
    have "fst (matchAny pats segs (Some b1)) = fst (matchAny (pat # pats) segs None)" if "0 \<le> b2"
      using e(2) b2 that by (simp add: matchSegments_def free)
    then show ?thesis unfolding e(1) using b1(2) b2(1,2) by (intro exI [of _ b2]) simp
  qed
qed simp

lemma matchPath_sound:
  assumes "matchPath p r = (ok, r')" and "\<not> TooCostly (Some r')"
  shows "ok \<longleftrightarrow> (\<exists>pat \<in> set (rulePatterns r). covers pat (pathSegs p))" "rulePatterns r' = rulePatterns r"
    "TooCostly (Some r) \<Longrightarrow> False"
proof -
  obtain b where b: "matchAny (rulePatterns r) (pathSegs p) (ruleBudget r) = (ok, b)" "r' = r\<lparr>ruleBudget := b\<rparr>"
    using assms(1) by (auto simp: matchPath_def split: prod.splits)
  show "rulePatterns r' = rulePatterns r" by (simp add: b(2))
  have none: "fst (matchAny (rulePatterns r) (pathSegs p) None) = (\<exists>pat \<in> set (rulePatterns r). covers pat (pathSegs p))"
    by (simp only: matchAny_covers fst_conv)
  have "ok = fst (matchAny (rulePatterns r) (pathSegs p) None) \<and> \<not> TooCostly (Some r)"
  proof (cases "ruleBudget r")
    case (Some b0)
    obtain b' where "snd (matchAny (rulePatterns r) (pathSegs p) (Some b0)) = Some b'" "b' \<le> b0"
      "0 \<le> b' \<longrightarrow> fst (matchAny (rulePatterns r) (pathSegs p) (Some b0)) = fst (matchAny (rulePatterns r) (pathSegs p) None)"
      using matchAny_budget by blast
    then show ?thesis using b assms(2) Some by (simp add: TooCostly_def)
  qed (use b(1) in \<open>simp add: TooCostly_def\<close>)
  then show "ok \<longleftrightarrow> (\<exists>pat \<in> set (rulePatterns r). covers pat (pathSegs p))" "TooCostly (Some r) \<Longrightarrow> False"
    using none by blast+
qed

text \<open>The documented meaning of a list: the path, or what follows the upload's prefix, is covered.\<close>

definition ignoredBy :: "string list list \<Rightarrow> string \<Rightarrow> string \<Rightarrow> bool" where
  "ignoredBy pats prefix p \<longleftrightarrow> (\<exists>pat \<in> set pats. covers pat (pathSegs p)
    \<or> prefix \<noteq> [] \<and> (\<exists>rest. p = trimSuffix prefix ''/'' @ ''/'' @ rest \<and> covers pat (pathSegs rest)))"

lemma Match_covers:
  assumes "Match p prefix (Some r) = (ok, r')" and "\<not> TooCostly r'"
  shows "ok \<longleftrightarrow> (\<exists>pat \<in> set (rulePatterns r). covers pat (pathSegs p)
    \<or> prefix \<noteq> [] \<and> (\<exists>rest. p = trimSuffix prefix ''/'' @ ''/'' @ rest \<and> covers pat (pathSegs rest)))"
proof (cases "rulePatterns r = []")
  case True
  then show ?thesis using assms(1) by (simp add: Match_def)
next
  case False
  obtain ok1 r1 where m: "matchPath p r = (ok1, r1)" by fastforce
  let ?root = "trimSuffix prefix ''/'' @ ''/''"
  have cut: "cutPrefix p ?root = Some rest \<longleftrightarrow> p = ?root @ rest" for rest
    by (auto simp: cutPrefix_def hasPrefix_iff)
  have none: "cutPrefix p ?root = None \<Longrightarrow> p \<noteq> trimSuffix prefix ''/'' @ ''/'' @ rest" for rest using cut [of rest] by auto
  consider (hit) ok1 | (miss) "\<not> ok1" "prefix = [] \<or> cutPrefix p ?root = None"
    | (second) rest where "\<not> ok1" "prefix \<noteq> []" "cutPrefix p ?root = Some rest" by (cases "cutPrefix p ?root") auto
  then show ?thesis
  proof cases
    case hit
    then have "ok" "r' = Some r1" using assms(1) False m by (auto simp: Match_def)
    then show ?thesis using matchPath_sound(1) [OF m] assms(2) hit by blast
  next
    case miss
    then have "\<not> ok" "r' = Some r1" using assms(1) False m by (auto simp: Match_def split: option.splits)
    then show ?thesis using matchPath_sound(1) [OF m] assms(2) miss none by blast
  next
    case second
    obtain ok2 r2 where m2: "matchPath rest r1 = (ok2, r2)" by fastforce
    have e: "ok = ok2" "r' = Some r2" using assms(1) False m m2 second by (auto simp: Match_def)
    note s2 = matchPath_sound [OF m2 assms(2) [unfolded e]]
    have "\<not> TooCostly (Some r1)" using s2(3) by blast
    note s1 = matchPath_sound(1,2) [OF m this]
    have "p = trimSuffix prefix ''/'' @ ''/'' @ x \<longleftrightarrow> x = rest" for x using cut [of rest] second(3) by auto
    then have "(\<exists>x. p = trimSuffix prefix ''/'' @ ''/'' @ x \<and> covers pat (pathSegs x)) \<longleftrightarrow> covers pat (pathSegs rest)" for pat
      by (simp only: simp_thms)
    moreover have "\<not> (\<exists>pat \<in> set (rulePatterns r). covers pat (pathSegs p))" using s1(1) second(1) by simp
    ultimately show ?thesis using e(1) s1(2) s2(1) second(2) by auto
  qed
qed

lemma Match_sound: "Match p prefix (Some r) = (ok, r') \<Longrightarrow> \<not> TooCostly r' \<Longrightarrow> ok \<longleftrightarrow> ignoredBy (rulePatterns r) prefix p"
  unfolding ignoredBy_def by (rule Match_covers)

lemma Match_rules:
  assumes "Match p prefix (Some r) = (ok, r')"
  shows "\<exists>b. r' = Some (r\<lparr>ruleBudget := b\<rparr>)"
proof -
  have keep: "\<exists>b. snd (matchPath q w) = w\<lparr>ruleBudget := b\<rparr>" for q w by (auto simp: matchPath_def split: prod.split)
  have "\<exists>b. w = w\<lparr>ruleBudget := b\<rparr>" for w :: Rules by (rule exI [of _ "ruleBudget w"]) simp
  moreover have "\<exists>b. snd (matchPath q (snd (matchPath q' w))) = w\<lparr>ruleBudget := b\<rparr>" for q q' w
    using keep [of q' w] keep [of q "snd (matchPath q' w)"] by auto
  ultimately show ?thesis using assms keep
    by (auto simp: Match_def split: prod.splits if_splits option.splits) (metis snd_conv)+
qed

text \<open>
  C17: What an ignore list ignores. As long as the budget has not run out, the single-backtrack
  loop answers as the documented meaning does: a path is ignored exactly when some pattern covers
  it, \<open>**\<close> standing for any run of segments, or covers what follows the upload's prefix.
\<close>

theorem ignore_match_documented:
  assumes "Match p prefix (Some r) = (ok, r')" and "\<not> TooCostly r'"
  shows "ok \<longleftrightarrow> (\<exists>pat \<in> set (rulePatterns r). covers pat (pathSegs p)
    \<or> prefix \<noteq> [] \<and> (\<exists>rest. p = trimSuffix prefix ''/'' @ ''/'' @ rest \<and> covers pat (pathSegs rest)))"
  using assms by (rule Match_covers)

theorem ignore_match_documented_witness:
  "let r = \<lparr>rulePatterns = [[''**'', ''gen'', ''*.go''], [''cmd'']], ruleBudget = Some 1000\<rparr>
   in fst (Match ''a/gen/x.go'' [] (Some r)) \<and> \<not> fst (Match ''a/cmd/x.go'' [] (Some r))
    \<and> fst (Match ''a/cmd/x.go'' ''a'' (Some r))"
proof -
  let ?r = "\<lparr>rulePatterns = [[''**'', ''gen'', ''*.go''], [''cmd'']], ruleBudget = Some 1000\<rparr>"
  have ok: "\<not> TooCostly (snd (Match ''a/gen/x.go'' [] (Some ?r)))" "\<not> TooCostly (snd (Match ''a/cmd/x.go'' [] (Some ?r)))"
    "\<not> TooCostly (snd (Match ''a/cmd/x.go'' ''a'' (Some ?r)))" by code_simp+
  note m = ignore_match_documented [OF surjective_pairing]
  have "[''cmd''] \<in> set (rulePatterns ?r)" "[''**'', ''gen'', ''*.go''] \<in> set (rulePatterns ?r)" by simp_all
  moreover have "covers [''**'', ''gen'', ''*.go''] (pathSegs ''a/gen/x.go'')" "covers [''cmd''] (pathSegs ''cmd/x.go'')" by code_simp+
  moreover have "\<not> (\<exists>pat \<in> set (rulePatterns ?r). covers pat (pathSegs ''a/cmd/x.go''))" by code_simp
  moreover have "''a/cmd/x.go'' = trimSuffix ''a'' ''/'' @ ''/'' @ ''cmd/x.go''" by code_simp
  ultimately show ?thesis unfolding Let_def m [OF ok(1)] m [OF ok(2)] m [OF ok(3)] by blast
qed

text \<open>
  The cost of one match. Matching one pattern against one path takes at most the product of
  their numbers of segments from the budget, each comparison at its own highest cost, so a list
  of patterns cannot make a path more expensive than that.
\<close>

theorem match_work_bounded:
  assumes "\<forall>p \<in> set pat. length p \<le> M" and "\<forall>s \<in> set segs. length s \<le> L"
  shows "\<exists>left. snd (matchSegments pat segs (Some b)) = Some left \<and> left \<le> b
    \<and> b - int (length pat) * int (length segs) * ((int L + 1) * (int M + 1) + 8) \<le> left"
proof -
  have cost: "compareCost p s + 8 \<le> (int L + 1) * (int M + 1) + 8" if "p \<in> set pat" "s \<in> set segs" for p s
  proof -
    have "(int (length s) + 1) * (int (length p) + 1) \<le> (int L + 1) * (int M + 1)" using assms that by (intro mult_mono) auto
    moreover have "int (length s) + 1 \<le> (int (length s) + 1) * (int (length p) + 1)" by (simp add: algebra_simps)
    then have "int (length s) + 1 \<le> (int L + 1) * (int M + 1)" using calculation by (rule order_trans)
    ultimately show ?thesis by (simp add: compareCost_def Let_def)
  qed
  obtain left where l: "snd (matchLoop pat segs None (Some b)) = Some left" "left \<le> b" using matchLoop_budget by blast
  have "b - ((int L + 1) * (int M + 1) + 8) * loopWork pat segs None \<le> the (snd (matchLoop pat segs None (Some b)))"
    by (rule matchLoop_work [where P = "set pat" and S = "set segs", OF _ cost]) (auto simp: loopInv_def starIn_def)
  then show ?thesis using l by (simp add: matchSegments_def loopWork_def mult_ac)
qed

theorem match_work_bounded_witness:
  "\<exists>left. snd (matchSegments [''**'', ''*a'', ''b''] [''aa'', ''a'', ''c''] (Some 500)) = Some left \<and> 500 - 9 * 17 \<le> left"
proof -
  have "\<forall>p \<in> set [''**'', ''*a'', ''b'']. length p \<le> 2" "\<forall>s \<in> set [''aa'', ''a'', ''c'']. length s \<le> 2" by simp_all
  from match_work_bounded [OF this, of 500] show ?thesis by auto
qed

section \<open>Plain patterns\<close>

text \<open>A name as one writes it in a pattern or a path: nothing special in it, no space around it.\<close>

definition plainName :: "string \<Rightarrow> bool" where
  "plainName w \<longleftrightarrow> w \<noteq> [] \<and> plainSeg w \<and> (\<forall>c \<in> set w. c \<noteq> CHR ''/'' \<and> \<not> asciiSpace c \<and> byteOf c < 128)"

lemma splitByte_join: "ws \<noteq> [] \<Longrightarrow> \<forall>w \<in> set ws. CHR ''/'' \<notin> set w \<Longrightarrow> splitByte CHR ''/'' (joinWith ''/'' ws) = ws"
  by (induction "''/''" ws rule: joinWith.induct) (auto simp: splitByte_none splitByte_append)

lemma joinWith_ends:
  "ws \<noteq> [] \<Longrightarrow> \<forall>w \<in> set ws. w \<noteq> [] \<Longrightarrow> joinWith sep ws \<noteq> [] \<and> hd (joinWith sep ws) = hd (hd ws) \<and> last (joinWith sep ws) = last (last ws)"
  by (induction sep ws rule: joinWith.induct) auto

lemma set_joinWith: "set (joinWith sep ws) \<subseteq> set sep \<union> (\<Union>w \<in> set ws. set w)"
  by (induction sep ws rule: joinWith.induct) auto

lemma trimSet_ends: "s \<noteq> [] \<Longrightarrow> hd s \<notin> A \<Longrightarrow> last s \<notin> A \<Longrightarrow> trimSet A s = s"
proof -
  assume "s \<noteq> []" "hd s \<notin> A" "last s \<notin> A"
  then have "dropWhile (\<lambda>c. c \<in> A) s = s" "dropWhile (\<lambda>c. c \<in> A) (rev s) = rev s"
    by (simp_all add: dropWhile_eq_self_iff hd_rev)
  then show ?thesis by (simp add: trimSet_def trimLeftSet_def trimRightSet_def)
qed

lemma plain_no_star: "plainSeg w \<Longrightarrow> \<not> containsStr w ''**''"
proof (induction w)
  case (Cons c w)
  then show ?case by (auto simp: plainSeg_def hasPrefix_def)
qed simp

lemma plain_not_star: "plainSeg w \<Longrightarrow> w \<noteq> ''**''"
  by (rule notI) (simp add: plainSeg_def)

lemma compileSegs_plain:
  "\<forall>w \<in> set ws. plainName w \<Longrightarrow> compileSegs p segs ws = Inr (segs @ ws)"
proof (induction ws arbitrary: segs)
  case (Cons w ws)
  then have w: "plainName w" by simp
  then have "w \<noteq> []" "\<not> containsStr w ''**''" "pathMatch w [] = Inr False" "w \<noteq> ''**''"
    using plain_no_star [of w] pathMatch_plain [of w "[]"] plain_not_star by (simp_all add: plainName_def)
  then show ?case using Cons.IH [of "segs @ [w]"] Cons.prems by simp
qed simp

lemma covers_plain: "\<forall>w \<in> set ws. plainName w \<Longrightarrow> covers ws segs \<longleftrightarrow> (\<exists>b. segs = ws @ b)"
proof (induction ws arbitrary: segs)
  case (Cons w ws)
  then have w: "plainSeg w" "w \<noteq> ''**''" using plain_not_star by (simp_all add: plainName_def)
  have ih: "covers ws ss \<longleftrightarrow> (\<exists>b. ss = ws @ b)" for ss using Cons by simp
  show ?case
  proof (cases segs)
    case (Cons s ss)
    have "segMatch w s \<longleftrightarrow> w = s" using w(1) by (simp add: segMatch_def pathMatch_plain)
    then show ?thesis using w(2) by (simp add: Cons ih del: covers.simps(1)) blast
  qed (simp add: w(2))
qed simp

lemma plain_pattern_text:
  assumes "ws \<noteq> []" and "\<forall>w \<in> set ws. plainName w"
  defines "p \<equiv> joinWith ''/'' ws"
  shows "p \<noteq> []" "trimSpace p = p" "trimSpace (CHR ''/'' # p) = CHR ''/'' # p"
    "trimSet {CHR ''/''} p = p" "trimSet {CHR ''/''} (CHR ''/'' # p) = p" "\<not> hasPrefix p ''/''" "splitByte CHR ''/'' p = ws"
proof -
  have ne: "\<forall>w \<in> set ws. w \<noteq> []" using assms(2) by (simp add: plainName_def)
  note ends = joinWith_ends [OF assms(1) ne, of "''/''", folded p_def]
  have "set p \<subseteq> set ''/'' \<union> (\<Union>w \<in> set ws. set w)" unfolding p_def by (rule set_joinWith)
  then have mem: "c = CHR ''/'' \<or> (\<exists>w \<in> set ws. c \<in> set w)" if "c \<in> set p" for c using that by auto
  have chars: "\<not> asciiSpace c \<and> byteOf c < 128" if "c \<in> set p" for c
  proof -
    consider "c = CHR ''/''" | w where "w \<in> set ws" "c \<in> set w" using mem [of c] \<open>c \<in> set p\<close> by blast
    then show ?thesis using assms(2) by cases (simp_all add: plainName_def asciiSpace_def)
  qed
  have ends2: "hd (hd ws) \<in> set (hd ws)" "last (last ws) \<in> set (last ws)" using ne assms(1) by auto
  have np: "CHR ''/'' \<notin> set w" if "w \<in> set ws" for w using assms(2) that unfolding plainName_def by blast
  have slash: "hd p \<noteq> CHR ''/''" "last p \<noteq> CHR ''/''" 
    using ends ends2 np hd_in_set [OF assms(1)] last_in_set [OF assms(1)] by metis+
  have slashOk: "\<not> asciiSpace CHR ''/'' \<and> byteOf CHR ''/'' < 128" by (simp add: asciiSpace_def)
  show "p \<noteq> []" using ends by blast
  have hl: "hd p \<in> set p" "last p \<in> set p" using ends by (metis hd_in_set, metis last_in_set)
  show "trimSpace p = p" by (intro trimSpace_tight ascii_tight) (use chars hl ends in blast)+
  have "last (CHR ''/'' # p) = last p" using ends by simp
  then show "trimSpace (CHR ''/'' # p) = CHR ''/'' # p"
    using chars [OF hl(2)] slashOk by (intro trimSpace_tight ascii_tight) (simp_all only: list.distinct list.sel ball_simps simp_thms)
  show "trimSet {CHR ''/''} p = p" using ends slash by (intro trimSet_ends) auto
  then show "trimSet {CHR ''/''} (CHR ''/'' # p) = p" by (simp add: trimSet_def trimLeftSet_def)
  show "\<not> hasPrefix p ''/''" using slash(1) ends by (cases p) auto
  show "splitByte CHR ''/'' p = ws" unfolding p_def using assms(1) np by (intro splitByte_join) blast+
qed

lemma match_one:
  "fst (Match path [] (Some \<lparr>rulePatterns = [pat], ruleBudget = None\<rparr>)) \<longleftrightarrow> covers pat (pathSegs path)"
  by (simp add: Match_def matchPath_def matchSegments_def matchLoop_covers loopInv_def retries_def split: prod.split)

text \<open>
  What a plain pattern ignores. A slash-separated pattern without special characters ignores
  every path in which its segments occur in a row, at any directory level, and everything below;
  with a leading slash, every path that starts with them.
\<close>

theorem plain_pattern_ignores:
  assumes "ws \<noteq> []" and "\<forall>w \<in> set ws. plainName w" and "length (joinWith ''/'' ws) < MaxPatternLength"
  shows "(\<exists>r. Compile [joinWith ''/'' ws] = Inr r \<and> (\<forall>path. fst (Match path [] (Some r)) \<longleftrightarrow> (\<exists>a b. pathSegs path = a @ ws @ b)))
    \<and> (\<exists>r. Compile [CHR ''/'' # joinWith ''/'' ws] = Inr r \<and> (\<forall>path. fst (Match path [] (Some r)) \<longleftrightarrow> (\<exists>b. pathSegs path = ws @ b)))"
proof -
  note t = plain_pattern_text [OF assms(1,2)]
  have float: "covers (''**'' # ws) segs \<longleftrightarrow> (\<exists>a b. segs = a @ ws @ b)" for segs
    unfolding covers_star covers_plain [OF assms(2)] by (metis append_eq_conv_conj append_take_drop_id)
  have "Compile [joinWith ''/'' ws] = Inr \<lparr>rulePatterns = [''**'' # ws], ruleBudget = None\<rparr>"
    "Compile [CHR ''/'' # joinWith ''/'' ws] = Inr \<lparr>rulePatterns = [ws], ruleBudget = None\<rparr>"
    using t assms(3) compileSegs_plain [OF assms(2)] by (simp_all add: Compile_def compilePattern_def)
  then show ?thesis using float covers_plain [OF assms(2)] by (auto simp: match_one)
qed

theorem plain_pattern_ignores_witness:
  "\<exists>r. Compile [''cmd/preview''] = Inr r \<and> fst (Match ''tools/cmd/preview/main.go'' [] (Some r)) \<and> \<not> fst (Match ''cmd/main.go'' [] (Some r))"
proof -
  let ?ws = "[''cmd'', ''preview'']"
  have "?ws \<noteq> []" "\<forall>w \<in> set ?ws. plainName w" by (simp_all add: plainName_def plainSeg_def asciiSpace_def)
  moreover have "length (joinWith ''/'' ?ws) < MaxPatternLength" by (simp add: MaxPatternLength_def)
  ultimately obtain r where r: "Compile [joinWith ''/'' ?ws] = Inr r"
    "\<forall>path. fst (Match path [] (Some r)) \<longleftrightarrow> (\<exists>a b. pathSegs path = a @ ?ws @ b)"
    using plain_pattern_ignores [of ?ws] by blast
  have "pathSegs ''tools/cmd/preview/main.go'' = [''tools''] @ ?ws @ [''main.go'']" by code_simp
  then have "fst (Match ''tools/cmd/preview/main.go'' [] (Some r))" using r(2) by blast
  moreover have "pathSegs ''cmd/main.go'' = [''cmd'', ''main.go'']" by code_simp
  then have "\<not> fst (Match ''cmd/main.go'' [] (Some r))" unfolding r(2) [rule_format] by (auto simp: Cons_eq_append_conv)
  ultimately show ?thesis using r(1) by auto
qed

text \<open>
  An anchored pattern that begins with \<open>**\<close> panics. The code takes the last of the segments
  compiled so far without checking that there is one, so validating such a pattern, which may come
  with an upload, is an index out of range instead of rules or an error.
\<close>

theorem anchored_star_panics:
  "Validate [''/**''] = Some IndexPanic \<and> Validate [''/**/*.pb.go''] = Some IndexPanic \<and> Validate [''/src/**''] = None"
  by code_simp

end
