(* ===== verification/Visibility.thy ===== *)
theory Visibility
  imports StoreFacts
begin

text \<open>
  Repos and who may see them: \<open>internal/core/repo.go\<close> and the workspace lookup of
  \<open>internal/core/forges.go\<close>. A repo's report pages are public only while the forge says the repo
  is; the answer is cached on the repo's row with the time it was asked, refreshed by uploads,
  page loads and webhooks, and closed when no connection can confirm it. The forge client is what
  it answers; the clock is an argument; random tokens are arguments.
\<close>

section \<open>Names and workspaces\<close>

definition nameChar :: "char \<Rightarrow> bool" where
  "nameChar c \<longleftrightarrow> (65 \<le> byteOf c \<and> byteOf c \<le> 90) \<or> (97 \<le> byteOf c \<and> byteOf c \<le> 122) \<or> isDigit c
     \<or> c = CHR ''.'' \<or> c = CHR ''_'' \<or> c = CHR ''-''"

definition repoNameMatches :: "string \<Rightarrow> bool" where
  "repoNameMatches s \<longleftrightarrow> 1 \<le> length s \<and> length s \<le> 100 \<and> list_all nameChar s"

definition maxRepoNameSegments :: nat where
  "maxRepoNameSegments = 21"

definition ValidRepoName :: "string \<Rightarrow> string \<Rightarrow> bool" where
  "ValidRepoName forgeName name =
     (let segments = splitByte CHR ''/'' name
      in if forgeName \<noteq> ''gitlab'' \<and> length segments \<noteq> 1 then False
         else if length segments > maxRepoNameSegments then False
         else \<not> list_ex (\<lambda>s. s = ''.'' \<or> s = ''..'' \<or> \<not> repoNameMatches s) segments)"

function SlugPrefixes :: "string \<Rightarrow> string list" where
  "SlugPrefixes slug =
     (case cutLastByte CHR ''/'' slug of None \<Rightarrow> [] | Some (prefix, _) \<Rightarrow> prefix # SlugPrefixes prefix)"
  by pat_completeness auto
termination
  by (relation "measure length") (auto dest!: cutLastByte_Some)

declare SlugPrefixes.simps [simp del]

fun lookupLoop :: "(string \<Rightarrow> storeError + Workspace) \<Rightarrow> string list \<Rightarrow> storeError + Workspace option" where
  "lookupLoop byPrefix [] = Inr None"
| "lookupLoop byPrefix (prefix # ps) =
     (case byPrefix prefix of
        Inr ws \<Rightarrow> Inr (Some ws)
      | Inl e \<Rightarrow> if e = ErrNotFound then lookupLoop byPrefix ps else Inl e)"

definition LookupWorkspace :: "string \<Rightarrow> string \<Rightarrow> memStore \<Rightarrow> storeError + Workspace option" where
  "LookupWorkspace slug forge s = lookupLoop (\<lambda>prefix. WorkspaceByPrefix forge prefix s) (SlugPrefixes slug)"

definition WorkspaceFor :: "string \<Rightarrow> string \<Rightarrow> memStore \<Rightarrow> Workspace option" where
  "WorkspaceFor slug forge s = (case LookupWorkspace slug forge s of Inl _ \<Rightarrow> None | Inr w \<Rightarrow> w)"

text \<open>Which one-click connections the deployment offers.\<close>

record forgesConfig =
  fcGitHubApp :: bool
  fcGrants :: "string list"

definition Capable :: "forgesConfig \<Rightarrow> string \<Rightarrow> bool" where
  "Capable f forgeName \<longleftrightarrow> (fcGitHubApp f \<and> forgeName = ''github'') \<or> forgeName \<in> set (fcGrants f)"

definition HasConnection :: "forgesConfig \<Rightarrow> Repo \<Rightarrow> memStore \<Rightarrow> bool" where
  "HasConnection f repo s =
     (case LookupWorkspace (rpSlug repo) (rpForge repo) s of
        Inl _ \<Rightarrow> True
      | Inr None \<Rightarrow> False
      | Inr (Some ws) \<Rightarrow>
          if fcGitHubApp f \<and> wsForge ws = ''github'' \<and> wsGitHubInstallationID ws \<noteq> 0 \<and> \<not> wsGitHubAppBroken ws then True
          else wsForge ws \<in> set (fcGrants f) \<and> grAccount (wsGrant ws) \<noteq> [] \<and> \<not> grBroken (wsGrant ws))"

section \<open>Registering a repo\<close>

text \<open>What a forge client answers when asked for the default branch.\<close>

datatype branchAnswer = BranchIs string | BranchRepoNotFound | BranchFailed

datatype registerError = RepoNotOnForge | RegisterFailed storeError

fun firstNonEmpty :: "string list \<Rightarrow> string" where
  "firstNonEmpty [] = []"
| "firstNonEmpty (x # xs) = (if x \<noteq> [] then x else firstNonEmpty xs)"

definition RegisterRepo :: "time \<Rightarrow> Workspace \<Rightarrow> string \<Rightarrow> branchAnswer option \<Rightarrow> string \<Rightarrow> memStore \<Rightarrow> (registerError + Repo) \<times> memStore" where
  "RegisterRepo now ws slug fg token s =
     (if fg = Some BranchRepoNotFound then (Inl RepoNotOnForge, s)
      else let branch = firstNonEmpty [(case fg of Some (BranchIs b) \<Rightarrow> b | _ \<Rightarrow> []), wsDefaultBranch ws, ''main''];
               repo = zeroRepo\<lparr>rpForge := wsForge ws, rpSlug := slug, rpToken := token, rpDefaultBranch := branch, rpGate := wsGate ws\<rparr>
           in (case CreateRepo now repo s of
                 (Inr r, s') \<Rightarrow> (Inr r, s')
               | (Inl e, s') \<Rightarrow> (case RepoBySlug (wsForge ws) slug s' of
                     Inr existing \<Rightarrow> (Inr existing, s')
                   | Inl _ \<Rightarrow> (Inl (RegisterFailed e), s'))))"

section \<open>Visibility\<close>

definition defaultVisibilityUploadTTL :: time where
  "defaultVisibilityUploadTTL = 3600 * 1000000000"

definition defaultVisibilityServeTTL :: time where
  "defaultVisibilityServeTTL = 24 * 3600 * 1000000000"

definition visibilityRecheckGap :: time where
  "visibilityRecheckGap = 60 * 1000000000"

definition uploadVisibilityTTL :: "time \<Rightarrow> time" where
  "uploadVisibilityTTL override = (if override \<noteq> 0 then override else defaultVisibilityUploadTTL)"

definition visibilityFresh :: "time \<Rightarrow> Repo \<Rightarrow> time \<Rightarrow> bool" where
  "visibilityFresh now repo ttl \<longleftrightarrow> rpVisibilityCheckedAt repo \<noteq> 0 \<and> now - rpVisibilityCheckedAt repo < ttl"

text \<open>What a forge client answers when asked for a repo's visibility.\<close>

datatype visAnswer = VisAnswer string | VisNotImplemented | VisRepoNotFound | VisFailed

text \<open>The definitive answer, if it is one.\<close>

definition definitive :: "visAnswer \<Rightarrow> string option" where
  "definitive a =
     (case a of
        VisNotImplemented \<Rightarrow> None
      | VisRepoNotFound \<Rightarrow> Some VisibilityPrivate
      | VisFailed \<Rightarrow> None
      | VisAnswer fv \<Rightarrow> if fv = ''public'' then Some VisibilityPublic else if fv = ''private'' then Some VisibilityPrivate else None)"

definition RefreshVisibility :: "time \<Rightarrow> visAnswer \<Rightarrow> Repo \<Rightarrow> memStore \<Rightarrow> Repo \<times> memStore" where
  "RefreshVisibility askedAt answer repo s =
     (case definitive answer of
        None \<Rightarrow> (repo, s)
      | Some v \<Rightarrow> (case SetRepoVisibility (rpID repo) v askedAt s of
            (Inl _, s') \<Rightarrow> (repo, s')
          | (Inr _, s') \<Rightarrow> (repo\<lparr>rpVisibility := v, rpVisibilityCheckedAt := askedAt\<rparr>, s')))"

text \<open>The pipeline's own state: the last background check of each repo, the asks in flight.\<close>

record visState =
  visChecks :: "(int, time) gomap"
  visInFlight :: "(int, bool) gomap"

definition beginVisibilityRefresh :: "int \<Rightarrow> visState \<Rightarrow> bool \<times> visState" where
  "beginVisibilityRefresh repoID v =
     (if map_of (visInFlight v) repoID = Some True then (False, v)
      else (True, v\<lparr>visInFlight := AList.update repoID True (visInFlight v)\<rparr>))"

definition endVisibilityRefresh :: "int \<Rightarrow> visState \<Rightarrow> visState" where
  "endVisibilityRefresh repoID v = v\<lparr>visInFlight := AList.delete repoID (visInFlight v)\<rparr>"

definition refreshVisibilityOnce :: "time \<Rightarrow> visAnswer \<Rightarrow> Repo \<Rightarrow> visState \<times> memStore \<Rightarrow> Repo \<times> visState \<times> memStore" where
  "refreshVisibilityOnce askedAt answer repo vs =
     (let (v, s) = vs; (first, v) = beginVisibilityRefresh (rpID repo) v
      in if \<not> first then (repo, v, s)
         else let (repo, s) = RefreshVisibility askedAt answer repo s in (repo, endVisibilityRefresh (rpID repo) v, s))"

definition closeUnverifiable :: "time \<Rightarrow> forgesConfig option \<Rightarrow> Repo \<Rightarrow> memStore \<Rightarrow> Repo \<times> memStore" where
  "closeUnverifiable now cfg repo s =
     (if rpVisibility repo \<noteq> VisibilityPublic then (repo, s)
      else if (case cfg of None \<Rightarrow> False | Some f \<Rightarrow> HasConnection f repo s) then (repo, s)
      else (case SetRepoVisibility (rpID repo) VisibilityPrivate now s of
          (Inl _, s') \<Rightarrow> (repo, s')
        | (Inr _, s') \<Rightarrow> (repo\<lparr>rpVisibility := VisibilityPrivate\<rparr>, s')))"

definition MarkRepoPrivate :: "time \<Rightarrow> Repo \<Rightarrow> memStore \<Rightarrow> Repo \<times> memStore" where
  "MarkRepoPrivate now repo s =
     (case SetRepoVisibility (rpID repo) VisibilityPrivate now s of
        (Inl _, s') \<Rightarrow> (repo, s')
      | (Inr _, s') \<Rightarrow> (repo\<lparr>rpVisibility := VisibilityPrivate\<rparr>, s'))"

text \<open>Whether a repo as it was listed is public and its nearest workspace is \<open>ws\<close>.\<close>

definition publicOf :: "Workspace \<Rightarrow> Repo \<Rightarrow> memStore \<Rightarrow> bool" where
  "publicOf ws repo s \<longleftrightarrow> rpVisibility repo = VisibilityPublic
     \<and> (case LookupWorkspace (rpSlug repo) (rpForge repo) s of Inr (Some owner) \<Rightarrow> wsID owner = wsID ws | _ \<Rightarrow> False)"

definition closeOwned :: "time \<Rightarrow> Workspace \<Rightarrow> memStore \<Rightarrow> Repo \<Rightarrow> memStore" where
  "closeOwned now ws s repo = (if publicOf ws repo s then snd (SetRepoVisibility (rpID repo) VisibilityPrivate now s) else s)"

definition MarkWorkspaceReposPrivate :: "time \<Rightarrow> Workspace \<Rightarrow> memStore \<Rightarrow> memStore" where
  "MarkWorkspaceReposPrivate now ws s = foldl (closeOwned now ws) s (ListWorkspaceRepos (wsForge ws) (wsPrefix ws) s)"

definition claimVisibilityRecheck :: "time \<Rightarrow> int \<Rightarrow> visState \<Rightarrow> bool \<times> visState" where
  "claimVisibilityRecheck now repoID v =
     (let checks = filter (\<lambda>(_, t). \<not> now - t \<ge> visibilityRecheckGap) (visChecks v)
      in if map_of checks repoID \<noteq> None then (False, v\<lparr>visChecks := checks\<rparr>)
         else (True, v\<lparr>visChecks := AList.update repoID now checks\<rparr>))"

text \<open>Whether a stale answer being served starts a check, and the check's bookkeeping.\<close>

definition ReverifyVisibilityIfStale :: "time \<Rightarrow> Repo \<Rightarrow> visState \<Rightarrow> bool \<times> visState" where
  "ReverifyVisibilityIfStale now repo v =
     (if visibilityFresh now repo defaultVisibilityServeTTL then (False, v) else claimVisibilityRecheck now (rpID repo) v)"

text \<open>\<open>fg\<close> is what the repo's client answers, \<open>None\<close> without one.\<close>

definition ReverifyVisibility :: "time \<Rightarrow> forgesConfig option \<Rightarrow> visAnswer option \<Rightarrow> Repo \<Rightarrow> visState \<times> memStore \<Rightarrow> Repo \<times> visState \<times> memStore" where
  "ReverifyVisibility now cfg fg repo vs =
     (case fg of
        None \<Rightarrow> let (repo, s) = closeUnverifiable now cfg repo (snd vs) in (repo, fst vs, s)
      | Some answer \<Rightarrow> refreshVisibilityOnce now answer repo vs)"

definition ShortSHA :: "string \<Rightarrow> string" where
  "ShortSHA sha = take (min 12 (length sha)) sha"

section \<open>The workspace a repo resolves to\<close>

lemma SlugPrefixes_spec:
  "set (SlugPrefixes slug) = {p. hasPrefix slug (p @ ''/'')} \<and> sorted_wrt (\<lambda>a b. length b < length a) (SlugPrefixes slug)"
proof (induction slug rule: SlugPrefixes.induct)
  case (1 slug)
  show ?case
  proof (cases "cutLastByte CHR ''/'' slug")
    case None
    then have "\<not> hasPrefix slug (p @ ''/'')" for p by (auto simp: cutLastByte_None hasPrefix_iff)
    then show ?thesis by (simp add: SlugPrefixes.simps [of slug] None)
  next
    case (Some x)
    then obtain a b where ab: "x = (a, b)" "slug = a @ CHR ''/'' # b" "CHR ''/'' \<notin> set b" using cutLastByte_Some by (cases x) blast
    have p: "hasPrefix slug (p @ ''/'') \<longleftrightarrow> p = a \<or> hasPrefix a (p @ ''/'')" for p
    proof
      assume "hasPrefix slug (p @ ''/'')"
      then obtain q where q: "a @ CHR ''/'' # b = p @ CHR ''/'' # q" by (auto simp: hasPrefix_iff ab(2))
      then consider u where "a = p @ u" "u @ CHR ''/'' # b = CHR ''/'' # q" | u where "p = a @ u" "CHR ''/'' # b = u @ CHR ''/'' # q"
        by (auto simp: append_eq_append_conv2)
      then show "p = a \<or> hasPrefix a (p @ ''/'')"
      proof cases
        case 1
        then show ?thesis by (cases u) (auto simp: hasPrefix_iff)
      next
        case 2
        then show ?thesis using ab(3) by (cases u) auto
      qed
    qed (auto simp: hasPrefix_iff ab(2))
    note ih = "1.IH" [OF Some ab(1) [symmetric]]
    have "length p < length a" if "p \<in> set (SlugPrefixes a)" for p
      using that ih hasPrefix_length [of a "p @ ''/''"] by auto
    then show ?thesis using ih p by (auto simp: SlugPrefixes.simps [of slug] Some ab(1))
  qed
qed

lemma lookupLoop_Some:
  "lookupLoop f ps = Inr (Some w) \<longleftrightarrow> (\<exists>as p bs. ps = as @ p # bs \<and> f p = Inr w \<and> (\<forall>a \<in> set as. f a = Inl ErrNotFound))"
proof (induction ps)
  case (Cons p ps)
  show ?case
  proof (cases "f p = Inl ErrNotFound")
    case True
    have "(\<exists>as q bs. p # ps = as @ q # bs \<and> f q = Inr w \<and> (\<forall>a \<in> set as. f a = Inl ErrNotFound))
       \<longleftrightarrow> (\<exists>as q bs. ps = as @ q # bs \<and> f q = Inr w \<and> (\<forall>a \<in> set as. f a = Inl ErrNotFound))" (is "?l \<longleftrightarrow> ?r")
    proof
      assume ?l
      then obtain as q bs where e: "p # ps = as @ q # bs" "f q = Inr w" "\<forall>a \<in> set as. f a = Inl ErrNotFound" by blast
      then obtain as' where "as = p # as'" using True by (cases as) auto
      then show ?r using e by (intro exI [of _ as'] exI [of _ q] exI [of _ bs]) simp
    next
      assume ?r
      then obtain as q bs where "ps = as @ q # bs" "f q = Inr w" "\<forall>a \<in> set as. f a = Inl ErrNotFound" by blast
      then show ?l using True by (intro exI [of _ "p # as"] exI [of _ q] exI [of _ bs]) simp
    qed
    then show ?thesis using Cons True by simp
  next
    case False
    have "(\<exists>as q bs. p # ps = as @ q # bs \<and> f q = Inr w \<and> (\<forall>a \<in> set as. f a = Inl ErrNotFound)) \<longleftrightarrow> f p = Inr w"
      (is "?l \<longleftrightarrow> _")
    proof
      assume ?l
      then obtain as q bs where e: "p # ps = as @ q # bs" "f q = Inr w" "\<forall>a \<in> set as. f a = Inl ErrNotFound" by blast
      then show "f p = Inr w" using False by (cases as) auto
    next
      assume "f p = Inr w"
      then show ?l by (intro exI [of _ "[]"] exI [of _ p] exI [of _ ps]) simp
    qed
    then show ?thesis using False by (auto split: sum.split)
  qed
qed simp

lemma WorkspaceByPrefix_row:
  assumes "storeInv s"
  shows "WorkspaceByPrefix forge prefix s = Inr w \<longleftrightarrow> (\<exists>k. map_of (workspaces s) k = Some w) \<and> wsForge w = forge \<and> wsPrefix w = prefix"
    "WorkspaceByPrefix forge prefix s = Inl e \<Longrightarrow> e = ErrNotFound"
proof -
  have w: "wfMap (workspaces s)" "uniqueBy byForgePrefix (workspaces s)" using inv_parts(2) [OF assms] by (auto simp: workspaceInv_def)
  show "WorkspaceByPrefix forge prefix s = Inr w \<longleftrightarrow> (\<exists>k. map_of (workspaces s) k = Some w) \<and> wsForge w = forge \<and> wsPrefix w = prefix"
    using get_findVal [OF w, where keep = "\<lambda>w. wsForge w = forge \<and> wsPrefix w = prefix" and x = "(forge, prefix)"]
    by (simp add: WorkspaceByPrefix_def byForgePrefix_def)
  show "WorkspaceByPrefix forge prefix s = Inl e \<Longrightarrow> e = ErrNotFound"
    by (auto simp: WorkspaceByPrefix_def rowOr_def split: option.splits)
qed

text \<open>
  Whose workspace a repo belongs to. The lookup that decides through which connection, and so
  with whose secrets, a repo's forge is reached finds the workspace of the same forge with the
  longest name that is a leading path of the slug, and none other.
\<close>

theorem workspace_lookup_longest:
  assumes "storeInv s"
  shows "LookupWorkspace slug forge s = Inr (Some w) \<longleftrightarrow>
     (\<exists>k. map_of (workspaces s) k = Some w) \<and> wsForge w = forge \<and> hasPrefix slug (wsPrefix w @ ''/'')
     \<and> (\<forall>v. (\<exists>k. map_of (workspaces s) k = Some v) \<and> wsForge v = forge \<and> hasPrefix slug (wsPrefix v @ ''/'')
          \<longrightarrow> length (wsPrefix v) \<le> length (wsPrefix w))"
    (is "_ \<longleftrightarrow> ?row w \<and> _ \<and> ?own w \<and> ?best")
proof
  assume "LookupWorkspace slug forge s = Inr (Some w)"
  then obtain as p bs where p: "SlugPrefixes slug = as @ p # bs" "WorkspaceByPrefix forge p s = Inr w"
    "\<forall>a \<in> set as. WorkspaceByPrefix forge a s = Inl ErrNotFound"
    unfolding LookupWorkspace_def lookupLoop_Some by blast
  have w: "?row w" "wsForge w = forge" "wsPrefix w = p" using p(2) unfolding WorkspaceByPrefix_row(1) [OF assms] by blast+
  have "length (wsPrefix v) \<le> length p" if v: "?row v" "wsForge v = forge" "?own v" for v
  proof -
    have "WorkspaceByPrefix forge (wsPrefix v) s = Inr v" unfolding WorkspaceByPrefix_row(1) [OF assms] using v by blast
    then have "wsPrefix v \<notin> set as" using p(3) by fastforce
    moreover have "wsPrefix v \<in> set (SlugPrefixes slug)" using v(3) SlugPrefixes_spec [of slug] by blast
    ultimately show ?thesis using SlugPrefixes_spec [of slug] by (auto simp: p(1) sorted_wrt_append)
  qed
  moreover have "wsPrefix w \<in> set (SlugPrefixes slug)" by (simp add: p(1) w(3))
  then have "?own w" using SlugPrefixes_spec [of slug] by blast
  ultimately show "?row w \<and> wsForge w = forge \<and> ?own w \<and> ?best" using w by blast
next
  assume a: "?row w \<and> wsForge w = forge \<and> ?own w \<and> ?best"
  then have "wsPrefix w \<in> set (SlugPrefixes slug)" using SlugPrefixes_spec [of slug] by blast
  then obtain as bs where p: "SlugPrefixes slug = as @ wsPrefix w # bs" by (meson split_list)
  have "WorkspaceByPrefix forge x s = Inl ErrNotFound" if x: "x \<in> set as" for x
  proof (cases "WorkspaceByPrefix forge x s")
    case (Inr v)
    then have v: "?row v" "wsForge v = forge" "wsPrefix v = x" unfolding WorkspaceByPrefix_row(1) [OF assms] by blast+
    have "?own v" "length (wsPrefix w) < length x" using SlugPrefixes_spec [of slug] x v(3) by (auto simp: p sorted_wrt_append)
    then show ?thesis using a v by fastforce
  qed (use WorkspaceByPrefix_row(2) [OF assms] in blast)
  moreover have "WorkspaceByPrefix forge (wsPrefix w) s = Inr w" unfolding WorkspaceByPrefix_row(1) [OF assms] using a by blast
  ultimately show "LookupWorkspace slug forge s = Inr (Some w)" unfolding LookupWorkspace_def lookupLoop_Some using p by blast
qed

theorem workspace_lookup_longest_witness:
  "let w = (\<lambda>i p. zeroWorkspace\<lparr>wsID := i, wsForge := ''gitlab'', wsPrefix := p, wsToken := p\<rparr>);
       s = newStore\<lparr>wsSeq := 2, workspaces := [(1, w 1 ''acme''), (2, w 2 ''acme/web'')]\<rparr>
   in LookupWorkspace ''acme/web/app'' ''gitlab'' s = Inr (Some (w 2 ''acme/web''))
    \<and> LookupWorkspace ''acme/webapp'' ''gitlab'' s = Inr (Some (w 1 ''acme''))"
proof -
  define w where "w = (\<lambda>i p. zeroWorkspace\<lparr>wsID := i :: int, wsForge := ''gitlab'', wsPrefix := p, wsToken := p\<rparr>)"
  define s where "s = newStore\<lparr>wsSeq := 2, workspaces := [(1, w 1 ''acme''), (2, w 2 ''acme/web'')]\<rparr>"
  have inv: "storeInv s"
    unfolding storeInv_def inv_defs
    by (auto intro!: keyed_rows uniqueBy_rows simp: s_def newStore_def w_def wfMap_def byForgePrefix_def split: if_splits)
  have "LookupWorkspace ''acme/web/app'' ''gitlab'' s = Inr (Some (w 2 ''acme/web''))"
    unfolding workspace_lookup_longest [OF inv] by (auto simp: s_def w_def intro: exI [of _ 2] split: if_splits)
  moreover have "LookupWorkspace ''acme/webapp'' ''gitlab'' s = Inr (Some (w 1 ''acme''))"
    unfolding s_def w_def by code_simp
  ultimately show ?thesis unfolding s_def w_def Let_def by (intro conjI)
qed

section \<open>Asks and answers over time\<close>

text \<open>
  The store, the clock, the asks in flight (which repo, asked when), and two records nobody reads:
  the definitive answers that arrived, and the closings by webhooks and lost connections.
\<close>

record visWorld =
  vwStore :: memStore
  vwNow :: time
  vwAsks :: "(int \<times> time) list"
  vwSaid :: "(int \<times> time \<times> string) list"
  vwClosed :: "(int \<times> time) list"

definition answered :: "int \<Rightarrow> time \<Rightarrow> visAnswer \<Rightarrow> (int \<times> time \<times> string) list" where
  "answered k t a = (case definitive a of None \<Rightarrow> [] | Some v \<Rightarrow> [(k, t, v)])"

text \<open>What the rest of the program may do to a repo's row: save it, or delete it.\<close>

definition keepsVisibility :: "memStore \<Rightarrow> memStore \<Rightarrow> bool" where
  "keepsVisibility s s' \<longleftrightarrow> repoSeq s \<le> repoSeq s' \<and> (\<forall>k r'. map_of (repos s') k = Some r' \<longrightarrow>
     (\<exists>r. map_of (repos s) k = Some r \<and> rpVisibility r' = rpVisibility r \<and> rpVisibilityCheckedAt r' = rpVisibilityCheckedAt r))"

inductive visStep :: "forgesConfig option \<Rightarrow> visWorld \<Rightarrow> visWorld \<Rightarrow> bool" for cfg where
  vis_tick: "vwNow w \<le> t \<Longrightarrow> visStep cfg w (w\<lparr>vwNow := t\<rparr>)"
| vis_ask: "k \<le> repoSeq (vwStore w) \<Longrightarrow> visStep cfg w (w\<lparr>vwAsks := (k, vwNow w) # vwAsks w\<rparr>)"
| vis_answer: "(rpID repo, t) \<in> set (vwAsks w) \<Longrightarrow> visStep cfg w
    (w\<lparr>vwStore := snd (RefreshVisibility t a repo (vwStore w)), vwAsks := remove1 (rpID repo, t) (vwAsks w),
       vwSaid := answered (rpID repo) t a @ vwSaid w\<rparr>)"
| vis_webhook: "rpID repo \<le> repoSeq (vwStore w) \<Longrightarrow> visStep cfg w
    (w\<lparr>vwStore := snd (MarkRepoPrivate (vwNow w) repo (vwStore w)), vwClosed := (rpID repo, vwNow w) # vwClosed w\<rparr>)"
| vis_close: "rpID repo \<le> repoSeq (vwStore w) \<Longrightarrow> visStep cfg w
    (w\<lparr>vwStore := snd (closeUnverifiable (vwNow w) cfg repo (vwStore w)),
       vwClosed := (if rpVisibility repo = VisibilityPublic \<and> \<not> (case cfg of None \<Rightarrow> False | Some f \<Rightarrow> HasConnection f repo (vwStore w))
         then (rpID repo, vwNow w) # vwClosed w else vwClosed w)\<rparr>)"
| vis_disconnect: "rpID repo \<le> repoSeq (vwStore w) \<Longrightarrow> visStep cfg w
    (w\<lparr>vwStore := closeOwned (vwNow w) ws (vwStore w) repo,
       vwClosed := (if publicOf ws repo (vwStore w) then (rpID repo, vwNow w) # vwClosed w else vwClosed w)\<rparr>)"
| vis_register: "visStep cfg w (w\<lparr>vwStore := snd (RegisterRepo (vwNow w) ws slug fg token (vwStore w))\<rparr>)"
| vis_other: "keepsVisibility (vwStore w) s \<Longrightarrow> visStep cfg w (w\<lparr>vwStore := s\<rparr>)"

definition visStart :: "visWorld \<Rightarrow> bool" where
  "visStart w \<longleftrightarrow> 0 < vwNow w \<and> repos (vwStore w) = [] \<and> vwAsks w = [] \<and> vwSaid w = [] \<and> vwClosed w = []"

text \<open>Everything known of a repo by its time, and what its row says of it.\<close>

definition newsOf :: "visWorld \<Rightarrow> int \<Rightarrow> time set" where
  "newsOf w k = {t. (\<exists>v. (k, t, v) \<in> set (vwSaid w)) \<or> (k, t) \<in> set (vwClosed w)}"

definition rowInv :: "visWorld \<Rightarrow> int \<Rightarrow> Repo \<Rightarrow> bool" where
  "rowInv w k r \<longleftrightarrow> (\<forall>t \<in> newsOf w k. t \<le> rpVisibilityCheckedAt r)
     \<and> (rpVisibility r = VisibilityPublic \<longrightarrow> (k, rpVisibilityCheckedAt r, VisibilityPublic) \<in> set (vwSaid w))"

definition visInv :: "visWorld \<Rightarrow> bool" where
  "visInv w \<longleftrightarrow> 0 < vwNow w
     \<and> (\<forall>(k, t) \<in> set (vwAsks w). 0 < t \<and> k \<le> repoSeq (vwStore w))
     \<and> (\<forall>k. \<forall>t \<in> newsOf w k. 0 < t \<and> k \<le> repoSeq (vwStore w))
     \<and> (\<forall>k r. map_of (repos (vwStore w)) k = Some r \<longrightarrow> rowInv w k r)"

text \<open>One write of the cached answer, at a time later than zero, with its record.\<close>

lemma cachedVisibility_inv:
  assumes inv: "visInv w" and t: "0 < t" "k \<le> repoSeq (vwStore w)"
    and s': "s' = snd (SetRepoVisibility k v t (vwStore w))"
    and news: "\<And>i. newsOf w' i = (if i = k then insert t (newsOf w k) else newsOf w i)"
    and said: "set (vwSaid w) \<subseteq> set (vwSaid w')" "v = VisibilityPublic \<Longrightarrow> (k, t, v) \<in> set (vwSaid w')"
    and rest: "vwStore w' = s'" "vwNow w' = vwNow w" "set (vwAsks w') \<subseteq> set (vwAsks w)"
  shows "visInv w'"
proof -
  have seq: "repoSeq s' = repoSeq (vwStore w)" by (auto simp: s' SetRepoVisibility_def split: option.split)
  have "rowInv w' i r" if r: "map_of (repos s') i = Some r" for i r
  proof (cases "i = k")
    case False
    then have "map_of (repos (vwStore w)) i = Some r" using r by (auto simp: s' SetRepoVisibility_def split: option.splits if_splits)
    then have "rowInv w i r" using inv by (simp add: visInv_def)
    then show ?thesis using said(1) news [of i] False by (auto simp: rowInv_def)
  next
    case True
    then obtain r0 where r0: "map_of (repos (vwStore w)) k = Some r0"
      using r by (auto simp: s' SetRepoVisibility_def split: option.splits if_splits)
    have row: "rowInv w k r0" using inv r0 by (simp add: visInv_def)
    have pos: "\<forall>t' \<in> newsOf w k. 0 < t'" using inv by (simp add: visInv_def)
    show ?thesis
    proof (cases "rpVisibilityCheckedAt r0 \<noteq> 0 \<and> \<not> rpVisibilityCheckedAt r0 < t")
      case skip: True
      then have "r = r0" using r r0 True by (simp add: s' SetRepoVisibility_def)
      then show ?thesis using row skip said(1) news [of k] True by (auto simp: rowInv_def)
    next
      case newer: False
      then have "r = r0\<lparr>rpVisibility := v, rpVisibilityCheckedAt := t\<rparr>" using r r0 True by (auto simp: s' SetRepoVisibility_def)
      moreover have "\<forall>t' \<in> newsOf w k. t' \<le> t" using newer row pos by (fastforce simp: rowInv_def)
      ultimately show ?thesis using said(2) news [of k] True by (auto simp: rowInv_def)
    qed
  qed
  moreover have "\<forall>j. \<forall>t \<in> newsOf w' j. 0 < t \<and> j \<le> repoSeq s'" using inv t news seq by (auto simp: visInv_def)
  moreover have "\<forall>(j, t) \<in> set (vwAsks w'). 0 < t \<and> j \<le> repoSeq s'" using inv rest(3) seq by (auto simp: visInv_def)
  ultimately show ?thesis using inv by (simp add: visInv_def rest)
qed

lemma vis_stores:
  "snd (RefreshVisibility t a repo s) = (case definitive a of None \<Rightarrow> s | Some v \<Rightarrow> snd (SetRepoVisibility (rpID repo) v t s))"
  "snd (MarkRepoPrivate t repo s) = snd (SetRepoVisibility (rpID repo) VisibilityPrivate t s)"
  "snd (closeUnverifiable t cfg repo s) =
     (if rpVisibility repo = VisibilityPublic \<and> \<not> (case cfg of None \<Rightarrow> False | Some f \<Rightarrow> HasConnection f repo s)
      then snd (SetRepoVisibility (rpID repo) VisibilityPrivate t s) else s)"
  by (auto simp: RefreshVisibility_def MarkRepoPrivate_def closeUnverifiable_def split: option.split prod.split sum.split)

lemma CreateRepo_store:
  "snd (CreateRepo now r s) = s
   \<or> (\<exists>r'. rpVisibility r' = rpVisibility r \<and> rpVisibilityCheckedAt r' = 0
        \<and> snd (CreateRepo now r s) = s\<lparr>repoSeq := repoSeq s + 1, repos := AList.update (repoSeq s + 1) r' (repos s)\<rparr>)"
proof (cases "snd (CreateRepo now r s) = s")
  case False
  define r' where "r' = r\<lparr>rpID := repoSeq s + 1, rpCreatedAt := (if rpCreatedAt r = 0 then now else rpCreatedAt r), rpVisibilityCheckedAt := 0\<rparr>"
  have "snd (CreateRepo now r s) = s\<lparr>repoSeq := repoSeq s + 1, repos := AList.update (repoSeq s + 1) r' (repos s)\<rparr>"
    using False by (auto simp: CreateRepo_def Let_def r'_def split: if_splits)
  then show ?thesis by (intro disjI2 exI [of _ r']) (simp add: r'_def)
qed simp

lemma RegisterRepo_store:
  "snd (RegisterRepo now ws slug fg token s) = s
   \<or> (\<exists>r. rpVisibility r = [] \<and> rpVisibilityCheckedAt r = 0
        \<and> snd (RegisterRepo now ws slug fg token s) = s\<lparr>repoSeq := repoSeq s + 1, repos := AList.update (repoSeq s + 1) r (repos s)\<rparr>)"
proof -
  let ?r = "zeroRepo\<lparr>rpForge := wsForge ws, rpSlug := slug, rpToken := token,
     rpDefaultBranch := firstNonEmpty [(case fg of Some (BranchIs b) \<Rightarrow> b | _ \<Rightarrow> []), wsDefaultBranch ws, ''main''], rpGate := wsGate ws\<rparr>"
  have "snd (RegisterRepo now ws slug fg token s) = s \<or> snd (RegisterRepo now ws slug fg token s) = snd (CreateRepo now ?r s)"
    by (cases "CreateRepo now ?r s") (auto simp: RegisterRepo_def Let_def simp del: firstNonEmpty.simps split: sum.split)
  moreover have "rpVisibility ?r = []" by (simp add: zeroRepo_def)
  ultimately show ?thesis using CreateRepo_store [of now ?r s] by metis
qed

lemma newsOf_store [simp]: "newsOf (w\<lparr>vwStore := s\<rparr>) = newsOf w"
  by (simp add: newsOf_def fun_eq_iff)

text \<open>A closing at the present, written and recorded together.\<close>

lemma closing_inv:
  assumes "visInv w" and "k \<le> repoSeq (vwStore w)"
  shows "visInv (w\<lparr>vwStore := snd (SetRepoVisibility k VisibilityPrivate (vwNow w) (vwStore w)), vwClosed := (k, vwNow w) # vwClosed w\<rparr>)"
  using assms by (intro cachedVisibility_inv [OF assms(1) _ assms(2) refl]) (auto simp: visInv_def newsOf_def)

lemma visInv_keep:
  assumes "visInv w" and "keepsVisibility (vwStore w) s"
  shows "visInv (w\<lparr>vwStore := s\<rparr>)"
proof -
  have seq: "repoSeq (vwStore w) \<le> repoSeq s" using assms(2) by (simp add: keepsVisibility_def)
  have "rowInv (w\<lparr>vwStore := s\<rparr>) k r'" if r': "map_of (repos s) k = Some r'" for k r'
  proof -
    obtain r where "map_of (repos (vwStore w)) k = Some r" "rpVisibility r' = rpVisibility r" "rpVisibilityCheckedAt r' = rpVisibilityCheckedAt r"
      using assms(2) r' by (auto simp: keepsVisibility_def)
    then show ?thesis using assms(1) by (auto simp: visInv_def rowInv_def)
  qed
  then show ?thesis using assms(1) seq by (fastforce simp: visInv_def)
qed

lemma visInv_new:
  assumes "visInv w" and "rpVisibility r = []" and "rpVisibilityCheckedAt r = 0"
  defines "s \<equiv> vwStore w"
  shows "visInv (w\<lparr>vwStore := s\<lparr>repoSeq := repoSeq s + 1, repos := AList.update (repoSeq s + 1) r (repos s)\<rparr>\<rparr>)" (is "visInv ?w")
proof -
  have none: "newsOf w (repoSeq s + 1) = {}" using assms(1) by (fastforce simp: visInv_def s_def)
  have "rowInv ?w k r'" if "map_of (repos (vwStore ?w)) k = Some r'" for k r'
    using that assms(1-3) none by (auto simp: visInv_def rowInv_def s_def split: if_splits)
  then show ?thesis using assms(1) by (fastforce simp: visInv_def s_def)
qed

lemma visStep_inv: "visStep cfg w w' \<Longrightarrow> visInv w \<Longrightarrow> visInv w'"
proof (induction rule: visStep.induct)
  case (vis_tick w t)
  then show ?case by (auto simp: visInv_def newsOf_def rowInv_def)
next
  case (vis_ask k w)
  then show ?case by (auto simp: visInv_def newsOf_def rowInv_def)
next
  case (vis_answer repo t w a)
  have ask: "0 < t" "rpID repo \<le> repoSeq (vwStore w)" using vis_answer by (auto simp: visInv_def)
  have sub: "set (remove1 (rpID repo, t) (vwAsks w)) \<subseteq> set (vwAsks w)" by (rule set_remove1_subset)
  show ?case
  proof (cases "definitive a")
    case None
    have e: "newsOf (w\<lparr>vwAsks := remove1 (rpID repo, t) (vwAsks w)\<rparr>) = newsOf w" by (simp add: newsOf_def fun_eq_iff)
    show ?thesis using vis_answer.prems sub
      by (auto simp: vis_stores None answered_def visInv_def rowInv_def newsOf_def)
  next
    case (Some v)
    show ?thesis using sub
      by (intro cachedVisibility_inv [OF vis_answer.prems ask refl, where v = v]) (auto simp: vis_stores Some answered_def newsOf_def)
  qed
next
  case (vis_webhook repo w)
  then show ?case by (simp add: vis_stores closing_inv)
next
  case (vis_close repo w)
  then show ?case by (simp add: vis_stores closing_inv)
next
  case (vis_disconnect repo w ws)
  then show ?case by (simp add: closeOwned_def closing_inv)
next
  case (vis_register w ws slug fg token)
  then show ?case using RegisterRepo_store [of "vwNow w" ws slug fg token "vwStore w"] visInv_new by auto
next
  case (vis_other w s)
  then show ?case by (rule visInv_keep [rotated])
qed

lemma visStart_inv: "visStart w \<Longrightarrow> visInv w"
  by (simp add: visStart_def visInv_def newsOf_def)

lemma visReach_inv: "(visStep cfg)\<^sup>*\<^sup>* w0 w \<Longrightarrow> visStart w0 \<Longrightarrow> visInv w"
  by (induction rule: rtranclp_induct) (auto simp: visStart_inv visStep_inv)

text \<open>
  C16: Pages are public only on the forge's word. However asks, late answers, webhooks, lost
  connections, registrations and settings saves interleave, a repo cached public has a definitive
  answer that it is public, asked when its row says, and nothing asked or announced later says
  otherwise: no older answer ever reopens what was closed since.
\<close>

theorem public_on_forge_word:
  assumes "visStart w0" and "(visStep cfg)\<^sup>*\<^sup>* w0 w"
    and "map_of (repos (vwStore w)) k = Some r" and "ReportsPublic r"
  shows "(k, rpVisibilityCheckedAt r, VisibilityPublic) \<in> set (vwSaid w)
    \<and> (\<forall>t. (k, t, VisibilityPrivate) \<in> set (vwSaid w) \<or> (k, t) \<in> set (vwClosed w) \<longrightarrow> t \<le> rpVisibilityCheckedAt r)"
proof -
  have "rowInv w k r" using visReach_inv [OF assms(2,1)] assms(3) by (simp add: visInv_def)
  then show ?thesis using assms(4) by (auto simp: rowInv_def ReportsPublic_def newsOf_def)
qed

definition visRun :: "visWorld" where
  "visRun = (let s = snd (RegisterRepo 1 (zeroWorkspace\<lparr>wsForge := ''github'', wsPrefix := ''acme''\<rparr>) ''acme/api'' None ''t'' newStore);
       r = zeroRepo\<lparr>rpID := 1\<rparr>
     in \<lparr>vwStore = snd (RefreshVisibility 2 (VisAnswer ''public'') r s), vwNow = 2, vwAsks = [], vwSaid = [(1, 2, ''public'')], vwClosed = []\<rparr>)"

theorem public_on_forge_word_witness:
  "\<exists>r. map_of (repos (vwStore visRun)) 1 = Some r \<and> ReportsPublic r \<and> (1, rpVisibilityCheckedAt r, VisibilityPublic) \<in> set (vwSaid visRun)"
proof -
  let ?w0 = "\<lparr>vwStore = newStore, vwNow = 1, vwAsks = [], vwSaid = [], vwClosed = []\<rparr>"
  let ?s = "snd (RegisterRepo 1 (zeroWorkspace\<lparr>wsForge := ''github'', wsPrefix := ''acme''\<rparr>) ''acme/api'' None ''t'' newStore)"
  let ?r = "zeroRepo\<lparr>rpID := 1\<rparr>"
  have seq: "repoSeq ?s = 1" by code_simp
  have "visStep None ?w0 (?w0\<lparr>vwStore := ?s\<rparr>)"
    using vis_register [of None ?w0 "zeroWorkspace\<lparr>wsForge := ''github'', wsPrefix := ''acme''\<rparr>" "''acme/api''" None "''t''"] by simp
  moreover have "visStep None (?w0\<lparr>vwStore := ?s\<rparr>) (?w0\<lparr>vwStore := ?s, vwNow := 2\<rparr>)"
    using vis_tick [of "?w0\<lparr>vwStore := ?s\<rparr>" 2 None] by simp
  moreover have "visStep None (?w0\<lparr>vwStore := ?s, vwNow := 2\<rparr>) (?w0\<lparr>vwStore := ?s, vwNow := 2, vwAsks := [(1, 2)]\<rparr>)"
    using vis_ask [of 1 "?w0\<lparr>vwStore := ?s, vwNow := 2\<rparr>" None] seq by simp
  moreover have "visStep None (?w0\<lparr>vwStore := ?s, vwNow := 2, vwAsks := [(1, 2)]\<rparr>) visRun"
    using vis_answer [of ?r 2 "?w0\<lparr>vwStore := ?s, vwNow := 2, vwAsks := [(1, 2)]\<rparr>" None "VisAnswer ''public''"]
    by (simp add: visRun_def answered_def definitive_def zeroRepo_def)
  ultimately have run: "(visStep None)\<^sup>*\<^sup>* ?w0 visRun" by (meson rtranclp.rtrancl_into_rtrancl rtranclp.rtrancl_refl)
  have start: "visStart ?w0" by (simp add: visStart_def newStore_def)
  have "map (\<lambda>(k, r). (k, ReportsPublic r)) (repos (vwStore visRun)) = [(1, True)]" by code_simp
  then obtain r where row: "map_of (repos (vwStore visRun)) 1 = Some r" "ReportsPublic r" by auto
  show ?thesis using row public_on_forge_word [OF start run row] by blast
qed

text \<open>Settings saves and deletions are among the rest of the program.\<close>

lemma keepsVisibility_ops:
  "keepsVisibility s (snd (UpdateRepo r s))" "storeInv s \<Longrightarrow> keepsVisibility s (snd (DeleteRepo k s))"
proof -
  show "keepsVisibility s (snd (UpdateRepo r s))"
    by (auto simp: keepsVisibility_def UpdateRepo_def Let_def split: option.splits if_splits)
  show "keepsVisibility s (snd (DeleteRepo k s))" if "storeInv s"
    using deleteRepoLocked_maps(1) [OF that] by (auto simp: keepsVisibility_def DeleteRepo_def deleteRepoLocked_def Let_def split: option.splits if_splits)
qed

end
