(* ===== verification/Publish.thy ===== *)
theory Publish
  imports Visibility CoverageGate
begin

text \<open>
  What goes to the forge, \<open>internal/core/publish.go\<close>: the build status, the report card with its
  annotations, the pull request comment, and the words the uploader reads about each. The forge
  client is the functions it answers with. The three surfaces run side by side in the code; they
  share nothing, so their order does not matter here.
\<close>

section \<open>Report data\<close>

datatype reportValue = FloatValue rat | TextValue string

record ReportData =
  rdTitle :: string
  rdType :: string
  rdValue :: reportValue

record Report =
  reTitle :: string
  reDetails :: string
  reResult :: string
  reLink :: string
  reData :: "ReportData list"

record Annotation =
  anPath :: string
  anLine :: int
  anEndLine :: int
  anSummary :: string

record BuildStatus =
  bsKey :: string
  bsState :: string
  bsName :: string
  bsDescription :: string
  bsURL :: string

definition ellipsis :: string where
  "ellipsis = [CHR 0xE2, CHR 0x80, CHR 0xA6]"

definition enDash :: string where
  "enDash = [CHR 0xE2, CHR 0x80, CHR 0x93]"

definition crossMark :: string where
  "crossMark = [CHR 0xE2, CHR 0x9D, CHR 0x8C]"

definition checkMark :: string where
  "checkMark = [CHR 0xE2, CHR 0x9C, CHR 0x85]"

text \<open>\<open>slices.SortFunc\<close>, stably; the order it is used with tells different files apart.\<close>

fun insertBy :: "('a \<Rightarrow> 'a \<Rightarrow> int) \<Rightarrow> 'a \<Rightarrow> 'a list \<Rightarrow> 'a list" where
  "insertBy cmp x [] = [x]"
| "insertBy cmp x (y # ys) = (if cmp x y \<le> 0 then x # y # ys else y # insertBy cmp x ys)"

definition sortFunc :: "('a \<Rightarrow> 'a \<Rightarrow> int) \<Rightarrow> 'a list \<Rightarrow> 'a list" where
  "sortFunc cmp xs = foldr (insertBy cmp) xs []"

text \<open>\<open>[]rune(s)\<close>, invalid bytes each becoming U+FFFD.\<close>

lemma decodeRune_pos: "s \<noteq> [] \<Longrightarrow> 0 < snd (decodeRune s)"
  by (cases s) (auto simp: decodeRune_def Let_def split: list.splits if_splits)

lemma decodeRune_rest: "(r, n) = decodeRune s \<Longrightarrow> s \<noteq> [] \<Longrightarrow> length s - n < length s"
  using decodeRune_pos [of s] by (cases "decodeRune s") auto

function runesOf :: "string \<Rightarrow> int list" where
  "runesOf s = (if s = [] then [] else let (r, n) = decodeRune s in r # runesOf (drop n s))"
  by pat_completeness auto
termination
  by (relation "measure length") (simp_all add: decodeRune_rest)

declare runesOf.simps [simp del]

section \<open>The report card\<close>

definition insightsMaxAnnotations :: nat where
  "insightsMaxAnnotations = 100"

definition insightsMaxDataFields :: nat where
  "insightsMaxDataFields = 10"

definition uncoveredFiles :: "diffResult \<Rightarrow> fileCov list" where
  "uncoveredFiles dc = filter (\<lambda>f. length (fcUncoveredLines f) > 0) (rFiles dc)"

definition dataFieldPath :: "string \<Rightarrow> string" where
  "dataFieldPath p =
     (let r = runesOf p
      in if length r \<le> 60 then p else ellipsis @ concat (map encodeRune (drop (length r - 60 + 1) r)))"

definition byWorstDiff :: "fileCov \<Rightarrow> fileCov \<Rightarrow> int" where
  "byWorstDiff a b =
     (let pa = f64 (f64 (of_int (fcCoveredLines a)) * f64 (of_int (fcTotalLines b)));
          pb = f64 (f64 (of_int (fcCoveredLines b)) * f64 (of_int (fcTotalLines a)));
          c = cmpCompare pa pb
      in if c \<noteq> 0 then c else cmpCompare (fcPath a) (fcPath b))"

fun appendFields :: "ReportData list \<Rightarrow> fileCov list \<Rightarrow> ReportData list" where
  "appendFields data [] = data"
| "appendFields data (f # fs) =
     (if length data \<ge> insightsMaxDataFields then data
      else appendFields (data @ [\<lparr>rdTitle = dataFieldPath (fcPath f), rdType = ''percentage'',
             rdValue = FloatValue (f64 (f64 (100 * f64 (of_int (fcCoveredLines f))) / f64 (of_int (fcTotalLines f))))\<rparr>]) fs)"

definition appendPerFileData :: "ReportData list \<Rightarrow> diffResult \<Rightarrow> ReportData list" where
  "appendPerFileData data dc = appendFields data (sortFunc byWorstDiff (uncoveredFiles dc))"

text \<open>The findings in order: a file without data, then a file's uncovered ranges.\<close>

definition fileAnnotation :: "string \<Rightarrow> Annotation" where
  "fileAnnotation p = \<lparr>anPath = p, anLine = 0, anEndLine = 0,
     anSummary = ''This changed file has no coverage data '' @ emDash @ '' nothing in it appears to be tested''\<rparr>"

definition spanAnnotation :: "string \<Rightarrow> span \<Rightarrow> Annotation" where
  "spanAnnotation p sp = \<lparr>anPath = p, anLine = Start sp, anEndLine = End sp,
     anSummary = (if End sp > Start sp
       then ''Lines '' @ itoa (Start sp) @ enDash @ itoa (End sp) @ '' of this change are not covered by tests''
       else ''Line '' @ itoa (Start sp) @ '' of this change is not covered by tests'')\<rparr>"

definition annotate :: "Annotation list \<times> nat \<Rightarrow> Annotation \<Rightarrow> Annotation list \<times> nat" where
  "annotate st a =
     (let (anns, dropped) = st
      in if length anns = insightsMaxAnnotations then (anns, dropped + 1) else (anns @ [a], dropped))"

definition insightsAnnotations :: "diffResult \<Rightarrow> Annotation list \<times> nat" where
  "insightsAnnotations dc =
     (let st = foldl (\<lambda>st p. annotate st (fileAnnotation p)) ([], 0) (rUnmatchedFiles dc)
      in foldl (\<lambda>st f. foldl (\<lambda>st sp. annotate st (spanAnnotation (fcPath f) sp)) st (LineSpans (fcUncoveredLines f))) st (rFiles dc))"

definition insightsReport :: "Upload \<Rightarrow> string \<Rightarrow> rat option \<Rightarrow> Verdict \<Rightarrow> Report \<times> Annotation list" where
  "insightsReport u link deltaPct gate =
     (let data = [\<lparr>rdTitle = ''Total coverage'', rdType = ''percentage'', rdValue = FloatValue (upTotalPct u)\<rparr>];
          data = (case deltaPct of None \<Rightarrow> data
            | Some d \<Rightarrow> data @ [\<lparr>rdTitle = ''Change vs base'', rdType = ''text'', rdValue = TextValue (fmtPlusF1 d @ ''%'')\<rparr>]);
          (data, details, annotations) = (case upDiffCoverage u of
              None \<Rightarrow> (data, ''Test coverage uploaded by gocov.'', [])
            | Some dc \<Rightarrow>
                if rTotalLines dc = 0 then (data, ''No executable lines were changed.'', [])
                else let data = data @ [\<lparr>rdTitle = ''Diff coverage'', rdType = ''percentage'', rdValue = FloatValue (resultPercent dc)\<rparr>,
                           \<lparr>rdTitle = ''Uncovered changed lines'', rdType = ''number'',
                             rdValue = FloatValue (f64 (of_int (rTotalLines dc - rCoveredLines dc)))\<rparr>];
                         (annotations, dropped) = insightsAnnotations dc;
                         details = itoa (rCoveredLines dc) @ '' of '' @ itoa (rTotalLines dc) @ '' changed lines are covered by tests.'';
                         details = (if dropped > 0 then details @ '' +'' @ itoa (int dropped) @ '' more uncovered ranges are not annotated ''
                           @ emDash @ '' the PR comment lists them all.'' else details)
                     in (data, details, annotations));
          data = data @ [\<lparr>rdTitle = ''Statements'', rdType = ''text'',
             rdValue = TextValue (itoa (upCoveredStmts u) @ '' / '' @ itoa (upTotalStmts u))\<rparr>];
          (data, res) = (if vConfigured gate
            then (data @ [\<lparr>rdTitle = ''Gate'', rdType = ''text'', rdValue = TextValue (verdictString gate)\<rparr>],
                  if Failed gate then ''failed'' else ''passed'')
            else (data, []));
          data = (case upDiffCoverage u of None \<Rightarrow> data | Some dc \<Rightarrow> appendPerFileData data dc)
      in (\<lparr>reTitle = ''gocov coverage'', reDetails = details, reResult = res, reLink = link, reData = data\<rparr>, annotations))"

text \<open>What a forge answers to a report: done, no such surface, the reason it is closed, or an error.\<close>

datatype publishAnswer = Published | NoSurface | SurfaceClosed string | PublishFailed string

definition pushCodeInsights :: "(Report \<Rightarrow> Annotation list \<Rightarrow> publishAnswer) \<Rightarrow> Upload \<Rightarrow> string \<Rightarrow> rat option \<Rightarrow> Verdict \<Rightarrow> string" where
  "pushCodeInsights publish u link deltaPct gate =
     (let (report, annotations) = insightsReport u link deltaPct gate
      in case publish report annotations of
           NoSurface \<Rightarrow> ''skipped''
         | SurfaceClosed reason \<Rightarrow> ''skipped: '' @ reason
         | PublishFailed e \<Rightarrow> ''error: '' @ e
         | Published \<Rightarrow> ''posted'')"

section \<open>The build status\<close>

definition buildStatus :: "Upload \<Rightarrow> string \<Rightarrow> rat option \<Rightarrow> Verdict \<Rightarrow> BuildStatus" where
  "buildStatus u link deltaPct gate =
     (let desc = ''coverage: '' @ fmtF1 (upTotalPct u) @ ''%'';
          desc = (case deltaPct of None \<Rightarrow> desc | Some d \<Rightarrow> desc @ '' ('' @ fmtPlusF1 d @ ''%)'');
          (state, desc) = (if Failed gate then (''failed'', desc @ '' '' @ emDash @ '' '' @ hd (vFailures gate)) else (''successful'', desc))
      in \<lparr>bsKey = ''gocov/coverage'', bsState = state, bsName = ''gocov'', bsDescription = desc, bsURL = link\<rparr>)"

definition pushBuildStatus :: "(BuildStatus \<Rightarrow> string option) \<Rightarrow> Upload \<Rightarrow> string \<Rightarrow> rat option \<Rightarrow> Verdict \<Rightarrow> string" where
  "pushBuildStatus post u link deltaPct gate =
     (case post (buildStatus u link deltaPct gate) of Some e \<Rightarrow> ''error: '' @ e | None \<Rightarrow> ''posted'')"

section \<open>The pull request comment\<close>

definition PRCommentMarker :: string where
  "PRCommentMarker = ''**gocov**''"

definition prCommentMaxFiles :: nat where
  "prCommentMaxFiles = 20"

text \<open>\<open>strings.NewReplacer\<close> with single bytes to replace goes byte by byte.\<close>

definition mdByte :: "char \<Rightarrow> string" where
  "mdByte c =
     (if c = CHR 0x60 then [CHR 0x27]
      else if c = CHR ''|'' then [CHR 0x5C, CHR ''|'']
      else if c = CHR 0x0A \<or> c = CHR 0x0D then '' ''
      else [c])"

definition mdPath :: "string \<Rightarrow> string" where
  "mdPath p = concat (map mdByte p)"

definition uncoveredTable :: "fileCov list \<Rightarrow> string" where
  "uncoveredTable uncovered =
     LF # ''Uncovered changed lines:'' @ [LF, LF] @ ''| File | Lines |'' @ [LF] @ ''| --- | --- |'' @ [LF]
     @ concat (map (\<lambda>f. ''| '' @ [CHR 0x60] @ mdPath (fcPath f) @ [CHR 0x60] @ '' | '' @ Ranges (fcUncoveredLines f) @ '' |'' @ [LF])
         (take prCommentMaxFiles uncovered))
     @ (if length uncovered > prCommentMaxFiles
        then ''| '' @ ellipsis @ '' | and '' @ itoa (int (length uncovered) - int prCommentMaxFiles) @ '' more files |'' @ [LF] else [])"

definition unmatchedList :: "string list \<Rightarrow> string" where
  "unmatchedList unmatched =
     LF # ''Changed files without coverage data: '' @ [CHR 0x60]
     @ joinWith ([CHR 0x60] @ '', '' @ [CHR 0x60]) (map mdPath (take prCommentMaxFiles unmatched)) @ [CHR 0x60]
     @ (if length unmatched > prCommentMaxFiles then '' and '' @ itoa (int (length unmatched) - int prCommentMaxFiles) @ '' more'' else [])
     @ [LF]"

definition prCommentBody :: "bool \<Rightarrow> Upload \<Rightarrow> string \<Rightarrow> rat option \<Rightarrow> Verdict \<Rightarrow> string" where
  "prCommentBody hosted u link deltaPct gate =
     ''**gocov** report for '' @ [CHR 0x60] @ ShortSHA (upCommitSHA u) @ [CHR 0x60] @ [LF, LF]
     @ ''- Total coverage: **'' @ fmtF1 (upTotalPct u) @ ''%**''
     @ (case deltaPct of None \<Rightarrow> [] | Some d \<Rightarrow> '' ('' @ fmtPlusF1 d @ ''%)'') @ [LF]
     @ (if vConfigured gate
        then (if Failed gate then ''- Gate: '' @ crossMark @ '' '' @ joinWith ''; '' (vFailures gate) @ [LF]
              else ''- Gate: '' @ checkMark @ '' passed'' @ [LF])
        else [])
     @ (case upDiffCoverage u of None \<Rightarrow> []
        | Some dc \<Rightarrow>
            (if rTotalLines dc = 0 then ''- Diff coverage: no executable lines changed'' @ [LF]
             else ''- Diff coverage: **'' @ fmtF1 (resultPercent dc) @ ''%** ('' @ itoa (rCoveredLines dc) @ ''/'' @ itoa (rTotalLines dc)
               @ '' changed lines covered)'' @ [LF])
            @ (if length (uncoveredFiles dc) > 0 then uncoveredTable (uncoveredFiles dc) else [])
            @ (if length (rUnmatchedFiles dc) > 0 then unmatchedList (rUnmatchedFiles dc) else []))
     @ LF # ''[Full report]('' @ link @ '')'' @ [LF]
     @ (if hosted then LF # ''<sub>Coverage by [gocov](https://gocov.dev?ref=pr-comment) '' @ emDash @ '' free for public repos</sub>'' @ [LF] else [])"

text \<open>The comment calls a push makes: an update of the comment found, or a new one.\<close>

datatype commentCall = UpdateComment string string | PostComment string

definition pushPRComment :: "(string \<Rightarrow> string) \<Rightarrow> (string \<Rightarrow> string \<Rightarrow> string option) \<Rightarrow> (string \<Rightarrow> string option)
    \<Rightarrow> bool \<Rightarrow> Upload \<Rightarrow> string \<Rightarrow> rat option \<Rightarrow> Verdict \<Rightarrow> string \<times> commentCall list" where
  "pushPRComment findID update post hosted u link deltaPct gate =
     (if upPRID u = [] then ([], [])
      else let body = prCommentBody hosted u link deltaPct gate;
               commentID = findID PRCommentMarker;
               tried = (if commentID \<noteq> [] then [UpdateComment commentID body] else [])
           in if commentID \<noteq> [] \<and> update commentID body = None then (''updated'', tried)
              else (case post body of
                  Some e \<Rightarrow> (''error: '' @ e, tried @ [PostComment body])
                | None \<Rightarrow> (''posted'', tried @ [PostComment body])))"

section \<open>A push in words\<close>

record PushResult =
  prBuildStatus :: string
  prCodeInsights :: string
  prPRComment :: string

definition QueuedText :: string where
  "QueuedText = ''queued: pushed with a concurrent upload of this commit''"

definition everySurface :: "string \<Rightarrow> bool \<Rightarrow> PushResult" where
  "everySurface outcome pr =
     \<lparr>prBuildStatus = outcome, prCodeInsights = outcome, prPRComment = (if pr then outcome else [])\<rparr>"

text \<open>The answers of one forge client.\<close>

record forgeAnswers =
  faPostStatus :: "BuildStatus \<Rightarrow> string option"
  faPublish :: "Report \<Rightarrow> Annotation list \<Rightarrow> publishAnswer"
  faFind :: "string \<Rightarrow> string"
  faUpdate :: "string \<Rightarrow> string \<Rightarrow> string option"
  faPost :: "string \<Rightarrow> string option"

definition pushSurfaces :: "forgeAnswers \<Rightarrow> bool \<Rightarrow> Upload \<Rightarrow> string \<Rightarrow> rat option \<Rightarrow> Verdict \<Rightarrow> PushResult" where
  "pushSurfaces fg hosted u link deltaPct gate =
     \<lparr>prBuildStatus = pushBuildStatus (faPostStatus fg) u link deltaPct gate,
      prCodeInsights = pushCodeInsights (faPublish fg) u link deltaPct gate,
      prPRComment = fst (pushPRComment (faFind fg) (faUpdate fg) (faPost fg) hosted u link deltaPct gate)\<rparr>"

definition reportURL :: "string \<Rightarrow> Upload \<Rightarrow> int \<Rightarrow> string" where
  "reportURL baseURL u parts =
     (let url = trimSuffix baseURL ''/'' @ ''/uploads/'' @ itoa (upID u)
      in if parts > 1 then url @ ''?parts=merged'' else url)"

text \<open>What a round reports once its claim is answered, and whether it records the version as pushed.\<close>

definition roundResult :: "string + PushClaim \<Rightarrow> bool \<Rightarrow> PushResult \<Rightarrow> PushResult \<times> bool" where
  "roundResult claim pr surfaces =
     (case claim of
        Inl e \<Rightarrow> (everySurface (''error: '' @ e) pr, False)
      | Inr PushSuperseded \<Rightarrow> (everySurface ''skipped: superseded'' pr, False)
      | Inr PushQueued \<Rightarrow> (everySurface QueuedText pr, False)
      | Inr PushClaimed \<Rightarrow> (surfaces, \<not> hasPrefix (prBuildStatus surfaces) ''error''))"

section \<open>Properties\<close>

lemma set_joinBytes: "set (joinWith sep ws) \<subseteq> set sep \<union> (\<Union>w \<in> set ws. set w)"
  by (induction sep ws rule: joinWith.induct) auto

lemma annotate_fold:
  assumes "length anns \<le> insightsMaxAnnotations" and "dropped = 0 \<or> length anns = insightsMaxAnnotations"
  shows "foldl annotate (anns, dropped) as =
     (anns @ take (insightsMaxAnnotations - length anns) as, dropped + (length as - (insightsMaxAnnotations - length anns)))"
  using assms
proof (induction as arbitrary: anns dropped)
  case (Cons a as)
  show ?case
  proof (cases "length anns = insightsMaxAnnotations")
    case True
    then show ?thesis using Cons.IH [of anns "dropped + 1"] Cons.prems by (simp add: annotate_def)
  next
    case False
    then have l: "length anns < insightsMaxAnnotations" using Cons.prems(1) by simp
    then obtain k where k: "insightsMaxAnnotations - length anns = Suc k" by (metis Suc_diff_Suc)
    have "annotate (anns, dropped) a = (anns @ [a], dropped)" using False by (simp add: annotate_def)
    moreover have "foldl annotate (anns @ [a], dropped) as =
        (anns @ [a] @ take (insightsMaxAnnotations - Suc (length anns)) as, dropped + (length as - (insightsMaxAnnotations - Suc (length anns))))"
      using Cons.IH [of "anns @ [a]" dropped] l Cons.prems(2) False by simp
    moreover have "insightsMaxAnnotations - Suc (length anns) = k" using k by simp
    ultimately show ?thesis by (simp add: k)
  qed
qed simp

lemma foldl_nested: "foldl (\<lambda>st x. foldl f st (g x)) st xs = foldl f st (concat (map g xs))"
  by (induction xs arbitrary: st) simp_all

text \<open>Everything there is to annotate, in order.\<close>

definition findings :: "diffResult \<Rightarrow> Annotation list" where
  "findings dc = map fileAnnotation (rUnmatchedFiles dc)
     @ concat (map (\<lambda>f. map (spanAnnotation (fcPath f)) (LineSpans (fcUncoveredLines f))) (rFiles dc))"

lemma insightsAnnotations_take:
  "insightsAnnotations dc = (take insightsMaxAnnotations (findings dc), length (findings dc) - insightsMaxAnnotations)"
proof -
  have files: "foldl (\<lambda>st p. annotate st (fileAnnotation p)) st ps = foldl annotate st (map fileAnnotation ps)" for st ps
    by (simp add: foldl_map)
  have spans: "foldl (\<lambda>st sp. annotate st (spanAnnotation p sp)) st sps = foldl annotate st (map (spanAnnotation p) sps)" for st p sps
    by (simp add: foldl_map)
  have "insightsAnnotations dc = foldl annotate ([], 0) (findings dc)"
    unfolding insightsAnnotations_def Let_def files spans foldl_nested findings_def foldl_append ..
  then show ?thesis using annotate_fold [of "[]" 0 "findings dc"] by simp
qed

lemma appendFields_length: "length data \<le> insightsMaxDataFields \<Longrightarrow> length (appendFields data fs) \<le> insightsMaxDataFields"
  by (induction data fs rule: appendFields.induct) auto

text \<open>
  The report card fits the forge. It never has more than ten fields or more than a hundred
  annotations; the annotations are the first hundred findings in order, whole files first, and
  the details say how many were left out.
\<close>

theorem insights_within_limits:
  "length (reData (fst (insightsReport u link deltaPct gate))) \<le> 10
   \<and> insightsAnnotations dc = (take 100 (findings dc), length (findings dc) - 100)
   \<and> snd (insightsReport u link deltaPct gate) =
       (case upDiffCoverage u of Some d \<Rightarrow> if rTotalLines d = 0 then [] else take 100 (findings d) | None \<Rightarrow> [])"
proof -
  have ten: "insightsMaxDataFields = 10" "insightsMaxAnnotations = 100" by (simp_all add: insightsMaxDataFields_def insightsMaxAnnotations_def)
  have app: "length data \<le> 10 \<Longrightarrow> length (appendPerFileData data d) \<le> 10" for data d
    using appendFields_length unfolding appendPerFileData_def ten by blast
  have "length (reData (fst (insightsReport u link deltaPct gate))) \<le> 10"
    unfolding insightsReport_def Let_def by (auto intro!: app split: option.split prod.split)
  moreover have "snd (insightsReport u link deltaPct gate) =
       (case upDiffCoverage u of Some d \<Rightarrow> if rTotalLines d = 0 then [] else take 100 (findings d) | None \<Rightarrow> [])"
    unfolding insightsReport_def Let_def insightsAnnotations_take ten by (auto split: option.split prod.split)
  ultimately show ?thesis unfolding insightsAnnotations_take ten by blast
qed

lemma mdPath_bytes: "c \<in> set (mdPath p) \<Longrightarrow> c \<noteq> CHR 0x60 \<and> c \<noteq> CHR 0x0A \<and> c \<noteq> CHR 0x0D"
  by (auto simp: mdPath_def mdByte_def split: if_splits)

text \<open>The pipes of a table's text that separate cells: those a backslash does not escape.\<close>

fun cellPipes :: "bool \<Rightarrow> string \<Rightarrow> nat" where
  "cellPipes escaped [] = 0"
| "cellPipes escaped (c # s) = (if c = CHR ''|'' \<and> \<not> escaped then 1 else 0) + cellPipes (c = CHR 0x5C) s"

lemma cellPipes_append: "cellPipes e (s @ t) = cellPipes e s + cellPipes (if s = [] then e else last s = CHR 0x5C) t"
  by (induction s arbitrary: e) auto

lemma cellPipes_none: "CHR ''|'' \<notin> set s \<Longrightarrow> cellPipes e s = 0"
  by (induction s arbitrary: e) auto

lemma cellPipes_mdPath: "cellPipes e (mdPath p) = 0"
proof (induction p arbitrary: e)
  case (Cons c p)
  have "mdPath (c # p) = mdByte c @ mdPath p" by (simp add: mdPath_def)
  then show ?case using Cons by (simp add: cellPipes_append mdByte_def)
qed (simp add: mdPath_def)

lemma Ranges_bytes: "c \<in> set (Ranges lines) \<Longrightarrow> isDigit c \<or> c = CHR ''-'' \<or> c = CHR '','' \<or> c = CHR '' ''"
proof -
  assume c: "c \<in> set (Ranges lines)"
  have "set (Ranges lines) \<subseteq> set '', '' \<union> (\<Union>w \<in> set (map spanString (LineSpans lines)). set w)"
    unfolding Ranges_def by (rule set_joinBytes)
  then show ?thesis using c by (auto simp: spanString_def split: if_splits dest!: itoa_chars)
qed

lemma ranges_row: "CHR ''|'' \<notin> set (Ranges lines)" "LF \<notin> set (Ranges lines)"
  using Ranges_bytes [of "CHR ''|''" lines] Ranges_bytes [of LF lines] by (auto simp: isDigit_def)

text \<open>One row of the table.\<close>

definition tableRow :: "fileCov \<Rightarrow> string" where
  "tableRow f = ''| '' @ [CHR 0x60] @ mdPath (fcPath f) @ [CHR 0x60] @ '' | '' @ Ranges (fcUncoveredLines f) @ '' |'' @ [LF]"

lemma tableRow_counts: "count_list (tableRow f) LF = 1" "cellPipes e (tableRow f) = (if e then 2 else 3)"
proof -
  have lf: "LF \<notin> set (mdPath (fcPath f))" using mdPath_bytes by blast
  show "count_list (tableRow f) LF = 1" using lf ranges_row by (simp add: tableRow_def count_notin)
  show "cellPipes e (tableRow f) = (if e then 2 else 3)"
    using ranges_row(1) by (simp add: tableRow_def cellPipes_append cellPipes_mdPath cellPipes_none)
qed

lemma rows_counts:
  "count_list (concat (map tableRow fs)) LF = length fs"
  "cellPipes False (concat (map tableRow fs) @ t) = 3 * length fs + cellPipes False t"
proof (induction fs)
  case (Cons f fs)
  have l: "tableRow f \<noteq> []" "last (tableRow f) \<noteq> CHR 0x5C" by (simp_all add: tableRow_def)
  {
    case 1
    show ?case using Cons.IH(1) by (simp add: tableRow_counts)
  next
    case 2
    show ?case using Cons.IH(2) l by (simp add: tableRow_counts cellPipes_append [of _ "tableRow f"])
  }
qed simp_all

text \<open>
  The pull request comment. Every body begins with the marker by which the next push finds
  it, so the comment is updated and not posted again; and no file name in it breaks the table of
  uncovered lines: the table has one line of three cell borders for each file shown, at most
  twenty, and one more for the rest.
\<close>

theorem pr_comment_well_formed:
  "hasPrefix (prCommentBody hosted u link deltaPct gate) PRCommentMarker
   \<and> count_list (uncoveredTable fs) LF = 5 + min 20 (length fs) + (if length fs > 20 then 1 else 0)
   \<and> cellPipes False (uncoveredTable fs) = 3 * (2 + min 20 (length fs) + (if length fs > 20 then 1 else 0))"
proof -
  let ?rows = "concat (map tableRow (take 20 fs))"
  define more where "more = (if length fs > 20 then ''| '' @ ellipsis @ '' | and '' @ itoa (int (length fs) - 20) @ '' more files |'' @ [LF] else [])"
  define head where "head = LF # ''Uncovered changed lines:'' @ [LF, LF] @ ''| File | Lines |'' @ [LF] @ ''| --- | --- |'' @ [LF]"
  have t: "uncoveredTable fs = head @ ?rows @ more"
    unfolding uncoveredTable_def prCommentMaxFiles_def tableRow_def head_def more_def by simp
  have digits: "CHR ''|'' \<notin> set (itoa n)" "LF \<notin> set (itoa n)" for n by (rule itoa_no_byte; simp add: isDigit_def)+
  have m: "count_list more LF = (if length fs > 20 then 1 else 0)" "cellPipes False more = (if length fs > 20 then 3 else 0)"
    using digits by (simp_all add: more_def ellipsis_def cellPipes_append cellPipes_none count_notin)
  have h: "count_list head LF = 5" "cellPipes False (head @ s) = 6 + cellPipes False s" for s
    by (simp_all add: head_def cellPipes_append)
  have "count_list (uncoveredTable fs) LF = 5 + (length (take 20 fs) + count_list more LF)"
    "cellPipes False (uncoveredTable fs) = 6 + (3 * length (take 20 fs) + cellPipes False more)"
    unfolding t count_list_append h rows_counts by simp_all
  then have "count_list (uncoveredTable fs) LF = 5 + min 20 (length fs) + (if length fs > 20 then 1 else 0)"
    "cellPipes False (uncoveredTable fs) = 3 * (2 + min 20 (length fs) + (if length fs > 20 then 1 else 0))"
    unfolding m by (auto simp: min_def)
  moreover have "hasPrefix (prCommentBody hosted u link deltaPct gate) PRCommentMarker"
    by (simp add: prCommentBody_def PRCommentMarker_def)
  ultimately show ?thesis by blast
qed

end
