(* ===== verification/GoURL.thy ===== *)
theory GoURL
  imports GoStrings
begin

text \<open>
  What the source uses of Go's \<open>net/url\<close> and \<open>path\<close>: \<open>url.Parse\<close> with the pieces of its result,
  \<open>EscapedPath\<close>, \<open>EscapedFragment\<close>, \<open>QueryEscape\<close>, \<open>QueryUnescape\<close> and \<open>path.Clean\<close>. How the authority of a
  URL splits into user and host, and which hosts are well formed, is an argument.
\<close>

section \<open>Escaping\<close>

datatype urlMode = PathMode | FragmentMode | QueryMode

definition alnum :: "char \<Rightarrow> bool" where
  "alnum c \<longleftrightarrow> (CHR ''a'' \<le> c \<and> c \<le> CHR ''z'') \<or> (CHR ''A'' \<le> c \<and> c \<le> CHR ''Z'') \<or> (CHR ''0'' \<le> c \<and> c \<le> CHR ''9'')"

definition shouldEscape :: "urlMode \<Rightarrow> char \<Rightarrow> bool" where
  "shouldEscape mode c =
     (if alnum c \<or> c \<in> set ''-_.~'' then False
      else if c \<in> set ''$&+,/:;=?@'' then (case mode of PathMode \<Rightarrow> c = CHR ''?'' | QueryMode \<Rightarrow> True | FragmentMode \<Rightarrow> False)
      else if mode = FragmentMode \<and> c \<in> set ''!()*'' then False
      else True)"

definition hexDigit :: "nat \<Rightarrow> char" where
  "hexDigit n = char_of (if n < 10 then 48 + n else 55 + n)"

definition urlEscape :: "urlMode \<Rightarrow> string \<Rightarrow> string" where
  "urlEscape mode s = concat (map (\<lambda>c.
     if shouldEscape mode c
     then (if c = CHR '' '' \<and> mode = QueryMode then ''+'' else [CHR ''%'', hexDigit (of_char c div 16), hexDigit (of_char c mod 16)])
     else [c]) s)"

definition unhex :: "char \<Rightarrow> nat option" where
  "unhex c =
     (if CHR ''0'' \<le> c \<and> c \<le> CHR ''9'' then Some (of_char c - 48)
      else if CHR ''a'' \<le> c \<and> c \<le> CHR ''f'' then Some (of_char c - 87)
      else if CHR ''A'' \<le> c \<and> c \<le> CHR ''F'' then Some (of_char c - 55)
      else None)"

fun urlUnescape :: "urlMode \<Rightarrow> string \<Rightarrow> string option" where
  "urlUnescape mode [] = Some []"
| "urlUnescape mode (c # s) =
     (if c = CHR ''%'' then
        (case s of
           a # b # r \<Rightarrow>
             (case (unhex a, unhex b) of
                (Some x, Some y) \<Rightarrow> map_option (\<lambda>t. char_of (16 * x + y) # t) (urlUnescape mode r)
              | _ \<Rightarrow> None)
         | _ \<Rightarrow> None)
      else map_option (\<lambda>t. (if c = CHR ''+'' \<and> mode = QueryMode then CHR '' '' else c) # t) (urlUnescape mode s))"

definition validEncoded :: "urlMode \<Rightarrow> string \<Rightarrow> bool" where
  "validEncoded mode s \<longleftrightarrow> list_all (\<lambda>c. c \<in> set ''!$&()*+,;=:@[]%'' \<or> c = CHR 0x27 \<or> \<not> shouldEscape mode c) s"

definition queryEscape :: "string \<Rightarrow> string" where
  "queryEscape s = urlEscape QueryMode s"

definition queryUnescape :: "string \<Rightarrow> string option" where
  "queryUnescape s = urlUnescape QueryMode s"

section \<open>Parsing\<close>

record goURL =
  uScheme :: string
  uOpaque :: string
  uUser :: "string option"
  uHost :: string
  uPath :: string
  uRawPath :: string
  uForceQuery :: bool
  uRawQuery :: string
  uFragment :: string
  uRawFragment :: string

definition zeroURL :: goURL where
  "zeroURL = \<lparr>uScheme = [], uOpaque = [], uUser = None, uHost = [], uPath = [], uRawPath = [], uForceQuery = False,
     uRawQuery = [], uFragment = [], uRawFragment = []\<rparr>"

definition controlByte :: "char \<Rightarrow> bool" where
  "controlByte c \<longleftrightarrow> c < CHR '' '' \<or> c = CHR 0x7F"

definition asciiLower :: "char \<Rightarrow> char" where
  "asciiLower c = (if CHR ''A'' \<le> c \<and> c \<le> CHR ''Z'' then char_of (of_char c + 32 :: nat) else c)"

text \<open>\<open>getScheme\<close>: \<open>None\<close> for a missing scheme before a colon.\<close>

definition schemeChar :: "char \<Rightarrow> bool" where
  "schemeChar c \<longleftrightarrow> alnum c \<or> c \<in> set ''+-.''"

definition getScheme :: "string \<Rightarrow> (string \<times> string) option" where
  "getScheme s =
     (let a = takeWhile schemeChar s; r = dropWhile schemeChar s
      in if r = [] \<or> hd r \<noteq> CHR '':'' then Some ([], s)
         else if a = [] then None
         else if \<not> (alnum (hd a) \<and> \<not> isDigit (hd a)) then Some ([], s)
         else Some (a, tl r))"

text \<open>\<open>strings.Cut\<close> at a byte: without it, everything is before.\<close>

definition cutAt :: "char \<Rightarrow> string \<Rightarrow> string \<times> string" where
  "cutAt c s = (case cutByte c s of None \<Rightarrow> (s, []) | Some p \<Rightarrow> p)"

definition setPath :: "goURL \<Rightarrow> string \<Rightarrow> goURL option" where
  "setPath u p =
     (case urlUnescape PathMode p of
        None \<Rightarrow> None
      | Some path \<Rightarrow> Some (u\<lparr>uPath := path, uRawPath := (if p = urlEscape PathMode path then [] else p)\<rparr>))"

definition setFragment :: "goURL \<Rightarrow> string \<Rightarrow> goURL option" where
  "setFragment u f =
     (case urlUnescape FragmentMode f of
        None \<Rightarrow> None
      | Some frag \<Rightarrow> Some (u\<lparr>uFragment := frag, uRawFragment := (if f = urlEscape FragmentMode frag then [] else f)\<rparr>))"

definition parseNoFragment :: "(string \<Rightarrow> (string option \<times> string) option) \<Rightarrow> string \<Rightarrow> goURL option" where
  "parseNoFragment authority s =
     (if list_ex controlByte s then None
      else if s = ''*'' then Some (zeroURL\<lparr>uPath := ''*''\<rparr>)
      else case getScheme s of
        None \<Rightarrow> None
      | Some (scheme, rest) \<Rightarrow>
          (let u = zeroURL\<lparr>uScheme := map asciiLower scheme\<rparr>;
               (u, rest) = (if hasSuffix rest ''?'' \<and> count_list rest (CHR ''?'') = 1
                 then (u\<lparr>uForceQuery := True\<rparr>, butlast rest)
                 else (u\<lparr>uRawQuery := snd (cutAt CHR ''?'' rest)\<rparr>, fst (cutAt CHR ''?'' rest)))
           in if \<not> hasPrefix rest ''/'' \<and> scheme \<noteq> [] then Some (u\<lparr>uOpaque := rest\<rparr>)
              else if \<not> hasPrefix rest ''/'' \<and> CHR '':'' \<in> set (fst (cutAt CHR ''/'' rest)) then None
              else if (scheme \<noteq> [] \<or> \<not> hasPrefix rest ''///'') \<and> hasPrefix rest ''//'' then
                (let a = takeWhile (\<lambda>c. c \<noteq> CHR ''/'') (drop 2 rest); p = dropWhile (\<lambda>c. c \<noteq> CHR ''/'') (drop 2 rest)
                 in case authority a of
                   None \<Rightarrow> None
                 | Some (user, host) \<Rightarrow> setPath (u\<lparr>uUser := user, uHost := host\<rparr>) p)
              else setPath u rest))"

definition urlParse :: "(string \<Rightarrow> (string option \<times> string) option) \<Rightarrow> string \<Rightarrow> goURL option" where
  "urlParse authority s =
     (let (u, frag) = cutAt CHR ''#'' s
      in case parseNoFragment authority u of
        None \<Rightarrow> None
      | Some url \<Rightarrow> if frag = [] then Some url else setFragment url frag)"

definition escapedAs :: "urlMode \<Rightarrow> string \<Rightarrow> string \<Rightarrow> string" where
  "escapedAs mode raw plain =
     (if raw \<noteq> [] \<and> validEncoded mode raw \<and> urlUnescape mode raw = Some plain then raw else urlEscape mode plain)"

definition EscapedPath :: "goURL \<Rightarrow> string" where
  "EscapedPath u =
     (if uRawPath u \<noteq> [] \<and> validEncoded PathMode (uRawPath u) \<and> urlUnescape PathMode (uRawPath u) = Some (uPath u) then uRawPath u
      else if uPath u = ''*'' then ''*''
      else urlEscape PathMode (uPath u))"

definition EscapedFragment :: "goURL \<Rightarrow> string" where
  "EscapedFragment u = escapedAs FragmentMode (uRawFragment u) (uFragment u)"

section \<open>path.Clean\<close>

fun cleanLoop :: "bool \<Rightarrow> string list \<Rightarrow> string list \<Rightarrow> string list" where
  "cleanLoop rooted out [] = out"
| "cleanLoop rooted out (seg # segs) =
     (if seg = [] \<or> seg = ''.'' then cleanLoop rooted out segs
      else if seg = ''..'' then
        (if out \<noteq> [] \<and> last out \<noteq> ''..'' then cleanLoop rooted (butlast out) segs
         else if rooted then cleanLoop rooted out segs
         else cleanLoop rooted (out @ [seg]) segs)
      else cleanLoop rooted (out @ [seg]) segs)"

definition pathClean :: "string \<Rightarrow> string" where
  "pathClean p =
     (if p = [] then ''.''
      else let rooted = hasPrefix p ''/''; body = joinWith ''/'' (cleanLoop rooted [] (splitByte CHR ''/'' p))
        in if rooted then ''/'' @ body else if body = [] then ''.'' else body)"

section \<open>What comes out\<close>

text \<open>Bytes a browser reads in a URL as they stand: no control byte and no backslash.\<close>

definition plainByte :: "char \<Rightarrow> bool" where
  "plainByte c \<longleftrightarrow> \<not> controlByte c \<and> c \<noteq> CHR 0x5C"

lemma char_below: "(of_char c :: nat) < 256"
proof -
  have "(of_char c :: nat) mod 256 < 256" by simp
  then show ?thesis by simp
qed

definition oddBytes :: string where
  "oddBytes = map char_of ([0..<32] @ [127, 92 :: nat])"

lemma odd_bytes: "\<not> plainByte c \<Longrightarrow> c \<in> set oddBytes"
proof -
  assume "\<not> plainByte c"
  then consider "c < CHR '' ''" | "c = CHR 0x7F" | "c = CHR 0x5C" by (auto simp: plainByte_def controlByte_def)
  then show "c \<in> set oddBytes"
  proof cases
    case 1
    then have "(of_char c :: nat) < 32" by (simp add: less_char_def)
    then have "(of_char c :: nat) \<in> set ([0..<32] @ [127, 92])" by simp
    then have "char_of (of_char c :: nat) \<in> char_of ` set ([0..<32] @ [127, 92])" by (rule imageI)
    then show ?thesis by (simp only: oddBytes_def set_map) simp
  next
    case 2
    moreover have "list_ex (\<lambda>x. x = CHR 0x7F) oddBytes" by code_simp
    ultimately show ?thesis by (auto simp: list_ex_iff)
  next
    case 3
    moreover have "list_ex (\<lambda>x. x = CHR 0x5C) oddBytes" by code_simp
    ultimately show ?thesis by (auto simp: list_ex_iff)
  qed
qed

lemma unescaped_plain: "shouldEscape mode c \<or> plainByte c"
proof (cases "plainByte c")
  case False
  have "list_all (shouldEscape PathMode) oddBytes" "list_all (shouldEscape FragmentMode) oddBytes" "list_all (shouldEscape QueryMode) oddBytes"
    by code_simp+
  then have "shouldEscape mode c" using odd_bytes [OF False] by (cases mode) (simp_all add: list_all_iff)
  then show ?thesis ..
qed simp

lemma hexDigit_plain: "plainByte (hexDigit (of_char c div 16)) \<and> plainByte (hexDigit (of_char c mod 16))"
proof -
  have "list_all (\<lambda>n. plainByte (hexDigit n)) [0..<16]" by code_simp
  then have "n < 16 \<Longrightarrow> plainByte (hexDigit n)" for n by (simp add: list_all_iff)
  moreover have "(of_char c :: nat) div 16 < 16" using char_below [of c] by linarith
  ultimately show ?thesis by simp
qed

lemma urlEscape_plain: "list_all plainByte (urlEscape mode s)"
proof -
  have "plainByte (CHR ''%'')" "plainByte (CHR ''+'')" by code_simp+
  then show ?thesis using unescaped_plain [of mode] hexDigit_plain by (auto simp: urlEscape_def list_all_iff)
qed

lemma validEncoded_plain: "validEncoded mode s \<Longrightarrow> list_all plainByte s"
proof -
  assume "validEncoded mode s"
  moreover have "list_all plainByte ''!$&()*+,;=:@[]%''" "plainByte (CHR 0x27)" by code_simp+
  ultimately show ?thesis using unescaped_plain [of mode] unfolding validEncoded_def list_all_iff by metis
qed

lemma escaped_plain: "list_all plainByte (EscapedPath u)" "list_all plainByte (EscapedFragment u)"
proof -
  have "list_all plainByte ''*''" by code_simp
  then show "list_all plainByte (EscapedPath u)" by (auto simp: EscapedPath_def validEncoded_plain urlEscape_plain)
  show "list_all plainByte (EscapedFragment u)" by (auto simp: EscapedFragment_def escapedAs_def validEncoded_plain urlEscape_plain)
qed

text \<open>A parsed URL's query has no control byte, and no byte that was not in the text.\<close>

lemma cutAt_sets: "set (fst (cutAt c s)) \<subseteq> set s" "set (snd (cutAt c s)) \<subseteq> set s"
  by (auto simp: cutAt_def split: option.splits dest!: cutByte_Some)

lemma getScheme_sets: "getScheme s = Some (a, r) \<Longrightarrow> set r \<subseteq> set s"
proof -
  have "set (tl (dropWhile P s)) \<subseteq> set s" for P
    by (induction s) (auto dest: set_dropWhileD)
  then show "getScheme s = Some (a, r) \<Longrightarrow> set r \<subseteq> set s"
    by (auto simp: getScheme_def Let_def split: if_splits)
qed

lemma setPath_query: "setPath u p = Some v \<Longrightarrow> uRawQuery v = uRawQuery u"
  by (auto simp: setPath_def split: option.splits)

lemma urlParse_query:
  assumes "urlParse authority s = Some u"
  shows "list_all (\<lambda>c. c \<in> set s \<and> \<not> controlByte c) (uRawQuery u)"
proof -
  let ?s = "fst (cutAt CHR ''#'' s)"
  obtain v where v: "parseNoFragment authority ?s = Some v" "uRawQuery u = uRawQuery v"
    using assms by (auto simp: urlParse_def setFragment_def split: option.splits if_splits prod.splits)
  have q: "set (uRawQuery v) \<subseteq> set ?s \<and> (\<forall>c \<in> set ?s. \<not> controlByte c)"
  proof (cases "list_ex controlByte ?s \<or> ?s = ''*''")
    case True
    then show ?thesis using v(1) by (auto simp: parseNoFragment_def zeroURL_def list_ex_iff split: if_splits)
  next
    case False
    then obtain scheme rest where g: "getScheme ?s = Some (scheme, rest)"
      using v(1) by (cases "getScheme ?s") (auto simp: parseNoFragment_def)
    have "set (uRawQuery v) \<subseteq> set rest"
      using v(1) False g cutAt_sets(2) [of "CHR ''?''" rest]
      by (auto simp: parseNoFragment_def Let_def zeroURL_def split: if_splits option.splits prod.splits dest!: setPath_query)
    then show ?thesis using getScheme_sets [OF g] False by (auto simp: list_ex_iff)
  qed
  then show ?thesis using v(2) cutAt_sets(1) [of "CHR ''#''" s] by (auto simp: list_all_iff)
qed

text \<open>A cleaned rooted path: one slash, then segments that are not empty.\<close>

lemma cleanLoop_segs: "set (cleanLoop True out segs) \<subseteq> set out \<union> {w \<in> set segs. w \<noteq> []}"
proof (induction segs arbitrary: out)
  case (Cons w segs)
  have "set (butlast out) \<subseteq> set out" by (auto dest: in_set_butlastD)
  then show ?case using Cons.IH [of out] Cons.IH [of "butlast out"] Cons.IH [of "out @ [w]"] by auto
qed simp

lemma splitByte_segs: "\<forall>w \<in> set (splitByte c s). c \<notin> set w \<and> set w \<subseteq> set s"
  by (induction s) (auto split: list.splits)

lemma pathClean_rooted:
  assumes "hasPrefix p ''/''"
  obtains body where "pathClean p = ''/'' @ body" "\<not> hasPrefix body ''/''" "set body \<subseteq> set p"
proof -
  let ?ws = "cleanLoop True [] (splitByte CHR ''/'' p)"
  have ws: "\<forall>w \<in> set ?ws. w \<noteq> [] \<and> CHR ''/'' \<notin> set w \<and> set w \<subseteq> set p"
    using cleanLoop_segs [of "[]" "splitByte CHR ''/'' p"] splitByte_segs [of "CHR ''/''" p] by auto
  have slash: "CHR ''/'' \<in> set p" "p \<noteq> []" using assms by (auto simp: hasPrefix_iff)
  have "set (joinWith ''/'' ws) \<subseteq> {CHR ''/''} \<union> (\<Union>w \<in> set ws. set w)" for ws
    by (induction "''/''" ws rule: joinWith.induct) auto
  then have "set (joinWith ''/'' ?ws) \<subseteq> set p" using ws slash by blast
  moreover have "\<not> hasPrefix (joinWith ''/'' ?ws) ''/''"
  proof (cases ?ws)
    case (Cons w vs)
    then obtain d w' where "w = d # w'" "d \<noteq> CHR ''/''" using ws by (cases w) auto
    then show ?thesis using Cons by (cases vs) simp_all
  qed simp
  moreover have "pathClean p = ''/'' @ joinWith ''/'' ?ws" using slash by (simp add: pathClean_def assms)
  ultimately show thesis using that by blast
qed

end
