(* ===== verification/Access.thy ===== *)
theory Access
  imports Visibility GoURL
begin

text \<open>
  Who may see what: the session cookie and the sign-in wall of \<open>internal/server/session.go\<close>, and
  membership scopes and report pages of \<open>internal/server/scope.go\<close>, over the in-memory store. A
  request is what these functions read of it; an answer is what they write or let through. The
  hash of a session token is an argument (SHA-256, of which only its being a function is used).
\<close>

section \<open>Requests and configuration\<close>

record serverConfig =
  svAuths :: "string list"
  svPublicReports :: bool
  svHosted :: bool
  svBaseURL :: string
  svAllowedWorkspaces :: "string list"

record httpRequest =
  rqMethod :: string
  rqPath :: string
  rqRawQuery :: string
  rqSessionCookie :: "string option"

text \<open>What a refused or failed request is answered with.\<close>

datatype refusal =
    SignInRequired
  | NotFoundJSON
  | LoginRedirect string
  | NotFoundPage
  | InternalError

definition authEnabled :: "serverConfig \<Rightarrow> bool" where
  "authEnabled cfg \<longleftrightarrow> length (svAuths cfg) > 0"

definition apiUIPrefix :: string where
  "apiUIPrefix = ''/api/ui/''"

definition apiUIPath :: "string \<Rightarrow> bool" where
  "apiUIPath p \<longleftrightarrow> hasPrefix p apiUIPrefix"

definition apiSignedOutPath :: "string \<Rightarrow> bool" where
  "apiSignedOutPath p \<longleftrightarrow> p = ''/api/ui/session'' \<or> p = ''/api/ui/login''"

definition loginURL :: "string \<Rightarrow> string" where
  "loginURL next = ''/login?next='' @ queryEscape next"

definition redirectToLogin :: "httpRequest \<Rightarrow> refusal" where
  "redirectToLogin rq = LoginRedirect (loginURL (rqPath rq @ (if rqRawQuery rq \<noteq> [] then ''?'' @ rqRawQuery rq else [])))"

section \<open>The session and the sign-in wall\<close>

definition sessionTTL :: time where
  "sessionTTL = 30 * 24 * 3600 * 1000000000"

definition sessionUser :: "(string \<Rightarrow> string) \<Rightarrow> time \<Rightarrow> httpRequest \<Rightarrow> memStore \<Rightarrow> User option \<times> memStore" where
  "sessionUser hash now rq s =
     (case rqSessionCookie rq of
        None \<Rightarrow> (None, s)
      | Some v \<Rightarrow>
          if v = [] then (None, s)
          else (case UserBySession now (hash v) s of
              (Inl _, s) \<Rightarrow> (None, s)
            | (Inr u, s) \<Rightarrow> (Some u, s)))"

definition publicReportCandidate :: "serverConfig \<Rightarrow> httpRequest \<Rightarrow> bool" where
  "publicReportCandidate cfg rq \<longleftrightarrow>
     (if \<not> svPublicReports cfg \<or> (rqMethod rq \<noteq> ''GET'' \<and> rqMethod rq \<noteq> ''HEAD'') then False
      else if hasPrefix (rqPath rq) (apiUIPrefix @ ''repo-uploads/'') then True
      else let p = trimPrefix (rqPath rq) (trimSuffix apiUIPrefix ''/'')
        in hasPrefix p ''/repos/'' \<or> hasPrefix p ''/uploads/'')"

definition publicPath :: "string \<Rightarrow> bool" where
  "publicPath p \<longleftrightarrow>
     (if p = ''/api/v1/upload'' \<or> p = ''/healthz'' \<or> p = ''/login'' \<or>
         p = ''/mcp'' \<or> p = ''/mcp/register'' \<or> p = ''/mcp/token'' \<or>
         p = ''/github/webhook'' \<or> p = ''/robots.txt'' \<or> p = ''/sitemap.xml'' then True
      else hasPrefix p ''/badge/'' \<or> hasPrefix p ''/.well-known/'' \<or> hasPrefix p ''/api/v1/reports/''
         \<or> hasPrefix p ''/static/'' \<or> hasPrefix p ''/oauth/'')"

text \<open>A request let through, with its user and whether the answer may not be cached, or refused.\<close>

datatype wall = Through "User option" bool | Wall refusal

definition requireAuth :: "serverConfig \<Rightarrow> (string \<Rightarrow> string) \<Rightarrow> time \<Rightarrow> httpRequest \<Rightarrow> memStore \<Rightarrow> wall \<times> memStore" where
  "requireAuth cfg hash now rq s =
     (if \<not> authEnabled cfg \<or> publicPath (rqPath rq) then (Through None False, s)
      else case sessionUser hash now rq s of
        (None, s) \<Rightarrow>
          (if publicReportCandidate cfg rq \<or> apiSignedOutPath (rqPath rq) then Through None False
           else if apiUIPath (rqPath rq) then Wall SignInRequired
           else Wall (redirectToLogin rq), s)
      | (Some u, s) \<Rightarrow> (Through (Some u) True, s))"

text \<open>\<open>handleLogout\<close>: where the browser is sent; the session row goes first.\<close>

definition handleLogout :: "serverConfig \<Rightarrow> (string \<Rightarrow> string) \<Rightarrow> httpRequest \<Rightarrow> memStore \<Rightarrow> (refusal + string) \<times> memStore" where
  "handleLogout cfg hash rq s =
     (let (err, s) = (case rqSessionCookie rq of
            None \<Rightarrow> (None, s)
          | Some v \<Rightarrow>
              if v = [] then (None, s)
              else (case DeleteSession (hash v) s of
                  (Inl e, s) \<Rightarrow> (if e \<noteq> ErrNotFound then Some InternalError else None, s)
                | (Inr _, s) \<Rightarrow> (None, s)))
      in case err of
        Some e \<Rightarrow> (Inl e, s)
      | None \<Rightarrow> (Inr (if \<not> authEnabled cfg then ''/'' else ''/login''), s))"

section \<open>Scopes\<close>

record wsKey =
  wkForge :: string
  wkPrefix :: string

definition wsKeyString :: "wsKey \<Rightarrow> string" where
  "wsKeyString k = (if wkForge k = [] then wkPrefix k else wkForge k @ ''/'' @ wkPrefix k)"

record repoScope =
  scScoped :: bool
  scPrefixes :: "(wsKey, bool) gomap"

definition scopeFor :: "serverConfig \<Rightarrow> Workspace list \<Rightarrow> repoScope" where
  "scopeFor cfg memberships =
     (if \<not> authEnabled cfg then \<lparr>scScoped = False, scPrefixes = []\<rparr>
      else \<lparr>scScoped = True,
             scPrefixes = foldl (\<lambda>m ws. AList.update \<lparr>wkForge = wsForge ws, wkPrefix = wsPrefix ws\<rparr> True m) [] memberships\<rparr>)"

definition viewerWorkspaces :: "serverConfig \<Rightarrow> User option \<Rightarrow> memStore \<Rightarrow> Workspace list" where
  "viewerWorkspaces cfg user s =
     (case user of
        Some u \<Rightarrow> ListWorkspacesForUser (usID u) s
      | None \<Rightarrow> if \<not> authEnabled cfg then ListWorkspaces s else [])"

definition userScope :: "serverConfig \<Rightarrow> User option \<Rightarrow> memStore \<Rightarrow> repoScope" where
  "userScope cfg user s =
     (if \<not> authEnabled cfg then \<lparr>scScoped = False, scPrefixes = []\<rparr> else scopeFor cfg (viewerWorkspaces cfg user s))"

definition allows :: "repoScope \<Rightarrow> Repo \<Rightarrow> bool" where
  "allows rs repo =
     (if \<not> scScoped rs then True
      else list_ex (\<lambda>prefix. map_of (scPrefixes rs) \<lparr>wkForge = rpForge repo, wkPrefix = prefix\<rparr> = Some True) (SlugPrefixes (rpSlug repo)))"

definition canView :: "serverConfig \<Rightarrow> User option \<Rightarrow> Repo \<Rightarrow> memStore \<Rightarrow> bool" where
  "canView cfg user repo s = allows (userScope cfg user s) repo"

fun owningLoop :: "Repo \<Rightarrow> Workspace list \<Rightarrow> string list \<Rightarrow> Workspace option" where
  "owningLoop repo candidates [] = None"
| "owningLoop repo candidates (prefix # ps) =
     (case find (\<lambda>ws. wsForge ws = rpForge repo \<and> wsPrefix ws = prefix) candidates of
        Some ws \<Rightarrow> Some ws
      | None \<Rightarrow> owningLoop repo candidates ps)"

definition owningWorkspace :: "Repo \<Rightarrow> Workspace list \<Rightarrow> Workspace option" where
  "owningWorkspace repo candidates = owningLoop repo candidates (SlugPrefixes (rpSlug repo))"

section \<open>Report pages\<close>

definition reportNotFound :: "serverConfig \<Rightarrow> httpRequest \<Rightarrow> User option \<Rightarrow> refusal" where
  "reportNotFound cfg rq user =
     (let signedOut = (authEnabled cfg \<and> user = None)
      in if apiUIPath (rqPath rq) then (if signedOut then SignInRequired else NotFoundJSON)
         else if signedOut then redirectToLogin rq else NotFoundPage)"

text \<open>Passed as a member or not, and whether the answer is cacheable for anyone; or refused.\<close>

definition authorizeReport :: "serverConfig \<Rightarrow> time \<Rightarrow> httpRequest \<Rightarrow> User option \<Rightarrow> Repo \<Rightarrow> visState \<times> memStore \<Rightarrow> (refusal + bool \<times> bool) \<times> visState" where
  "authorizeReport cfg now rq user repo vs =
     (let (v, s) = vs
      in if canView cfg user repo s then (Inr (True, False), v)
         else if svPublicReports cfg \<and> ReportsPublic repo then
           (Inr (False, user = None), snd (ReverifyVisibilityIfStale now repo v))
         else (Inl (reportNotFound cfg rq user), v))"

definition reportRepo :: "serverConfig \<Rightarrow> time \<Rightarrow> httpRequest \<Rightarrow> User option \<Rightarrow> string \<Rightarrow> string \<Rightarrow> visState \<times> memStore
    \<Rightarrow> (refusal + Repo \<times> bool \<times> bool) \<times> visState" where
  "reportRepo cfg now rq user forge slug vs =
     (case RepoBySlug forge slug (snd vs) of
        Inl e \<Rightarrow> (Inl (if e = ErrNotFound then reportNotFound cfg rq user else InternalError), fst vs)
      | Inr repo \<Rightarrow>
          (case authorizeReport cfg now rq user repo vs of
             (Inl r, v) \<Rightarrow> (Inl r, v)
           | (Inr (member, cacheable), v) \<Rightarrow> (Inr (repo, member, cacheable), v)))"

definition reportUpload :: "serverConfig \<Rightarrow> time \<Rightarrow> httpRequest \<Rightarrow> User option \<Rightarrow> string \<Rightarrow> visState \<times> memStore
    \<Rightarrow> (refusal + Upload \<times> Repo) \<times> visState" where
  "reportUpload cfg now rq user idText vs =
     (case atoi idText of
        None \<Rightarrow> (Inl (reportNotFound cfg rq user), fst vs)
      | Some i \<Rightarrow>
          (case getUpload i (snd vs) of
             Inl e \<Rightarrow> (Inl (if e = ErrNotFound then reportNotFound cfg rq user else InternalError), fst vs)
           | Inr upload \<Rightarrow>
               (case RepoByID (upRepoID upload) (snd vs) of
                  Inl _ \<Rightarrow> (Inl InternalError, fst vs)
                | Inr repo \<Rightarrow>
                    (case authorizeReport cfg now rq user repo vs of
                       (Inl r, v) \<Rightarrow> (Inl r, v)
                     | (Inr _, v) \<Rightarrow> (Inr (upload, repo), v)))))"

section \<open>Who may sign in\<close>

definition allowedWorkspaceSet :: "serverConfig \<Rightarrow> memStore \<Rightarrow> (wsKey, bool) gomap" where
  "allowedWorkspaceSet cfg s =
     (if length (svAllowedWorkspaces cfg) > 0 then
        foldl (\<lambda>m ws. AList.update \<lparr>wkForge = [], wkPrefix = ws\<rparr> True m) [] (svAllowedWorkspaces cfg)
      else
        let m = foldl (\<lambda>m ws. AList.update \<lparr>wkForge = wsForge ws, wkPrefix = wsPrefix ws\<rparr> True m) [] (ListWorkspaces s)
        in foldl (\<lambda>m repo. foldl (\<lambda>m prefix. AList.update \<lparr>wkForge = rpForge repo, wkPrefix = prefix\<rparr> True m) m (SlugPrefixes (rpSlug repo)))
             m (ListRepos s))"

definition admits :: "(wsKey, bool) gomap \<Rightarrow> string \<Rightarrow> string \<Rightarrow> bool" where
  "admits allowed forge name \<longleftrightarrow>
     map_of allowed \<lparr>wkForge = forge, wkPrefix = name\<rparr> = Some True \<or> map_of allowed \<lparr>wkForge = [], wkPrefix = name\<rparr> = Some True"

definition compareWsKey :: "wsKey \<Rightarrow> wsKey \<Rightarrow> int" where
  "compareWsKey a b = cmpOr [cmpCompare (wkForge a) (wkForge b), cmpCompare (wkPrefix a) (wkPrefix b)]"

definition sortedKeys :: "(wsKey, bool) gomap \<Rightarrow> wsKey list" where
  "sortedKeys m = sort_key (\<lambda>k. (wkForge k, wkPrefix k)) (map fst m)"

definition trackedWorkspaceKeys :: "serverConfig \<Rightarrow> memStore \<Rightarrow> wsKey list" where
  "trackedWorkspaceKeys cfg s = sortedKeys (allowedWorkspaceSet cfg s)"

section \<open>What a scope allows\<close>

lemma keys_of_loop:
  "map_of (foldl (\<lambda>m x. AList.update (f x) True m) m0 xs) k = Some True \<longleftrightarrow> k \<in> f ` set xs \<or> map_of m0 k = Some True"
  by (induction xs arbitrary: m0) auto

lemma SlugPrefixes_iff [simp]: "p \<in> set (SlugPrefixes slug) \<longleftrightarrow> hasPrefix slug (p @ ''/'')"
  using SlugPrefixes_spec [of slug] by simp

lemma allows_scope:
  "authEnabled cfg \<Longrightarrow> allows (scopeFor cfg wss) repo \<longleftrightarrow> (\<exists>ws \<in> set wss. Owns ws repo)"
  by (auto simp: allows_def scopeFor_def keys_of_loop list_ex_iff Owns_def)

text \<open>A user is a member of a workspace the repo lies under, at any depth, on the same forge.\<close>

definition memberFor :: "memStore \<Rightarrow> User \<Rightarrow> Repo \<Rightarrow> bool" where
  "memberFor s u repo \<longleftrightarrow> (\<exists>wid ws. map_of (membersOf s (usID u)) wid \<noteq> None \<and> map_of (workspaces s) wid = Some ws \<and> Owns ws repo)"

lemma set_ListWorkspacesForUser:
  assumes "storeInv s"
  shows "ws \<in> set (ListWorkspacesForUser uid s) \<longleftrightarrow> (\<exists>wid. map_of (membersOf s uid) wid \<noteq> None \<and> map_of (workspaces s) wid = Some ws)"
proof -
  have w: "wfMap (membersOf s uid)" using membersOf_wf inv_parts(6) [OF assms] by blast
  have "(wid, role) \<in> set (membersOf s uid) \<longleftrightarrow> map_of (membersOf s uid) wid = Some role" for wid role
    using w by (simp add: wfMap_def)
  moreover have "ws \<in> set (ListWorkspacesForUser uid s) \<longleftrightarrow> (\<exists>wid role. (wid, role) \<in> set (membersOf s uid) \<and> map_of (workspaces s) wid = Some ws)"
    by (force simp: ListWorkspacesForUser_def map_filter_def)
  ultimately show ?thesis by auto
qed

lemma canView_member:
  assumes "storeInv s" and "authEnabled cfg"
  shows "canView cfg user repo s \<longleftrightarrow> (\<exists>u. user = Some u \<and> memberFor s u repo)"
proof (cases user)
  case (Some u)
  then have "canView cfg user repo s \<longleftrightarrow> (\<exists>ws \<in> set (ListWorkspacesForUser (usID u) s). Owns ws repo)"
    using assms(2) by (simp add: canView_def userScope_def allows_scope viewerWorkspaces_def)
  also have "\<dots> \<longleftrightarrow> memberFor s u repo" unfolding memberFor_def Bex_def set_ListWorkspacesForUser [OF assms(1)] by blast
  finally show ?thesis using Some by simp
qed (use assms in \<open>simp add: canView_def userScope_def allows_scope viewerWorkspaces_def\<close>)

lemma RepoBySlug_row:
  assumes "storeInv s"
  shows "RepoBySlug forge slug s = Inr r \<longleftrightarrow> (\<exists>k. map_of (repos s) k = Some r) \<and> rpForge r = forge \<and> rpSlug r = slug"
    "RepoBySlug forge slug s = Inl e \<Longrightarrow> e = ErrNotFound"
proof -
  have w: "wfMap (repos s)" "uniqueBy byForgeSlug (repos s)" using inv_parts(1) [OF assms] by (auto simp: repoInv_def)
  show "RepoBySlug forge slug s = Inr r \<longleftrightarrow> (\<exists>k. map_of (repos s) k = Some r) \<and> rpForge r = forge \<and> rpSlug r = slug"
    using get_findVal [OF w, where keep = "\<lambda>r. rpForge r = forge \<and> rpSlug r = slug" and x = "(forge, slug)"]
    by (simp add: RepoBySlug_def byForgeSlug_def)
  show "RepoBySlug forge slug s = Inl e \<Longrightarrow> e = ErrNotFound"
    by (auto simp: RepoBySlug_def rowOr_def split: option.splits)
qed

section \<open>Sessions\<close>

text \<open>The account whose unexpired session the request carries.\<close>

definition signedInAs :: "(string \<Rightarrow> string) \<Rightarrow> time \<Rightarrow> httpRequest \<Rightarrow> memStore \<Rightarrow> User \<Rightarrow> bool" where
  "signedInAs hash now rq s u \<longleftrightarrow> (\<exists>v sess. rqSessionCookie rq = Some v \<and> v \<noteq> [] \<and> map_of (sessions s) (hash v) = Some sess
     \<and> now < seExpiresAt sess \<and> map_of (users s) (seUserID sess) = Some u)"

lemma sessionUser_spec:
  "fst (sessionUser hash now rq s) = Some u \<longleftrightarrow> signedInAs hash now rq s u"
  "repos (snd (sessionUser hash now rq s)) = repos s" "workspaces (snd (sessionUser hash now rq s)) = workspaces s"
  "membersOf (snd (sessionUser hash now rq s)) = membersOf s" "uploads (snd (sessionUser hash now rq s)) = uploads s"
  by (auto simp: sessionUser_def UserBySession_def signedInAs_def membersOf_def rowOr_def fun_eq_iff split: option.splits if_splits)

lemma sessionUser_inv: "storeInv s \<Longrightarrow> storeInv (snd (sessionUser hash now rq s))"
  using memStep_inv [OF step_UserBySession] by (auto simp: sessionUser_def split: option.split prod.split sum.split) (metis snd_conv)+

section \<open>Report pages\<close>

text \<open>A report page as it is reached: the sign-in wall, then the prelude of the page.\<close>

definition repoPage :: "serverConfig \<Rightarrow> (string \<Rightarrow> string) \<Rightarrow> time \<Rightarrow> httpRequest \<Rightarrow> string \<Rightarrow> string \<Rightarrow> visState \<times> memStore
    \<Rightarrow> refusal + Repo \<times> bool \<times> bool" where
  "repoPage cfg hash now rq forge slug vs =
     (case requireAuth cfg hash now rq (snd vs) of
        (Wall r, s) \<Rightarrow> Inl r
      | (Through user noStore, s) \<Rightarrow> fst (reportRepo cfg now rq user forge slug (fst vs, s)))"

definition uploadPage :: "serverConfig \<Rightarrow> (string \<Rightarrow> string) \<Rightarrow> time \<Rightarrow> httpRequest \<Rightarrow> string \<Rightarrow> visState \<times> memStore
    \<Rightarrow> refusal + Upload \<times> Repo" where
  "uploadPage cfg hash now rq idText vs =
     (case requireAuth cfg hash now rq (snd vs) of
        (Wall r, s) \<Rightarrow> Inl r
      | (Through user noStore, s) \<Rightarrow> fst (reportUpload cfg now rq user idText (fst vs, s)))"

text \<open>Who a page of the repo is for: members, and anyone when its reports are effectively public.\<close>

definition mayRead :: "serverConfig \<Rightarrow> (string \<Rightarrow> string) \<Rightarrow> time \<Rightarrow> httpRequest \<Rightarrow> memStore \<Rightarrow> Repo \<Rightarrow> bool" where
  "mayRead cfg hash now rq s repo \<longleftrightarrow>
     (\<exists>u. signedInAs hash now rq s u \<and> memberFor s u repo) \<or> svPublicReports cfg \<and> ReportsPublic repo"

definition reportRefused :: "serverConfig \<Rightarrow> (string \<Rightarrow> string) \<Rightarrow> time \<Rightarrow> httpRequest \<Rightarrow> memStore \<Rightarrow> refusal" where
  "reportRefused cfg hash now rq s = (if \<exists>u. signedInAs hash now rq s u then NotFoundPage else redirectToLogin rq)"

text \<open>The wall in front of a page under \<open>/repos/\<close> or \<open>/uploads/\<close>.\<close>

lemma wall_of_report:
  assumes "authEnabled cfg" and "hasPrefix (rqPath rq) ''/repos/'' \<or> hasPrefix (rqPath rq) ''/uploads/''"
    and "rqMethod rq = ''GET'' \<or> rqMethod rq = ''HEAD''"
  shows "requireAuth cfg hash now rq s =
    (case sessionUser hash now rq s of
       (None, s') \<Rightarrow> (if svPublicReports cfg then Through None False else Wall (redirectToLogin rq), s')
     | (Some u, s') \<Rightarrow> (Through (Some u) True, s'))" "\<not> apiUIPath (rqPath rq)"
proof -
  obtain x where x: "rqPath rq = ''/repos/'' @ x \<or> rqPath rq = ''/uploads/'' @ x" using assms(2) by (auto simp: hasPrefix_iff)
  then have api: "\<not> apiUIPath (rqPath rq)" "\<not> apiSignedOutPath (rqPath rq)" by (auto simp: apiUIPath_def apiUIPrefix_def hasPrefix_iff apiSignedOutPath_def)
  have "\<not> publicPath (rqPath rq)" using x by (auto simp: publicPath_def hasPrefix_iff)
  moreover have "publicReportCandidate cfg rq \<longleftrightarrow> svPublicReports cfg"
    using x assms(3) by (auto simp: publicReportCandidate_def apiUIPrefix_def hasPrefix_iff trimPrefix_def trimSuffix_def Let_def)
  ultimately show "requireAuth cfg hash now rq s =
    (case sessionUser hash now rq s of
       (None, s') \<Rightarrow> (if svPublicReports cfg then Through None False else Wall (redirectToLogin rq), s')
     | (Some u, s') \<Rightarrow> (Through (Some u) True, s'))"
    using assms(1) api by (simp add: requireAuth_def)
  show "\<not> apiUIPath (rqPath rq)" by (rule api)
qed

lemma authorizeReport_exact:
  assumes "storeInv s" and "authEnabled cfg"
  shows "fst (authorizeReport cfg now rq user repo (v, s)) =
    (if \<exists>u. user = Some u \<and> memberFor s u repo then Inr (True, False)
     else if svPublicReports cfg \<and> ReportsPublic repo then Inr (False, user = None)
     else Inl (reportNotFound cfg rq user))"
  unfolding authorizeReport_def prod.case canView_member [OF assms] Let_def by simp

lemma signed_in_once: "signedInAs hash now rq s u \<Longrightarrow> signedInAs hash now rq s w \<Longrightarrow> w = u"
  by (auto simp: signedInAs_def)

text \<open>The answer to a report page in full.\<close>

lemma reportRefused_eq:
  assumes "authEnabled cfg" and "\<not> apiUIPath (rqPath rq)"
  shows "reportNotFound cfg rq (fst (sessionUser hash now rq s)) = reportRefused cfg hash now rq s"
proof -
  have "fst (sessionUser hash now rq s) = None \<longleftrightarrow> \<not> (\<exists>u. signedInAs hash now rq s u)"
    unfolding sessionUser_spec(1) [symmetric] by auto
  then show ?thesis using assms by (cases "\<exists>u. signedInAs hash now rq s u") (auto simp: reportNotFound_def reportRefused_def)
qed

lemma authorize_visitor:
  fixes hash :: "string \<Rightarrow> string" and now :: time
  assumes "storeInv s" and "authEnabled cfg" and "\<not> apiUIPath (rqPath rq)"
  defines "user \<equiv> fst (sessionUser hash now rq s)" and "s' \<equiv> snd (sessionUser hash now rq s)"
  shows "fst (authorizeReport cfg now rq user repo (v, s')) =
    (if \<exists>u. signedInAs hash now rq s u \<and> memberFor s u repo then Inr (True, False)
     else if svPublicReports cfg \<and> ReportsPublic repo then Inr (False, \<not> (\<exists>u. signedInAs hash now rq s u))
     else Inl (reportRefused cfg hash now rq s))"
proof -
  have inv: "storeInv s'" unfolding s'_def using assms(1) by (rule sessionUser_inv)
  have m: "memberFor s' u repo = memberFor s u repo" for u by (simp add: memberFor_def s'_def sessionUser_spec)
  have u: "user = Some u \<longleftrightarrow> signedInAs hash now rq s u" for u by (simp add: user_def sessionUser_spec)
  then have none: "user = None \<longleftrightarrow> \<not> (\<exists>u. signedInAs hash now rq s u)" by (metis not_None_eq)
  show ?thesis unfolding authorizeReport_exact [OF inv assms(2)] m u none
    using reportRefused_eq [OF assms(2,3), of hash now s] by (simp add: user_def)
qed

lemma repoPage_exact:
  assumes "storeInv s" and "authEnabled cfg" and "rqPath rq = ''/repos/'' @ rest" and "rqMethod rq = ''GET'' \<or> rqMethod rq = ''HEAD''"
  shows "repoPage cfg hash now rq forge slug (v, s) =
    (case RepoBySlug forge slug s of
       Inl _ \<Rightarrow> Inl (reportRefused cfg hash now rq s)
     | Inr repo \<Rightarrow>
         (if \<exists>u. signedInAs hash now rq s u \<and> memberFor s u repo then Inr (repo, True, False)
          else if svPublicReports cfg \<and> ReportsPublic repo then Inr (repo, False, \<not> (\<exists>u. signedInAs hash now rq s u))
          else Inl (reportRefused cfg hash now rq s)))"
proof -
  let ?u = "fst (sessionUser hash now rq s)" and ?s = "snd (sessionUser hash now rq s)"
  have p: "hasPrefix (rqPath rq) ''/repos/'' \<or> hasPrefix (rqPath rq) ''/uploads/''" by (simp add: assms(3) hasPrefix_iff)
  note w = wall_of_report [OF assms(2) p assms(4)]
  have look: "RepoBySlug forge slug ?s = RepoBySlug forge slug s" by (simp add: RepoBySlug_def sessionUser_spec)
  have ref: "reportNotFound cfg rq ?u = reportRefused cfg hash now rq s" by (rule reportRefused_eq [OF assms(2) w(2)])
  have page: "fst (reportRepo cfg now rq ?u forge slug (v, ?s)) = (case RepoBySlug forge slug s of
       Inl _ \<Rightarrow> Inl (reportRefused cfg hash now rq s)
     | Inr repo \<Rightarrow> (case fst (authorizeReport cfg now rq ?u repo (v, ?s)) of Inl r \<Rightarrow> Inl r | Inr (m, c) \<Rightarrow> Inr (repo, m, c)))"
    using RepoBySlug_row(2) [OF assms(1)]
    by (auto simp: reportRepo_def look ref split: sum.splits prod.splits)
  have run: "repoPage cfg hash now rq forge slug (v, s) = (if ?u = None \<and> \<not> svPublicReports cfg then Inl (redirectToLogin rq)
      else fst (reportRepo cfg now rq ?u forge slug (v, ?s)))"
    by (auto simp: repoPage_def w(1) split: prod.splits option.splits)
  have none: "?u = None \<longleftrightarrow> \<not> (\<exists>u. signedInAs hash now rq s u)" unfolding sessionUser_spec(1) [symmetric] by auto
  show ?thesis
  proof (cases "?u = None \<and> \<not> svPublicReports cfg")
    case True
    then show ?thesis using none unfolding run by (auto simp: reportRefused_def split: sum.split)
  next
    case False
    then show ?thesis unfolding run page authorize_visitor [OF assms(1,2) w(2)] by (auto split: sum.split)
  qed
qed

text \<open>
  C4: who sees a repo's report page. With sign-in on, the page is served exactly when the repo is
  tracked and either the request carries a live session of a member of a workspace the repo lies
  under on its forge, or the instance allows public reports, the forge said the repo is public and
  its switch is on. Only a member is served as one, and only an anonymous answer may be cached.
\<close>

theorem report_access_exact:
  assumes "storeInv s" and "authEnabled cfg" and "rqPath rq = ''/repos/'' @ forge @ ''/'' @ slug"
    and "rqMethod rq = ''GET'' \<or> rqMethod rq = ''HEAD''"
  shows "(\<exists>repo. (\<exists>k. map_of (repos s) k = Some repo) \<and> rpForge repo = forge \<and> rpSlug repo = slug \<and> mayRead cfg hash now rq s repo)
      = (\<exists>x. repoPage cfg hash now rq forge slug (v, s) = Inr x)
    \<and> (\<forall>repo member cacheable. repoPage cfg hash now rq forge slug (v, s) = Inr (repo, member, cacheable) \<longrightarrow>
        rpForge repo = forge \<and> rpSlug repo = slug
        \<and> member = (\<exists>u. signedInAs hash now rq s u \<and> memberFor s u repo)
        \<and> (cacheable \<longrightarrow> \<not> (\<exists>u. signedInAs hash now rq s u) \<and> ReportsPublic repo))"
proof -
  note page = repoPage_exact [OF assms, of hash now forge slug v]
  have found: "(\<exists>k. map_of (repos s) k = Some repo) \<and> rpForge repo = forge \<and> rpSlug repo = slug \<longleftrightarrow> RepoBySlug forge slug s = Inr repo" for repo
    using RepoBySlug_row(1) [OF assms(1)] by simp
  have "(\<exists>repo. RepoBySlug forge slug s = Inr repo \<and> mayRead cfg hash now rq s repo) = (\<exists>x. repoPage cfg hash now rq forge slug (v, s) = Inr x)"
    unfolding page by (cases "RepoBySlug forge slug s") (auto simp: mayRead_def)
  moreover have "rpForge repo = forge \<and> rpSlug repo = slug
        \<and> member = (\<exists>u. signedInAs hash now rq s u \<and> memberFor s u repo)
        \<and> (cacheable \<longrightarrow> \<not> (\<exists>u. signedInAs hash now rq s u) \<and> ReportsPublic repo)"
    if "repoPage cfg hash now rq forge slug (v, s) = Inr (repo, member, cacheable)" for repo member cacheable
    using that found unfolding page by (auto split: sum.splits if_splits)
  ultimately show ?thesis unfolding found [symmetric] by blast
qed

text \<open>
  C31: a refusal tells nothing. Whoever may not read a repo's page gets the answer a name that is
  not tracked gets: signed out the way to sign in, signed in the not-found page, whatever is
  stored under the name.
\<close>

theorem refusal_reveals_nothing:
  assumes "storeInv s" and "authEnabled cfg" and "rqPath rq = ''/repos/'' @ forge @ ''/'' @ slug"
    and "rqMethod rq = ''GET'' \<or> rqMethod rq = ''HEAD''"
    and "\<And>repo. RepoBySlug forge slug s = Inr repo \<Longrightarrow> \<not> mayRead cfg hash now rq s repo"
  shows "repoPage cfg hash now rq forge slug (v, s) =
    Inl (if \<exists>u. signedInAs hash now rq s u then NotFoundPage else LoginRedirect (loginURL (rqPath rq @ (if rqRawQuery rq \<noteq> [] then ''?'' @ rqRawQuery rq else []))))"
proof -
  have "repoPage cfg hash now rq forge slug (v, s) = Inl (reportRefused cfg hash now rq s)"
    using assms(5) unfolding repoPage_exact [OF assms(1-4)] by (auto simp: mayRead_def split: sum.split)
  then show ?thesis by (simp add: reportRefused_def redirectToLogin_def)
qed

text \<open>
  Who sees the pages of an upload. The upload page, the source view and the raw profile are
  served exactly when the number names a stored upload whose repo the visitor may read; everyone
  else gets the refusal of an upload that does not exist.
\<close>

theorem upload_access_exact:
  assumes "storeInv s" and "authEnabled cfg" and "rqPath rq = ''/uploads/'' @ rest" and "rqMethod rq = ''GET'' \<or> rqMethod rq = ''HEAD''"
    and "\<forall>i u. map_of (uploads s) i = Some u \<longrightarrow> map_of (repos s) (upRepoID u) \<noteq> None"
  shows "uploadPage cfg hash now rq idText (v, s) =
    (case (case atoi idText of None \<Rightarrow> None | Some i \<Rightarrow> map_of (uploads s) i) of
       None \<Rightarrow> Inl (reportRefused cfg hash now rq s)
     | Some u \<Rightarrow>
         (if mayRead cfg hash now rq s (the (map_of (repos s) (upRepoID u))) then Inr (u, the (map_of (repos s) (upRepoID u)))
          else Inl (reportRefused cfg hash now rq s)))"
proof -
  let ?u = "fst (sessionUser hash now rq s)" and ?s = "snd (sessionUser hash now rq s)"
  have p: "hasPrefix (rqPath rq) ''/repos/'' \<or> hasPrefix (rqPath rq) ''/uploads/''" by (simp add: assms(3) hasPrefix_iff)
  note w = wall_of_report [OF assms(2) p assms(4)]
  have ref: "reportNotFound cfg rq ?u = reportRefused cfg hash now rq s" by (rule reportRefused_eq [OF assms(2) w(2)])
  have run: "uploadPage cfg hash now rq idText (v, s) = (if ?u = None \<and> \<not> svPublicReports cfg then Inl (redirectToLogin rq)
      else fst (reportUpload cfg now rq ?u idText (v, ?s)))"
    by (auto simp: uploadPage_def w(1) split: prod.splits option.splits)
  have none: "?u = None \<longleftrightarrow> \<not> (\<exists>u. signedInAs hash now rq s u)" unfolding sessionUser_spec(1) [symmetric] by auto
  have page: "fst (reportUpload cfg now rq ?u idText (v, ?s)) =
    (case (case atoi idText of None \<Rightarrow> None | Some i \<Rightarrow> map_of (uploads s) i) of
       None \<Rightarrow> Inl (reportRefused cfg hash now rq s)
     | Some u \<Rightarrow> (case fst (authorizeReport cfg now rq ?u (the (map_of (repos s) (upRepoID u))) (v, ?s)) of
         Inl r \<Rightarrow> Inl r | Inr _ \<Rightarrow> Inr (u, the (map_of (repos s) (upRepoID u)))))"
    using assms(5) by (force simp: reportUpload_def ref getUpload_def RepoByID_def rowOr_def sessionUser_spec split: option.splits sum.splits prod.splits)
  show ?thesis
  proof (cases "?u = None \<and> \<not> svPublicReports cfg")
    case True
    then show ?thesis using none unfolding run by (auto simp: reportRefused_def mayRead_def split: option.split)
  next
    case False
    then show ?thesis unfolding run page authorize_visitor [OF assms(1,2) w(2)] by (auto simp: mayRead_def split: option.split)
  qed
qed

text \<open>A private repo of a workspace with one member, whose session is stored, and a public repo.\<close>

definition sampleAccess :: memStore where
  "sampleAccess =
     (let s = snd (CreateRepo 1 (zeroRepo\<lparr>rpForge := ''github'', rpSlug := ''acme/app'', rpToken := ''t''\<rparr>) newStore);
          s = snd (CreateRepo 1 (zeroRepo\<lparr>rpForge := ''github'', rpSlug := ''acme/lib'', rpToken := ''l'', rpVisibility := ''public''\<rparr>) s);
          s = snd (UpsertUser 1 \<lparr>usID = 0, usForge = ''github'', usForgeUUID = ''u'', usEmail = [], usDisplayName = ''Ann'',
            usForgeWorkspaces = [''acme''], usForgeOwnedWorkspaces = [], usCreatedAt = 0, usLastLoginAt = 0\<rparr> s);
          s = snd (RegisterWorkspace 1 (zeroWorkspace\<lparr>wsForge := ''github'', wsPrefix := ''acme'', wsToken := ''w''\<rparr>) 1 s);
          s = snd (CreateSession 1 \<lparr>seTokenHash = ''c'', seUserID = 1, seCreatedAt = 0, seExpiresAt = 100\<rparr> s)
      in snd (CreateUpload 1 (zeroUpload\<lparr>upRepoID := 1\<rparr>) [] s))"

lemma sampleAccess_inv: "storeInv sampleAccess"
proof -
  have "memStep\<^sup>*\<^sup>* newStore sampleAccess" unfolding sampleAccess_def Let_def
    by (rule rtranclp.rtrancl_into_rtrancl, rule rtranclp.rtrancl_into_rtrancl, rule rtranclp.rtrancl_into_rtrancl,
        rule rtranclp.rtrancl_into_rtrancl, rule rtranclp.rtrancl_into_rtrancl, rule rtranclp.rtrancl_into_rtrancl, rule rtranclp.rtrancl_refl)
      (rule step_CreateRepo step_UpsertUser step_RegisterWorkspace step_CreateSession step_CreateUpload)+
  then show ?thesis by (induction rule: rtranclp_induct) (simp_all add: storeInv_new memStep_inv)
qed

definition sampleRequest :: "string \<Rightarrow> string option \<Rightarrow> httpRequest" where
  "sampleRequest path cookie = \<lparr>rqMethod = ''GET'', rqPath = path, rqRawQuery = [], rqSessionCookie = cookie\<rparr>"

definition sampleConfig :: serverConfig where
  "sampleConfig = \<lparr>svAuths = [''github''], svPublicReports = True, svHosted = False, svBaseURL = ''https://g'', svAllowedWorkspaces = []\<rparr>"

abbreviation noChecks :: visState where
  "noChecks \<equiv> \<lparr>visChecks = [], visInFlight = []\<rparr>"

theorem report_access_exact_witness:
  "\<exists>repo. rpSlug repo = ''acme/app'' \<and> mayRead sampleConfig id 5 (sampleRequest ''/repos/github/acme/app'' (Some ''c'')) sampleAccess repo"
proof -
  let ?rq = "sampleRequest ''/repos/github/acme/app'' (Some ''c'')"
  have rq: "rqPath ?rq = ''/repos/'' @ ''github'' @ ''/'' @ ''acme/app''" "rqMethod ?rq = ''GET'' \<or> rqMethod ?rq = ''HEAD''" "authEnabled sampleConfig"
    by (simp_all add: sampleRequest_def sampleConfig_def authEnabled_def)
  have "\<not> isl (repoPage sampleConfig id 5 ?rq ''github'' ''acme/app'' (noChecks, sampleAccess))" by code_simp
  then have "\<exists>x. repoPage sampleConfig id 5 ?rq ''github'' ''acme/app'' (noChecks, sampleAccess) = Inr x"
    by (cases "repoPage sampleConfig id 5 ?rq ''github'' ''acme/app'' (noChecks, sampleAccess)") auto
  then show ?thesis
    using report_access_exact [OF sampleAccess_inv rq(3,1,2), of id 5 noChecks] by auto
qed

theorem refusal_reveals_nothing_witness:
  "repoPage sampleConfig id 5 (sampleRequest ''/repos/github/acme/none'' None) ''github'' ''acme/none'' (noChecks, sampleAccess)
     = Inl (LoginRedirect (loginURL ''/repos/github/acme/none''))"
proof -
  let ?rq = "sampleRequest ''/repos/github/acme/none'' None"
  have rq: "rqPath ?rq = ''/repos/'' @ ''github'' @ ''/'' @ ''acme/none''" "rqMethod ?rq = ''GET'' \<or> rqMethod ?rq = ''HEAD''" "authEnabled sampleConfig"
    "rqRawQuery ?rq = []" "rqSessionCookie ?rq = None"
    by (simp_all add: sampleRequest_def sampleConfig_def authEnabled_def)
  have "isl (RepoBySlug ''github'' ''acme/none'' sampleAccess)" by code_simp
  then have none: "RepoBySlug ''github'' ''acme/none'' sampleAccess \<noteq> Inr repo" for repo by auto
  show ?thesis using refusal_reveals_nothing [OF sampleAccess_inv rq(3,1,2), of id 5 noChecks] none rq(4,5)
    by (simp add: signedInAs_def rq(1))
qed

theorem upload_access_exact_witness:
  "\<exists>u repo. uploadPage sampleConfig id 5 (sampleRequest ''/uploads/1'' (Some ''c'')) ''1'' (noChecks, sampleAccess) = Inr (u, repo)
     \<and> mayRead sampleConfig id 5 (sampleRequest ''/uploads/1'' (Some ''c'')) sampleAccess repo"
proof -
  let ?rq = "sampleRequest ''/uploads/1'' (Some ''c'')"
  have rq: "rqPath ?rq = ''/uploads/'' @ ''1''" "rqMethod ?rq = ''GET'' \<or> rqMethod ?rq = ''HEAD''" "authEnabled sampleConfig"
    by (simp_all add: sampleRequest_def sampleConfig_def authEnabled_def)
  have "list_all (\<lambda>(i, u). map_of (repos sampleAccess) (upRepoID u) \<noteq> None) (uploads sampleAccess)" by code_simp
  then have ref: "\<forall>i u. map_of (uploads sampleAccess) i = Some u \<longrightarrow> map_of (repos sampleAccess) (upRepoID u) \<noteq> None"
    by (auto simp: list_all_iff dest!: map_of_SomeD)
  have "\<not> isl (uploadPage sampleConfig id 5 ?rq ''1'' (noChecks, sampleAccess))" by code_simp
  then obtain u repo where page: "uploadPage sampleConfig id 5 ?rq ''1'' (noChecks, sampleAccess) = Inr (u, repo)"
    by (cases "uploadPage sampleConfig id 5 ?rq ''1'' (noChecks, sampleAccess)") auto
  then show ?thesis
    using upload_access_exact [OF sampleAccess_inv rq(3,1,2) ref, of id 5 "''1''" noChecks] by (auto split: option.splits if_splits)
qed

end
