(* ===== verification/Grants.thy ===== *)
theory Grants
  imports Visibility
begin

text \<open>
  The forge connections of a workspace, \<open>internal/core/forges.go\<close>: the cached access tokens, the
  refresh of a grant under the store's lock, the marking of broken connections, and the client a
  repo's forge is reached with. What a connector answers over the network is an argument; a
  client is what it was made from.
\<close>

section \<open>The token cache\<close>

record cachedToken =
  ctValue :: string
  ctExpiresAt :: time

type_synonym tokenCache = "(int, cachedToken) gomap"

definition tokenLeeway :: time where
  "tokenLeeway = 5 * 60 * 1000000000"

definition cacheGet :: "time \<Rightarrow> int \<Rightarrow> tokenCache \<Rightarrow> string option" where
  "cacheGet now workspaceID c =
     (case map_of c workspaceID of
        None \<Rightarrow> None
      | Some t \<Rightarrow> if ctExpiresAt t - now < tokenLeeway then None else Some (ctValue t))"

definition cachePut :: "time \<Rightarrow> int \<Rightarrow> string \<Rightarrow> time \<Rightarrow> tokenCache \<Rightarrow> tokenCache" where
  "cachePut now workspaceID token ttl c = AList.update workspaceID \<lparr>ctValue = token, ctExpiresAt = now + ttl\<rparr> c"

definition cacheDrop :: "int \<Rightarrow> tokenCache \<Rightarrow> tokenCache" where
  "cacheDrop workspaceID c = AList.delete workspaceID c"

text \<open>The deployment's connectors, each grant-backed one with its cache.\<close>

record forgesState =
  fsConfig :: forgesConfig
  fsTokens :: "(string, tokenCache) gomap"

definition NewForges :: "bool \<Rightarrow> string list \<Rightarrow> forgesState" where
  "NewForges app grants =
     \<lparr>fsConfig = \<lparr>fcGitHubApp = app, fcGrants = grants\<rparr>, fsTokens = map (\<lambda>name. (name, [])) grants\<rparr>"

definition tokensOf :: "forgesState \<Rightarrow> string \<Rightarrow> tokenCache option" where
  "tokensOf fs forgeName = map_of (fsTokens fs) forgeName"

definition CacheGrantToken :: "time \<Rightarrow> string \<Rightarrow> int \<Rightarrow> string \<Rightarrow> time \<Rightarrow> forgesState \<Rightarrow> forgesState" where
  "CacheGrantToken now forgeName workspaceID token ttl fs =
     (case tokensOf fs forgeName of
        None \<Rightarrow> fs
      | Some c \<Rightarrow> fs\<lparr>fsTokens := AList.update forgeName (cachePut now workspaceID token ttl c) (fsTokens fs)\<rparr>)"

definition DropGrantToken :: "string \<Rightarrow> int \<Rightarrow> forgesState \<Rightarrow> forgesState" where
  "DropGrantToken forgeName workspaceID fs =
     (case tokensOf fs forgeName of
        None \<Rightarrow> fs
      | Some c \<Rightarrow> fs\<lparr>fsTokens := AList.update forgeName (cacheDrop workspaceID c) (fsTokens fs)\<rparr>)"

definition RedirectURI :: "string \<Rightarrow> string \<Rightarrow> string" where
  "RedirectURI baseURL forgeName = trimSuffix baseURL ''/'' @ ''/oauth/'' @ forgeName @ ''/callback''"

section \<open>Refreshing a grant\<close>

text \<open>What a connector hands out, and how it refuses: the grant is gone, or trouble that may pass.\<close>

record forgeGrant =
  fgAccessToken :: string
  fgRefreshToken :: string
  fgAccount :: string
  fgTTL :: time

datatype connectError = CredentialsRevoked | ForgeTrouble

datatype tokenError = GrantDisconnected | GrantRevoked | TokenTrouble

text \<open>The token the lock holder finds stored.\<close>

definition storedGrant :: "Workspace \<Rightarrow> memStore \<Rightarrow> tokenError + Grant" where
  "storedGrant ws s =
     (case WorkspaceByPrefix (wsForge ws) (wsPrefix ws) s of
        Inl _ \<Rightarrow> Inl TokenTrouble
      | Inr fresh \<Rightarrow>
          let stored = wsGrant fresh
          in if grAccount stored = [] then Inl GrantDisconnected
             else if grRefreshToken stored = [] then Inl GrantRevoked
             else Inr stored)"

definition rotatedGrant :: "Grant \<Rightarrow> forgeGrant \<Rightarrow> Grant" where
  "rotatedGrant stored got =
     \<lparr>grAccount = grAccount stored, grRefreshToken = firstNonEmpty [fgRefreshToken got, grRefreshToken stored], grBroken = False\<rparr>"

text \<open>What follows a refresh: the rotated token is persisted, the access token cached.\<close>

definition keepRotated :: "time \<Rightarrow> string \<Rightarrow> Workspace \<Rightarrow> Grant \<Rightarrow> forgeGrant \<Rightarrow> forgesState \<times> memStore \<Rightarrow> forgesState \<times> memStore" where
  "keepRotated now forgeName ws stored got fs_s =
     (CacheGrantToken now forgeName (wsID ws) (fgAccessToken got) (fgTTL got) (fst fs_s),
      snd (SetWorkspaceGrant (wsID ws) forgeName (rotatedGrant stored got) (snd fs_s)))"

definition lockedToken :: "time \<Rightarrow> string \<Rightarrow> (string \<Rightarrow> connectError + forgeGrant) \<Rightarrow> Workspace \<Rightarrow> forgesState \<times> memStore
    \<Rightarrow> (tokenError + string) \<times> forgesState \<times> memStore" where
  "lockedToken now forgeName refresh ws fs_s =
     (case Option.bind (tokensOf (fst fs_s) forgeName) (cacheGet now (wsID ws)) of
        Some t \<Rightarrow> (Inr t, fs_s)
      | None \<Rightarrow>
          (case storedGrant ws (snd fs_s) of
             Inl e \<Rightarrow> (Inl e, fs_s)
           | Inr stored \<Rightarrow>
               (case refresh (grRefreshToken stored) of
                  Inl CredentialsRevoked \<Rightarrow> (Inl GrantRevoked, fs_s)
                | Inl ForgeTrouble \<Rightarrow> (Inl TokenTrouble, fs_s)
                | Inr got \<Rightarrow> (Inr (fgAccessToken got), keepRotated now forgeName ws stored got fs_s))))"

definition accessToken :: "time \<Rightarrow> string \<Rightarrow> (string \<Rightarrow> connectError + forgeGrant) \<Rightarrow> Workspace \<Rightarrow> forgesState \<times> memStore
    \<Rightarrow> (tokenError + string) \<times> forgesState \<times> memStore" where
  "accessToken now forgeName refresh ws fs_s =
     (case Option.bind (tokensOf (fst fs_s) forgeName) (cacheGet now (wsID ws)) of
        Some t \<Rightarrow> (Inr t, fs_s)
      | None \<Rightarrow> lockedToken now forgeName refresh ws fs_s)"

section \<open>Broken connections\<close>

definition markAppBroken :: "time \<Rightarrow> Workspace \<Rightarrow> memStore \<Rightarrow> memStore" where
  "markAppBroken now ws s =
     (if wsGitHubAppBroken ws then s
      else MarkWorkspaceReposPrivate now ws (snd (SetGitHubAppBroken (wsID ws) (wsGitHubInstallationID ws) True s)))"

definition markGrantBroken :: "time \<Rightarrow> string \<Rightarrow> Workspace \<Rightarrow> memStore \<Rightarrow> memStore" where
  "markGrantBroken now forgeName ws s =
     (if grBroken (wsGrant ws) then s
      else MarkWorkspaceReposPrivate now ws (snd (MarkWorkspaceGrantBroken (wsID ws) forgeName (grAccount (wsGrant ws)) s)))"

text \<open>One workspace of the loop, as it was listed.\<close>

definition flagInstallation :: "time \<Rightarrow> int \<Rightarrow> bool \<Rightarrow> memStore \<Rightarrow> Workspace \<Rightarrow> memStore" where
  "flagInstallation now installationID broken s ws =
     (if wsGitHubInstallationID ws \<noteq> installationID \<or> wsGitHubAppBroken ws = broken then s
      else case SetGitHubAppBroken (wsID ws) installationID broken s of
        (Inl _, s) \<Rightarrow> s
      | (Inr _, s) \<Rightarrow> if broken then MarkWorkspaceReposPrivate now (ws\<lparr>wsGitHubAppBroken := broken\<rparr>) s else s)"

definition SetInstallationBroken :: "time \<Rightarrow> int \<Rightarrow> bool \<Rightarrow> memStore \<Rightarrow> memStore" where
  "SetInstallationBroken now installationID broken s = foldl (flagInstallation now installationID broken) s (ListWorkspaces s)"

section \<open>The client of a repo\<close>

datatype client = AppClient int | GrantClient string string

text \<open>What minting an installation's token answers.\<close>

definition installationForge :: "time \<Rightarrow> forgesConfig \<Rightarrow> (int \<Rightarrow> connectError option) \<Rightarrow> Workspace option \<Rightarrow> string \<Rightarrow> memStore
    \<Rightarrow> client option \<times> memStore" where
  "installationForge now cfg mint ws forgeName s =
     (case ws of
        None \<Rightarrow> (None, s)
      | Some ws \<Rightarrow>
          if \<not> fcGitHubApp cfg \<or> forgeName \<noteq> ''github'' \<or> wsForge ws \<noteq> ''github'' \<or> wsGitHubInstallationID ws = 0 then (None, s)
          else (case mint (wsGitHubInstallationID ws) of
              Some CredentialsRevoked \<Rightarrow> (None, markAppBroken now ws s)
            | Some ForgeTrouble \<Rightarrow> (None, s)
            | None \<Rightarrow>
                (Some (AppClient (wsGitHubInstallationID ws)),
                 if wsGitHubAppBroken ws then snd (SetGitHubAppBroken (wsID ws) (wsGitHubInstallationID ws) False s) else s)))"

definition VerifyGitHubRunClaim :: "time \<Rightarrow> (int \<Rightarrow> 'claim \<Rightarrow> connectError option) \<Rightarrow> Workspace \<Rightarrow> 'claim \<Rightarrow> memStore
    \<Rightarrow> connectError option \<times> memStore" where
  "VerifyGitHubRunClaim now verify ws claim s =
     (let err = verify (wsGitHubInstallationID ws) claim
      in (err, if err = Some CredentialsRevoked then markAppBroken now ws s else s))"

definition grantForge :: "time \<Rightarrow> (string \<Rightarrow> connectError + forgeGrant) \<Rightarrow> Workspace option \<Rightarrow> string \<Rightarrow> forgesState \<times> memStore
    \<Rightarrow> client option \<times> forgesState \<times> memStore" where
  "grantForge now refresh ws forgeName fs_s =
     (case ws of
        None \<Rightarrow> (None, fs_s)
      | Some ws \<Rightarrow>
          if forgeName \<notin> set (fcGrants (fsConfig (fst fs_s))) \<or> wsForge ws \<noteq> forgeName \<or> grAccount (wsGrant ws) = [] then (None, fs_s)
          else (case accessToken now forgeName refresh ws fs_s of
              (Inr t, fs_s) \<Rightarrow> (Some (GrantClient forgeName t), fs_s)
            | (Inl GrantDisconnected, fs_s) \<Rightarrow> (None, fs_s)
            | (Inl GrantRevoked, (fs, s)) \<Rightarrow> (None, fs, markGrantBroken now forgeName ws s)
            | (Inl TokenTrouble, fs_s) \<Rightarrow> (None, fs_s)))"

definition Connected :: "time \<Rightarrow> (int \<Rightarrow> connectError option) \<Rightarrow> (string \<Rightarrow> connectError + forgeGrant) \<Rightarrow> Workspace option \<Rightarrow> string
    \<Rightarrow> forgesState \<times> memStore \<Rightarrow> client option \<times> forgesState \<times> memStore" where
  "Connected now mint refresh ws forgeName fs_s =
     (case installationForge now (fsConfig (fst fs_s)) mint ws forgeName (snd fs_s) of
        (Some c, s) \<Rightarrow> (Some c, fst fs_s, s)
      | (None, s) \<Rightarrow> grantForge now refresh ws forgeName (fst fs_s, s))"

definition ClientFor :: "time \<Rightarrow> (int \<Rightarrow> connectError option) \<Rightarrow> (string \<Rightarrow> connectError + forgeGrant) \<Rightarrow> Repo
    \<Rightarrow> forgesState \<times> memStore \<Rightarrow> client option \<times> forgesState \<times> memStore" where
  "ClientFor now mint refresh repo fs_s =
     (if \<not> Capable (fsConfig (fst fs_s)) (rpForge repo) then (None, fs_s)
      else Connected now mint refresh (WorkspaceFor (rpSlug repo) (rpForge repo) (snd fs_s)) (rpForge repo) fs_s)"

definition InstallURL :: "(unit \<Rightarrow> connectError + string) option \<Rightarrow> string" where
  "InstallURL app = (case app of None \<Rightarrow> [] | Some f \<Rightarrow> (case f () of Inl _ \<Rightarrow> [] | Inr u \<Rightarrow> u))"

section \<open>Whose connection a client uses\<close>

lemma installationForge_client:
  "fst (installationForge now cfg mint ws forgeName s) = Some c \<Longrightarrow>
     \<exists>w. ws = Some w \<and> wsForge w = ''github'' \<and> forgeName = ''github'' \<and> wsGitHubInstallationID w \<noteq> 0
       \<and> mint (wsGitHubInstallationID w) = None \<and> c = AppClient (wsGitHubInstallationID w)"
  by (auto simp: installationForge_def split: option.splits if_splits connectError.splits)

lemma installationForge_none:
  "fst (installationForge now cfg mint ws forgeName s) = None \<Longrightarrow>
     snd (installationForge now cfg mint ws forgeName s) = s
     \<or> (\<exists>w. ws = Some w \<and> wsForge w = ''github'' \<and> snd (installationForge now cfg mint ws forgeName s) = markAppBroken now w s)"
  by (auto simp: installationForge_def split: option.splits if_splits connectError.splits)

text \<open>A token comes out of the workspace's own cache entry, or of a refresh of its own stored token.\<close>

lemma accessToken_source:
  assumes "fst (accessToken now forgeName refresh ws (fs, s)) = Inr t"
  shows "(\<exists>c. tokensOf fs forgeName = Some c \<and> cacheGet now (wsID ws) c = Some t)
    \<or> (\<exists>w got. WorkspaceByPrefix (wsForge ws) (wsPrefix ws) s = Inr w \<and> grAccount (wsGrant w) \<noteq> []
         \<and> refresh (grRefreshToken (wsGrant w)) = Inr got \<and> t = fgAccessToken got)"
  using assms
  by (auto simp: accessToken_def lockedToken_def storedGrant_def Let_def bind_eq_Some_conv
      split: option.splits sum.splits if_splits connectError.splits)

lemma closeOwned_workspaces [simp]: "workspaces (closeOwned now ws s repo) = workspaces s"
  by (auto simp: closeOwned_def SetRepoVisibility_def split: option.split)

lemma closeAll_workspaces: "workspaces (foldl (closeOwned now ws) s rs) = workspaces s"
  by (induction rs arbitrary: s) auto

lemma MarkWorkspaceReposPrivate_workspaces [simp]: "workspaces (MarkWorkspaceReposPrivate now ws s) = workspaces s"
  by (simp add: MarkWorkspaceReposPrivate_def closeAll_workspaces)

lemma closeAll_inv: "storeInv s \<Longrightarrow> storeInv (foldl (closeOwned now ws) s rs)"
  by (induction rs arbitrary: s) (auto simp: closeOwned_def SetRepoVisibility_inv)

lemma MarkWorkspaceReposPrivate_inv: "storeInv s \<Longrightarrow> storeInv (MarkWorkspaceReposPrivate now ws s)"
  by (simp add: MarkWorkspaceReposPrivate_def closeAll_inv)

lemma marking_inv:
  "storeInv s \<Longrightarrow> storeInv (markAppBroken now ws s)"
  "storeInv s \<Longrightarrow> storeInv (markGrantBroken now forgeName ws s)"
  by (simp_all add: markAppBroken_def markGrantBroken_def MarkWorkspaceReposPrivate_inv SetGitHubAppBroken_inv MarkWorkspaceGrantBroken_inv)

lemma marking_workspaces:
  "workspaces (markAppBroken now ws s) =
     (if wsGitHubAppBroken ws then workspaces s else workspaces (snd (SetGitHubAppBroken (wsID ws) (wsGitHubInstallationID ws) True s)))"
  "workspaces (markGrantBroken now forgeName ws s) =
     (if grBroken (wsGrant ws) then workspaces s else workspaces (snd (MarkWorkspaceGrantBroken (wsID ws) forgeName (grAccount (wsGrant ws)) s)))"
  by (simp_all add: markAppBroken_def markGrantBroken_def)

text \<open>
  C32: with whose credentials a forge is reached. A client for a repo comes from the workspace that
  owns the repo: of the repo's forge, with the longest name leading the slug. It is the App client
  of that workspace's installation, just minted, or a grant client with a token cached under that
  workspace or handed out for the refresh token stored on it; no other tenant's secrets are used.
\<close>

theorem client_own_connection:
  assumes "storeInv s" and "fst (ClientFor now mint refresh repo (fs, s)) = Some c"
  shows "\<exists>k w. map_of (workspaces s) k = Some w \<and> wsForge w = rpForge repo \<and> hasPrefix (rpSlug repo) (wsPrefix w @ ''/'')
    \<and> (\<forall>i v. map_of (workspaces s) i = Some v \<longrightarrow> wsForge v = rpForge repo \<longrightarrow> hasPrefix (rpSlug repo) (wsPrefix v @ ''/'')
         \<longrightarrow> length (wsPrefix v) \<le> length (wsPrefix w))
    \<and> (case c of
         AppClient i \<Rightarrow> wsForge w = ''github'' \<and> i = wsGitHubInstallationID w \<and> i \<noteq> 0 \<and> mint i = None
       | GrantClient f t \<Rightarrow> f = wsForge w \<and> grAccount (wsGrant w) \<noteq> []
           \<and> ((\<exists>cache. tokensOf fs f = Some cache \<and> cacheGet now k cache = Some t)
              \<or> (\<exists>got. refresh (grRefreshToken (wsGrant w)) = Inr got \<and> t = fgAccessToken got)))"
proof -
  obtain w where w: "WorkspaceFor (rpSlug repo) (rpForge repo) s = Some w"
    and c: "fst (Connected now mint refresh (Some w) (rpForge repo) (fs, s)) = Some c"
    using assms(2) by (cases "WorkspaceFor (rpSlug repo) (rpForge repo) s")
      (auto simp: ClientFor_def Connected_def installationForge_def grantForge_def split: if_splits)
  have "LookupWorkspace (rpSlug repo) (rpForge repo) s = Inr (Some w)" using w by (auto simp: WorkspaceFor_def split: sum.splits)
  then obtain k where row: "map_of (workspaces s) k = Some w" and own: "wsForge w = rpForge repo" "hasPrefix (rpSlug repo) (wsPrefix w @ ''/'')"
    and best: "\<forall>i v. map_of (workspaces s) i = Some v \<longrightarrow> wsForge v = rpForge repo \<longrightarrow> hasPrefix (rpSlug repo) (wsPrefix v @ ''/'')
         \<longrightarrow> length (wsPrefix v) \<le> length (wsPrefix w)"
    unfolding workspace_lookup_longest [OF assms(1)] by blast
  have id: "wsID w = k" using inv_parts(2) [OF assms(1)] row by (auto simp: workspaceInv_def dest: keyed_id)
  have self: "WorkspaceByPrefix (wsForge w) (wsPrefix w) s = Inr w" using row unfolding WorkspaceByPrefix_row(1) [OF assms(1)] by blast
  have "case c of
         AppClient i \<Rightarrow> wsForge w = ''github'' \<and> i = wsGitHubInstallationID w \<and> i \<noteq> 0 \<and> mint i = None
       | GrantClient f t \<Rightarrow> f = wsForge w \<and> grAccount (wsGrant w) \<noteq> []
           \<and> ((\<exists>cache. tokensOf fs f = Some cache \<and> cacheGet now k cache = Some t)
              \<or> (\<exists>got. refresh (grRefreshToken (wsGrant w)) = Inr got \<and> t = fgAccessToken got))"
  proof (cases "fst (installationForge now (fsConfig fs) mint (Some w) (rpForge repo) s)")
    case (Some a)
    then have "c = a" using c by (auto simp: Connected_def split: prod.splits)
    then show ?thesis using installationForge_client [OF Some] by auto
  next
    case None
    define s1 where "s1 = snd (installationForge now (fsConfig fs) mint (Some w) (rpForge repo) s)"
    have g: "fst (grantForge now refresh (Some w) (rpForge repo) (fs, s1)) = Some c"
      using c None by (auto simp: Connected_def s1_def split: prod.splits)
    show ?thesis
    proof (cases "s1 = s")
      case True
      have guard: "wsForge w = rpForge repo" "grAccount (wsGrant w) \<noteq> []" using g by (auto simp: grantForge_def split: if_splits)
      obtain t where t: "fst (accessToken now (rpForge repo) refresh w (fs, s)) = Inr t" "c = GrantClient (rpForge repo) t"
        using g True by (auto simp: grantForge_def split: if_splits prod.splits sum.splits tokenError.splits)
      show ?thesis using accessToken_source [OF t(1)] t(2) guard self id by auto
    next
      case False
      then have "wsForge w = ''github''" "s1 = markAppBroken now w s" using installationForge_none [OF None] by (auto simp: s1_def)
      then have bp: "WorkspaceByPrefix (wsForge w) (wsPrefix w) s1 =
          WorkspaceByPrefix (wsForge w) (wsPrefix w) (markAppBroken now w s)" by simp
      have guard: "wsForge w = rpForge repo" "grAccount (wsGrant w) \<noteq> []" using g by (auto simp: grantForge_def split: if_splits)
      obtain t where t: "fst (accessToken now (rpForge repo) refresh w (fs, s1)) = Inr t" "c = GrantClient (rpForge repo) t"
        using g by (auto simp: grantForge_def split: if_splits prod.splits sum.splits tokenError.splits)
      have inv1: "storeInv s1" using assms(1) \<open>s1 = markAppBroken now w s\<close> by (simp add: marking_inv)
      have row1: "\<exists>w1. map_of (workspaces s1) k = Some w1 \<and> wsForge w1 = wsForge w \<and> wsPrefix w1 = wsPrefix w \<and> wsGrant w1 = wsGrant w"
        using row id \<open>s1 = markAppBroken now w s\<close> by (auto simp: marking_workspaces SetGitHubAppBroken_def)
      then obtain w1 where w1: "WorkspaceByPrefix (wsForge w) (wsPrefix w) s1 = Inr w1" "wsGrant w1 = wsGrant w"
        unfolding WorkspaceByPrefix_row(1) [OF inv1] by blast
      show ?thesis using accessToken_source [OF t(1)] t(2) guard w1 id by auto
    qed
  qed
  then show ?thesis using row own best by blast
qed

text \<open>A workspace connected to GitLab and a repo under it.\<close>

definition grantedStore :: memStore where
  "grantedStore =
     (let s = snd (CreateWorkspace 1 (zeroWorkspace\<lparr>wsForge := ''gitlab'', wsPrefix := ''acme'', wsToken := ''w''\<rparr>) newStore)
      in snd (SetWorkspaceGrant 1 ''gitlab'' \<lparr>grAccount = ''bot'', grRefreshToken = ''r0'', grBroken = False\<rparr> s))"

lemma grantedStore_reach: "memStep\<^sup>*\<^sup>* newStore grantedStore"
  unfolding grantedStore_def Let_def
  by (rule rtranclp.rtrancl_into_rtrancl, rule rtranclp.rtrancl_into_rtrancl, rule rtranclp.rtrancl_refl)
    (rule step_CreateWorkspace step_SetWorkspaceGrant)+

definition rotating :: "string \<Rightarrow> connectError + forgeGrant" where
  "rotating r = Inr \<lparr>fgAccessToken = ''a'' @ r, fgRefreshToken = ''n'' @ r, fgAccount = ''bot'', fgTTL = 7200 * 1000000000\<rparr>"

theorem client_own_connection_witness:
  "fst (ClientFor 5 (\<lambda>_. None) rotating (zeroRepo\<lparr>rpForge := ''gitlab'', rpSlug := ''acme/app''\<rparr>) (NewForges True [''gitlab''], grantedStore))
     = Some (GrantClient ''gitlab'' ''ar0'')
   \<and> (\<exists>k w. map_of (workspaces grantedStore) k = Some w \<and> hasPrefix ''acme/app'' (wsPrefix w @ ''/''))"
proof
  let ?repo = "zeroRepo\<lparr>rpForge := ''gitlab'', rpSlug := ''acme/app''\<rparr>"
  show client: "fst (ClientFor 5 (\<lambda>_. None) rotating ?repo (NewForges True [''gitlab''], grantedStore)) = Some (GrantClient ''gitlab'' ''ar0'')"
    by code_simp
  show "\<exists>k w. map_of (workspaces grantedStore) k = Some w \<and> hasPrefix ''acme/app'' (wsPrefix w @ ''/'')"
    using client_own_connection [OF memReach_inv [OF grantedStore_reach] client] by (auto simp: zeroRepo_def)
qed

section \<open>Refreshes across instances\<close>

text \<open>
  One workspace's grant, with several instances of the server on one store. A forge keeps one
  live refresh token per grant; a refresh that presents it gets a new one and kills it. Records
  nobody reads: every token the forge ever issued, whether it refused a refresh, whether an
  instance died between a refresh and its write, whether the grant was connected or disconnected
  under a refresh, and whether it was revoked at the forge, each since the last connect.
\<close>

datatype refreshPhase = NoRefresh | Holding nat Workspace Grant | Refreshed nat Workspace Grant forgeGrant

record grantWorld =
  gwStore :: memStore
  gwForges :: "nat \<Rightarrow> forgesState"
  gwPhase :: refreshPhase
  gwLive :: "string option"
  gwIssued :: "string set"
  gwRefused :: bool
  gwLost :: bool
  gwRaced :: bool
  gwRevoked :: bool

definition grantRow :: "int \<Rightarrow> memStore \<Rightarrow> (string \<times> string \<times> string \<times> string) option" where
  "grantRow k s = map_option (\<lambda>w. (wsForge w, wsPrefix w, grAccount (wsGrant w), grRefreshToken (wsGrant w))) (map_of (workspaces s) k)"

definition setForges :: "grantWorld \<Rightarrow> nat \<Rightarrow> forgesState \<Rightarrow> nat \<Rightarrow> forgesState" where
  "setForges gw i fs = (gwForges gw)(i := fs)"

inductive grantStep :: "string \<Rightarrow> string \<Rightarrow> int \<Rightarrow> grantWorld \<Rightarrow> grantWorld \<Rightarrow> bool" for forgeName prefix k where
  gr_lock: "gwPhase gw = NoRefresh \<Longrightarrow> wsForge ws = forgeName \<Longrightarrow> wsPrefix ws = prefix \<Longrightarrow> wsID ws = k
    \<Longrightarrow> Option.bind (tokensOf (gwForges gw i) forgeName) (cacheGet now k) = None \<Longrightarrow> storedGrant ws (gwStore gw) = Inr stored
    \<Longrightarrow> grantStep forgeName prefix k gw (gw\<lparr>gwPhase := Holding i ws stored\<rparr>)"
| gr_refresh: "gwPhase gw = Holding i ws stored \<Longrightarrow> gwLive gw = Some (grRefreshToken stored) \<Longrightarrow> fgRefreshToken got \<notin> gwIssued gw
    \<Longrightarrow> fgRefreshToken got \<noteq> []
    \<Longrightarrow> grantStep forgeName prefix k gw (gw\<lparr>gwPhase := Refreshed i ws stored got, gwLive := Some (fgRefreshToken got),
         gwIssued := insert (fgRefreshToken got) (gwIssued gw)\<rparr>)"
| gr_refused: "gwPhase gw = Holding i ws stored \<Longrightarrow> gwLive gw \<noteq> Some (grRefreshToken stored)
    \<Longrightarrow> grantStep forgeName prefix k gw (gw\<lparr>gwPhase := NoRefresh, gwRefused := True\<rparr>)"
| gr_trouble: "gwPhase gw = Holding i ws stored \<Longrightarrow> grantStep forgeName prefix k gw (gw\<lparr>gwPhase := NoRefresh\<rparr>)"
| gr_keep: "gwPhase gw = Refreshed i ws stored got \<Longrightarrow> keepRotated now forgeName ws stored got (gwForges gw i, gwStore gw) = (fs, s)
    \<Longrightarrow> grantStep forgeName prefix k gw (gw\<lparr>gwPhase := NoRefresh, gwStore := s, gwForges := setForges gw i fs\<rparr>)"
| gr_crash: "gwPhase gw = Refreshed i ws stored got \<Longrightarrow> grantStep forgeName prefix k gw (gw\<lparr>gwPhase := NoRefresh, gwLost := True\<rparr>)"
| gr_restart: "grantStep forgeName prefix k gw (gw\<lparr>gwForges := setForges gw i fs\<rparr>)"
| gr_connect: "r \<notin> gwIssued gw \<Longrightarrow> r \<noteq> [] \<Longrightarrow> account \<noteq> []
    \<Longrightarrow> grantStep forgeName prefix k gw (gw\<lparr>gwLive := Some r, gwIssued := insert r (gwIssued gw),
         gwRefused := False, gwLost := False, gwRevoked := False, gwRaced := (gwPhase gw \<noteq> NoRefresh),
         gwStore := snd (SetWorkspaceGrant k forgeName \<lparr>grAccount = account, grRefreshToken = r, grBroken = False\<rparr> (gwStore gw))\<rparr>)"
| gr_disconnect: "grantStep forgeName prefix k gw (gw\<lparr>gwRaced := (gwRaced gw \<or> gwPhase gw \<noteq> NoRefresh),
      gwStore := snd (SetWorkspaceGrant k forgeName \<lparr>grAccount = [], grRefreshToken = [], grBroken = False\<rparr> (gwStore gw))\<rparr>)"
| gr_revoke: "grantStep forgeName prefix k gw (gw\<lparr>gwLive := None, gwRevoked := True\<rparr>)"
| gr_mark: "grantStep forgeName prefix k gw (gw\<lparr>gwStore := markGrantBroken now forgeName ws (gwStore gw)\<rparr>)"
| gr_other: "memStep (gwStore gw) s \<Longrightarrow> grantRow k s = grantRow k (gwStore gw) \<Longrightarrow> grantStep forgeName prefix k gw (gw\<lparr>gwStore := s\<rparr>)"

text \<open>The start: the workspace is registered and has no grant.\<close>

definition grantStart :: "string \<Rightarrow> string \<Rightarrow> int \<Rightarrow> grantWorld \<Rightarrow> bool" where
  "grantStart forgeName prefix k gw \<longleftrightarrow> (forgeName = ''bitbucket'' \<or> forgeName = ''gitlab'') \<and> storeInv (gwStore gw)
     \<and> grantRow k (gwStore gw) = Some (forgeName, prefix, [], []) \<and> gwPhase gw = NoRefresh \<and> \<not> gwRefused gw"

text \<open>What the stored row and the refresh in flight say of the forge's live token.\<close>

definition grantInv :: "string \<Rightarrow> string \<Rightarrow> int \<Rightarrow> grantWorld \<Rightarrow> bool" where
  "grantInv forgeName prefix k gw \<longleftrightarrow> (forgeName = ''bitbucket'' \<or> forgeName = ''gitlab'') \<and> storeInv (gwStore gw)
     \<and> (\<exists>account token. grantRow k (gwStore gw) = Some (forgeName, prefix, account, token)
        \<and> (gwLost gw \<or> gwRaced gw \<or> gwRevoked gw
           \<or> \<not> gwRefused gw
             \<and> (case gwPhase gw of
                 NoRefresh \<Rightarrow> account = [] \<or> gwLive gw = Some token
               | Holding _ ws stored \<Rightarrow> gwLive gw = Some token \<and> account \<noteq> [] \<and> grRefreshToken stored = token \<and> grAccount stored = account
               | Refreshed _ ws stored got \<Rightarrow> account \<noteq> [] \<and> grAccount stored = account \<and> gwLive gw = Some (fgRefreshToken got) \<and> fgRefreshToken got \<noteq> [])))
     \<and> (\<forall>i ws stored got. gwPhase gw = Refreshed i ws stored got \<longrightarrow> wsID ws = k)
     \<and> (\<forall>i ws stored. gwPhase gw = Holding i ws stored \<longrightarrow> wsID ws = k)"

lemma grantRow_set:
  assumes "grantRow k s = Some (forgeName, prefix, x)" and "forgeName = ''bitbucket'' \<or> forgeName = ''gitlab''"
  shows "grantRow k (snd (SetWorkspaceGrant k forgeName g s)) = Some (forgeName, prefix, grAccount g, grRefreshToken g)"
  using assms by (auto simp: grantRow_def SetWorkspaceGrant_def)

lemma grantRow_mark: "grantRow k (markGrantBroken now forgeName ws s) = grantRow k s"
  by (auto simp: grantRow_def marking_workspaces MarkWorkspaceGrantBroken_def split: option.split)

lemma storedGrant_row:
  assumes "storeInv s" and "grantRow k s = Some (wsForge ws, wsPrefix ws, account, token)" and "storedGrant ws s = Inr stored"
  shows "grAccount stored = account" "grRefreshToken stored = token" "account \<noteq> []"
proof -
  obtain w where w: "map_of (workspaces s) k = Some w" "wsForge w = wsForge ws" "wsPrefix w = wsPrefix ws"
    "grAccount (wsGrant w) = account" "grRefreshToken (wsGrant w) = token"
    using assms(2) by (auto simp: grantRow_def)
  have "WorkspaceByPrefix (wsForge ws) (wsPrefix ws) s = Inr w"
    unfolding WorkspaceByPrefix_row(1) [OF assms(1)] using w by blast
  then show "grAccount stored = account" "grRefreshToken stored = token" "account \<noteq> []"
    using assms(3) w by (auto simp: storedGrant_def Let_def split: if_splits)
qed

lemma keepRotated_row:
  assumes "keepRotated now forgeName ws stored got (fs, s) = (fs', s')" and "wsID ws = k" and "fgRefreshToken got \<noteq> []"
    and "grantRow k s = Some (forgeName, prefix, x)" and "forgeName = ''bitbucket'' \<or> forgeName = ''gitlab''"
  shows "grantRow k s' = Some (forgeName, prefix, grAccount stored, fgRefreshToken got)"
  using grantRow_set [OF assms(4,5), of "rotatedGrant stored got"] assms(1-3) by (auto simp: keepRotated_def rotatedGrant_def)

lemma grantStep_inv: "grantStep forgeName prefix k gw gw' \<Longrightarrow> grantInv forgeName prefix k gw \<Longrightarrow> grantInv forgeName prefix k gw'"
proof (induction rule: grantStep.induct)
  case (gr_lock gw ws i now stored)
  then show ?case using storedGrant_row [of "gwStore gw" k ws _ _ stored] by (auto simp: grantInv_def)
next
  case (gr_keep gw i ws stored got now fs s)
  have "storeInv s" using gr_keep by (auto simp: grantInv_def keepRotated_def SetWorkspaceGrant_inv)
  moreover have "wsID ws = k" using gr_keep by (simp add: grantInv_def)
  ultimately show ?case
  proof (cases "fgRefreshToken got = []")
    case True
    then show ?thesis using gr_keep grantRow_set [of k "gwStore gw" forgeName prefix _ "rotatedGrant stored got"] \<open>storeInv s\<close> \<open>wsID ws = k\<close>
      by (auto simp: grantInv_def keepRotated_def)
  next
    case False
    then show ?thesis using gr_keep keepRotated_row [OF gr_keep(2) \<open>wsID ws = k\<close> False] \<open>storeInv s\<close> by (auto simp: grantInv_def)
  qed
next
  case (gr_connect r gw account)
  let ?g = "\<lparr>grAccount = account, grRefreshToken = r, grBroken = False\<rparr>"
  obtain x where "grantRow k (gwStore gw) = Some (forgeName, prefix, x)" "forgeName = ''bitbucket'' \<or> forgeName = ''gitlab''"
    using gr_connect by (auto simp: grantInv_def)
  then have "grantRow k (snd (SetWorkspaceGrant k forgeName ?g (gwStore gw))) = Some (forgeName, prefix, grAccount ?g, grRefreshToken ?g)"
    by (rule grantRow_set)
  then show ?case using gr_connect by (auto simp: grantInv_def SetWorkspaceGrant_inv)
next
  case (gr_disconnect gw)
  let ?g = "\<lparr>grAccount = [], grRefreshToken = [], grBroken = False\<rparr>"
  obtain x where "grantRow k (gwStore gw) = Some (forgeName, prefix, x)" "forgeName = ''bitbucket'' \<or> forgeName = ''gitlab''"
    using gr_disconnect by (auto simp: grantInv_def)
  then have "grantRow k (snd (SetWorkspaceGrant k forgeName ?g (gwStore gw))) = Some (forgeName, prefix, grAccount ?g, grRefreshToken ?g)"
    by (rule grantRow_set)
  then show ?case using gr_disconnect by (auto simp: grantInv_def SetWorkspaceGrant_inv)
next
  case (gr_mark gw now ws)
  then show ?case by (cases "gwPhase gw") (auto simp: grantInv_def grantRow_mark marking_inv)
next
  case (gr_other gw s)
  then show ?case by (cases "gwPhase gw") (auto simp: grantInv_def memStep_inv)
next
  case (gr_restart gw i fs)
  then show ?case by (cases "gwPhase gw") (auto simp: grantInv_def)
next
  case (gr_revoke gw)
  then show ?case by (cases "gwPhase gw") (auto simp: grantInv_def)
next
  case (gr_refresh gw i ws stored got)
  then show ?case by (simp add: grantInv_def) blast
next
  case (gr_refused gw i ws stored)
  then show ?case by (simp add: grantInv_def) blast
next
  case (gr_trouble gw i ws stored)
  then show ?case by (simp add: grantInv_def) blast
next
  case (gr_crash gw i ws stored got)
  then show ?case by (simp add: grantInv_def) blast
qed

lemma grantStart_inv: "grantStart forgeName prefix k gw \<Longrightarrow> grantInv forgeName prefix k gw"
  by (simp add: grantStart_def grantInv_def)

lemma grantReach_inv: "(grantStep forgeName prefix k)\<^sup>*\<^sup>* g0 gw \<Longrightarrow> grantStart forgeName prefix k g0 \<Longrightarrow> grantInv forgeName prefix k gw"
  by (induction rule: rtranclp_induct) (simp_all add: grantStart_inv grantStep_inv)

text \<open>
  C12: refreshes do not kill each other's tokens. However the refreshes of any number of server
  instances interleave with each other, with restarts, stale marks of a broken grant, settings saves
  and everything else the store does, no refresh presents a token the forge has already replaced,
  and between refreshes the stored token of a connected workspace is the forge's live one; unless,
  since the last connect, the grant was revoked at the forge, an instance died between a refresh and
  its write, or the owner connected or disconnected while a refresh was under way.
\<close>

theorem refresh_presents_live_token:
  assumes "grantStart forgeName prefix k g0" and "(grantStep forgeName prefix k)\<^sup>*\<^sup>* g0 gw"
    and "\<not> gwRevoked gw" and "\<not> gwLost gw" and "\<not> gwRaced gw"
  shows "\<not> gwRefused gw
    \<and> (\<forall>i ws stored. gwPhase gw = Holding i ws stored \<longrightarrow> gwLive gw = Some (grRefreshToken stored))
    \<and> (gwPhase gw = NoRefresh \<longrightarrow> (\<exists>w. map_of (workspaces (gwStore gw)) k = Some w
         \<and> (grAccount (wsGrant w) = [] \<or> gwLive gw = Some (grRefreshToken (wsGrant w)))))"
proof -
  obtain account token where row: "grantRow k (gwStore gw) = Some (forgeName, prefix, account, token)"
    and ok: "\<not> gwRefused gw"
    and ph: "case gwPhase gw of
                 NoRefresh \<Rightarrow> account = [] \<or> gwLive gw = Some token
               | Holding _ ws stored \<Rightarrow> gwLive gw = Some token \<and> account \<noteq> [] \<and> grRefreshToken stored = token \<and> grAccount stored = account
               | Refreshed _ ws stored got \<Rightarrow> account \<noteq> [] \<and> grAccount stored = account \<and> gwLive gw = Some (fgRefreshToken got) \<and> fgRefreshToken got \<noteq> []"
    using grantReach_inv [OF assms(2,1)] assms(3-5) unfolding grantInv_def by blast
  obtain w where "map_of (workspaces (gwStore gw)) k = Some w" "grAccount (wsGrant w) = account" "grRefreshToken (wsGrant w) = token"
    using row by (auto simp: grantRow_def)
  then show ?thesis using ok ph by (cases "gwPhase gw") auto
qed

text \<open>
  A run of two instances: the first refreshes the grant the owner connected, the second, which
  waited for the lock, refreshes the rotated one.
\<close>

definition plainStart :: grantWorld where
  "plainStart = \<lparr>gwStore = snd (CreateWorkspace 1 (zeroWorkspace\<lparr>wsForge := ''gitlab'', wsPrefix := ''acme'', wsToken := ''w''\<rparr>) newStore),
     gwForges = (\<lambda>_. NewForges True [''gitlab'']), gwPhase = NoRefresh, gwLive = None, gwIssued = {},
     gwRefused = False, gwLost = False, gwRaced = False, gwRevoked = False\<rparr>"

definition acmeRow :: Workspace where
  "acmeRow = zeroWorkspace\<lparr>wsID := 1, wsForge := ''gitlab'', wsPrefix := ''acme'', wsToken := ''w''\<rparr>"

definition firstGrant :: Grant where
  "firstGrant = \<lparr>grAccount = ''bot'', grRefreshToken = ''r0'', grBroken = False\<rparr>"

definition firstRefresh :: forgeGrant where
  "firstRefresh = \<lparr>fgAccessToken = ''a1'', fgRefreshToken = ''r1'', fgAccount = ''bot'', fgTTL = 7200 * 1000000000\<rparr>"

definition connectedWorld :: grantWorld where
  "connectedWorld = plainStart\<lparr>gwLive := Some ''r0'', gwIssued := {''r0''}, gwStore := snd (SetWorkspaceGrant 1 ''gitlab'' firstGrant (gwStore plainStart))\<rparr>"

definition refreshedWorld :: grantWorld where
  "refreshedWorld = connectedWorld\<lparr>gwPhase := Refreshed 0 acmeRow firstGrant firstRefresh, gwLive := Some ''r1'', gwIssued := {''r1'', ''r0''}\<rparr>"

definition keptWorld :: grantWorld where
  "keptWorld =
     (let (fs, s) = keepRotated 5 ''gitlab'' acmeRow firstGrant firstRefresh (gwForges refreshedWorld 0, gwStore refreshedWorld)
      in refreshedWorld\<lparr>gwPhase := NoRefresh, gwStore := s, gwForges := setForges refreshedWorld 0 fs\<rparr>)"

lemma plainStart_start: "grantStart ''gitlab'' ''acme'' 1 plainStart"
proof -
  have "storeInv (gwStore plainStart)" by (simp add: plainStart_def CreateWorkspace_inv storeInv_new)
  moreover have "grantRow 1 (gwStore plainStart) = Some (''gitlab'', ''acme'', [], [])" by code_simp
  ultimately show ?thesis by (simp add: grantStart_def plainStart_def)
qed

lemma refreshedWorld_reach: "(grantStep ''gitlab'' ''acme'' 1)\<^sup>*\<^sup>* plainStart refreshedWorld"
proof -
  have one: "grantStep ''gitlab'' ''acme'' 1 plainStart connectedWorld"
    using gr_connect [of "''r0''" plainStart "''bot''" "''gitlab''" "''acme''" 1]
    by (simp add: connectedWorld_def firstGrant_def plainStart_def)
  have stored: "storedGrant acmeRow (gwStore connectedWorld) = Inr firstGrant" by code_simp
  have cold: "Option.bind (tokensOf (gwForges connectedWorld 0) ''gitlab'') (cacheGet 5 1) = None" by code_simp
  have row: "wsForge acmeRow = ''gitlab''" "wsPrefix acmeRow = ''acme''" "wsID acmeRow = 1" by (simp_all add: acmeRow_def zeroWorkspace_def)
  have "gwPhase connectedWorld = NoRefresh" by (simp add: connectedWorld_def plainStart_def)
  then have two: "grantStep ''gitlab'' ''acme'' 1 connectedWorld (connectedWorld\<lparr>gwPhase := Holding 0 acmeRow firstGrant\<rparr>)"
    using gr_lock [OF _ row cold stored] by blast
  have three: "grantStep ''gitlab'' ''acme'' 1 (connectedWorld\<lparr>gwPhase := Holding 0 acmeRow firstGrant\<rparr>) refreshedWorld"
    using gr_refresh [of "connectedWorld\<lparr>gwPhase := Holding 0 acmeRow firstGrant\<rparr>" 0 acmeRow firstGrant firstRefresh "''gitlab''" "''acme''" 1]
    by (simp add: refreshedWorld_def connectedWorld_def firstGrant_def firstRefresh_def)
  show ?thesis using one two three by (meson rtranclp.rtrancl_into_rtrancl rtranclp.rtrancl_refl)
qed

theorem refresh_presents_live_token_witness:
  "\<exists>w. map_of (workspaces (gwStore keptWorld)) 1 = Some w \<and> grAccount (wsGrant w) = ''bot'' \<and> gwLive keptWorld = Some (grRefreshToken (wsGrant w))"
proof -
  have "grantStep ''gitlab'' ''acme'' 1 refreshedWorld keptWorld"
    using gr_keep [of refreshedWorld 0 acmeRow firstGrant firstRefresh 5 "''gitlab''" _ _ "''acme''" 1]
    by (simp add: keptWorld_def refreshedWorld_def split: prod.split)
  then have reach: "(grantStep ''gitlab'' ''acme'' 1)\<^sup>*\<^sup>* plainStart keptWorld"
    using refreshedWorld_reach by (meson rtranclp.rtrancl_into_rtrancl)
  have flags: "\<not> gwRevoked keptWorld" "\<not> gwLost keptWorld" "\<not> gwRaced keptWorld" "gwPhase keptWorld = NoRefresh"
    by (simp_all add: keptWorld_def refreshedWorld_def connectedWorld_def plainStart_def split: prod.split)
  have "map_option (\<lambda>w. grAccount (wsGrant w)) (map_of (workspaces (gwStore keptWorld)) 1) = Some ''bot''" by code_simp
  then show ?thesis
    using refresh_presents_live_token [OF plainStart_start reach flags(1-3)] flags(4) by auto
qed


end
