(* ===== verification/Tenants.thy ===== *)
theory Tenants
  imports Access Grants
begin

text \<open>
  Workspaces as tenants: who has which seat, registration and joining
  (\<open>internal/server/register.go\<close>), the workspace settings (\<open>internal/server/workspace.go\<close>), and the
  connecting of a workspace to its forge by a grant (\<open>internal/server/grant.go\<close>) or the GitHub App
  (\<open>internal/server/githubapp.go\<close>). A handler is the sequence of its calls to the store; random
  tokens, the clock and the forge's answers are arguments, bodies arrive decoded.
\<close>

section \<open>Seats\<close>

datatype tenantRefusal =
    Refused refusal
  | OwnersOnlyJSON
  | OwnersOnlyPage
  | BadBody
  | Invalid string
  | NotListed
  | NotOwner

definition tenantNotFound :: "httpRequest \<Rightarrow> tenantRefusal" where
  "tenantNotFound rq = Refused (if apiUIPath (rqPath rq) then NotFoundJSON else NotFoundPage)"

definition ownersOnly :: "httpRequest \<Rightarrow> tenantRefusal" where
  "ownersOnly rq = (if apiUIPath (rqPath rq) then OwnersOnlyJSON else OwnersOnlyPage)"

definition signedIn :: "serverConfig \<Rightarrow> httpRequest \<Rightarrow> User option \<Rightarrow> tenantRefusal + User" where
  "signedIn cfg rq user =
     (if \<not> authEnabled cfg then Inl (tenantNotFound rq)
      else case user of None \<Rightarrow> Inl (tenantNotFound rq) | Some u \<Rightarrow> Inr u)"

definition seat :: "User \<Rightarrow> Workspace \<Rightarrow> memStore \<Rightarrow> Role option" where
  "seat u ws s = map_option mbRole (find (\<lambda>m. mbWorkspaceID m = wsID ws) (ListMembershipsForUser (usID u) s))"

definition memberWorkspace :: "serverConfig \<Rightarrow> httpRequest \<Rightarrow> User option \<Rightarrow> string \<Rightarrow> string \<Rightarrow> memStore \<Rightarrow> tenantRefusal + Workspace \<times> Role" where
  "memberWorkspace cfg rq user forge prefix s =
     (case signedIn cfg rq user of
        Inl r \<Rightarrow> Inl r
      | Inr u \<Rightarrow>
          (case WorkspaceByPrefix forge prefix s of
             Inl e \<Rightarrow> Inl (if e = ErrNotFound then tenantNotFound rq else Refused InternalError)
           | Inr ws \<Rightarrow>
               (case seat u ws s of
                  None \<Rightarrow> Inl (tenantNotFound rq)
                | Some role \<Rightarrow> Inr (ws, role))))"

definition ownerWorkspace :: "serverConfig \<Rightarrow> httpRequest \<Rightarrow> User option \<Rightarrow> string \<Rightarrow> string \<Rightarrow> memStore \<Rightarrow> tenantRefusal + Workspace" where
  "ownerWorkspace cfg rq user forge prefix s =
     (case memberWorkspace cfg rq user forge prefix s of
        Inl r \<Rightarrow> Inl r
      | Inr (ws, role) \<Rightarrow> if role \<noteq> RoleOwner then Inl (ownersOnly rq) else Inr ws)"

section \<open>The connection, as the settings show it\<close>

definition appAccount :: string where
  "appAccount = ''gocov[bot]''"

definition forgeConnection :: "Workspace \<Rightarrow> bool \<times> bool \<times> string" where
  "forgeConnection ws =
     (if wsForge ws = ''github'' then (wsGitHubInstallationID ws \<noteq> 0, wsGitHubAppBroken ws, [])
      else if wsForge ws = ''bitbucket'' \<or> wsForge ws = ''gitlab''
      then (grAccount (wsGrant ws) \<noteq> [], grBroken (wsGrant ws), grAccount (wsGrant ws))
      else (False, False, []))"

definition reportingState :: "Workspace \<Rightarrow> string \<times> string" where
  "reportingState ws =
     (let (connected, broken, account) = forgeConnection ws
      in if broken then (''broken'', account) else if connected then (''on'', account) else (''off'', account))"

definition workspaceHomeURL :: "Workspace \<Rightarrow> string" where
  "workspaceHomeURL ws = ''/w/'' @ wsForge ws @ ''/'' @ wsPrefix ws"

definition workspaceSettingsPath :: "string \<Rightarrow> string \<Rightarrow> string" where
  "workspaceSettingsPath forge prefix = ''/workspace-settings/'' @ forge @ ''/'' @ prefix"

definition workspaceConnectURL :: "Workspace \<Rightarrow> string" where
  "workspaceConnectURL ws = ''/workspace-connect/'' @ wsForge ws @ ''/'' @ wsPrefix ws"

definition githubInstallURL :: "(unit \<Rightarrow> connectError + string) option \<Rightarrow> string" where
  "githubInstallURL app = (if InstallURL app = [] then [] else ''/github/install'')"

definition connectURL :: "forgesConfig \<Rightarrow> (unit \<Rightarrow> connectError + string) option \<Rightarrow> Workspace \<Rightarrow> string" where
  "connectURL fc app ws =
     (if \<not> Capable fc (wsForge ws) then []
      else if wsForge ws = ''github'' then githubInstallURL app
      else workspaceConnectURL ws)"

text \<open>A bullet is the three bytes of U+2022.\<close>

definition bullet :: string where
  "bullet = map char_of [226, 128, 162 :: nat]"

definition maskSecret :: "string \<Rightarrow> string" where
  "maskSecret tok =
     (if length tok \<le> 8 then concat (replicate (length tok) bullet)
      else concat (replicate 40 bullet) @ drop (length tok - 8) tok)"

section \<open>Settings\<close>

definition gateRangeMsg :: string where
  "gateRangeMsg = '' must be a percentage between 0 and 100.''"

definition outsidePercent :: "rat option \<Rightarrow> bool" where
  "outsidePercent v = (case v of None \<Rightarrow> False | Some x \<Rightarrow> x < 0 \<or> x > 100)"

fun gateRange :: "(string \<times> rat option) list \<Rightarrow> string" where
  "gateRange [] = []"
| "gateRange ((label, v) # fs) = (if outsidePercent v then label @ gateRangeMsg else gateRange fs)"

definition zeroGate :: Gate where
  "zeroGate = \<lparr>MinCoverage = None, MinDiffCoverage = None, MaxCoverageDrop = None\<rparr>"

definition validGate :: "Gate \<Rightarrow> Gate \<times> string" where
  "validGate gate =
     (let msg = gateRange [(''Min coverage'', MinCoverage gate), (''Min diff coverage'', MinDiffCoverage gate),
          (''Max coverage drop'', MaxCoverageDrop gate)]
      in if msg \<noteq> [] then (zeroGate, msg) else (gate, []))"

definition validRetention :: "int \<Rightarrow> bool" where
  "validRetention days \<longleftrightarrow> days = 0 \<or> days = 90 \<or> days = 365"

record settingsInput =
  siDefaultBranch :: string
  siReportRetentionDays :: int
  siGate :: Gate

record settingsDTO =
  sdForge :: string
  sdPrefix :: string
  sdDefaultBranch :: string
  sdReportRetentionDays :: int
  sdGate :: Gate
  sdOwner :: bool
  sdRepoCount :: int
  sdAvailable :: bool
  sdState :: string
  sdAccount :: string
  sdConnectURL :: string
  sdServerURL :: "string option"
  sdTokenMasked :: "string option"

definition DefaultServer :: string where
  "DefaultServer = ''https://app.gocov.dev''"

definition newWorkspaceSettingsDTO :: "serverConfig \<Rightarrow> forgesConfig \<Rightarrow> (unit \<Rightarrow> connectError + string) option \<Rightarrow> Workspace \<Rightarrow> bool \<Rightarrow> memStore \<Rightarrow> settingsDTO" where
  "newWorkspaceSettingsDTO cfg fc app ws owner s =
     \<lparr>sdForge = wsForge ws, sdPrefix = wsPrefix ws, sdDefaultBranch = wsDefaultBranch ws,
      sdReportRetentionDays = wsReportRetentionDays ws, sdGate = wsGate ws, sdOwner = owner,
      sdRepoCount = int (length (ListWorkspaceRepos (wsForge ws) (wsPrefix ws) s)),
      sdAvailable = Capable fc (wsForge ws), sdState = fst (reportingState ws), sdAccount = snd (reportingState ws),
      sdConnectURL = connectURL fc app ws,
      sdServerURL = (if svBaseURL cfg \<noteq> DefaultServer then Some (svBaseURL cfg) else None),
      sdTokenMasked = (if owner then Some (maskSecret (wsToken ws)) else None)\<rparr>"

definition handleAPIWorkspace :: "serverConfig \<Rightarrow> forgesConfig \<Rightarrow> (unit \<Rightarrow> connectError + string) option \<Rightarrow> httpRequest \<Rightarrow> User option
    \<Rightarrow> string \<Rightarrow> string \<Rightarrow> memStore \<Rightarrow> tenantRefusal + settingsDTO" where
  "handleAPIWorkspace cfg fc app rq user forge prefix s =
     (case memberWorkspace cfg rq user forge prefix s of
        Inl r \<Rightarrow> Inl r
      | Inr (ws, role) \<Rightarrow> Inr (newWorkspaceSettingsDTO cfg fc app ws (role = RoleOwner) s))"

text \<open>The row a save writes, from the row it read.\<close>

definition savedSettings :: "settingsInput \<Rightarrow> Workspace \<Rightarrow> tenantRefusal + Workspace" where
  "savedSettings inp ws =
     (let branch = trimSpace (siDefaultBranch inp); (gate, errLabel) = validGate (siGate inp)
      in if branch = [] then Inl (Invalid ''Default branch cannot be empty.'')
         else if errLabel \<noteq> [] then Inl (Invalid errLabel)
         else if \<not> validRetention (siReportRetentionDays inp) then Inl (Invalid ''Report retention must be 90 days, 1 year or forever.'')
         else Inr (ws\<lparr>wsDefaultBranch := branch, wsGate := gate, wsReportRetentionDays := siReportRetentionDays inp\<rparr>))"

definition handleAPIWorkspaceSettings :: "serverConfig \<Rightarrow> forgesConfig \<Rightarrow> (unit \<Rightarrow> connectError + string) option \<Rightarrow> httpRequest \<Rightarrow> User option
    \<Rightarrow> string \<Rightarrow> string \<Rightarrow> settingsInput option \<Rightarrow> memStore \<Rightarrow> (tenantRefusal + settingsDTO) \<times> memStore" where
  "handleAPIWorkspaceSettings cfg fc app rq user forge prefix body s =
     (case ownerWorkspace cfg rq user forge prefix s of
        Inl r \<Rightarrow> (Inl r, s)
      | Inr ws \<Rightarrow>
          (case body of
             None \<Rightarrow> (Inl BadBody, s)
           | Some inp \<Rightarrow>
               (case savedSettings inp ws of
                  Inl r \<Rightarrow> (Inl r, s)
                | Inr ws \<Rightarrow>
                    (case UpdateWorkspace ws s of
                       (Inl _, s) \<Rightarrow> (Inl (Refused InternalError), s)
                     | (Inr _, s) \<Rightarrow> (Inr (newWorkspaceSettingsDTO cfg fc app ws True s), s)))))"

definition handleAPIWorkspaceRotate :: "serverConfig \<Rightarrow> httpRequest \<Rightarrow> User option \<Rightarrow> string \<Rightarrow> string \<Rightarrow> string \<Rightarrow> memStore
    \<Rightarrow> (tenantRefusal + string) \<times> memStore" where
  "handleAPIWorkspaceRotate cfg rq user forge prefix token s =
     (case ownerWorkspace cfg rq user forge prefix s of
        Inl r \<Rightarrow> (Inl r, s)
      | Inr ws \<Rightarrow>
          (case UpdateWorkspace (ws\<lparr>wsToken := token\<rparr>) s of
             (Inl _, s) \<Rightarrow> (Inl (Refused InternalError), s)
           | (Inr _, s) \<Rightarrow> (Inr token, s)))"

definition handleAPIWorkspaceReveal :: "serverConfig \<Rightarrow> httpRequest \<Rightarrow> User option \<Rightarrow> string \<Rightarrow> string \<Rightarrow> memStore \<Rightarrow> tenantRefusal + string" where
  "handleAPIWorkspaceReveal cfg rq user forge prefix s =
     (case ownerWorkspace cfg rq user forge prefix s of Inl r \<Rightarrow> Inl r | Inr ws \<Rightarrow> Inr (wsToken ws))"

definition githubDisconnect :: "time \<Rightarrow> Workspace \<Rightarrow> memStore \<Rightarrow> (storeError + unit) \<times> memStore" where
  "githubDisconnect now ws s =
     (case UpdateWorkspace (ws\<lparr>wsGitHubInstallationID := 0, wsGitHubAppBroken := False\<rparr>) s of
        (Inl e, s) \<Rightarrow> (Inl e, s)
      | (Inr _, s) \<Rightarrow> (Inr (), MarkWorkspaceReposPrivate now ws s))"

text \<open>The forges connected by a grant, with their state cookies.\<close>

definition connectGrantFor :: "string \<Rightarrow> string option" where
  "connectGrantFor forgeName =
     map_of [(''bitbucket'', ''gocov_connect_state''), (''gitlab'', ''gocov_gl_connect_state'')] forgeName"

definition disconnectWorkspace :: "time \<Rightarrow> httpRequest \<Rightarrow> Workspace \<Rightarrow> forgesState \<times> memStore \<Rightarrow> tenantRefusal option \<times> forgesState \<times> memStore" where
  "disconnectWorkspace now rq ws fs_s =
     (let (fs, s) = fs_s
      in if wsForge ws = ''github'' then
           (case githubDisconnect now ws s of
              (Inl _, s) \<Rightarrow> (Some (Refused InternalError), fs, s)
            | (Inr _, s) \<Rightarrow> (None, fs, s))
         else if connectGrantFor (wsForge ws) = None then (Some (tenantNotFound rq), fs, s)
         else (case SetWorkspaceGrant (wsID ws) (wsForge ws) \<lparr>grAccount = [], grRefreshToken = [], grBroken = False\<rparr> s of
              (Inl _, s) \<Rightarrow> (Some (Refused InternalError), fs, s)
            | (Inr _, s) \<Rightarrow> (None, DropGrantToken (wsForge ws) (wsID ws) fs, MarkWorkspaceReposPrivate now ws s)))"

text \<open>The row the answer is made of still has the grant as it was read, the App's columns as written.\<close>

definition handleAPIWorkspaceDisconnect :: "serverConfig \<Rightarrow> (unit \<Rightarrow> connectError + string) option \<Rightarrow> time \<Rightarrow> httpRequest \<Rightarrow> User option
    \<Rightarrow> string \<Rightarrow> string \<Rightarrow> forgesState \<times> memStore \<Rightarrow> (tenantRefusal + settingsDTO) \<times> forgesState \<times> memStore" where
  "handleAPIWorkspaceDisconnect cfg app now rq user forge prefix fs_s =
     (case ownerWorkspace cfg rq user forge prefix (snd fs_s) of
        Inl r \<Rightarrow> (Inl r, fs_s)
      | Inr ws \<Rightarrow>
          (case disconnectWorkspace now rq ws fs_s of
             (Some r, fs_s) \<Rightarrow> (Inl r, fs_s)
           | (None, fs, s) \<Rightarrow>
               let ws = (if wsForge ws = ''github'' then ws\<lparr>wsGitHubInstallationID := 0, wsGitHubAppBroken := False\<rparr> else ws)
               in (Inr (newWorkspaceSettingsDTO cfg (fsConfig fs) app ws True s), fs, s)))"

definition handleAPIWorkspaceDelete :: "serverConfig \<Rightarrow> httpRequest \<Rightarrow> User option \<Rightarrow> string \<Rightarrow> string \<Rightarrow> memStore \<Rightarrow> (tenantRefusal + unit) \<times> memStore" where
  "handleAPIWorkspaceDelete cfg rq user forge prefix s =
     (case ownerWorkspace cfg rq user forge prefix s of
        Inl r \<Rightarrow> (Inl r, s)
      | Inr ws \<Rightarrow>
          (case DeleteWorkspace (wsID ws) s of
             (Inl _, s) \<Rightarrow> (Inl (Refused InternalError), s)
           | (Inr _, s) \<Rightarrow> (Inr (), s)))"

section \<open>Registering and joining\<close>

definition registerUser :: "httpRequest \<Rightarrow> User option \<Rightarrow> tenantRefusal + User" where
  "registerUser rq user = (case user of None \<Rightarrow> Inl (tenantNotFound rq) | Some u \<Rightarrow> Inr u)"

definition forgeRole :: "User \<Rightarrow> string \<Rightarrow> Role" where
  "forgeRole u prefix = (if prefix \<in> set (usForgeOwnedWorkspaces u) then RoleOwner else RoleMember)"

record registerRow =
  rrPrefix :: string
  rrState :: string

fun registerLoop :: "User \<Rightarrow> (string, bool) gomap \<Rightarrow> memStore \<Rightarrow> string list \<Rightarrow> storeError + registerRow list" where
  "registerLoop u member s [] = Inr []"
| "registerLoop u member s (prefix # ps) =
     (case (case WorkspaceByPrefix (usForge u) prefix s of
              Inl e \<Rightarrow> if e = ErrNotFound
                then Inr (if forgeRole u prefix \<noteq> RoleOwner then ''unowned'' else ''available'')
                else Inl e
            | Inr _ \<Rightarrow> Inr (if map_of member prefix = Some True then ''member'' else ''registered'')) of
        Inl e \<Rightarrow> Inl e
      | Inr state \<Rightarrow>
          (case registerLoop u member s ps of
             Inl e \<Rightarrow> Inl e
           | Inr rows \<Rightarrow> Inr (\<lparr>rrPrefix = prefix, rrState = state\<rparr> # rows)))"

definition registerRows :: "User \<Rightarrow> memStore \<Rightarrow> storeError + registerRow list" where
  "registerRows u s =
     registerLoop u (foldl (\<lambda>m ws. AList.update (wsPrefix ws) True m) [] (ListWorkspacesForUser (usID u) s)) s (sort (usForgeWorkspaces u))"

definition newWorkspace :: "string \<Rightarrow> string \<Rightarrow> string \<Rightarrow> Workspace" where
  "newWorkspace forge prefix token =
     zeroWorkspace\<lparr>wsForge := forge, wsPrefix := prefix, wsToken := token, wsDefaultBranch := ''main''\<rparr>"

datatype claimed = Created Workspace | Existing Workspace

definition claimWorkspace :: "time \<Rightarrow> string \<Rightarrow> User \<Rightarrow> string \<Rightarrow> memStore \<Rightarrow> (tenantRefusal + claimed) \<times> memStore" where
  "claimWorkspace now token u prefix s =
     (case WorkspaceByPrefix (usForge u) prefix s of
        Inr existing \<Rightarrow> (Inr (Existing existing), s)
      | Inl e \<Rightarrow>
          if e \<noteq> ErrNotFound then (Inl (Refused InternalError), s)
          else if forgeRole u prefix \<noteq> RoleOwner then (Inl NotOwner, s)
          else (case RegisterWorkspace now (newWorkspace (usForge u) prefix token) (usID u) s of
              (Inr ws, s) \<Rightarrow> (Inr (Created ws), s)
            | (Inl _, s) \<Rightarrow>
                (case WorkspaceByPrefix (usForge u) prefix s of
                   Inr existing \<Rightarrow> (Inr (Existing existing), s)
                 | Inl _ \<Rightarrow> (Inl (Refused InternalError), s))))"

definition joinWorkspace :: "User \<Rightarrow> Workspace \<Rightarrow> memStore \<Rightarrow> unit outcome" where
  "joinWorkspace u ws s =
     (let memberships = ListMembershipsForUser (usID u) s
      in if list_ex (\<lambda>m. mbWorkspaceID m = wsID ws) memberships then (Inr (), s)
         else SetUserMemberships (usID u) (memberships @ [\<lparr>mbWorkspaceID = wsID ws, mbRole = forgeRole u (wsPrefix ws)\<rparr>]) s)"

text \<open>The workspace the claim settled on, and whether it was created.\<close>

definition claimOrJoin :: "time \<Rightarrow> string \<Rightarrow> User \<Rightarrow> string \<Rightarrow> memStore \<Rightarrow> (tenantRefusal + Workspace \<times> bool) \<times> memStore" where
  "claimOrJoin now token u prefix s =
     (if prefix = [] \<or> prefix \<notin> set (usForgeWorkspaces u) then (Inl NotListed, s)
      else case claimWorkspace now token u prefix s of
        (Inl r, s) \<Rightarrow> (Inl r, s)
      | (Inr (Created ws), s) \<Rightarrow> (Inr (ws, True), s)
      | (Inr (Existing ws), s) \<Rightarrow>
          (case joinWorkspace u ws s of
             (Inl _, s) \<Rightarrow> (Inl (Refused InternalError), s)
           | (Inr _, s) \<Rightarrow> (Inr (ws, False), s)))"

definition handleAPIRegister :: "time \<Rightarrow> string \<Rightarrow> httpRequest \<Rightarrow> User option \<Rightarrow> string option \<Rightarrow> memStore
    \<Rightarrow> (tenantRefusal + string \<times> string \<times> bool) \<times> memStore" where
  "handleAPIRegister now token rq user body s =
     (case registerUser rq user of
        Inl r \<Rightarrow> (Inl r, s)
      | Inr u \<Rightarrow>
          (case body of
             None \<Rightarrow> (Inl BadBody, s)
           | Some inp \<Rightarrow>
               let prefix = trimSpace inp
               in if prefix = [] then (Inl (Invalid ''Pick a workspace to register.''), s)
                  else (case claimOrJoin now token u prefix s of
                      (Inl r, s) \<Rightarrow> (Inl r, s)
                    | (Inr (ws, created), s) \<Rightarrow> (Inr (wsForge ws, wsPrefix ws, created), s))))"

section \<open>The GitHub App\<close>

definition positiveInt :: "string \<Rightarrow> int option" where
  "positiveInt t = (case atoi t of None \<Rightarrow> None | Some n \<Rightarrow> if n \<le> 0 then None else Some n)"

text \<open>\<open>url.Values.Encode\<close> writes the keys in order.\<close>

definition connectOutcomeURL :: "string \<Rightarrow> string \<Rightarrow> int \<Rightarrow> string" where
  "connectOutcomeURL outcome login installationID =
     ''/onboarding?connect='' @ queryEscape outcome
     @ (if installationID > 0 then ''&installation_id='' @ queryEscape (itoa installationID) else [])
     @ (if login \<noteq> [] then ''&ws='' @ queryEscape login else [])"

definition inForgeWorkspaces :: "User \<Rightarrow> string \<Rightarrow> bool" where
  "inForgeWorkspaces u login \<longleftrightarrow> usForge u = ''github'' \<and> login \<in> set (usForgeWorkspaces u)"

text \<open>Where the browser goes, \<open>None\<close> for a server fault.\<close>

definition connectExisting :: "User \<Rightarrow> Workspace \<Rightarrow> string \<Rightarrow> int \<Rightarrow> memStore \<Rightarrow> string option \<times> memStore" where
  "connectExisting u ws login installationID s =
     (let seated = seat u ws s
      in if seated = None \<and> \<not> inForgeWorkspaces u login then (Some (connectOutcomeURL ''not_your_workspace'' login installationID), s)
         else
           let (err, s) = (if seated = None then joinWorkspace u ws s else (Inr (), s));
               role = (case seated of None \<Rightarrow> forgeRole u login | Some r \<Rightarrow> r)
           in if isl err then (None, s)
              else if role \<noteq> RoleOwner then (Some (connectOutcomeURL ''owners_only'' login installationID), s)
              else (case UpdateWorkspace (ws\<lparr>wsGitHubInstallationID := installationID, wsGitHubAppBroken := False\<rparr>) s of
                  (Inl _, s) \<Rightarrow> (None, s)
                | (Inr _, s) \<Rightarrow> (Some (workspaceHomeURL ws), s)))"

definition connectNew :: "time \<Rightarrow> string \<Rightarrow> User \<Rightarrow> string \<Rightarrow> int \<Rightarrow> memStore \<Rightarrow> string option \<times> memStore" where
  "connectNew now token u login installationID s =
     (if inForgeWorkspaces u login \<and> forgeRole u login \<noteq> RoleOwner then (Some (connectOutcomeURL ''owners_only'' login installationID), s)
      else if \<not> inForgeWorkspaces u login then (Some (connectOutcomeURL ''not_your_workspace'' login installationID), s)
      else case RegisterWorkspace now ((newWorkspace ''github'' login token)\<lparr>wsGitHubInstallationID := installationID\<rparr>) (usID u) s of
        (Inr ws, s) \<Rightarrow> (Some (workspaceHomeURL ws), s)
      | (Inl _, s) \<Rightarrow>
          (case WorkspaceByPrefix ''github'' login s of
             Inr existing \<Rightarrow> connectExisting u existing login installationID s
           | Inl _ \<Rightarrow> (None, s)))"

text \<open>\<open>account\<close> is what GitHub answers for the installation, \<open>None\<close> without an answer.\<close>

definition linkInstallation :: "time \<Rightarrow> string \<Rightarrow> (int \<Rightarrow> string option) \<Rightarrow> User \<Rightarrow> int \<Rightarrow> memStore \<Rightarrow> string option \<times> memStore" where
  "linkInstallation now token account u i s =
     (case account i of
        None \<Rightarrow> (Some (connectOutcomeURL ''install_unconfirmed'' [] i), s)
      | Some login \<Rightarrow>
          (case WorkspaceByPrefix ''github'' login s of
             Inr ws \<Rightarrow> connectExisting u ws login i s
           | Inl e \<Rightarrow> if e = ErrNotFound then connectNew now token u login i s else (None, s)))"

definition installStateMatches :: "string option \<Rightarrow> string \<Rightarrow> bool" where
  "installStateMatches cookie state = (case cookie of None \<Rightarrow> False | Some v \<Rightarrow> v \<noteq> [] \<and> v = state)"

record setupForm =
  sfAction :: string
  sfInstallationID :: string
  sfState :: string

definition handleGitHubSetup :: "serverConfig \<Rightarrow> forgesConfig \<Rightarrow> time \<Rightarrow> string \<Rightarrow> (int \<Rightarrow> string option) \<Rightarrow> httpRequest \<Rightarrow> User option
    \<Rightarrow> setupForm \<Rightarrow> string option \<Rightarrow> memStore \<Rightarrow> (refusal + string) \<times> memStore" where
  "handleGitHubSetup cfg fc now token account rq user form cookie s =
     (if \<not> fcGitHubApp fc \<or> \<not> authEnabled cfg then (Inl NotFoundPage, s)
      else case user of
        None \<Rightarrow> (Inl (redirectToLogin rq), s)
      | Some u \<Rightarrow>
          if sfAction form = ''request'' then (Inr (connectOutcomeURL ''install_requested'' [] 0), s)
          else (case positiveInt (sfInstallationID form) of
              None \<Rightarrow> (Inr (connectOutcomeURL ''no_installation'' [] 0), s)
            | Some i \<Rightarrow>
                if \<not> installStateMatches cookie (sfState form) then (Inr (connectOutcomeURL ''install_confirm'' [] i), s)
                else (case linkInstallation now token account u i s of
                    (None, s) \<Rightarrow> (Inl InternalError, s)
                  | (Some dest, s) \<Rightarrow> (Inr dest, s))))"

definition handleAPIGitHubConnect :: "serverConfig \<Rightarrow> forgesConfig \<Rightarrow> time \<Rightarrow> string \<Rightarrow> (int \<Rightarrow> string option) \<Rightarrow> User option
    \<Rightarrow> int option \<Rightarrow> memStore \<Rightarrow> (tenantRefusal + string) \<times> memStore" where
  "handleAPIGitHubConnect cfg fc now token account user body s =
     (if \<not> fcGitHubApp fc \<or> \<not> authEnabled cfg then (Inl (Refused NotFoundJSON), s)
      else case user of
        None \<Rightarrow> (Inl (Refused SignInRequired), s)
      | Some u \<Rightarrow>
          (case body of
             None \<Rightarrow> (Inl BadBody, s)
           | Some i \<Rightarrow>
               if i \<le> 0 then (Inl BadBody, s)
               else (case linkInstallation now token account u i s of
                   (None, s) \<Rightarrow> (Inl (Refused InternalError), s)
                 | (Some dest, s) \<Rightarrow> (Inr dest, s))))"

section \<open>Connecting by a grant\<close>

text \<open>The query of a callback, and the two parts of a connect cookie.\<close>

record oauthForm =
  ofCode :: string
  ofState :: string
  ofError :: string

definition splitConnectState :: "string \<Rightarrow> string \<times> string" where
  "splitConnectState v = (let (state, prefix) = cutAt CHR ''|'' v in (state, fst (cutAt CHR ''|'' prefix)))"

definition connectFailed :: "string \<Rightarrow> string \<Rightarrow> string" where
  "connectFailed forge prefix = (if prefix \<noteq> [] then workspaceSettingsPath forge prefix else ''/'') @ ''?error=connect_failed''"

definition connectDenied :: string where
  "connectDenied = ''/?error=connect_denied''"

text \<open>The cookie a connect sets and where its consent starts, or why there is none.\<close>

definition handleConnect :: "serverConfig \<Rightarrow> forgesConfig \<Rightarrow> (string \<Rightarrow> string) \<Rightarrow> string \<Rightarrow> httpRequest \<Rightarrow> User option \<Rightarrow> string \<Rightarrow> string \<Rightarrow> memStore
    \<Rightarrow> tenantRefusal + string \<times> string" where
  "handleConnect cfg fc authorizeURL state rq user forge prefix s =
     (if connectGrantFor forge = None \<or> forge \<notin> set (fcGrants fc) then Inl (Refused NotFoundPage)
      else case ownerWorkspace cfg rq user forge prefix s of
        Inl r \<Rightarrow> Inl r
      | Inr ws \<Rightarrow> Inr (state @ ''|'' @ wsPrefix ws, authorizeURL state))"

text \<open>
  A callback that is a returning connect consent: \<open>None\<close> when it is not this flow's, else where
  the browser goes. \<open>exchange\<close> is the connector's answer to the code.
\<close>

definition connectCallback :: "(string \<Rightarrow> string) \<Rightarrow> time \<Rightarrow> (string \<Rightarrow> connectError + forgeGrant) \<Rightarrow> httpRequest \<Rightarrow> string \<Rightarrow> oauthForm \<Rightarrow> string option
    \<Rightarrow> forgesState \<times> memStore \<Rightarrow> (refusal + string) option \<times> forgesState \<times> memStore" where
  "connectCallback hash now exchange rq forge form cookie fs_s =
     (let (fs, s) = fs_s
      in if forge \<notin> set (fcGrants (fsConfig fs)) then (None, fs, s)
         else case cookie of
           None \<Rightarrow> (None, fs, s)
         | Some v \<Rightarrow>
             let (state, prefix) = splitConnectState v
             in if state = [] \<or> ofState form \<noteq> state then (None, fs, s)
                else if ofError form \<noteq> [] \<or> ofCode form = [] \<or> prefix = [] then (Some (Inr (connectFailed forge prefix)), fs, s)
                else (case sessionUser hash now rq s of
                    (None, s) \<Rightarrow> (Some (Inr (loginURL (workspaceSettingsPath forge prefix))), fs, s)
                  | (Some u, s) \<Rightarrow>
                      (case WorkspaceByPrefix forge prefix s of
                         Inl e \<Rightarrow> (Some (if e = ErrNotFound then Inr connectDenied else Inl InternalError), fs, s)
                       | Inr ws \<Rightarrow>
                           (case seat u ws s of
                              None \<Rightarrow> (Some (Inr connectDenied), fs, s)
                            | Some role \<Rightarrow>
                                if role \<noteq> RoleOwner then (Some (Inr (workspaceSettingsPath forge prefix @ ''?error=connect_owners_only'')), fs, s)
                                else (case exchange (ofCode form) of
                                    Inl _ \<Rightarrow> (Some (Inr (connectFailed forge prefix)), fs, s)
                                  | Inr grant \<Rightarrow>
                                      (case SetWorkspaceGrant (wsID ws) forge
                                           \<lparr>grAccount = fgAccount grant, grRefreshToken = fgRefreshToken grant, grBroken = False\<rparr> s of
                                         (Inl _, s) \<Rightarrow> (Some (Inl InternalError), fs, s)
                                       | (Inr _, s) \<Rightarrow>
                                           (Some (Inr (workspaceHomeURL ws)), CacheGrantToken now forge (wsID ws) (fgAccessToken grant) (fgTTL grant) fs, s)))))))"

end
