(* ===== verification/SignIn.thy ===== *)
theory SignIn
  imports Tenants
begin

text \<open>
  Signing in, \<open>internal/server/oauth.go\<close>: the consent redirect and its cookie, the callback that
  turns a forge's answer into an account with its memberships and a session, and where the browser
  may be sent afterwards. The forge's answer, the clock, random tokens, the hash of a token and the
  splitting of a URL's authority are arguments.
\<close>

section \<open>Where a sign-in may lead\<close>

definition backslash :: char where
  "backslash = CHR 0x5C"

definition otherOrigin :: "string \<Rightarrow> bool" where
  "otherOrigin p \<longleftrightarrow> \<not> hasPrefix p ''/'' \<or> hasPrefix p ''//'' \<or> hasPrefix p [CHR ''/'', backslash]"

text \<open>A URL without a host has no host name either, so the one test covers both.\<close>

definition sanitizeNext :: "(string \<Rightarrow> (string option \<times> string) option) \<Rightarrow> string \<Rightarrow> string" where
  "sanitizeNext authority next =
     (if otherOrigin next then ''/''
      else case urlParse authority (replaceAll next [backslash] ''/'') of
        None \<Rightarrow> ''/''
      | Some target \<Rightarrow>
          if uScheme target \<noteq> [] \<or> uHost target \<noteq> [] \<or> uUser target \<noteq> None then ''/''
          else
            let escaped = EscapedPath target
            in if otherOrigin escaped then ''/''
               else
                 let out = pathClean escaped;
                     out = (if hasSuffix escaped ''/'' \<and> \<not> hasSuffix out ''/'' then out @ ''/'' else out);
                     out = (if uForceQuery target \<or> uRawQuery target \<noteq> [] then out @ ''?'' @ uRawQuery target else out)
                 in if uFragment target \<noteq> [] then out @ ''#'' @ EscapedFragment target else out)"

definition readStateCookie :: "(string \<Rightarrow> (string option \<times> string) option) \<Rightarrow> string option \<Rightarrow> string \<times> string" where
  "readStateCookie authority cookie =
     (case cookie of
        None \<Rightarrow> ([], ''/'')
      | Some v \<Rightarrow>
          let (state, escaped) = cutAt CHR ''|'' v
          in case queryUnescape escaped of
               None \<Rightarrow> (state, ''/'')
             | Some next \<Rightarrow> (state, sanitizeNext authority next))"

text \<open>The provider of a login route, or the answer in its place.\<close>

definition oauthProvider :: "serverConfig \<Rightarrow> string \<Rightarrow> (refusal + string) option" where
  "oauthProvider cfg forge =
     (if \<not> authEnabled cfg then Some (Inr ''/'')
      else if forge \<notin> set (svAuths cfg) then Some (Inl NotFoundPage)
      else None)"

text \<open>The cookie and the consent screen a sign-in starts with.\<close>

definition handleOAuthStart :: "serverConfig \<Rightarrow> (string \<Rightarrow> (string option \<times> string) option) \<Rightarrow> (string \<Rightarrow> string \<Rightarrow> string) \<Rightarrow> string \<Rightarrow> string \<Rightarrow> string
    \<Rightarrow> (refusal + string) \<times> string option" where
  "handleOAuthStart cfg authority authorizeURL state forge next =
     (case oauthProvider cfg forge of
        Some r \<Rightarrow> (r, None)
      | None \<Rightarrow> (Inr (authorizeURL state (RedirectURI (svBaseURL cfg) forge)),
                 Some (state @ ''|'' @ queryEscape (sanitizeNext authority next))))"

text \<open>The login page itself, or a redirect for who should not be on it; the status of a refused sign-in.\<close>

definition handleLogin :: "serverConfig \<Rightarrow> (string \<Rightarrow> string) \<Rightarrow> (string \<Rightarrow> (string option \<times> string) option) \<Rightarrow> time \<Rightarrow> httpRequest \<Rightarrow> string \<Rightarrow> string \<Rightarrow> memStore
    \<Rightarrow> (int + string) \<times> memStore" where
  "handleLogin cfg hash authority now rq next denied s =
     (if \<not> authEnabled cfg then (Inr ''/'', s)
      else case sessionUser hash now rq s of
        (Some u, s) \<Rightarrow> (Inr (sanitizeNext authority next), s)
      | (None, s) \<Rightarrow> (Inl (if denied = ''1'' \<and> \<not> svHosted cfg then 403 else 200), s))"

record loginInfoDTO =
  liHosted :: bool
  liProviders :: "string list"
  liTrackedWorkspaces :: "wsKey list"

definition handleAPILogin :: "serverConfig \<Rightarrow> string \<Rightarrow> memStore \<Rightarrow> loginInfoDTO" where
  "handleAPILogin cfg denied s =
     \<lparr>liHosted = svHosted cfg, liProviders = svAuths cfg,
      liTrackedWorkspaces = (if denied = ''1'' \<and> \<not> svHosted cfg then trackedWorkspaceKeys cfg s else [])\<rparr>"

definition signInFailed :: string where
  "signInFailed = ''/login?error=1''"

text \<open>The code and the destination of a consent this browser started.\<close>

definition verifyCallback :: "(string \<Rightarrow> (string option \<times> string) option) \<Rightarrow> string option \<Rightarrow> oauthForm \<Rightarrow> (string \<times> string) option" where
  "verifyCallback authority cookie form =
     (let (state, next) = readStateCookie authority cookie
      in if ofError form \<noteq> [] \<or> ofCode form = [] \<or> state = [] \<or> ofState form \<noteq> state then None
         else Some (ofCode form, next))"

section \<open>Accounts\<close>

record Identity =
  idForgeUUID :: string
  idEmail :: string
  idDisplayName :: string
  idWorkspaces :: "string list"
  idOwnedWorkspaces :: "string list"

definition admitSignIn :: "serverConfig \<Rightarrow> string \<Rightarrow> Identity \<Rightarrow> memStore \<Rightarrow> bool" where
  "admitSignIn cfg forge ident s =
     (if svHosted cfg then True
      else let allowed = allowedWorkspaceSet cfg s in list_ex (\<lambda>ws. admits allowed forge ws) (idWorkspaces ident))"

definition syncMemberships :: "User \<Rightarrow> memStore \<Rightarrow> int \<times> unit outcome" where
  "syncMemberships u s =
     (let memberships = map (\<lambda>ws. \<lparr>mbWorkspaceID = wsID ws, mbRole = forgeRole u (wsPrefix ws)\<rparr>)
            (filter (\<lambda>ws. wsForge ws = usForge u \<and> wsPrefix ws \<in> set (usForgeWorkspaces u)) (ListWorkspaces s))
      in (int (length memberships), SetUserMemberships (usID u) memberships s))"

definition identityUser :: "string \<Rightarrow> Identity \<Rightarrow> User" where
  "identityUser forge ident =
     \<lparr>usID = 0, usForge = forge, usForgeUUID = idForgeUUID ident, usEmail = idEmail ident, usDisplayName = idDisplayName ident,
      usForgeWorkspaces = idWorkspaces ident, usForgeOwnedWorkspaces = idOwnedWorkspaces ident, usCreatedAt = 0, usLastLoginAt = 0\<rparr>"

definition provisionUser :: "time \<Rightarrow> string \<Rightarrow> Identity \<Rightarrow> memStore \<Rightarrow> (User \<times> int) option \<times> memStore" where
  "provisionUser now forge ident s =
     (case UpsertUser now (identityUser forge ident) s of
        (Inl _, s) \<Rightarrow> (None, s)
      | (Inr u, s) \<Rightarrow>
          (case syncMemberships u s of
             (_, (Inl _, s)) \<Rightarrow> (None, s)
           | (memberships, (Inr _, s)) \<Rightarrow> (Some (u, memberships), s)))"

definition startSession :: "(string \<Rightarrow> string) \<Rightarrow> time \<Rightarrow> string \<Rightarrow> User \<Rightarrow> memStore \<Rightarrow> bool \<times> memStore" where
  "startSession hash now token u s =
     (case CreateSession now \<lparr>seTokenHash = hash token, seUserID = usID u, seCreatedAt = 0, seExpiresAt = now + sessionTTL\<rparr> s of
        (Inl _, s) \<Rightarrow> (False, s)
      | (Inr _, s) \<Rightarrow> (True, s))"

text \<open>
  The callback: where the browser goes or how the request fails, and the session cookie that is
  set. \<open>identity\<close> is the provider's answer to the consent code.
\<close>

definition handleOAuthCallback :: "serverConfig \<Rightarrow> (string \<Rightarrow> string) \<Rightarrow> (string \<Rightarrow> (string option \<times> string) option) \<Rightarrow> time \<Rightarrow> string
    \<Rightarrow> (string \<Rightarrow> Identity option) \<Rightarrow> (string \<Rightarrow> connectError + forgeGrant) \<Rightarrow> httpRequest \<Rightarrow> string \<Rightarrow> oauthForm \<Rightarrow> string option \<Rightarrow> string option
    \<Rightarrow> forgesState \<times> memStore \<Rightarrow> (refusal + string) \<times> string option \<times> forgesState \<times> memStore" where
  "handleOAuthCallback cfg hash authority now token identity exchange rq forge form stateCookie connectCookie fs_s =
     (case oauthProvider cfg forge of
        Some r \<Rightarrow> (r, None, fs_s)
      | None \<Rightarrow>
          (case (if connectGrantFor forge = None then (None, fs_s)
                 else connectCallback hash now exchange rq forge form connectCookie fs_s) of
             (Some r, fs_s) \<Rightarrow> (r, None, fs_s)
           | (None, fs, s) \<Rightarrow>
               (case verifyCallback authority stateCookie form of
                  None \<Rightarrow> (Inr signInFailed, None, fs, s)
                | Some (code, next) \<Rightarrow>
                    (case identity code of
                       None \<Rightarrow> (Inr signInFailed, None, fs, s)
                     | Some ident \<Rightarrow>
                         if \<not> admitSignIn cfg forge ident s then (Inr ''/login?denied=1'', None, fs, s)
                         else (case provisionUser now forge ident s of
                             (None, s) \<Rightarrow> (Inl InternalError, None, fs, s)
                           | (Some (u, memberships), s) \<Rightarrow>
                               let next = (if svHosted cfg \<and> memberships = 0 \<and> (next = [] \<or> next = ''/'') then ''/onboarding'' else next)
                               in (case startSession hash now token u s of
                                   (False, s) \<Rightarrow> (Inl InternalError, None, fs, s)
                                 | (True, s) \<Rightarrow> (Inr next, Some token, fs, s)))))))"

section \<open>No open redirect\<close>

lemma replaceAll_gone: "CHR ''/'' \<noteq> c \<Longrightarrow> c \<notin> set (replaceAll s [c] ''/'')"
proof (induction s "[c]" "''/''" rule: replaceAll.induct)
  case (1 s)
  then show ?case by (subst replaceAll.simps) (auto simp: hasPrefix_iff split: list.splits)
qed

text \<open>
  C34: signing in leads nowhere else. Whatever the login link asks for, the browser is sent to a path
  of this site: the destination begins with one slash, not two, and has no backslash and no control
  byte, which browsers read as slashes or drop; whichever way the URL library splits an authority.
\<close>

theorem sign_in_stays_on_site:
  "\<exists>rest. sanitizeNext authority next = ''/'' @ rest \<and> \<not> hasPrefix rest ''/'' \<and> list_all plainByte rest"
proof -
  define folded where "folded = replaceAll next [backslash] ''/''"
  show ?thesis
  proof (cases "sanitizeNext authority next = ''/''")
    case True
    then show ?thesis by (intro exI [of _ "[]"]) (simp add: hasPrefix_iff)
  next
    case False
    then obtain u where u: "urlParse authority folded = Some u" and other: "\<not> otherOrigin (EscapedPath u)"
      by (auto simp: sanitizeNext_def folded_def Let_def split: if_splits option.splits)
    define e where "e = EscapedPath u"
    define q where "q = (if uForceQuery u \<or> uRawQuery u \<noteq> [] then ''?'' @ uRawQuery u else []) @ (if uFragment u \<noteq> [] then ''#'' @ EscapedFragment u else [])"
    obtain body where body: "pathClean e = ''/'' @ body" "\<not> hasPrefix body ''/''" "set body \<subseteq> set e"
      using other pathClean_rooted [of e] by (auto simp: otherOrigin_def e_def)
    define tail where "tail = (if hasSuffix e ''/'' \<and> \<not> hasSuffix (pathClean e) ''/'' then ''/'' else [])"
    have out: "sanitizeNext authority next = ''/'' @ body @ tail @ q"
      using False u other
      by (auto simp: sanitizeNext_def folded_def [symmetric] Let_def e_def [symmetric] q_def tail_def body(1) split: if_splits)
    have "body = [] \<Longrightarrow> tail = []" by (simp add: tail_def body(1) hasSuffix_iff)
    moreover have "\<not> hasPrefix q ''/''" by (simp add: q_def hasPrefix_iff)
    ultimately have "\<not> hasPrefix (body @ tail @ q) ''/''" using body(2) by (cases body) (auto simp: hasPrefix_iff)
    moreover have "list_all plainByte (body @ tail @ q)"
    proof -
      have "list_all plainByte body" using escaped_plain(1) [of u] body(3) by (auto simp: list_all_iff e_def)
      moreover have "list_all plainByte ''/?#''" by code_simp
      moreover have "backslash \<notin> set folded" unfolding folded_def by (rule replaceAll_gone) (simp add: backslash_def)
      then have "list_all plainByte (uRawQuery u)"
        using urlParse_query [OF u] by (auto simp: list_all_iff plainByte_def backslash_def)
      ultimately show ?thesis using escaped_plain(2) [of u] by (auto simp: tail_def q_def list_all_iff)
    qed
    ultimately show ?thesis using out by blast
  qed
qed

end
