(* ===== verification/Vouched.thy ===== *)
theory Vouched
  imports SignIn
begin

text \<open>
  What a seat rests on. Requests run one after another, each handler whole; between them the store
  does everything else it does. Every membership then is one the forge reported for the account the
  last time it signed in, with the owner's role only where the forge said owner.
\<close>

section \<open>Seats the forge vouches for\<close>

definition forgeSeat :: "User \<Rightarrow> Workspace \<Rightarrow> Role \<Rightarrow> bool" where
  "forgeSeat u ws role \<longleftrightarrow> wsForge ws = usForge u \<and> wsPrefix ws \<in> set (usForgeWorkspaces u)
     \<and> (role = RoleOwner \<longrightarrow> wsPrefix ws \<in> set (usForgeOwnedWorkspaces u))"

definition seatOK :: "memStore \<Rightarrow> int \<Rightarrow> int \<Rightarrow> Role \<Rightarrow> bool" where
  "seatOK s uid wid role \<longleftrightarrow>
     (\<exists>u ws. map_of (users s) uid = Some u \<and> map_of (workspaces s) wid = Some ws \<and> forgeSeat u ws role)"

definition vouched :: "memStore \<Rightarrow> bool" where
  "vouched s \<longleftrightarrow> (\<forall>uid wid role. map_of (membersOf s uid) wid = Some role \<longrightarrow> seatOK s uid wid role)"

lemma forgeRole_seat: "wsForge ws = usForge u \<Longrightarrow> wsPrefix ws \<in> set (usForgeWorkspaces u) \<Longrightarrow> forgeSeat u ws (forgeRole u (wsPrefix ws))"
  by (simp add: forgeSeat_def forgeRole_def)

text \<open>Steps that leave accounts, memberships and the names of workspaces alone.\<close>

definition tenantKeeps :: "memStore \<Rightarrow> memStore \<Rightarrow> bool" where
  "tenantKeeps s s' \<longleftrightarrow> users s' = users s \<and> members s' = members s
     \<and> (\<forall>k. map_option byForgePrefix (map_of (workspaces s') k) = map_option byForgePrefix (map_of (workspaces s) k))"

lemma tenantKeeps_refl [intro]: "tenantKeeps s s"
  by (simp add: tenantKeeps_def)

lemma tenantKeeps_trans: "tenantKeeps s t \<Longrightarrow> tenantKeeps t r \<Longrightarrow> tenantKeeps s r"
  by (simp add: tenantKeeps_def)

lemma tenantKeeps_vouched: "tenantKeeps s s' \<Longrightarrow> vouched s \<Longrightarrow> vouched s'"
  unfolding vouched_def seatOK_def
proof (intro allI impI)
  fix uid wid role
  assume k: "tenantKeeps s s'" and v: "\<forall>uid wid role. map_of (membersOf s uid) wid = Some role \<longrightarrow>
      (\<exists>u ws. map_of (users s) uid = Some u \<and> map_of (workspaces s) wid = Some ws \<and> forgeSeat u ws role)"
    and m: "map_of (membersOf s' uid) wid = Some role"
  have "membersOf s' uid = membersOf s uid" using k by (simp add: tenantKeeps_def membersOf_def)
  then obtain u ws where u: "map_of (users s) uid = Some u" "map_of (workspaces s) wid = Some ws" "forgeSeat u ws role"
    using v m by force
  obtain ws' where "map_of (workspaces s') wid = Some ws'" "byForgePrefix ws' = byForgePrefix ws"
    using k u(2) unfolding tenantKeeps_def by (metis (no_types, lifting) map_option_eq_Some)
  then show "\<exists>u ws. map_of (users s') uid = Some u \<and> map_of (workspaces s') wid = Some ws \<and> forgeSeat u ws role"
    using k u by (auto simp: tenantKeeps_def byForgePrefix_def forgeSeat_def)
qed

lemma row_update_keeps:
  "map_of (workspaces s) k = Some x \<Longrightarrow> byForgePrefix w = byForgePrefix x
    \<Longrightarrow> tenantKeeps s (s\<lparr>workspaces := AList.update k w (workspaces s)\<rparr>)"
  by (auto simp: tenantKeeps_def)

lemma keeps_ops:
  "map_of (workspaces s) (wsID w) = Some x \<Longrightarrow> byForgePrefix w = byForgePrefix x \<Longrightarrow> tenantKeeps s (snd (UpdateWorkspace w s))"
  "tenantKeeps s (snd (SetWorkspaceGrant i f g s))"
  "tenantKeeps s (snd (sessionUser hash now rq s))"
  "tenantKeeps s (MarkWorkspaceReposPrivate now ws s)"
proof -
  show "tenantKeeps s (snd (UpdateWorkspace w s))" if "map_of (workspaces s) (wsID w) = Some x" "byForgePrefix w = byForgePrefix x"
    using that by (auto simp: UpdateWorkspace_def Let_def byForgePrefix_def intro!: row_update_keeps)
  show "tenantKeeps s (snd (SetWorkspaceGrant i f g s))"
    by (auto simp: SetWorkspaceGrant_def byForgePrefix_def intro!: row_update_keeps split: option.split)
  show "tenantKeeps s (snd (sessionUser hash now rq s))"
    by (auto simp: tenantKeeps_def sessionUser_def UserBySession_def split: option.split prod.split sum.split)
  have "users (foldl (closeOwned now ws) t rs) = users t \<and> members (foldl (closeOwned now ws) t rs) = members t" for t rs
    by (induction rs arbitrary: t) (auto simp: closeOwned_def SetRepoVisibility_def split: option.split)
  then show "tenantKeeps s (MarkWorkspaceReposPrivate now ws s)" unfolding MarkWorkspaceReposPrivate_def tenantKeeps_def
    using closeAll_workspaces by simp
qed

text \<open>The invariant of the tenants, and the operations on memberships.\<close>

definition tenantsOK :: "memStore \<Rightarrow> bool" where
  "tenantsOK s \<longleftrightarrow> storeInv s \<and> vouched s"

lemma tenantsOK_keeps: "tenantsOK s \<Longrightarrow> tenantKeeps s s' \<Longrightarrow> storeInv s' \<Longrightarrow> tenantsOK s'"
  by (simp add: tenantsOK_def tenantKeeps_vouched)

lemma membershipSet_from:
  "membershipSet s m0 ms = Inr m \<Longrightarrow> map_of m w = Some role \<Longrightarrow>
     map_of m0 w = Some role \<or> (\<exists>x \<in> set ms. mbWorkspaceID x = w \<and> mbRole x = role)"
proof (induction s m0 ms rule: membershipSet.induct)
  case (2 s m0 x ms)
  then show ?case by (fastforce split: if_splits)
qed auto

lemma membershipSet_ok:
  "\<forall>x \<in> set ms. map_of (workspaces s) (mbWorkspaceID x) \<noteq> None \<and> validRole (mbRole x) \<Longrightarrow> \<exists>m. membershipSet s m0 ms = Inr m"
  by (induction s m0 ms rule: membershipSet.induct) (auto simp: validRole_def)

text \<open>A user's memberships replaced by seats the forge vouches for; the others had theirs.\<close>

lemma SetUserMemberships_sync:
  assumes inv: "storeInv s" and others: "\<And>i wid role. i \<noteq> uid \<Longrightarrow> map_of (membersOf s i) wid = Some role \<Longrightarrow> seatOK s i wid role"
    and all: "\<forall>x \<in> set ms. seatOK s uid (mbWorkspaceID x) (mbRole x) \<and> validRole (mbRole x)"
  shows "fst (SetUserMemberships uid ms s) = Inr ()" "tenantsOK (snd (SetUserMemberships uid ms s))"
    "users (snd (SetUserMemberships uid ms s)) = users s" "workspaces (snd (SetUserMemberships uid ms s)) = workspaces s"
proof -
  have "\<forall>x \<in> set ms. map_of (workspaces s) (mbWorkspaceID x) \<noteq> None \<and> validRole (mbRole x)" using all by (auto simp: seatOK_def)
  then obtain m where m: "membershipSet s [] ms = Inr m" using membershipSet_ok by blast
  then show "fst (SetUserMemberships uid ms s) = Inr ()" by (simp add: SetUserMemberships_def)
  show keep: "users (snd (SetUserMemberships uid ms s)) = users s" "workspaces (snd (SetUserMemberships uid ms s)) = workspaces s"
    by (auto simp: SetUserMemberships_def split: sum.split)
  have "seatOK s i wid role" if "map_of (membersOf (snd (SetUserMemberships uid ms s)) i) wid = Some role" for i wid role
  proof (cases "i = uid")
    case True
    then have "ms \<noteq> []" "map_of m wid = Some role"
      using that m by (auto simp: SetUserMemberships_def membersOf_def delete_conv split: if_splits)
    then show ?thesis using membershipSet_from [OF m] all True by fastforce
  next
    case False
    then have "map_of (membersOf s i) wid = Some role"
      using that m by (auto simp: SetUserMemberships_def membersOf_def delete_conv split: if_splits option.splits)
    then show ?thesis using others False by blast
  qed
  then show "tenantsOK (snd (SetUserMemberships uid ms s))"
    using SetUserMemberships_inv [OF inv] by (simp add: tenantsOK_def vouched_def seatOK_def keep)
qed

lemma RegisterWorkspace_vouched:
  assumes ok: "tenantsOK s" and u: "map_of (users s) uid = Some u" and seat: "forgeSeat u w RoleOwner"
  shows "tenantsOK (snd (RegisterWorkspace now w uid s))"
proof (cases "createWorkspaceLocked now w s")
  case (Pair r t)
  have inv: "storeInv (snd (RegisterWorkspace now w uid s))" "storeInv s"
    using ok RegisterWorkspace_inv by (simp_all add: tenantsOK_def)
  show ?thesis
  proof (cases r)
    case (Inl e)
    then have "snd (RegisterWorkspace now w uid s) = t" "t = s"
      using Pair u by (auto simp: RegisterWorkspace_def createWorkspaceLocked_def Let_def split: if_splits)
    then show ?thesis using ok by simp
  next
    case (Inr w')
    have t: "users t = users s" "members t = members s" "wsID w' = wsSeq s + 1" "byForgePrefix w' = byForgePrefix w"
      "workspaces t = AList.update (wsSeq s + 1) w' (workspaces s)"
      using Pair Inr by (auto simp: createWorkspaceLocked_def Let_def byForgePrefix_def split: if_splits)
    have fresh: "map_of (workspaces s) (wsSeq s + 1) = None"
      using inv_parts(2) [OF inv(2)] by (auto simp: workspaceInv_def intro: keyed_fresh)
    have s': "snd (RegisterWorkspace now w uid s) = t\<lparr>members := AList.update uid (AList.update (wsID w') RoleOwner (membersOf t uid)) (members t)\<rparr>"
      using Pair Inr u by (simp add: RegisterWorkspace_def)
    have old: "seatOK t i wid role" if "map_of (membersOf s i) wid = Some role" for i wid role
    proof -
      have "seatOK s i wid role" using ok that by (simp add: tenantsOK_def vouched_def)
      then show ?thesis using fresh by (auto simp: seatOK_def t)
    qed
    have new: "seatOK t uid (wsSeq s + 1) RoleOwner"
      using u seat t(4) by (auto simp: seatOK_def t forgeSeat_def byForgePrefix_def)
    have "seatOK t i wid role" if "map_of (membersOf (snd (RegisterWorkspace now w uid s)) i) wid = Some role" for i wid role
    proof (cases "i = uid \<and> wid = wsSeq s + 1")
      case True
      then show ?thesis using that new by (simp add: s' membersOf_def t(3))
    next
      case False
      then have "map_of (membersOf s i) wid = Some role"
        using that by (auto simp: s' membersOf_def t(2,3) split: if_splits)
      then show ?thesis by (rule old)
    qed
    then have "vouched (snd (RegisterWorkspace now w uid s))" by (simp add: vouched_def seatOK_def s')
    then show ?thesis using inv(1) by (simp add: tenantsOK_def)
  qed
qed

lemma DeleteWorkspace_vouched: "tenantsOK s \<Longrightarrow> tenantsOK (snd (DeleteWorkspace wid s))"
proof (cases "map_of (workspaces s) wid")
  case (Some ws)
  assume ok: "tenantsOK s"
  then have inv: "storeInv s" "storeInv (snd (DeleteWorkspace wid s))" using DeleteWorkspace_inv by (simp_all add: tenantsOK_def)
  define t where "t = foldl (\<lambda>s (rid, r). if Owns ws r then deleteRepoLocked rid s else s) s (repos s)"
  have t: "keepRest s t" using foldl_deleteRepos [OF inv(1), of "Owns ws" "repos s"] by (simp add: t_def)
  have s': "snd (DeleteWorkspace wid s) = t\<lparr>workspaces := AList.delete wid (workspaces t), members := map (\<lambda>(uid, m). (uid, AList.delete wid m)) (members t)\<rparr>"
    using Some by (simp add: DeleteWorkspace_def t_def Let_def)
  have "seatOK (snd (DeleteWorkspace wid s)) i k role" if m: "map_of (membersOf (snd (DeleteWorkspace wid s)) i) k = Some role" for i k role
  proof -
    have "k \<noteq> wid" "map_of (membersOf s i) k = Some role"
      using m t by (auto simp: s' membersOf_def keepRest_def map_of_map_rows delete_conv split: option.splits if_splits)
    then show ?thesis using ok t by (auto simp: tenantsOK_def vouched_def seatOK_def s' keepRest_def delete_conv)
  qed
  then show ?thesis using inv(2) by (simp add: tenantsOK_def vouched_def)
qed (simp add: DeleteWorkspace_def)

lemma DeleteUser_vouched: "tenantsOK s \<Longrightarrow> tenantsOK (snd (DeleteUser uid s))"
proof -
  assume ok: "tenantsOK s"
  then have inv: "storeInv (snd (DeleteUser uid s))" using DeleteUser_inv by (simp add: tenantsOK_def)
  have "seatOK (snd (DeleteUser uid s)) i k role" if m: "map_of (membersOf (snd (DeleteUser uid s)) i) k = Some role" for i k role
  proof (cases "map_of (users s) uid")
    case None
    then show ?thesis using ok m by (simp add: DeleteUser_def tenantsOK_def vouched_def)
  next
    case (Some u)
    then have "i \<noteq> uid" "map_of (membersOf s i) k = Some role"
      using m by (auto simp: DeleteUser_def membersOf_def delete_conv split: option.splits if_splits)
    then show ?thesis using ok Some by (auto simp: tenantsOK_def vouched_def seatOK_def DeleteUser_def delete_conv)
  qed
  then show ?thesis using inv by (simp add: tenantsOK_def vouched_def)
qed

section \<open>The handlers\<close>

lemma set_ListMembershipsForUser:
  assumes "storeInv s"
  shows "x \<in> set (ListMembershipsForUser uid s) \<longleftrightarrow> map_of (membersOf s uid) (mbWorkspaceID x) = Some (mbRole x)"
proof -
  have m: "memberInv s" using assms by (rule inv_parts)
  then have w: "wfMap (membersOf s uid)" by (rule membersOf_wf)
  have "(wid, role) \<in> set (membersOf s uid) \<longleftrightarrow> map_of (membersOf s uid) wid = Some role" for wid role
    using w by (simp add: wfMap_def)
  then show ?thesis using membersOf_row [OF m] by (cases x) (force simp: ListMembershipsForUser_def)
qed

lemma seat_row:
  assumes "storeInv s"
  shows "seat u ws s = map_of (membersOf s (usID u)) (wsID ws)"
proof (cases "find (\<lambda>m. mbWorkspaceID m = wsID ws) (ListMembershipsForUser (usID u) s)")
  case None
  then have "\<forall>m \<in> set (ListMembershipsForUser (usID u) s). mbWorkspaceID m \<noteq> wsID ws" by (simp add: find_None_iff)
  then have "map_of (membersOf s (usID u)) (wsID ws) \<noteq> Some role" for role
    using set_ListMembershipsForUser [OF assms, of "\<lparr>mbWorkspaceID = wsID ws, mbRole = role\<rparr>" "usID u"] by auto
  then show ?thesis using None by (simp add: seat_def) (metis not_None_eq)
next
  case (Some m)
  then have "m \<in> set (ListMembershipsForUser (usID u) s)" "mbWorkspaceID m = wsID ws"
    by (auto simp: find_Some_iff)
  then show ?thesis using Some set_ListMembershipsForUser [OF assms, of m "usID u"] by (simp add: seat_def)
qed

lemma joinWorkspace_OK:
  assumes ok: "tenantsOK s" and u: "map_of (users s) (usID u) = Some u" and w: "map_of (workspaces s) (wsID ws) = Some ws"
    and seat: "wsForge ws = usForge u" "wsPrefix ws \<in> set (usForgeWorkspaces u)"
  shows "tenantsOK (snd (joinWorkspace u ws s))" "users (snd (joinWorkspace u ws s)) = users s" "workspaces (snd (joinWorkspace u ws s)) = workspaces s"
proof -
  have inv: "storeInv s" and v: "vouched s" using ok by (simp_all add: tenantsOK_def)
  define ms where "ms = ListMembershipsForUser (usID u) s @ [\<lparr>mbWorkspaceID = wsID ws, mbRole = forgeRole u (wsPrefix ws)\<rparr>]"
  have new: "seatOK s (usID u) (wsID ws) (forgeRole u (wsPrefix ws)) \<and> validRole (forgeRole u (wsPrefix ws))"
    using u w forgeRole_seat [OF seat] by (auto simp: seatOK_def validRole_def forgeRole_def)
  have old: "seatOK s (usID u) (mbWorkspaceID x) (mbRole x) \<and> validRole (mbRole x)" if "x \<in> set (ListMembershipsForUser (usID u) s)" for x
    using that v membersOf_row [OF inv_parts(6) [OF inv]] unfolding set_ListMembershipsForUser [OF inv] vouched_def by blast
  have all: "\<forall>x \<in> set ms. seatOK s (usID u) (mbWorkspaceID x) (mbRole x) \<and> validRole (mbRole x)"
    using new old by (auto simp: ms_def)
  have others: "\<And>i wid role. i \<noteq> usID u \<Longrightarrow> map_of (membersOf s i) wid = Some role \<Longrightarrow> seatOK s i wid role"
    using v by (simp add: vouched_def)
  note sync = SetUserMemberships_sync [OF inv others all]
  have run: "joinWorkspace u ws s = (Inr (), s) \<or> joinWorkspace u ws s = SetUserMemberships (usID u) ms s"
    by (auto simp: joinWorkspace_def ms_def Let_def)
  then show "tenantsOK (snd (joinWorkspace u ws s))" using ok sync(2) by auto
  show "users (snd (joinWorkspace u ws s)) = users s" "workspaces (snd (joinWorkspace u ws s)) = workspaces s"
    using run sync(3,4) by auto
qed

lemma workspace_key: "storeInv s \<Longrightarrow> map_of (workspaces s) k = Some w \<Longrightarrow> wsID w = k"
  by (auto simp: storeInv_def workspaceInv_def dest: keyed_id)

lemma user_key: "storeInv s \<Longrightarrow> map_of (users s) k = Some u \<Longrightarrow> usID u = k"
  by (auto simp: storeInv_def userInv_def dest: keyed_id)

lemma WorkspaceByPrefix_key:
  "storeInv s \<Longrightarrow> WorkspaceByPrefix forge prefix s = Inr ws \<Longrightarrow>
     map_of (workspaces s) (wsID ws) = Some ws \<and> wsForge ws = forge \<and> wsPrefix ws = prefix"
  using WorkspaceByPrefix_row(1) workspace_key by blast

lemma claimOrJoin_OK:
  assumes ok: "tenantsOK s" and u: "map_of (users s) (usID u) = Some u"
  shows "tenantsOK (snd (claimOrJoin now token u prefix s))"
proof (cases "prefix = [] \<or> prefix \<notin> set (usForgeWorkspaces u)")
  case False
  then have listed: "prefix \<in> set (usForgeWorkspaces u)" by simp
  have inv: "storeInv s" using ok by (simp add: tenantsOK_def)
  have join: "tenantsOK (snd (joinWorkspace u ws s'))"
    if "tenantsOK s'" "users s' = users s" "WorkspaceByPrefix (usForge u) prefix s' = Inr ws" for ws s'
  proof -
    have "map_of (workspaces s') (wsID ws) = Some ws \<and> wsForge ws = usForge u \<and> wsPrefix ws = prefix"
      using that by (intro WorkspaceByPrefix_key) (simp_all add: tenantsOK_def)
    then show ?thesis using that u listed by (intro joinWorkspace_OK(1)) auto
  qed
  show ?thesis
  proof (cases "WorkspaceByPrefix (usForge u) prefix s")
    case (Inr ws)
    then have "snd (claimOrJoin now token u prefix s) = snd (joinWorkspace u ws s)"
      using False by (auto simp: claimOrJoin_def claimWorkspace_def split: prod.split sum.split)
    then show ?thesis using join [OF ok refl Inr] by simp
  next
    case (Inl e)
    show ?thesis
    proof (cases "e = ErrNotFound \<and> forgeRole u prefix = RoleOwner")
      case no: False
      then show ?thesis using ok False Inl by (auto simp: claimOrJoin_def claimWorkspace_def)
    next
      case yes: True
      define reg where "reg = RegisterWorkspace now (newWorkspace (usForge u) prefix token) (usID u) s"
      have role: "prefix \<in> set (usForgeOwnedWorkspaces u)" using yes by (simp add: forgeRole_def split: if_splits)
      have reg_ok: "tenantsOK (snd reg)" unfolding reg_def
        by (rule RegisterWorkspace_vouched [OF ok u]) (simp add: forgeSeat_def newWorkspace_def listed role)
      have reg_users: "users (snd reg) = users s"
        by (auto simp: reg_def RegisterWorkspace_def createWorkspaceLocked_def Let_def split: sum.split)
      have "snd (claimOrJoin now token u prefix s) = snd reg
          \<or> (\<exists>ws. WorkspaceByPrefix (usForge u) prefix (snd reg) = Inr ws \<and> snd (claimOrJoin now token u prefix s) = snd (joinWorkspace u ws (snd reg)))"
        using False Inl yes by (cases reg) (auto simp: claimOrJoin_def claimWorkspace_def reg_def [symmetric] split: sum.split prod.split)
      then show ?thesis using reg_ok join [OF reg_ok reg_users] by auto
    qed
  qed
qed (use ok in \<open>simp add: claimOrJoin_def\<close>)

lemma UpdateWorkspace_OK:
  assumes "tenantsOK s" and "map_of (workspaces s) (wsID w) = Some x" and "byForgePrefix w = byForgePrefix x" and "workspaceFree s w"
  shows "tenantsOK (snd (UpdateWorkspace w s))"
  using assms keeps_ops(1) UpdateWorkspace_inv by (meson tenantsOK_def tenantsOK_keeps)

text \<open>Columns other than the name and the token written over the row as it was read.\<close>

lemma columns_OK:
  assumes "tenantsOK s" and "map_of (workspaces s) (wsID x) = Some x"
    and "wsID w = wsID x" and "byForgePrefix w = byForgePrefix x" and "wsToken w = wsToken x"
  shows "tenantsOK (snd (UpdateWorkspace w s))"
  using assms by (intro UpdateWorkspace_OK [where x = x] workspaceFree_same [where x = x]) (simp_all add: tenantsOK_def)

lemma connectExisting_store:
  fixes u ws s
  defines "t \<equiv> (if seat u ws s = None then snd (joinWorkspace u ws s) else s)"
  shows "snd (connectExisting u ws login i s) = s \<and> seat u ws s = None \<and> \<not> inForgeWorkspaces u login
    \<or> (seat u ws s = None \<longrightarrow> inForgeWorkspaces u login)
       \<and> (snd (connectExisting u ws login i s) = t
          \<or> snd (connectExisting u ws login i s) = snd (UpdateWorkspace (ws\<lparr>wsGitHubInstallationID := i, wsGitHubAppBroken := False\<rparr>) t))"
  by (auto simp: connectExisting_def t_def Let_def split: prod.splits sum.splits)

lemma connectExisting_OK:
  assumes ok: "tenantsOK s" and u: "map_of (users s) (usID u) = Some u"
    and w: "map_of (workspaces s) (wsID ws) = Some ws" "wsForge ws = ''github''" "wsPrefix ws = login"
  shows "tenantsOK (snd (connectExisting u ws login i s))"
proof (cases "seat u ws s = None \<and> \<not> inForgeWorkspaces u login")
  case False
  define t where "t = (if seat u ws s = None then snd (joinWorkspace u ws s) else s)"
  have t: "tenantsOK t" "workspaces t = workspaces s"
  proof -
    have "wsForge ws = usForge u" "wsPrefix ws \<in> set (usForgeWorkspaces u)" if "seat u ws s = None"
      using False that w by (auto simp: inForgeWorkspaces_def)
    then show "tenantsOK t" "workspaces t = workspaces s" using joinWorkspace_OK [OF ok u w(1)] ok by (auto simp: t_def)
  qed
  have up: "tenantsOK (snd (UpdateWorkspace (ws\<lparr>wsGitHubInstallationID := i, wsGitHubAppBroken := False\<rparr>) t))"
    by (rule columns_OK [OF t(1), where x = ws]) (simp_all add: t(2) w(1) byForgePrefix_def)
  have "snd (connectExisting u ws login i s) = t
      \<or> snd (connectExisting u ws login i s) = snd (UpdateWorkspace (ws\<lparr>wsGitHubInstallationID := i, wsGitHubAppBroken := False\<rparr>) t)"
    using False connectExisting_store [of u ws login i s] by (auto simp: t_def)
  then show ?thesis using t(1) up by auto
qed (use ok in \<open>simp add: connectExisting_def\<close>)

lemma connectNew_OK:
  assumes ok: "tenantsOK s" and u: "map_of (users s) (usID u) = Some u"
  shows "tenantsOK (snd (connectNew now token u login i s))"
proof (cases "inForgeWorkspaces u login \<and> forgeRole u login = RoleOwner")
  case True
  define reg where "reg = RegisterWorkspace now ((newWorkspace ''github'' login token)\<lparr>wsGitHubInstallationID := i\<rparr>) (usID u) s"
  have reg_ok: "tenantsOK (snd reg)" unfolding reg_def
    using True by (intro RegisterWorkspace_vouched [OF ok u])
      (auto simp: forgeSeat_def newWorkspace_def inForgeWorkspaces_def forgeRole_def split: if_splits)
  have reg_users: "users (snd reg) = users s"
    by (auto simp: reg_def RegisterWorkspace_def createWorkspaceLocked_def Let_def split: sum.split)
  have "snd (connectNew now token u login i s) = snd reg
      \<or> (\<exists>ws. WorkspaceByPrefix ''github'' login (snd reg) = Inr ws \<and> snd (connectNew now token u login i s) = snd (connectExisting u ws login i (snd reg)))"
    using True by (cases reg) (auto simp: connectNew_def reg_def [symmetric] split: sum.split)
  moreover have "tenantsOK (snd (connectExisting u ws login i (snd reg)))" if "WorkspaceByPrefix ''github'' login (snd reg) = Inr ws" for ws
    using reg_ok WorkspaceByPrefix_key [OF _ that] u reg_users by (intro connectExisting_OK) (auto simp: tenantsOK_def)
  ultimately show ?thesis using reg_ok by auto
qed (use ok in \<open>auto simp: connectNew_def\<close>)

lemma linkInstallation_OK:
  assumes ok: "tenantsOK s" and u: "map_of (users s) (usID u) = Some u"
  shows "tenantsOK (snd (linkInstallation now token account u i s))"
proof (cases "account i")
  case (Some login)
  show ?thesis
  proof (cases "WorkspaceByPrefix ''github'' login s")
    case (Inr ws)
    then show ?thesis using ok WorkspaceByPrefix_key [OF _ Inr] connectExisting_OK [OF ok u] Some
      by (auto simp: linkInstallation_def tenantsOK_def)
  qed (use ok u Some connectNew_OK in \<open>auto simp: linkInstallation_def\<close>)
qed (use ok in \<open>simp add: linkInstallation_def\<close>)

lemma memberWorkspace_row:
  assumes "storeInv s" and "memberWorkspace cfg rq user forge prefix s = Inr (ws, role)"
  shows "authEnabled cfg \<and> (\<exists>u. user = Some u \<and> map_of (membersOf s (usID u)) (wsID ws) = Some role)
    \<and> map_of (workspaces s) (wsID ws) = Some ws \<and> wsForge ws = forge \<and> wsPrefix ws = prefix"
  using assms WorkspaceByPrefix_key [OF assms(1)]
  by (auto simp: memberWorkspace_def signedIn_def seat_row split: sum.splits option.splits if_splits)

lemma ownerWorkspace_row:
  assumes "storeInv s" and "ownerWorkspace cfg rq user forge prefix s = Inr ws"
  shows "authEnabled cfg \<and> (\<exists>u. user = Some u \<and> map_of (membersOf s (usID u)) (wsID ws) = Some RoleOwner)
    \<and> map_of (workspaces s) (wsID ws) = Some ws \<and> wsForge ws = forge \<and> wsPrefix ws = prefix"
  using assms memberWorkspace_row [OF assms(1)]
  by (auto simp: ownerWorkspace_def split: sum.splits if_splits)

lemma savedSettings_columns:
  "savedSettings inp ws = Inr w \<Longrightarrow> wsID w = wsID ws \<and> byForgePrefix w = byForgePrefix ws \<and> wsToken w = wsToken ws"
  by (auto simp: savedSettings_def Let_def byForgePrefix_def split: if_splits prod.splits)

lemma settings_OK:
  assumes ok: "tenantsOK s"
  shows "tenantsOK (snd (handleAPIWorkspaceSettings cfg fc app rq user forge prefix body s))"
proof (cases "ownerWorkspace cfg rq user forge prefix s")
  case (Inr ws)
  have row: "map_of (workspaces s) (wsID ws) = Some ws" using ok ownerWorkspace_row [OF _ Inr] by (simp add: tenantsOK_def)
  have "tenantsOK (snd (UpdateWorkspace w s))" if "savedSettings inp ws = Inr w" for inp w
    using savedSettings_columns [OF that] by (intro columns_OK [OF ok row]) auto
  moreover have "snd (handleAPIWorkspaceSettings cfg fc app rq user forge prefix body s) = s
      \<or> (\<exists>inp w. savedSettings inp ws = Inr w \<and> snd (handleAPIWorkspaceSettings cfg fc app rq user forge prefix body s) = snd (UpdateWorkspace w s))"
    using Inr by (cases body) (force simp: handleAPIWorkspaceSettings_def split: sum.splits prod.splits)+
  ultimately show ?thesis using ok by auto
qed (use ok in \<open>simp add: handleAPIWorkspaceSettings_def\<close>)

lemma rotate_OK:
  assumes ok: "tenantsOK s" and fresh: "findVal (workspaces s) (\<lambda>x. wsToken x = token) = None"
  shows "tenantsOK (snd (handleAPIWorkspaceRotate cfg rq user forge prefix token s))"
proof (cases "ownerWorkspace cfg rq user forge prefix s")
  case (Inr ws)
  have inv: "storeInv s" using ok by (simp add: tenantsOK_def)
  have row: "map_of (workspaces s) (wsID ws) = Some ws" using ownerWorkspace_row [OF inv Inr] by simp
  have w: "workspaceInv s" using inv by (rule inv_parts)
  then have "wfMap (workspaces s)" by (auto simp: workspaceInv_def)
  then have "\<forall>k v. map_of (workspaces s) k = Some v \<longrightarrow> wsToken v \<noteq> token" using fresh by (simp add: findVal_None)
  then have tok: "\<forall>k v. map_of (workspaces s) k = Some v \<and> k \<noteq> wsID ws \<longrightarrow> wsToken v \<noteq> token" by blast
  have "uniqueBy byForgePrefix (workspaces s)" using w by (simp add: workspaceInv_def)
  then have "\<forall>k v. map_of (workspaces s) k = Some v \<and> k \<noteq> wsID ws \<longrightarrow> byForgePrefix v \<noteq> byForgePrefix ws"
    using row unfolding uniqueBy_def by metis
  then have "workspaceFree s (ws\<lparr>wsToken := token\<rparr>)" using tok by (simp add: workspaceFree_def byForgePrefix_def)
  then have "tenantsOK (snd (UpdateWorkspace (ws\<lparr>wsToken := token\<rparr>) s))"
    by (intro UpdateWorkspace_OK [OF ok, where x = ws]) (simp_all add: row byForgePrefix_def)
  then show ?thesis using Inr by (auto simp: handleAPIWorkspaceRotate_def split: sum.split prod.split)
qed (use ok in \<open>simp add: handleAPIWorkspaceRotate_def\<close>)

lemma closed_OK: "tenantsOK s \<Longrightarrow> tenantsOK (MarkWorkspaceReposPrivate now ws s)"
  using keeps_ops(4) MarkWorkspaceReposPrivate_inv by (meson tenantsOK_def tenantsOK_keeps)

lemma grant_OK: "tenantsOK s \<Longrightarrow> tenantsOK (snd (SetWorkspaceGrant i f g s))"
  using keeps_ops(2) SetWorkspaceGrant_inv by (meson tenantsOK_def tenantsOK_keeps)

lemma session_OK: "tenantsOK s \<Longrightarrow> tenantsOK (snd (sessionUser hash now rq s))"
  using keeps_ops(3) sessionUser_inv by (meson tenantsOK_def tenantsOK_keeps)

lemma disconnect_OK:
  assumes ok: "tenantsOK s"
  shows "tenantsOK (snd (snd (handleAPIWorkspaceDisconnect cfg app now rq user forge prefix (fs, s))))"
proof (cases "ownerWorkspace cfg rq user forge prefix s")
  case (Inr ws)
  have row: "map_of (workspaces s) (wsID ws) = Some ws" using ok ownerWorkspace_row [OF _ Inr] by (simp add: tenantsOK_def)
  let ?w = "ws\<lparr>wsGitHubInstallationID := 0, wsGitHubAppBroken := False\<rparr>"
  let ?g = "\<lparr>grAccount = [], grRefreshToken = [], grBroken = False\<rparr>"
  have up: "tenantsOK (snd (UpdateWorkspace ?w s))" by (rule columns_OK [OF ok row]) (simp_all add: byForgePrefix_def)
  have gr: "tenantsOK (snd (SetWorkspaceGrant (wsID ws) (wsForge ws) ?g s))" using ok by (rule grant_OK)
  have "snd (snd (disconnectWorkspace now rq ws (fs, s))) \<in>
      {s, snd (UpdateWorkspace ?w s), MarkWorkspaceReposPrivate now ws (snd (UpdateWorkspace ?w s)),
       snd (SetWorkspaceGrant (wsID ws) (wsForge ws) ?g s), MarkWorkspaceReposPrivate now ws (snd (SetWorkspaceGrant (wsID ws) (wsForge ws) ?g s))}"
    by (auto simp: disconnectWorkspace_def githubDisconnect_def Let_def split: sum.splits prod.splits)
  then have "tenantsOK (snd (snd (disconnectWorkspace now rq ws (fs, s))))" using ok up gr closed_OK by auto
  then show ?thesis using Inr by (auto simp: handleAPIWorkspaceDisconnect_def Let_def split: option.split prod.split)
qed (use ok in \<open>simp add: handleAPIWorkspaceDisconnect_def\<close>)

lemma delete_OK: "tenantsOK s \<Longrightarrow> tenantsOK (snd (handleAPIWorkspaceDelete cfg rq user forge prefix s))"
  using DeleteWorkspace_vouched
  by (auto simp: handleAPIWorkspaceDelete_def split: sum.split prod.split) (metis snd_conv)+

lemma UpsertUser_row:
  assumes inv: "storeInv s"
  obtains u s' where "UpsertUser now x s = (Inr u, s')" "storeInv s'" "users s' = AList.update (usID u) u (users s)"
    "workspaces s' = workspaces s" "members s' = members s" "accountOf u = accountOf x"
    "usForgeWorkspaces u = usForgeWorkspaces x" "usForgeOwnedWorkspaces u = usForgeOwnedWorkspaces x"
    "\<And>old. map_of (users s) (usID u) = Some old \<Longrightarrow> accountOf old = accountOf x"
    "\<And>k v. map_of (users s) k = Some v \<Longrightarrow> accountOf v = accountOf x \<Longrightarrow> k = usID u"
proof -
  have k: "keyed usID (userSeq s) (users s)" and q: "uniqueBy accountOf (users s)"
    using inv by (auto simp: storeInv_def userInv_def)
  have inv': "storeInv (snd (UpsertUser now x s))" using inv by (rule UpsertUser_inv)
  show thesis
  proof (cases "findVal (users s) (\<lambda>y. usForge y = usForge x \<and> usForgeUUID y = usForgeUUID x)")
    case None
    then have "\<And>j v. map_of (users s) j = Some v \<Longrightarrow> accountOf v \<noteq> accountOf x"
      using findVal_None [OF keyed_wf [OF k]] by (fastforce simp: accountOf_def)
    then have other: "\<And>j v. map_of (users s) j = Some v \<Longrightarrow> accountOf v = accountOf x \<Longrightarrow> P j" for P by blast
    define u where "u = x\<lparr>usID := userSeq s + 1, usCreatedAt := now, usLastLoginAt := now\<rparr>"
    define s' where "s' = s\<lparr>userSeq := userSeq s + 1, users := AList.update (userSeq s + 1) u (users s)\<rparr>"
    have up: "UpsertUser now x s = (Inr u, s')" using None by (simp add: UpsertUser_def u_def s'_def Let_def)
    have fresh: "map_of (users s) (usID u) = None" using keyed_fresh [OF k] by (simp add: u_def)
    show thesis
      by (rule that [OF up]) (use inv' up fresh other in \<open>simp_all add: s'_def u_def accountOf_def\<close>)
  next
    case (Some e)
    then obtain i where i: "map_of (users s) i = Some e" "usForge e = usForge x" "usForgeUUID e = usForgeUUID x"
      using findVal_Some [OF keyed_wf [OF k]] by blast
    then have id: "usID e = i" using k by (auto dest: keyed_id)
    have "\<And>j v. map_of (users s) j = Some v \<Longrightarrow> accountOf v = accountOf x \<Longrightarrow> j = i"
      using q i unfolding uniqueBy_def by (metis accountOf_def)
    then have same: "\<And>j v. map_of (users s) j = Some v \<Longrightarrow> accountOf v = accountOf x \<Longrightarrow> j = i" .
    define u where "u = e\<lparr>usEmail := usEmail x, usDisplayName := usDisplayName x, usForgeWorkspaces := usForgeWorkspaces x,
        usForgeOwnedWorkspaces := usForgeOwnedWorkspaces x, usLastLoginAt := now\<rparr>"
    define s' where "s' = s\<lparr>users := AList.update (usID e) u (users s)\<rparr>"
    have up: "UpsertUser now x s = (Inr u, s')" using Some by (simp add: UpsertUser_def u_def s'_def Let_def)
    have old: "map_of (users s) (usID u) = Some e" using i(1) id by (simp add: u_def)
    have inv2: "storeInv s'" using inv' up by simp
    have keep: "users s' = AList.update (usID u) u (users s)" "workspaces s' = workspaces s" "members s' = members s" "accountOf u = accountOf x"
      "usForgeWorkspaces u = usForgeWorkspaces x" "usForgeOwnedWorkspaces u = usForgeOwnedWorkspaces x" "usID u = i"
      by (simp_all add: s'_def u_def accountOf_def i(2,3) id)
    have acc: "accountOf e = accountOf x" by (simp add: accountOf_def i(2,3))
    show thesis
    proof (rule that [OF up inv2 keep(1-6)])
      show "accountOf v = accountOf x" if "map_of (users s) (usID u) = Some v" for v using that old acc by simp
      show "j = usID u" if "map_of (users s) j = Some v" "accountOf v = accountOf x" for j v using same [OF that] keep(7) by simp
    qed
  qed
qed

text \<open>Signing in leaves an account with what the forge just said, and its seats follow.\<close>

lemma provisionUser_OK:
  assumes ok: "tenantsOK s"
  obtains u n s' where "provisionUser now forge ident s = (Some (u, n), s')" "tenantsOK s'" "users s' = AList.update (usID u) u (users s)"
    "accountOf u = (forge, idForgeUUID ident)" "usForgeWorkspaces u = idWorkspaces ident" "usForgeOwnedWorkspaces u = idOwnedWorkspaces ident"
    "\<And>k v. map_of (users s) k = Some v \<Longrightarrow> accountOf v = (forge, idForgeUUID ident) \<Longrightarrow> k = usID u"
proof -
  have inv: "storeInv s" and v: "vouched s" using ok by (simp_all add: tenantsOK_def)
  have acc: "accountOf (identityUser forge ident) = (forge, idForgeUUID ident)" by (simp add: accountOf_def identityUser_def)
  have ident_fields: "usForgeWorkspaces (identityUser forge ident) = idWorkspaces ident" "usForgeOwnedWorkspaces (identityUser forge ident) = idOwnedWorkspaces ident"
    by (simp_all add: identityUser_def)
  obtain u s1 where up: "UpsertUser now (identityUser forge ident) s = (Inr u, s1)" and inv1: "storeInv s1"
    and s1: "users s1 = AList.update (usID u) u (users s)" "workspaces s1 = workspaces s" "members s1 = members s"
    and u: "accountOf u = (forge, idForgeUUID ident)" "usForgeWorkspaces u = idWorkspaces ident" "usForgeOwnedWorkspaces u = idOwnedWorkspaces ident"
    and uniq: "\<And>k v. map_of (users s) k = Some v \<Longrightarrow> accountOf v = (forge, idForgeUUID ident) \<Longrightarrow> k = usID u"
    by (rule UpsertUser_row [OF inv, of now "identityUser forge ident", unfolded acc ident_fields]) (rule that, assumption+)
  define ms where "ms = map (\<lambda>ws. \<lparr>mbWorkspaceID = wsID ws, mbRole = forgeRole u (wsPrefix ws)\<rparr>)
     (filter (\<lambda>ws. wsForge ws = usForge u \<and> wsPrefix ws \<in> set (usForgeWorkspaces u)) (ListWorkspaces s1))"
  have rows: "ws \<in> set (ListWorkspaces s1) \<Longrightarrow> map_of (workspaces s1) (wsID ws) = Some ws" for ws
    using set_valuesOf [of "workspaces s1" ws] workspace_key [OF inv1] inv_parts(2) [OF inv1]
    by (auto simp: ListWorkspaces_def workspaceInv_def)
  have row_u: "map_of (users s1) (usID u) = Some u" by (simp add: s1)
  have all: "\<forall>x \<in> set ms. seatOK s1 (usID u) (mbWorkspaceID x) (mbRole x) \<and> validRole (mbRole x)"
    using rows row_u forgeRole_seat by (auto simp: ms_def seatOK_def validRole_def forgeRole_def)
  have others: "seatOK s1 i wid role" if "i \<noteq> usID u" "map_of (membersOf s1 i) wid = Some role" for i wid role
  proof -
    have "seatOK s i wid role" using v that by (simp add: vouched_def membersOf_def s1)
    then show ?thesis using that(1) by (auto simp: seatOK_def s1)
  qed
  note sync = SetUserMemberships_sync [OF inv1 others all]
  have "syncMemberships u s1 = (int (length ms), SetUserMemberships (usID u) ms s1)"
    by (simp add: syncMemberships_def ms_def Let_def)
  then have run: "provisionUser now forge ident s = (Some (u, int (length ms)), snd (SetUserMemberships (usID u) ms s1))"
    using sync(1) by (cases "SetUserMemberships (usID u) ms s1") (simp add: provisionUser_def up)
  show thesis by (rule that [OF run sync(2) _ u uniq]) (simp_all add: sync(3) s1(1))
qed

lemma startSession_OK:
  assumes ok: "tenantsOK s" and u: "map_of (users s) (usID u) = Some u"
  obtains s' where "startSession hash now token u s = (True, s')" "tenantsOK s'" "users s' = users s"
proof -
  define sess where "sess = \<lparr>seTokenHash = hash token, seUserID = usID u, seCreatedAt = 0, seExpiresAt = now + sessionTTL\<rparr>"
  have keep: "tenantKeeps s (snd (CreateSession now sess s))" by (auto simp: CreateSession_def tenantKeeps_def Let_def)
  have "memStep s (snd (CreateSession now sess s))" by (rule step_CreateSession)
  then have "tenantsOK (snd (CreateSession now sess s))" using ok keep tenantsOK_keeps memStep_inv by (auto simp: tenantsOK_def)
  moreover have "startSession hash now token u s = (True, snd (CreateSession now sess s))"
    using u by (simp add: startSession_def sess_def CreateSession_def Let_def)
  moreover have "users (snd (CreateSession now sess s)) = users s" using keep by (simp add: tenantKeeps_def)
  ultimately show thesis using that by blast
qed

lemma connectCallback_OK:
  assumes ok: "tenantsOK s" and run: "connectCallback hash now exchange rq forge form cookie (fs, s) = (r, fs', s')"
  shows "tenantsOK s'" "users s' = users s" "r = None \<Longrightarrow> s' = s"
proof -
  let ?s = "snd (sessionUser hash now rq s)"
  have k: "tenantsOK ?s" "users ?s = users s" using session_OK [OF ok] keeps_ops(3) by (auto simp: tenantKeeps_def)
  have "s' = s \<or> s' = ?s \<or> (\<exists>i g. s' = snd (SetWorkspaceGrant i forge g ?s))"
    using run by (auto simp: connectCallback_def Let_def split: if_splits option.splits prod.splits sum.splits) (metis snd_conv)+
  moreover have "users (snd (SetWorkspaceGrant i forge g ?s)) = users s" for i g
    using keeps_ops(2) [of ?s i forge g] k(2) by (simp add: tenantKeeps_def)
  ultimately show "tenantsOK s'" "users s' = users s" using ok k grant_OK by auto
  show "r = None \<Longrightarrow> s' = s"
    using run by (auto simp: connectCallback_def Let_def split: if_splits option.splits prod.splits sum.splits)
qed

section \<open>Requests over time\<close>

text \<open>The server's state with, for every account, what its forge said at the last sign-in (read by nobody).\<close>

record tenantWorld =
  twForges :: forgesState
  twStore :: memStore
  twSaid :: "(string \<times> string) \<Rightarrow> Identity option"

definition recordIdentity :: "string \<Rightarrow> Identity option \<Rightarrow> ((string \<times> string) \<Rightarrow> Identity option) \<Rightarrow> (string \<times> string) \<Rightarrow> Identity option" where
  "recordIdentity forge ident said = (case ident of None \<Rightarrow> said | Some i \<Rightarrow> said((forge, idForgeUUID i) \<mapsto> i))"

inductive tenantStep :: "serverConfig \<Rightarrow> (string \<Rightarrow> string) \<Rightarrow> tenantWorld \<Rightarrow> tenantWorld \<Rightarrow> bool" for cfg hash where
  tn_callback: "handleOAuthCallback cfg hash authority now token identity exchange rq forge form sc cc (twForges w, twStore w) = (r, cookie, fs, s)
    \<Longrightarrow> tenantStep cfg hash w (w\<lparr>twForges := fs, twStore := s,
         twSaid := (if cookie = None then twSaid w else recordIdentity forge (identity (ofCode form)) (twSaid w))\<rparr>)"
| tn_register: "sessionUser hash now rq (twStore w) = (user, s)
    \<Longrightarrow> tenantStep cfg hash w (w\<lparr>twStore := snd (handleAPIRegister now token rq user body s)\<rparr>)"
| tn_setup: "sessionUser hash now rq (twStore w) = (user, s)
    \<Longrightarrow> tenantStep cfg hash w (w\<lparr>twStore := snd (handleGitHubSetup cfg fc now token account rq user form cookie s)\<rparr>)"
| tn_app: "sessionUser hash now rq (twStore w) = (user, s)
    \<Longrightarrow> tenantStep cfg hash w (w\<lparr>twStore := snd (handleAPIGitHubConnect cfg fc now token account user inst s)\<rparr>)"
| tn_save: "sessionUser hash now rq (twStore w) = (user, s)
    \<Longrightarrow> tenantStep cfg hash w (w\<lparr>twStore := snd (handleAPIWorkspaceSettings cfg fc app rq user forge prefix inp s)\<rparr>)"
| tn_rotate: "sessionUser hash now rq (twStore w) = (user, s) \<Longrightarrow> findVal (workspaces s) (\<lambda>x. wsToken x = token) = None
    \<Longrightarrow> tenantStep cfg hash w (w\<lparr>twStore := snd (handleAPIWorkspaceRotate cfg rq user forge prefix token s)\<rparr>)"
| tn_disconnect: "sessionUser hash now rq (twStore w) = (user, s)
    \<Longrightarrow> handleAPIWorkspaceDisconnect cfg app now rq user forge prefix (twForges w, s) = (r, fs, s')
    \<Longrightarrow> tenantStep cfg hash w (w\<lparr>twForges := fs, twStore := s'\<rparr>)"
| tn_delete: "sessionUser hash now rq (twStore w) = (user, s)
    \<Longrightarrow> tenantStep cfg hash w (w\<lparr>twStore := snd (handleAPIWorkspaceDelete cfg rq user forge prefix s)\<rparr>)"
| tn_delete_user: "tenantStep cfg hash w (w\<lparr>twStore := snd (DeleteUser i (twStore w))\<rparr>)"
| tn_other: "memStep (twStore w) s \<Longrightarrow> tenantKeeps (twStore w) s \<Longrightarrow> tenantStep cfg hash w (w\<lparr>twStore := s\<rparr>)"

definition accountSaid :: "tenantWorld \<Rightarrow> User \<Rightarrow> bool" where
  "accountSaid w u \<longleftrightarrow> (\<exists>i. twSaid w (accountOf u) = Some i
     \<and> usForgeWorkspaces u = idWorkspaces i \<and> usForgeOwnedWorkspaces u = idOwnedWorkspaces i)"

definition tenantInv :: "tenantWorld \<Rightarrow> bool" where
  "tenantInv w \<longleftrightarrow> tenantsOK (twStore w) \<and> (\<forall>k u. map_of (users (twStore w)) k = Some u \<longrightarrow> accountSaid w u)"

lemma tenantInv_store:
  "tenantInv w \<Longrightarrow> tenantsOK s \<Longrightarrow> users s = users (twStore w) \<Longrightarrow> tenantInv (w\<lparr>twStore := s\<rparr>)"
  "tenantInv w \<Longrightarrow> tenantsOK s \<Longrightarrow> users s = users (twStore w) \<Longrightarrow> tenantInv (w\<lparr>twForges := fs, twStore := s\<rparr>)"
  by (simp_all add: tenantInv_def accountSaid_def)

lemma callback_cases:
  assumes ok: "tenantsOK s"
    and run: "handleOAuthCallback cfg hash authority now token identity exchange rq forge form sc cc (fs, s) = (r, cookie, fs', s')"
  obtains (refused) "cookie = None" "tenantsOK s'" "users s' = users s"
  | (accepted) ident u where "cookie = Some token" "identity (ofCode form) = Some ident" "tenantsOK s'" "users s' = AList.update (usID u) u (users s)"
      "accountOf u = (forge, idForgeUUID ident)" "usForgeWorkspaces u = idWorkspaces ident" "usForgeOwnedWorkspaces u = idOwnedWorkspaces ident"
      "\<And>k v. map_of (users s) k = Some v \<Longrightarrow> accountOf v = (forge, idForgeUUID ident) \<Longrightarrow> k = usID u"
proof (cases "oauthProvider cfg forge")
  case (Some a)
  then show thesis using that(1) ok run by (simp add: handleOAuthCallback_def)
next
  case None
  define con where "con = (if connectGrantFor forge = None then (None, fs, s) else connectCallback hash now exchange rq forge form cc (fs, s))"
  obtain c fs1 s1 where con1: "con = (c, fs1, s1)" by (cases con) auto
  show thesis
  proof (cases c)
    case (Some a)
    then have "connectCallback hash now exchange rq forge form cc (fs, s) = (c, fs1, s1)" using con1 by (auto simp: con_def split: if_splits)
    note cb = connectCallback_OK [OF ok this]
    have "cookie = None" "s' = s1" using run Some con1 None by (simp_all add: handleOAuthCallback_def con_def [symmetric])
    then show thesis using that(1) cb by simp
  next
    case c: None
    have s1: "s1 = s"
      using con1 c connectCallback_OK(3) [OF ok] unfolding con_def by (metis prod.inject)
    have rest: "(case verifyCallback authority sc form of
                  None \<Rightarrow> (Inr signInFailed, None, fs1, s)
                | Some (code, next) \<Rightarrow>
                    (case identity code of
                       None \<Rightarrow> (Inr signInFailed, None, fs1, s)
                     | Some ident \<Rightarrow>
                         if \<not> admitSignIn cfg forge ident s then (Inr ''/login?denied=1'', None, fs1, s)
                         else (case provisionUser now forge ident s of
                             (None, s) \<Rightarrow> (Inl InternalError, None, fs1, s)
                           | (Some (u, memberships), s) \<Rightarrow>
                               let next = (if svHosted cfg \<and> memberships = 0 \<and> (next = [] \<or> next = ''/'') then ''/onboarding'' else next)
                               in (case startSession hash now token u s of
                                   (False, s) \<Rightarrow> (Inl InternalError, None, fs1, s)
                                 | (True, s) \<Rightarrow> (Inr next, Some token, fs1, s))))) = (r, cookie, fs', s')"
      using run None con1 c s1 by (simp add: handleOAuthCallback_def con_def [symmetric])
    show thesis
    proof (cases "\<exists>next ident. verifyCallback authority sc form = Some (ofCode form, next) \<and> identity (ofCode form) = Some ident \<and> admitSignIn cfg forge ident s")
      case False
      have code: "verifyCallback authority sc form = Some (code, next) \<Longrightarrow> code = ofCode form" for code "next"
        by (auto simp: verifyCallback_def split: prod.splits if_splits)
      have "cookie = None" "s' = s" using rest False code by (auto split: option.splits if_splits)
      then show thesis using that(1) ok by simp
    next
      case True
      then obtain dest ident where v: "verifyCallback authority sc form = Some (ofCode form, dest)"
        and i: "identity (ofCode form) = Some ident" "admitSignIn cfg forge ident s" by blast
      obtain u n s2 where p: "provisionUser now forge ident s = (Some (u, n), s2)" "tenantsOK s2" "users s2 = AList.update (usID u) u (users s)"
        and u: "accountOf u = (forge, idForgeUUID ident)" "usForgeWorkspaces u = idWorkspaces ident" "usForgeOwnedWorkspaces u = idOwnedWorkspaces ident"
        and uniq: "\<And>k v. map_of (users s) k = Some v \<Longrightarrow> accountOf v = (forge, idForgeUUID ident) \<Longrightarrow> k = usID u"
        by (rule provisionUser_OK [OF ok, of now forge ident]) (rule that, assumption+)
      have "map_of (users s2) (usID u) = Some u" by (simp add: p(3))
      then obtain s3 where st: "startSession hash now token u s2 = (True, s3)" "tenantsOK s3" "users s3 = users s2"
        by (rule startSession_OK [OF p(2)])
      have "cookie = Some token" "s' = s3" using rest by (simp_all add: v i p(1) st(1) Let_def)
      then show thesis using that(2) [OF _ i(1) _ _ u uniq] st p(3) by simp
    qed
  qed
qed

lemma request_inv:
  assumes inv: "tenantInv w" and who: "sessionUser hash now rq (twStore w) = (user, s)"
  shows "tenantsOK s" "users s = users (twStore w)" "\<And>u. user = Some u \<Longrightarrow> map_of (users s) (usID u) = Some u"
proof -
  have ok: "tenantsOK (twStore w)" using inv by (simp add: tenantInv_def)
  have s: "s = snd (sessionUser hash now rq (twStore w))" using who by simp
  show "tenantsOK s" using session_OK [OF ok] s by simp
  show us: "users s = users (twStore w)" using keeps_ops(3) s by (simp add: tenantKeeps_def)
  show "map_of (users s) (usID u) = Some u" if "user = Some u" for u
  proof -
    have "signedInAs hash now rq (twStore w) u" using that who sessionUser_spec(1) [of hash now rq "twStore w" u] by simp
    then show ?thesis using user_key ok us by (auto simp: signedInAs_def tenantsOK_def)
  qed
qed

text \<open>Only a sign-in and a deletion write accounts.\<close>

lemma users_ops:
  "users (snd (SetUserMemberships i ms s)) = users s" "users (snd (UpdateWorkspace ws s)) = users s"
  "users (snd (RegisterWorkspace now ws i s)) = users s" "users (snd (SetWorkspaceGrant i f g s)) = users s"
  "users (MarkWorkspaceReposPrivate now ws s) = users s" "users (snd (joinWorkspace u ws s)) = users s"
proof -
  show su: "users (snd (SetUserMemberships i ms s)) = users s" for i ms s
    by (auto simp: SetUserMemberships_def split: sum.split)
  show "users (snd (UpdateWorkspace ws s)) = users s" by (auto simp: UpdateWorkspace_def Let_def split: option.split)
  show "users (snd (RegisterWorkspace now ws i s)) = users s"
    by (auto simp: RegisterWorkspace_def createWorkspaceLocked_def Let_def split: sum.split)
  show "users (snd (SetWorkspaceGrant i f g s)) = users s" using keeps_ops(2) by (simp add: tenantKeeps_def)
  show "users (MarkWorkspaceReposPrivate now ws s) = users s" using keeps_ops(4) by (simp add: tenantKeeps_def)
  show "users (snd (joinWorkspace u ws s)) = users s" by (simp add: joinWorkspace_def su Let_def)
qed

lemma users_of: "op = (a, t) \<Longrightarrow> users (snd op) = x \<Longrightarrow> users t = x"
  by simp

lemmas users_results = users_ops(1-4,6) [THEN users_of [rotated]]

lemma users_DeleteWorkspace: "storeInv s \<Longrightarrow> users (snd (DeleteWorkspace i s)) = users s"
  using foldl_deleteRepos [of s] by (auto simp: DeleteWorkspace_def Let_def keepRest_def split: option.split)

lemma users_claims:
  "users (snd (claimOrJoin now token u prefix s)) = users s"
  "users (snd (linkInstallation now token account u i s)) = users s"
proof -
  have c: "users (snd (claimWorkspace now token u prefix s)) = users s"
    by (auto simp: claimWorkspace_def users_ops split: sum.split prod.split dest: users_results)
  show "users (snd (claimOrJoin now token u prefix s)) = users s"
    using c by (auto simp: claimOrJoin_def split: sum.split prod.split claimed.split dest: users_results)
  have e: "users (snd (connectExisting u ws login i s)) = users s" for ws login s
    using connectExisting_store [of u ws login i s] by (auto simp: users_ops)
  have "users (snd (connectNew now token u login i s)) = users s" for login
    by (auto simp: connectNew_def e split: sum.split prod.split dest: users_results)
  then show "users (snd (linkInstallation now token account u i s)) = users s"
    using e by (simp add: linkInstallation_def split: option.split sum.split)
qed

lemma tenantStep_inv: "tenantStep cfg hash w w' \<Longrightarrow> tenantInv w \<Longrightarrow> tenantInv w'"
proof (induction rule: tenantStep.induct)
  case (tn_callback authority now token identity exchange rq forge form sc cc w r cookie fs s)
  have ok: "tenantsOK (twStore w)" using tn_callback.prems by (simp add: tenantInv_def)
  show ?case
    using ok tn_callback.hyps
  proof (cases rule: callback_cases)
    case refused
    then show ?thesis using tn_callback.prems by (simp add: tenantInv_def accountSaid_def)
  next
    case (accepted ident u)
    let ?w = "w\<lparr>twForges := fs, twStore := s, twSaid := recordIdentity forge (Some ident) (twSaid w)\<rparr>"
    have "accountSaid ?w v" if "map_of (users s) k = Some v" for k v
    proof (cases "k = usID u")
      case True
      then have "v = u" using that accepted(4) by simp
      then show ?thesis using accepted(5-7) by (simp add: accountSaid_def recordIdentity_def)
    next
      case False
      then have old: "map_of (users (twStore w)) k = Some v" using that accepted(4) by simp
      then have "accountOf v \<noteq> (forge, idForgeUUID ident)" using accepted(8) False by blast
      then show ?thesis using old tn_callback.prems by (simp add: tenantInv_def accountSaid_def recordIdentity_def)
    qed
    then have "tenantInv ?w" using accepted(3) by (simp add: tenantInv_def)
    then show ?thesis using accepted(1,2) by simp
  qed
next
  case (tn_register now rq w user s token body)
  note rq = request_inv [OF tn_register.prems tn_register.hyps]
  have "tenantsOK (snd (handleAPIRegister now token rq user body s)) \<and> users (snd (handleAPIRegister now token rq user body s)) = users s"
  proof (cases "\<exists>u prefix. user = Some u \<and> snd (handleAPIRegister now token rq user body s) = snd (claimOrJoin now token u prefix s)")
    case True
    then show ?thesis using rq claimOrJoin_OK users_claims(1) by auto
  next
    case False
    then have "snd (handleAPIRegister now token rq user body s) = s"
      by (auto simp: handleAPIRegister_def registerUser_def Let_def split: sum.splits option.splits prod.splits if_splits) (metis snd_conv)+
    then show ?thesis using rq by simp
  qed
  then show ?case using tn_register.prems rq(2) by (intro tenantInv_store) auto
next
  case (tn_setup now rq w user s fc token account form cookie)
  note rq = request_inv [OF tn_setup.prems tn_setup.hyps]
  have "snd (handleGitHubSetup cfg fc now token account rq user form cookie s) = s
      \<or> (\<exists>u i. user = Some u \<and> snd (handleGitHubSetup cfg fc now token account rq user form cookie s) = snd (linkInstallation now token account u i s))"
    by (auto simp: handleGitHubSetup_def split: option.splits prod.splits) (metis snd_conv)+
  then have "tenantsOK (snd (handleGitHubSetup cfg fc now token account rq user form cookie s))
      \<and> users (snd (handleGitHubSetup cfg fc now token account rq user form cookie s)) = users s"
    using rq linkInstallation_OK users_claims(2) by auto
  then show ?case using tn_setup.prems rq(2) by (intro tenantInv_store) auto
next
  case (tn_app now rq w user s fc token account inst)
  note rq = request_inv [OF tn_app.prems tn_app.hyps]
  have "snd (handleAPIGitHubConnect cfg fc now token account user inst s) = s
      \<or> (\<exists>u i. user = Some u \<and> snd (handleAPIGitHubConnect cfg fc now token account user inst s) = snd (linkInstallation now token account u i s))"
    by (auto simp: handleAPIGitHubConnect_def split: option.splits prod.splits) (metis snd_conv)+
  then have "tenantsOK (snd (handleAPIGitHubConnect cfg fc now token account user inst s))
      \<and> users (snd (handleAPIGitHubConnect cfg fc now token account user inst s)) = users s"
    using rq linkInstallation_OK users_claims(2) by auto
  then show ?case using tn_app.prems rq(2) by (intro tenantInv_store) auto
next
  case (tn_save now rq w user s fc app forge prefix inp)
  note rq = request_inv [OF tn_save.prems tn_save.hyps]
  have "users (snd (handleAPIWorkspaceSettings cfg fc app rq user forge prefix inp s)) = users s"
    by (auto simp: handleAPIWorkspaceSettings_def split: sum.split prod.split option.split dest: users_results)
  then show ?case using tn_save.prems rq(2) settings_OK [OF rq(1)] by (intro tenantInv_store) auto
next
  case (tn_rotate now rq w user s token forge prefix)
  note rq = request_inv [OF tn_rotate.prems tn_rotate.hyps(1)]
  have "users (snd (handleAPIWorkspaceRotate cfg rq user forge prefix token s)) = users s"
    by (auto simp: handleAPIWorkspaceRotate_def split: sum.split prod.split option.split dest: users_results)
  then show ?case using tn_rotate.prems rq(2) rotate_OK [OF rq(1) tn_rotate.hyps(2)] by (intro tenantInv_store) auto
next
  case (tn_disconnect now rq w user s app forge prefix r fs s')
  note rq = request_inv [OF tn_disconnect.prems tn_disconnect.hyps(1)]
  have d: "users (snd (snd (disconnectWorkspace now rq ws (fs0, s)))) = users s" for ws fs0
    by (auto simp: disconnectWorkspace_def githubDisconnect_def Let_def users_ops split: sum.split prod.split dest: users_results)
  have "users (snd (snd (handleAPIWorkspaceDisconnect cfg app now rq user forge prefix (twForges w, s)))) = users s"
    by (auto simp: handleAPIWorkspaceDisconnect_def Let_def split: sum.split prod.split option.split) (metis d snd_conv)+
  then show ?case using tn_disconnect.prems rq(2) disconnect_OK [OF rq(1), of cfg app now rq user forge prefix "twForges w"] tn_disconnect.hyps(2)
    by (intro tenantInv_store) auto
next
  case (tn_delete now rq w user s forge prefix)
  note rq = request_inv [OF tn_delete.prems tn_delete.hyps]
  have "users (snd (handleAPIWorkspaceDelete cfg rq user forge prefix s)) = users s"
    using users_DeleteWorkspace rq(1) by (auto simp: handleAPIWorkspaceDelete_def tenantsOK_def split: sum.split prod.split) (metis snd_conv)+
  then show ?case using tn_delete.prems rq(2) delete_OK [OF rq(1)] by (intro tenantInv_store) auto
next
  case (tn_delete_user w i)
  have row: "map_of (users (snd (DeleteUser i (twStore w)))) k = Some u \<Longrightarrow> map_of (users (twStore w)) k = Some u" for k u
    by (auto simp: DeleteUser_def delete_conv split: option.splits if_splits)
  have "accountSaid (w\<lparr>twStore := snd (DeleteUser i (twStore w))\<rparr>) u" if "map_of (users (snd (DeleteUser i (twStore w)))) k = Some u" for k u
    using tn_delete_user.prems row [OF that] by (simp add: tenantInv_def accountSaid_def)
  then show ?case using tn_delete_user.prems DeleteUser_vouched by (simp add: tenantInv_def)
next
  case (tn_other w s)
  then have "tenantsOK s" using tenantsOK_keeps memStep_inv by (auto simp: tenantInv_def tenantsOK_def)
  then show ?case using tn_other by (intro tenantInv_store) (auto simp: tenantKeeps_def)
qed

definition tenantStart :: "tenantWorld \<Rightarrow> bool" where
  "tenantStart w \<longleftrightarrow> storeInv (twStore w) \<and> users (twStore w) = [] \<and> members (twStore w) = []"

lemma tenantStart_inv: "tenantStart w \<Longrightarrow> tenantInv w"
  by (simp add: tenantStart_def tenantInv_def tenantsOK_def vouched_def membersOf_def)

lemma tenantReach_inv: "(tenantStep cfg hash)\<^sup>*\<^sup>* w0 w \<Longrightarrow> tenantStart w0 \<Longrightarrow> tenantInv w"
  by (induction rule: rtranclp_induct) (simp_all add: tenantStart_inv tenantStep_inv)



text \<open>A workspace that was there before, and a member of it on the forge signing in.\<close>

definition registeredStore :: memStore where
  "registeredStore =
     (let s = snd (CreateWorkspace 1 (zeroWorkspace\<lparr>wsForge := ''github'', wsPrefix := ''acme'', wsToken := ''w''\<rparr>) newStore)
      in snd (CreateRepo 1 (zeroRepo\<lparr>rpForge := ''github'', rpSlug := ''acme/app'', rpToken := ''t''\<rparr>) s))"

definition sampleIdentity :: Identity where
  "sampleIdentity = \<lparr>idForgeUUID = ''u'', idEmail = [], idDisplayName = ''Ann'', idWorkspaces = [''acme''], idOwnedWorkspaces = []\<rparr>"

definition anyAuthority :: "string \<Rightarrow> (string option \<times> string) option" where
  "anyAuthority a = Some (None, a)"

definition callbackForm :: oauthForm where
  "callbackForm = \<lparr>ofCode = ''k'', ofState = ''st'', ofError = []\<rparr>"

definition sampleCallback :: "(refusal + string) \<times> string option \<times> forgesState \<times> memStore" where
  "sampleCallback = handleOAuthCallback sampleConfig id anyAuthority 5 ''tok'' (\<lambda>_. Some sampleIdentity) (\<lambda>_. Inl ForgeTrouble)
     (sampleRequest ''/oauth/github/callback'' None) ''github'' callbackForm (Some ''st|%2Frepos'') None (NewForges False [], registeredStore)"

definition beforeSignIn :: tenantWorld where
  "beforeSignIn = \<lparr>twForges = NewForges False [], twStore = registeredStore, twSaid = (\<lambda>_. None)\<rparr>"

definition afterSignIn :: tenantWorld where
  "afterSignIn = beforeSignIn\<lparr>twForges := fst (snd (snd sampleCallback)), twStore := snd (snd (snd sampleCallback)),
     twSaid := (if fst (snd sampleCallback) = None then twSaid beforeSignIn
       else recordIdentity ''github'' (Some sampleIdentity) (twSaid beforeSignIn))\<rparr>"

lemma afterSignIn_reach: "tenantStart beforeSignIn" "(tenantStep sampleConfig id)\<^sup>*\<^sup>* beforeSignIn afterSignIn"
proof -
  have "memStep\<^sup>*\<^sup>* newStore registeredStore" unfolding registeredStore_def Let_def
    by (rule rtranclp.rtrancl_into_rtrancl, rule rtranclp.rtrancl_into_rtrancl, rule rtranclp.rtrancl_refl)
      (rule step_CreateWorkspace step_CreateRepo)+
  then have "storeInv registeredStore" by (rule memReach_inv)
  moreover have "users registeredStore = [] \<and> members registeredStore = []" by code_simp
  ultimately show "tenantStart beforeSignIn" by (simp add: tenantStart_def beforeSignIn_def)
  have run: "handleOAuthCallback sampleConfig id anyAuthority 5 ''tok'' (\<lambda>_. Some sampleIdentity) (\<lambda>_. Inl ForgeTrouble)
      (sampleRequest ''/oauth/github/callback'' None) ''github'' callbackForm (Some ''st|%2Frepos'') None (twForges beforeSignIn, twStore beforeSignIn)
      = (fst sampleCallback, fst (snd sampleCallback), fst (snd (snd sampleCallback)), snd (snd (snd sampleCallback)))"
    by (simp add: sampleCallback_def beforeSignIn_def)
  have "tenantStep sampleConfig id beforeSignIn afterSignIn"
    unfolding afterSignIn_def using tn_callback [OF run] .
  then show "(tenantStep sampleConfig id)\<^sup>*\<^sup>* beforeSignIn afterSignIn" by (rule r_into_rtranclp)
qed



end
