(* ===== verification/SeatGuards.thy ===== *)
theory SeatGuards
  imports Vouched
begin

text \<open>
  The workspace settings by the seat of who asks, and two writes that lose another's: a settings
  save over a rotated token, and a join over a sign-in's sync.
\<close>

text \<open>The seat a request has in the workspace it names, none where there is no such workspace.\<close>

definition seatOf :: "serverConfig \<Rightarrow> User option \<Rightarrow> string \<Rightarrow> string \<Rightarrow> memStore \<Rightarrow> Role option" where
  "seatOf cfg user forge prefix s =
     (case (user, WorkspaceByPrefix forge prefix s) of
        (Some u, Inr ws) \<Rightarrow> if authEnabled cfg then map_of (membersOf s (usID u)) (wsID ws) else None
      | _ \<Rightarrow> None)"

lemma memberWorkspace_by_seat:
  assumes "storeInv s"
  shows "memberWorkspace cfg rq user forge prefix s =
    (case seatOf cfg user forge prefix s of
       None \<Rightarrow> Inl (tenantNotFound rq)
     | Some role \<Rightarrow> (case WorkspaceByPrefix forge prefix s of Inl _ \<Rightarrow> Inl (tenantNotFound rq) | Inr ws \<Rightarrow> Inr (ws, role)))"
  using WorkspaceByPrefix_row(2) [OF assms]
  by (auto simp: memberWorkspace_def seatOf_def signedIn_def seat_row [OF assms] split: option.split sum.split)

lemma seatOf_role:
  assumes "storeInv s" and "seatOf cfg user forge prefix s = Some role"
  shows "(role = RoleOwner \<or> role = RoleMember) \<and> (\<exists>ws. WorkspaceByPrefix forge prefix s = Inr ws)"
  using assms(2) membersOf_row [OF inv_parts(6) [OF assms(1)]]
  by (auto simp: seatOf_def validRole_def split: option.splits sum.splits if_splits)

text \<open>
  C35: what a seat allows. Without a seat in the workspace every settings request is answered as for
  a workspace that is not there, and changes nothing. A member reads the settings, never any of the
  token, and is refused every change and the token itself. An owner gets the token that is stored,
  and after a rotation the new token, not the old, finds the workspace.
\<close>

theorem settings_by_seat:
  assumes "storeInv s"
  shows "case seatOf cfg user forge prefix s of
     None \<Rightarrow> handleAPIWorkspace cfg fc app rq user forge prefix s = Inl (tenantNotFound rq)
       \<and> handleAPIWorkspaceSettings cfg fc app rq user forge prefix inp s = (Inl (tenantNotFound rq), s)
       \<and> handleAPIWorkspaceRotate cfg rq user forge prefix token s = (Inl (tenantNotFound rq), s)
       \<and> handleAPIWorkspaceReveal cfg rq user forge prefix s = Inl (tenantNotFound rq)
       \<and> handleAPIWorkspaceDisconnect cfg app now rq user forge prefix (fs, s) = (Inl (tenantNotFound rq), fs, s)
       \<and> handleAPIWorkspaceDelete cfg rq user forge prefix s = (Inl (tenantNotFound rq), s)
   | Some role \<Rightarrow>
       if role = RoleMember then
         (\<exists>dto. handleAPIWorkspace cfg fc app rq user forge prefix s = Inr dto \<and> sdTokenMasked dto = None)
         \<and> handleAPIWorkspaceSettings cfg fc app rq user forge prefix inp s = (Inl (ownersOnly rq), s)
         \<and> handleAPIWorkspaceRotate cfg rq user forge prefix token s = (Inl (ownersOnly rq), s)
         \<and> handleAPIWorkspaceReveal cfg rq user forge prefix s = Inl (ownersOnly rq)
         \<and> handleAPIWorkspaceDisconnect cfg app now rq user forge prefix (fs, s) = (Inl (ownersOnly rq), fs, s)
         \<and> handleAPIWorkspaceDelete cfg rq user forge prefix s = (Inl (ownersOnly rq), s)
       else role = RoleOwner \<and>
         (\<exists>ws. WorkspaceByPrefix forge prefix s = Inr ws \<and> handleAPIWorkspaceReveal cfg rq user forge prefix s = Inr (wsToken ws)
          \<and> (findVal (workspaces s) (\<lambda>x. wsToken x = token) = None \<longrightarrow>
               (\<exists>s'. handleAPIWorkspaceRotate cfg rq user forge prefix token s = (Inr token, s')
                  \<and> WorkspaceByToken token s' = Inr (ws\<lparr>wsToken := token\<rparr>) \<and> WorkspaceByToken (wsToken ws) s' = Inl ErrNotFound)))"
proof (cases "seatOf cfg user forge prefix s")
  case None
  then have "memberWorkspace cfg rq user forge prefix s = Inl (tenantNotFound rq)" by (simp add: memberWorkspace_by_seat [OF assms])
  then show ?thesis using None
    by (simp add: handleAPIWorkspace_def handleAPIWorkspaceSettings_def handleAPIWorkspaceRotate_def handleAPIWorkspaceReveal_def
        handleAPIWorkspaceDisconnect_def handleAPIWorkspaceDelete_def ownerWorkspace_def)
next
  case (Some role)
  obtain ws where ws: "WorkspaceByPrefix forge prefix s = Inr ws" and role: "role = RoleOwner \<or> role = RoleMember"
    using seatOf_role [OF assms Some] by blast
  have m: "memberWorkspace cfg rq user forge prefix s = Inr (ws, role)" by (simp add: memberWorkspace_by_seat [OF assms] Some ws)
  show ?thesis
  proof (cases "role = RoleMember")
    case True
    then show ?thesis using m Some
      by (simp add: handleAPIWorkspace_def handleAPIWorkspaceSettings_def handleAPIWorkspaceRotate_def handleAPIWorkspaceReveal_def
          handleAPIWorkspaceDisconnect_def handleAPIWorkspaceDelete_def ownerWorkspace_def newWorkspaceSettingsDTO_def)
  next
    case False
    then have o: "ownerWorkspace cfg rq user forge prefix s = Inr ws" using role m by (simp add: ownerWorkspace_def)
    have row: "map_of (workspaces s) (wsID ws) = Some ws" using WorkspaceByPrefix_key [OF assms ws] by simp
    have w: "keyed wsID (wsSeq s) (workspaces s)" "uniqueBy wsToken (workspaces s)"
      using inv_parts(2) [OF assms] by (auto simp: workspaceInv_def)
    have rotated: "\<exists>s'. handleAPIWorkspaceRotate cfg rq user forge prefix token s = (Inr token, s')
        \<and> WorkspaceByToken token s' = Inr (ws\<lparr>wsToken := token\<rparr>) \<and> WorkspaceByToken (wsToken ws) s' = Inl ErrNotFound"
      if fresh: "findVal (workspaces s) (\<lambda>x. wsToken x = token) = None"
    proof -
      define new where "new = ws\<lparr>wsToken := token\<rparr>"
      define t where "t = AList.update (wsID ws) new (workspaces s)"
      have "new\<lparr>wsCreatedAt := (if wsCreatedAt new = 0 then wsCreatedAt ws else wsCreatedAt new), wsGrant := wsGrant ws\<rparr> = new"
        unfolding new_def by (cases ws) simp
      moreover have "wsID new = wsID ws" by (simp add: new_def)
      ultimately have up: "UpdateWorkspace new s = (Inr (), s\<lparr>workspaces := t\<rparr>)"
        unfolding UpdateWorkspace_def t_def by (simp only: row option.case Let_def)
      have run: "handleAPIWorkspaceRotate cfg rq user forge prefix token s = (Inr token, s\<lparr>workspaces := t\<rparr>)"
        using o up by (simp add: handleAPIWorkspaceRotate_def new_def)
      have wf: "wfMap t" using keyed_wf [OF w(1)] by (simp add: t_def)
      have none: "\<forall>k v. map_of (workspaces s) k = Some v \<longrightarrow> wsToken v \<noteq> token" using fresh keyed_wf [OF w(1)] by (simp add: findVal_None)
      have tok: "map_of t k = Some v \<Longrightarrow> wsToken v = token \<Longrightarrow> v = new" for k v
        using none by (auto simp: t_def split: if_splits)
      have old: "wsToken v \<noteq> wsToken ws" if v: "map_of t k = Some v" for k v
      proof (cases "k = wsID ws")
        case True
        then have "wsToken v = token" using v by (auto simp: t_def new_def)
        then show ?thesis using none row by metis
      next
        case False
        then have "map_of (workspaces s) k = Some v" using v by (simp add: t_def)
        then show ?thesis using w(2) row False unfolding uniqueBy_def by metis
      qed
      have "findVal t (\<lambda>x. wsToken x = token) = Some new"
      proof (cases "findVal t (\<lambda>x. wsToken x = token)")
        case None
        then have "\<forall>k v. map_of t k = Some v \<longrightarrow> wsToken v \<noteq> token" unfolding findVal_None [OF wf] .
        moreover have "map_of t (wsID ws) = Some new" "wsToken new = token" by (simp_all add: t_def new_def)
        ultimately have False by blast
        then show ?thesis ..
      next
        case (Some v)
        then show ?thesis using findVal_Some [OF wf Some] tok by blast
      qed
      moreover have "findVal t (\<lambda>x. wsToken x = wsToken ws) = None" unfolding findVal_None [OF wf] using old by simp
      ultimately show ?thesis using run by (simp add: WorkspaceByToken_def rowOr_def new_def)
    qed
    then show ?thesis using Some False role ws o by (simp add: handleAPIWorkspaceReveal_def)
  qed
qed

theorem settings_by_seat_witness:
  "handleAPIWorkspaceReveal sampleConfig (sampleRequest ''/api/ui/workspace-settings/reveal-token/github/acme'' (Some ''tok''))
     (fst (sessionUser id 6 (sampleRequest ''/'' (Some ''tok'')) (twStore afterSignIn))) ''github'' ''acme'' (twStore afterSignIn) = Inl OwnersOnlyJSON"
proof -
  let ?user = "fst (sessionUser id 6 (sampleRequest ''/'' (Some ''tok'')) (twStore afterSignIn))"
  have inv: "storeInv (twStore afterSignIn)" using tenantReach_inv [OF afterSignIn_reach(2,1)] by (simp add: tenantInv_def tenantsOK_def)
  have "seatOf sampleConfig ?user ''github'' ''acme'' (twStore afterSignIn) = Some RoleMember" by code_simp
  moreover have "ownersOnly (sampleRequest ''/api/ui/workspace-settings/reveal-token/github/acme'' (Some ''tok'')) = OwnersOnlyJSON" by code_simp
  ultimately show ?thesis using settings_by_seat [OF inv, where user = ?user and forge = "''github''" and prefix = "''acme''" and cfg = sampleConfig] by simp
qed

section \<open>Writes that lose another's\<close>

text \<open>The owner of \<open>sampleAccess\<close>, her workspace as a request reads it, and a settings form.\<close>

definition annOf :: "memStore \<Rightarrow> User option" where
  "annOf s = fst (sessionUser id 6 (sampleRequest ''/'' (Some ''c'')) s)"

definition plainForm :: settingsInput where
  "plainForm = \<lparr>siDefaultBranch = ''main'', siReportRetentionDays = 90, siGate = zeroGate\<rparr>"

text \<open>The two halves of a settings save: what it reads and checks, and what it writes.\<close>

definition saveRead :: "memStore \<Rightarrow> Workspace" where
  "saveRead s = projr (savedSettings plainForm (projr (ownerWorkspace sampleConfig (sampleRequest ''/api/ui/x'' (Some ''c'')) (annOf s) ''github'' ''acme'' s)))"


text \<open>
  A join adds to the memberships it read. When a sign-in that drops one comes between its read and
  its write, the dropped membership is back, although the forge no longer reports it.
\<close>

theorem join_restores_dropped_seat:
  "let s = snd (CreateWorkspace 2 (zeroWorkspace\<lparr>wsForge := ''github'', wsPrefix := ''beta'', wsToken := ''b''\<rparr>) sampleAccess);
       read = ListMembershipsForUser 1 s;
       s1 = snd (provisionUser 7 ''github'' \<lparr>idForgeUUID = ''u'', idEmail = [], idDisplayName = ''Ann'',
         idWorkspaces = [''beta''], idOwnedWorkspaces = []\<rparr> s);
       s2 = snd (SetUserMemberships 1 (read @ [\<lparr>mbWorkspaceID = 2, mbRole = RoleMember\<rparr>]) s1)
   in map mbWorkspaceID (ListMembershipsForUser 1 s1) = [2] \<and> map mbWorkspaceID (ListMembershipsForUser 1 s2) = [1, 2]"
  by code_simp

text \<open>
  The answer to a disconnect of a grant is made from the row as it was read: it says the workspace
  is connected, although the row stored no longer is.
\<close>

definition labStore :: memStore where
  "labStore =
     (let s = snd (UpsertUser 1 \<lparr>usID = 0, usForge = ''gitlab'', usForgeUUID = ''u'', usEmail = [], usDisplayName = ''Ann'',
            usForgeWorkspaces = [''acme''], usForgeOwnedWorkspaces = [''acme''], usCreatedAt = 0, usLastLoginAt = 0\<rparr> newStore);
          s = snd (RegisterWorkspace 1 (zeroWorkspace\<lparr>wsForge := ''gitlab'', wsPrefix := ''acme'', wsToken := ''w''\<rparr>) 1 s);
          s = snd (SetWorkspaceGrant 1 ''gitlab'' firstGrant s)
      in snd (CreateSession 1 \<lparr>seTokenHash = ''c'', seUserID = 1, seCreatedAt = 0, seExpiresAt = 100\<rparr> s))"

theorem disconnect_answers_connected:
  "let (answer, fs, s) = handleAPIWorkspaceDisconnect sampleConfig None 6 (sampleRequest ''/api/ui/x'' (Some ''c'')) (annOf labStore)
         ''gitlab'' ''acme'' (NewForges False [''gitlab''], labStore)
   in (case answer of Inl _ \<Rightarrow> False | Inr dto \<Rightarrow> sdState dto = ''on'' \<and> sdAccount dto = ''bot'')
    \<and> grantRow 1 s = Some (''gitlab'', ''acme'', [], [])"
  by code_simp

end
