(* ===== verification/GoFold.thy ===== *)
theory GoFold
  imports Visibility Publish
begin

text \<open>
  Letter case as Go's \<open>strings\<close> package folds it, the bounds the server puts on names that arrive
  with an upload (\<open>internal/core/part.go\<close>, the commit pattern of \<open>internal/server/upload.go\<close>), and
  cutting text to a number of runes. ASCII letters are written out; what the Unicode tables say of
  the other runes is an argument: \<open>uni\<close> for \<open>unicode.ToLower\<close>, \<open>orbit\<close> for two runes that
  \<open>unicode.SimpleFold\<close> leads to each other.
\<close>

section \<open>Letter case\<close>

definition lowerRune :: "(int \<Rightarrow> int) \<Rightarrow> int \<Rightarrow> int" where
  "lowerRune uni r = (if r < 128 then (if 65 \<le> r \<and> r \<le> 90 then r + 32 else r) else uni r)"

definition toLower :: "(int \<Rightarrow> int) \<Rightarrow> string \<Rightarrow> string" where
  "toLower uni s = concat (map (\<lambda>r. encodeRune (lowerRune uni r)) (runesOf s))"

definition foldsRune :: "(int \<Rightarrow> int \<Rightarrow> bool) \<Rightarrow> int \<Rightarrow> int \<Rightarrow> bool" where
  "foldsRune orbit a b \<longleftrightarrow>
     a = b \<or> (if max a b < 128 then 65 \<le> min a b \<and> min a b \<le> 90 \<and> max a b = min a b + 32 else orbit a b)"

definition equalFold :: "(int \<Rightarrow> int \<Rightarrow> bool) \<Rightarrow> string \<Rightarrow> string \<Rightarrow> bool" where
  "equalFold orbit s t = list_all2 (foldsRune orbit) (runesOf s) (runesOf t)"

section \<open>Cutting text\<close>

definition clip :: "string \<Rightarrow> nat \<Rightarrow> string" where
  "clip s n =
     (let s = trimSpace s; r = runesOf s
      in if length r > n then trimSpace (concat (map encodeRune (take n r))) else s)"

definition firstLine :: "string \<Rightarrow> string" where
  "firstLine s = takeWhile (\<lambda>c. c \<noteq> CHR 0x0D \<and> c \<noteq> CHR 0x0A) s"

definition baseName :: "string \<Rightarrow> string" where
  "baseName p = rev (takeWhile (\<lambda>c. c \<noteq> CHR ''/'' \<and> c \<noteq> CHR 0x5C) (rev p))"

section \<open>Commits and parts\<close>

definition commitMatches :: "string \<Rightarrow> bool" where
  "commitMatches s \<longleftrightarrow> 1 \<le> length s \<and> length s \<le> 64 \<and> list_all nameChar s"

abbreviation DefaultPart :: string where
  "DefaultPart \<equiv> ''default''"

definition partStart :: "char \<Rightarrow> bool" where
  "partStart c \<longleftrightarrow> (97 \<le> byteOf c \<and> byteOf c \<le> 122) \<or> isDigit c"

definition partChar :: "char \<Rightarrow> bool" where
  "partChar c \<longleftrightarrow> partStart c \<or> c = CHR ''.'' \<or> c = CHR ''_'' \<or> c = CHR ''-''"

definition partMatches :: "string \<Rightarrow> bool" where
  "partMatches s = (case s of [] \<Rightarrow> False | c # cs \<Rightarrow> partStart c \<and> length cs \<le> 63 \<and> list_all partChar cs)"

definition NormalizePart :: "(int \<Rightarrow> int) \<Rightarrow> string \<Rightarrow> string + string" where
  "NormalizePart uni raw =
     (let part = toLower uni (trimSpace raw)
      in if part = [] then Inr DefaultPart else if \<not> partMatches part then Inl part else Inr part)"

section \<open>ASCII text\<close>

lemma runesOf_ascii: "list_all (\<lambda>c. byteOf c < 128) s \<Longrightarrow> runesOf s = map byteOf s"
  by (induction s) (auto simp: runesOf.simps [of "_ # _"] runesOf.simps [of "[]"] decodeRune_def)

lemma byteOf_pos: "0 \<le> byteOf c"
  by (cases c) (simp add: of_char_def horner_sum_simps)

lemma encodeRune_byte: "byteOf c < 128 \<Longrightarrow> encodeRune (byteOf c) = [c]"
  using byteOf_pos [of c] by (simp add: encodeRune_def)

lemma partChar_lower: "partChar c \<Longrightarrow> lowerRune uni (byteOf c) = byteOf c"
  by (auto simp: partChar_def partStart_def isDigit_def lowerRune_def)

lemma concat_singles: "(\<And>c. c \<in> set s \<Longrightarrow> f c = [c]) \<Longrightarrow> concat (map f s) = s"
  by (induction s) auto

lemma partMatches_chars: "partMatches s \<Longrightarrow> c \<in> set s \<Longrightarrow> partChar c"
  by (auto simp: partMatches_def partChar_def list_all_iff split: list.splits)

lemma partChar_ascii: "partChar c \<Longrightarrow> \<not> asciiSpace c \<and> byteOf c < 128"
  by (auto simp: partChar_def partStart_def asciiSpace_def isDigit_def)

lemma partMatches_tight: "partMatches s \<Longrightarrow> trimSpace s = s"
  using partMatches_chars [of s] partChar_ascii
  by (intro trimSpace_tight ascii_tight) (auto simp: partMatches_def split: list.splits)

lemma toLower_part: "partMatches s \<Longrightarrow> toLower uni s = s"
  using partMatches_chars [of s]
  by (auto simp: toLower_def runesOf_ascii list_all_iff partChar_ascii partChar_lower encodeRune_byte comp_def
      intro!: concat_singles)

text \<open>A part's name as it is stored is a name, and is its own normal form: no second spelling of it keys another bucket.\<close>

lemma NormalizePart_matches: "NormalizePart uni raw = Inr part \<Longrightarrow> partMatches part"
  by (auto simp: NormalizePart_def Let_def split: if_splits) (simp add: partMatches_def partStart_def partChar_def)

lemma NormalizePart_idem: "NormalizePart uni raw = Inr part \<Longrightarrow> NormalizePart uni' part = Inr part"
  using NormalizePart_matches [of uni raw part]
  by (auto simp: NormalizePart_def Let_def partMatches_tight toLower_part partMatches_def)

end
