(* ===== verification/RunClaims.thy ===== *)
theory RunClaims
  imports GoFold Tenants
begin

text \<open>
  Uploads without a token from a fork's pull request: \<open>internal/forge/github/tokenless.go\<close>, which
  checks a claimed workflow run against GitHub, and \<open>internal/server/tokenless.go\<close>, which reads
  the claim, bounds how often GitHub is asked and remembers its answers. GitHub's API is an
  argument: what an installation may mint, and what it may get at a path.
\<close>

section \<open>The claim, checked against GitHub\<close>

record RunClaim =
  rcRepoSlug :: string
  rcRunID :: int
  rcRunAttempt :: int
  rcPRNumber :: int
  rcHeadSHA :: string
  rcHeadRepo :: string

text \<open>What a GET answers: a body, a refusal with its status, or neither.\<close>

datatype 'a restAnswer = RestGot 'a | RestStatus int | RestTrouble

datatype 'a apiAnswer = ApiGot 'a | ApiNotFound | ApiFailed connectError

record ghRun =
  runStatus :: string
  runEvent :: string
  runHeadSHA :: string
  runAttempt :: int
  runRepository :: string

record ghPull =
  pullState :: string
  pullHeadSHA :: string
  pullHeadRepo :: string

record githubAPI =
  apiMint :: "int \<Rightarrow> connectError option"
  apiRepo :: "int \<Rightarrow> string \<Rightarrow> bool restAnswer"
  apiRun :: "int \<Rightarrow> string \<Rightarrow> ghRun restAnswer"
  apiPull :: "int \<Rightarrow> string \<Rightarrow> ghPull restAnswer"

definition getAsInstallation :: "(int \<Rightarrow> connectError option) \<Rightarrow> (int \<Rightarrow> string \<Rightarrow> 'a restAnswer) \<Rightarrow> int \<Rightarrow> string \<Rightarrow> 'a apiAnswer" where
  "getAsInstallation mint get i path =
     (case mint i of
        Some e \<Rightarrow> ApiFailed e
      | None \<Rightarrow> (case get i path of
            RestGot x \<Rightarrow> ApiGot x
          | RestStatus n \<Rightarrow> if n = 404 then ApiNotFound else ApiFailed ForgeTrouble
          | RestTrouble \<Rightarrow> ApiFailed ForgeTrouble))"

datatype rejectReason =
    CannotSee
  | RepoPrivate
  | RunNotFound
  | RunOfAnotherRepo
  | RunNotPullRequest string
  | RunNotInProgress string
  | RunOtherCommit
  | RunOtherAttempt int
  | PullNotFound
  | PullNotOpen string
  | PullOtherHead
  | PullOtherRepo

text \<open>Why a claim does not hold, or why that could not be found out.\<close>

datatype claimError = ClaimRejected rejectReason | ClaimUnchecked connectError

definition checkPull :: "(int \<Rightarrow> int \<Rightarrow> bool) \<Rightarrow> RunClaim \<Rightarrow> ghPull apiAnswer \<Rightarrow> claimError option" where
  "checkPull orbit c a =
     (case a of
        ApiFailed e \<Rightarrow> Some (ClaimUnchecked e)
      | ApiNotFound \<Rightarrow> Some (ClaimRejected PullNotFound)
      | ApiGot pr \<Rightarrow>
          if pullState pr \<noteq> ''open'' then Some (ClaimRejected (PullNotOpen (pullState pr)))
          else if \<not> equalFold orbit (pullHeadSHA pr) (rcHeadSHA c) then Some (ClaimRejected PullOtherHead)
          else if \<not> equalFold orbit (pullHeadRepo pr) (rcHeadRepo c) then Some (ClaimRejected PullOtherRepo)
          else None)"

definition checkRun :: "(int \<Rightarrow> int \<Rightarrow> bool) \<Rightarrow> RunClaim \<Rightarrow> ghRun apiAnswer \<Rightarrow> claimError option" where
  "checkRun orbit c a =
     (case a of
        ApiFailed e \<Rightarrow> Some (ClaimUnchecked e)
      | ApiNotFound \<Rightarrow> Some (ClaimRejected RunNotFound)
      | ApiGot run \<Rightarrow>
          if \<not> equalFold orbit (runRepository run) (rcRepoSlug c) then Some (ClaimRejected RunOfAnotherRepo)
          else if runEvent run \<noteq> ''pull_request'' then Some (ClaimRejected (RunNotPullRequest (runEvent run)))
          else if runStatus run \<noteq> ''in_progress'' then Some (ClaimRejected (RunNotInProgress (runStatus run)))
          else if \<not> equalFold orbit (runHeadSHA run) (rcHeadSHA c) then Some (ClaimRejected RunOtherCommit)
          else if runAttempt run \<noteq> rcRunAttempt c then Some (ClaimRejected (RunOtherAttempt (runAttempt run)))
          else None)"

definition VerifyRunClaim :: "(int \<Rightarrow> int \<Rightarrow> bool) \<Rightarrow> githubAPI \<Rightarrow> int \<Rightarrow> RunClaim \<Rightarrow> claimError option" where
  "VerifyRunClaim orbit api i c =
     (case getAsInstallation (apiMint api) (apiRepo api) i (''/repos/'' @ rcRepoSlug c) of
        ApiFailed e \<Rightarrow> Some (ClaimUnchecked e)
      | ApiNotFound \<Rightarrow> Some (ClaimRejected CannotSee)
      | ApiGot private \<Rightarrow>
          if private then Some (ClaimRejected RepoPrivate)
          else case checkRun orbit c (getAsInstallation (apiMint api) (apiRun api) i
              (''/repos/'' @ rcRepoSlug c @ ''/actions/runs/'' @ itoa (rcRunID c))) of
            Some e \<Rightarrow> Some e
          | None \<Rightarrow> checkPull orbit c (getAsInstallation (apiMint api) (apiPull api) i
              (''/repos/'' @ rcRepoSlug c @ ''/pulls/'' @ itoa (rcPRNumber c))))"

section \<open>How often GitHub is asked\<close>

definition maxTokenlessPerRepoHour :: int where
  "maxTokenlessPerRepoHour = 60"

definition hour :: time where
  "hour = 3600 * 1000000000"

text \<open>\<open>limWindow\<close> is \<open>None\<close> before the first attempt: Go's zero time is more than an hour ago.\<close>

record tokenlessLimiter =
  limWindow :: "time option"
  limCounts :: "(string, int) gomap"

definition newTokenlessLimiter :: tokenlessLimiter where
  "newTokenlessLimiter = \<lparr>limWindow = None, limCounts = []\<rparr>"

definition countOf :: "(string, int) gomap \<Rightarrow> string \<Rightarrow> int" where
  "countOf m k = (case map_of m k of None \<Rightarrow> 0 | Some n \<Rightarrow> n)"

definition limiterAllow :: "string \<Rightarrow> string \<Rightarrow> time \<Rightarrow> tokenlessLimiter \<Rightarrow> bool \<times> tokenlessLimiter" where
  "limiterAllow forgeName slug now l =
     (let l = (if (case limWindow l of None \<Rightarrow> True | Some w \<Rightarrow> now - w \<ge> hour) then l\<lparr>limWindow := Some now, limCounts := []\<rparr> else l);
          key = forgeName @ '':'' @ slug
      in if countOf (limCounts l) key \<ge> maxTokenlessPerRepoHour then (False, l)
         else (True, l\<lparr>limCounts := AList.update key (countOf (limCounts l) key + 1) (limCounts l)\<rparr>))"

section \<open>What GitHub answered\<close>

definition claimVerdictTTL :: time where
  "claimVerdictTTL = 5 * 60 * 1000000000"

definition maxClaimVerdicts :: nat where
  "maxClaimVerdicts = 10000"

record claimVerdict =
  cvRejected :: "rejectReason option"
  cvUntil :: time

type_synonym claimVerdicts = "(RunClaim, claimVerdict) gomap"

definition verdictGet :: "RunClaim \<Rightarrow> time \<Rightarrow> claimVerdicts \<Rightarrow> claimVerdict option" where
  "verdictGet c now m = (case map_of m c of None \<Rightarrow> None | Some v \<Rightarrow> if now > cvUntil v then None else Some v)"

definition verdictPut :: "RunClaim \<Rightarrow> rejectReason option \<Rightarrow> time \<Rightarrow> claimVerdicts \<Rightarrow> claimVerdicts" where
  "verdictPut c rejected now m =
     AList.update c \<lparr>cvRejected = rejected, cvUntil = now + claimVerdictTTL\<rparr> (if length m \<ge> maxClaimVerdicts then [] else m)"

section \<open>Authenticating the request\<close>

record tokenlessClaim =
  tcRunID :: int
  tcRunAttempt :: int

datatype tokenlessRefusal =
    MissingBearer
  | NoAppConfigured
  | BadClaim string
  | NotTracked string
  | NotOnGitHub
  | AppNotInstalled string
  | ClaimRefused rejectReason
  | TooManyAttempts string
  | InstallationRevoked string
  | RunUnverified
  | RepoLookupFailed

definition slugOwner :: "string \<Rightarrow> string" where
  "slugOwner slug = (case cutByte CHR ''/'' slug of None \<Rightarrow> slug | Some (owner, _) \<Rightarrow> owner)"

text \<open>The claim as the form states it, before GitHub or the store are asked.\<close>

definition readClaim :: "(string \<Rightarrow> string) \<Rightarrow> string + RunClaim" where
  "readClaim form =
     (if form ''repo'' = [] then Inl ''tokenless uploads require the repo field''
      else if form ''commit'' = [] \<or> \<not> commitMatches (form ''commit'') then Inl ''tokenless uploads require the commit field (the PR head SHA)''
      else if form ''head_repo'' = [] then Inl ''tokenless uploads require the head_repo field (the fork the PR head is on)''
      else case positiveInt (form ''run_id'') of
        None \<Rightarrow> Inl ''invalid run_id: want the workflow run's numeric id''
      | Some runID \<Rightarrow> (case positiveInt (form ''run_attempt'') of
          None \<Rightarrow> Inl ''invalid run_attempt: want the workflow run's numeric attempt''
        | Some attempt \<Rightarrow> (case positiveInt (form ''pr_id'') of
            None \<Rightarrow> Inl ''tokenless uploads require pr_id (the pull request number)''
          | Some pr \<Rightarrow> Inr \<lparr>rcRepoSlug = form ''repo'', rcRunID = runID, rcRunAttempt = attempt, rcPRNumber = pr,
              rcHeadSHA = form ''commit'', rcHeadRepo = form ''head_repo''\<rparr>)))"

record tokenlessState =
  tkLimiter :: tokenlessLimiter
  tkVerdicts :: claimVerdicts

definition connectTrouble :: "claimError option \<Rightarrow> connectError option" where
  "connectTrouble a =
     (case a of None \<Rightarrow> None | Some (ClaimRejected _) \<Rightarrow> Some ForgeTrouble | Some (ClaimUnchecked e) \<Rightarrow> Some e)"

text \<open>\<open>verify\<close> is GitHub's answer to the claim through an installation, asked only past the limiter.\<close>

definition askGitHub :: "(int \<Rightarrow> RunClaim \<Rightarrow> claimError option) \<Rightarrow> time \<Rightarrow> Workspace \<Rightarrow> RunClaim \<Rightarrow> Repo \<Rightarrow> tokenlessState \<times> memStore
    \<Rightarrow> (tokenlessRefusal + tokenlessClaim \<times> Repo) \<times> tokenlessState \<times> memStore" where
  "askGitHub verify now ws c repo ts =
     (let (k, s) = ts; answer = verify (wsGitHubInstallationID ws) c;
          s = snd (VerifyGitHubRunClaim now (\<lambda>i c. connectTrouble (verify i c)) ws c s)
      in case answer of
        None \<Rightarrow> (Inr (\<lparr>tcRunID = rcRunID c, tcRunAttempt = rcRunAttempt c\<rparr>, repo), k\<lparr>tkVerdicts := verdictPut c None now (tkVerdicts k)\<rparr>, s)
      | Some (ClaimRejected r) \<Rightarrow> (Inl (ClaimRefused r), k\<lparr>tkVerdicts := verdictPut c (Some r) now (tkVerdicts k)\<rparr>, s)
      | Some (ClaimUnchecked CredentialsRevoked) \<Rightarrow> (Inl (InstallationRevoked (wsPrefix ws)), k, s)
      | Some (ClaimUnchecked ForgeTrouble) \<Rightarrow> (Inl RunUnverified, k, s))"

definition authTokenless :: "forgesConfig \<Rightarrow> (int \<Rightarrow> RunClaim \<Rightarrow> claimError option) \<Rightarrow> time \<Rightarrow> (string \<Rightarrow> string) \<Rightarrow> tokenlessState \<times> memStore
    \<Rightarrow> (tokenlessRefusal + tokenlessClaim \<times> Repo) \<times> tokenlessState \<times> memStore" where
  "authTokenless cfg verify now form ts =
     (let (k, s) = ts
      in if form ''run_id'' = [] then (Inl MissingBearer, ts)
         else if \<not> fcGitHubApp cfg then (Inl NoAppConfigured, ts)
         else case readClaim form of
           Inl e \<Rightarrow> (Inl (BadClaim e), ts)
         | Inr c \<Rightarrow> (case RepoBySlug ''github'' (rcRepoSlug c) s of
             Inl e \<Rightarrow> (Inl (if e = ErrNotFound then NotTracked (rcRepoSlug c) else RepoLookupFailed), ts)
           | Inr repo \<Rightarrow>
               (let c = c\<lparr>rcRepoSlug := rpSlug repo\<rparr>
                in if rpForge repo \<noteq> ''github'' then (Inl NotOnGitHub, ts)
                   else case WorkspaceFor (rpSlug repo) ''github'' s of
                     None \<Rightarrow> (Inl (AppNotInstalled (slugOwner (rpSlug repo))), ts)
                   | Some ws \<Rightarrow>
                       if wsGitHubInstallationID ws = 0 then (Inl (AppNotInstalled (slugOwner (rpSlug repo))), ts)
                       else case verdictGet c now (tkVerdicts k) of
                         Some v \<Rightarrow> (case cvRejected v of
                             Some r \<Rightarrow> (Inl (ClaimRefused r), ts)
                           | None \<Rightarrow> (Inr (\<lparr>tcRunID = rcRunID c, tcRunAttempt = rcRunAttempt c\<rparr>, repo), ts))
                       | None \<Rightarrow>
                           (let (ok, l) = limiterAllow ''github'' (rpSlug repo) now (tkLimiter k); k = k\<lparr>tkLimiter := l\<rparr>
                            in if \<not> ok then (Inl (TooManyAttempts (rpSlug repo)), k, s)
                               else askGitHub verify now ws c repo (k, s)))))"

section \<open>The limiter's bound\<close>

text \<open>The attempts that were let through, of those made one after another.\<close>

primrec attempts :: "(time \<times> string \<times> string) list \<Rightarrow> tokenlessLimiter \<Rightarrow> (time \<times> string) list" where
  "attempts [] l = []"
| "attempts (a # as) l =
     (case a of (t, forgeName, slug) \<Rightarrow>
        (let (ok, l) = limiterAllow forgeName slug t l in (if ok then [(t, forgeName @ '':'' @ slug)] else []) @ attempts as l))"

definition passing :: "time \<Rightarrow> string \<Rightarrow> (time \<times> string) list \<Rightarrow> nat" where
  "passing t0 key xs = length (filter (\<lambda>(t, k). k = key \<and> t0 \<le> t \<and> t < t0 + hour) xs)"

lemma passing_simps [simp]:
  "passing t0 key [] = 0" "passing t0 key (xs @ ys) = passing t0 key xs + passing t0 key ys"
  "passing t0 key ((t, k) # xs) = (if k = key \<and> t0 \<le> t \<and> t < t0 + hour then 1 else 0) + passing t0 key xs"
  by (simp_all add: passing_def)

lemma attempts_times: "(t, k) \<in> set (attempts as l) \<Longrightarrow> t \<in> fst ` set as"
  by (induction as arbitrary: l) (auto split: prod.splits if_splits)

lemma passing_late:
  assumes "\<forall>a \<in> set as. t0 + hour \<le> fst a"
  shows "passing t0 key (attempts as l) = 0"
proof -
  have "\<not> t < t0 + hour" if "(t, k) \<in> set (attempts as l)" for t k using assms attempts_times [OF that] by auto
  then show ?thesis by (force simp: passing_def filter_empty_conv)
qed

lemma countOf_update [simp]: "countOf (AList.update k n m) k' = (if k' = k then n else countOf m k')"
  by (simp add: countOf_def update_conv')

lemma countOf_nil [simp]: "countOf [] k = 0" "countOf [(k', n)] k = (if k = k' then n else 0)"
  by (simp_all add: countOf_def)

text \<open>One attempt in a window that began at \<open>w\<close>: the window and the key's count after it.\<close>

lemma limiterAllow_window:
  assumes "limiterAllow f s t l = (ok, l')" and "limWindow l = Some w" and "0 \<le> countOf (limCounts l) key \<and> countOf (limCounts l) key \<le> 60"
  defines "c \<equiv> (if t - w \<ge> hour then 0 else countOf (limCounts l) key)" and "here \<equiv> ok \<and> f @ '':'' @ s = key"
  shows "limWindow l' = Some (if t - w \<ge> hour then t else w)" "countOf (limCounts l') key = c + (if here then 1 else 0)"
    "here \<Longrightarrow> c < 60"
  using assms(1-3) by (auto simp: limiterAllow_def Let_def c_def here_def maxTokenlessPerRepoHour_def split: if_splits)

lemma attempts_in_window:
  assumes "sorted (map fst as)" and "limWindow l = Some w" and "0 \<le> countOf (limCounts l) key \<and> countOf (limCounts l) key \<le> 60"
  shows "(t0 \<le> w \<longrightarrow> int (passing t0 key (attempts as l)) \<le> 60 - countOf (limCounts l) key)
    \<and> (w < t0 \<longrightarrow> (\<forall>a \<in> set as. t0 \<le> fst a) \<longrightarrow> int (passing t0 key (attempts as l)) \<le> 120 - countOf (limCounts l) key)
    \<and> (w < t0 \<longrightarrow> int (passing t0 key (attempts as l)) \<le> 120)"
  using assms
proof (induction as arbitrary: l w)
  case (Cons a as)
  obtain t f s where a: "a = (t, f, s)" by (cases a)
  obtain ok l' where run: "limiterAllow f s t l = (ok, l')" by fastforce
  let ?here = "ok \<and> f @ '':'' @ s = key" and ?w = "if t - w \<ge> hour then t else w" and ?rest = "int (passing t0 key (attempts as l'))"
  note st = limiterAllow_window [OF run Cons.prems(2,3)]
  have later: "\<forall>a \<in> set as. t \<le> fst a" and srt: "sorted (map fst as)" using Cons.prems(1) by (auto simp: a)
  have c': "0 \<le> countOf (limCounts l') key \<and> countOf (limCounts l') key \<le> 60" using st(2,3) Cons.prems(3) by (auto split: if_splits)
  note ih = Cons.IH [OF srt st(1) c']
  have cnt: "int (passing t0 key (attempts (a # as) l)) = (if ?here \<and> t0 \<le> t \<and> t < t0 + hour then 1 else 0) + ?rest"
    by (simp add: a run)
  have one: "int (passing t0 key (attempts (a # as) l)) \<le> 60 - countOf (limCounts l) key" if "t0 \<le> w"
  proof (cases "t - w \<ge> hour")
    case True
    then have "t0 + hour \<le> t" using that by simp
    moreover from this later have "\<forall>a \<in> set as. t0 + hour \<le> fst a" by auto
    ultimately show ?thesis using passing_late [of as t0 key l'] Cons.prems(3) unfolding cnt by simp
  next
    case False
    then show ?thesis using ih that st(2) unfolding cnt by (auto split: if_splits)
  qed
  have two: "int (passing t0 key (attempts (a # as) l)) \<le> 120 - countOf (limCounts l) key" if "w < t0" "\<forall>a \<in> set (a # as). t0 \<le> fst a"
  proof (cases "t - w \<ge> hour")
    case True
    then have "?rest \<le> 60 - countOf (limCounts l') key" using ih that(2) by (simp add: a)
    then show ?thesis using st(2) True Cons.prems(3) unfolding cnt by (auto split: if_splits)
  next
    case False
    then have "?rest \<le> 120 - countOf (limCounts l') key" using ih that by simp
    then show ?thesis using st(2) False unfolding cnt by (auto split: if_splits)
  qed
  have three: "int (passing t0 key (attempts (a # as) l)) \<le> 120" if "w < t0"
  proof (cases "t0 \<le> t")
    case True
    then have "\<forall>a \<in> set (a # as). t0 \<le> fst a" using later by (auto simp: a)
    then show ?thesis using two [OF that] Cons.prems(3) by simp
  next
    case False
    then show ?thesis using ih that unfolding cnt by auto
  qed
  show ?case using one two three by blast
qed auto


definition burst :: "(time \<times> string \<times> string) list" where
  "burst = (0, ''github'', ''acme/lib'') # replicate 60 (hour - 1, ''github'', ''acme/app'') @ replicate 60 (hour, ''github'', ''acme/app'')"


section \<open>What an admitted claim rests on\<close>

text \<open>
  GitHub's own word on a claim, as the checks are documented: the repo is public; the run exists on
  it, is a pull request's, is in progress, at the claimed commit and attempt; the pull request is
  open, with the claimed head, on the claimed repo.
\<close>

definition runVouched :: "(int \<Rightarrow> int \<Rightarrow> bool) \<Rightarrow> githubAPI \<Rightarrow> int \<Rightarrow> RunClaim \<Rightarrow> bool" where
  "runVouched orbit api i c \<longleftrightarrow> apiMint api i = None \<and> apiRepo api i (''/repos/'' @ rcRepoSlug c) = RestGot False
     \<and> (\<exists>run pr. apiRun api i (''/repos/'' @ rcRepoSlug c @ ''/actions/runs/'' @ itoa (rcRunID c)) = RestGot run
        \<and> apiPull api i (''/repos/'' @ rcRepoSlug c @ ''/pulls/'' @ itoa (rcPRNumber c)) = RestGot pr
        \<and> equalFold orbit (runRepository run) (rcRepoSlug c) \<and> runEvent run = ''pull_request'' \<and> runStatus run = ''in_progress''
        \<and> equalFold orbit (runHeadSHA run) (rcHeadSHA c) \<and> runAttempt run = rcRunAttempt c
        \<and> pullState pr = ''open'' \<and> equalFold orbit (pullHeadSHA pr) (rcHeadSHA c) \<and> equalFold orbit (pullHeadRepo pr) (rcHeadRepo c))"

lemma getAsInstallation_got: "getAsInstallation mint get i path = ApiGot x \<longleftrightarrow> mint i = None \<and> get i path = RestGot x"
  by (auto simp: getAsInstallation_def split: option.split restAnswer.split)

lemma checkRun_ok:
  "checkRun orbit c a = None \<longleftrightarrow> (\<exists>run. a = ApiGot run \<and> equalFold orbit (runRepository run) (rcRepoSlug c) \<and> runEvent run = ''pull_request''
     \<and> runStatus run = ''in_progress'' \<and> equalFold orbit (runHeadSHA run) (rcHeadSHA c) \<and> runAttempt run = rcRunAttempt c)"
  by (auto simp: checkRun_def split: apiAnswer.split)

lemma checkPull_ok:
  "checkPull orbit c a = None \<longleftrightarrow> (\<exists>pr. a = ApiGot pr \<and> pullState pr = ''open'' \<and> equalFold orbit (pullHeadSHA pr) (rcHeadSHA c)
     \<and> equalFold orbit (pullHeadRepo pr) (rcHeadRepo c))"
  by (auto simp: checkPull_def split: apiAnswer.split)

lemma VerifyRunClaim_ok: "VerifyRunClaim orbit api i c = None \<longleftrightarrow> runVouched orbit api i c"
proof -
  let ?get = "getAsInstallation (apiMint api)"
  have "runVouched orbit api i c \<longleftrightarrow> ?get (apiRepo api) i (''/repos/'' @ rcRepoSlug c) = ApiGot False
    \<and> checkRun orbit c (?get (apiRun api) i (''/repos/'' @ rcRepoSlug c @ ''/actions/runs/'' @ itoa (rcRunID c))) = None
    \<and> checkPull orbit c (?get (apiPull api) i (''/repos/'' @ rcRepoSlug c @ ''/pulls/'' @ itoa (rcPRNumber c))) = None"
    unfolding runVouched_def checkRun_ok checkPull_ok getAsInstallation_got by blast
  then show ?thesis unfolding VerifyRunClaim_def by (auto split: apiAnswer.split option.split)
qed

text \<open>
  A server's tokenless uploads, one after another, with anything happening to the store in between,
  and to the limiter, which other requests share. The log keeps when each was made, what GitHub
  answered then and the store it met.
\<close>

record runWorld =
  rwState :: tokenlessState
  rwStore :: memStore
  rwNow :: time
  rwLog :: "(time \<times> githubAPI \<times> memStore) list"

inductive runStep :: "forgesConfig \<Rightarrow> (int \<Rightarrow> int \<Rightarrow> bool) \<Rightarrow> runWorld \<Rightarrow> runWorld \<Rightarrow> bool" for cfg orbit where
  run_attempt: "rwNow rw \<le> now \<Longrightarrow> authTokenless cfg (VerifyRunClaim orbit api) now form (rwState rw, rwStore rw) = (res, k, s)
    \<Longrightarrow> runStep cfg orbit rw \<lparr>rwState = k, rwStore = s, rwNow = now, rwLog = (now, api, rwStore rw) # rwLog rw\<rparr>"
| run_other: "rwNow rw \<le> now \<Longrightarrow> runStep cfg orbit rw (rw\<lparr>rwState := (rwState rw)\<lparr>tkLimiter := l\<rparr>, rwStore := s, rwNow := now\<rparr>)"

definition answeredAt :: "(int \<Rightarrow> int \<Rightarrow> bool) \<Rightarrow> (time \<times> githubAPI \<times> memStore) list \<Rightarrow> RunClaim \<Rightarrow> time \<Rightarrow> bool" where
  "answeredAt orbit hist c t \<longleftrightarrow> (\<exists>api s ws. (t, api, s) \<in> set hist \<and> WorkspaceFor (rcRepoSlug c) ''github'' s = Some ws
     \<and> wsGitHubInstallationID ws \<noteq> 0 \<and> runVouched orbit api (wsGitHubInstallationID ws) c)"

definition verdictsAnswered :: "(int \<Rightarrow> int \<Rightarrow> bool) \<Rightarrow> runWorld \<Rightarrow> bool" where
  "verdictsAnswered orbit rw \<longleftrightarrow> (\<forall>c v. map_of (tkVerdicts (rwState rw)) c = Some v \<longrightarrow> cvRejected v = None
     \<longrightarrow> answeredAt orbit (rwLog rw) c (cvUntil v - claimVerdictTTL) \<and> cvUntil v - claimVerdictTTL \<le> rwNow rw)"

lemma verdictPut_get:
  "map_of (verdictPut c r now m) c' = Some v \<Longrightarrow> (c' = c \<and> v = \<lparr>cvRejected = r, cvUntil = now + claimVerdictTTL\<rparr>) \<or> map_of m c' = Some v"
  by (auto simp: verdictPut_def update_conv' split: if_splits)

text \<open>What one attempt leaves in the verdicts, and on what an admitted one rested.\<close>

lemma readClaim_not_slug: "readClaim form = Inr c \<Longrightarrow> rcRepoSlug c = form ''repo''"
  by (auto simp: readClaim_def split: if_splits option.splits)

lemma askGitHub_ok:
  assumes "askGitHub verify now ws c repo (k, s) = (res, k', s')"
  shows "res = Inr (tc, r) \<Longrightarrow> verify (wsGitHubInstallationID ws) c = None \<and> r = repo \<and> tc = \<lparr>tcRunID = rcRunID c, tcRunAttempt = rcRunAttempt c\<rparr>"
    "map_of (tkVerdicts k') c' = Some v \<Longrightarrow> cvRejected v = None
       \<Longrightarrow> map_of (tkVerdicts k) c' = Some v \<or> (c' = c \<and> cvUntil v = now + claimVerdictTTL \<and> verify (wsGitHubInstallationID ws) c = None)"
  using assms
  by (auto simp: askGitHub_def Let_def dest!: verdictPut_get split: option.splits claimError.splits connectError.splits)

lemma authTokenless_cases:
  assumes "authTokenless cfg verify now form (k, s) = (res, k', s')"
  obtains (refused) e where "res = Inl e" "tkVerdicts k' = tkVerdicts k" "s' = s"
  | (remembered) c repo v where "readClaim form = Inr c" "RepoBySlug ''github'' (rcRepoSlug c) s = Inr repo" "rpForge repo = ''github''"
      "verdictGet (c\<lparr>rcRepoSlug := rpSlug repo\<rparr>) now (tkVerdicts k) = Some v" "cvRejected v = None"
      "res = Inr (\<lparr>tcRunID = rcRunID c, tcRunAttempt = rcRunAttempt c\<rparr>, repo)" "k' = k" "s' = s"
  | (asked) c repo ws l where "readClaim form = Inr c" "RepoBySlug ''github'' (rcRepoSlug c) s = Inr repo" "rpForge repo = ''github''"
      "WorkspaceFor (rpSlug repo) ''github'' s = Some ws" "wsGitHubInstallationID ws \<noteq> 0"
      "askGitHub verify now ws (c\<lparr>rcRepoSlug := rpSlug repo\<rparr>) repo (k\<lparr>tkLimiter := l\<rparr>, s) = (res, k', s')"
proof -
  show ?thesis
  proof (cases "readClaim form")
    case (Inl e)
    then show ?thesis using assms refused by (auto simp: authTokenless_def split: if_splits)
  next
    case (Inr c)
    show ?thesis
    proof (cases "RepoBySlug ''github'' (rcRepoSlug c) s")
      case (Inl e)
      then show ?thesis using assms refused Inr by (auto simp: authTokenless_def split: if_splits)
    next
      case repo: (Inr repo)
      note run = assms [unfolded authTokenless_def Let_def prod.case Inr sum.case repo]
      show ?thesis
      proof (cases "form ''run_id'' = [] \<or> \<not> fcGitHubApp cfg \<or> rpForge repo \<noteq> ''github''")
        case True
        then show ?thesis using run refused by (auto split: if_splits)
      next
        case False
        show ?thesis
        proof (cases "WorkspaceFor (rpSlug repo) ''github'' s")
          case None
          then show ?thesis using run refused False by auto
        next
          case (Some ws)
          show ?thesis
          proof (cases "wsGitHubInstallationID ws = 0")
            case True
            then show ?thesis using run refused False Some by auto
          next
            case inst: False
            show ?thesis
            proof (cases "verdictGet (c\<lparr>rcRepoSlug := rpSlug repo\<rparr>) now (tkVerdicts k)")
              case None
              obtain ok l where l: "limiterAllow ''github'' (rpSlug repo) now (tkLimiter k) = (ok, l)" by fastforce
              show ?thesis
              proof (cases ok)
                case True
                then show ?thesis using run False Some inst None l by (intro asked [OF Inr repo _ Some inst]) auto
              next
                case no: False
                then show ?thesis using run refused False Some inst None l by auto
              qed
            next
              case v: (Some v)
              show ?thesis
              proof (cases "cvRejected v")
                case None
                then show ?thesis using run False Some inst v by (intro remembered [OF Inr repo _ v None]) auto
              next
                case (Some r)
                then show ?thesis using run refused False \<open>WorkspaceFor (rpSlug repo) ''github'' s = Some ws\<close> inst v by auto
              qed
            qed
          qed
        qed
      qed
    qed
  qed
qed

lemma answeredAt_more: "answeredAt orbit hist c t \<Longrightarrow> answeredAt orbit (x # hist) c t"
  by (auto simp: answeredAt_def)

lemma verdictsAnswered_step:
  assumes "runStep cfg orbit rw rw'" and "verdictsAnswered orbit rw"
  shows "verdictsAnswered orbit rw'"
  using assms
proof (cases rule: runStep.cases)
  case (run_attempt now api form res k s)
  have old: "answeredAt orbit (rwLog rw') c (cvUntil v - claimVerdictTTL) \<and> cvUntil v - claimVerdictTTL \<le> rwNow rw'"
    if "map_of (tkVerdicts (rwState rw)) c = Some v" "cvRejected v = None" for c v
  proof -
    have "answeredAt orbit (rwLog rw) c (cvUntil v - claimVerdictTTL) \<and> cvUntil v - claimVerdictTTL \<le> rwNow rw"
      using assms(2) that unfolding verdictsAnswered_def by blast
    then show ?thesis using run_attempt(1,2) answeredAt_more by simp
  qed
  show ?thesis using run_attempt(3)
  proof (cases rule: authTokenless_cases)
    case (refused e)
    then show ?thesis using old run_attempt(1) by (auto simp: verdictsAnswered_def)
  next
    case (remembered c repo v)
    then show ?thesis using old run_attempt(1) by (auto simp: verdictsAnswered_def)
  next
    case (asked c repo ws l)
    let ?c = "c\<lparr>rcRepoSlug := rpSlug repo\<rparr>"
    have new: "answeredAt orbit (rwLog rw') ?c now" if "VerifyRunClaim orbit api (wsGitHubInstallationID ws) ?c = None"
      using that asked(4,5) run_attempt(1) by (auto simp: answeredAt_def VerifyRunClaim_ok)
    show ?thesis unfolding verdictsAnswered_def
    proof (intro allI impI)
      fix c' v assume v: "map_of (tkVerdicts (rwState rw')) c' = Some v" "cvRejected v = None"
      have "map_of (tkVerdicts (rwState rw)) c' = Some v
        \<or> (c' = ?c \<and> cvUntil v = now + claimVerdictTTL \<and> VerifyRunClaim orbit api (wsGitHubInstallationID ws) ?c = None)"
        using askGitHub_ok(2) [OF asked(6), of c' v] v run_attempt(1) by simp
      then show "answeredAt orbit (rwLog rw') c' (cvUntil v - claimVerdictTTL) \<and> cvUntil v - claimVerdictTTL \<le> rwNow rw'"
        using old v(2) new run_attempt(1) by auto
    qed
  qed
next
  case (run_other now l s)
  then show ?thesis using assms(2) by (force simp: verdictsAnswered_def)
qed

lemma verdictsAnswered_run: "(runStep cfg orbit)\<^sup>*\<^sup>* rw rw' \<Longrightarrow> verdictsAnswered orbit rw \<Longrightarrow> verdictsAnswered orbit rw'"
  by (induction rule: rtranclp_induct) (auto intro: verdictsAnswered_step)

text \<open>
  C15: an upload without a token is let in only on GitHub's word. It names a repo the server
  tracks, and within the last five minutes GitHub vouched, through the installation of the repo's
  own workspace, for exactly the claimed run, attempt, pull request, commit and head repo, with the
  repo public, the run in progress and the pull request open.
\<close>

theorem tokenless_claim_vouched:
  assumes "(runStep cfg orbit)\<^sup>*\<^sup>* rw0 rw" and "tkVerdicts (rwState rw0) = []" and "rwNow rw \<le> now"
    and "authTokenless cfg (VerifyRunClaim orbit api) now form (rwState rw, rwStore rw) = (Inr (tc, repo), rest)"
  shows "\<exists>c t. readClaim form = Inr c \<and> RepoBySlug ''github'' (form ''repo'') (rwStore rw) = Inr repo
    \<and> tc = \<lparr>tcRunID = rcRunID c, tcRunAttempt = rcRunAttempt c\<rparr> \<and> t \<le> now \<and> now \<le> t + claimVerdictTTL
    \<and> answeredAt orbit ((now, api, rwStore rw) # rwLog rw) (c\<lparr>rcRepoSlug := rpSlug repo\<rparr>) t"
proof -
  have "verdictsAnswered orbit rw0" using assms(2) by (simp add: verdictsAnswered_def)
  then have inv: "verdictsAnswered orbit rw" using verdictsAnswered_run [OF assms(1)] by blast
  obtain k s where rest: "rest = (k, s)" by (cases rest)
  show ?thesis using assms(4) [unfolded rest]
  proof (cases rule: authTokenless_cases)
    case (refused e)
    then show ?thesis by simp
  next
    case (remembered c repo' v)
    have v: "map_of (tkVerdicts (rwState rw)) (c\<lparr>rcRepoSlug := rpSlug repo'\<rparr>) = Some v" "now \<le> cvUntil v"
      using remembered(4) by (auto simp: verdictGet_def split: option.splits if_splits)
    then have "answeredAt orbit (rwLog rw) (c\<lparr>rcRepoSlug := rpSlug repo'\<rparr>) (cvUntil v - claimVerdictTTL)" "cvUntil v - claimVerdictTTL \<le> rwNow rw"
      using inv remembered(5) unfolding verdictsAnswered_def by blast+
    then show ?thesis using remembered v(2) assms(3) readClaim_not_slug [OF remembered(1)]
      by (intro exI [of _ c] exI [of _ "cvUntil v - claimVerdictTTL"]) (auto intro: answeredAt_more)
  next
    case (asked c repo' ws l)
    have ok: "VerifyRunClaim orbit api (wsGitHubInstallationID ws) (c\<lparr>rcRepoSlug := rpSlug repo'\<rparr>) = None" "repo = repo'"
      "tc = \<lparr>tcRunID = rcRunID c, tcRunAttempt = rcRunAttempt c\<rparr>"
      using askGitHub_ok(1) [OF asked(6)] by auto
    have "answeredAt orbit ((now, api, rwStore rw) # rwLog rw) (c\<lparr>rcRepoSlug := rpSlug repo'\<rparr>) now"
      using ok(1) asked(4,5) by (auto simp: answeredAt_def VerifyRunClaim_ok)
    then show ?thesis using asked ok readClaim_not_slug [OF asked(1)]
      by (intro exI [of _ c] exI [of _ now]) (auto simp: claimVerdictTTL_def)
  qed
qed

text \<open>A fork's pull request, vouched for once; a minute later GitHub is down and the answer still stands.\<close>

definition forkStore :: memStore where
  "forkStore = snd (CreateRepo 1 (zeroRepo\<lparr>rpForge := ''github'', rpSlug := ''acme/app'', rpToken := ''t''\<rparr>)
     (snd (CreateWorkspace 1 (zeroWorkspace\<lparr>wsForge := ''github'', wsPrefix := ''acme'', wsToken := ''w'', wsGitHubInstallationID := 7\<rparr>) newStore)))"

definition forkForm :: "string \<Rightarrow> string" where
  "forkForm k = (case map_of [(''repo'', ''acme/app''), (''commit'', ''c0ffee''), (''head_repo'', ''eve/app''), (''run_id'', ''31''),
     (''run_attempt'', ''1''), (''pr_id'', ''5''), (''part'', ''unit'')] k of None \<Rightarrow> [] | Some v \<Rightarrow> v)"

definition forkAPI :: githubAPI where
  "forkAPI = \<lparr>apiMint = (\<lambda>_. None), apiRepo = (\<lambda>_ _. RestGot False),
     apiRun = (\<lambda>_ _. RestGot \<lparr>runStatus = ''in_progress'', runEvent = ''pull_request'', runHeadSHA = ''C0FFEE'', runAttempt = 1, runRepository = ''acme/app''\<rparr>),
     apiPull = (\<lambda>_ _. RestGot \<lparr>pullState = ''open'', pullHeadSHA = ''c0ffee'', pullHeadRepo = ''eve/app''\<rparr>)\<rparr>"

definition forkStart :: runWorld where
  "forkStart = \<lparr>rwState = \<lparr>tkLimiter = newTokenlessLimiter, tkVerdicts = []\<rparr>, rwStore = forkStore, rwNow = 0, rwLog = []\<rparr>"

definition forkTry :: "githubAPI \<Rightarrow> time \<Rightarrow> runWorld \<Rightarrow> (tokenlessRefusal + tokenlessClaim \<times> Repo) \<times> tokenlessState \<times> memStore" where
  "forkTry api now rw = authTokenless \<lparr>fcGitHubApp = True, fcGrants = []\<rparr> (VerifyRunClaim (\<lambda>_ _. False) api) now forkForm (rwState rw, rwStore rw)"

definition forkNext :: runWorld where
  "forkNext = (let (_, k, s) = forkTry forkAPI 1 forkStart in \<lparr>rwState = k, rwStore = s, rwNow = 1, rwLog = [(1, forkAPI, rwStore forkStart)]\<rparr>)"

definition downAPI :: githubAPI where
  "downAPI = forkAPI\<lparr>apiMint := (\<lambda>_. Some ForgeTrouble)\<rparr>"

theorem tokenless_claim_vouched_witness:
  "\<exists>repo rest c t. forkTry downAPI (60 * 1000000000) forkNext = (Inr (\<lparr>tcRunID = 31, tcRunAttempt = 1\<rparr>, repo), rest)
    \<and> readClaim forkForm = Inr c \<and> answeredAt (\<lambda>_ _. False) ((60 * 1000000000, downAPI, rwStore forkNext) # rwLog forkNext) (c\<lparr>rcRepoSlug := rpSlug repo\<rparr>) t"
proof -
  obtain res k s where first: "forkTry forkAPI 1 forkStart = (res, k, s)" by (metis surj_pair)
  then have nextw: "forkNext = \<lparr>rwState = k, rwStore = s, rwNow = 1, rwLog = [(1, forkAPI, rwStore forkStart)]\<rparr>" by (simp add: forkNext_def)
  have "runStep \<lparr>fcGitHubApp = True, fcGrants = []\<rparr> (\<lambda>_ _. False) forkStart forkNext"
    using run_attempt [of forkStart 1 _ _ forkAPI forkForm res k s] first unfolding nextw by (simp add: forkTry_def forkStart_def)
  then have reach: "(runStep \<lparr>fcGitHubApp = True, fcGrants = []\<rparr> (\<lambda>_ _. False))\<^sup>*\<^sup>* forkStart forkNext" by blast
  have "(case fst (forkTry downAPI (60 * 1000000000) forkNext) of Inr (tc, _) \<Rightarrow> tc = \<lparr>tcRunID = 31, tcRunAttempt = 1\<rparr> | Inl _ \<Rightarrow> False)" by code_simp
  then obtain repo rest where again: "forkTry downAPI (60 * 1000000000) forkNext = (Inr (\<lparr>tcRunID = 31, tcRunAttempt = 1\<rparr>, repo), rest)"
    by (cases "forkTry downAPI (60 * 1000000000) forkNext") (auto split: sum.splits)
  have empty: "tkVerdicts (rwState forkStart) = []" by (simp add: forkStart_def)
  have now: "rwNow forkNext \<le> 60 * 1000000000" by (simp add: nextw)
  show ?thesis using tokenless_claim_vouched [OF reach empty now again [unfolded forkTry_def]] again by blast
qed

end
