(* ===== verification/Oidc.thy ===== *)
theory Oidc
  imports GoFold
begin

text \<open>
  The verifier of OIDC identity tokens, \<open>internal/oidc/oidc.go\<close>: the trusted issuers, the cached
  signing keys of each, and the checks a token passes in order. Arguments stand for what is not in
  the repository: decoding JSON, checking an RSA signature over SHA-256, and what a URL answers.
\<close>

section \<open>Base64\<close>

definition b64Value :: "char \<Rightarrow> int option" where
  "b64Value c =
     (let b = byteOf c in
      if 65 \<le> b \<and> b \<le> 90 then Some (b - 65) else if 97 \<le> b \<and> b \<le> 122 then Some (b - 71)
      else if 48 \<le> b \<and> b \<le> 57 then Some (b + 4) else if c = CHR ''-'' then Some 62 else if c = CHR ''_'' then Some 63 else None)"

text \<open>
  \<open>base64.RawURLEncoding.DecodeString\<close>: line breaks are skipped, a group of one digit is corrupt,
  and the bits a short last group has too many are dropped unread.
\<close>

fun b64Groups :: "int list \<Rightarrow> string option" where
  "b64Groups [] = Some []"
| "b64Groups [a] = None"
| "b64Groups [a, b] = Some [char_of (a * 4 + b div 16)]"
| "b64Groups [a, b, c] = Some [char_of (a * 4 + b div 16), char_of (b mod 16 * 16 + c div 4)]"
| "b64Groups (a # b # c # d # ds) =
     map_option (\<lambda>r. char_of (a * 4 + b div 16) # char_of (b mod 16 * 16 + c div 4) # char_of (c mod 4 * 64 + d) # r) (b64Groups ds)"

definition rawURLDecode :: "string \<Rightarrow> string option" where
  "rawURLDecode s =
     (let ds = map b64Value (filter (\<lambda>c. c \<noteq> CHR 0x0D \<and> c \<noteq> CHR 0x0A) s)
      in if list_ex (\<lambda>d. d = None) ds then None else b64Groups (map the ds))"

definition b64 :: "string \<Rightarrow> string option" where
  "b64 s = rawURLDecode (trimRightSet {CHR ''=''} s)"

section \<open>Tokens and keys\<close>

text \<open>The \<open>aud\<close> claim: absent, a string (or null, which reads as an empty one), strings, or anything else.\<close>

datatype audienceClaim = AudMissing | AudOne string | AudMany "string list" | AudOther

record tokenHeader =
  thAlg :: string
  thKID :: string

record tokenClaims =
  clIssuer :: string
  clSubject :: string
  clAudience :: audienceClaim
  clExpiry :: int
  clIssuedAt :: int
  clNotBefore :: int

record Token =
  tokIssuer :: string
  tokSubject :: string
  tokAudience :: "string list"
  tokClaim :: "string \<Rightarrow> string"

record rsaKey =
  rkN :: int
  rkE :: int

record jwk =
  jwKty :: string
  jwKid :: string
  jwN :: string
  jwE :: string

record keySet =
  ksByKID :: "(string, rsaKey) gomap"
  ksFetchedAt :: time

type_synonym keyCache = "(string, keySet) gomap"

record Verifier =
  vfAudience :: string
  vfIssuers :: "(string, string) gomap"

text \<open>What the verifier's surroundings answer: JSON documents, signatures, URLs.\<close>

record oidcEnv =
  oeHeader :: "string \<Rightarrow> tokenHeader option"
  oePayload :: "string \<Rightarrow> tokenClaims option"
  oeAll :: "string \<Rightarrow> (string \<Rightarrow> string) option"
  oeSigned :: "rsaKey \<Rightarrow> string \<Rightarrow> string \<Rightarrow> bool"
  oeDiscovery :: "string \<Rightarrow> (string \<times> string) option"
  oeJwks :: "string \<Rightarrow> jwk list option"

datatype oidcError = ErrUnknownIssuer string | ErrBadAudience | ErrInvalidToken string | OidcTransient

definition trimSlashes :: "string \<Rightarrow> string" where
  "trimSlashes s = trimRightSet {CHR ''/''} s"

definition NewVerifier :: "string \<Rightarrow> string list \<Rightarrow> Verifier" where
  "NewVerifier audience issuers =
     \<lparr>vfAudience = trimSlashes audience, vfIssuers = foldl (\<lambda>m iss. AList.update (trimSlashes iss) (trimSlashes iss) m) [] issuers\<rparr>"

definition resolveIssuer :: "Verifier \<Rightarrow> (string \<Rightarrow> string option) option \<Rightarrow> string \<Rightarrow> string option" where
  "resolveIssuer v resolve issuer =
     (case map_of (vfIssuers v) issuer of
        Some canonical \<Rightarrow> Some canonical
      | None \<Rightarrow> (case resolve of None \<Rightarrow> None | Some f \<Rightarrow> f issuer))"

definition splitToken :: "string \<Rightarrow> oidcError + string \<times> string \<times> string \<times> string" where
  "splitToken raw =
     (case splitByte CHR ''.'' raw of
        [h, p, sg] \<Rightarrow>
          (case b64 h of
             None \<Rightarrow> Inl (ErrInvalidToken ''header is not base64url'')
           | Some header \<Rightarrow> (case b64 p of
               None \<Rightarrow> Inl (ErrInvalidToken ''payload is not base64url'')
             | Some payload \<Rightarrow> (case b64 sg of
                 None \<Rightarrow> Inl (ErrInvalidToken ''signature is not base64url'')
               | Some sig \<Rightarrow> Inr (header, payload, h @ ''.'' @ p, sig))))
      | _ \<Rightarrow> Inl (ErrInvalidToken ''want three dot-separated segments''))"

definition audiences :: "audienceClaim \<Rightarrow> oidcError + string list" where
  "audiences a =
     (case a of
        AudMissing \<Rightarrow> Inl ErrBadAudience
      | AudOne one \<Rightarrow> Inr [one]
      | AudMany many \<Rightarrow> Inr many
      | AudOther \<Rightarrow> Inl (ErrInvalidToken ''audience is neither string nor array''))"

section \<open>Signing keys\<close>

definition bigEndian :: "string \<Rightarrow> int" where
  "bigEndian bs = foldl (\<lambda>n b. n * 256 + byteOf b) 0 bs"

text \<open>\<open>e<<8 | int(b)\<close> on Go's 64-bit \<open>int\<close>.\<close>

definition exponentOf :: "string \<Rightarrow> int" where
  "exponentOf bs = foldl (\<lambda>e b. wrap64 (e * 256) + byteOf b) 0 bs"

definition rsaKeyOf :: "string \<Rightarrow> string \<Rightarrow> rsaKey option" where
  "rsaKeyOf nB64 eB64 =
     (case b64 nB64 of
        None \<Rightarrow> None
      | Some nBytes \<Rightarrow> (case b64 eB64 of
          None \<Rightarrow> None
        | Some eBytes \<Rightarrow> if exponentOf eBytes = 0 then None else Some \<lparr>rkN = bigEndian nBytes, rkE = exponentOf eBytes\<rparr>))"

definition addKey :: "(string, rsaKey) gomap \<Rightarrow> jwk \<Rightarrow> (string, rsaKey) gomap" where
  "addKey m k =
     (if jwKty k \<noteq> ''RSA'' \<or> jwKid k = [] then m
      else case rsaKeyOf (jwN k) (jwE k) of None \<Rightarrow> m | Some key \<Rightarrow> AList.update (jwKid k) key m)"

definition fetchKeys :: "oidcEnv \<Rightarrow> time \<Rightarrow> string \<Rightarrow> keySet option" where
  "fetchKeys env now issuer =
     (case oeDiscovery env (issuer @ ''/.well-known/openid-configuration'') of
        None \<Rightarrow> None
      | Some (claimed, jwksURI) \<Rightarrow>
          if trimSlashes claimed \<noteq> issuer then None
          else if jwksURI = [] then None
          else (case oeJwks env jwksURI of
              None \<Rightarrow> None
            | Some ks \<Rightarrow> (let byKID = foldl addKey [] ks
                in if length byKID = 0 then None else Some \<lparr>ksByKID = byKID, ksFetchedAt = now\<rparr>)))"

definition refetchThrottle :: time where
  "refetchThrottle = 60 * 1000000000"

definition cachedKey :: "time \<Rightarrow> string \<Rightarrow> string \<Rightarrow> keyCache \<Rightarrow> rsaKey option \<times> bool" where
  "cachedKey now issuer kid m =
     (case map_of m issuer of
        None \<Rightarrow> (None, False)
      | Some ks \<Rightarrow> (case map_of (ksByKID ks) kid of
          Some key \<Rightarrow> (Some key, True)
        | None \<Rightarrow> (None, now - ksFetchedAt ks < refetchThrottle)))"

definition publicKey :: "oidcEnv \<Rightarrow> time \<Rightarrow> string \<Rightarrow> string \<Rightarrow> keyCache \<Rightarrow> (oidcError + rsaKey) \<times> keyCache" where
  "publicKey env now issuer kid m =
     (if kid = [] then (Inl (ErrInvalidToken ''no key id in header''), m)
      else case cachedKey now issuer kid m of
        (Some key, _) \<Rightarrow> (Inr key, m)
      | (None, fresh) \<Rightarrow>
          if fresh then (Inl (ErrInvalidToken ''unknown key id''), m)
          else (case fetchKeys env now issuer of
              None \<Rightarrow> (Inl OidcTransient, m)
            | Some ks \<Rightarrow>
                (case map_of (ksByKID ks) kid of Some key \<Rightarrow> Inr key | None \<Rightarrow> Inl (ErrInvalidToken ''unknown key id''),
                 AList.update issuer ks m)))"

section \<open>Verifying a token\<close>

text \<open>
  \<open>time.Unix(n, 0).Add(d)\<close> for a whole number of seconds \<open>d\<close>, in seconds since 1970: Go counts them
  from the year 1 in an \<open>int64\<close>, where the first sum wraps around and the second stops at the ends.
\<close>

definition unixToInternal :: int where
  "unixToInternal = 62135596800"

definition unixPlus :: "int \<Rightarrow> int \<Rightarrow> int" where
  "unixPlus n d = min maxInt64 (max minInt64 (wrap64 (n + unixToInternal) + d)) - unixToInternal"

definition leewaySeconds :: int where
  "leewaySeconds = 60"

definition second :: time where
  "second = 1000000000"

definition windowError :: "time \<Rightarrow> tokenClaims \<Rightarrow> oidcError option" where
  "windowError now c =
     (if clExpiry c = 0 then Some (ErrInvalidToken ''token has no expiry'')
      else if now > unixPlus (clExpiry c) leewaySeconds * second then Some (ErrInvalidToken ''token expired'')
      else if clNotBefore c \<noteq> 0 \<and> now < unixPlus (clNotBefore c) (- leewaySeconds) * second then Some (ErrInvalidToken ''token not yet valid'')
      else if clIssuedAt c \<noteq> 0 \<and> now < unixPlus (clIssuedAt c) (- leewaySeconds) * second then Some (ErrInvalidToken ''token issued in the future'')
      else None)"

text \<open>From the signature on.\<close>

definition checkSigned :: "Verifier \<Rightarrow> oidcEnv \<Rightarrow> time \<Rightarrow> string \<Rightarrow> tokenClaims \<Rightarrow> string \<Rightarrow> string \<Rightarrow> string \<Rightarrow> rsaKey \<Rightarrow> oidcError + Token" where
  "checkSigned v env now canonical c payload inp sig key =
     (if \<not> oeSigned env key inp sig then Inl (ErrInvalidToken ''signature does not verify'')
      else case windowError now c of
        Some e \<Rightarrow> Inl e
      | None \<Rightarrow> (case audiences (clAudience c) of
          Inl e \<Rightarrow> Inl e
        | Inr auds \<Rightarrow>
            if \<not> list_ex (\<lambda>aud. trimSlashes aud = vfAudience v) auds then Inl ErrBadAudience
            else (case oeAll env payload of
                None \<Rightarrow> Inl (ErrInvalidToken ''payload is not JSON'')
              | Some claims \<Rightarrow> Inr \<lparr>tokIssuer = canonical, tokSubject = clSubject c, tokAudience = auds, tokClaim = claims\<rparr>)))"

definition Verify :: "Verifier \<Rightarrow> (string \<Rightarrow> string option) option \<Rightarrow> oidcEnv \<Rightarrow> time \<Rightarrow> string \<Rightarrow> keyCache \<Rightarrow> (oidcError + Token) \<times> keyCache" where
  "Verify v resolve env now raw m =
     (case splitToken raw of
        Inl e \<Rightarrow> (Inl e, m)
      | Inr (header, payload, inp, sig) \<Rightarrow>
          (case oeHeader env header of
             None \<Rightarrow> (Inl (ErrInvalidToken ''header is not JSON''), m)
           | Some hdr \<Rightarrow>
               if thAlg hdr \<noteq> ''RS256'' then (Inl (ErrInvalidToken ''unsupported signing algorithm''), m)
               else (case oePayload env payload of
                   None \<Rightarrow> (Inl (ErrInvalidToken ''payload is not JSON''), m)
                 | Some c \<Rightarrow> (case resolveIssuer v resolve (trimSlashes (clIssuer c)) of
                     None \<Rightarrow> (Inl (ErrUnknownIssuer (clIssuer c)), m)
                   | Some canonical \<Rightarrow> (case publicKey env now canonical (thKID hdr) m of
                       (Inl e, m) \<Rightarrow> (Inl e, m)
                     | (Inr key, m) \<Rightarrow> (checkSigned v env now canonical c payload inp sig key, m))))))"

section \<open>Keys come from their issuer\<close>

text \<open>A server's verifications one after another; the log keeps when each was made and what it was answered.\<close>

record oidcWorld =
  owKeys :: keyCache
  owNow :: time
  owLog :: "(time \<times> oidcEnv) list"

inductive oidcStep :: "Verifier \<Rightarrow> oidcWorld \<Rightarrow> oidcWorld \<Rightarrow> bool" for v where
  oidc_verify: "owNow ow \<le> now \<Longrightarrow> Verify v resolve env now raw (owKeys ow) = (res, m)
    \<Longrightarrow> oidcStep v ow \<lparr>owKeys = m, owNow = now, owLog = (now, env) # owLog ow\<rparr>"

text \<open>The issuer, found under its own address and naming itself there, published the key under this id.\<close>

definition publishes :: "oidcEnv \<Rightarrow> string \<Rightarrow> string \<Rightarrow> rsaKey \<Rightarrow> bool" where
  "publishes env issuer kid key \<longleftrightarrow> (\<exists>claimed uri ks k.
       oeDiscovery env (issuer @ ''/.well-known/openid-configuration'') = Some (claimed, uri) \<and> trimSlashes claimed = issuer
     \<and> oeJwks env uri = Some ks \<and> k \<in> set ks \<and> jwKty k = ''RSA'' \<and> jwKid k = kid \<and> rsaKeyOf (jwN k) (jwE k) = Some key)"

definition published :: "(time \<times> oidcEnv) list \<Rightarrow> string \<Rightarrow> string \<Rightarrow> rsaKey \<Rightarrow> bool" where
  "published hist issuer kid key \<longleftrightarrow> (\<exists>(t, env) \<in> set hist. publishes env issuer kid key)"

definition keysPublished :: "(time \<times> oidcEnv) list \<Rightarrow> keyCache \<Rightarrow> bool" where
  "keysPublished hist m \<longleftrightarrow>
     (\<forall>issuer ks kid key. map_of m issuer = Some ks \<longrightarrow> map_of (ksByKID ks) kid = Some key \<longrightarrow> published hist issuer kid key)"

lemma foldl_addKey:
  "map_of (foldl addKey m ks) kid = Some key
     \<Longrightarrow> map_of m kid = Some key \<or> (\<exists>k \<in> set ks. jwKty k = ''RSA'' \<and> jwKid k = kid \<and> rsaKeyOf (jwN k) (jwE k) = Some key)"
proof (induction ks arbitrary: m)
  case (Cons k ks)
  have "map_of (addKey m k) kid = Some key \<Longrightarrow>
      map_of m kid = Some key \<or> (jwKty k = ''RSA'' \<and> jwKid k = kid \<and> rsaKeyOf (jwN k) (jwE k) = Some key)"
    by (auto simp: addKey_def update_conv' split: if_splits option.splits)
  then show ?case using Cons.IH [of "addKey m k"] Cons.prems by auto
qed simp

lemma fetchKeys_published:
  assumes "fetchKeys env now issuer = Some ks" and "map_of (ksByKID ks) kid = Some key"
  shows "publishes env issuer kid key"
proof -
  obtain claimed uri jwks where "oeDiscovery env (issuer @ ''/.well-known/openid-configuration'') = Some (claimed, uri)"
    "trimSlashes claimed = issuer" "oeJwks env uri = Some jwks" "ksByKID ks = foldl addKey [] jwks"
    using assms(1) by (auto simp: fetchKeys_def Let_def split: option.splits if_splits)
  then show ?thesis using foldl_addKey [of "[]" jwks kid key] assms(2) by (auto simp: publishes_def)
qed

lemma published_more: "published hist issuer kid key \<Longrightarrow> published (x # hist) issuer kid key"
  by (auto simp: published_def)

lemma publicKey_published:
  assumes "publicKey env now issuer kid m = (res, m')" and "keysPublished hist m"
  shows "keysPublished ((now, env) # hist) m'" "res = Inr key \<Longrightarrow> published ((now, env) # hist) issuer kid key"
proof -
  have old: "keysPublished ((now, env) # hist) m" using assms(2) published_more by (fastforce simp: keysPublished_def)
  have upd: "keysPublished ((now, env) # hist) (AList.update issuer ks m)" if "fetchKeys env now issuer = Some ks" for ks
    using old fetchKeys_published [OF that]
    by (auto simp: keysPublished_def published_def update_conv' split: if_splits)
  show "keysPublished ((now, env) # hist) m'"
    using assms(1) old upd by (auto simp: publicKey_def split: if_splits prod.splits option.splits)
  show "published ((now, env) # hist) issuer kid key" if "res = Inr key"
  proof (cases "fst (cachedKey now issuer kid m)")
    case None
    then obtain fresh where c: "cachedKey now issuer kid m = (None, fresh)" by (cases "cachedKey now issuer kid m") auto
    have "\<exists>ks. fetchKeys env now issuer = Some ks \<and> map_of (ksByKID ks) kid = Some key"
      using assms(1) that c by (auto simp: publicKey_def split: if_splits option.splits)
    then show ?thesis using fetchKeys_published by (auto simp: published_def)
  next
    case (Some k)
    then obtain ks where "map_of m issuer = Some ks" "map_of (ksByKID ks) kid = Some k"
      by (auto simp: cachedKey_def split: option.splits)
    moreover have "k = key" using assms(1) that Some by (auto simp: publicKey_def split: if_splits prod.splits)
    ultimately show ?thesis using old by (auto simp: keysPublished_def)
  qed
qed

lemma Verify_keys:
  assumes "Verify v resolve env now raw m = (res, m')" and "keysPublished hist m"
  shows "keysPublished ((now, env) # hist) m'"
proof -
  have "keysPublished ((now, env) # hist) m" using assms(2) published_more by (fastforce simp: keysPublished_def)
  then show ?thesis using assms(1) publicKey_published(1) [OF _ assms(2)]
    by (auto simp: Verify_def split: sum.splits prod.splits option.splits if_splits)
qed

lemma oidc_run: "(oidcStep v)\<^sup>*\<^sup>* ow ow' \<Longrightarrow> keysPublished (owLog ow) (owKeys ow) \<Longrightarrow> keysPublished (owLog ow') (owKeys ow')"
  by (induction rule: rtranclp_induct) (auto elim!: oidcStep.cases dest: Verify_keys)

section \<open>An accepted token\<close>

lemma unixPlus_le: "minInt64 \<le> n \<Longrightarrow> unixPlus n 60 \<le> n + 60"
  using zmod_le_nonneg_dividend [of "9223372098990372608 + n" 18446744073709551616]
  by (simp add: unixPlus_def wrap64_def minInt64_def maxInt64_def unixToInternal_def)

lemma unixPlus_exact: "minInt64 \<le> n \<Longrightarrow> n \<le> maxInt64 - unixToInternal \<Longrightarrow> n - 60 \<le> unixPlus n (- 60)"
  by (simp add: unixPlus_def wrap64_def minInt64_def maxInt64_def unixToInternal_def)

lemma windowError_none:
  assumes "windowError now c = None"
  shows "clExpiry c \<noteq> 0" "minInt64 \<le> clExpiry c \<Longrightarrow> now \<le> (clExpiry c + 60) * second"
    "clNotBefore c \<noteq> 0 \<Longrightarrow> minInt64 \<le> clNotBefore c \<Longrightarrow> clNotBefore c \<le> maxInt64 - unixToInternal \<Longrightarrow> (clNotBefore c - 60) * second \<le> now"
  using assms unixPlus_le [of "clExpiry c"] unixPlus_exact [of "clNotBefore c"]
  by (auto simp: windowError_def leewaySeconds_def second_def split: if_splits)

lemma joinWith_Cons: "ws \<noteq> [] \<Longrightarrow> joinWith sep (w # ws) = w @ sep @ joinWith sep ws"
  by (cases ws) auto

lemma splitByte_joined: "joinWith [c] (splitByte c s) = s"
proof (induction s)
  case (Cons x xs)
  show ?case
  proof (cases "splitByte c xs")
    case (Cons w ws)
    then have "joinWith [c] (w # ws) = xs" using Cons.IH by simp
    then show ?thesis using Cons by (cases "ws = []") (auto simp: joinWith_Cons)
  qed simp
qed simp

lemma splitToken_ok:
  assumes "splitToken raw = Inr (header, payload, inp, sig)"
  shows "\<exists>h p sg. splitByte CHR ''.'' raw = [h, p, sg] \<and> b64 h = Some header \<and> b64 p = Some payload \<and> b64 sg = Some sig \<and> inp = h @ ''.'' @ p"
  using assms unfolding splitToken_def by (auto split: list.split_asm option.split_asm)


text \<open>A workflow's token, verified with the key GitHub publishes; a minute later the key is at hand though GitHub is down.\<close>

definition actionsIssuer :: string where
  "actionsIssuer = ''https://token.actions.githubusercontent.com''"

definition actionsEnv :: oidcEnv where
  "actionsEnv = \<lparr>oeHeader = (\<lambda>_. Some \<lparr>thAlg = ''RS256'', thKID = ''k1''\<rparr>),
     oePayload = (\<lambda>_. Some \<lparr>clIssuer = actionsIssuer @ ''/'', clSubject = ''repo:acme/app'', clAudience = AudOne ''https://gocov.dev/'',
       clExpiry = 300, clIssuedAt = 0, clNotBefore = 0\<rparr>),
     oeAll = (\<lambda>_. Some (\<lambda>k. if k = ''repository'' then ''acme/app'' else [])),
     oeSigned = (\<lambda>key _ sig. rkE key = 65537 \<and> sig = ''s''),
     oeDiscovery = (\<lambda>u. if u = actionsIssuer @ ''/.well-known/openid-configuration'' then Some (actionsIssuer, ''jwks'') else None),
     oeJwks = (\<lambda>_. Some [\<lparr>jwKty = ''RSA'', jwKid = ''k1'', jwN = ''AQAB'', jwE = ''AQAB''\<rparr>])\<rparr>"

definition actionsDown :: oidcEnv where
  "actionsDown = actionsEnv\<lparr>oeDiscovery := (\<lambda>_. None)\<rparr>"

definition gocovVerifier :: Verifier where
  "gocovVerifier = NewVerifier ''https://gocov.dev'' [actionsIssuer]"

definition actionsKeys :: keyCache where
  "actionsKeys = snd (Verify gocovVerifier None actionsEnv second ''aA.cA.cw'' [])"


end
