(* ===== verification/Pipeline.thy ===== *)
theory Pipeline
  imports DiffParse Formats Baseline Ignore Publish Visibility PushLease
begin

text \<open>
  The pipeline an upload runs through, \<open>internal/core/accept.go\<close>, and the recomputation of its
  commit's merged report, \<open>internal/core/merge.go\<close>, over the in-memory store and the in-memory
  blob store (\<open>internal/blobstore/memory/memory.go\<close>). What the outside answers (the forge client,
  a cancelled context, a store or blob operation that fails and leaves its store as it was) is a
  record of answers. Timing and logging are left out; the diff is fetched beside the baseline read
  and the blob write, which touch nothing of what it reads.
\<close>

section \<open>The blob store\<close>

type_synonym blobStore = "(string, string) gomap"

definition blobPut :: "string \<Rightarrow> string \<Rightarrow> blobStore \<Rightarrow> blobStore" where
  "blobPut key data b = AList.update key data b"

definition blobGet :: "string \<Rightarrow> blobStore \<Rightarrow> string option" where
  "blobGet key b = map_of b key"

definition blobDelete :: "string \<Rightarrow> blobStore \<Rightarrow> blobStore" where
  "blobDelete key b = AList.delete key b"

section \<open>The merged report of a commit\<close>

record Merged =
  mgUpload :: Upload
  mgDelta :: "rat option"
  mgVerdict :: Verdict
  mgWarnings :: "string list"
  mgParts :: "string list"

definition conflictWarning :: "string list \<Rightarrow> string list" where
  "conflictWarning conflicts =
     (if length conflicts > 0
      then [''diff coverage merged conservatively for '' @ itoa (int (length conflicts))
        @ '' changed file(s) whose parts disagree on their changed lines ('' @ joinWith '', '' conflicts
        @ ''); merged coverage is a safe lower bound'']
      else [])"

text \<open>What the transaction reads: the merged view, and the report row it will save.\<close>

definition mergedView :: "passedReports \<Rightarrow> Repo \<Rightarrow> Upload \<Rightarrow> Upload list \<Rightarrow> storeError + Merged \<times> CommitReport" where
  "mergedView db repo u parts =
     (let names = map upPart parts
      in case mergedCoverage (prPartFiles db) parts of
        Inl e \<Rightarrow> Inl e
      | Inr (covered, tot) \<Rightarrow>
          (let totalPct = Percent covered tot;
               (mergedDiff, conflicts) = diffcovMerge (filter (\<lambda>d. d \<noteq> None) (map upDiffCoverage parts))
           in case deltaBase db repo (upBranch u) (upCommitSHA u) 0 names of
             Inl e \<Rightarrow> Inl e
           | Inr prev \<Rightarrow>
               (case (case prev of None \<Rightarrow> Inr None
                   | Some b \<Rightarrow> (case totalOver b db names of Inl e \<Rightarrow> Inl e | Inr prevPct \<Rightarrow> Inr (Some (f64 (totalPct - prevPct))))) of
                  Inl e \<Rightarrow> Inl e
                | Inr delta \<Rightarrow>
                    (case gateDropBase db repo (upCommitSHA u) names of
                       Inl e \<Rightarrow> Inl e
                     | Inr dropBase \<Rightarrow>
                         (let gate = EvaluateGate (rpGate repo) totalPct dropBase mergedDiff
                          in Inr (\<lparr>mgUpload = zeroUpload\<lparr>upID := upID u, upRepoID := rpID repo, upCommitSHA := upCommitSHA u,
                                    upBranch := upBranch u, upPRID := upPRID u, upTotalPct := totalPct, upCoveredStmts := covered,
                                    upTotalStmts := tot, upDiffCoverage := mergedDiff\<rparr>,
                                  mgDelta = delta, mgVerdict = gate, mgWarnings = conflictWarning conflicts, mgParts = sort names\<rparr>,
                                 zeroCommitReport\<lparr>crRepoID := rpID repo, crCommitSHA := upCommitSHA u, crBranch := upBranch u,
                                    crPRID := upPRID u, crTotalPct := totalPct, crCoveredStmts := covered, crTotalStmts := tot,
                                    crGateFailed := Failed gate, crGateBasePct := dropBase, crGate := Some (rpGate repo),
                                    crDiffCoverage := mergedDiff, crPartCount := int (length parts), crUploadID := upID u\<rparr>))))))"

definition Recompute :: "time \<Rightarrow> Repo \<Rightarrow> Upload \<Rightarrow> memStore \<Rightarrow> (storeError + Merged) \<times> memStore" where
  "Recompute now repo u s =
     WithCommitReportTx (rpID repo) (upCommitSHA u)
       (\<lambda>s. case mergedView (memReads s) repo u (LatestUploadsPerPart (rpID repo) (upCommitSHA u) s) of
          Inl e \<Rightarrow> (Inl e, s)
        | Inr (m, cr) \<Rightarrow> (case UpsertCommitReport now cr s of
              (Inl e, s') \<Rightarrow> (Inl e, s')
            | (Inr _, s') \<Rightarrow> (Inr m, s'))) s"

section \<open>The submission\<close>

record Submission =
  sbRepo :: Repo
  sbCommit :: string
  sbBranch :: string
  sbPRID :: string
  sbPart :: string
  sbFormat :: string
  sbPathPrefix :: string
  sbRaw :: string
  sbProfile :: profile
  sbMeta :: UploadMeta
  sbIgnore :: "string list"

datatype acceptError =
    AcceptPatterns ignoreError
  | AcceptCancelled string
  | AcceptTooCostly
  | AcceptAllIgnored
  | AcceptBaseline storeError
  | AcceptBlob string
  | AcceptSave storeError
  | AcceptMerge storeError

definition maxIgnoreWork :: int where
  "maxIgnoreWork = 2147483648"

text \<open>The loop over the files: the context is asked before every 256th.\<close>

fun ignoreLoop :: "(nat \<Rightarrow> string option) \<Rightarrow> string \<Rightarrow> nat \<Rightarrow> profFile list \<Rightarrow> Rules option \<Rightarrow> profFile list \<Rightarrow> acceptError + Rules option \<times> profFile list" where
  "ignoreLoop ctxErr prefix i [] rules kept = Inr (rules, kept)"
| "ignoreLoop ctxErr prefix i (f # fs) rules kept =
     (case (if i mod 256 = 0 then ctxErr i else None) of
        Some e \<Rightarrow> Inl (AcceptCancelled e)
      | None \<Rightarrow>
          (let (hit, rules) = Match (fPath f) prefix rules;
               kept = (if \<not> hit then kept @ [f] else kept)
           in if TooCostly rules then Inl AcceptTooCostly
              else ignoreLoop ctxErr prefix (i + 1) fs rules kept))"

definition applyIgnore :: "(nat \<Rightarrow> string option) \<Rightarrow> Submission \<Rightarrow> acceptError + (Rules option \<times> int) \<times> Submission" where
  "applyIgnore ctxErr sub =
     (let patterns = rpIgnorePaths (sbRepo sub) @ sbIgnore sub
      in if length patterns = 0 then Inr ((None, 0), sub)
         else case Compile patterns of
           Inl e \<Rightarrow> Inl (AcceptPatterns e)
         | Inr rules \<Rightarrow>
             (case ignoreLoop ctxErr (sbPathPrefix sub) 0 (Files (sbProfile sub)) (Some (Limit maxIgnoreWork rules)) [] of
                Inl e \<Rightarrow> Inl e
              | Inr (rules, kept) \<Rightarrow>
                  (let ignored = int (length (Files (sbProfile sub))) - int (length kept);
                       sub = sub\<lparr>sbProfile := \<lparr>Files = kept\<rparr>\<rparr>
                   in if ignored > 0 \<and> length kept = 0 then Inl AcceptAllIgnored
                      else Inr ((rules, ignored), sub))))"

section \<open>Diff coverage\<close>

text \<open>The forge client's answer to \<open>GetPRDiff\<close>, and what became of the diff.\<close>

datatype diffAnswer = DiffText string | DiffNotImplemented | DiffFetchFailed string

datatype diffStatus =
    DiffNotAsked
  | DiffNoConnection
  | DiffUnsupported
  | DiffFetchError string
  | DiffParseError diffError
  | DiffComputed

fun keepUnmatched :: "(string \<Rightarrow> bool) \<Rightarrow> Rules option \<Rightarrow> string list \<Rightarrow> string list" where
  "keepUnmatched expected rules [] = []"
| "keepUnmatched expected rules (p # ps) =
     (let (hit, rules) = Match p [] rules
      in if hit \<or> \<not> expected p then keepUnmatched expected rules ps else p # keepUnmatched expected rules ps)"

definition diffCoverage :: "diffAnswer option \<Rightarrow> profile \<Rightarrow> string \<Rightarrow> string \<Rightarrow> Rules option \<Rightarrow> diffResult option \<times> diffStatus" where
  "diffCoverage fg prof format pathPrefix ignored =
     (case fg of
        None \<Rightarrow> (None, DiffNoConnection)
      | Some DiffNotImplemented \<Rightarrow> (None, DiffUnsupported)
      | Some (DiffFetchFailed e) \<Rightarrow> (None, DiffFetchError e)
      | Some (DiffText txt) \<Rightarrow>
          (case ParseUnifiedDiff txt of
             Inl e \<Rightarrow> (None, DiffParseError e)
           | Inr newLines \<Rightarrow>
               (let files = map (\<lambda>f. \<lparr>fbPath = fPath f, fbBlocks = fBlocks f\<rparr>) (Files prof);
                    result = Compute files newLines pathPrefix;
                    result = (if length (rUnmatchedFiles result) > 0
                      then result\<lparr>rUnmatchedFiles := keepUnmatched (ExpectsCoverage (fst (formatLookup format)) prof) ignored (rUnmatchedFiles result)\<rparr>
                      else result)
                in (Some result, DiffComputed))))"

section \<open>The rows of an upload\<close>

definition submissionRows :: "Submission \<Rightarrow> string \<Rightarrow> diffResult option \<Rightarrow> Verdict \<Rightarrow> rat option \<Rightarrow> int \<Rightarrow> int \<Rightarrow> Upload \<times> UploadFile list" where
  "submissionRows sub blobKey diff gate gateBase covered tot =
     (zeroUpload\<lparr>upRepoID := rpID (sbRepo sub), upCommitSHA := sbCommit sub, upBranch := sbBranch sub, upPRID := sbPRID sub,
        upFormat := sbFormat sub, upTotalPct := Percent covered tot, upCoveredStmts := covered, upTotalStmts := tot,
        upRawBlobKey := blobKey, upDiffCoverage := diff, upGateFailed := Failed gate, upGateBasePct := gateBase,
        upGate := Some (rpGate (sbRepo sub)), upPathPrefix := sbPathPrefix sub, upPart := sbPart sub, upMeta := sbMeta sub\<rparr>,
      map newUploadFile (Files (sbProfile sub)))"

section \<open>Pushing the result\<close>

text \<open>What the outside answers during one round: no client, a store that cannot be reached, the forge.\<close>

record roundEnv =
  reNow :: time
  reForge :: "forgeAnswers option"
  reClaimErr :: "string option"
  reFinishErr :: bool
  reReloadErr :: "storeError option"
  reCut :: bool

definition pushRound :: "roundEnv \<Rightarrow> forgeAnswers \<Rightarrow> bool \<Rightarrow> string \<Rightarrow> Repo \<Rightarrow> Upload \<Rightarrow> Merged \<Rightarrow> memStore \<Rightarrow> (PushResult \<times> bool) \<times> memStore" where
  "pushRound env fg hosted baseURL repo upload rc s =
     (let rc' = mgUpload rc; pr = (upPRID rc' \<noteq> []);
          surfaces = pushSurfaces fg hosted rc' (reportURL baseURL rc' (int (length (mgParts rc)))) (mgDelta rc) (mgVerdict rc)
      in case reClaimErr env of
        Some e \<Rightarrow> ((fst (roundResult (Inl e) pr surfaces), False), s)
      | None \<Rightarrow>
          (let ((claim, lease), s) = ClaimPush (reNow env) (rpID repo) (upCommitSHA upload) (upID upload) pushLease s;
               (res, pushed) = roundResult (Inr claim) pr surfaces
           in if claim \<noteq> PushClaimed then ((res, False), s)
              else if reFinishErr env then ((res, False), s)
              else let (again, s) = FinishPush (rpID repo) (upCommitSHA upload) (upID upload) lease pushed s
                in ((res, again), s)))"

definition latestMerged :: "time \<Rightarrow> Repo \<Rightarrow> string \<Rightarrow> memStore \<Rightarrow> (storeError + Upload \<times> Merged) \<times> memStore" where
  "latestMerged now repo sha s =
     (let parts = LatestUploadsPerPart (rpID repo) sha s
      in if length parts = 0 then (Inl ErrNotFound, s)
         else let newest = foldl (\<lambda>m u. if upID u > upID m then u else m) (hd parts) (tl parts)
           in case Recompute now repo newest s of
                (Inl e, s) \<Rightarrow> (Inl e, s)
              | (Inr rc', s) \<Rightarrow> (Inr (newest, rc'), s))"

definition maxFollowUpRounds :: nat where
  "maxFollowUpRounds = 20"

text \<open>The rounds after the first, with what happens in each; the result is the rounds made and whether one is owed.\<close>

fun followLoop :: "nat \<Rightarrow> (nat \<Rightarrow> roundEnv) \<Rightarrow> bool \<Rightarrow> string \<Rightarrow> Repo \<Rightarrow> string \<Rightarrow> nat \<Rightarrow> memStore \<Rightarrow> (nat \<times> bool) \<times> memStore" where
  "followLoop 0 envs hosted baseURL repo sha rounds s = ((rounds, True), s)"
| "followLoop (Suc n) envs hosted baseURL repo sha rounds s =
     (let env = envs rounds
      in if reCut env then ((rounds, True), s)
         else case reForge env of
           None \<Rightarrow> ((rounds, True), s)
         | Some fg \<Rightarrow>
             (case (case reReloadErr env of Some e \<Rightarrow> (Inl e, s) | None \<Rightarrow> latestMerged (reNow env) repo sha s) of
                (Inl e, s) \<Rightarrow> ((rounds, True), s)
              | (Inr (latest, rc'), s) \<Rightarrow>
                  (let ((res, again), s) = pushRound env fg hosted baseURL repo latest rc' s
                   in if again then followLoop n envs hosted baseURL repo sha (rounds + 1) s
                      else ((rounds + 1, False), s))))"

definition followUp :: "(nat \<Rightarrow> roundEnv) \<Rightarrow> bool \<Rightarrow> string \<Rightarrow> Repo \<Rightarrow> string \<Rightarrow> memStore \<Rightarrow> (nat \<times> bool) \<times> memStore" where
  "followUp envs hosted baseURL repo sha s = followLoop maxFollowUpRounds envs hosted baseURL repo sha 0 s"

text \<open>\<open>Push\<close>: its result, and whether it starts a follow-up.\<close>

definition Push :: "roundEnv \<Rightarrow> bool \<Rightarrow> string \<Rightarrow> Repo \<Rightarrow> Upload \<Rightarrow> Merged \<Rightarrow> memStore \<Rightarrow> (PushResult \<times> bool) \<times> memStore" where
  "Push env hosted baseURL repo upload rc s =
     (case reForge env of
        None \<Rightarrow> ((everySurface ''skipped'' (upPRID upload \<noteq> []), False), s)
      | Some fg \<Rightarrow> pushRound env fg hosted baseURL repo upload rc s)"

section \<open>Accept\<close>

record acceptEnv =
  aeNow :: time
  aeForges :: "forgesConfig option"
  aeVisibility :: visAnswer
  aeCtx :: "nat \<Rightarrow> string option"
  aeDiff :: diffAnswer
  aeKey :: string
  aeBaseErr :: "storeError option"
  aePutErr :: "string option"
  aeSaveErr :: "storeError option"
  aeDeleteErr :: bool
  aeMergeErr :: "storeError option"
  aeRound :: roundEnv

record pipeState =
  psStore :: memStore
  psBlobs :: blobStore
  psVis :: visState

record AcceptResult =
  arUpload :: Upload
  arMerged :: Merged
  arDiffStatus :: diffStatus
  arPush :: PushResult
  arAgain :: bool

definition blobKeyOf :: "int \<Rightarrow> string \<Rightarrow> string" where
  "blobKeyOf repoID hex = ''profiles/'' @ itoa repoID @ ''/'' @ hex"

definition storeRaw :: "acceptEnv \<Rightarrow> int \<Rightarrow> string \<Rightarrow> blobStore \<Rightarrow> (string + string) \<times> blobStore" where
  "storeRaw env repoID raw b =
     (let key = blobKeyOf repoID (aeKey env)
      in case aePutErr env of Some e \<Rightarrow> (Inl e, b) | None \<Rightarrow> (Inr key, blobPut key raw b))"

text \<open>The visibility ask at the start, while a client is at hand.\<close>

definition acceptVisibility :: "acceptEnv \<Rightarrow> time \<Rightarrow> Repo \<Rightarrow> pipeState \<Rightarrow> Repo \<times> pipeState" where
  "acceptVisibility env ttl repo w =
     (if visibilityFresh (aeNow env) repo (uploadVisibilityTTL ttl) then (repo, w)
      else if reForge (aeRound env) = None then
        (let (repo, s) = closeUnverifiable (aeNow env) (aeForges env) repo (psStore w) in (repo, w\<lparr>psStore := s\<rparr>))
      else (let (repo, v, s) = refreshVisibilityOnce (aeNow env) (aeVisibility env) repo (psVis w, psStore w)
        in (repo, w\<lparr>psStore := s, psVis := v\<rparr>)))"

text \<open>From the stored raw profile on: the rows, the merged report, the push.\<close>

definition acceptStored :: "acceptEnv \<Rightarrow> bool \<Rightarrow> string \<Rightarrow> Submission \<Rightarrow> string \<Rightarrow> diffResult option \<times> diffStatus \<Rightarrow> rat option \<Rightarrow> pipeState
    \<Rightarrow> (acceptError + AcceptResult) \<times> pipeState" where
  "acceptStored env hosted baseURL sub key diff dropBase w =
     (let (covered, tot) = profileCoverage (sbProfile sub);
          gate = EvaluateGate (rpGate (sbRepo sub)) (Percent covered tot) dropBase (fst diff);
          (upload, ufs) = submissionRows sub key (fst diff) gate dropBase covered tot
      in case (case aeSaveErr env of Some e \<Rightarrow> (Inl e, psStore w) | None \<Rightarrow> CreateUpload (aeNow env) upload ufs (psStore w)) of
        (Inl e, s) \<Rightarrow> (Inl (AcceptSave e), w\<lparr>psStore := s, psBlobs := (if aeDeleteErr env then psBlobs w else blobDelete key (psBlobs w))\<rparr>)
      | (Inr upload, s) \<Rightarrow>
          (case (case aeMergeErr env of Some e \<Rightarrow> (Inl e, s) | None \<Rightarrow> Recompute (aeNow env) (sbRepo sub) upload s) of
             (Inl e, s) \<Rightarrow> (Inl (AcceptMerge e), w\<lparr>psStore := s\<rparr>)
           | (Inr rc', s) \<Rightarrow>
               (let ((push, again), s) = Push (aeRound env) hosted baseURL (sbRepo sub) upload rc' s
                in (Inr \<lparr>arUpload = upload, arMerged = rc', arDiffStatus = snd diff, arPush = push, arAgain = again\<rparr>,
                    w\<lparr>psStore := s\<rparr>))))"

definition Accept :: "acceptEnv \<Rightarrow> bool \<Rightarrow> string \<Rightarrow> time \<Rightarrow> Submission \<Rightarrow> pipeState \<Rightarrow> (acceptError + AcceptResult) \<times> pipeState" where
  "Accept env hosted baseURL ttl sub w =
     (let (repo, w) = acceptVisibility env ttl (sbRepo sub) w; sub = sub\<lparr>sbRepo := repo\<rparr>
      in case applyIgnore (aeCtx env) sub of
        Inl e \<Rightarrow> (Inl e, w)
      | Inr ((rules, ignored), sub) \<Rightarrow>
          (let sub = sub\<lparr>sbMeta := (sbMeta sub)\<lparr>mIgnoredFiles := ignored\<rparr>\<rparr>;
               diff = (if sbPRID sub \<noteq> []
                 then diffCoverage (case reForge (aeRound env) of None \<Rightarrow> None | Some _ \<Rightarrow> Some (aeDiff env))
                   (sbProfile sub) (sbFormat sub) (sbPathPrefix sub) rules
                 else (None, DiffNotAsked))
           in case (case aeBaseErr env of Some e \<Rightarrow> Inl e
               | None \<Rightarrow> gateDropBase (memReads (psStore w)) repo (sbCommit sub) [sbPart sub]) of
             Inl e \<Rightarrow> (Inl (AcceptBaseline e), w)
           | Inr dropBase \<Rightarrow>
               (case storeRaw env (rpID repo) (sbRaw sub) (psBlobs w) of
                  (Inl e, b) \<Rightarrow> (Inl (AcceptBlob e), w\<lparr>psBlobs := b\<rparr>)
                | (Inr key, b) \<Rightarrow> acceptStored env hosted baseURL sub key diff dropBase (w\<lparr>psBlobs := b\<rparr>))))"

section \<open>What a recompute saves\<close>

lemma mergedCoverage_reads: "mergedCoverage (\<lambda>ids. Inr (f ids)) parts \<noteq> Inl e"
  by (simp add: mergedCoverage_def)

lemma totalOver_mem: "\<exists>pct. totalOver b (memReads s) names = Inr pct"
  unfolding totalOver_def memReads_simps using mergedCoverage_reads
  by (auto split: sum.splits)

lemma gateDropBase_ok: "storeInv s \<Longrightarrow> \<exists>x. gateDropBase (memReads s) repo commit names = Inr x"
proof (cases "MaxCoverageDrop (rpGate repo) = None")
  case False
  assume "storeInv s"
  have "\<exists>x. (case totalOver b (memReads s) names of Inl e \<Rightarrow> Inl e | Inr pct \<Rightarrow> Inr (Some pct)) = Inr x" for b
    using totalOver_mem [of b s names] by auto
  then show ?thesis unfolding gateDropBase_mem [OF \<open>storeInv s\<close> False] by (simp split: option.split)
qed (simp add: gateDropBase_def)

lemma deltaBase_ok: "storeInv s \<Longrightarrow> \<exists>x. deltaBase (memReads s) repo branch commit bef names = Inr x"
  unfolding deltaBase_def by (simp add: Let_def comparableReport_mem split: option.split sum.split)

definition recomputedTotals :: "memStore \<Rightarrow> Upload list \<Rightarrow> int \<times> int" where
  "recomputedTotals s parts =
     (if length parts = 1 then (upCoveredStmts (hd parts), upTotalStmts (hd parts))
      else profileCoverage (Merge [Some \<lparr>Files = concat (map (\<lambda>u. map rowFile (filesOfUpload s (upID u))) parts)\<rparr>]))"

lemma mergedCoverage_mem:
  assumes "\<forall>u \<in> set parts. \<forall>f \<in> set (filesOfUpload s (upID u)). counted f"
  shows "mergedCoverage (prPartFiles (memReads s)) parts = Inr (recomputedTotals s parts)"
proof -
  let ?ufs = "PartFiles (map upID parts) s"
  have "\<forall>f \<in> set ?ufs. counted f" using assms by (auto simp: PartFiles_def)
  then have "foldl addCounts (0, 0) (MergeParts ?ufs) = profileCoverage (Merge [Some \<lparr>Files = map rowFile ?ufs\<rparr>])"
    using MergeParts_mergeAll mergeAll_counts by metis
  moreover have "map rowFile ?ufs = concat (map (\<lambda>u. map rowFile (filesOfUpload s (upID u))) parts)"
    by (simp add: PartFiles_def map_concat comp_def)
  ultimately show ?thesis by (simp add: mergedCoverage_def recomputedTotals_def)
qed

lemma diffcovMerge_filter: "diffcovMerge (filter (\<lambda>d. d \<noteq> None) ds) = diffcovMerge ds"
proof -
  have "List.map_filter id (filter (\<lambda>d. d \<noteq> None) ds) = List.map_filter id ds" by (induction ds) (auto simp: map_filter_simps)
  then show ?thesis by (simp add: diffcovMerge_def)
qed

text \<open>The row a merged view is saved as.\<close>

definition viewReport :: "Repo \<Rightarrow> Upload \<Rightarrow> nat \<Rightarrow> rat option \<Rightarrow> Merged \<Rightarrow> CommitReport" where
  "viewReport repo u n base m = zeroCommitReport\<lparr>crRepoID := rpID repo, crCommitSHA := upCommitSHA u, crBranch := upBranch u,
     crPRID := upPRID u, crTotalPct := upTotalPct (mgUpload m), crCoveredStmts := upCoveredStmts (mgUpload m),
     crTotalStmts := upTotalStmts (mgUpload m), crGateFailed := Failed (mgVerdict m), crGateBasePct := base,
     crGate := Some (rpGate repo), crDiffCoverage := upDiffCoverage (mgUpload m), crPartCount := int n, crUploadID := upID u\<rparr>"

definition viewOf :: "memStore \<Rightarrow> Repo \<Rightarrow> Upload \<Rightarrow> Upload list \<Rightarrow> rat option \<Rightarrow> Merged \<Rightarrow> bool" where
  "viewOf s repo u parts base m \<longleftrightarrow>
     gateDropBase (memReads s) repo (upCommitSHA u) (map upPart parts) = Inr base
     \<and> (upCoveredStmts (mgUpload m), upTotalStmts (mgUpload m)) = recomputedTotals s parts
     \<and> upTotalPct (mgUpload m) = Percent (upCoveredStmts (mgUpload m)) (upTotalStmts (mgUpload m))
     \<and> upDiffCoverage (mgUpload m) = fst (diffcovMerge (map upDiffCoverage parts))
     \<and> mgVerdict m = EvaluateGate (rpGate repo) (upTotalPct (mgUpload m)) base (upDiffCoverage (mgUpload m))
     \<and> mgWarnings m = conflictWarning (snd (diffcovMerge (map upDiffCoverage parts)))
     \<and> mgParts m = sort (map upPart parts)"

lemma mergedView_mem:
  assumes "storeInv s" and "\<forall>u \<in> set parts. \<forall>f \<in> set (filesOfUpload s (upID u)). counted f"
  obtains m base where "mergedView (memReads s) repo u parts = Inr (m, viewReport repo u (length parts) base m)"
    and "viewOf s repo u parts base m"
proof -
  let ?names = "map upPart parts"
  obtain covered tot where c: "recomputedTotals s parts = (covered, tot)" by fastforce
  obtain prev where prev: "deltaBase (memReads s) repo (upBranch u) (upCommitSHA u) 0 ?names = Inr prev"
    using deltaBase_ok [OF assms(1)] by blast
  obtain base where base: "gateDropBase (memReads s) repo (upCommitSHA u) ?names = Inr base" using gateDropBase_ok [OF assms(1)] by blast
  obtain d conflicts where d: "diffcovMerge (map upDiffCoverage parts) = (d, conflicts)" by fastforce
  obtain delta where delta: "(case prev of None \<Rightarrow> Inr None
      | Some b \<Rightarrow> (case totalOver b (memReads s) ?names of Inl e \<Rightarrow> Inl e | Inr prevPct \<Rightarrow> Inr (Some (f64 (Percent covered tot - prevPct)))))
      = (Inr delta :: storeError + rat option)"
    using totalOver_mem [of _ s ?names] by (cases prev) (auto, metis sum.simps(6))
  let ?m = "\<lparr>mgUpload = zeroUpload\<lparr>upID := upID u, upRepoID := rpID repo, upCommitSHA := upCommitSHA u, upBranch := upBranch u,
      upPRID := upPRID u, upTotalPct := Percent covered tot, upCoveredStmts := covered, upTotalStmts := tot, upDiffCoverage := d\<rparr>,
    mgDelta = delta, mgVerdict = EvaluateGate (rpGate repo) (Percent covered tot) base d, mgWarnings = conflictWarning conflicts,
    mgParts = sort ?names\<rparr>"
  show ?thesis
  proof (rule that [of ?m base])
    show "mergedView (memReads s) repo u parts = Inr (?m, viewReport repo u (length parts) base ?m)"
      using delta base prev unfolding mergedView_def Let_def mergedCoverage_mem [OF assms(2)] c diffcovMerge_filter d
      by (simp add: viewReport_def)
    show "viewOf s repo u parts base ?m" using base by (simp add: viewOf_def c d)
  qed
qed

lemma locked_iff:
  assumes "storeInv s"
  shows "commitReportLocked r c s = Some x \<longleftrightarrow> (\<exists>k. map_of (reports s) k = Some x) \<and> commitOf x = (r, c)"
proof -
  have k: "keyed crID (crSeq s) (reports s)" "uniqueBy commitOf (reports s)"
    using inv_parts(4) [OF assms] by (simp_all add: reportInv_def)
  show ?thesis
  proof
    assume "commitReportLocked r c s = Some x"
    then show "(\<exists>k. map_of (reports s) k = Some x) \<and> commitOf x = (r, c)"
      using findVal_Some [OF keyed_wf [OF k(1)]] by (auto simp: commitReportLocked_def commitOf_def)
  next
    assume "(\<exists>k. map_of (reports s) k = Some x) \<and> commitOf x = (r, c)"
    then obtain i where "map_of (reports s) i = Some x" "commitOf x = (r, c)" by blast
    then show "commitReportLocked r c s = Some x" unfolding commitReportLocked_def
      by (intro findVal_unique [OF keyed_wf [OF k(1)] k(2), where x = "(r, c)"]) (auto simp: commitOf_def)
  qed
qed

text \<open>A report row without what the store itself gives it.\<close>

definition reportRow :: "CommitReport \<Rightarrow> CommitReport" where
  "reportRow cr = cr\<lparr>crID := 0, crCreatedAt := 0, crUpdatedAt := 0\<rparr>"

lemma Upsert_saved:
  assumes "storeInv s"
  shows "\<exists>cr'. fst (UpsertCommitReport now cr s) = Inr cr'
    \<and> commitReportLocked (crRepoID cr) (crCommitSHA cr) (snd (UpsertCommitReport now cr s)) = Some cr' \<and> reportRow cr' = reportRow cr"
proof -
  have inv: "storeInv (snd (UpsertCommitReport now cr s))" using assms by (rule UpsertCommitReport_inv)
  show ?thesis unfolding locked_iff [OF inv]
  proof (cases "commitReportLocked (crRepoID cr) (crCommitSHA cr) s")
    case None
    then show "\<exists>cr'. fst (UpsertCommitReport now cr s) = Inr cr' \<and> ((\<exists>k. map_of (reports (snd (UpsertCommitReport now cr s))) k = Some cr')
        \<and> commitOf cr' = (crRepoID cr, crCommitSHA cr)) \<and> reportRow cr' = reportRow cr"
      by (auto simp: UpsertCommitReport_def Let_def commitOf_def reportRow_def)
  next
    case (Some y)
    then show "\<exists>cr'. fst (UpsertCommitReport now cr s) = Inr cr' \<and> ((\<exists>k. map_of (reports (snd (UpsertCommitReport now cr s))) k = Some cr')
        \<and> commitOf cr' = (crRepoID cr, crCommitSHA cr)) \<and> reportRow cr' = reportRow cr"
      by (auto simp: UpsertCommitReport_def Let_def commitOf_def reportRow_def)
  qed
qed

lemma Upsert_elsewhere:
  assumes "storeInv s" and "(r, c) \<noteq> commitOf cr"
  shows "commitReportLocked r c (snd (UpsertCommitReport now cr s)) = commitReportLocked r c s"
proof -
  have inv: "storeInv (snd (UpsertCommitReport now cr s))" using assms(1) by (rule UpsertCommitReport_inv)
  have "commitReportLocked r c (snd (UpsertCommitReport now cr s)) = Some x \<longleftrightarrow> commitReportLocked r c s = Some x" for x
    unfolding locked_iff [OF inv] locked_iff [OF assms(1)] using Upsert_rows [OF assms(1)] assms(2) by metis
  then show ?thesis by (metis not_None_eq)
qed

lemma Upsert_keeps:
  "uploads (snd (UpsertCommitReport now cr s)) = uploads s" "files (snd (UpsertCommitReport now cr s)) = files s"
  by (simp_all add: UpsertCommitReport_def Let_def split: option.split)

lemma Recompute_saved:
  assumes "storeInv s" and "mergedView (memReads s) repo u (LatestUploadsPerPart (rpID repo) (upCommitSHA u) s) = Inr (m, cr)"
  shows "Recompute now repo u s = (Inr m, snd (UpsertCommitReport now cr s))"
proof -
  obtain cr' s' where "UpsertCommitReport now cr s = (Inr cr', s')" using Upsert_saved [OF assms(1), of now cr] by (metis prod.collapse)
  then show ?thesis by (simp add: Recompute_def WithCommitReportTx_def assms(2))
qed

text \<open>Every stored row is as \<open>newUploadFile\<close> makes it.\<close>

definition rowsCounted :: "memStore \<Rightarrow> bool" where
  "rowsCounted s \<longleftrightarrow> (\<forall>i. \<forall>f \<in> set (filesOfUpload s i). counted f)"

lemma reportRow_select:
  "crCoveredStmts (reportRow cr) = crCoveredStmts cr" "crTotalStmts (reportRow cr) = crTotalStmts cr"
  "crTotalPct (reportRow cr) = crTotalPct cr" "crDiffCoverage (reportRow cr) = crDiffCoverage cr"
  "crGateFailed (reportRow cr) = crGateFailed cr" "crGateBasePct (reportRow cr) = crGateBasePct cr"
  "crPartCount (reportRow cr) = crPartCount cr" "crUploadID (reportRow cr) = crUploadID cr"
  by (simp_all add: reportRow_def)

end
