(* ===== verification/CommitUploads.thy ===== *)
theory CommitUploads
  imports Pipeline
begin

text \<open>
  What a recomputation saves for a commit, and why the order its parts arrive in does not matter:
  the merged view of \<open>Pipeline\<close> over a store that took the parts in one after the other.
\<close>

section \<open>What is saved\<close>

text \<open>
  What a recompute saves. On a store in order whose rows carry their own counts, recomputing
  a commit never fails; the report it saves for the commit has the totals of all rows of the
  newest upload of every part merged (of the row of the one part), the merged diff coverage, and
  the gate's verdict on exactly these numbers and the baseline; every other commit's report, the
  uploads and their rows stay as they were, and what the forge is told is what was saved.
\<close>

theorem recompute_saves_merge:
  fixes repo :: Repo and u :: Upload and s :: memStore
  assumes "storeInv s" and "rowsCounted s"
  defines "parts \<equiv> LatestUploadsPerPart (rpID repo) (upCommitSHA u) s"
  shows "\<exists>m s' cr base. Recompute now repo u s = (Inr m, s')
    \<and> commitReportLocked (rpID repo) (upCommitSHA u) s' = Some cr
    \<and> (crCoveredStmts cr, crTotalStmts cr) = recomputedTotals s parts
    \<and> crTotalPct cr = Percent (crCoveredStmts cr) (crTotalStmts cr)
    \<and> crDiffCoverage cr = fst (diffcovMerge (map upDiffCoverage parts))
    \<and> gateDropBase (memReads s) repo (upCommitSHA u) (map upPart parts) = Inr base
    \<and> mgVerdict m = EvaluateGate (rpGate repo) (crTotalPct cr) base (crDiffCoverage cr)
    \<and> crGateFailed cr = Failed (mgVerdict m) \<and> crGateBasePct cr = base
    \<and> crPartCount cr = int (length parts) \<and> mgParts m = sort (map upPart parts) \<and> crUploadID cr = upID u
    \<and> upTotalPct (mgUpload m) = crTotalPct cr \<and> upDiffCoverage (mgUpload m) = crDiffCoverage cr
    \<and> (\<forall>r c. (r, c) \<noteq> (rpID repo, upCommitSHA u) \<longrightarrow> commitReportLocked r c s' = commitReportLocked r c s)
    \<and> uploads s' = uploads s \<and> files s' = files s"
proof -
  have rows: "\<forall>u \<in> set parts. \<forall>f \<in> set (filesOfUpload s (upID u)). counted f" using assms(2) by (simp add: rowsCounted_def)
  obtain m base where v: "mergedView (memReads s) repo u parts = Inr (m, viewReport repo u (length parts) base m)"
    and view: "viewOf s repo u parts base m"
    using mergedView_mem [OF assms(1) rows] .
  define cr where "cr = viewReport repo u (length parts) base m"
  note v = v [folded cr_def]
  let ?s = "snd (UpsertCommitReport now cr s)"
  have key: "crRepoID cr = rpID repo" "crCommitSHA cr = upCommitSHA u" by (simp_all add: cr_def viewReport_def)
  obtain cr' where cr': "commitReportLocked (rpID repo) (upCommitSHA u) ?s = Some cr'" "reportRow cr' = reportRow cr"
    using Upsert_saved [OF assms(1), of now cr] unfolding key by blast
  have same: "crCoveredStmts cr' = crCoveredStmts cr" "crTotalStmts cr' = crTotalStmts cr" "crTotalPct cr' = crTotalPct cr"
    "crDiffCoverage cr' = crDiffCoverage cr" "crGateFailed cr' = crGateFailed cr" "crGateBasePct cr' = crGateBasePct cr"
    "crPartCount cr' = crPartCount cr" "crUploadID cr' = crUploadID cr"
    using cr'(2) [THEN arg_cong, of crCoveredStmts]
      cr'(2) [THEN arg_cong, of crTotalStmts]
      cr'(2) [THEN arg_cong, of crTotalPct]
      cr'(2) [THEN arg_cong, of crDiffCoverage]
      cr'(2) [THEN arg_cong, of crGateFailed]
      cr'(2) [THEN arg_cong, of crGateBasePct]
      cr'(2) [THEN arg_cong, of crPartCount]
      cr'(2) [THEN arg_cong, of crUploadID]
    by (simp_all only: reportRow_select)
  have run: "Recompute now repo u s = (Inr m, ?s)"
    by (rule Recompute_saved [OF assms(1) v [unfolded parts_def]])
  have keep: "\<forall>r c. (r, c) \<noteq> (rpID repo, upCommitSHA u) \<longrightarrow> commitReportLocked r c ?s = commitReportLocked r c s"
    using Upsert_elsewhere [OF assms(1)] key by (simp add: commitOf_def)
  show ?thesis
    by (intro exI [of _ m] exI [of _ ?s] exI [of _ cr'] exI [of _ base])
      (use run cr'(1) view keep Upsert_keeps [of now cr s] in \<open>simp add: same viewOf_def, simp add: cr_def viewReport_def\<close>)
qed

section \<open>The order of uploads\<close>

definition storeParts :: "time \<Rightarrow> memStore \<Rightarrow> (Upload \<times> UploadFile list) list \<Rightarrow> memStore" where
  "storeParts now s xs = foldl (\<lambda>s x. snd (CreateUpload now (fst x) (snd x) s)) s xs"

lemma counted_upload: "counted f \<Longrightarrow> 0 \<le> i \<Longrightarrow> counted (f\<lparr>ufUploadID := i\<rparr>)"
  by (cases f) (auto simp: counted_def newUploadFile_def rowFile_def fileCoverage_def split: prod.splits)

lemma counted_new: "counted (newUploadFile f)"
proof -
  have "(newUploadFile f)\<lparr>ufUploadID := 0\<rparr> = newUploadFile f" by (simp add: newUploadFile_def split: prod.split)
  then show ?thesis using counted_newUploadFile [of 0 f] by simp
qed

lemma CreateUpload_filesOf:
  "filesOfUpload (snd (CreateUpload now u fs s)) i =
     (if i = upSeq s + 1 then sort_key ufPath (map (\<lambda>f. f\<lparr>ufUploadID := upSeq s + 1\<rparr>) fs) else filesOfUpload s i)"
  by (simp add: CreateUpload_def Let_def filesOfUpload_def)

lemma CreateUpload_counted:
  assumes "rowsCounted s" and "0 \<le> upSeq s" and "\<forall>f \<in> set fs. counted f"
  shows "rowsCounted (snd (CreateUpload now u fs s))"
  using assms by (auto simp: rowsCounted_def CreateUpload_filesOf intro: counted_upload)

lemma rowsCounted_new: "rowsCounted newStore"
  by (simp add: rowsCounted_def filesOfUpload_def newStore_def)

text \<open>A new part goes behind the others.\<close>

lemma CreateUpload_newPart:
  assumes "storeInv s" and "ofCommit r c u" and "upPart u \<notin> upPart ` set (LatestUploadsPerPart r c s)"
  shows "LatestUploadsPerPart r c (snd (CreateUpload now u fs s)) = LatestUploadsPerPart r c s
     @ [u\<lparr>upID := upSeq s + 1, upCreatedAt := (if upCreatedAt u = 0 then now else upCreatedAt u)\<rparr>]"
proof -
  let ?u = "u\<lparr>upID := upSeq s + 1, upCreatedAt := (if upCreatedAt u = 0 then now else upCreatedAt u)\<rparr>"
  let ?t = "snd (CreateUpload now u fs s)"
  have k: "keyed upID (upSeq s) (uploads s)" "keyed upID (upSeq ?t) (uploads ?t)"
    using inv_parts(3) [OF assms(1)] inv_parts(3) [OF CreateUpload_inv [OF assms(1)]] by (simp_all add: uploadInv_def)
  have rows: "(\<exists>i. map_of (uploads ?t) i = Some v) \<longleftrightarrow> v = ?u \<or> (\<exists>i. map_of (uploads s) i = Some v)" for v
    using row_of_insert [OF keyed_fresh [OF k(1)]] by (simp add: CreateUpload_def Let_def)
  have below: "upID v \<le> upSeq s" if "\<exists>i. map_of (uploads s) i = Some v" for v using that k(1) by (auto simp: keyed_def)
  have other: "upPart v \<noteq> upPart u" if "\<exists>i. map_of (uploads s) i = Some v" "ofCommit r c v" for v
  proof
    assume part: "upPart v = upPart u"
    let ?P = "\<lambda>w. ofCommit r c w \<and> upPart w = upPart u"
    have "{w \<in> set (valuesOf (uploads s)). ?P w} \<noteq> {}" using that part set_valuesOf [OF keyed_wf [OF k(1)]] by blast
    then obtain w where "w \<in> set (valuesOf (uploads s))" "?P w" "\<forall>x \<in> {w \<in> set (valuesOf (uploads s)). ?P w}. upID x \<le> upID w"
      using finite_filter_max [of "set (valuesOf (uploads s))" ?P upID] by blast
    then have w: "\<exists>i. map_of (uploads s) i = Some w" "?P w" "\<forall>k x. map_of (uploads s) k = Some x \<and> ?P x \<longrightarrow> upID x \<le> upID w"
      using set_valuesOf [OF keyed_wf [OF k(1)]] by blast+
    then have "w \<in> set (LatestUploadsPerPart r c s)" using LatestUploadsPerPart_rows [OF k(1), of r c] by auto
    then show False using assms(3) w(2) by (metis image_eqI)
  qed
  note L = LatestUploadsPerPart_rows [OF k(1), of r c] and M = LatestUploadsPerPart_rows [OF k(2), of r c]
  show ?thesis
  proof (rule strict_key_unique [of upID])
    show "sorted_wrt (<) (map upID (LatestUploadsPerPart r c ?t))" using M by blast
    have "\<forall>v \<in> set (LatestUploadsPerPart r c s). upID v < upSeq s + 1" using L below by fastforce
    then show "sorted_wrt (<) (map upID (LatestUploadsPerPart r c s @ [?u]))" using L by (auto simp: sorted_wrt_append)
    have u: "ofCommit r c ?u" "upPart ?u = upPart u" using assms(2) by (simp_all add: ofCommit_def)
    define stored where "stored v \<longleftrightarrow> (\<exists>i. map_of (uploads s) i = Some v)" for v
    have old: "v \<in> set (LatestUploadsPerPart r c s) \<longleftrightarrow> stored v \<and> ofCommit r c v
        \<and> (\<forall>w. stored w \<and> ofCommit r c w \<and> upPart w = upPart v \<longrightarrow> upID w \<le> upID v)" for v
      using L unfolding stored_def by blast
    define k where "k = ?u"
    have new: "v \<in> set (LatestUploadsPerPart r c ?t) \<longleftrightarrow> (v = k \<or> stored v) \<and> ofCommit r c v
        \<and> (\<forall>w. (w = k \<or> stored w) \<and> ofCommit r c w \<and> upPart w = upPart v \<longrightarrow> upID w \<le> upID v)" for v
      unfolding stored_def k_def rows [symmetric] using M by blast
    have other: "stored v \<Longrightarrow> ofCommit r c v \<Longrightarrow> upPart v \<noteq> upPart k" for v using other u(2) by (simp add: stored_def k_def)
    note u = u(1) [folded k_def]
    have "v \<in> set (LatestUploadsPerPart r c ?t) \<longleftrightarrow> v \<in> set (LatestUploadsPerPart r c s) \<or> v = k" for v
    proof (cases "v = k")
      case True
      have "upID w \<le> upID k" if "w = k \<or> stored w" "ofCommit r c w" "upPart w = upPart k" for w
        using that other [of w] by auto
      then show ?thesis unfolding new True by (intro iffI disjI2 refl conjI disjI1 u allI impI) (elim conjE)
    next
      case False
      have "(\<forall>w. (w = k \<or> stored w) \<and> ofCommit r c w \<and> upPart w = upPart v \<longrightarrow> upID w \<le> upID v)
          \<longleftrightarrow> (\<forall>w. stored w \<and> ofCommit r c w \<and> upPart w = upPart v \<longrightarrow> upID w \<le> upID v)" if "stored v" "ofCommit r c v"
        using other [OF that] by auto
      then show ?thesis unfolding new old by (simp only: False conj_assoc simp_thms cong: conj_cong)
    qed
    then have "set (LatestUploadsPerPart r c ?t) = set (LatestUploadsPerPart r c s) \<union> {k}"
      by (intro set_eqI) (simp only: Un_iff singleton_iff)
    then show "set (LatestUploadsPerPart r c ?t) = set (LatestUploadsPerPart r c s @ [?u])" by (simp add: k_def)
  qed
qed

text \<open>What a recompute reads of a part, and what of it an upload brings along.\<close>

definition partContent :: "memStore \<Rightarrow> Upload \<Rightarrow> string \<times> int \<times> int \<times> diffResult option \<times> profFile multiset" where
  "partContent s u = (upPart u, upCoveredStmts u, upTotalStmts u, upDiffCoverage u, mset (map rowFile (filesOfUpload s (upID u))))"

definition inputContent :: "Upload \<times> UploadFile list \<Rightarrow> string \<times> int \<times> int \<times> diffResult option \<times> profFile multiset" where
  "inputContent x = (upPart (fst x), upCoveredStmts (fst x), upTotalStmts (fst x), upDiffCoverage (fst x), mset (map rowFile (snd x)))"

lemma storeParts_snoc: "storeParts now s (xs @ [x]) = snd (CreateUpload now (fst x) (snd x) (storeParts now s xs))"
  by (simp add: storeParts_def)

lemma storeParts_content:
  assumes "storeInv s" and "rowsCounted s" and "LatestUploadsPerPart r c s = []"
    and "\<forall>x \<in> set xs. ofCommit r c (fst x) \<and> (\<forall>f \<in> set (snd x). counted f)" and "distinct (map (\<lambda>x. upPart (fst x)) xs)"
  shows "storeInv (storeParts now s xs) \<and> rowsCounted (storeParts now s xs) \<and> sameOthers c r s (storeParts now s xs)
    \<and> map (partContent (storeParts now s xs)) (LatestUploadsPerPart r c (storeParts now s xs)) = map inputContent xs"
  using assms(4,5)
proof (induction xs rule: rev_induct)
  case Nil
  then show ?case using assms(1-3) by (simp add: storeParts_def sameOthers_refl)
next
  case (snoc x xs)
  let ?t = "storeParts now s xs" and ?t' = "snd (CreateUpload now (fst x) (snd x) (storeParts now s xs))"
  have IH: "storeInv ?t" "rowsCounted ?t" "sameOthers c r s ?t" "map (partContent ?t) (LatestUploadsPerPart r c ?t) = map inputContent xs"
    using snoc by simp_all
  have x: "ofCommit r c (fst x)" "\<forall>f \<in> set (snd x). counted f" "upPart (fst x) \<notin> (\<lambda>x. upPart (fst x)) ` set xs"
    using snoc.prems by auto
  have "map upPart (LatestUploadsPerPart r c ?t) = map (\<lambda>x. upPart (fst x)) xs"
    using arg_cong [OF IH(4), of "map fst"] by (simp add: partContent_def inputContent_def comp_def)
  then have "upPart ` set (LatestUploadsPerPart r c ?t) = (\<lambda>x. upPart (fst x)) ` set xs" by (metis set_map)
  then have new: "upPart (fst x) \<notin> upPart ` set (LatestUploadsPerPart r c ?t)" using x(3) by simp
  note L = CreateUpload_newPart [OF IH(1) x(1) new, of now "snd x"]
  have old: "partContent ?t' v = partContent ?t v" if "v \<in> set (LatestUploadsPerPart r c ?t)" for v
    by (simp add: partContent_def CreateUpload_files [OF IH(1) that])
  have "storeInv ?t'" using IH(1) by (rule CreateUpload_inv)
  moreover have "0 \<le> upSeq ?t" using inv_parts(3) [OF IH(1)] by (simp add: uploadInv_def keyed_def)
  then have "rowsCounted ?t'" using IH(2) x(2) by (intro CreateUpload_counted)
  moreover have "sameOthers c r s ?t'"
    using x(1) by (intro sameOthers_trans [OF IH(3)] CreateUpload_others [OF IH(1)]) (simp add: ofCommit_def)
  moreover have "map (partContent ?t') (LatestUploadsPerPart r c ?t') = map inputContent (xs @ [x])"
  proof -
    have "map (partContent ?t') (LatestUploadsPerPart r c ?t) = map (partContent ?t) (LatestUploadsPerPart r c ?t)"
      by (rule map_cong [OF refl old])
    note this [unfolded IH(4)]
    moreover have "image_mset (rowFile \<circ> (\<lambda>f. f\<lparr>ufUploadID := i\<rparr>)) (mset fs) = image_mset rowFile (mset fs)" for i fs
      by (rule image_mset_cong) (simp add: rowFile_def)
    ultimately show ?thesis
      unfolding L map_append by (simp only: list.map) (simp add: partContent_def inputContent_def CreateUpload_filesOf multiset.map_comp)
  qed
  ultimately show ?case by (simp add: storeParts_snoc)
qed

lemma recomputedTotals_content:
  assumes "mset (map (partContent s) ps) = mset (map (partContent t) qs)"
  shows "recomputedTotals s ps = recomputedTotals t qs"
proof -
  have len: "length ps = length qs" using assms by (metis length_map size_mset)
  have rows: "mset (concat (map (\<lambda>u. map rowFile (filesOfUpload s (upID u))) ps))
      = sum_mset (image_mset (\<lambda>(_, _, _, _, m). m) (mset (map (partContent s) ps)))" for s ps
    by (induction ps) (simp_all add: partContent_def)
  show ?thesis
  proof (cases "length ps = 1")
    case True
    then obtain p q where "ps = [p]" "qs = [q]" using len by (metis One_nat_def length_0_conv length_Suc_conv)
    then show ?thesis using assms by (simp add: recomputedTotals_def partContent_def)
  next
    case False
    have "Merge [Some \<lparr>Files = concat (map (\<lambda>u. map rowFile (filesOfUpload s (upID u))) ps)\<rparr>]
        = Merge [Some \<lparr>Files = concat (map (\<lambda>u. map rowFile (filesOfUpload t (upID u))) qs)\<rparr>]"
      by (rule Merge_perm) (simp add: rows assms del: mset_map)
    then show ?thesis using False len by (simp add: recomputedTotals_def)
  qed
qed

lemma sameOthers_sym: "sameOthers commit r s t \<Longrightarrow> sameOthers commit r t s"
  by (simp add: sameOthers_def)

text \<open>The merged view depends on the contents of the parts alone, not on their order or on the upload that asks.\<close>

lemma mergedView_content:
  fixes u v :: Upload
  assumes inv: "storeInv s" "storeInv t" and rows: "rowsCounted s" "rowsCounted t"
    and others: "sameOthers (upCommitSHA u) (rpID repo) s t" and commit: "upCommitSHA u \<noteq> []"
    and same: "mset (map (partContent s) ps) = mset (map (partContent t) qs)"
    and trigger: "upCommitSHA v = upCommitSHA u" "upBranch v = upBranch u" "upPRID v = upPRID u"
    and view: "mergedView (memReads s) repo u ps = Inr (m, cr)"
  shows "mergedView (memReads t) repo v qs = Inr (m\<lparr>mgUpload := (mgUpload m)\<lparr>upID := upID v\<rparr>\<rparr>, cr\<lparr>crUploadID := upID v\<rparr>)"
proof -
  have counted: "\<forall>u \<in> set ps. \<forall>f \<in> set (filesOfUpload s (upID u)). counted f" "\<forall>u \<in> set qs. \<forall>f \<in> set (filesOfUpload t (upID u)). counted f"
    using rows by (simp_all add: rowsCounted_def)
  have field: "mset (map (\<lambda>u. f (partContent s u)) ps) = mset (map (\<lambda>u. f (partContent t u)) qs)" for f :: "_ \<Rightarrow> 'x"
    using arg_cong [OF same, of "image_mset f"] by (simp add: multiset.map_comp comp_def)
  have names: "mset (map upPart qs) = mset (map upPart ps)" using field [of fst] by (simp add: partContent_def)
  then have names': "set (map upPart qs) = set (map upPart ps)" "length (map upPart qs) = length (map upPart ps)"
    by (rule mset_eq_setD, metis size_mset)
  have len: "length qs = length ps" using names'(2) by simp
  have sorted: "sort (map upPart qs) = sort (map upPart ps)" using names by (metis sorted_list_of_multiset_mset)
  have diff: "diffcovMerge (map upDiffCoverage qs) = diffcovMerge (map upDiffCoverage ps)"
    by (rule diffcovMerge_cong [symmetric]) (use field [of "\<lambda>(_, _, _, d, _). d"] in \<open>simp add: partContent_def\<close>)
  note tots = recomputedTotals_content [OF same, symmetric]
  have gate: "gateDropBase (memReads t) repo (upCommitSHA u) (map upPart qs) = gateDropBase (memReads s) repo (upCommitSHA u) (map upPart ps)"
    by (rule gateDropBase_others [OF inv others commit names'])
  obtain prev where prev: "deltaBase (memReads s) repo (upBranch u) (upCommitSHA u) 0 (map upPart ps) = Inr prev"
    using deltaBase_ok [OF inv(1)] by blast
  then have prev': "deltaBase (memReads t) repo (upBranch u) (upCommitSHA u) 0 (map upPart qs) = Inr prev"
    using deltaBase_others [OF inv others commit names'(1)] by metis
  have over: "totalOver b (memReads t) (map upPart qs) = totalOver b (memReads s) (map upPart ps)" if b: "prev = Some b" for b
  proof -
    obtain c where "c \<noteq> upCommitSHA u" "cbParts b = LatestUploadsPerPart (rpID repo) c s"
      using deltaBase_found [OF inv(1) commit prev [unfolded b]] .
    then show ?thesis using others names' by (intro totalOver_others)
  qed
  have delta: "(case prev of None \<Rightarrow> Inr None
      | Some b \<Rightarrow> (case totalOver b (memReads t) (map upPart qs) of Inl e \<Rightarrow> Inl e | Inr prevPct \<Rightarrow> Inr (Some (f64 (pct - prevPct)))))
    = (case prev of None \<Rightarrow> Inr None
      | Some b \<Rightarrow> (case totalOver b (memReads s) (map upPart ps) of Inl e \<Rightarrow> Inl e | Inr prevPct \<Rightarrow> Inr (Some (f64 (pct - prevPct)))))" for pct
    using over by (cases prev) simp_all
  obtain covered tot where c: "recomputedTotals s ps = (covered, tot)" by fastforce
  obtain d conflicts where d: "diffcovMerge (map upDiffCoverage ps) = (d, conflicts)" by fastforce
  show ?thesis
    using view
    unfolding mergedView_def Let_def mergedCoverage_mem [OF counted(1)] mergedCoverage_mem [OF counted(2)] tots c diffcovMerge_filter diff d trigger
      sum.case prod.case prev prev' delta gate sorted len
    by (auto split: sum.splits)
qed

text \<open>
  C20: the parts of a commit may arrive in any order. Two stores that start alike and take in the
  same parts of a commit (each part once), in different orders and at different times, give the
  same merged report when recomputed for uploads of the same branch and pull request: the same
  totals, diff coverage, warnings, gate baseline and verdict, delta against the branch, and saved
  row; only the number of the upload that asked differs.
\<close>

theorem upload_order_irrelevant:
  fixes repo :: Repo and u v :: Upload and s :: memStore
  assumes "storeInv s" and "rowsCounted s" and "upCommitSHA u \<noteq> []" and "LatestUploadsPerPart (rpID repo) (upCommitSHA u) s = []"
    and "\<forall>x \<in> set xs. ofCommit (rpID repo) (upCommitSHA u) (fst x) \<and> (\<forall>f \<in> set (snd x). counted f)"
    and "distinct (map (\<lambda>x. upPart (fst x)) xs)" and "mset ys = mset xs"
    and "upCommitSHA v = upCommitSHA u" and "upBranch v = upBranch u" and "upPRID v = upPRID u"
  shows "\<exists>m cr. fst (Recompute now repo u (storeParts t s xs)) = Inr m
    \<and> fst (Recompute now' repo v (storeParts t' s ys)) = Inr (m\<lparr>mgUpload := (mgUpload m)\<lparr>upID := upID v\<rparr>\<rparr>)
    \<and> map_option reportRow (commitReportLocked (rpID repo) (upCommitSHA u) (snd (Recompute now repo u (storeParts t s xs)))) = Some cr
    \<and> map_option reportRow (commitReportLocked (rpID repo) (upCommitSHA u) (snd (Recompute now' repo v (storeParts t' s ys))))
      = Some (cr\<lparr>crUploadID := upID v\<rparr>)"
proof -
  let ?S = "storeParts t s xs" and ?T = "storeParts t' s ys"
  let ?ps = "LatestUploadsPerPart (rpID repo) (upCommitSHA u) ?S" and ?qs = "LatestUploadsPerPart (rpID repo) (upCommitSHA u) ?T"
  have S: "storeInv ?S" "rowsCounted ?S" "sameOthers (upCommitSHA u) (rpID repo) s ?S" "map (partContent ?S) ?ps = map inputContent xs"
    using storeParts_content [OF assms(1,2,4,5,6)] by simp_all
  have ys: "\<forall>x \<in> set ys. ofCommit (rpID repo) (upCommitSHA u) (fst x) \<and> (\<forall>f \<in> set (snd x). counted f)"
    "distinct (map (\<lambda>x. upPart (fst x)) ys)"
    using assms(5,6) mset_eq_setD [OF assms(7)] mset_eq_imp_distinct_iff [of "map (\<lambda>x. upPart (fst x)) ys" "map (\<lambda>x. upPart (fst x)) xs"]
    by (simp_all add: assms(7))
  have T: "storeInv ?T" "rowsCounted ?T" "sameOthers (upCommitSHA u) (rpID repo) s ?T" "map (partContent ?T) ?qs = map inputContent ys"
    using storeParts_content [OF assms(1,2,4) ys] by simp_all
  have same: "mset (map (partContent ?S) ?ps) = mset (map (partContent ?T) ?qs)"
    unfolding S(4) T(4) by (simp add: assms(7))
  obtain m base where m: "mergedView (memReads ?S) repo u ?ps = Inr (m, viewReport repo u (length ?ps) base m)"
    using mergedView_mem [OF S(1)] S(2) unfolding rowsCounted_def by metis
  define cr where "cr = viewReport repo u (length ?ps) base m"
  have key: "crRepoID cr = rpID repo" "crCommitSHA cr = upCommitSHA u" by (simp_all add: cr_def viewReport_def)
  note m = m [folded cr_def]
  note m' = mergedView_content [OF S(1) T(1) S(2) T(2) sameOthers_trans [OF sameOthers_sym [OF S(3)] T(3)] assms(3) same assms(8-10) m]
  have run: "Recompute now repo u ?S = (Inr m, snd (UpsertCommitReport now cr ?S))"
    "Recompute now' repo v ?T = (Inr (m\<lparr>mgUpload := (mgUpload m)\<lparr>upID := upID v\<rparr>\<rparr>), snd (UpsertCommitReport now' (cr\<lparr>crUploadID := upID v\<rparr>) ?T))"
    by (rule Recompute_saved [OF S(1) m], rule Recompute_saved [OF T(1)]) (simp add: assms(8) m')
  have row: "reportRow (cr\<lparr>crUploadID := upID v\<rparr>) = (reportRow cr)\<lparr>crUploadID := upID v\<rparr>" by (simp add: reportRow_def)
  have saved: "map_option reportRow (commitReportLocked (rpID repo) (upCommitSHA u) (snd (UpsertCommitReport now x w))) = Some (reportRow x)"
    if "storeInv w" "crRepoID x = rpID repo" "crCommitSHA x = upCommitSHA u" for w x now
    using Upsert_saved [OF that(1), of now x] unfolding that(2,3) by fastforce
  show ?thesis
  proof (intro exI conjI)
    show "fst (Recompute now repo u ?S) = Inr m" by (simp add: run)
    show "fst (Recompute now' repo v ?T) = Inr (m\<lparr>mgUpload := (mgUpload m)\<lparr>upID := upID v\<rparr>\<rparr>)" by (simp add: run)
    show "map_option reportRow (commitReportLocked (rpID repo) (upCommitSHA u) (snd (Recompute now repo u ?S))) = Some (reportRow cr)"
      unfolding run snd_conv by (rule saved [OF S(1) key])
    show "map_option reportRow (commitReportLocked (rpID repo) (upCommitSHA u) (snd (Recompute now' repo v ?T))) = Some ((reportRow cr)\<lparr>crUploadID := upID v\<rparr>)"
      unfolding run snd_conv row [symmetric] by (rule saved [OF T(1)]) (simp_all add: key)
  qed
qed

text \<open>Two parts of one commit: each runs one half of the file.\<close>

definition samplePart :: "string \<Rightarrow> int \<Rightarrow> int \<Rightarrow> Upload \<times> UploadFile list" where
  "samplePart part c d =
     (zeroUpload\<lparr>upRepoID := 1, upCommitSHA := ''c'', upPart := part\<rparr>,
      [newUploadFile \<lparr>fPath = ''a.go'', fBlocks = [\<lparr>StartLine = 1, StartCol = 0, EndLine = 1, EndCol = 0, NumStmts = 2, Count = c\<rparr>,
                                                  \<lparr>StartLine = 2, StartCol = 0, EndLine = 2, EndCol = 0, NumStmts = 1, Count = d\<rparr>]\<rparr>])"

lemma samplePart_ok:
  "ofCommit 1 ''c'' (fst (samplePart part c d)) \<and> (\<forall>f \<in> set (snd (samplePart part c d)). counted f)"
  by (simp add: samplePart_def ofCommit_def counted_new)

lemma upPart_samplePart [simp]: "upPart (fst (samplePart part c d)) = part"
  by (simp add: samplePart_def)

lemma sample_stored:
  assumes "distinct (map (\<lambda>x. upPart (fst x)) xs)" and "\<forall>x \<in> set xs. \<exists>p c d. x = samplePart p c d"
  shows "storeInv (storeParts now newStore xs) \<and> rowsCounted (storeParts now newStore xs)"
proof -
  have "LatestUploadsPerPart 1 ''c'' newStore = []" by code_simp
  moreover have "\<forall>x \<in> set xs. ofCommit 1 ''c'' (fst x) \<and> (\<forall>f \<in> set (snd x). counted f)"
  proof
    fix x assume "x \<in> set xs"
    then obtain p c d where "x = samplePart p c d" using assms(2) by blast
    then show "ofCommit 1 ''c'' (fst x) \<and> (\<forall>f \<in> set (snd x). counted f)" by (simp add: samplePart_ok)
  qed
  ultimately show ?thesis using storeParts_content [OF storeInv_new rowsCounted_new _ _ assms(1)] by blast
qed

theorem recompute_saves_merge_witness:
  "let s = storeParts 5 newStore [samplePart ''e2e'' 0 4, samplePart ''unit'' 1 0]; u = zeroUpload\<lparr>upCommitSHA := ''c''\<rparr>;
       repo = zeroRepo\<lparr>rpID := 1\<rparr>
   in \<exists>m s' cr. Recompute 9 repo u s = (Inr m, s') \<and> commitReportLocked 1 ''c'' s' = Some cr
     \<and> crCoveredStmts cr = 3 \<and> crTotalStmts cr = 3 \<and> mgParts m = [''e2e'', ''unit''] \<and> crPartCount cr = 2"
proof -
  let ?s = "storeParts 5 newStore [samplePart ''e2e'' 0 4, samplePart ''unit'' 1 0]" and ?u = "zeroUpload\<lparr>upCommitSHA := ''c''\<rparr>"
  let ?repo = "zeroRepo\<lparr>rpID := 1\<rparr>"
  have s: "storeInv ?s" "rowsCounted ?s"
    using sample_stored [of "[samplePart ''e2e'' 0 4, samplePart ''unit'' 1 0]" 5] by auto
  have key: "rpID ?repo = 1" "upCommitSHA ?u = ''c''" by simp_all
  have c: "recomputedTotals ?s (LatestUploadsPerPart 1 ''c'' ?s) = (3, 3)" by code_simp
  have p: "length (LatestUploadsPerPart 1 ''c'' ?s) = 2" by code_simp
  have n: "sort (map upPart (LatestUploadsPerPart 1 ''c'' ?s)) = [''e2e'', ''unit'']" by code_simp
  obtain m s' cr where r: "Recompute 9 ?repo ?u ?s = (Inr m, s')" "commitReportLocked 1 ''c'' s' = Some cr"
    "(crCoveredStmts cr, crTotalStmts cr) = (3, 3)" "crPartCount cr = int 2" "mgParts m = [''e2e'', ''unit'']"
    using recompute_saves_merge [OF s, where repo = ?repo and u = ?u and now = 9] unfolding key c p n by blast
  then show ?thesis unfolding Let_def by (intro exI [of _ m] exI [of _ s'] exI [of _ cr]) simp
qed

theorem upload_order_irrelevant_witness:
  "let xs = [samplePart ''e2e'' 0 4, samplePart ''unit'' 1 0]; u = zeroUpload\<lparr>upID := 2, upCommitSHA := ''c''\<rparr>;
       repo = zeroRepo\<lparr>rpID := 1\<rparr>
   in \<exists>m. fst (Recompute 9 repo u (storeParts 5 newStore xs)) = Inr m \<and> fst (Recompute 8 repo u (storeParts 6 newStore (rev xs))) = Inr m"
proof -
  let ?xs = "[samplePart ''e2e'' 0 4, samplePart ''unit'' 1 0]" and ?u = "zeroUpload\<lparr>upID := 2, upCommitSHA := ''c''\<rparr>"
  let ?repo = "zeroRepo\<lparr>rpID := 1\<rparr>"
  have none: "LatestUploadsPerPart (rpID ?repo) (upCommitSHA ?u) newStore = []" by code_simp
  have xs: "\<forall>x \<in> set ?xs. ofCommit (rpID ?repo) (upCommitSHA ?u) (fst x) \<and> (\<forall>f \<in> set (snd x). counted f)" "distinct (map (\<lambda>x. upPart (fst x)) ?xs)"
    using samplePart_ok by auto
  obtain m cr where m: "fst (Recompute 9 ?repo ?u (storeParts 5 newStore ?xs)) = Inr m"
    "fst (Recompute 8 ?repo ?u (storeParts 6 newStore (rev ?xs))) = Inr (m\<lparr>mgUpload := (mgUpload m)\<lparr>upID := upID ?u\<rparr>\<rparr>)"
    using upload_order_irrelevant [OF storeInv_new rowsCounted_new _ none xs, where v = ?u and ys = "rev ?xs" and now = 9 and now' = 8 and t = 5 and t' = 6]
    by auto
  have "(case fst (Recompute 9 ?repo ?u (storeParts 5 newStore ?xs)) of Inr m \<Rightarrow> upID (mgUpload m) = 2 | _ \<Rightarrow> False)" by code_simp
  then have "upID (mgUpload m) = 2" by (simp add: m(1))
  then have "m\<lparr>mgUpload := (mgUpload m)\<lparr>upID := upID ?u\<rparr>\<rparr> = m" by simp
  then show ?thesis using m unfolding Let_def by auto
qed

end
