(* ===== verification/Accept.thy ===== *)
theory Accept
  imports CommitUploads
begin

text \<open>
  What \<open>Pipeline.Accept\<close> promises: the ignored files leave the report before anything is measured,
  a failure before the upload is stored leaves no trace, and a success leaves behind the raw
  profile as posted, rows and totals of one and the same trimmed report, and the merged report.
\<close>

section \<open>The ignore loop\<close>

lemma ignoreLoop_kept:
  assumes "ignoreLoop ctxErr prefix i fs (Some r) kept = Inr (rules, res)"
  shows "res = kept @ filter (\<lambda>f. \<not> ignoredBy (rulePatterns r) prefix (fPath f)) fs"
  using assms
proof (induction fs arbitrary: i r kept)
  case (Cons f fs)
  obtain hit b where m: "Match (fPath f) prefix (Some r) = (hit, Some (r\<lparr>ruleBudget := b\<rparr>))"
    using Match_rules by (metis surj_pair)
  have ok: "\<not> TooCostly (Some (r\<lparr>ruleBudget := b\<rparr>))"
    and rest: "ignoreLoop ctxErr prefix (i + 1) fs (Some (r\<lparr>ruleBudget := b\<rparr>)) (if \<not> hit then kept @ [f] else kept) = Inr (rules, res)"
    using Cons.prems by (auto simp: m Let_def split: option.splits if_splits)
  have "hit \<longleftrightarrow> ignoredBy (rulePatterns r) prefix (fPath f)" using Match_sound [OF m ok] .
  then show ?case using Cons.IH [OF rest] by simp
qed simp

lemma ignoreLoop_error: "ignoreLoop ctxErr prefix i fs rules kept = Inl e \<Longrightarrow> e \<noteq> AcceptMerge x"
  by (induction ctxErr prefix i fs rules kept rule: ignoreLoop.induct) (auto simp: Let_def split: option.splits if_splits prod.splits)

text \<open>
  C29: what the ignore patterns take out of a report. When \<open>applyIgnore\<close> succeeds, the files left are
  exactly those no pattern of the repo's and the upload's lists covers, in their order, nothing
  else of the submission changed, the count told is the number taken out, and a report of which
  something was ignored still has a file.
\<close>

theorem ignore_drops_documented:
  assumes "applyIgnore ctxErr sub = Inr ((rules, n), sub')" and "Compile (rpIgnorePaths (sbRepo sub) @ sbIgnore sub) = Inr r"
  shows "sub' = sub\<lparr>sbProfile := \<lparr>Files = filter (\<lambda>f. \<not> ignoredBy (rulePatterns r) (sbPathPrefix sub) (fPath f)) (Files (sbProfile sub))\<rparr>\<rparr>
    \<and> n = int (length (filter (\<lambda>f. ignoredBy (rulePatterns r) (sbPathPrefix sub) (fPath f)) (Files (sbProfile sub))))
    \<and> (0 < n \<longrightarrow> Files (sbProfile sub') \<noteq> [])"
proof (cases "rpIgnorePaths (sbRepo sub) @ sbIgnore sub = []")
  case True
  then have "rulePatterns r = []" using assms(2) by (auto simp: Compile_def)
  then have "\<not> ignoredBy (rulePatterns r) prefix p" for prefix p by (simp add: ignoredBy_def)
  then show ?thesis using assms(1) True by (simp add: applyIgnore_def)
next
  case False
  let ?keep = "\<lambda>f. \<not> ignoredBy (rulePatterns r) (sbPathPrefix sub) (fPath f)"
  let ?loop = "ignoreLoop ctxErr (sbPathPrefix sub) 0 (Files (sbProfile sub)) (Some (Limit maxIgnoreWork r)) []"
  have run: "applyIgnore ctxErr sub = (case ?loop of
        Inl e \<Rightarrow> Inl e
      | Inr (rules, kept) \<Rightarrow>
          (if int (length (Files (sbProfile sub))) - int (length kept) > 0 \<and> length kept = 0 then Inl AcceptAllIgnored
           else Inr ((rules, int (length (Files (sbProfile sub))) - int (length kept)), sub\<lparr>sbProfile := \<lparr>Files = kept\<rparr>\<rparr>)))"
    using False unfolding applyIgnore_def Let_def assms(2) by auto
  obtain kept where l: "?loop = Inr (rules, kept)"
    and n: "n = int (length (Files (sbProfile sub))) - int (length kept)" and sub': "sub' = sub\<lparr>sbProfile := \<lparr>Files = kept\<rparr>\<rparr>"
    and some: "\<not> (0 < n \<and> kept = [])"
    using assms(1) unfolding run by (cases ?loop) (simp, simp split: prod.splits if_splits)
  have kept: "kept = filter ?keep (Files (sbProfile sub))" using ignoreLoop_kept [OF l] by (simp add: Limit_def)
  have "length (Files (sbProfile sub)) = length kept + length (filter (\<lambda>f. \<not> ?keep f) (Files (sbProfile sub)))"
    unfolding kept by (rule sum_length_filter_compl [symmetric])
  then have "n = int (length (filter (\<lambda>f. \<not> ?keep f) (Files (sbProfile sub))))" using n by simp
  then show ?thesis using some unfolding sub' kept by auto
qed

theorem ignore_drops_documented_witness:
  "let f = (\<lambda>p. \<lparr>fPath = p, fBlocks = []\<rparr>);
       sub = \<lparr>sbRepo = zeroRepo\<lparr>rpIgnorePaths := [''gen'']\<rparr>, sbCommit = ''c'', sbBranch = [], sbPRID = [], sbPart = [], sbFormat = ''go'',
         sbPathPrefix = [], sbRaw = ''x'', sbProfile = \<lparr>Files = [f ''a.go'', f ''gen/b.go'']\<rparr>, sbMeta = zeroMeta, sbIgnore = []\<rparr>
   in \<exists>rules sub'. applyIgnore (\<lambda>_. None) sub = Inr ((rules, 1), sub') \<and> map fPath (Files (sbProfile sub')) = [''a.go'']"
proof -
  let ?f = "\<lambda>p. \<lparr>fPath = p, fBlocks = []\<rparr>"
  let ?sub = "\<lparr>sbRepo = zeroRepo\<lparr>rpIgnorePaths := [''gen'']\<rparr>, sbCommit = ''c'', sbBranch = [], sbPRID = [], sbPart = [], sbFormat = ''go'',
         sbPathPrefix = [], sbRaw = ''x'', sbProfile = \<lparr>Files = [?f ''a.go'', ?f ''gen/b.go'']\<rparr>, sbMeta = zeroMeta, sbIgnore = []\<rparr>"
  have "(case applyIgnore (\<lambda>_. None) ?sub of Inr ((rules, n), sub') \<Rightarrow> n = 1 | Inl _ \<Rightarrow> False)" by code_simp
  then obtain rules sub' where a: "applyIgnore (\<lambda>_. None) ?sub = Inr ((rules, 1), sub')" by (auto split: sum.splits prod.splits)
  have c: "Compile (rpIgnorePaths (sbRepo ?sub) @ sbIgnore ?sub) = Inr \<lparr>rulePatterns = [[''**'', ''gen'']], ruleBudget = None\<rparr>" by code_simp
  have k: "map (\<lambda>p. covers [''**'', ''gen''] (pathSegs p)) [''a.go'', ''gen/b.go''] = [False, True]" by code_simp
  have "Files (sbProfile sub') = [?f ''a.go'']"
    using ignore_drops_documented [OF a c] k by (simp add: ignoredBy_def)
  then show ?thesis using a unfolding Let_def by auto
qed

section \<open>What accepting changes\<close>

text \<open>Two stores with the same uploads, rows and merged reports.\<close>

definition sameData :: "memStore \<Rightarrow> memStore \<Rightarrow> bool" where
  "sameData s t \<longleftrightarrow> uploads t = uploads s \<and> files t = files s \<and> reports t = reports s \<and> upSeq t = upSeq s"

lemma SetRepoVisibility_data: "sameData s (snd (SetRepoVisibility i v t s))"
  by (simp add: SetRepoVisibility_def sameData_def split: option.split)

lemma acceptVisibility_keeps:
  assumes "acceptVisibility env ttl repo w = (repo', w')"
  shows "sameData (psStore w) (psStore w')" "psBlobs w' = psBlobs w" "storeInv (psStore w) \<Longrightarrow> storeInv (psStore w')"
    "\<exists>v t. repo' = repo\<lparr>rpVisibility := v, rpVisibilityCheckedAt := t\<rparr>"
proof -
  have same: "\<exists>v t. repo = repo\<lparr>rpVisibility := v, rpVisibilityCheckedAt := t\<rparr>"
    by (intro exI [of _ "rpVisibility repo"] exI [of _ "rpVisibilityCheckedAt repo"]) simp
  have new: "\<exists>v' t. repo\<lparr>rpVisibility := v\<rparr> = repo\<lparr>rpVisibility := v', rpVisibilityCheckedAt := t\<rparr>" for v
    by (intro exI [of _ v] exI [of _ "rpVisibilityCheckedAt repo"]) simp
  have steps: "\<exists>v t. fst (RefreshVisibility n a repo s) = repo\<lparr>rpVisibility := v, rpVisibilityCheckedAt := t\<rparr>"
    "\<exists>v t. fst (closeUnverifiable n cfg repo s) = repo\<lparr>rpVisibility := v, rpVisibilityCheckedAt := t\<rparr>" for n a cfg s
    using same new by (auto simp: RefreshVisibility_def closeUnverifiable_def split: option.split prod.split sum.split)
  have stores: "sameData s (snd (RefreshVisibility n a repo s)) \<and> (storeInv s \<longrightarrow> storeInv (snd (RefreshVisibility n a repo s)))"
    "sameData s (snd (closeUnverifiable n cfg repo s)) \<and> (storeInv s \<longrightarrow> storeInv (snd (closeUnverifiable n cfg repo s)))" for n a cfg s
    using SetRepoVisibility_data by (auto simp: vis_stores sameData_def intro: SetRepoVisibility_inv split: option.split)
  have "sameData (psStore w) (psStore w') \<and> psBlobs w' = psBlobs w \<and> (storeInv (psStore w) \<longrightarrow> storeInv (psStore w'))
    \<and> (\<exists>v t. repo' = repo\<lparr>rpVisibility := v, rpVisibilityCheckedAt := t\<rparr>)"
  proof (cases "visibilityFresh (aeNow env) repo (uploadVisibilityTTL ttl)")
    case True
    then show ?thesis using assms same by (auto simp: acceptVisibility_def sameData_def)
  next
    case False
    show ?thesis
    proof (cases "reForge (aeRound env) = None")
      case True
      then show ?thesis using assms False stores(2) steps(2)
        by (auto simp: acceptVisibility_def split: prod.splits) (metis fst_conv snd_conv)+
    next
      case forge: False
      show ?thesis using assms False forge stores(1) steps(1) same
        by (auto simp: acceptVisibility_def refreshVisibilityOnce_def Let_def sameData_def split: prod.splits if_splits) (metis fst_conv snd_conv)+
    qed
  qed
  then show "sameData (psStore w) (psStore w')" "psBlobs w' = psBlobs w" "storeInv (psStore w) \<Longrightarrow> storeInv (psStore w')"
    "\<exists>v t. repo' = repo\<lparr>rpVisibility := v, rpVisibilityCheckedAt := t\<rparr>" by blast+
qed

lemma Push_data: "sameData s (snd (Push env hosted baseURL repo u m s))"
  by (simp add: Push_def pushRound_def ClaimPush_def FinishPush_def sameData_def Let_def split: option.split prod.split)

lemma sameData_trans: "sameData s t \<Longrightarrow> sameData t w \<Longrightarrow> sameData s w"
  by (simp add: sameData_def)

lemma sameData_counted: "sameData s t \<Longrightarrow> rowsCounted s \<Longrightarrow> rowsCounted t"
  by (simp add: sameData_def rowsCounted_def filesOfUpload_def)

lemma undo_put: "map_of b key = None \<Longrightarrow> blobDelete key (blobPut key raw b) = b"
proof (induction b)
  case (Cons x b)
  then show ?case by (cases x) (auto simp: blobDelete_def blobPut_def AList.delete_eq split: if_splits)
qed (simp add: blobDelete_def blobPut_def AList.delete_eq)

text \<open>What is left when the rows, the merge or the push come to an end, from the stored profile on.\<close>

definition acceptRows :: "acceptEnv \<Rightarrow> Submission \<Rightarrow> string \<Rightarrow> diffResult option \<Rightarrow> rat option \<Rightarrow> Upload \<times> UploadFile list" where
  "acceptRows env sub key diff dropBase =
     (let (covered, tot) = profileCoverage (sbProfile sub)
      in submissionRows sub key diff (EvaluateGate (rpGate (sbRepo sub)) (Percent covered tot) dropBase diff) dropBase covered tot)"

lemma acceptStored_cases:
  assumes "acceptStored env hosted baseURL sub key diff dropBase w = (res, w')"
  obtains (unsaved) e where "res = Inl (AcceptSave e)" "aeSaveErr env = Some e"
      "w' = w\<lparr>psBlobs := (if aeDeleteErr env then psBlobs w else blobDelete key (psBlobs w))\<rparr>"
  | (unmerged) e u ufs s up s' where "res = Inl (AcceptMerge e)" "acceptRows env sub key (fst diff) dropBase = (u, ufs)"
      "CreateUpload (aeNow env) u ufs (psStore w) = (Inr up, s)"
      "aeMergeErr env = Some e \<and> s' = s \<or> aeMergeErr env = None \<and> Recompute (aeNow env) (sbRepo sub) up s = (Inl e, s')" "w' = w\<lparr>psStore := s'\<rparr>"
  | (landed) u ufs s up m s' where "acceptRows env sub key (fst diff) dropBase = (u, ufs)"
      "CreateUpload (aeNow env) u ufs (psStore w) = (Inr up, s)" "Recompute (aeNow env) (sbRepo sub) up s = (Inr m, s')"
      "\<exists>push again. res = Inr \<lparr>arUpload = up, arMerged = m, arDiffStatus = snd diff, arPush = push, arAgain = again\<rparr>"
      "w' = w\<lparr>psStore := snd (Push (aeRound env) hosted baseURL (sbRepo sub) up m s')\<rparr>"
proof -
  obtain covered tot where cov: "profileCoverage (sbProfile sub) = (covered, tot)" by fastforce
  obtain u ufs where rows: "acceptRows env sub key (fst diff) dropBase = (u, ufs)" by fastforce
  then have rows': "submissionRows sub key (fst diff) (EvaluateGate (rpGate (sbRepo sub)) (Percent covered tot) dropBase (fst diff)) dropBase covered tot
    = (u, ufs)" by (simp add: acceptRows_def cov)
  obtain up s where c: "CreateUpload (aeNow env) u ufs (psStore w) = (Inr up, s)" by (simp add: CreateUpload_def Let_def)
  have eq: "acceptStored env hosted baseURL sub key diff dropBase w =
      (case (case aeSaveErr env of Some e \<Rightarrow> (Inl e, psStore w) | None \<Rightarrow> (Inr up, s)) of
        (Inl e, s) \<Rightarrow> (Inl (AcceptSave e), w\<lparr>psStore := s, psBlobs := (if aeDeleteErr env then psBlobs w else blobDelete key (psBlobs w))\<rparr>)
      | (Inr upload, s) \<Rightarrow>
          (case (case aeMergeErr env of Some e \<Rightarrow> (Inl e, s) | None \<Rightarrow> Recompute (aeNow env) (sbRepo sub) upload s) of
             (Inl e, s) \<Rightarrow> (Inl (AcceptMerge e), w\<lparr>psStore := s\<rparr>)
           | (Inr rc', s) \<Rightarrow>
               (let ((push, again), s) = Push (aeRound env) hosted baseURL (sbRepo sub) upload rc' s
                in (Inr \<lparr>arUpload = upload, arMerged = rc', arDiffStatus = snd diff, arPush = push, arAgain = again\<rparr>,
                    w\<lparr>psStore := s\<rparr>))))"
    unfolding acceptStored_def Let_def cov prod.case rows' c ..
  show ?thesis
  proof (cases "aeSaveErr env")
    case (Some e)
    then have "res = Inl (AcceptSave e)" "w' = w\<lparr>psBlobs := (if aeDeleteErr env then psBlobs w else blobDelete key (psBlobs w))\<rparr>"
      using assms unfolding eq by auto
    then show ?thesis by (rule unsaved [OF _ Some])
  next
    case None
    obtain r s' where m: "(case aeMergeErr env of Some e \<Rightarrow> (Inl e, s) | None \<Rightarrow> Recompute (aeNow env) (sbRepo sub) up s) = (r, s')" by fastforce
    show ?thesis
    proof (cases r)
      case (Inl e)
      have "aeMergeErr env = Some e \<and> s' = s \<or> aeMergeErr env = None \<and> Recompute (aeNow env) (sbRepo sub) up s = (Inl e, s')"
        using m Inl by (auto split: option.splits)
      moreover have "res = Inl (AcceptMerge e)" "w' = w\<lparr>psStore := s'\<rparr>" using assms None m Inl unfolding eq by simp_all
      ultimately show ?thesis using unmerged rows c by blast
    next
      case (Inr rc')
      obtain push again t where p: "Push (aeRound env) hosted baseURL (sbRepo sub) up rc' s' = ((push, again), t)" by (metis surj_pair)
      have "Recompute (aeNow env) (sbRepo sub) up s = (Inr rc', s')" using m Inr by (auto split: option.splits)
      moreover have "\<exists>push again. res = Inr \<lparr>arUpload = up, arMerged = rc', arDiffStatus = snd diff, arPush = push, arAgain = again\<rparr>"
        "w' = w\<lparr>psStore := snd (Push (aeRound env) hosted baseURL (sbRepo sub) up rc' s')\<rparr>"
        using assms None m Inr p unfolding eq by auto
      ultimately show ?thesis using landed rows c by blast
    qed
  qed
qed

lemma Recompute_failed:
  assumes "storeInv s" and "Recompute now repo u s = (Inl e, s')"
  shows "s' = s"
proof (cases "mergedView (memReads s) repo u (LatestUploadsPerPart (rpID repo) (upCommitSHA u) s)")
  case (Inl x)
  then show ?thesis using assms(2) by (simp add: Recompute_def WithCommitReportTx_def)
next
  case (Inr x)
  then show ?thesis using Recompute_saved [OF assms(1), of repo u "fst x" "snd x" now] assms(2) by simp
qed

lemma Recompute_report:
  assumes "storeInv s" and "rowsCounted s" and "Recompute now repo u s = (Inr m, s')"
  defines "parts \<equiv> LatestUploadsPerPart (rpID repo) (upCommitSHA u) s"
  obtains cr base where "viewOf s repo u parts base m" "commitReportLocked (rpID repo) (upCommitSHA u) s' = Some cr"
    "reportRow cr = reportRow (viewReport repo u (length parts) base m)" "uploads s' = uploads s" "files s' = files s"
proof -
  have "\<forall>u \<in> set parts. \<forall>f \<in> set (filesOfUpload s (upID u)). counted f" using assms(2) by (simp add: rowsCounted_def)
  then obtain m' base where v: "mergedView (memReads s) repo u parts = Inr (m', viewReport repo u (length parts) base m')"
    "viewOf s repo u parts base m'"
    by (rule mergedView_mem [OF assms(1)])
  note run = Recompute_saved [OF assms(1) v(1) [unfolded parts_def], of now, folded parts_def]
  have m: "m' = m" "s' = snd (UpsertCommitReport now (viewReport repo u (length parts) base m) s)" using run assms(3) by auto
  have "crRepoID (viewReport repo u n base m) = rpID repo" "crCommitSHA (viewReport repo u n base m) = upCommitSHA u" for n
    by (simp_all add: viewReport_def)
  then obtain cr where "commitReportLocked (rpID repo) (upCommitSHA u) s' = Some cr"
    "reportRow cr = reportRow (viewReport repo u (length parts) base m)"
    using Upsert_saved [OF assms(1), of now "viewReport repo u (length parts) base m"] m(2) by auto
  then show thesis using that v(2) Upsert_keeps m by simp
qed

lemma applyIgnore_visibility:
  "isl (applyIgnore ctxErr (sub\<lparr>sbRepo := (sbRepo sub)\<lparr>rpVisibility := v, rpVisibilityCheckedAt := t\<rparr>\<rparr>)) = isl (applyIgnore ctxErr sub)"
  by (auto simp: applyIgnore_def Let_def split: sum.split prod.split)

lemma Recompute_ok: "storeInv s \<Longrightarrow> rowsCounted s \<Longrightarrow> \<exists>m s'. Recompute now repo u s = (Inr m, s')"
  by (metis Recompute_saved mergedView_mem rowsCounted_def)

lemma acceptRows_upload:
  assumes "acceptRows env sub key diff dropBase = (u, ufs)"
  shows "upRawBlobKey u = key" "upRepoID u = rpID (sbRepo sub)" "upCommitSHA u = sbCommit sub" "upMeta u = sbMeta sub"
    "(upCoveredStmts u, upTotalStmts u) = profileCoverage (sbProfile sub)" "ufs = map newUploadFile (Files (sbProfile sub))"
  using assms by (auto simp: acceptRows_def submissionRows_def split: prod.splits)

lemma acceptRows_stored:
  assumes "acceptRows env sub key diff dropBase = (u, ufs)" and "CreateUpload now u ufs s = (Inr up, s')"
    and inv: "storeInv s" and cnt: "rowsCounted s"
  shows "storeInv s'" "rowsCounted s'"
proof -
  show "storeInv s'" using CreateUpload_inv [OF inv, of now u ufs] assms(2) by simp
  have "0 \<le> upSeq s" using inv_parts(3) [OF inv] by (simp add: uploadInv_def keyed_def)
  then show "rowsCounted s'" using CreateUpload_counted [OF cnt, of ufs now u] assms(2) acceptRows_upload(6) [OF assms(1)]
    by (simp add: counted_new)
qed

text \<open>The steps of \<open>Accept\<close> up to the stored profile.\<close>

lemma Accept_cases:
  assumes "Accept env hosted baseURL ttl sub w = (res, w')"
  obtains (early) e w1 where "res = Inl e" "\<And>x. e \<noteq> AcceptMerge x" "sameData (psStore w) (psStore w1)" "psBlobs w1 = psBlobs w" "w' = w1"
      "isl (applyIgnore (aeCtx env) sub) \<or> aeBaseErr env \<noteq> None \<or> aePutErr env \<noteq> None \<or> \<not> storeInv (psStore w)"
  | (kept) w1 v t rules n sub' diff dropBase where
      "sameData (psStore w) (psStore w1)" "psBlobs w1 = psBlobs w" "storeInv (psStore w) \<Longrightarrow> storeInv (psStore w1)"
      "applyIgnore (aeCtx env) (sub\<lparr>sbRepo := (sbRepo sub)\<lparr>rpVisibility := v, rpVisibilityCheckedAt := t\<rparr>\<rparr>) = Inr ((rules, n), sub')"
      "acceptStored env hosted baseURL (sub'\<lparr>sbMeta := (sbMeta sub')\<lparr>mIgnoredFiles := n\<rparr>\<rparr>) (blobKeyOf (rpID (sbRepo sub)) (aeKey env)) diff dropBase
         (w1\<lparr>psBlobs := blobPut (blobKeyOf (rpID (sbRepo sub)) (aeKey env)) (sbRaw sub') (psBlobs w)\<rparr>) = (res, w')"
proof -
  obtain repo w1 where vis: "acceptVisibility env ttl (sbRepo sub) w = (repo, w1)" by fastforce
  note keeps = acceptVisibility_keeps [OF vis]
  obtain v t where repo: "repo = (sbRepo sub)\<lparr>rpVisibility := v, rpVisibilityCheckedAt := t\<rparr>" using keeps(4) by blast
  have rid: "rpID repo = rpID (sbRepo sub)" by (simp add: repo)
  show ?thesis
  proof (cases "applyIgnore (aeCtx env) (sub\<lparr>sbRepo := repo\<rparr>)")
    case (Inl e)
    have "e \<noteq> AcceptMerge x" for x using Inl ignoreLoop_error by (auto simp: applyIgnore_def Let_def split: if_splits sum.splits)
    moreover have "res = Inl e" "w' = w1" using assms by (simp_all add: Accept_def vis Inl)
    moreover have "isl (applyIgnore (aeCtx env) sub)" using Inl applyIgnore_visibility [where ctxErr = "aeCtx env" and sub = sub and v = v and t = t] by (simp add: repo)
    ultimately show ?thesis using early keeps(1,2) by metis
  next
    case (Inr x)
    then obtain rules n sub' where ign: "applyIgnore (aeCtx env) (sub\<lparr>sbRepo := repo\<rparr>) = Inr ((rules, n), sub')" by (metis surj_pair)
    define diff where "diff = (if sbPRID sub' \<noteq> []
                 then diffCoverage (case reForge (aeRound env) of None \<Rightarrow> None | Some _ \<Rightarrow> Some (aeDiff env))
                   (sbProfile sub') (sbFormat sub') (sbPathPrefix sub') rules
                 else (None, DiffNotAsked))"
    let ?sub = "sub'\<lparr>sbMeta := (sbMeta sub')\<lparr>mIgnoredFiles := n\<rparr>\<rparr>" and ?key = "blobKeyOf (rpID (sbRepo sub)) (aeKey env)"
    let ?base = "case aeBaseErr env of Some e \<Rightarrow> Inl e | None \<Rightarrow> gateDropBase (memReads (psStore w1)) repo (sbCommit sub') [sbPart sub']"
    have sel: "sbPRID (x\<lparr>sbMeta := y\<rparr>) = sbPRID x" "sbProfile (x\<lparr>sbMeta := y\<rparr>) = sbProfile x" "sbFormat (x\<lparr>sbMeta := y\<rparr>) = sbFormat x"
      "sbPathPrefix (x\<lparr>sbMeta := y\<rparr>) = sbPathPrefix x" "sbCommit (x\<lparr>sbMeta := y\<rparr>) = sbCommit x" "sbPart (x\<lparr>sbMeta := y\<rparr>) = sbPart x"
      "sbRaw (x\<lparr>sbMeta := y\<rparr>) = sbRaw x" for x :: Submission and y by simp_all
    have acc: "Accept env hosted baseURL ttl sub w = (case ?base of Inl e \<Rightarrow> (Inl (AcceptBaseline e), w1)
      | Inr dropBase \<Rightarrow> (case storeRaw env (rpID (sbRepo sub)) (sbRaw sub') (psBlobs w1) of
                  (Inl e, b) \<Rightarrow> (Inl (AcceptBlob e), w1\<lparr>psBlobs := b\<rparr>)
                | (Inr key, b) \<Rightarrow> acceptStored env hosted baseURL ?sub key diff dropBase (w1\<lparr>psBlobs := b\<rparr>)))"
      unfolding Accept_def Let_def vis prod.case ign sum.case diff_def rid sel ..
    show ?thesis
    proof (cases ?base)
      case (Inl e)
      have "res = Inl (AcceptBaseline e)" "w' = w1" using assms unfolding acc Inl by simp_all
      moreover have "aeBaseErr env \<noteq> None \<or> \<not> storeInv (psStore w)"
        using Inl gateDropBase_ok [OF keeps(3), of repo "sbCommit sub'" "[sbPart sub']"] by (auto split: option.splits)
      ultimately show ?thesis using early keeps(1,2) by blast
    next
      case (Inr dropBase)
      show ?thesis
      proof (cases "aePutErr env")
        case (Some e)
        then have "res = Inl (AcceptBlob e)" "w' = w1" using assms unfolding acc Inr by (simp_all add: storeRaw_def)
        then show ?thesis using early keeps(1,2) Some by blast
      next
        case None
        then have "acceptStored env hosted baseURL ?sub ?key diff dropBase (w1\<lparr>psBlobs := blobPut ?key (sbRaw sub') (psBlobs w)\<rparr>) = (res, w')"
          using assms unfolding acc Inr by (simp add: storeRaw_def keeps(2) Let_def)
        then show ?thesis using kept keeps(1-3) ign unfolding repo by blast
      qed
    qed
  qed
qed

lemma blobGet_put [simp]: "blobGet key (blobPut key raw b) = Some raw"
  by (simp add: blobGet_def blobPut_def)

lemma applyIgnore_raw: "applyIgnore ctxErr sub = Inr (x, sub') \<Longrightarrow> sbRaw sub' = sbRaw sub \<and> sbRepo sub' = sbRepo sub \<and> sbCommit sub' = sbCommit sub"
  by (auto simp: applyIgnore_def Let_def split: if_splits sum.splits)

text \<open>The row an upload is stored as.\<close>

lemma CreateUpload_row:
  assumes "CreateUpload now u fs s = (Inr up, s')"
  shows "upID up = upSeq s + 1" "map_of (uploads s') (upSeq s + 1) = Some up" "reports s' = reports s"
    "i \<noteq> upSeq s + 1 \<Longrightarrow> map_of (uploads s') i = map_of (uploads s) i"
    "\<exists>i t. up = u\<lparr>upID := i, upCreatedAt := t\<rparr>"
  using assms by (auto simp: CreateUpload_def Let_def)

lemma CreateUpload_latest:
  assumes "storeInv s" and "CreateUpload now u fs s = (Inr up, s')" and "ofCommit r c up"
  shows "up \<in> set (LatestUploadsPerPart r c s')"
proof -
  have "storeInv s'" using CreateUpload_inv [OF assms(1), of now u fs] assms(2) by simp
  then have k: "keyed upID (upSeq s') (uploads s')" using inv_parts(3) by (simp add: uploadInv_def)
  have seq: "upSeq s' = upSeq s + 1" using assms(2) by (auto simp: CreateUpload_def Let_def)
  have "upID v \<le> upID up" if "map_of (uploads s') i = Some v" for i v
    using k that CreateUpload_row(1) [OF assms(2)] seq by (auto simp: keyed_def)
  then show ?thesis using LatestUploadsPerPart_rows [OF k, of r c] CreateUpload_row(2) [OF assms(2)] assms(3) by blast
qed


text \<open>
  C1: an accepted upload. It is stored under the next number with the totals and the rows of the
  report its patterns left, the count of what they took out, and the raw profile exactly as it was
  posted; it is its part's latest upload, and the merged report saved for the commit, made from
  every part's latest upload with this one, is what the caller is given.
\<close>

theorem accept_stores_what_it_measured:
  assumes "Accept env hosted baseURL ttl sub w = (Inr res, w')" and "storeInv (psStore w)" and "rowsCounted (psStore w)"
  defines "up \<equiv> arUpload res" and "parts \<equiv> LatestUploadsPerPart (rpID (sbRepo sub)) (sbCommit sub) (psStore w')"
  shows "\<exists>v t rules n left cr. applyIgnore (aeCtx env) (sub\<lparr>sbRepo := (sbRepo sub)\<lparr>rpVisibility := v, rpVisibilityCheckedAt := t\<rparr>\<rparr>) = Inr ((rules, n), left)
    \<and> upID up = upSeq (psStore w) + 1 \<and> map_of (uploads (psStore w')) (upID up) = Some up
    \<and> (upCoveredStmts up, upTotalStmts up) = profileCoverage (sbProfile left) \<and> mIgnoredFiles (upMeta up) = n
    \<and> filesOfUpload (psStore w') (upID up) = sort_key ufPath (map (\<lambda>f. (newUploadFile f)\<lparr>ufUploadID := upID up\<rparr>) (Files (sbProfile left)))
    \<and> blobGet (upRawBlobKey up) (psBlobs w') = Some (sbRaw sub)
    \<and> up \<in> set parts
    \<and> commitReportLocked (rpID (sbRepo sub)) (sbCommit sub) (psStore w') = Some cr \<and> crUploadID cr = upID up
    \<and> (crCoveredStmts cr, crTotalStmts cr) = recomputedTotals (psStore w') parts
    \<and> (upCoveredStmts (mgUpload (arMerged res)), upTotalStmts (mgUpload (arMerged res))) = recomputedTotals (psStore w') parts"
  using assms(1)
proof (cases rule: Accept_cases)
  case (kept w1 v t rules n sub' diff dropBase)
  note sub' = applyIgnore_raw [OF kept(4)]
  show ?thesis using kept(5)
  proof (cases rule: acceptStored_cases)
    case (landed u ufs s up' m s')
    have up: "up = up'" "arMerged res = m" using landed(4) by (auto simp: up_def)
    have c: "CreateUpload (aeNow env) u ufs (psStore w1) = (Inr up, s)" using landed(2) up by simp
    note row = CreateUpload_row [OF c]
    note rows = acceptRows_upload [OF landed(1)]
    obtain i t' where fields: "up = u\<lparr>upID := i, upCreatedAt := t'\<rparr>" using row(5) by blast
    have key: "upRepoID up = rpID (sbRepo sub)" "upCommitSHA up = sbCommit sub" using rows(2,3) sub' fields by simp_all
    have inv: "storeInv (psStore w1)" using kept(3) assms(2) .
    have cnt: "rowsCounted (psStore w1)" using sameData_counted [OF kept(1)] assms(3) by simp
    note s = acceptRows_stored [OF landed(1) c inv cnt]
    then obtain cr base where r: "viewOf s (sbRepo sub') up (LatestUploadsPerPart (rpID (sbRepo sub')) (upCommitSHA up) s) base m"
      "commitReportLocked (rpID (sbRepo sub')) (upCommitSHA up) s' = Some cr"
      "reportRow cr = reportRow (viewReport (sbRepo sub') up (length (LatestUploadsPerPart (rpID (sbRepo sub')) (upCommitSHA up) s)) base m)"
      "uploads s' = uploads s" "files s' = files s"
      using landed(3) up by (auto elim!: Recompute_report [OF s(1)])
    have rid: "rpID (sbRepo sub') = rpID (sbRepo sub)" using sub' by simp
    have w': "uploads (psStore w') = uploads s" "files (psStore w') = files s" "reports (psStore w') = reports s'"
      using landed(5) Push_data r(4,5) by (simp_all add: sameData_def)
    have parts: "parts = LatestUploadsPerPart (rpID (sbRepo sub)) (sbCommit sub) s"
      by (simp add: parts_def LatestUploadsPerPart_def w')
    have rec: "recomputedTotals (psStore w') parts = recomputedTotals s parts"
      by (simp add: recomputedTotals_def filesOfUpload_def w')
    have lock: "commitReportLocked (rpID (sbRepo sub)) (sbCommit sub) (psStore w') = Some cr"
      using r(2) by (simp add: commitReportLocked_def w' rid key)
    have cr: "crUploadID cr = upID up" "crCoveredStmts cr = upCoveredStmts (mgUpload m)" "crTotalStmts cr = upTotalStmts (mgUpload m)"
      using arg_cong [OF r(3), of crUploadID] arg_cong [OF r(3), of crCoveredStmts] arg_cong [OF r(3), of crTotalStmts]
      by (simp_all only: reportRow_select) (simp_all add: viewReport_def)
    have tot: "(upCoveredStmts (mgUpload m), upTotalStmts (mgUpload m)) = recomputedTotals s parts"
      using r(1) by (simp add: viewOf_def parts rid key)
    have seq: "upSeq (psStore w1) = upSeq (psStore w)" using kept(1) by (simp add: sameData_def)
    have files: "filesOfUpload (psStore w') (upID up) = sort_key ufPath (map (\<lambda>f. (newUploadFile f)\<lparr>ufUploadID := upID up\<rparr>) (Files (sbProfile sub')))"
      using CreateUpload_filesOf [of "aeNow env" u ufs "psStore w1" "upID up"] c row(1) rows(6)
      by (simp add: filesOfUpload_def w' comp_def)
    show ?thesis
    proof (intro exI conjI)
      show "up \<in> set parts" unfolding parts by (rule CreateUpload_latest [OF inv c]) (simp_all add: key ofCommit_def)
      show "applyIgnore (aeCtx env) (sub\<lparr>sbRepo := (sbRepo sub)\<lparr>rpVisibility := v, rpVisibilityCheckedAt := t\<rparr>\<rparr>) = Inr ((rules, n), sub')"
        by (rule kept(4))
      show "(upCoveredStmts up, upTotalStmts up) = profileCoverage (sbProfile sub')" using rows(5) fields by simp
      show "mIgnoredFiles (upMeta up) = n" using rows(4) fields by simp
      show "blobGet (upRawBlobKey up) (psBlobs w') = Some (sbRaw sub)" using rows(1) fields landed(5) sub' by simp
      show "(crCoveredStmts cr, crTotalStmts cr) = recomputedTotals (psStore w') parts"
        "(upCoveredStmts (mgUpload (arMerged res)), upTotalStmts (mgUpload (arMerged res))) = recomputedTotals (psStore w') parts"
        by (simp_all only: rec cr tot up)
    qed (use row(1,2) seq w' files lock cr in simp_all)
  qed auto
qed auto

text \<open>Nothing but what the submission ignores and what fails outside keeps an upload from landing.\<close>

lemma Accept_lands:
  assumes "storeInv (psStore w)" and "rowsCounted (psStore w)" and "\<not> isl (applyIgnore (aeCtx env) sub)"
    and "aeBaseErr env = None" and "aePutErr env = None" and "aeSaveErr env = None" and "aeMergeErr env = None"
  shows "\<exists>res w'. Accept env hosted baseURL ttl sub w = (Inr res, w')"
proof -
  obtain res w' where run: "Accept env hosted baseURL ttl sub w = (res, w')" by fastforce
  show ?thesis
  proof (cases res)
    case (Inl e)
    from run [unfolded Inl] show ?thesis
    proof (cases rule: Accept_cases)
      case (early e' w1)
      then show ?thesis using assms by blast
    next
      case (kept w1 v t rules n sub' diff dropBase)
      show ?thesis using kept(5)
      proof (cases rule: acceptStored_cases)
        case (unmerged e' u ufs s up s')
        have s: "storeInv s" "rowsCounted s"
          using acceptRows_stored [OF unmerged(2) _ kept(3) [OF assms(1)] sameData_counted [OF kept(1) assms(2)]] unmerged(3) by simp_all
        obtain m s'' where "Recompute (aeNow env) (sbRepo (sub'\<lparr>sbMeta := (sbMeta sub')\<lparr>mIgnoredFiles := n\<rparr>\<rparr>)) up s = (Inr m, s'')"
          using Recompute_ok [OF s] by blast
        then show ?thesis using unmerged(4) assms(7) by simp
      qed (use assms in auto)
    qed
  qed (use run in auto)
qed

text \<open>A submission of two files, one of which the repo ignores, with nothing but the store at hand.\<close>

definition sampleSub :: Submission where
  "sampleSub = \<lparr>sbRepo = zeroRepo\<lparr>rpID := 1, rpIgnorePaths := [''gen'']\<rparr>, sbCommit = ''c'', sbBranch = ''main'', sbPRID = [], sbPart = ''unit'',
     sbFormat = ''go'', sbPathPrefix = [], sbRaw = ''posted'',
     sbProfile = \<lparr>Files = map (\<lambda>p. \<lparr>fPath = p, fBlocks = [\<lparr>StartLine = 1, StartCol = 0, EndLine = 1, EndCol = 0, NumStmts = 2, Count = 1\<rparr>]\<rparr>)
       [''gen/b.go'', ''a.go'']\<rparr>, sbMeta = zeroMeta, sbIgnore = []\<rparr>"

definition sampleEnv :: "storeError option \<Rightarrow> acceptEnv" where
  "sampleEnv mergeErr = \<lparr>aeNow = 5, aeForges = None, aeVisibility = VisFailed, aeCtx = (\<lambda>_. None), aeDiff = DiffNotImplemented, aeKey = ''k'',
     aeBaseErr = None, aePutErr = None, aeSaveErr = None, aeDeleteErr = False, aeMergeErr = mergeErr,
     aeRound = \<lparr>reNow = 5, reForge = None, reClaimErr = None, reFinishErr = False, reReloadErr = None, reCut = False\<rparr>\<rparr>"

definition sampleStart :: pipeState where
  "sampleStart = \<lparr>psStore = newStore, psBlobs = [], psVis = \<lparr>visChecks = [], visInFlight = []\<rparr>\<rparr>"


theorem accept_stores_what_it_measured_witness:
  "\<exists>res w' cr. Accept (sampleEnv None) False [] 0 sampleSub sampleStart = (Inr res, w') \<and> upID (arUpload res) = 1
    \<and> blobGet (upRawBlobKey (arUpload res)) (psBlobs w') = Some ''posted''
    \<and> commitReportLocked 1 ''c'' (psStore w') = Some cr \<and> crUploadID cr = 1"
proof -
  have inv: "storeInv (psStore sampleStart)" "rowsCounted (psStore sampleStart)" by (simp_all add: sampleStart_def storeInv_new rowsCounted_new)
  have "\<not> isl (applyIgnore (aeCtx (sampleEnv None)) sampleSub)" by code_simp
  then obtain res w' where run: "Accept (sampleEnv None) False [] 0 sampleSub sampleStart = (Inr res, w')"
    using Accept_lands [OF inv, where env = "sampleEnv None" and sub = sampleSub and hosted = False and baseURL = "[]" and ttl = 0]
    by (auto simp: sampleEnv_def [of None])
  have seq: "upSeq (psStore sampleStart) = 0" "sbRaw sampleSub = ''posted''" "rpID (sbRepo sampleSub) = 1" "sbCommit sampleSub = ''c''"
    by (simp_all add: sampleStart_def newStore_def sampleSub_def)
  note all = accept_stores_what_it_measured [OF run inv, unfolded seq]
  have "upID (arUpload res) = 0 + 1" using all by (elim exE conjE) assumption
  moreover have "blobGet (upRawBlobKey (arUpload res)) (psBlobs w') = Some ''posted''" using all by (elim exE conjE) assumption
  moreover have "\<exists>cr. commitReportLocked 1 ''c'' (psStore w') = Some cr \<and> crUploadID cr = upID (arUpload res)"
    using all by (elim exE conjE) (rule exI, erule conjI, assumption)
  ultimately show ?thesis using run by auto
qed

end
