(* ===== verification/UploadAuth.thy ===== *)
theory UploadAuth
  imports RunClaims Oidc Accept
begin

text \<open>
  Which repo an upload is for, and whether its credential may write to it: the bearer tokens and
  the registration of \<open>internal/server/uploadrepo.go\<close>, and the identity tokens of
  \<open>internal/server/oidc.go\<close>. What the forges, the parsers of documents and the random source
  answer is one record of arguments; \<open>authority\<close> splits a URL's authority as in \<open>GoURL\<close>.
\<close>

section \<open>The server's state and surroundings\<close>

datatype repoIDAnswer = RepoIDIs string | RepoIDNotFound | RepoIDFailed

record uploadConfig =
  ucVerifier :: "Verifier option"
  ucGitLabIssuers :: "string list"
  ucBaseURL :: string
  ucHosted :: bool
  ucVisibilityTTL :: time

record uploadEnv =
  evNow :: time
  evMint :: "int \<Rightarrow> connectError option"
  evRefresh :: "string \<Rightarrow> connectError + forgeGrant"
  evBranch :: "client \<Rightarrow> string \<Rightarrow> branchAnswer"
  evRepoID :: "client \<Rightarrow> string \<Rightarrow> repoIDAnswer"
  evNewToken :: string
  evGitHub :: githubAPI
  evOidc :: oidcEnv
  evLower :: "int \<Rightarrow> int"
  evOrbit :: "int \<Rightarrow> int \<Rightarrow> bool"
  evAuthority :: "string \<Rightarrow> (string option \<times> string) option"
  evBusySlots :: nat
  evParse :: "string \<Rightarrow> string \<Rightarrow> profile option"
  evElapsed :: time
  evAccept :: acceptEnv

record uploadState =
  upsPipe :: pipeState
  upsForges :: forgesState
  upsTokenless :: tokenlessState
  upsKeys :: keyCache

abbreviation upsStore :: "uploadState \<Rightarrow> memStore" where
  "upsStore st \<equiv> psStore (upsPipe st)"

definition withStore :: "forgesState \<Rightarrow> memStore \<Rightarrow> uploadState \<Rightarrow> uploadState" where
  "withStore fs s st = st\<lparr>upsPipe := (upsPipe st)\<lparr>psStore := s\<rparr>, upsForges := fs\<rparr>"

datatype uploadRefusal =
    TooManyPreAuth
  | BadMultipart
  | InvalidToken
  | LookupFailed
  | TokenlessRefused tokenlessRefusal
  | OidcUnavailable
  | OidcRefused oidcError
  | OidcUnsupportedIssuer
  | OidcNoRepoClaim
  | OidcNoRepoID
  | OidcRepoMismatch
  | OidcNeedsRepo
  | OidcUntracked string
  | OidcNotConnected bool
  | OidcRateLimited
  | OidcNoClient
  | OidcRepoUnverified
  | TokenOfOtherRepo
  | NeedsRepoField
  | TokenOfOtherWorkspace
  | BadRepoName
  | RepoNotOnTheForge
  | RegistrationFailed
  | MissingCommit
  | BadCommit
  | BadPart string
  | TooManyParts
  | BadIgnore ignoreError
  | MissingProfile
  | UnreadableProfile
  | UnsupportedFormat
  | UnparsableProfile
  | DuplicateUpload
  | PatternsTooCostly
  | NothingLeft
  | AcceptFailed

section \<open>Tokens and registration\<close>

definition lookupUploadToken :: "string \<Rightarrow> memStore \<Rightarrow> uploadRefusal + Repo option \<times> Workspace option" where
  "lookupUploadToken token s =
     (case RepoByToken token s of
        Inr repo \<Rightarrow> Inr (Some repo, None)
      | Inl e \<Rightarrow>
          if e \<noteq> ErrNotFound then Inl LookupFailed
          else (case WorkspaceByToken token s of
              Inr ws \<Rightarrow> Inr (None, Some ws)
            | Inl e \<Rightarrow> Inl (if e = ErrNotFound then InvalidToken else LookupFailed)))"

definition checkRepoName :: "Workspace \<Rightarrow> string \<Rightarrow> bool" where
  "checkRepoName ws slug \<longleftrightarrow> ValidRepoName (wsForge ws) (trimPrefix slug (wsPrefix ws @ ''/''))"

text \<open>\<open>registerRepo\<close>, with the client \<open>Pipeline.RegisterRepo\<close> asks the forge through.\<close>

definition registerRepo :: "uploadEnv \<Rightarrow> Workspace \<Rightarrow> string \<Rightarrow> uploadState \<Rightarrow> (uploadRefusal + Repo) \<times> uploadState" where
  "registerRepo env ws slug st =
     (let (fg, fs, s) = Connected (evNow env) (evMint env) (evRefresh env) (Some ws) (wsForge ws) (upsForges st, upsStore st);
          (res, s) = RegisterRepo (evNow env) ws slug (map_option (\<lambda>c. evBranch env c slug) fg) (evNewToken env) s
      in (case res of Inl RepoNotOnForge \<Rightarrow> Inl RepoNotOnTheForge | Inl (RegisterFailed _) \<Rightarrow> Inl RegistrationFailed | Inr repo \<Rightarrow> Inr repo,
          withStore fs s st))"

text \<open>The repo, and whether this upload registered it.\<close>

definition resolveUploadRepo :: "uploadEnv \<Rightarrow> Repo option \<Rightarrow> Workspace option \<Rightarrow> string \<Rightarrow> uploadState
    \<Rightarrow> (uploadRefusal + Repo \<times> bool) \<times> uploadState" where
  "resolveUploadRepo env authed ws slug st =
     (case authed of
        Some repo \<Rightarrow> (if slug \<noteq> [] \<and> slug \<noteq> rpSlug repo then Inl TokenOfOtherRepo else Inr (repo, False), st)
      | None \<Rightarrow>
          if slug = [] then (Inl NeedsRepoField, st)
          else (case ws of
              None \<Rightarrow> (Inl LookupFailed, st)
            | Some ws \<Rightarrow>
                if \<not> hasPrefix slug (wsPrefix ws @ ''/'') then (Inl TokenOfOtherWorkspace, st)
                else if \<not> checkRepoName ws slug then (Inl BadRepoName, st)
                else (case RepoBySlug (wsForge ws) slug (upsStore st) of
                    Inr repo \<Rightarrow> (Inr (repo, False), st)
                  | Inl e \<Rightarrow>
                      if e \<noteq> ErrNotFound then (Inl LookupFailed, st)
                      else (case registerRepo env ws slug st of
                          (Inl r, st) \<Rightarrow> (Inl r, st)
                        | (Inr repo, st) \<Rightarrow> (Inr (repo, True), st)))))"

section \<open>Identity tokens\<close>

definition gitHubActionsIssuer :: string where
  "gitHubActionsIssuer = ''https://token.actions.githubusercontent.com''"

definition gitLabDotComIssuer :: string where
  "gitLabDotComIssuer = ''https://gitlab.com''"

definition bitbucketIssuerPrefix :: string where
  "bitbucketIssuerPrefix = ''https://api.bitbucket.org/2.0/workspaces/''"

definition bitbucketIssuerSuffix :: string where
  "bitbucketIssuerSuffix = ''/pipelines-config/identity/oidc''"

text \<open>The one workspace segment of a Bitbucket issuer's path.\<close>

definition bitbucketIssuerPath :: "string \<Rightarrow> string option" where
  "bitbucketIssuerPath p =
     (case cutPrefix p ''/2.0/workspaces/'' of
        None \<Rightarrow> None
      | Some r \<Rightarrow>
          if \<not> hasSuffix r bitbucketIssuerSuffix then None
          else let w = trimSuffix r bitbucketIssuerSuffix in if w = [] \<or> CHR ''/'' \<in> set w then None else Some w)"

definition bitbucketIssuerWorkspace :: "(string \<Rightarrow> (string option \<times> string) option) \<Rightarrow> string \<Rightarrow> string option" where
  "bitbucketIssuerWorkspace authority issuer =
     (case urlParse authority issuer of
        None \<Rightarrow> None
      | Some u \<Rightarrow>
          if uScheme u \<noteq> ''https'' \<or> uHost u \<noteq> ''api.bitbucket.org'' \<or> uUser u \<noteq> None \<or> uRawQuery u \<noteq> [] \<or> uFragment u \<noteq> [] then None
          else bitbucketIssuerPath (uPath u))"

definition bitbucketIssuerMatch :: "(string \<Rightarrow> (string option \<times> string) option) \<Rightarrow> string \<Rightarrow> bool" where
  "bitbucketIssuerMatch authority issuer \<longleftrightarrow> bitbucketIssuerWorkspace authority issuer \<noteq> None"

definition bitbucketIssuerResolver :: "(string \<Rightarrow> (string option \<times> string) option) \<Rightarrow> memStore \<Rightarrow> string \<Rightarrow> string option" where
  "bitbucketIssuerResolver authority s issuer =
     (case bitbucketIssuerWorkspace authority issuer of
        None \<Rightarrow> None
      | Some workspace \<Rightarrow> (case WorkspaceByPrefix ''bitbucket'' workspace s of
          Inl _ \<Rightarrow> None
        | Inr ws \<Rightarrow> Some (bitbucketIssuerPrefix @ wsPrefix ws @ bitbucketIssuerSuffix)))"

text \<open>The issuers \<open>New\<close> trusts: an operator's GitLab instances in place of gitlab.com.\<close>

definition gitlabIssuersOf :: "string list \<Rightarrow> string list" where
  "gitlabIssuersOf configured =
     (let own = filter (\<lambda>i. i \<noteq> []) (map trimSlashes configured) in if own = [] then [gitLabDotComIssuer] else own)"

definition oidcVerifierOf :: "string \<Rightarrow> string list \<Rightarrow> Verifier option" where
  "oidcVerifierOf baseURL gitlab = (if baseURL \<noteq> [] then Some (NewVerifier baseURL (gitHubActionsIssuer # gitlab)) else None)"

definition oidcForge :: "uploadConfig \<Rightarrow> (string \<Rightarrow> (string option \<times> string) option) \<Rightarrow> string \<Rightarrow> string" where
  "oidcForge cfg authority issuer =
     (if issuer = gitHubActionsIssuer then ''github''
      else if bitbucketIssuerMatch authority issuer then ''bitbucket''
      else if issuer \<in> set (ucGitLabIssuers cfg) then ''gitlab''
      else [])"

definition verifyOIDC :: "uploadConfig \<Rightarrow> uploadEnv \<Rightarrow> string \<Rightarrow> uploadState \<Rightarrow> (uploadRefusal + Token) \<times> uploadState" where
  "verifyOIDC cfg env raw st =
     (case ucVerifier cfg of
        None \<Rightarrow> (Inl OidcUnavailable, st)
      | Some v \<Rightarrow>
          (case Verify v (Some (bitbucketIssuerResolver (evAuthority env) (upsStore st))) (evOidc env) (evNow env) raw (upsKeys st) of
             (Inl e, m) \<Rightarrow> (Inl (OidcRefused e), st\<lparr>upsKeys := m\<rparr>)
           | (Inr tok, m) \<Rightarrow> (Inr tok, st\<lparr>upsKeys := m\<rparr>)))"

definition oidcAvailable :: "uploadConfig \<Rightarrow> forgesState \<Rightarrow> Workspace \<Rightarrow> bool" where
  "oidcAvailable cfg fs ws \<longleftrightarrow>
     ucVerifier cfg \<noteq> None \<and> Capable (fsConfig fs) (wsForge ws)
     \<and> (let (connected, broken, _) = forgeConnection ws in connected \<and> \<not> broken)"

definition connectionBroken :: "Workspace \<Rightarrow> bool" where
  "connectionBroken ws \<longleftrightarrow> (let (connected, broken, _) = forgeConnection ws in connected \<and> broken)"

text \<open>The repo when it is tracked, and the workspace, connected, that the slug falls under.\<close>

definition oidcLookup :: "uploadConfig \<Rightarrow> string \<Rightarrow> string \<Rightarrow> uploadState \<Rightarrow> uploadRefusal + Repo option \<times> Workspace" where
  "oidcLookup cfg slug forgeName st =
     (case (case RepoBySlug forgeName slug (upsStore st) of Inr repo \<Rightarrow> Inr (Some repo) | Inl e \<Rightarrow> if e = ErrNotFound then Inr None else Inl e) of
        Inl e \<Rightarrow> Inl LookupFailed
      | Inr repo \<Rightarrow> (case LookupWorkspace slug forgeName (upsStore st) of
          Inl e \<Rightarrow> Inl LookupFailed
        | Inr None \<Rightarrow> Inl (if repo = None then OidcUntracked (slugOwner slug) else OidcNotConnected False)
        | Inr (Some ws) \<Rightarrow>
            if \<not> oidcAvailable cfg (upsForges st) ws then Inl (OidcNotConnected (connectionBroken ws)) else Inr (repo, ws)))"

definition oidcRegisterRepo :: "uploadEnv \<Rightarrow> Workspace \<Rightarrow> string \<Rightarrow> uploadState \<Rightarrow> (uploadRefusal + Repo) \<times> uploadState" where
  "oidcRegisterRepo env ws slug st = (if \<not> checkRepoName ws slug then (Inl BadRepoName, st) else registerRepo env ws slug st)"

definition oidcResolveBySlug :: "uploadConfig \<Rightarrow> uploadEnv \<Rightarrow> (string \<Rightarrow> string) \<Rightarrow> string \<Rightarrow> string \<Rightarrow> uploadState \<Rightarrow> (uploadRefusal + Repo) \<times> uploadState" where
  "oidcResolveBySlug cfg env form slug forgeName st =
     (if slug = [] then (Inl OidcNoRepoClaim, st)
      else if form ''repo'' \<noteq> [] \<and> form ''repo'' \<noteq> slug then (Inl OidcRepoMismatch, st)
      else case oidcLookup cfg slug forgeName st of
        Inl r \<Rightarrow> (Inl r, st)
      | Inr (Some repo, ws) \<Rightarrow> (Inr repo, st)
      | Inr (None, ws) \<Rightarrow> oidcRegisterRepo env ws slug st)"

definition bitbucketTokenFromWorkspace :: "uploadEnv \<Rightarrow> Token \<Rightarrow> Workspace \<Rightarrow> bool" where
  "bitbucketTokenFromWorkspace env tok ws \<longleftrightarrow>
     (case bitbucketIssuerWorkspace (evAuthority env) (tokIssuer tok) of None \<Rightarrow> False | Some w \<Rightarrow> equalFold (evOrbit env) w (wsPrefix ws))"

definition bitbucketRepoUUID :: "Token \<Rightarrow> string" where
  "bitbucketRepoUUID tok =
     (if tokClaim tok ''repositoryUuid'' \<noteq> [] then tokClaim tok ''repositoryUuid''
      else if tokSubject tok \<noteq> [] then fst (cutAt CHR '':'' (tokSubject tok))
      else [])"

definition normalizeUUID :: "(int \<Rightarrow> int) \<Rightarrow> string \<Rightarrow> string" where
  "normalizeUUID uni s = toLower uni (trimSet {CHR ''{'', CHR ''}''} (trimSpace s))"

definition allowRepo :: "string \<Rightarrow> string \<Rightarrow> time \<Rightarrow> uploadState \<Rightarrow> bool \<times> uploadState" where
  "allowRepo forgeName slug now st =
     (let (ok, l) = limiterAllow forgeName slug now (tkLimiter (upsTokenless st))
      in (ok, st\<lparr>upsTokenless := (upsTokenless st)\<lparr>tkLimiter := l\<rparr>\<rparr>))"

text \<open>The binding of slug and identity, asked of Bitbucket through the workspace's own connection.\<close>

definition bitbucketBinding :: "uploadEnv \<Rightarrow> Workspace \<Rightarrow> string \<Rightarrow> string \<Rightarrow> uploadState \<Rightarrow> uploadRefusal option \<times> uploadState" where
  "bitbucketBinding env ws slug wantUUID st =
     (let (fg, fs, s) = Connected (evNow env) (evMint env) (evRefresh env) (Some ws) ''bitbucket'' (upsForges st, upsStore st)
      in (case fg of
            None \<Rightarrow> Some OidcNoClient
          | Some c \<Rightarrow> (case evRepoID env c slug of
              RepoIDNotFound \<Rightarrow> Some OidcRepoMismatch
            | RepoIDFailed \<Rightarrow> Some OidcRepoUnverified
            | RepoIDIs got \<Rightarrow> if normalizeUUID (evLower env) got \<noteq> normalizeUUID (evLower env) wantUUID then Some OidcRepoMismatch else None),
          withStore fs s st))"

definition oidcResolveBitbucket :: "uploadConfig \<Rightarrow> uploadEnv \<Rightarrow> (string \<Rightarrow> string) \<Rightarrow> Token \<Rightarrow> uploadState \<Rightarrow> (uploadRefusal + Repo) \<times> uploadState" where
  "oidcResolveBitbucket cfg env form tok st =
     (let wantUUID = bitbucketRepoUUID tok; slug = form ''repo''
      in if wantUUID = [] then (Inl OidcNoRepoID, st)
         else if slug = [] then (Inl OidcNeedsRepo, st)
         else case oidcLookup cfg slug ''bitbucket'' st of
           Inl r \<Rightarrow> (Inl r, st)
         | Inr (repo, ws) \<Rightarrow>
             if \<not> bitbucketTokenFromWorkspace env tok ws then (Inl OidcRepoMismatch, st)
             else if repo = None \<and> \<not> checkRepoName ws slug then (Inl BadRepoName, st)
             else (case allowRepo ''bitbucket'' slug (evNow env) st of
                 (False, st) \<Rightarrow> (Inl OidcRateLimited, st)
               | (True, st) \<Rightarrow> (case bitbucketBinding env ws slug wantUUID st of
                   (Some r, st) \<Rightarrow> (Inl r, st)
                 | (None, st) \<Rightarrow> (case repo of Some repo \<Rightarrow> (Inr repo, st) | None \<Rightarrow> oidcRegisterRepo env ws slug st))))"

definition authOIDC :: "uploadConfig \<Rightarrow> uploadEnv \<Rightarrow> (string \<Rightarrow> string) \<Rightarrow> uploadState \<Rightarrow> (uploadRefusal + Repo) \<times> uploadState" where
  "authOIDC cfg env form st =
     (case verifyOIDC cfg env (form ''oidc_token'') st of
        (Inl r, st) \<Rightarrow> (Inl r, st)
      | (Inr tok, st) \<Rightarrow>
          (let forgeName = oidcForge cfg (evAuthority env) (tokIssuer tok)
           in if forgeName = ''github'' then oidcResolveBySlug cfg env form (tokClaim tok ''repository'') ''github'' st
              else if forgeName = ''gitlab'' then oidcResolveBySlug cfg env form (tokClaim tok ''project_path'') ''gitlab'' st
              else if forgeName = ''bitbucket'' then oidcResolveBitbucket cfg env form tok st
              else (Inl OidcUnsupportedIssuer, st)))"

end
