(* ===== verification/Uploads.thy ===== *)
theory Uploads
  imports UploadAuth
begin

text \<open>
  The upload endpoint, \<open>internal/server/upload.go\<close>, from the request to its answer: the credential,
  the form's fields, the profile, the acceptance by the pipeline. A request is its authorization
  header and what its body reads as, \<open>None\<close> for a body too large or not a multipart form. One
  request is one step; what happens between the claim of a tokenless upload and its acceptance
  is a step relation of its own.
\<close>

section \<open>The request\<close>

record formData =
  foValues :: "(string, string list) gomap"
  foFile :: "(string \<times> string option) option"

record uploadPost =
  poAuthorization :: string
  poForm :: "formData option"

definition formValue :: "formData \<Rightarrow> string \<Rightarrow> string" where
  "formValue f k = (case map_of (foValues f) k of Some (v # _) \<Rightarrow> v | _ \<Rightarrow> [])"

definition formValues :: "formData \<Rightarrow> string \<Rightarrow> string list" where
  "formValues f k = (case map_of (foValues f) k of Some vs \<Rightarrow> vs | None \<Rightarrow> [])"

definition maxPreAuthUploads :: nat where
  "maxPreAuthUploads = 16"

definition maxPartsPerCommit :: nat where
  "maxPartsPerCommit = 50"

definition knownCIProviders :: "string list" where
  "knownCIProviders = [''github'', ''gitlab'', ''bitbucket'']"

definition runURL :: "uploadEnv \<Rightarrow> string \<Rightarrow> string" where
  "runURL env raw =
     (if raw = [] then []
      else case urlParse (evAuthority env) raw of
        None \<Rightarrow> []
      | Some u \<Rightarrow> if (uScheme u = ''http'' \<or> uScheme u = ''https'') \<and> uHost u \<noteq> [] then raw else [])"

definition buildUploadMeta :: "uploadEnv \<Rightarrow> formData \<Rightarrow> string \<Rightarrow> nat \<Rightarrow> UploadMeta" where
  "buildUploadMeta env form filename rawLen =
     (let kind = formValue form ''uploader_kind''; p = toLower (evLower env) (formValue form ''ci_provider'')
      in \<lparr>mUploader = clip (formValue form ''uploader'') 60,
          mUploaderKind = (if kind = ''cli'' \<or> kind = ''action'' then kind else []),
          mCIProvider = (if p \<in> set knownCIProviders then p else []),
          mCIRunURL = runURL env (clip (formValue form ''ci_run_url'') 500),
          mCommitMessage = clip (firstLine (formValue form ''commit_message'')) 200,
          mCommitAuthor = clip (formValue form ''commit_author'') 120,
          mProfileName = clip (baseName filename) 200,
          mProfileBytes = int rawLen,
          mProcessMillis = evElapsed env div 1000000,
          mTokenless = False,
          mIgnoredFiles = 0\<rparr>)"

record uploadRequest =
  uqRepo :: Repo
  uqRepoCreated :: bool
  uqCommit :: string
  uqBranch :: string
  uqPRID :: string
  uqPart :: string
  uqFormat :: string
  uqPathPrefix :: string
  uqIgnore :: "string list"
  uqFilename :: string
  uqRaw :: string
  uqProf :: profile

text \<open>The parsers; a format whose document is XML or JSON is read by \<open>evParse\<close>.\<close>

definition parseProfile :: "uploadEnv \<Rightarrow> string \<Rightarrow> string \<Rightarrow> profile option" where
  "parseProfile env fmt raw =
     (if fmt = ''go'' then (case goParse (\<lambda>bs. bs) raw of Inl _ \<Rightarrow> None | Inr p \<Rightarrow> Some p)
      else if fmt = ''lcov'' then (case lcovParse raw of Inl _ \<Rightarrow> None | Inr p \<Rightarrow> Some p)
      else evParse env fmt raw)"

definition readProfile :: "uploadEnv \<Rightarrow> formData \<Rightarrow> uploadRefusal + string \<times> string \<times> string \<times> profile" where
  "readProfile env form =
     (case foFile form of
        None \<Rightarrow> Inl MissingProfile
      | Some (_, None) \<Rightarrow> Inl UnreadableProfile
      | Some (filename, Some raw) \<Rightarrow>
          (let fmt = (if formValue form ''format'' \<noteq> [] then formValue form ''format'' else if Detect raw \<noteq> [] then Detect raw else ''go'')
           in if \<not> snd (formatLookup fmt) then Inl UnsupportedFormat
              else case parseProfile env fmt raw of None \<Rightarrow> Inl UnparsableProfile | Some p \<Rightarrow> Inr (fmt, filename, raw, p)))"

text \<open>The fields, once the repo is known.\<close>

definition validateUpload :: "uploadEnv \<Rightarrow> formData \<Rightarrow> Repo \<Rightarrow> bool \<Rightarrow> memStore \<Rightarrow> uploadRefusal + uploadRequest" where
  "validateUpload env form repo created s =
     (let commit = formValue form ''commit''
      in if commit = [] then Inl MissingCommit
         else if \<not> commitMatches commit then Inl BadCommit
         else case NormalizePart (evLower env) (formValue form ''part'') of
           Inl p \<Rightarrow> Inl (BadPart p)
         | Inr part \<Rightarrow>
             (let parts = CommitParts (rpID repo) commit s; ignore = concat (map Parse (formValues form ''ignore''))
              in if length parts \<ge> maxPartsPerCommit \<and> part \<notin> set parts then Inl TooManyParts
                 else case Validate ignore of
                   Some e \<Rightarrow> Inl (BadIgnore e)
                 | None \<Rightarrow> (case readProfile env form of
                     Inl r \<Rightarrow> Inl r
                   | Inr (fmt, filename, raw, prof) \<Rightarrow>
                       Inr \<lparr>uqRepo = repo, uqRepoCreated = created, uqCommit = commit,
                         uqBranch = (if formValue form ''branch'' = [] then rpDefaultBranch repo else formValue form ''branch''),
                         uqPRID = formValue form ''pr_id'', uqPart = part, uqFormat = fmt,
                         uqPathPrefix = trimSuffix (formValue form ''path_prefix'') ''/'', uqIgnore = ignore,
                         uqFilename = filename, uqRaw = raw, uqProf = prof\<rparr>)))"

definition readUploadRequest :: "uploadEnv \<Rightarrow> formData \<Rightarrow> Repo option \<Rightarrow> Workspace option \<Rightarrow> uploadState
    \<Rightarrow> (uploadRefusal + uploadRequest) \<times> uploadState" where
  "readUploadRequest env form authed ws st =
     (case resolveUploadRepo env authed ws (formValue form ''repo'') st of
        (Inl r, st) \<Rightarrow> (Inl r, st)
      | (Inr (repo, created), st) \<Rightarrow> (validateUpload env form repo created (upsStore st), st))"

section \<open>The credential\<close>

definition bearerToken :: "uploadPost \<Rightarrow> string option" where
  "bearerToken post = (case cutPrefix (poAuthorization post) ''Bearer '' of Some t \<Rightarrow> if t \<noteq> [] then Some t else None | None \<Rightarrow> None)"

definition authFormCredential :: "uploadConfig \<Rightarrow> uploadEnv \<Rightarrow> uploadPost \<Rightarrow> uploadState
    \<Rightarrow> (uploadRefusal + tokenlessClaim option \<times> Repo) \<times> uploadState" where
  "authFormCredential cfg env post st =
     (if evBusySlots env \<ge> maxPreAuthUploads then (Inl TooManyPreAuth, st)
      else case poForm post of
        None \<Rightarrow> (Inl BadMultipart, st)
      | Some form \<Rightarrow>
          if formValue form ''oidc_token'' \<noteq> [] then
            (case authOIDC cfg env (formValue form) st of (Inl r, st) \<Rightarrow> (Inl r, st) | (Inr repo, st) \<Rightarrow> (Inr (None, repo), st))
          else
            (case authTokenless (fsConfig (upsForges st)) (VerifyRunClaim (evOrbit env) (evGitHub env)) (evNow env) (formValue form)
                (upsTokenless st, upsStore st) of
               (res, k, s) \<Rightarrow>
                 (case res of Inl r \<Rightarrow> Inl (TokenlessRefused r) | Inr (claim, repo) \<Rightarrow> Inr (Some claim, repo),
                  withStore (upsForges st) s (st\<lparr>upsTokenless := k\<rparr>))))"

section \<open>Accepting\<close>

record uploadResponse =
  urID :: int
  urTotalPct :: rat
  urCoveredStmts :: int
  urTotalStmts :: int
  urDeltaPct :: "rat option"
  urRepoCreated :: bool
  urGate :: string
  urIgnoredFiles :: int
  urWarnings :: "string list"
  urPart :: string
  urParts :: "string list"
  urDiff :: "(rat \<times> int \<times> int) option"
  urDiffStatus :: diffStatus
  urPush :: PushResult

definition respond :: "bool \<Rightarrow> AcceptResult \<Rightarrow> uploadResponse" where
  "respond created res =
     \<lparr>urID = upID (arUpload res), urTotalPct = upTotalPct (mgUpload (arMerged res)),
      urCoveredStmts = upCoveredStmts (mgUpload (arMerged res)), urTotalStmts = upTotalStmts (mgUpload (arMerged res)),
      urDeltaPct = mgDelta (arMerged res), urRepoCreated = created,
      urGate = (if vConfigured (mgVerdict (arMerged res)) then verdictString (mgVerdict (arMerged res)) else []),
      urIgnoredFiles = mIgnoredFiles (upMeta (arUpload res)), urWarnings = mgWarnings (arMerged res),
      urPart = upPart (arUpload res), urParts = mgParts (arMerged res),
      urDiff = map_option (\<lambda>d. (resultPercent d, rCoveredLines d, rTotalLines d)) (upDiffCoverage (mgUpload (arMerged res))),
      urDiffStatus = arDiffStatus res, urPush = arPush res\<rparr>"

definition submissionOf :: "uploadRequest \<Rightarrow> UploadMeta \<Rightarrow> Submission" where
  "submissionOf req meta =
     \<lparr>sbRepo = uqRepo req, sbCommit = uqCommit req, sbBranch = uqBranch req, sbPRID = uqPRID req, sbPart = uqPart req,
      sbFormat = uqFormat req, sbPathPrefix = uqPathPrefix req, sbRaw = uqRaw req, sbProfile = uqProf req, sbMeta = meta,
      sbIgnore = uqIgnore req\<rparr>"

definition acceptRefusal :: "acceptError \<Rightarrow> uploadRefusal" where
  "acceptRefusal e = (case e of AcceptTooCostly \<Rightarrow> PatternsTooCostly | AcceptAllIgnored \<Rightarrow> NothingLeft | _ \<Rightarrow> AcceptFailed)"

definition acceptSubmission :: "uploadConfig \<Rightarrow> uploadEnv \<Rightarrow> uploadRequest \<Rightarrow> UploadMeta \<Rightarrow> pipeState \<Rightarrow> (acceptError + AcceptResult) \<times> pipeState" where
  "acceptSubmission cfg env req meta w =
     Accept (evAccept env) (ucHosted cfg) (ucBaseURL cfg) (ucVisibilityTTL cfg) (submissionOf req meta) w"

text \<open>\<open>ReleaseTokenlessUpload\<close> and \<open>ClaimTokenlessUpload\<close> for a request's repo and part.\<close>

definition claimUpload :: "tokenlessClaim \<Rightarrow> uploadRequest \<Rightarrow> pipeState \<Rightarrow> bool \<times> pipeState" where
  "claimUpload tc req w =
     (let (won, s) = ClaimTokenlessUpload (rpID (uqRepo req)) (tcRunID tc) (tcRunAttempt tc) (uqPart req) (psStore w) in (won, w\<lparr>psStore := s\<rparr>))"

definition releaseUpload :: "tokenlessClaim \<Rightarrow> uploadRequest \<Rightarrow> pipeState \<Rightarrow> pipeState" where
  "releaseUpload tc req w = w\<lparr>psStore := ReleaseTokenlessUpload (rpID (uqRepo req)) (tcRunID tc) (tcRunAttempt tc) (uqPart req) (psStore w)\<rparr>"

definition acceptClaimed :: "uploadConfig \<Rightarrow> uploadEnv \<Rightarrow> tokenlessClaim option \<Rightarrow> uploadRequest \<Rightarrow> UploadMeta \<Rightarrow> pipeState
    \<Rightarrow> (uploadRefusal + uploadResponse) \<times> pipeState" where
  "acceptClaimed cfg env claim req meta w =
     (case acceptSubmission cfg env req meta w of
        (Inl e, w) \<Rightarrow> (Inl (acceptRefusal e), case claim of None \<Rightarrow> w | Some tc \<Rightarrow> releaseUpload tc req w)
      | (Inr res, w) \<Rightarrow> (Inr (respond (uqRepoCreated req) res), w))"

definition landUpload :: "uploadConfig \<Rightarrow> uploadEnv \<Rightarrow> tokenlessClaim option \<Rightarrow> uploadRequest \<Rightarrow> UploadMeta \<Rightarrow> pipeState
    \<Rightarrow> (uploadRefusal + uploadResponse) \<times> pipeState" where
  "landUpload cfg env claim req meta w =
     (case claim of
        None \<Rightarrow> acceptClaimed cfg env None req meta w
      | Some tc \<Rightarrow>
          (let (won, w) = claimUpload tc req w
           in if \<not> won then (Inl DuplicateUpload, w) else acceptClaimed cfg env claim req (meta\<lparr>mTokenless := True\<rparr>) w))"

text \<open>From the authenticated request on.\<close>

definition readAndLand :: "uploadConfig \<Rightarrow> uploadEnv \<Rightarrow> uploadPost \<Rightarrow> tokenlessClaim option \<Rightarrow> Repo option \<Rightarrow> Workspace option \<Rightarrow> uploadState
    \<Rightarrow> (uploadRefusal + uploadResponse) \<times> uploadState" where
  "readAndLand cfg env post claim repo ws st =
     (case poForm post of
        None \<Rightarrow> (Inl BadMultipart, st)
      | Some form \<Rightarrow>
          (case readUploadRequest env form repo ws st of
             (Inl r, st) \<Rightarrow> (Inl r, st)
           | (Inr req, st) \<Rightarrow>
               (let (res, w) = landUpload cfg env claim req (buildUploadMeta env form (uqFilename req) (length (uqRaw req))) (upsPipe st)
                in (res, st\<lparr>upsPipe := w\<rparr>))))"

definition handleUpload :: "uploadConfig \<Rightarrow> uploadEnv \<Rightarrow> uploadPost \<Rightarrow> uploadState \<Rightarrow> (uploadRefusal + uploadResponse) \<times> uploadState" where
  "handleUpload cfg env post st =
     (case bearerToken post of
        Some token \<Rightarrow> (case lookupUploadToken token (upsStore st) of
            Inl r \<Rightarrow> (Inl r, st)
          | Inr (repo, ws) \<Rightarrow> readAndLand cfg env post None repo ws st)
      | None \<Rightarrow> (case authFormCredential cfg env post st of
            (Inl r, st) \<Rightarrow> (Inl r, st)
          | (Inr (claim, repo), st) \<Rightarrow> readAndLand cfg env post claim (Some repo) None st))"

end
