(* ===== verification/UploadRules.thy ===== *)
theory UploadRules
  imports Uploads
begin

text \<open>
  What the upload endpoint promises: what looking at a credential may change in the store, which
  repo each credential names, and that nothing is stored for any other.
\<close>

section \<open>What authenticating changes\<close>

text \<open>
  The store after a credential was looked at: connections may be flagged, rotated tokens kept,
  visibility closed and a repo registered, but uploads, their rows, the merged reports and the
  tokenless claims are as they were, and no repo's forge, name or token.
\<close>

definition sameRepo :: "Repo \<Rightarrow> Repo \<Rightarrow> bool" where
  "sameRepo r r' \<longleftrightarrow> rpID r' = rpID r \<and> rpForge r' = rpForge r \<and> rpSlug r' = rpSlug r \<and> rpToken r' = rpToken r"

definition authChange :: "memStore \<Rightarrow> memStore \<Rightarrow> bool" where
  "authChange s t \<longleftrightarrow> sameData s t \<and> tokenless t = tokenless s \<and> (storeInv s \<longrightarrow> storeInv t)
     \<and> (storeInv s \<longrightarrow> (\<forall>k r. map_of (repos s) k = Some r \<longrightarrow> (\<exists>r'. map_of (repos t) k = Some r' \<and> sameRepo r r')))"

lemma authChange_refl [simp]: "authChange s s"
  by (simp add: authChange_def sameData_def sameRepo_def)

lemma authChange_trans: "authChange s t \<Longrightarrow> authChange t u \<Longrightarrow> authChange s u"
  unfolding authChange_def sameData_def sameRepo_def by fastforce

lemma authChange_same_repos:
  assumes "sameData s t" and "tokenless t = tokenless s" and "storeInv s \<Longrightarrow> storeInv t" and "repos t = repos s"
  shows "authChange s t"
  using assms by (simp add: authChange_def sameRepo_def)

lemma authChange_ops:
  "authChange s (snd (SetWorkspaceGrant wid f g s))" "authChange s (snd (SetGitHubAppBroken wid i b s))"
  "authChange s (snd (MarkWorkspaceGrantBroken wid f a s))"
proof -
  have "repos t = repos s \<and> sameData s t \<and> tokenless t = tokenless s"
    if "t \<in> {snd (SetWorkspaceGrant wid f g s), snd (SetGitHubAppBroken wid i b s), snd (MarkWorkspaceGrantBroken wid f a s)}" for t
    using that by (auto simp: SetWorkspaceGrant_def SetGitHubAppBroken_def MarkWorkspaceGrantBroken_def sameData_def split: option.split)
  then show "authChange s (snd (SetWorkspaceGrant wid f g s))" "authChange s (snd (SetGitHubAppBroken wid i b s))"
    "authChange s (snd (MarkWorkspaceGrantBroken wid f a s))"
    by (simp_all add: authChange_same_repos SetWorkspaceGrant_inv SetGitHubAppBroken_inv MarkWorkspaceGrantBroken_inv)
qed

lemma authChange_visibility: "authChange s (snd (SetRepoVisibility i v t s))"
proof -
  have "tokenless (snd (SetRepoVisibility i v t s)) = tokenless s" by (simp add: SetRepoVisibility_def split: option.split)
  moreover have "\<exists>r'. map_of (repos (snd (SetRepoVisibility i v t s))) k = Some r' \<and> sameRepo r r'" if "map_of (repos s) k = Some r" for k r
    using that by (auto simp: SetRepoVisibility_def update_conv' sameRepo_def split: option.split)
  ultimately show ?thesis by (simp add: authChange_def SetRepoVisibility_data SetRepoVisibility_inv)
qed

lemma authChange_closing: "authChange s (closeOwned now ws s r)" "authChange s (MarkWorkspaceReposPrivate now ws s)"
proof -
  have one: "authChange s (closeOwned now ws s r)" for s r by (simp add: closeOwned_def authChange_visibility)
  have "authChange s (foldl (closeOwned now ws) s rs)" for rs
    by (induction rs arbitrary: s) (auto intro: authChange_trans one)
  then show "authChange s (closeOwned now ws s r)" "authChange s (MarkWorkspaceReposPrivate now ws s)"
    by (simp_all add: one MarkWorkspaceReposPrivate_def)
qed

lemma authChange_marking: "authChange s (markAppBroken now ws s)" "authChange s (markGrantBroken now f ws s)"
  by (auto simp: markAppBroken_def markGrantBroken_def intro: authChange_trans [OF authChange_ops(2) authChange_closing(2)]
      authChange_trans [OF authChange_ops(3) authChange_closing(2)])

lemma authChange_connected: "authChange s (snd (snd (Connected now mint refresh ws f (fs, s))))"
proof -
  have app: "authChange s (snd (installationForge now cfg mint ws f s))" for cfg s
    by (auto simp: installationForge_def authChange_marking authChange_ops split: option.split connectError.split)
  have tok: "authChange s (snd (snd (accessToken now f refresh w (fs, s))))" for fs s w
    by (auto simp: accessToken_def lockedToken_def keepRotated_def Let_def authChange_ops split: option.split sum.split connectError.split prod.split)
  have grant: "authChange s (snd (snd (grantForge now refresh ws f (fs, s))))" for fs s
  proof (cases ws)
    case (Some w)
    obtain r fs' s' where a: "accessToken now f refresh w (fs, s) = (r, fs', s')" by (metis surj_pair)
    have "authChange s s'" using tok [where fs = fs and s = s and w = w] by (simp add: a)
    then show ?thesis using authChange_trans [OF \<open>authChange s s'\<close> authChange_marking(2)]
      by (auto simp: grantForge_def Some a split: sum.split tokenError.split)
  qed (simp add: grantForge_def)
  obtain c s' where i: "installationForge now (fsConfig fs) mint ws f s = (c, s')" by fastforce
  have "authChange s s'" using app [where cfg = "fsConfig fs" and s = s] by (simp add: i)
  then show ?thesis using authChange_trans [OF \<open>authChange s s'\<close> grant] by (cases c) (simp_all add: Connected_def i)
qed

lemma authChange_create: "authChange s (snd (CreateRepo now r s))"
proof (cases "snd (CreateRepo now r s) = s")
  case False
  then obtain r' where "snd (CreateRepo now r s) = s\<lparr>repoSeq := repoSeq s + 1, repos := AList.update (repoSeq s + 1) r' (repos s)\<rparr>"
    using CreateRepo_store [of now r s] by blast
  then have "map_of (repos (snd (CreateRepo now r s))) k = (if k = repoSeq s + 1 then Some r' else map_of (repos s) k)"
    "sameData s (snd (CreateRepo now r s))" "tokenless (snd (CreateRepo now r s)) = tokenless s" for k
    by (simp_all add: update_conv' sameData_def)
  moreover have "map_of (repos s) (repoSeq s + 1) = None" if "storeInv s"
    using that by (auto simp: storeInv_def repoInv_def keyed_fresh)
  ultimately show ?thesis using CreateRepo_inv [of s now r] by (auto simp: authChange_def sameRepo_def)
qed simp

lemma authChange_register: "authChange s (snd (RegisterRepo now ws slug fg token s))"
proof -
  have "snd (RegisterRepo now ws slug fg token s) = s \<or> (\<exists>r. snd (RegisterRepo now ws slug fg token s) = snd (CreateRepo now r s))"
    by (auto simp: RegisterRepo_def Let_def simp del: firstNonEmpty.simps split: sum.split prod.split) (metis snd_conv)+
  then show ?thesis using authChange_create by (metis authChange_refl)
qed

text \<open>The row a registration answers with: of the workspace's forge, under the slug.\<close>

lemma CreateRepo_row:
  assumes "CreateRepo now r s = (Inr r', s')"
  shows "rpForge r' = rpForge r" "rpSlug r' = rpSlug r" "\<exists>t. map_of (repos s') (rpID r') = Some (r'\<lparr>rpVisibilityCheckedAt := t\<rparr>)"
  using assms by (auto simp: CreateRepo_def Let_def update_conv' split: if_splits)

lemma RepoBySlug_exact: "storeInv s \<Longrightarrow> RepoBySlug f slug s = Inr r \<Longrightarrow> rpForge r = f \<and> rpSlug r = slug \<and> map_of (repos s) (rpID r) = Some r"
proof -
  assume inv: "storeInv s" and r: "RepoBySlug f slug s = Inr r"
  have k: "keyed rpID (repoSeq s) (repos s)" using inv by (simp add: storeInv_def repoInv_def)
  have "findVal (repos s) (\<lambda>r. rpForge r = f \<and> rpSlug r = slug) = Some r"
    using r by (auto simp: RepoBySlug_def rowOr_def split: option.splits)
  then obtain i where "rpForge r = f \<and> rpSlug r = slug" "map_of (repos s) i = Some r" using findVal_Some [OF keyed_wf [OF k]] by blast
  then show "rpForge r = f \<and> rpSlug r = slug \<and> map_of (repos s) (rpID r) = Some r" using keyed_id [OF k] by metis
qed

lemma RegisterRepo_row:
  assumes "storeInv s" and "RegisterRepo now ws slug fg token s = (Inr r, s')"
  shows "rpForge r = wsForge ws \<and> rpSlug r = slug \<and> (\<exists>r'. map_of (repos s') (rpID r) = Some r' \<and> sameRepo r r')"
proof -
  let ?r = "zeroRepo\<lparr>rpForge := wsForge ws, rpSlug := slug, rpToken := token,
     rpDefaultBranch := firstNonEmpty [(case fg of Some (BranchIs b) \<Rightarrow> b | _ \<Rightarrow> []), wsDefaultBranch ws, ''main''], rpGate := wsGate ws\<rparr>"
  obtain res t where c: "CreateRepo now ?r s = (res, t)" by fastforce
  have inv: "storeInv t" using CreateRepo_inv [OF assms(1), of now ?r] unfolding c by simp
  show ?thesis
  proof (cases res)
    case (Inl e)
    then have "RepoBySlug (wsForge ws) slug t = Inr r" "s' = t"
      using assms(2) c by (auto simp: RegisterRepo_def Let_def simp del: firstNonEmpty.simps split: if_splits sum.splits)
    then show ?thesis using RepoBySlug_exact [OF inv] by (auto simp: sameRepo_def)
  next
    case (Inr r')
    then have "r = r'" "s' = t" using assms(2) c by (auto simp: RegisterRepo_def Let_def simp del: firstNonEmpty.simps split: if_splits)
    then show ?thesis using CreateRepo_row [OF c [unfolded Inr]] by (auto simp: sameRepo_def)
  qed
qed

lemma registerRepo_row:
  assumes "registerRepo env ws slug st = (res, st')" and "storeInv (upsStore st)"
  shows "authChange (upsStore st) (upsStore st')"
    "res = Inr r \<Longrightarrow> rpForge r = wsForge ws \<and> rpSlug r = slug \<and> (\<exists>r'. map_of (repos (upsStore st')) (rpID r) = Some r' \<and> sameRepo r r')"
proof -
  obtain fg fs s where c: "Connected (evNow env) (evMint env) (evRefresh env) (Some ws) (wsForge ws) (upsForges st, upsStore st) = (fg, fs, s)"
    by (metis surj_pair)
  obtain q s' where r: "RegisterRepo (evNow env) ws slug (map_option (\<lambda>c. evBranch env c slug) fg) (evNewToken env) s = (q, s')" by fastforce
  have s: "authChange (upsStore st) s"
    using authChange_connected [of "upsStore st" "evNow env" "evMint env" "evRefresh env" "Some ws" "wsForge ws" "upsForges st"] by (simp add: c)
  have "authChange s s'" using authChange_register [of s "evNow env" ws slug "map_option (\<lambda>c. evBranch env c slug) fg" "evNewToken env"] by (simp add: r)
  then show "authChange (upsStore st) (upsStore st')"
    using authChange_trans [OF s] assms(1) by (auto simp: registerRepo_def c r withStore_def)
  have "storeInv s" using s assms(2) by (simp add: authChange_def)
  then show "rpForge r = wsForge ws \<and> rpSlug r = slug \<and> (\<exists>r'. map_of (repos (upsStore st')) (rpID r) = Some r' \<and> sameRepo r r')" if "res = Inr r"
  proof (cases q)
    case (Inl e)
    then show ?thesis using that assms(1) by (cases e) (auto simp: registerRepo_def c r withStore_def)
  next
    case (Inr r')
    then have "r' = r" "upsStore st' = s'" using that assms(1) by (auto simp: registerRepo_def c r withStore_def)
    then show ?thesis using RegisterRepo_row [OF \<open>storeInv s\<close> r [unfolded Inr]] by simp
  qed
qed

section \<open>What accepting changes\<close>

lemma SetRepoVisibility_tokenless [simp]: "tokenless (snd (SetRepoVisibility i v t s)) = tokenless s"
  by (simp add: SetRepoVisibility_def split: option.split)

lemma acceptVisibility_tokenless: "tokenless (psStore (snd (acceptVisibility env ttl repo w))) = tokenless (psStore w)"
proof -
  have "tokenless (snd (closeUnverifiable n cfg r s)) = tokenless s" "tokenless (snd (RefreshVisibility n a r s)) = tokenless s" for n a cfg r s
    by (simp_all add: vis_stores split: option.split)
  then show ?thesis
    by (auto simp: acceptVisibility_def refreshVisibilityOnce_def Let_def split: prod.split) (metis snd_conv)+
qed

lemma store_keeps:
  "tokenless (snd (CreateUpload now u fs s)) = tokenless s"
  "tokenless (snd (Recompute now repo u s)) = tokenless s" "uploads (snd (Recompute now repo u s)) = uploads s"
  "tokenless (snd (Push env hosted baseURL repo u m s)) = tokenless s" "uploads (snd (Push env hosted baseURL repo u m s)) = uploads s"
proof -
  have up: "tokenless (snd (UpsertCommitReport now cr s)) = tokenless s \<and> uploads (snd (UpsertCommitReport now cr s)) = uploads s" for cr
    by (simp add: UpsertCommitReport_def Let_def split: option.split)
  show "tokenless (snd (CreateUpload now u fs s)) = tokenless s" by (simp add: CreateUpload_def Let_def)
  show "tokenless (snd (Recompute now repo u s)) = tokenless s" "uploads (snd (Recompute now repo u s)) = uploads s"
    using up by (auto simp: Recompute_def WithCommitReportTx_def split: sum.split prod.split) (metis snd_conv)+
  show "tokenless (snd (Push env hosted baseURL repo u m s)) = tokenless s" "uploads (snd (Push env hosted baseURL repo u m s)) = uploads s"
    by (simp_all add: Push_def pushRound_def ClaimPush_def FinishPush_def Let_def split: option.split prod.split)
qed

lemma acceptStored_tokenless:
  assumes "acceptStored env hosted baseURL sub key diff dropBase w = (res, w')"
  shows "tokenless (psStore w') = tokenless (psStore w)"
  using assms
proof (cases rule: acceptStored_cases)
  case (unmerged e u ufs s up s')
  then show ?thesis using store_keeps(1) [of "aeNow env" u ufs "psStore w"] store_keeps(2) [of "aeNow env" "sbRepo sub" up s] by auto
next
  case (landed u ufs s up m s')
  then show ?thesis using store_keeps(1) [of "aeNow env" u ufs "psStore w"] store_keeps(2) [of "aeNow env" "sbRepo sub" up s] store_keeps(4) by auto
qed simp

lemma Accept_tokenless:
  assumes "Accept env hosted baseURL ttl sub w = (res, w')"
  shows "tokenless (psStore w') = tokenless (psStore w)"
proof -
  obtain repo w1 where v: "acceptVisibility env ttl (sbRepo sub) w = (repo, w1)" by fastforce
  have "tokenless (psStore w1) = tokenless (psStore w)" using acceptVisibility_tokenless [of env ttl "sbRepo sub" w] by (simp add: v)
  moreover have "tokenless (psStore w') = tokenless (psStore w1)"
    using assms by (auto simp: Accept_def v Let_def storeRaw_def split: sum.splits prod.splits option.splits dest!: acceptStored_tokenless)
  ultimately show ?thesis by simp
qed

text \<open>The one upload an acceptance can add, and what of it the submission decides.\<close>

definition rowOf :: "Submission \<Rightarrow> Upload \<Rightarrow> bool" where
  "rowOf sub u \<longleftrightarrow> upRepoID u = rpID (sbRepo sub) \<and> upCommitSHA u = sbCommit sub \<and> upPart u = sbPart sub
     \<and> (\<exists>n. upMeta u = (sbMeta sub)\<lparr>mIgnoredFiles := n\<rparr>)"

lemma applyIgnore_rest:
  "applyIgnore ctxErr sub = Inr (x, sub') \<Longrightarrow> sbPart sub' = sbPart sub \<and> sbMeta sub' = sbMeta sub \<and> sbRepo sub' = sbRepo sub \<and> sbCommit sub' = sbCommit sub"
  by (auto simp: applyIgnore_def Let_def split: if_splits sum.splits)

lemma Accept_adds:
  assumes "Accept env hosted baseURL ttl sub w = (res, w')"
  shows "uploads (psStore w') = uploads (psStore w)
    \<or> (\<exists>u. rowOf sub u \<and> map_of (uploads (psStore w')) (upSeq (psStore w) + 1) = Some u
        \<and> (\<forall>i. i \<noteq> upSeq (psStore w) + 1 \<longrightarrow> map_of (uploads (psStore w')) i = map_of (uploads (psStore w)) i))"
  using assms
proof (cases rule: Accept_cases)
  case (early e w1)
  then show ?thesis by (simp add: sameData_def)
next
  case (kept w1 v t rules n sub' diff dropBase)
  have same: "uploads (psStore w1) = uploads (psStore w)" "upSeq (psStore w1) = upSeq (psStore w)" using kept(1) by (simp_all add: sameData_def)
  let ?sub = "sub'\<lparr>sbMeta := (sbMeta sub')\<lparr>mIgnoredFiles := n\<rparr>\<rparr>"
  have row: "rowOf sub up \<and> map_of (uploads s) (upSeq (psStore w) + 1) = Some up
      \<and> (\<forall>i. i \<noteq> upSeq (psStore w) + 1 \<longrightarrow> map_of (uploads s) i = map_of (uploads (psStore w)) i)"
    if r: "acceptRows env ?sub key (fst diff) dropBase = (u, ufs)" and c: "CreateUpload (aeNow env) u ufs (psStore w1) = (Inr up, s)" for u ufs up s key
  proof -
    have "upRepoID u = rpID (sbRepo ?sub)" "upCommitSHA u = sbCommit ?sub" "upPart u = sbPart ?sub" "upMeta u = sbMeta ?sub"
      using r by (auto simp: acceptRows_def submissionRows_def split: prod.splits)
    then have "rowOf sub u" using applyIgnore_rest [OF kept(4)] by (auto simp: rowOf_def)
    moreover obtain i t where "up = u\<lparr>upID := i, upCreatedAt := t\<rparr>" using CreateUpload_row(5) [OF c] by blast
    ultimately have "rowOf sub up" by (simp add: rowOf_def)
    then show ?thesis using CreateUpload_row [OF c] same by simp
  qed
  show ?thesis using kept(5)
  proof (cases rule: acceptStored_cases)
    case (unsaved e)
    then show ?thesis using same by simp
  next
    case (unmerged e u ufs s up s')
    have "uploads s' = uploads s" using unmerged(4) store_keeps(3) [of "aeNow env" "sbRepo ?sub" up s] by auto
    then show ?thesis using row [OF unmerged(2)] unmerged(3,5) by (intro disjI2 exI [of _ up]) simp
  next
    case (landed u ufs s up m s')
    have "uploads s' = uploads s" using landed(3) store_keeps(3) [of "aeNow env" "sbRepo ?sub" up s] by simp
    then show ?thesis using row [OF landed(1)] landed(2,5) store_keeps(5) by (intro disjI2 exI [of _ up]) simp
  qed
qed

section \<open>What each credential names\<close>

lemma lookupUploadToken_row:
  assumes "lookupUploadToken token s = Inr (repo, ws)" and "storeInv s"
  shows "(\<exists>r. repo = Some r \<and> map_of (repos s) (rpID r) = Some r \<and> rpToken r = token)
    \<or> (\<exists>w k. repo = None \<and> ws = Some w \<and> map_of (workspaces s) k = Some w \<and> wsToken w = token)"
proof -
  have k: "keyed rpID (repoSeq s) (repos s)" "keyed wsID (wsSeq s) (workspaces s)"
    using assms(2) by (simp_all add: storeInv_def repoInv_def workspaceInv_def)
  show ?thesis
  proof (cases "findVal (repos s) (\<lambda>r. rpToken r = token)")
    case (Some r)
    then obtain i where "rpToken r = token" "map_of (repos s) i = Some r" using findVal_Some [OF keyed_wf [OF k(1)]] by blast
    moreover from this have "rpID r = i" using keyed_id [OF k(1)] by blast
    moreover have "repo = Some r" using assms(1) Some by (simp add: lookupUploadToken_def RepoByToken_def rowOr_def)
    ultimately show ?thesis by blast
  next
    case None
    then obtain w where w: "findVal (workspaces s) (\<lambda>w. wsToken w = token) = Some w" "repo = None" "ws = Some w"
      using assms(1) by (auto simp: lookupUploadToken_def RepoByToken_def WorkspaceByToken_def rowOr_def split: option.splits)
    then show ?thesis using findVal_Some [OF keyed_wf [OF k(2)]] by blast
  qed
qed

lemma resolveUploadRepo_row:
  assumes "resolveUploadRepo env authed ws slug st = (res, st')" and "storeInv (upsStore st)"
  shows "authChange (upsStore st) (upsStore st')"
    "res = Inr (repo, created) \<Longrightarrow> (authed = Some repo \<and> slug \<in> {[], rpSlug repo})
       \<or> (\<exists>w. authed = None \<and> ws = Some w \<and> rpForge repo = wsForge w \<and> rpSlug repo = slug \<and> hasPrefix slug (wsPrefix w @ ''/'') \<and> checkRepoName w slug)"
proof -
  have "authChange (upsStore st) (upsStore st') \<and> (res = Inr (repo, created) \<longrightarrow> (authed = Some repo \<and> slug \<in> {[], rpSlug repo})
       \<or> (\<exists>w. authed = None \<and> ws = Some w \<and> rpForge repo = wsForge w \<and> rpSlug repo = slug \<and> hasPrefix slug (wsPrefix w @ ''/'') \<and> checkRepoName w slug))"
  proof (cases "authed \<noteq> None \<or> slug = [] \<or> ws = None")
    case True
    then show ?thesis using assms(1) by (auto simp: resolveUploadRepo_def split: option.splits if_splits)
  next
    case False
    then obtain w where w: "ws = Some w" "authed = None" "slug \<noteq> []" by auto
    show ?thesis
    proof (cases "hasPrefix slug (wsPrefix w @ ''/'') \<and> checkRepoName w slug")
      case ok: True
      show ?thesis
      proof (cases "RepoBySlug (wsForge w) slug (upsStore st)")
        case (Inr r)
        then show ?thesis using assms w ok RepoBySlug_exact [OF assms(2) Inr] by (auto simp: resolveUploadRepo_def)
      next
        case (Inl e)
        obtain q st2 where reg: "registerRepo env w slug st = (q, st2)" by fastforce
        note row = registerRepo_row [OF reg assms(2)]
        show ?thesis
        proof (cases q)
          case (Inl x)
          then show ?thesis using assms(1) w ok \<open>RepoBySlug (wsForge w) slug (upsStore st) = Inl e\<close> reg row(1) by (auto simp: resolveUploadRepo_def split: if_splits)
        next
          case (Inr r)
          then show ?thesis using assms(1) w ok \<open>RepoBySlug (wsForge w) slug (upsStore st) = Inl e\<close> reg row(1) row(2) [OF Inr]
            by (auto simp: resolveUploadRepo_def split: if_splits)
        qed
      qed
    next
      case False
      then show ?thesis using assms(1) w by (auto simp: resolveUploadRepo_def split: if_splits)
    qed
  qed
  then show "authChange (upsStore st) (upsStore st')"
    "res = Inr (repo, created) \<Longrightarrow> (authed = Some repo \<and> slug \<in> {[], rpSlug repo})
       \<or> (\<exists>w. authed = None \<and> ws = Some w \<and> rpForge repo = wsForge w \<and> rpSlug repo = slug \<and> hasPrefix slug (wsPrefix w @ ''/'') \<and> checkRepoName w slug)"
    by blast+
qed

lemma askGitHub_change: "authChange s (snd (snd (askGitHub verify now ws c repo (k, s))))"
  by (auto simp: askGitHub_def VerifyGitHubRunClaim_def Let_def authChange_marking split: option.split claimError.split connectError.split)

lemma authTokenless_change:
  assumes "authTokenless cfg verify now form (k, s) = (res, k', s')"
  shows "authChange s s'"
  using assms
proof (cases rule: authTokenless_cases)
  case (asked c repo ws l)
  then show ?thesis using askGitHub_change [of s verify now ws "c\<lparr>rcRepoSlug := rpSlug repo\<rparr>" repo "k\<lparr>tkLimiter := l\<rparr>"] by simp
qed simp_all

lemma authTokenless_repo:
  assumes "authTokenless cfg verify now form (k, s) = (Inr (tc, repo), k', s')"
  shows "RepoBySlug ''github'' (form ''repo'') s = Inr repo"
  using assms
proof (cases rule: authTokenless_cases)
  case (remembered c repo' v)
  then show ?thesis using readClaim_not_slug by fastforce
next
  case (asked c repo' ws l)
  then show ?thesis using askGitHub_ok(1) [OF asked(6)] readClaim_not_slug by fastforce
qed simp

text \<open>The repo a verified identity token and the form name, in a connected workspace.\<close>

definition tokenNames :: "uploadConfig \<Rightarrow> uploadEnv \<Rightarrow> uploadState \<Rightarrow> string \<Rightarrow> Token \<Rightarrow> Repo \<Rightarrow> bool" where
  "tokenNames cfg env st formRepo tok repo \<longleftrightarrow>
     rpForge repo = oidcForge cfg (evAuthority env) (tokIssuer tok)
     \<and> (\<exists>ws. LookupWorkspace (rpSlug repo) (rpForge repo) (upsStore st) = Inr (Some ws) \<and> oidcAvailable cfg (upsForges st) ws
        \<and> (if rpForge repo = ''bitbucket''
           then rpSlug repo = formRepo \<and> bitbucketTokenFromWorkspace env tok ws \<and> bitbucketRepoUUID tok \<noteq> []
             \<and> (\<exists>c got. fst (Connected (evNow env) (evMint env) (evRefresh env) (Some ws) ''bitbucket'' (upsForges st, upsStore st)) = Some c
                \<and> evRepoID env c (rpSlug repo) = RepoIDIs got
                \<and> normalizeUUID (evLower env) got = normalizeUUID (evLower env) (bitbucketRepoUUID tok))
           else formRepo \<in> {[], rpSlug repo}
             \<and> (rpForge repo = ''github'' \<and> rpSlug repo = tokClaim tok ''repository''
                \<or> rpForge repo = ''gitlab'' \<and> rpSlug repo = tokClaim tok ''project_path'')))"

lemma oidcLookup_ok:
  assumes "oidcLookup cfg slug f st = Inr (repo, ws)"
  shows "LookupWorkspace slug f (upsStore st) = Inr (Some ws)" "oidcAvailable cfg (upsForges st) ws"
    "repo = Some r \<Longrightarrow> RepoBySlug f slug (upsStore st) = Inr r"
  using assms by (auto simp: oidcLookup_def split: sum.splits option.splits if_splits)

lemma LookupWorkspace_forge: "storeInv s \<Longrightarrow> LookupWorkspace slug f s = Inr (Some ws) \<Longrightarrow> wsForge ws = f"
  using workspace_lookup_longest [of s slug f ws] by blast

lemma oidcRegisterRepo_row:
  assumes "oidcRegisterRepo env ws slug st = (res, st')" and "storeInv (upsStore st)"
  shows "authChange (upsStore st) (upsStore st')" "res = Inr r \<Longrightarrow> rpForge r = wsForge ws \<and> rpSlug r = slug"
  using assms registerRepo_row [of env ws slug st res st'] by (auto simp: oidcRegisterRepo_def split: if_splits)

lemma oidcResolveBySlug_row:
  assumes "oidcResolveBySlug cfg env form slug f st = (res, st')" and "storeInv (upsStore st)"
  shows "authChange (upsStore st) (upsStore st')"
    "res = Inr repo \<Longrightarrow> rpForge repo = f \<and> rpSlug repo = slug \<and> form ''repo'' \<in> {[], slug}
       \<and> (\<exists>ws. LookupWorkspace slug f (upsStore st) = Inr (Some ws) \<and> oidcAvailable cfg (upsForges st) ws)"
proof -
  have "authChange (upsStore st) (upsStore st') \<and> (res = Inr repo \<longrightarrow> rpForge repo = f \<and> rpSlug repo = slug \<and> form ''repo'' \<in> {[], slug}
       \<and> (\<exists>ws. LookupWorkspace slug f (upsStore st) = Inr (Some ws) \<and> oidcAvailable cfg (upsForges st) ws))"
  proof (cases "slug = [] \<or> (form ''repo'' \<noteq> [] \<and> form ''repo'' \<noteq> slug)")
    case True
    then show ?thesis using assms(1) by (auto simp: oidcResolveBySlug_def split: if_splits)
  next
    case False
    show ?thesis
    proof (cases "oidcLookup cfg slug f st")
      case (Inl r)
      then show ?thesis using assms(1) False by (auto simp: oidcResolveBySlug_def)
    next
      case (Inr x)
      obtain q ws where x: "x = (q, ws)" by (cases x)
      note ok = oidcLookup_ok [OF Inr [unfolded x]]
      have wf: "wsForge ws = f" using LookupWorkspace_forge [OF assms(2) ok(1)] .
      show ?thesis
      proof (cases q)
        case (Some r)
        then show ?thesis using assms False Inr x ok RepoBySlug_exact [OF assms(2) ok(3)] by (auto simp: oidcResolveBySlug_def)
      next
        case None
        then have "oidcRegisterRepo env ws slug st = (res, st')" using assms(1) False Inr x by (auto simp: oidcResolveBySlug_def)
        then show ?thesis using oidcRegisterRepo_row [OF _ assms(2)] wf ok False by blast
      qed
    qed
  qed
  then show "authChange (upsStore st) (upsStore st')"
    "res = Inr repo \<Longrightarrow> rpForge repo = f \<and> rpSlug repo = slug \<and> form ''repo'' \<in> {[], slug}
       \<and> (\<exists>ws. LookupWorkspace slug f (upsStore st) = Inr (Some ws) \<and> oidcAvailable cfg (upsForges st) ws)" by blast+
qed

lemma allowRepo_same: "allowRepo f slug now st = (ok, st') \<Longrightarrow> upsStore st' = upsStore st \<and> upsForges st' = upsForges st"
  by (auto simp: allowRepo_def split: prod.splits)

lemma bitbucketBinding_ok:
  assumes "bitbucketBinding env ws slug want st = (r, st')"
  shows "authChange (upsStore st) (upsStore st')"
    "r = None \<Longrightarrow> \<exists>c got. fst (Connected (evNow env) (evMint env) (evRefresh env) (Some ws) ''bitbucket'' (upsForges st, upsStore st)) = Some c
       \<and> evRepoID env c slug = RepoIDIs got \<and> normalizeUUID (evLower env) got = normalizeUUID (evLower env) want"
proof -
  obtain fg fs s where c: "Connected (evNow env) (evMint env) (evRefresh env) (Some ws) ''bitbucket'' (upsForges st, upsStore st) = (fg, fs, s)"
    by (metis surj_pair)
  show "authChange (upsStore st) (upsStore st')"
    using assms authChange_connected [of "upsStore st" "evNow env" "evMint env" "evRefresh env" "Some ws" "''bitbucket''" "upsForges st"]
    by (auto simp: bitbucketBinding_def c withStore_def)
  show "\<exists>c got. fst (Connected (evNow env) (evMint env) (evRefresh env) (Some ws) ''bitbucket'' (upsForges st, upsStore st)) = Some c
       \<and> evRepoID env c slug = RepoIDIs got \<and> normalizeUUID (evLower env) got = normalizeUUID (evLower env) want" if "r = None"
    using assms that by (auto simp: bitbucketBinding_def c split: option.splits repoIDAnswer.splits if_splits)
qed

lemma oidcResolveBitbucket_row:
  assumes "oidcResolveBitbucket cfg env form tok st = (res, st')" and "storeInv (upsStore st)"
  shows "authChange (upsStore st) (upsStore st')"
    "res = Inr repo \<Longrightarrow> rpForge repo = ''bitbucket'' \<and> rpSlug repo = form ''repo'' \<and> bitbucketRepoUUID tok \<noteq> []
       \<and> (\<exists>ws. LookupWorkspace (form ''repo'') ''bitbucket'' (upsStore st) = Inr (Some ws) \<and> oidcAvailable cfg (upsForges st) ws
         \<and> bitbucketTokenFromWorkspace env tok ws
         \<and> (\<exists>c got. fst (Connected (evNow env) (evMint env) (evRefresh env) (Some ws) ''bitbucket'' (upsForges st, upsStore st)) = Some c
              \<and> evRepoID env c (form ''repo'') = RepoIDIs got
              \<and> normalizeUUID (evLower env) got = normalizeUUID (evLower env) (bitbucketRepoUUID tok)))"
proof -
  let ?slug = "form ''repo''"
  have "authChange (upsStore st) (upsStore st') \<and> (\<forall>repo. res = Inr repo \<longrightarrow> rpForge repo = ''bitbucket'' \<and> rpSlug repo = ?slug \<and> bitbucketRepoUUID tok \<noteq> []
       \<and> (\<exists>ws. LookupWorkspace ?slug ''bitbucket'' (upsStore st) = Inr (Some ws) \<and> oidcAvailable cfg (upsForges st) ws
         \<and> bitbucketTokenFromWorkspace env tok ws
         \<and> (\<exists>c got. fst (Connected (evNow env) (evMint env) (evRefresh env) (Some ws) ''bitbucket'' (upsForges st, upsStore st)) = Some c
              \<and> evRepoID env c ?slug = RepoIDIs got
              \<and> normalizeUUID (evLower env) got = normalizeUUID (evLower env) (bitbucketRepoUUID tok))))"
  proof (cases "bitbucketRepoUUID tok = [] \<or> ?slug = []")
    case True
    then have "\<exists>r. res = Inl r \<and> st' = st" using assms(1) by (cases "bitbucketRepoUUID tok = []") (auto simp: oidcResolveBitbucket_def Let_def)
    then show ?thesis by auto
  next
    case False
    show ?thesis
    proof (cases "oidcLookup cfg ?slug ''bitbucket'' st")
      case (Inl r)
      then show ?thesis using assms(1) False by (auto simp: oidcResolveBitbucket_def Let_def)
    next
      case (Inr x)
      obtain q ws where x: "x = (q, ws)" by (cases x)
      note ok = oidcLookup_ok [OF Inr [unfolded x]]
      have wf: "wsForge ws = ''bitbucket''" using LookupWorkspace_forge [OF assms(2) ok(1)] .
      obtain al st1 where al: "allowRepo ''bitbucket'' ?slug (evNow env) st = (al, st1)" by fastforce
      note same = allowRepo_same [OF al]
      obtain b st2 where b: "bitbucketBinding env ws ?slug (bitbucketRepoUUID tok) st1 = (b, st2)" by fastforce
      note bind = bitbucketBinding_ok [OF b]
      note run = assms(1) [unfolded oidcResolveBitbucket_def Let_def Inr sum.case x prod.case al b]
      have ch: "authChange (upsStore st) (upsStore st2)" using bind(1) same by simp
      then have inv2: "storeInv (upsStore st2)" using assms(2) by (simp add: authChange_def)
      show ?thesis
      proof (cases "bitbucketTokenFromWorkspace env tok ws \<and> \<not> (q = None \<and> \<not> checkRepoName ws ?slug) \<and> al \<and> b = None")
        case bad: False
        have "(\<exists>r. res = Inl r) \<and> (st' = st \<or> st' = st1 \<or> st' = st2)"
          using run False bad by (cases al; cases b) (auto split: if_splits)
        then show ?thesis using ch same by auto
      next
        case good: True
        have last: "(case q of Some repo \<Rightarrow> (Inr repo, st2) | None \<Rightarrow> oidcRegisterRepo env ws ?slug st2) = (res, st')"
          using run False good by (auto split: if_splits)
        have repo: "authChange (upsStore st2) (upsStore st') \<and> (\<forall>r. res = Inr r \<longrightarrow> rpForge r = ''bitbucket'' \<and> rpSlug r = ?slug)"
        proof (cases q)
          case (Some r)
          then show ?thesis using last RepoBySlug_exact [OF assms(2) ok(3) [OF Some]] by auto
        next
          case None
          then have "oidcRegisterRepo env ws ?slug st2 = (res, st')" using last by simp
          from oidcRegisterRepo_row [OF this inv2] wf show ?thesis by auto
        qed
        then show ?thesis using authChange_trans [OF ch] bind(2) good same ok(1,2) False by auto
      qed
    qed
  qed
  then show "authChange (upsStore st) (upsStore st')"
    "res = Inr repo \<Longrightarrow> rpForge repo = ''bitbucket'' \<and> rpSlug repo = form ''repo'' \<and> bitbucketRepoUUID tok \<noteq> []
       \<and> (\<exists>ws. LookupWorkspace (form ''repo'') ''bitbucket'' (upsStore st) = Inr (Some ws) \<and> oidcAvailable cfg (upsForges st) ws
         \<and> bitbucketTokenFromWorkspace env tok ws
         \<and> (\<exists>c got. fst (Connected (evNow env) (evMint env) (evRefresh env) (Some ws) ''bitbucket'' (upsForges st, upsStore st)) = Some c
              \<and> evRepoID env c (form ''repo'') = RepoIDIs got
              \<and> normalizeUUID (evLower env) got = normalizeUUID (evLower env) (bitbucketRepoUUID tok)))" by blast+
qed

lemma authOIDC_row:
  assumes "authOIDC cfg env form st = (res, st')" and "storeInv (upsStore st)"
  shows "authChange (upsStore st) (upsStore st')"
    "res = Inr repo \<Longrightarrow> \<exists>v tok m. ucVerifier cfg = Some v
       \<and> Verify v (Some (bitbucketIssuerResolver (evAuthority env) (upsStore st))) (evOidc env) (evNow env) (form ''oidc_token'') (upsKeys st) = (Inr tok, m)
       \<and> tokenNames cfg env st (form ''repo'') tok repo"
proof -
  have "authChange (upsStore st) (upsStore st') \<and> (res = Inr repo \<longrightarrow> (\<exists>v tok m. ucVerifier cfg = Some v
       \<and> Verify v (Some (bitbucketIssuerResolver (evAuthority env) (upsStore st))) (evOidc env) (evNow env) (form ''oidc_token'') (upsKeys st) = (Inr tok, m)
       \<and> tokenNames cfg env st (form ''repo'') tok repo))"
  proof (cases "ucVerifier cfg")
    case None
    then show ?thesis using assms(1) by (auto simp: authOIDC_def verifyOIDC_def)
  next
    case (Some v)
    obtain q m where v: "Verify v (Some (bitbucketIssuerResolver (evAuthority env) (upsStore st))) (evOidc env) (evNow env) (form ''oidc_token'') (upsKeys st) = (q, m)"
      by fastforce
    let ?st = "st\<lparr>upsKeys := m\<rparr>"
    show ?thesis
    proof (cases q)
      case (Inl e)
      then show ?thesis using assms(1) by (auto simp: authOIDC_def verifyOIDC_def Some v)
    next
      case (Inr tok)
      let ?f = "oidcForge cfg (evAuthority env) (tokIssuer tok)"
      note run = assms(1) [unfolded authOIDC_def verifyOIDC_def Some option.case v Inr prod.case sum.case Let_def]
      have inv: "storeInv (upsStore ?st)" using assms(2) by simp
      have names: "tokenNames cfg env st (form ''repo'') tok repo \<and> authChange (upsStore st) (upsStore st')" if good: "res = Inr repo"
      proof (cases "?f = ''bitbucket''")
        case True
        then have "oidcResolveBitbucket cfg env form tok ?st = (res, st')" using run by simp
        from oidcResolveBitbucket_row [OF this inv] good True show ?thesis by (auto simp: tokenNames_def)
      next
        case False
        then obtain slug where "oidcResolveBySlug cfg env form slug ?f ?st = (res, st')"
          "?f = ''github'' \<and> slug = tokClaim tok ''repository'' \<or> ?f = ''gitlab'' \<and> slug = tokClaim tok ''project_path''"
          using run good by (auto split: if_splits)
        with oidcResolveBySlug_row [OF this(1) inv] good False show ?thesis by (auto simp: tokenNames_def)
      qed
      have "authChange (upsStore st) (upsStore st')"
        using run oidcResolveBitbucket_row(1) [OF _ inv] oidcResolveBySlug_row(1) [OF _ inv] by (auto split: if_splits)
      then show ?thesis using names Some v Inr by blast
    qed
  qed
  then show "authChange (upsStore st) (upsStore st')"
    "res = Inr repo \<Longrightarrow> \<exists>v tok m. ucVerifier cfg = Some v
       \<and> Verify v (Some (bitbucketIssuerResolver (evAuthority env) (upsStore st))) (evOidc env) (evNow env) (form ''oidc_token'') (upsKeys st) = (Inr tok, m)
       \<and> tokenNames cfg env st (form ''repo'') tok repo" by blast+
qed

section \<open>The credential of a stored upload\<close>

text \<open>Who may upload to a repo, given the store the request meets.\<close>

definition credential :: "uploadConfig \<Rightarrow> uploadEnv \<Rightarrow> uploadPost \<Rightarrow> formData \<Rightarrow> uploadState \<Rightarrow> Repo \<Rightarrow> bool" where
  "credential cfg env post form st repo \<longleftrightarrow>
     (case bearerToken post of
        Some t \<Rightarrow>
          (\<exists>k r. map_of (repos (upsStore st)) k = Some r \<and> rpToken r = t \<and> repo = r \<and> formValue form ''repo'' \<in> {[], rpSlug repo})
          \<or> (\<exists>k ws. map_of (workspaces (upsStore st)) k = Some ws \<and> wsToken ws = t \<and> rpForge repo = wsForge ws
               \<and> rpSlug repo = formValue form ''repo'' \<and> hasPrefix (rpSlug repo) (wsPrefix ws @ ''/'') \<and> checkRepoName ws (rpSlug repo))
      | None \<Rightarrow>
          if formValue form ''oidc_token'' \<noteq> [] then
            (\<exists>v tok m. ucVerifier cfg = Some v
               \<and> Verify v (Some (bitbucketIssuerResolver (evAuthority env) (upsStore st))) (evOidc env) (evNow env)
                   (formValue form ''oidc_token'') (upsKeys st) = (Inr tok, m)
               \<and> tokenNames cfg env st (formValue form ''repo'') tok repo)
          else
            (\<exists>tc rest. authTokenless (fsConfig (upsForges st)) (VerifyRunClaim (evOrbit env) (evGitHub env)) (evNow env) (formValue form)
               (upsTokenless st, upsStore st) = (Inr (tc, repo), rest)))"

lemma landUpload_adds:
  assumes "landUpload cfg env claim req meta w = (res, w')"
  shows "uploads (psStore w') = uploads (psStore w)
    \<or> (\<exists>u. upRepoID u = rpID (uqRepo req) \<and> upCommitSHA u = uqCommit req \<and> upPart u = uqPart req
        \<and> (mTokenless (upMeta u) \<longleftrightarrow> claim \<noteq> None \<or> mTokenless meta) \<and> map_of (uploads (psStore w')) (upSeq (psStore w) + 1) = Some u
        \<and> (\<forall>i. i \<noteq> upSeq (psStore w) + 1 \<longrightarrow> map_of (uploads (psStore w')) i = map_of (uploads (psStore w)) i))"
proof -
  have one: "uploads (psStore w') = uploads (psStore w)
    \<or> (\<exists>u. rowOf (submissionOf req m) u \<and> map_of (uploads (psStore w')) (upSeq (psStore w) + 1) = Some u
        \<and> (\<forall>i. i \<noteq> upSeq (psStore w) + 1 \<longrightarrow> map_of (uploads (psStore w')) i = map_of (uploads (psStore w)) i))"
    if run: "acceptClaimed cfg env cl req m w1 = (res, w')" and w1: "uploads (psStore w1) = uploads (psStore w)" "upSeq (psStore w1) = upSeq (psStore w)" for cl m w1
  proof -
    obtain q w2 where a: "acceptSubmission cfg env req m w1 = (q, w2)" by fastforce
    have "uploads (psStore w') = uploads (psStore w2)"
      using run by (cases q) (auto simp: acceptClaimed_def a releaseUpload_def ReleaseTokenlessUpload_def split: option.splits)
    then show ?thesis using Accept_adds [OF a [unfolded acceptSubmission_def]] w1 by simp
  qed
  show ?thesis
  proof (cases claim)
    case None
    then have "acceptClaimed cfg env None req meta w = (res, w')" using assms by (simp add: landUpload_def)
    from one [OF this] None show ?thesis by (fastforce simp: rowOf_def submissionOf_def)
  next
    case (Some tc)
    obtain won w1 where c: "claimUpload tc req w = (won, w1)" by fastforce
    have w1: "uploads (psStore w1) = uploads (psStore w)" "upSeq (psStore w1) = upSeq (psStore w)"
      using c by (auto simp: claimUpload_def ClaimTokenlessUpload_def Let_def split: prod.splits if_splits)
    show ?thesis
    proof (cases won)
      case True
      then have "acceptClaimed cfg env claim req (meta\<lparr>mTokenless := True\<rparr>) w1 = (res, w')" using assms Some c by (simp add: landUpload_def)
      from one [OF this w1] Some show ?thesis by (fastforce simp: rowOf_def submissionOf_def)
    next
      case False
      then show ?thesis using assms Some c w1 by (auto simp: landUpload_def)
    qed
  qed
qed

lemma validateUpload_ok:
  assumes "validateUpload env form repo created s = Inr req"
  shows "uqRepo req = repo" "uqCommit req = formValue form ''commit''" "commitMatches (uqCommit req)" "partMatches (uqPart req)"
    "length (CommitParts (rpID repo) (uqCommit req) s) < maxPartsPerCommit \<or> uqPart req \<in> set (CommitParts (rpID repo) (uqCommit req) s)"
  using assms NormalizePart_matches
  by (auto simp: validateUpload_def Let_def split: if_splits sum.splits option.splits)

definition namedBy :: "Repo option \<Rightarrow> Workspace option \<Rightarrow> string \<Rightarrow> Repo \<Rightarrow> bool" where
  "namedBy authed ws slug repo \<longleftrightarrow> (authed = Some repo \<and> slug \<in> {[], rpSlug repo})
     \<or> (\<exists>w. authed = None \<and> ws = Some w \<and> rpForge repo = wsForge w \<and> rpSlug repo = slug \<and> hasPrefix slug (wsPrefix w @ ''/'') \<and> checkRepoName w slug)"

lemma readAndLand_adds:
  assumes "readAndLand cfg env post claim authed ws st = (res, st')" and "storeInv (upsStore st)"
    and "map_of (uploads (upsStore st')) i \<noteq> map_of (uploads (upsStore st)) i"
  shows "\<exists>form repo u. poForm post = Some form
    \<and> namedBy authed ws (formValue form ''repo'') repo
    \<and> map_of (uploads (upsStore st')) i = Some u \<and> i = upSeq (upsStore st) + 1
    \<and> upRepoID u = rpID repo \<and> upCommitSHA u = formValue form ''commit'' \<and> commitMatches (upCommitSHA u) \<and> partMatches (upPart u)
    \<and> (mTokenless (upMeta u) \<longleftrightarrow> claim \<noteq> None)"
proof (cases "poForm post")
  case None
  then show ?thesis using assms(1,3) by (simp add: readAndLand_def)
next
  case (Some form)
  obtain q st1 where r: "resolveUploadRepo env authed ws (formValue form ''repo'') st = (q, st1)" by fastforce
  note row = resolveUploadRepo_row [OF r assms(2)]
  have same: "uploads (upsStore st1) = uploads (upsStore st)" "upSeq (upsStore st1) = upSeq (upsStore st)"
    using row(1) by (simp_all add: authChange_def sameData_def)
  show ?thesis
  proof (cases q)
    case (Inl x)
    then show ?thesis using assms(1,3) Some r same by (simp add: readAndLand_def readUploadRequest_def)
  next
    case (Inr x)
    obtain repo created where x: "x = (repo, created)" by (cases x)
    show ?thesis
    proof (cases "validateUpload env form repo created (upsStore st1)")
      case (Inl y)
      then show ?thesis using assms(1,3) Some r same \<open>q = Inr x\<close> x by (simp add: readAndLand_def readUploadRequest_def)
    next
      case (Inr req)
      note v = validateUpload_ok [OF Inr]
      let ?meta = "buildUploadMeta env form (uqFilename req) (length (uqRaw req))"
      obtain q' w where l: "landUpload cfg env claim req ?meta (upsPipe st1) = (q', w)" by fastforce
      have st': "upsStore st' = psStore w" using assms(1) Some r \<open>q = Inr x\<close> x Inr l by (auto simp: readAndLand_def readUploadRequest_def)
      have "\<not> mTokenless ?meta" by (simp add: buildUploadMeta_def Let_def)
      then obtain u where "upRepoID u = rpID repo" "upCommitSHA u = uqCommit req" "upPart u = uqPart req" "mTokenless (upMeta u) \<longleftrightarrow> claim \<noteq> None"
        "map_of (uploads (psStore w)) (upSeq (upsStore st) + 1) = Some u" "i = upSeq (upsStore st) + 1"
        using landUpload_adds [OF l] assms(3) same v(1) unfolding st' by auto
      moreover have "namedBy authed ws (formValue form ''repo'') repo" using row(2) [of repo created] \<open>q = Inr x\<close> x by (simp add: namedBy_def)
      ultimately show ?thesis using v Some unfolding st' by (intro exI [of _ form] exI [of _ repo] exI [of _ u]) simp
    qed
  qed
qed

lemma authFormCredential_row:
  assumes "authFormCredential cfg env post st = (q, st1)" and "storeInv (upsStore st)" and "bearerToken post = None"
  shows "authChange (upsStore st) (upsStore st1) \<and> (\<forall>claim repo. q = Inr (claim, repo) \<longrightarrow> (\<exists>form. poForm post = Some form
      \<and> credential cfg env post form st repo \<and> (claim \<noteq> None \<longleftrightarrow> formValue form ''oidc_token'' = [])))"
proof (cases "poForm post")
  case None
  then show ?thesis using assms(1) by (auto simp: authFormCredential_def split: if_splits)
next
  case form: (Some form)
  show ?thesis
  proof (cases "evBusySlots env \<ge> maxPreAuthUploads")
    case True
    then show ?thesis using assms(1) by (auto simp: authFormCredential_def)
  next
    case slots: False
    show ?thesis
    proof (cases "formValue form ''oidc_token'' = []")
      case False
      obtain r st2 where o: "authOIDC cfg env (formValue form) st = (r, st2)" by fastforce
      have "st1 = st2" "q = (case r of Inl x \<Rightarrow> Inl x | Inr repo \<Rightarrow> Inr (None, repo))"
        using assms(1) form slots False o by (auto simp: authFormCredential_def split: sum.splits)
      then show ?thesis using authOIDC_row [OF o assms(2)] form False assms(3) by (auto simp: credential_def split: sum.splits)
    next
      case True
      obtain r k s where t: "authTokenless (fsConfig (upsForges st)) (VerifyRunClaim (evOrbit env) (evGitHub env)) (evNow env) (formValue form)
          (upsTokenless st, upsStore st) = (r, k, s)" by (metis surj_pair)
      have "upsStore st1 = s" "q = (case r of Inl x \<Rightarrow> Inl (TokenlessRefused x) | Inr (claim, repo) \<Rightarrow> Inr (Some claim, repo))"
        using assms(1) form slots True t by (auto simp: authFormCredential_def withStore_def)
      then show ?thesis using authTokenless_change [OF t] t form True assms(3) by (auto simp: credential_def split: sum.splits)
    qed
  qed
qed


text \<open>A server with the store of the fork's pull request, and that pull request's upload.\<close>

definition labConfig :: uploadConfig where
  "labConfig = \<lparr>ucVerifier = Some gocovVerifier, ucGitLabIssuers = gitlabIssuersOf [], ucBaseURL = [], ucHosted = False, ucVisibilityTTL = 0\<rparr>"

definition labEnv :: "storeError option \<Rightarrow> uploadEnv" where
  "labEnv mergeErr = \<lparr>evNow = 60 * second, evMint = (\<lambda>_. None), evRefresh = (\<lambda>_. Inl ForgeTrouble), evBranch = (\<lambda>_ _. BranchIs ''trunk''),
     evRepoID = (\<lambda>_ _. RepoIDFailed), evNewToken = ''fresh'', evGitHub = forkAPI, evOidc = actionsEnv, evLower = (\<lambda>r. r), evOrbit = (\<lambda>_ _. False),
     evAuthority = (\<lambda>a. Some (None, a)), evBusySlots = 3, evParse = (\<lambda>_ _. Some \<lparr>Files = [\<lparr>fPath = ''a.go'', fBlocks = []\<rparr>]\<rparr>),
     evElapsed = 0, evAccept = sampleEnv mergeErr\<rparr>"

definition labState :: uploadState where
  "labState = \<lparr>upsPipe = \<lparr>psStore = forkStore, psBlobs = [], psVis = \<lparr>visChecks = [], visInFlight = []\<rparr>\<rparr>, upsForges = NewForges True [],
     upsTokenless = \<lparr>tkLimiter = newTokenlessLimiter, tkVerdicts = []\<rparr>, upsKeys = []\<rparr>"

definition forkPost :: uploadPost where
  "forkPost = \<lparr>poAuthorization = [], poForm = Some \<lparr>foValues = map (\<lambda>(k, v). (k, [v]))
       [(''repo'', ''acme/app''), (''commit'', ''c0ffee''), (''head_repo'', ''eve/app''), (''run_id'', ''31''), (''run_attempt'', ''1''),
        (''pr_id'', ''5''), (''part'', '' Unit ''), (''format'', ''cobertura'')],
     foFile = Some (''cover.xml'', Some ''<coverage/>'')\<rparr>\<rparr>"

lemma forkStore_inv: "storeInv forkStore"
  unfolding forkStore_def by (intro CreateRepo_inv CreateWorkspace_inv storeInv_new)


end
