(* ===== verification/UploadClaims.thy ===== *)
theory UploadClaims
  imports UploadRules
begin

text \<open>
  One accepted upload per run, attempt and part: the tokenless uploads of all requests, whose
  claims, acceptances and failures interleave in any order with one another and with everything
  else that happens to the store.
\<close>

section \<open>Claims\<close>

type_synonym runPart = "int \<times> int \<times> int \<times> string"

definition claimedBy :: "memStore \<Rightarrow> runPart \<Rightarrow> bool" where
  "claimedBy s key = (case key of (r, i, a, p) \<Rightarrow> map_of (tokenless s) (tokenlessKey r i a p) = Some True)"

abbreviation claims :: "memStore \<Rightarrow> runPart set" where
  "claims s \<equiv> {key. claimedBy s key}"

definition runPartOf :: "tokenlessClaim \<Rightarrow> uploadRequest \<Rightarrow> runPart" where
  "runPartOf tc req = (rpID (uqRepo req), tcRunID tc, tcRunAttempt tc, uqPart req)"

lemma tokenlessKey_inj: "tokenlessKey r i a p = tokenlessKey r' i' a' p' \<Longrightarrow> (r, i, a, p) = (r', i', a', p')"
proof -
  have k: "tokenlessKey r i a p = commitKey r (commitKey i (commitKey a p))" for r i a p by (simp add: tokenlessKey_def commitKey_def)
  show "tokenlessKey r i a p = tokenlessKey r' i' a' p' \<Longrightarrow> (r, i, a, p) = (r', i', a', p')"
    unfolding k by (auto dest!: commitKey_inj)
qed

lemma claimUpload_cases:
  assumes "claimUpload tc req w = (won, w')"
  shows "won \<longleftrightarrow> runPartOf tc req \<notin> claims (psStore w)" "claims (psStore w') = insert (runPartOf tc req) (claims (psStore w))"
  using assms
  by (auto simp: claimUpload_def ClaimTokenlessUpload_def claimedBy_def runPartOf_def Let_def update_conv'
      split: prod.splits if_splits dest: tokenlessKey_inj)

lemma claimUpload_store: "claimUpload tc req w = (won, w') \<Longrightarrow> \<exists>m. w' = w\<lparr>psStore := (psStore w)\<lparr>tokenless := m\<rparr>\<rparr>"
  by (auto simp: claimUpload_def ClaimTokenlessUpload_def Let_def split: prod.splits if_splits intro: exI [of _ "tokenless (psStore w)"])

lemma releaseUpload_claims: "claims (psStore (releaseUpload tc req w)) = claims (psStore w) - {runPartOf tc req}"
  by (auto simp: releaseUpload_def ReleaseTokenlessUpload_def claimedBy_def runPartOf_def delete_conv' split: prod.splits dest: tokenlessKey_inj)

lemma acceptSubmission_claims:
  assumes "acceptSubmission cfg env req meta w = (res, w')"
  shows "claims (psStore w') = claims (psStore w)"
  using Accept_tokenless [OF assms [unfolded acceptSubmission_def]] by (simp add: claimedBy_def split: prod.split)

section \<open>Requests in flight\<close>

text \<open>
  \<open>lwPending\<close> are the uploads between their claim and its outcome, \<open>lwLanded\<close> those accepted,
  \<open>lwLost\<close> those whose server stopped in between.
\<close>

record landWorld =
  lwPipe :: pipeState
  lwPending :: "runPart list"
  lwLanded :: "runPart list"
  lwLost :: "runPart list"

inductive landStep :: "landWorld \<Rightarrow> landWorld \<Rightarrow> bool" where
  land_claim: "claimUpload tc req (lwPipe lw) = (True, w) \<Longrightarrow> landStep lw (lw\<lparr>lwPipe := w, lwPending := runPartOf tc req # lwPending lw\<rparr>)"
| land_refused: "claimUpload tc req (lwPipe lw) = (False, w) \<Longrightarrow> landStep lw (lw\<lparr>lwPipe := w\<rparr>)"
| land_accept: "runPartOf tc req \<in> set (lwPending lw) \<Longrightarrow> acceptSubmission cfg env req meta (lwPipe lw) = (Inr res, w)
    \<Longrightarrow> landStep lw (lw\<lparr>lwPipe := w, lwPending := remove1 (runPartOf tc req) (lwPending lw), lwLanded := runPartOf tc req # lwLanded lw\<rparr>)"
| land_fail: "runPartOf tc req \<in> set (lwPending lw) \<Longrightarrow> acceptSubmission cfg env req meta (lwPipe lw) = (Inl e, w)
    \<Longrightarrow> landStep lw (lw\<lparr>lwPipe := releaseUpload tc req w, lwPending := remove1 (runPartOf tc req) (lwPending lw)\<rparr>)"
| land_stop: "key \<in> set (lwPending lw) \<Longrightarrow> landStep lw (lw\<lparr>lwPending := remove1 key (lwPending lw), lwLost := key # lwLost lw\<rparr>)"
| land_other: "tokenless (psStore w) = tokenless (psStore (lwPipe lw)) \<Longrightarrow> landStep lw (lw\<lparr>lwPipe := w\<rparr>)"

definition landInv :: "landWorld \<Rightarrow> bool" where
  "landInv lw \<longleftrightarrow> distinct (lwPending lw @ lwLanded lw @ lwLost lw)
     \<and> claims (psStore (lwPipe lw)) = set (lwPending lw @ lwLanded lw @ lwLost lw)"

lemma landStep_inv: "landStep lw lw' \<Longrightarrow> landInv lw \<Longrightarrow> landInv lw'"
proof (induction rule: landStep.induct)
  case (land_claim tc req lw w)
  then show ?case using claimUpload_cases [OF land_claim(1)] by (simp add: landInv_def)
next
  case (land_refused tc req lw w)
  then show ?case using claimUpload_cases [OF land_refused(1)] by (simp add: landInv_def insert_absorb)
next
  case (land_accept tc req lw cfg env meta res w)
  then have "claims (psStore w) = insert (runPartOf tc req) (set (lwPending lw) - {runPartOf tc req} \<union> set (lwLanded lw) \<union> set (lwLost lw))"
    using acceptSubmission_claims [OF land_accept(2)] by (auto simp: landInv_def)
  then show ?case using land_accept by (auto simp: landInv_def)
next
  case (land_fail tc req lw cfg env meta e w)
  then have "claims (psStore w) - {runPartOf tc req} = set (lwPending lw) - {runPartOf tc req} \<union> (set (lwLanded lw) \<union> set (lwLost lw))"
    using acceptSubmission_claims [OF land_fail(2)] by (auto simp: landInv_def)
  then show ?case using land_fail by (auto simp: landInv_def releaseUpload_claims)
next
  case (land_stop key lw)
  then show ?case by (auto simp: landInv_def)
next
  case (land_other w lw)
  then show ?case by (simp add: landInv_def claimedBy_def)
qed

lemma landReach_inv: "landStep\<^sup>*\<^sup>* lw lw' \<Longrightarrow> landInv lw \<Longrightarrow> landInv lw'"
  by (induction rule: rtranclp_induct) (auto intro: landStep_inv)

text \<open>
  C18: of the uploads for one run, attempt and part of a repo, at most one is accepted, however
  the requests interleave; and a claim is refused only while another upload for the same run,
  attempt and part is in progress, was accepted, or was cut off with its server. A failed one
  leaves the next free to try.
\<close>

theorem tokenless_accepted_once:
  assumes "landStep\<^sup>*\<^sup>* lw0 lw" and "tokenless (psStore (lwPipe lw0)) = []"
    and "lwPending lw0 = []" and "lwLanded lw0 = []" and "lwLost lw0 = []"
  shows "distinct (lwLanded lw) \<and> (\<forall>tc req. fst (claimUpload tc req (lwPipe lw))
    \<longleftrightarrow> runPartOf tc req \<notin> set (lwPending lw) \<union> set (lwLanded lw) \<union> set (lwLost lw))"
proof -
  have "landInv lw0" using assms(2-5) by (simp add: landInv_def claimedBy_def split: prod.split)
  then have inv: "landInv lw" by (rule landReach_inv [OF assms(1)])
  have "fst (claimUpload tc req (lwPipe lw)) \<longleftrightarrow> runPartOf tc req \<notin> set (lwPending lw) \<union> set (lwLanded lw) \<union> set (lwLost lw)" for tc req
    using claimUpload_cases(1) [of tc req "lwPipe lw"] inv by (cases "claimUpload tc req (lwPipe lw)") (auto simp: landInv_def)
  then show ?thesis using inv by (simp add: landInv_def)
qed

text \<open>One upload claimed and accepted; the same run's next attempt at the part is refused.\<close>

definition landReq :: uploadRequest where
  "landReq = \<lparr>uqRepo = sbRepo sampleSub, uqRepoCreated = False, uqCommit = ''c'', uqBranch = ''main'', uqPRID = ''5'', uqPart = ''unit'',
     uqFormat = ''go'', uqPathPrefix = [], uqIgnore = [], uqFilename = ''cover.out'', uqRaw = ''posted'', uqProf = sbProfile sampleSub\<rparr>"

theorem tokenless_accepted_once_witness:
  "\<exists>lw :: landWorld. lwLanded lw = [(1, 31, 1, ''unit'')] \<and> \<not> fst (claimUpload \<lparr>tcRunID = 31, tcRunAttempt = 1\<rparr> landReq (lwPipe lw))
    \<and> fst (claimUpload \<lparr>tcRunID = 31, tcRunAttempt = 2\<rparr> landReq (lwPipe lw))"
proof -
  let ?tc = "\<lparr>tcRunID = 31, tcRunAttempt = 1\<rparr>" and ?lw = "\<lparr>lwPipe = sampleStart, lwPending = [], lwLanded = [], lwLost = []\<rparr>"
  have key: "runPartOf ?tc landReq = (1, 31, 1, ''unit'')" "runPartOf \<lparr>tcRunID = 31, tcRunAttempt = 2\<rparr> landReq = (1, 31, 2, ''unit'')"
    by (simp_all add: runPartOf_def landReq_def sampleSub_def)
  obtain won w where "claimUpload ?tc landReq sampleStart = (won, w)" by fastforce
  moreover from claimUpload_cases(1) [OF this] have won by (simp add: claimedBy_def sampleStart_def newStore_def split: prod.split)
  ultimately have c: "claimUpload ?tc landReq sampleStart = (True, w)" by simp
  obtain m where w: "w = sampleStart\<lparr>psStore := newStore\<lparr>tokenless := m\<rparr>\<rparr>" using claimUpload_store [OF c] by (auto simp: sampleStart_def)
  have one: "landStep ?lw (?lw\<lparr>lwPipe := w, lwPending := [(1, 31, 1, ''unit'')]\<rparr>)" using land_claim [of ?tc landReq ?lw w] c key by simp
  have inv: "storeInv (psStore w)" "rowsCounted (psStore w)"
    by (simp_all add: w storeInv_new rowsCounted_def filesOfUpload_def) (simp add: newStore_def)
  have ign: "\<not> isl (applyIgnore (aeCtx (sampleEnv None)) (submissionOf landReq zeroMeta))" by code_simp
  obtain res w' where "Accept (sampleEnv None) False [] 0 (submissionOf landReq zeroMeta) w = (Inr res, w')"
    using Accept_lands [OF inv ign, of False "[]" 0] by (auto simp: sampleEnv_def [of None])
  then have acc: "acceptSubmission labConfig (labEnv None) landReq zeroMeta w = (Inr res, w')"
    by (simp add: acceptSubmission_def labConfig_def labEnv_def)
  let ?fin = "?lw\<lparr>lwPipe := w', lwLanded := [(1, 31, 1, ''unit'')]\<rparr>"
  have "landStep (?lw\<lparr>lwPipe := w, lwPending := [(1, 31, 1, ''unit'')]\<rparr>) ?fin"
    using land_accept [of ?tc landReq "?lw\<lparr>lwPipe := w, lwPending := [(1, 31, 1, ''unit'')]\<rparr>" labConfig "labEnv None" zeroMeta res w'] acc key by simp
  then have reach: "landStep\<^sup>*\<^sup>* ?lw ?fin" using one by (meson rtranclp.rtrancl_refl rtranclp.rtrancl_into_rtrancl)
  have "tokenless (psStore (lwPipe ?lw)) = []" "lwPending ?lw = []" "lwLanded ?lw = []" "lwLost ?lw = []" by (simp_all add: sampleStart_def newStore_def)
  from tokenless_accepted_once [OF reach this] have "fst (claimUpload tc req w') \<longleftrightarrow> runPartOf tc req \<noteq> (1, 31, 1, ''unit'')" for tc req by simp
  then show ?thesis using key by (intro exI [of _ ?fin]) simp
qed

end
