(* ===== verification/McpAuth.thy ===== *)
theory McpAuth
  imports Access GoFold Oidc
begin

text \<open>
  Signing an MCP client in, \<open>internal/server/mcpauth.go\<close>: registration of clients, the user's
  consent, the exchange of its code for a token under PKCE, and the token at the door of \<open>/mcp\<close>. A
  request is the fields it carries. Arguments stand for reading a client id's JSON, for SHA-256 and
  for \<open>net.ParseIP(host).IsLoopback()\<close>; a redirect is the client's URI with the parameters set on it.
\<close>

section \<open>Clients\<close>

record mcpClient =
  mcName :: string
  mcRedirectURIs :: "string list"

record mcpEnv =
  meAuthority :: "string \<Rightarrow> (string option \<times> string) option"
  meLoopback :: "string \<Rightarrow> bool"
  meMarshal :: "mcpClient \<Rightarrow> string"
  meUnmarshal :: "string \<Rightarrow> mcpClient option"
  meHash :: "string \<Rightarrow> string"
  meSHA256 :: "string \<Rightarrow> string"

definition mcpTokenTTL :: time where
  "mcpTokenTTL = sessionTTL"

definition mcpCodeTTL :: time where
  "mcpCodeTTL = 5 * 60 * 1000000000"

definition mcpTokenPrefix :: string where
  "mcpTokenPrefix = ''gocov_mcp_''"

definition mcpClientPrefix :: string where
  "mcpClientPrefix = ''mcp_''"

definition maxMCPRedirectURIs :: nat where
  "maxMCPRedirectURIs = 4"

definition maxMCPRedirectURILen :: nat where
  "maxMCPRedirectURILen = 300"

definition maxMCPClientNameLen :: nat where
  "maxMCPClientNameLen = 80"

definition mcpAuthEnabled :: "serverConfig \<Rightarrow> bool" where
  "mcpAuthEnabled cfg \<longleftrightarrow> authEnabled cfg \<and> svBaseURL cfg \<noteq> []"

definition mcpResource :: "serverConfig \<Rightarrow> string" where
  "mcpResource cfg = svBaseURL cfg @ ''/mcp''"

definition mcpResourceMetadataURL :: "serverConfig \<Rightarrow> string" where
  "mcpResourceMetadataURL cfg = svBaseURL cfg @ ''/.well-known/oauth-protected-resource/mcp''"

text \<open>\<open>base64.RawURLEncoding.EncodeToString\<close>.\<close>

definition b64Digit :: "int \<Rightarrow> char" where
  "b64Digit d = (if d < 26 then char_of (d + 65) else if d < 52 then char_of (d + 71) else if d < 62 then char_of (d - 4)
     else if d = 62 then CHR ''-'' else CHR ''_'')"

fun rawURLEncode :: "string \<Rightarrow> string" where
  "rawURLEncode [] = []"
| "rawURLEncode [a] = map b64Digit [byteOf a div 4, byteOf a mod 4 * 16]"
| "rawURLEncode [a, b] = map b64Digit [byteOf a div 4, byteOf a mod 4 * 16 + byteOf b div 16, byteOf b mod 16 * 4]"
| "rawURLEncode (a # b # c # cs) =
     map b64Digit [byteOf a div 4, byteOf a mod 4 * 16 + byteOf b div 16, byteOf b mod 16 * 4 + byteOf c div 64, byteOf c mod 64] @ rawURLEncode cs"

text \<open>\<open>strings.ToValidUTF8(s, "")\<close>, and what it leaves alone.\<close>

function toValidUTF8 :: "string \<Rightarrow> string" where
  "toValidUTF8 s =
     (if s = [] then []
      else let (r, n) = decodeRune s in (if r = runeError \<and> n = 1 then [] else take n s) @ toValidUTF8 (drop n s))"
  by pat_completeness auto
termination
  by (relation "measure length") (simp_all add: decodeRune_rest)

declare toValidUTF8.simps [simp del]

definition validUTF8 :: "string \<Rightarrow> bool" where
  "validUTF8 s \<longleftrightarrow> toValidUTF8 s = s"

text \<open>\<open>URL.Hostname\<close>: the host without a port, and without the brackets of an IPv6 address.\<close>

definition stripPort :: "string \<Rightarrow> string" where
  "stripPort h =
     (let h = (case cutLastByte CHR '':'' h of None \<Rightarrow> h | Some (host, port) \<Rightarrow> if list_all isDigit port then host else h)
      in if hasPrefix h ''['' \<and> hasSuffix h '']'' then butlast (tl h) else h)"

definition unsafeSchemes :: "string list" where
  "unsafeSchemes = [''javascript'', ''data'', ''file'', ''vbscript'', ''blob'', ''about'', ''ftp'', ''ws'', ''wss'']"

definition validMCPRedirectURI :: "mcpEnv \<Rightarrow> string \<Rightarrow> bool" where
  "validMCPRedirectURI env raw \<longleftrightarrow>
     (if raw = [] \<or> length raw > maxMCPRedirectURILen then False
      else case urlParse (meAuthority env) raw of
        None \<Rightarrow> False
      | Some u \<Rightarrow>
          if uFragment u \<noteq> [] \<or> uUser u \<noteq> None \<or> uScheme u = [] then False
          else let scheme = map asciiLower (uScheme u)
            in if scheme = ''https'' then uHost u \<noteq> []
               else if scheme = ''http'' then stripPort (uHost u) = ''localhost'' \<or> meLoopback env (stripPort (uHost u))
               else scheme \<notin> set unsafeSchemes)"

definition validateMCPClient :: "mcpEnv \<Rightarrow> mcpClient \<Rightarrow> string" where
  "validateMCPClient env c =
     (if length (mcRedirectURIs c) = 0 \<or> length (mcRedirectURIs c) > maxMCPRedirectURIs then ''register between 1 and 4 redirect_uris''
      else case find (\<lambda>u. \<not> validMCPRedirectURI env u) (mcRedirectURIs c) of
        Some u \<Rightarrow> ''unsupported redirect_uri '' @ u
      | None \<Rightarrow> if length (mcName c) > maxMCPClientNameLen \<or> \<not> validUTF8 (mcName c) then ''client_name is too long'' else [])"

definition mcpClientID :: "mcpEnv \<Rightarrow> mcpClient \<Rightarrow> string" where
  "mcpClientID env c = mcpClientPrefix @ rawURLEncode (meMarshal env c)"

definition displayName :: "mcpClient \<Rightarrow> string" where
  "displayName c = (if mcName c \<noteq> [] then mcName c else ''An MCP client'')"

definition parseMCPClient :: "mcpEnv \<Rightarrow> string \<Rightarrow> mcpClient option" where
  "parseMCPClient env cid =
     (case cutPrefix cid mcpClientPrefix of
        None \<Rightarrow> None
      | Some enc \<Rightarrow>
          if length enc > 4096 then None
          else (case rawURLDecode enc of
              None \<Rightarrow> None
            | Some b \<Rightarrow> (case meUnmarshal env b of
                None \<Rightarrow> None
              | Some c \<Rightarrow> if validateMCPClient env c \<noteq> [] then None else Some c)))"

definition redirectOrigin :: "mcpEnv \<Rightarrow> string \<Rightarrow> string" where
  "redirectOrigin env raw =
     (case urlParse (meAuthority env) raw of
        None \<Rightarrow> raw
      | Some u \<Rightarrow> if uHost u = [] then uScheme u @ '':'' else uScheme u @ ''://'' @ uHost u)"

text \<open>An OAuth endpoint's refusal: its error and what it describes.\<close>

datatype oauthRefusal = OAuthError string string | OAuthInternal

definition handleMCPRegister :: "mcpEnv \<Rightarrow> (string list \<times> string \<times> string list) option \<Rightarrow> oauthRefusal + string \<times> mcpClient" where
  "handleMCPRegister env body =
     (case body of
        None \<Rightarrow> Inl (OAuthError ''invalid_client_metadata'' ''malformed registration'')
      | Some (redirectURIs, clientName, grantTypes) \<Rightarrow>
          if length grantTypes > 0 \<and> ''authorization_code'' \<notin> set grantTypes
          then Inl (OAuthError ''invalid_client_metadata'' ''only the authorization_code grant is supported'')
          else let name = trimSpace clientName;
                   name = (if length name > maxMCPClientNameLen then toValidUTF8 (take maxMCPClientNameLen name) else name);
                   c = \<lparr>mcName = name, mcRedirectURIs = redirectURIs\<rparr>; msg = validateMCPClient env c
            in if msg \<noteq> [] then Inl (OAuthError ''invalid_redirect_uri'' msg) else Inr (mcpClientID env c, c))"

section \<open>Consent\<close>

record mcpAuthRequest =
  arqClient :: mcpClient
  arqClientID :: string
  arqRedirectURI :: string
  arqState :: string
  arqChallenge :: string

text \<open>A request that cannot be vouched for, one that goes back to its client, or one to consent to.\<close>

datatype authParse = BadLink | BackToClient mcpAuthRequest string string | Consentable mcpAuthRequest

definition mcpResourceAccepted :: "serverConfig \<Rightarrow> string \<Rightarrow> bool" where
  "mcpResourceAccepted cfg resource \<longleftrightarrow>
     (let r = trimSuffix resource ''/'' in r = [] \<or> r = mcpResource cfg \<or> r = svBaseURL cfg)"

definition parseMCPAuthRequest :: "serverConfig \<Rightarrow> mcpEnv \<Rightarrow> (string \<Rightarrow> string) \<Rightarrow> authParse" where
  "parseMCPAuthRequest cfg env q =
     (case parseMCPClient env (q ''client_id'') of
        None \<Rightarrow> BadLink
      | Some c \<Rightarrow>
          (let redirectURI = (if q ''redirect_uri'' = [] \<and> length (mcRedirectURIs c) = 1 then hd (mcRedirectURIs c) else q ''redirect_uri'')
           in if redirectURI \<notin> set (mcRedirectURIs c) then BadLink
              else let req = \<lparr>arqClient = c, arqClientID = q ''client_id'', arqRedirectURI = redirectURI, arqState = q ''state'',
                         arqChallenge = q ''code_challenge''\<rparr>
                in if q ''response_type'' \<noteq> ''code''
                   then BackToClient req ''unsupported_response_type'' ''only response_type=code is supported''
                   else if arqChallenge req = [] \<or> q ''code_challenge_method'' \<noteq> ''S256''
                   then BackToClient req ''invalid_request'' ''PKCE with code_challenge_method=S256 is required''
                   else if \<not> mcpResourceAccepted cfg (q ''resource'')
                   then BackToClient req ''invalid_target'' (''this server issues tokens for '' @ mcpResource cfg @ '' only'')
                   else Consentable req))"

text \<open>The client's redirect URI with an authorization response set on it.\<close>

record mcpRedirect =
  mrURI :: string
  mrParams :: "(string \<times> string) list"

definition authRedirect :: "serverConfig \<Rightarrow> mcpAuthRequest \<Rightarrow> (string \<times> string) list \<Rightarrow> mcpRedirect" where
  "authRedirect cfg req params =
     \<lparr>mrURI = arqRedirectURI req,
      mrParams = params @ (if arqState req \<noteq> [] then [(''state'', arqState req)] else []) @ [(''iss'', svBaseURL cfg)]\<rparr>"

record mcpConsentDTO =
  cdRedirect :: "mcpRedirect option"
  cdRefusal :: string
  cdClient :: string
  cdRedirectOrigin :: string
  cdDenyURL :: "mcpRedirect option"
  cdUser :: string

definition refusedConsent :: "serverConfig \<Rightarrow> mcpEnv \<Rightarrow> mcpAuthRequest \<Rightarrow> string \<Rightarrow> string \<Rightarrow> mcpConsentDTO" where
  "refusedConsent cfg env req code desc =
     \<lparr>cdRedirect = Some (authRedirect cfg req [(''error'', code), (''error_description'', desc)]), cdRefusal = desc,
      cdClient = displayName (arqClient req), cdRedirectOrigin = redirectOrigin env (arqRedirectURI req), cdDenyURL = None, cdUser = []\<rparr>"

datatype consentRefusal = ConsentNotFound | ConsentBadLink | ConsentInternal

definition handleAPIMCPConsent :: "serverConfig \<Rightarrow> mcpEnv \<Rightarrow> User \<Rightarrow> (string \<Rightarrow> string) \<Rightarrow> consentRefusal + mcpConsentDTO" where
  "handleAPIMCPConsent cfg env u q =
     (if \<not> mcpAuthEnabled cfg then Inl ConsentNotFound
      else case parseMCPAuthRequest cfg env q of
        BadLink \<Rightarrow> Inl ConsentBadLink
      | BackToClient req code desc \<Rightarrow> Inr (refusedConsent cfg env req code desc)
      | Consentable req \<Rightarrow>
          Inr \<lparr>cdRedirect = None, cdRefusal = [], cdClient = displayName (arqClient req), cdRedirectOrigin = redirectOrigin env (arqRedirectURI req),
            cdDenyURL = Some (authRedirect cfg req [(''error'', ''access_denied'')]), cdUser = usDisplayName u\<rparr>)"

text \<open>The posted query as it parses, \<open>None\<close> when it does not; \<open>code\<close> is the fresh random code.\<close>

definition approvedCode :: "mcpEnv \<Rightarrow> time \<Rightarrow> string \<Rightarrow> User \<Rightarrow> mcpAuthRequest \<Rightarrow> OAuthCode" where
  "approvedCode env now code u req =
     \<lparr>ocCodeHash = meHash env code, ocUserID = usID u, ocClientID = arqClientID req, ocRedirectURI = arqRedirectURI req,
      ocCodeChallenge = arqChallenge req, ocExpiresAt = now + mcpCodeTTL\<rparr>"

definition handleAPIMCPApprove :: "serverConfig \<Rightarrow> mcpEnv \<Rightarrow> time \<Rightarrow> string \<Rightarrow> User \<Rightarrow> (string \<Rightarrow> string) option \<Rightarrow> memStore
    \<Rightarrow> (consentRefusal + mcpConsentDTO) \<times> memStore" where
  "handleAPIMCPApprove cfg env now code u query s =
     (if \<not> mcpAuthEnabled cfg then (Inl ConsentNotFound, s)
      else case query of
        None \<Rightarrow> (Inl ConsentBadLink, s)
      | Some q \<Rightarrow> (case parseMCPAuthRequest cfg env q of
          BadLink \<Rightarrow> (Inl ConsentBadLink, s)
        | BackToClient req err desc \<Rightarrow> (Inr (refusedConsent cfg env req err desc), s)
        | Consentable req \<Rightarrow> (case CreateOAuthCode (approvedCode env now code u req) s of
            (Inl _, s) \<Rightarrow> (Inl ConsentInternal, s)
          | (Inr _, s) \<Rightarrow>
              (Inr \<lparr>cdRedirect = Some (authRedirect cfg req [(''code'', code)]), cdRefusal = [], cdClient = [], cdRedirectOrigin = [],
                 cdDenyURL = None, cdUser = []\<rparr>, s))))"

section \<open>Tokens\<close>

definition pkceMatches :: "mcpEnv \<Rightarrow> string \<Rightarrow> string \<Rightarrow> bool" where
  "pkceMatches env verifier challenge \<longleftrightarrow>
     \<not> (length verifier < 43 \<or> length verifier > 128) \<and> rawURLEncode (meSHA256 env verifier) = challenge"

text \<open>The posted form, \<open>None\<close> when it does not parse; \<open>rnd\<close> is the fresh random part of the token.\<close>

definition handleMCPToken :: "serverConfig \<Rightarrow> mcpEnv \<Rightarrow> time \<Rightarrow> string \<Rightarrow> (string \<Rightarrow> string) option \<Rightarrow> memStore \<Rightarrow> (oauthRefusal + string) \<times> memStore" where
  "handleMCPToken cfg env now rnd form s =
     (case form of
        None \<Rightarrow> (Inl (OAuthError ''invalid_request'' ''malformed request''), s)
      | Some f \<Rightarrow>
          if f ''grant_type'' \<noteq> ''authorization_code''
          then (Inl (OAuthError ''unsupported_grant_type'' ''only the authorization_code grant is supported''), s)
          else if f ''code'' = [] \<or> f ''code_verifier'' = []
          then (Inl (OAuthError ''invalid_request'' ''code and code_verifier are required''), s)
          else (case ConsumeOAuthCode now (meHash env (f ''code'')) s of
              (Inl e, s) \<Rightarrow>
                (Inl (if e = ErrNotFound then OAuthError ''invalid_grant'' ''the code is unknown, used or expired'' else OAuthInternal), s)
            | (Inr c, s) \<Rightarrow>
                (let clientID = (if f ''client_id'' = [] then ocClientID c else f ''client_id'')
                 in if clientID \<noteq> ocClientID c \<or> (f ''redirect_uri'' \<noteq> [] \<and> f ''redirect_uri'' \<noteq> ocRedirectURI c)
                        \<or> \<not> pkceMatches env (f ''code_verifier'') (ocCodeChallenge c)
                    then (Inl (OAuthError ''invalid_grant'' ''the code was issued to another client, redirect URI or verifier''), s)
                    else if \<not> mcpResourceAccepted cfg (f ''resource'')
                    then (Inl (OAuthError ''invalid_target'' (''this server issues tokens for '' @ mcpResource cfg @ '' only'')), s)
                    else let token = mcpTokenPrefix @ rnd;
                             name = (case parseMCPClient env (ocClientID c) of None \<Rightarrow> [] | Some cl \<Rightarrow> mcName cl)
                      in (case CreateMCPToken now \<lparr>mtTokenHash = meHash env token, mtUserID = ocUserID c, mtClientName = name,
                             mtCreatedAt = 0, mtExpiresAt = now + mcpTokenTTL\<rparr> s of
                            (Inl _, s) \<Rightarrow> (Inl OAuthInternal, s)
                          | (Inr _, s) \<Rightarrow> (Inr token, s)))))"

text \<open>A message let through to the server, with its user, or the challenge to sign in.\<close>

datatype mcpDoor = McpServed "User option" | McpUnauthorized string | McpInternal

definition mcpUnauthorized :: "serverConfig \<Rightarrow> string \<Rightarrow> mcpDoor" where
  "mcpUnauthorized cfg oauthErr =
     McpUnauthorized (''Bearer resource_metadata='' @ [CHR 0x22] @ mcpResourceMetadataURL cfg @ [CHR 0x22]
       @ (if oauthErr \<noteq> [] then '', error='' @ [CHR 0x22] @ oauthErr @ [CHR 0x22] else []))"

definition handleMCP :: "serverConfig \<Rightarrow> mcpEnv \<Rightarrow> time \<Rightarrow> string \<Rightarrow> memStore \<Rightarrow> mcpDoor \<times> memStore" where
  "handleMCP cfg env now authorization s =
     (if \<not> mcpAuthEnabled cfg then (McpServed None, s)
      else let token = trimPrefix authorization ''Bearer ''
        in if token = [] then (mcpUnauthorized cfg [], s)
           else (case UserByMCPToken now (meHash env token) s of
               (Inl e, s) \<Rightarrow> (if e = ErrNotFound then mcpUnauthorized cfg ''invalid_token'' else McpInternal, s)
             | (Inr u, s) \<Rightarrow> (McpServed (Some u), s)))"

section \<open>What a token rests on\<close>

text \<open>
  Consents given and codes exchanged, as nobody but the reader of this model records them, while
  the handlers run in any order with whatever else happens to the store, as long as that adds no
  codes and no tokens. A fresh code's hash is not that of an earlier one.
\<close>

record approval =
  apTime :: time
  apUser :: int
  apRequest :: mcpAuthRequest
  apCode :: string

record exchange =
  exTime :: time
  exCode :: string
  exToken :: string
  exVerifier :: string

record mcpWorld =
  mwStore :: memStore
  mwNow :: time
  mwApprovals :: "approval list"
  mwExchanges :: "exchange list"

definition fewer :: "('k, 'v) gomap \<Rightarrow> ('k, 'v) gomap \<Rightarrow> bool" where
  "fewer m m' \<longleftrightarrow> (\<forall>k v. map_of m' k = Some v \<longrightarrow> map_of m k = Some v)"

inductive mcpStep :: "serverConfig \<Rightarrow> mcpEnv \<Rightarrow> mcpWorld \<Rightarrow> mcpWorld \<Rightarrow> bool" for cfg env where
  mcp_approve: "mwNow mw \<le> now \<Longrightarrow> parseMCPAuthRequest cfg env q = Consentable req
    \<Longrightarrow> meHash env code \<notin> apCode ` set (mwApprovals mw)
    \<Longrightarrow> handleAPIMCPApprove cfg env now code u (Some q) (mwStore mw) = (Inr dto, s)
    \<Longrightarrow> mcpStep cfg env mw (mw\<lparr>mwStore := s, mwNow := now,
         mwApprovals := \<lparr>apTime = now, apUser = usID u, apRequest = req, apCode = meHash env code\<rparr> # mwApprovals mw\<rparr>)"
| mcp_exchange: "mwNow mw \<le> now \<Longrightarrow> handleMCPToken cfg env now rnd (Some f) (mwStore mw) = (Inr token, s)
    \<Longrightarrow> mcpStep cfg env mw (mw\<lparr>mwStore := s, mwNow := now,
         mwExchanges := \<lparr>exTime = now, exCode = meHash env (f ''code''), exToken = meHash env token, exVerifier = f ''code_verifier''\<rparr> # mwExchanges mw\<rparr>)"
| mcp_refused: "mwNow mw \<le> now \<Longrightarrow> handleMCPToken cfg env now rnd form (mwStore mw) = (Inl e, s)
    \<Longrightarrow> mcpStep cfg env mw (mw\<lparr>mwStore := s, mwNow := now\<rparr>)"
| mcp_other: "mwNow mw \<le> now \<Longrightarrow> fewer (oauthCodes (mwStore mw)) (oauthCodes s) \<Longrightarrow> fewer (mcpTokens (mwStore mw)) (mcpTokens s)
    \<Longrightarrow> mcpStep cfg env mw (mw\<lparr>mwStore := s, mwNow := now\<rparr>)"

definition codeOf :: "approval \<Rightarrow> OAuthCode \<Rightarrow> bool" where
  "codeOf ap c \<longleftrightarrow> ocUserID c = apUser ap \<and> ocClientID c = arqClientID (apRequest ap) \<and> ocRedirectURI c = arqRedirectURI (apRequest ap)
     \<and> ocCodeChallenge c = arqChallenge (apRequest ap) \<and> ocExpiresAt c = apTime ap + mcpCodeTTL"

definition exchanged :: "mcpEnv \<Rightarrow> approval \<Rightarrow> exchange \<Rightarrow> bool" where
  "exchanged env ap ex \<longleftrightarrow> exCode ex = apCode ap \<and> apTime ap \<le> exTime ex \<and> exTime ex < apTime ap + mcpCodeTTL \<and> pkceMatches env (exVerifier ex) (arqChallenge (apRequest ap))"

text \<open>What is known of an approved request: a registered client, and one of its own redirect URIs.\<close>

definition vouchedRequest :: "mcpEnv \<Rightarrow> mcpAuthRequest \<Rightarrow> bool" where
  "vouchedRequest env req \<longleftrightarrow> parseMCPClient env (arqClientID req) = Some (arqClient req)
     \<and> arqRedirectURI req \<in> set (mcRedirectURIs (arqClient req)) \<and> validMCPRedirectURI env (arqRedirectURI req) \<and> arqChallenge req \<noteq> []"

definition mcpInv :: "mcpEnv \<Rightarrow> mcpWorld \<Rightarrow> bool" where
  "mcpInv env mw \<longleftrightarrow> (\<forall>ap \<in> set (mwApprovals mw). vouchedRequest env (apRequest ap) \<and> apTime ap \<le> mwNow mw)
     \<and> (\<forall>h c. map_of (oauthCodes (mwStore mw)) h = Some c \<longrightarrow>
          h \<notin> exCode ` set (mwExchanges mw) \<and> (\<exists>ap \<in> set (mwApprovals mw). apCode ap = h \<and> codeOf ap c))
     \<and> (\<forall>h t. map_of (mcpTokens (mwStore mw)) h = Some t \<longrightarrow>
          (\<exists>ap \<in> set (mwApprovals mw). \<exists>ex \<in> set (mwExchanges mw). exToken ex = h \<and> exchanged env ap ex
             \<and> mtUserID t = apUser ap \<and> mtExpiresAt t = exTime ex + mcpTokenTTL))
     \<and> distinct (map exCode (mwExchanges mw)) \<and> exCode ` set (mwExchanges mw) \<subseteq> apCode ` set (mwApprovals mw)"

lemma find_None_all: "find P xs = None \<longleftrightarrow> (\<forall>x \<in> set xs. \<not> P x)"
  by (auto simp: find_None_iff)

lemma parseMCPClient_valid: "parseMCPClient env cid = Some c \<Longrightarrow> u \<in> set (mcRedirectURIs c) \<Longrightarrow> validMCPRedirectURI env u"
  by (auto simp: parseMCPClient_def validateMCPClient_def find_None_all split: option.splits if_splits)

lemma consentable_vouched: "parseMCPAuthRequest cfg env q = Consentable req \<Longrightarrow> vouchedRequest env req"
  by (auto simp: parseMCPAuthRequest_def vouchedRequest_def Let_def split: option.splits if_splits intro: parseMCPClient_valid)

lemma approve_store:
  assumes "handleAPIMCPApprove cfg env now code u (Some q) s = (Inr dto, s')" and "parseMCPAuthRequest cfg env q = Consentable req"
  shows "s' = s\<lparr>oauthCodes := AList.update (meHash env code) (approvedCode env now code u req) (oauthCodes s)\<rparr>"
  using assms by (auto simp: handleAPIMCPApprove_def CreateOAuthCode_def approvedCode_def split: if_splits sum.splits)

lemma consume_cases:
  assumes "ConsumeOAuthCode now h s = (res, s')"
  shows "fewer (oauthCodes s) (oauthCodes s')" "mcpTokens s' = mcpTokens s" "map_of (oauthCodes s') h = None"
    "res = Inr c \<Longrightarrow> map_of (oauthCodes s) h = Some c \<and> now < ocExpiresAt c"
  using assms by (auto simp: ConsumeOAuthCode_def fewer_def Let_def delete_conv' split: option.splits if_splits)

lemma fewer_refl [simp]: "fewer m m"
  by (simp add: fewer_def)

text \<open>An exchange spends the code it names, whatever comes of it; a token answers only a good one.\<close>

lemma handleMCPToken_cases:
  assumes "handleMCPToken cfg env now rnd form s = (res, s')"
  obtains (unread) e where "res = Inl e" "s' = s"
  | (spent) f q s1 e where "form = Some f" "ConsumeOAuthCode now (meHash env (f ''code'')) s = (q, s1)" "res = Inl e"
      "oauthCodes s' = oauthCodes s1" "mcpTokens s' = mcpTokens s1"
  | (issued) f c s1 t token where "form = Some f" "ConsumeOAuthCode now (meHash env (f ''code'')) s = (Inr c, s1)" "res = Inr token"
      "pkceMatches env (f ''code_verifier'') (ocCodeChallenge c)" "mtUserID t = ocUserID c" "mtExpiresAt t = now + mcpTokenTTL"
      "oauthCodes s' = oauthCodes s1" "mcpTokens s' = AList.update (meHash env token) t (mcpTokens s1)"
proof -
  show ?thesis
  proof (cases "\<exists>f. form = Some f \<and> f ''grant_type'' = ''authorization_code'' \<and> f ''code'' \<noteq> [] \<and> f ''code_verifier'' \<noteq> []")
    case False
    then show ?thesis using assms unread by (auto simp: handleMCPToken_def split: option.splits if_splits)
  next
    case True
    then obtain f where f: "form = Some f" "f ''grant_type'' = ''authorization_code''" "f ''code'' \<noteq> []" "f ''code_verifier'' \<noteq> []" by blast
    obtain q s1 where c: "ConsumeOAuthCode now (meHash env (f ''code'')) s = (q, s1)" by fastforce
    note run = assms [unfolded handleMCPToken_def f(1) option.case c prod.case]
    show ?thesis
    proof (cases q)
      case (Inl e)
      then show ?thesis using run f spent [OF f(1) c] by auto
    next
      case (Inr c')
      define t where "t = \<lparr>mtTokenHash = meHash env (mcpTokenPrefix @ rnd), mtUserID = ocUserID c',
        mtClientName = (case parseMCPClient env (ocClientID c') of None \<Rightarrow> [] | Some cl \<Rightarrow> mcName cl), mtCreatedAt = 0, mtExpiresAt = now + mcpTokenTTL\<rparr>"
      obtain r s2 where m: "CreateMCPToken now t s1 = (r, s2)" by fastforce
      show ?thesis
      proof (cases "\<exists>e. res = Inl e")
        case True
        then obtain e where e: "res = Inl e" by blast
        have "s' = s1 \<or> (s' = s2 \<and> r \<noteq> Inr undefined \<and> (\<exists>x. r = Inl x))"
          using run f Inr e m by (auto simp: Let_def t_def split: if_splits sum.splits)
        moreover have "s2 = s1" if "r = Inl x" for x using m that by (auto simp: CreateMCPToken_def Let_def split: if_splits)
        ultimately have "s' = s1" by auto
        then show ?thesis using spent [OF f(1) c e] by simp
      next
        case False
        then obtain token where tok: "res = Inr token" by (cases res) auto
        then have ok: "pkceMatches env (f ''code_verifier'') (ocCodeChallenge c')" "token = mcpTokenPrefix @ rnd" "s' = s2" "\<exists>t'. r = Inr t'"
          using run f Inr m by (auto simp: Let_def t_def split: if_splits sum.splits)
        have "\<exists>t'. mtUserID t' = ocUserID c' \<and> mtExpiresAt t' = now + mcpTokenTTL \<and> s2 = s1\<lparr>mcpTokens := AList.update (meHash env token) t' (mcpTokens s1)\<rparr>"
          by (rule exI [of _ "t\<lparr>mtCreatedAt := now\<rparr>"]) (use m ok(2,4) in \<open>auto simp: CreateMCPToken_def Let_def t_def split: if_splits\<close>)
        then obtain t' where "mtUserID t' = ocUserID c'" "mtExpiresAt t' = now + mcpTokenTTL"
          "s2 = s1\<lparr>mcpTokens := AList.update (meHash env token) t' (mcpTokens s1)\<rparr>" by blast
        then show ?thesis using issued [OF f(1) c [unfolded Inr] tok ok(1), of t'] ok(3) by simp
      qed
    qed
  qed
qed

lemma mcpStep_inv: "mcpStep cfg env mw mw' \<Longrightarrow> mcpInv env mw \<Longrightarrow> mcpInv env mw'"
proof (induction rule: mcpStep.induct)
  case (mcp_approve mw now q req code u dto s)
  let ?ap = "\<lparr>apTime = now, apUser = usID u, apRequest = req, apCode = meHash env code\<rparr>"
  have s: "s = (mwStore mw)\<lparr>oauthCodes := AList.update (meHash env code) (approvedCode env now code u req) (oauthCodes (mwStore mw))\<rparr>"
    by (rule approve_store [OF mcp_approve(4,2)])
  have row: "codeOf ?ap (approvedCode env now code u req)" by (simp add: codeOf_def approvedCode_def)
  have "meHash env code \<notin> exCode ` set (mwExchanges mw)" using mcp_approve(3,5) by (auto simp: mcpInv_def)
  moreover have "\<forall>ap \<in> set (?ap # mwApprovals mw). vouchedRequest env (apRequest ap) \<and> apTime ap \<le> now"
    using mcp_approve(1,5) consentable_vouched [OF mcp_approve(2)] by (fastforce simp: mcpInv_def)
  ultimately show ?case using mcp_approve(5) row unfolding mcpInv_def s by (simp add: update_conv') blast
next
  case (mcp_exchange mw now rnd f token s)
  show ?case using mcp_exchange(2)
  proof (cases rule: handleMCPToken_cases)
    case (issued f' c s1 t token')
    note con = consume_cases [OF issued(2)]
    have c: "map_of (oauthCodes (mwStore mw)) (meHash env (f ''code'')) = Some c" "now < ocExpiresAt c" using con(4) issued(1) by auto
    then have "meHash env (f ''code'') \<notin> exCode ` set (mwExchanges mw) \<and> (\<exists>ap \<in> set (mwApprovals mw). apCode ap = meHash env (f ''code'') \<and> codeOf ap c)"
      using mcp_exchange(3) by (simp add: mcpInv_def)
    then obtain ap where ap: "ap \<in> set (mwApprovals mw)" "apCode ap = meHash env (f ''code'')" "codeOf ap c"
      and new: "meHash env (f ''code'') \<notin> exCode ` set (mwExchanges mw)" by blast
    let ?ex = "\<lparr>exTime = now, exCode = meHash env (f ''code''), exToken = meHash env token, exVerifier = f ''code_verifier''\<rparr>"
    have ex: "exchanged env ap ?ex" "mtUserID t = apUser ap" "mtExpiresAt t = exTime ?ex + mcpTokenTTL"
      using ap c(2) issued(1,4-6) mcp_exchange(1,3) by (auto simp: exchanged_def codeOf_def mcpInv_def intro: order_trans)
    have codes: "h \<notin> exCode ` set (?ex # mwExchanges mw) \<and> (\<exists>ap \<in> set (mwApprovals mw). apCode ap = h \<and> codeOf ap c)"
      if "map_of (oauthCodes s) h = Some c" for h c
    proof -
      have old: "map_of (oauthCodes (mwStore mw)) h = Some c" and "h \<noteq> meHash env (f ''code'')"
        using that con(1,3) issued(1,7) by (auto simp: fewer_def)
      then show ?thesis using mcp_exchange(3) by (auto simp: mcpInv_def)
    qed
    have toks: "\<exists>ap \<in> set (mwApprovals mw). \<exists>ex \<in> set (?ex # mwExchanges mw). exToken ex = h \<and> exchanged env ap ex
             \<and> mtUserID t = apUser ap \<and> mtExpiresAt t = exTime ex + mcpTokenTTL" if "map_of (mcpTokens s) h = Some t" for h t
    proof (cases "h = meHash env token")
      case True
      then show ?thesis using that issued(3,8) ap(1) ex by (auto simp: update_conv')
    next
      case False
      then have "map_of (mcpTokens (mwStore mw)) h = Some t" using that issued(3,8) con(2) by (auto simp: update_conv')
      then have "\<exists>ap \<in> set (mwApprovals mw). \<exists>ex \<in> set (mwExchanges mw). exToken ex = h \<and> exchanged env ap ex
             \<and> mtUserID t = apUser ap \<and> mtExpiresAt t = exTime ex + mcpTokenTTL" using mcp_exchange(3) by (simp add: mcpInv_def)
      then show ?thesis by (meson list.set_intros(2))
    qed
    have rest: "\<forall>ap \<in> set (mwApprovals mw). vouchedRequest env (apRequest ap) \<and> apTime ap \<le> now" "distinct (map exCode (mwExchanges mw))"
      "exCode ` set (mwExchanges mw) \<subseteq> apCode ` set (mwApprovals mw)"
      using mcp_exchange(1,3) by (auto simp: mcpInv_def intro: order_trans)
    have inAp: "meHash env (f ''code'') \<in> apCode ` set (mwApprovals mw)" using ap(1) by (simp flip: ap(2))
    show ?thesis unfolding mcpInv_def using rest codes toks new inAp by (intro conjI) auto
  qed auto
next
  case (mcp_refused mw now rnd form e s)
  have sub: "fewer (oauthCodes (mwStore mw)) (oauthCodes s)" "mcpTokens s = mcpTokens (mwStore mw)"
    using mcp_refused(2)
    by (cases rule: handleMCPToken_cases; use consume_cases(1,2) in \<open>fastforce simp: fewer_def\<close>)+
  then show ?case using mcp_refused(1,3) by (auto simp: mcpInv_def fewer_def intro: order_trans)
next
  case (mcp_other mw now s)
  then show ?case by (auto simp: mcpInv_def fewer_def intro: order_trans)
qed

lemma mcpReach_inv: "(mcpStep cfg env)\<^sup>*\<^sup>* w0 w \<Longrightarrow> mcpInv env w0 \<Longrightarrow> mcpInv env w"
  by (induction rule: rtranclp_induct) (auto intro: mcpStep_inv)

definition noMcpYet :: "mcpWorld \<Rightarrow> bool" where
  "noMcpYet w \<longleftrightarrow> oauthCodes (mwStore w) = [] \<and> mcpTokens (mwStore w) = [] \<and> mwApprovals w = [] \<and> mwExchanges w = []"

lemma noMcpYet_inv: "noMcpYet w \<Longrightarrow> mcpInv env w"
  by (simp add: noMcpYet_def mcpInv_def)

lemma handleMCP_token:
  assumes "handleMCP cfg env now auth s = (McpServed (Some u), s')"
  obtains t where "map_of (mcpTokens s) (meHash env (trimPrefix auth ''Bearer '')) = Some t" "now < mtExpiresAt t" "map_of (users s) (mtUserID t) = Some u"
  using assms by (auto simp: handleMCP_def mcpUnauthorized_def UserByMCPToken_def rowOr_def Let_def split: if_splits option.splits prod.splits sum.splits)

text \<open>
  C13: whatever order consents, exchanges and the rest of the server run in, a message that is let
  through as a user carries a token which one exchange of that user's own consent issued: the
  client they approved was one the server vouched for, with one of its registered redirect URIs,
  the exchange came within five minutes of the consent with the verifier its challenge was made
  from, no code was exchanged twice, and the token is not yet past its lifetime.
\<close>

theorem mcp_access_consented:
  assumes "(mcpStep cfg env)\<^sup>*\<^sup>* w0 w" and "noMcpYet w0"
    and "handleMCP cfg env now auth (mwStore w) = (McpServed (Some u), s')"
  shows "\<exists>ap \<in> set (mwApprovals w). \<exists>ex \<in> set (mwExchanges w).
      exToken ex = meHash env (trimPrefix auth ''Bearer '') \<and> exchanged env ap ex
    \<and> map_of (users (mwStore w)) (apUser ap) = Some u \<and> now < exTime ex + mcpTokenTTL
    \<and> vouchedRequest env (apRequest ap) \<and> distinct (map exCode (mwExchanges w))"
proof -
  have inv: "mcpInv env w" by (rule mcpReach_inv [OF assms(1) noMcpYet_inv [OF assms(2)]])
  obtain t where t: "map_of (mcpTokens (mwStore w)) (meHash env (trimPrefix auth ''Bearer '')) = Some t" "now < mtExpiresAt t"
    "map_of (users (mwStore w)) (mtUserID t) = Some u" using handleMCP_token [OF assms(3)] by blast
  have "\<exists>ap \<in> set (mwApprovals w). \<exists>ex \<in> set (mwExchanges w). exToken ex = meHash env (trimPrefix auth ''Bearer '') \<and> exchanged env ap ex
      \<and> mtUserID t = apUser ap \<and> mtExpiresAt t = exTime ex + mcpTokenTTL" using inv t(1) by (simp add: mcpInv_def)
  then obtain ap ex where ap: "ap \<in> set (mwApprovals w)" and "ex \<in> set (mwExchanges w)" "exToken ex = meHash env (trimPrefix auth ''Bearer '')"
    "exchanged env ap ex" "mtUserID t = apUser ap" "mtExpiresAt t = exTime ex + mcpTokenTTL" by blast
  moreover have "vouchedRequest env (apRequest ap)" "distinct (map exCode (mwExchanges w))" using inv ap by (simp_all add: mcpInv_def)
  ultimately show ?thesis using t(2,3) by (intro bexI [of _ ap] bexI [of _ ex] conjI) simp_all
qed

text \<open>A user approves an editor, which exchanges the code with its verifier and then posts a message.\<close>

definition editorClient :: mcpClient where
  "editorClient = \<lparr>mcName = ''Ed'', mcRedirectURIs = [''https://ed.example/cb'']\<rparr>"

definition editorEnv :: mcpEnv where
  "editorEnv = \<lparr>meAuthority = (\<lambda>a. Some (None, a)), meLoopback = (\<lambda>_. False), meMarshal = (\<lambda>_. ''ed''),
     meUnmarshal = (\<lambda>b. if b = ''ed'' then Some editorClient else None), meHash = (\<lambda>t. ''#'' @ t), meSHA256 = take 3\<rparr>"

definition editorConfig :: serverConfig where
  "editorConfig = \<lparr>svAuths = [''github''], svPublicReports = False, svHosted = False, svBaseURL = ''https://gocov.dev'', svAllowedWorkspaces = []\<rparr>"

definition editorVerifier :: string where
  "editorVerifier = replicate 43 (CHR ''v'')"

definition editorQuery :: "string \<Rightarrow> string" where
  "editorQuery k = (if k = ''client_id'' then mcpClientID editorEnv editorClient
     else if k = ''response_type'' then ''code'' else if k = ''code_challenge_method'' then ''S256''
     else if k = ''code_challenge'' then rawURLEncode ''vvv'' else [])"

definition editorForm :: "string \<Rightarrow> string" where
  "editorForm k = (if k = ''grant_type'' then ''authorization_code'' else if k = ''code'' then ''c1''
     else if k = ''code_verifier'' then editorVerifier else [])"

definition editorStore :: memStore where
  "editorStore = snd (UpsertUser 0 \<lparr>usID = 0, usForge = ''github'', usForgeUUID = ''7'', usEmail = [], usDisplayName = ''Ana'',
     usForgeWorkspaces = [], usForgeOwnedWorkspaces = [], usCreatedAt = 0, usLastLoginAt = 0\<rparr> newStore)"

definition editorUser :: User where
  "editorUser = the (map_of (users editorStore) 1)"

definition editorApproved :: "(consentRefusal + mcpConsentDTO) \<times> memStore" where
  "editorApproved = handleAPIMCPApprove editorConfig editorEnv 10 ''c1'' editorUser (Some editorQuery) editorStore"

definition editorIssued :: "(oauthRefusal + string) \<times> memStore" where
  "editorIssued = handleMCPToken editorConfig editorEnv 20 ''t1'' (Some editorForm) (snd editorApproved)"

theorem mcp_access_consented_witness:
  "\<exists>ap ex req. fst (handleMCP editorConfig editorEnv 30 ''Bearer gocov_mcp_t1'' (snd editorIssued)) = McpServed (Some editorUser)
    \<and> parseMCPAuthRequest editorConfig editorEnv editorQuery = Consentable req \<and> apRequest ap = req
    \<and> exchanged editorEnv ap ex \<and> exToken ex = ''#gocov_mcp_t1'' \<and> exVerifier ex = editorVerifier"
proof -
  have "case parseMCPAuthRequest editorConfig editorEnv editorQuery of Consentable _ \<Rightarrow> True | _ \<Rightarrow> False" by code_simp
  then obtain req where req: "parseMCPAuthRequest editorConfig editorEnv editorQuery = Consentable req" by (simp split: authParse.splits)
  have "case fst editorApproved of Inr _ \<Rightarrow> True | Inl _ \<Rightarrow> False" by code_simp
  then obtain dto where "fst editorApproved = Inr dto" by (auto split: sum.splits)
  then have ok: "editorApproved = (Inr dto, snd editorApproved)" by (simp add: prod_eq_iff)
  have "fst editorIssued = Inr ''gocov_mcp_t1''" by code_simp
  then have iss: "editorIssued = (Inr ''gocov_mcp_t1'', snd editorIssued)" by (simp add: prod_eq_iff)
  have served: "fst (handleMCP editorConfig editorEnv 30 ''Bearer gocov_mcp_t1'' (snd editorIssued)) = McpServed (Some editorUser)" by code_simp
  let ?w0 = "\<lparr>mwStore = editorStore, mwNow = 0, mwApprovals = [], mwExchanges = []\<rparr>"
  let ?ap = "\<lparr>apTime = 10, apUser = usID editorUser, apRequest = req, apCode = meHash editorEnv ''c1''\<rparr>"
  let ?ex = "\<lparr>exTime = 20, exCode = meHash editorEnv (editorForm ''code''), exToken = meHash editorEnv ''gocov_mcp_t1'', exVerifier = editorForm ''code_verifier''\<rparr>"
  let ?w1 = "\<lparr>mwStore = snd editorApproved, mwNow = 10, mwApprovals = [?ap], mwExchanges = []\<rparr>"
  let ?w2 = "\<lparr>mwStore = snd editorIssued, mwNow = 20, mwApprovals = [?ap], mwExchanges = [?ex]\<rparr>"
  have "mcpStep editorConfig editorEnv ?w0 ?w1"
    using mcp_approve [of ?w0 10 editorConfig editorEnv editorQuery req "''c1''" editorUser dto "snd editorApproved"] req ok by (simp add: editorApproved_def)
  moreover have "mcpStep editorConfig editorEnv ?w1 ?w2"
    using mcp_exchange [of ?w1 20 editorConfig editorEnv "''t1''" editorForm "''gocov_mcp_t1''" "snd editorIssued"] iss by (simp add: editorIssued_def)
  ultimately have reach: "(mcpStep editorConfig editorEnv)\<^sup>*\<^sup>* ?w0 ?w2" by (meson rtranclp.rtrancl_refl rtranclp.rtrancl_into_rtrancl)
  have "oauthCodes editorStore = [] \<and> mcpTokens editorStore = []" by code_simp
  then have start: "noMcpYet ?w0" by (simp add: noMcpYet_def)
  have "handleMCP editorConfig editorEnv 30 ''Bearer gocov_mcp_t1'' (mwStore ?w2)
      = (McpServed (Some editorUser), snd (handleMCP editorConfig editorEnv 30 ''Bearer gocov_mcp_t1'' (mwStore ?w2)))"
    using served by (simp add: prod_eq_iff)
  from mcp_access_consented [OF reach start this] have "exchanged editorEnv ?ap ?ex \<and> exToken ?ex = ''#gocov_mcp_t1''"
    by (simp add: editorEnv_def trimPrefix_def)
  then show ?thesis using served req by (intro exI [of _ ?ap] exI [of _ ?ex] exI [of _ req]) (auto simp: editorForm_def)
qed

end
