(* ===== verification/FilesView.thy ===== *)
theory FilesView
  imports Access CommitUploads Baseline Formats CoverageGate "HOL-Library.Product_Lexorder"
begin

text \<open>
  What the report pages show of the files, \<open>internal/server/uploadpage.go\<close> and the reads of
  \<open>repopage.go\<close> and \<open>source.go\<close> behind it: the files card of an upload or of a commit's parts
  merged, against a baseline, and the card of the upload itself. Proved: a commit's file read
  alone is the row of the merged card, and what a card marks and in which order.
\<close>

section \<open>Ranges of lines\<close>

definition maxUncoveredRanges :: nat where
  "maxUncoveredRanges = 6"

definition formatRanges :: "span list \<Rightarrow> string" where
  "formatRanges sps =
     joinWith '', '' (map spanString (take maxUncoveredRanges sps)
       @ (if length sps > maxUncoveredRanges then [''+'' @ itoa (int (length sps) - int maxUncoveredRanges) @ '' more''] else []))"

definition uncoveredRanges :: "block list \<Rightarrow> string" where
  "uncoveredRanges blocks = formatRanges (MissedSpans blocks)"

definition regressedFrom :: "span list \<Rightarrow> block list \<Rightarrow> span list" where
  "regressedFrom missed base = IntersectSpans missed (MergedSpans base Ran)"

definition regressedSpans :: "block list \<Rightarrow> block list \<Rightarrow> span list" where
  "regressedSpans cur base = regressedFrom (MissedSpans cur) base"

section \<open>A commit's files\<close>

definition filesByPath :: "UploadFile list \<Rightarrow> (string, UploadFile) gomap" where
  "filesByPath fs = foldl (\<lambda>m f. AList.update (ufPath f) f m) [] fs"

definition baselineUpload :: "memStore \<Rightarrow> Repo \<Rightarrow> Upload \<Rightarrow> (Upload \<times> (string, UploadFile) gomap) option" where
  "baselineUpload s repo u =
     (case UploadBaseline (\<lambda>r b i x. LatestPassedUpload r b i x s) repo u of
        None \<Rightarrow> None
      | Some base \<Rightarrow> Some (base, filesByPath (UploadFiles (upID base) s)))"

definition commitFiles :: "int \<Rightarrow> string \<Rightarrow> memStore \<Rightarrow> (int, Upload) gomap \<times> UploadFile list" where
  "commitFiles repoID commitSHA s =
     (let parts = LatestUploadsPerPart repoID commitSHA s
      in (foldl (\<lambda>m p. AList.update (upID p) p m) [] parts, MergeParts (PartFiles (map upID parts) s)))"

fun partFile :: "string \<Rightarrow> memStore \<Rightarrow> Upload list \<Rightarrow> storeError + UploadFile list" where
  "partFile path s [] = Inr []"
| "partFile path s (p # ps) =
     (case getUploadFile (upID p) path s of
        Inl e \<Rightarrow> if e = ErrNotFound then partFile path s ps else Inl e
      | Inr f \<Rightarrow> (case partFile path s ps of Inl e \<Rightarrow> Inl e | Inr fs \<Rightarrow> Inr (f # fs)))"

definition commitFile :: "int \<Rightarrow> string \<Rightarrow> string \<Rightarrow> memStore \<Rightarrow> storeError + UploadFile" where
  "commitFile repoID commitSHA path s =
     (case partFile path s (LatestUploadsPerPart repoID commitSHA s) of
        Inl e \<Rightarrow> Inl e
      | Inr found \<Rightarrow> if length found = 0 then Inl ErrNotFound else Inr (hd (MergeParts found)))"

section \<open>The files card\<close>

definition deltaEpsilon :: rat where
  "deltaEpsilon = f64 (5 / 100)"

definition coverageMoved :: "rat \<Rightarrow> bool" where
  "coverageMoved delta \<longleftrightarrow> delta \<ge> deltaEpsilon \<or> delta \<le> - deltaEpsilon"

record fileRow =
  frUploadID :: int
  frPath :: string
  frCoverage :: rat
  frCoveredStmts :: int
  frTotalStmts :: int
  frUncovered :: string
  frBefore :: "(rat \<times> int \<times> int) option"
  frNewFile :: bool
  frCoverageChanged :: bool
  frSourceChanged :: bool

record sortedRow =
  srRow :: fileRow
  srDelta :: rat
  srChanged :: bool

definition fileRowOf :: "diffPaths \<Rightarrow> (int, Upload) gomap \<Rightarrow> (string, UploadFile) gomap option \<Rightarrow> UploadFile \<Rightarrow> sortedRow" where
  "fileRowOf touched ups baseFiles f =
     (let missed = MissedSpans (ufBlocks f);
          bf = (case baseFiles of None \<Rightarrow> None | Some m \<Rightarrow> map_of m (ufPath f));
          delta = (case bf of None \<Rightarrow> 0 | Some b \<Rightarrow> f64 (ufPct f - ufPct b));
          coverageChanged = (case bf of
              None \<Rightarrow> baseFiles \<noteq> None
            | Some b \<Rightarrow> coverageMoved delta \<or> (length missed > 0 \<and> length (regressedFrom missed (ufBlocks b)) > 0));
          pre = (case map_of ups (ufUploadID f) of None \<Rightarrow> [] | Some u \<Rightarrow> upPathPrefix u);
          sourceChanged = Touches touched (ufPath f) pre
      in \<lparr>srRow = \<lparr>frUploadID = ufUploadID f, frPath = ufPath f, frCoverage = ufPct f, frCoveredStmts = ufCoveredStmts f,
            frTotalStmts = ufTotalStmts f, frUncovered = formatRanges missed,
            frBefore = map_option (\<lambda>b. (ufPct b, ufCoveredStmts b, ufTotalStmts b)) bf,
            frNewFile = (baseFiles \<noteq> None \<and> bf = None), frCoverageChanged = coverageChanged, frSourceChanged = sourceChanged\<rparr>,
          srDelta = delta, srChanged = (coverageChanged \<or> sourceChanged)\<rparr>)"

text \<open>The comparison of \<open>slices.SortStableFunc\<close>, as the key it compares by.\<close>

definition rowKey :: "sortedRow \<Rightarrow> bool \<times> rat \<times> string" where
  "rowKey r = (\<not> srChanged r, if srChanged r then srDelta r else 0, frPath (srRow r))"

record filesView =
  fvMerged :: bool
  fvHasBase :: bool
  fvFiles :: "fileRow list"

definition buildFilesView :: "diffResult option \<Rightarrow> (int, Upload) gomap \<Rightarrow> UploadFile list \<Rightarrow> (string, UploadFile) gomap option \<Rightarrow> filesView" where
  "buildFilesView diff ups fs baseFiles =
     (let touched = NewDiffPaths (case diff of None \<Rightarrow> [] | Some d \<Rightarrow> map fcPath (rFiles d) @ rUnmatchedFiles d);
          rows = map (fileRowOf touched ups baseFiles) fs
      in \<lparr>fvMerged = False, fvHasBase = (baseFiles \<noteq> None),
          fvFiles = map srRow (if baseFiles \<noteq> None then sort_key rowKey rows else rows)\<rparr>)"

definition loadFilesView :: "memStore \<Rightarrow> Repo \<Rightarrow> Upload \<Rightarrow> filesView \<times> Upload option" where
  "loadFilesView s repo upload =
     (let b = baselineUpload s repo upload
      in (buildFilesView (upDiffCoverage upload) [(upID upload, upload)] (UploadFiles (upID upload) s) (map_option snd b), map_option fst b))"

definition loadCommitFilesView :: "memStore \<Rightarrow> Repo \<Rightarrow> CommitReport \<Rightarrow> CommitReport option \<Rightarrow> filesView \<times> Upload option" where
  "loadCommitFilesView s repo latest base =
     (let (ups, fs) = commitFiles (rpID repo) (crCommitSHA latest) s;
          baseFiles = map_option (\<lambda>b. filesByPath (snd (commitFiles (rpID repo) (crCommitSHA b) s))) base
      in ((buildFilesView (crDiffCoverage latest) ups fs baseFiles)\<lparr>fvMerged := True\<rparr>, map_of ups (crUploadID latest)))"

section \<open>The upload card\<close>

definition gateState :: "Gate \<Rightarrow> bool \<Rightarrow> string" where
  "gateState g failed = (if \<not> Configured g then ''none'' else if failed then ''fail'' else ''pass'')"

record baseRef =
  brUploadID :: int
  brSHA :: string
  brCoverage :: rat

record verdictDTO =
  vdState :: string
  vdCoverage :: rat
  vdDelta :: "rat option"
  vdReason :: string
  vdBase :: "baseRef option"

definition gateVerdict :: "string \<Rightarrow> rat \<Rightarrow> diffResult option \<Rightarrow> bool \<Rightarrow> Gate \<Rightarrow> rat option \<Rightarrow> verdictDTO" where
  "gateVerdict subject totalPct diff gateFailed gate dropBase =
     (let state = gateState gate gateFailed
      in \<lparr>vdState = (if state = ''none'' then ''neutral'' else state), vdCoverage = totalPct, vdDelta = None,
          vdReason = GateReason totalPct diff gate dropBase subject, vdBase = None\<rparr>)"

definition against :: "baseRef \<Rightarrow> verdictDTO \<Rightarrow> verdictDTO" where
  "against b v = v\<lparr>vdDelta := Some (f64 (vdCoverage v - brCoverage b)), vdBase := Some b\<rparr>"

definition profileFilename :: "string \<Rightarrow> string" where
  "profileFilename fmt =
     (let (f, ok) = formatLookup fmt
      in if ok \<and> fmFilename f \<noteq> [] then fmFilename f else if fmt = [] then ''coverage.txt'' else ''coverage.'' @ fmt)"

record provenance =
  pvReceivedAt :: time
  pvProfileName :: string
  pvProfileBytes :: int
  pvFormat :: string
  pvCIProvider :: string
  pvCIRunURL :: string
  pvUploader :: string
  pvUploaderKind :: string
  pvPart :: string
  pvParts :: nat
  pvProcessMs :: int
  pvIgnoredFiles :: int

definition uploadProvenance :: "Upload \<Rightarrow> memStore \<Rightarrow> provenance" where
  "uploadProvenance u s =
     (let m = upMeta u
      in \<lparr>pvReceivedAt = upCreatedAt u, pvProfileName = firstNonEmpty [mProfileName m, profileFilename (upFormat u)],
          pvProfileBytes = mProfileBytes m, pvFormat = upFormat u, pvCIProvider = mCIProvider m, pvCIRunURL = mCIRunURL m,
          pvUploader = mUploader m, pvUploaderKind = mUploaderKind m,
          pvPart = (if upPart u \<noteq> [] \<and> upPart u \<noteq> ''default'' then upPart u else []),
          pvParts = length (CommitParts (upRepoID u) (upCommitSHA u) s),
          pvProcessMs = mProcessMillis m, pvIgnoredFiles = mIgnoredFiles m\<rparr>)"

section \<open>The upload page\<close>

record pageReport =
  pgSubject :: string
  pgPct :: rat
  pgCoveredStmts :: int
  pgTotalStmts :: int
  pgDiff :: "diffResult option"
  pgGateFailed :: bool
  pgGate :: "Gate option"
  pgGateBasePct :: "rat option"

record uploadHead =
  uhID :: int
  uhSHA :: string
  uhBranch :: string
  uhPRID :: string
  uhAt :: time
  uhCommitMessage :: string
  uhCommitAuthor :: string
  uhTokenless :: bool

definition newUploadHeadDTO :: "Upload \<Rightarrow> uploadHead" where
  "newUploadHeadDTO u =
     \<lparr>uhID = upID u, uhSHA = upCommitSHA u, uhBranch = upBranch u, uhPRID = upPRID u, uhAt = upCreatedAt u,
      uhCommitMessage = mCommitMessage (upMeta u), uhCommitAuthor = mCommitAuthor (upMeta u), uhTokenless = mTokenless (upMeta u)\<rparr>"

record diffCovDTO =
  dcCoverage :: rat
  dcCoveredLines :: int
  dcTotalLines :: int
  dcChangedFiles :: nat
  dcUnmatchedFiles :: nat

definition newDiffCovDTO :: "diffResult option \<Rightarrow> diffCovDTO option" where
  "newDiffCovDTO dc = map_option (\<lambda>d. \<lparr>dcCoverage = resultPercent d, dcCoveredLines = rCoveredLines d, dcTotalLines = rTotalLines d,
     dcChangedFiles = length (rFiles d), dcUnmatchedFiles = length (rUnmatchedFiles d)\<rparr>) dc"

definition uploadProfileURL :: "Upload \<Rightarrow> string" where
  "uploadProfileURL u = ''/uploads/'' @ itoa (upID u) @ ''/profile''"

record uploadPageDTO =
  ugRepo :: "string \<times> string"
  ugUpload :: uploadHead
  ugVerdict :: verdictDTO
  ugCoveredStmts :: int
  ugTotalStmts :: int
  ugDiff :: "diffCovDTO option"
  ugFiles :: filesView
  ugProvenance :: provenance
  ugDownloadURL :: "string option"

text \<open>What the page states: the upload, or with \<open>?parts=merged\<close> its commit when that has parts.\<close>

definition uploadReport :: "Upload \<Rightarrow> pageReport" where
  "uploadReport u = \<lparr>pgSubject = ''This upload'', pgPct = upTotalPct u, pgCoveredStmts = upCoveredStmts u, pgTotalStmts = upTotalStmts u,
     pgDiff = upDiffCoverage u, pgGateFailed = upGateFailed u, pgGate = upGate u, pgGateBasePct = upGateBasePct u\<rparr>"

definition commitPageReport :: "CommitReport \<Rightarrow> pageReport" where
  "commitPageReport cr = \<lparr>pgSubject = ''This commit'', pgPct = crTotalPct cr, pgCoveredStmts = crCoveredStmts cr, pgTotalStmts = crTotalStmts cr,
     pgDiff = crDiffCoverage cr, pgGateFailed = crGateFailed cr, pgGate = crGate cr, pgGateBasePct = crGateBasePct cr\<rparr>"

definition uploadBaseRef :: "Upload \<Rightarrow> baseRef" where
  "uploadBaseRef b = \<lparr>brUploadID = upID b, brSHA = upCommitSHA b, brCoverage = upTotalPct b\<rparr>"

definition commitBaseRef :: "CommitReport \<Rightarrow> baseRef" where
  "commitBaseRef b = \<lparr>brUploadID = crUploadID b, brSHA = crCommitSHA b, brCoverage = crTotalPct b\<rparr>"

definition shownReport :: "memStore \<Rightarrow> Repo \<Rightarrow> Upload \<Rightarrow> string \<Rightarrow> storeError + pageReport \<times> filesView \<times> baseRef option" where
  "shownReport s repo u parts =
     (let own = (let (view, base) = loadFilesView s repo u in (uploadReport u, view, map_option uploadBaseRef base))
      in if parts = ''merged'' then
           (case getCommitReport (rpID repo) (upCommitSHA u) s of
              Inl e \<Rightarrow> if e = ErrNotFound then Inr own else Inl e
            | Inr cr \<Rightarrow>
                if crPartCount cr > 1 then
                  (let base = CommitBaseline (memReads s) repo cr
                   in Inr (commitPageReport cr, fst (loadCommitFilesView s repo cr base), map_option commitBaseRef base))
                else Inr own)
         else Inr own)"

definition buildUploadPage :: "memStore \<Rightarrow> Repo \<Rightarrow> Upload \<Rightarrow> string \<Rightarrow> storeError + uploadPageDTO" where
  "buildUploadPage s repo u parts =
     (case shownReport s repo u parts of
        Inl e \<Rightarrow> Inl e
      | Inr (shown, view, base) \<Rightarrow>
          (let v = gateVerdict (pgSubject shown) (pgPct shown) (pgDiff shown) (pgGateFailed shown) (JudgedGate (pgGate shown) (rpGate repo)) (pgGateBasePct shown)
           in Inr \<lparr>ugRepo = (rpForge repo, rpSlug repo), ugUpload = newUploadHeadDTO u,
                 ugVerdict = (case base of None \<Rightarrow> v | Some b \<Rightarrow> against b v),
                 ugCoveredStmts = pgCoveredStmts shown, ugTotalStmts = pgTotalStmts shown, ugDiff = newDiffCovDTO (pgDiff shown),
                 ugFiles = view, ugProvenance = uploadProvenance u s,
                 ugDownloadURL = (if upRawBlobKey u \<noteq> [] then Some (uploadProfileURL u) else None)\<rparr>))"


section \<open>The repo page\<close>

definition uploadsPageSize :: int where
  "uploadsPageSize = 10"

definition recentUploads :: int where
  "recentUploads = 100"

definition trendReportLimit :: int where
  "trendReportLimit = 60"

record trendPoint =
  tpUploadID :: int
  tpSHA :: string
  tpCoverage :: rat
  tpAt :: time
  tpGateFailed :: bool

record repoCommit =
  rcoUploadID :: int
  rcoSHA :: string
  rcoAt :: time
  rcoBranch :: string
  rcoPRID :: string
  rcoIsDefault :: bool

record repoSummary =
  rsVerdict :: verdictDTO
  rsCommit :: repoCommit
  rsCoveredStmts :: int
  rsTotalStmts :: int
  rsLastUpload :: "(time \<times> string) option"

record repoPageDTO =
  rgRepo :: "string \<times> string"
  rgDefaultBranch :: string
  rgGate :: Gate
  rgCanSettings :: bool
  rgBranches :: "string list"
  rgTrendBranch :: string
  rgSummary :: "repoSummary option"
  rgTrend :: "trendPoint list"
  rgFiles :: "filesView option"

definition trendPointOf :: "CommitReport \<Rightarrow> trendPoint" where
  "trendPointOf cr = \<lparr>tpUploadID = crUploadID cr, tpSHA = crCommitSHA cr, tpCoverage = crTotalPct cr, tpAt = crCreatedAt cr,
     tpGateFailed = crGateFailed cr\<rparr>"

definition repoSummaryOf :: "Repo \<Rightarrow> CommitReport \<Rightarrow> CommitReport option \<Rightarrow> Upload option \<Rightarrow> repoSummary" where
  "repoSummaryOf repo latest base lastUpload =
     (let v = gateVerdict ''The latest commit'' (crTotalPct latest) (crDiffCoverage latest) (crGateFailed latest)
                (JudgedGate (crGate latest) (rpGate repo)) (crGateBasePct latest)
      in \<lparr>rsVerdict = (case base of None \<Rightarrow> v | Some b \<Rightarrow> against (commitBaseRef b) v),
          rsCommit = \<lparr>rcoUploadID = crUploadID latest, rcoSHA = crCommitSHA latest, rcoAt = crCreatedAt latest, rcoBranch = crBranch latest,
            rcoPRID = crPRID latest, rcoIsDefault = (crBranch latest = rpDefaultBranch repo)\<rparr>,
          rsCoveredStmts = crCoveredStmts latest, rsTotalStmts = crTotalStmts latest,
          rsLastUpload = map_option (\<lambda>u. (upCreatedAt u, mCIProvider (upMeta u))) lastUpload\<rparr>)"

definition buildRepoPage :: "serverConfig \<Rightarrow> memStore \<Rightarrow> Repo \<Rightarrow> bool \<Rightarrow> string \<Rightarrow> repoPageDTO" where
  "buildRepoPage cfg s repo isMember branch =
     (let trendBranch = (if branch \<noteq> [] then branch else rpDefaultBranch repo);
          trendReports = ListBranchCommitReports (rpID repo) trendBranch trendReportLimit s;
          page = \<lparr>rgRepo = (rpForge repo, rpSlug repo), rgDefaultBranch = rpDefaultBranch repo, rgGate = rpGate repo,
            rgCanSettings = (isMember \<and> authEnabled cfg), rgBranches = RecentBranches (rpID repo) recentUploads s,
            rgTrendBranch = trendBranch, rgSummary = None, rgTrend = map trendPointOf (rev trendReports), rgFiles = None\<rparr>
      in case trendReports of
           [] \<Rightarrow> page
         | latest # _ \<Rightarrow>
             (let base = CommitBaseline (memReads s) repo latest; (view, lastUpload) = loadCommitFilesView s repo latest base
              in page\<lparr>rgSummary := Some (repoSummaryOf repo latest base lastUpload), rgFiles := Some view\<rparr>))"

text \<open>The upload history, by pages; a negative offset makes the slice expression of the store panic.\<close>

record uploadRow =
  urwID :: int
  urwSHA :: string
  urwBranch :: string
  urwPRID :: string
  urwCoverage :: rat
  urwGate :: string
  urwAt :: time

definition uploadRowOf :: "Repo \<Rightarrow> Upload \<Rightarrow> uploadRow" where
  "uploadRowOf repo u = \<lparr>urwID = upID u, urwSHA = upCommitSHA u, urwBranch = upBranch u, urwPRID = upPRID u, urwCoverage = upTotalPct u,
     urwGate = gateState (JudgedGate (upGate u) (rpGate repo)) (upGateFailed u), urwAt = upCreatedAt u\<rparr>"

datatype historyPage = HistoryPanics | HistoryPage "uploadRow list" bool

text \<open>\<open>strconv.Atoi\<close> with its error dropped: 0 for no number, the nearest end for one out of range.\<close>

definition atoiValue :: "string \<Rightarrow> int" where
  "atoiValue s =
     (let neg = (s \<noteq> [] \<and> hd s = CHR ''-'');
          ds = (if s \<noteq> [] \<and> (hd s = CHR ''-'' \<or> hd s = CHR ''+'') then tl s else s);
          v = (if neg then - decimal ds else decimal ds)
      in if ds = [] \<or> \<not> list_all isDigit ds then 0 else max minInt64 (min maxInt64 v))"

definition pageNumber :: "string \<Rightarrow> int" where
  "pageNumber raw = max 0 (atoiValue raw)"

definition handleAPIRepoUploads :: "memStore \<Rightarrow> Repo \<Rightarrow> string \<Rightarrow> string \<Rightarrow> historyPage" where
  "handleAPIRepoUploads s repo branch rawPage =
     (let offset = wrap64 (pageNumber rawPage * uploadsPageSize); limit = uploadsPageSize + 1
      in if offset < 0 then HistoryPanics
         else let fetched = (if branch = [] then ListUploads (rpID repo) offset limit s else ListBranchUploads (rpID repo) branch offset limit s);
                  shown = take (nat (min (int (length fetched)) uploadsPageSize)) fetched
              in HistoryPage (map (uploadRowOf repo) shown) (int (length fetched) > uploadsPageSize))"

section \<open>The merged card and one of its files\<close>

lemma Merge_path:
  "Files (Merge [Some \<lparr>Files = filter (\<lambda>f. fPath f = p) fs\<rparr>]) = filter (\<lambda>f. fPath f = p) (Files (Merge [Some \<lparr>Files = fs\<rparr>]))"
proof (rule canonical_files_eq)
  have m: "map fPath (filter (\<lambda>f. fPath f = p) xs) = filter (\<lambda>q. q = p) (map fPath xs)" for xs :: "profFile list"
    by (simp add: filter_map comp_def)
  show "map fPath (Files (Merge [Some \<lparr>Files = filter (\<lambda>f. fPath f = p) fs\<rparr>]))
      = map fPath (filter (\<lambda>f. fPath f = p) (Files (Merge [Some \<lparr>Files = fs\<rparr>])))"
    unfolding m Merge_paths filesOf_simps append_Nil2 profile.select_convs
    by (rule sorted_distinct_set_unique) (simp_all add: sorted_wrt_filter del: set_map)
next
  have b: "blockAt (filter (\<lambda>f. fPath f = p) fs) p k = blockAt fs p k" for k
    by (simp add: blockAt_def blocksOf_def)
  fix f g
  assume f: "f \<in> set (Files (Merge [Some \<lparr>Files = filter (\<lambda>f. fPath f = p) fs\<rparr>]))"
    and g: "g \<in> set (filter (\<lambda>f. fPath f = p) (Files (Merge [Some \<lparr>Files = fs\<rparr>])))" and "fPath f = fPath g"
  then show "set (fBlocks f) = set (fBlocks g)"
    using Merge_file(2) [OF f] Merge_file(2) [of g "[Some \<lparr>Files = fs\<rparr>]"] b by auto
qed (auto simp: Merge_file(1))

lemma mergeAll_path: "filter (\<lambda>f. ufPath f = p) (mergeAll fs) = mergeAll (filter (\<lambda>f. ufPath f = p) fs)"
proof -
  let ?F = "filter (\<lambda>f. fPath f = p)"
  have rows: "map rowFile (filter (\<lambda>f. ufPath f = p) fs) = ?F (map rowFile fs)" by (simp add: filter_map comp_def)
  have "mergeAll (filter (\<lambda>f. ufPath f = p) fs)
      = map (\<lambda>f. (newUploadFile f)\<lparr>ufUploadID := Max (insert 0 (ufUploadID ` {g \<in> set fs. ufPath g = p \<and> ufPath g = fPath f}))\<rparr>)
          (?F (Files (Merge [Some \<lparr>Files = map rowFile fs\<rparr>])))"
    unfolding mergeAll_alt rows Merge_path by (intro map_cong refl) (auto intro!: arg_cong [of _ _ Max])
  then show ?thesis
    by (auto simp: mergeAll_alt filter_map comp_def newUploadFile_counts intro!: map_cong arg_cong [of _ _ Max])
qed


lemma mergeAll_empty: "mergeAll fs = [] \<longleftrightarrow> fs = []"
proof -
  have "map ufPath (mergeAll fs) = sorted_list_of_set (ufPath ` set fs)"
    unfolding mergeAll_alt using Merge_paths [of "[Some \<lparr>Files = map rowFile fs\<rparr>]"]
    by (simp add: comp_def newUploadFile_counts image_image)
  then show ?thesis by (metis List.finite_set finite_imageI image_is_empty map_is_Nil_conv set_empty sorted_list_of_set_eq_Nil_iff)
qed

lemma filter_one:
  "distinct (map g xs) \<Longrightarrow> filter (\<lambda>x. g x = p) xs = (case find (\<lambda>x. g x = p) xs of None \<Rightarrow> [] | Some x \<Rightarrow> [x])"
proof (induction xs)
  case (Cons x xs)
  have "find (\<lambda>y. g y = g x) xs = None" using Cons.prems by (force simp: find_None_iff image_iff)
  then show ?case using Cons by auto
qed simp

lemma partFile_filter:
  assumes "\<forall>p \<in> set ps. distinct (map ufPath (filesOfUpload s (upID p)))"
  shows "partFile path s ps = Inr (filter (\<lambda>f. ufPath f = path) (PartFiles (map upID ps) s))"
  using assms
proof (induction ps)
  case (Cons p ps)
  have "filter (\<lambda>f. ufPath f = path) (filesOfUpload s (upID p))
      = (case find (\<lambda>f. ufPath f = path) (filesOfUpload s (upID p)) of None \<Rightarrow> [] | Some f \<Rightarrow> [f])"
    using Cons.prems by (intro filter_one) simp
  then show ?case using Cons
    by (cases "find (\<lambda>f. ufPath f = path) (filesOfUpload s (upID p))") (simp_all add: getUploadFile_def rowOr_def PartFiles_def)
qed (simp add: PartFiles_def)

lemma find_filter_hd: "find P xs = (case filter P xs of [] \<Rightarrow> None | x # _ \<Rightarrow> Some x)"
  by (induction xs) auto

text \<open>
  C38: the source view opened from a merged files card shows the file the card's row shows. Reading
  one path of every part and merging it gives the row of that path among all files merged, for files
  counted as the pipeline counts them where no upload lists a path twice, and is not found exactly when the card has
  no such row.
\<close>

theorem merged_file_as_card:
  assumes "rowsCounted s" and "\<And>i. distinct (map ufPath (filesOfUpload s i))"
  shows "commitFile repoID sha path s
    = (case find (\<lambda>f. ufPath f = path) (snd (commitFiles repoID sha s)) of None \<Rightarrow> Inl ErrNotFound | Some f \<Rightarrow> Inr f)"
proof -
  let ?ps = "LatestUploadsPerPart repoID sha s"
  let ?all = "PartFiles (map upID ?ps) s" and ?P = "\<lambda>f. ufPath f = path"
  have counted: "\<forall>f \<in> set ?all. counted f" using assms(1) by (auto simp: rowsCounted_def PartFiles_def)
  then have all: "MergeParts ?all = mergeAll ?all" and one: "MergeParts (filter ?P ?all) = mergeAll (filter ?P ?all)"
    by (auto intro: MergeParts_mergeAll)
  have "snd (commitFiles repoID sha s) = mergeAll ?all" by (simp add: commitFiles_def Let_def all)
  then have card: "find ?P (snd (commitFiles repoID sha s)) = (case mergeAll (filter ?P ?all) of [] \<Rightarrow> None | x # _ \<Rightarrow> Some x)"
    by (simp add: find_filter_hd mergeAll_path)
  have "mergeAll (filter ?P ?all) = [] \<longleftrightarrow> filter ?P ?all = []"
    by (simp add: mergeAll_empty)
  then show ?thesis using assms(2)
    by (auto simp: commitFile_def partFile_filter one card split: list.splits)
qed


section \<open>What the card marks\<close>

text \<open>Lines that are executable and missed now, and ran at the baseline.\<close>

definition newlyMissed :: "block list \<Rightarrow> block list \<Rightarrow> int set" where
  "newlyMissed cur base = (keptLines cur Statement - keptLines cur Ran) \<inter> keptLines base Ran"

lemma regressedSpans_lines:
  assumes "endsInRange cur" and "endsInRange base"
  shows "linesOf (regressedSpans cur base) = newlyMissed cur base \<and> merged (regressedSpans cur base)"
  using IntersectSpans_correct [of "MissedSpans cur" "MergedSpans base Ran"] MissedSpans_lines [OF assms(1)] MergedSpans_correct [OF assms(2)]
  by (simp add: regressedSpans_def regressedFrom_def newlyMissed_def)

lemma merged_nonempty: "merged ss \<Longrightarrow> ss \<noteq> [] \<longleftrightarrow> linesOf ss \<noteq> {}"
  by (cases ss) (auto simp: merged_def linesOf_def)

lemma regressed_iff:
  assumes "endsInRange cur" and "endsInRange base"
  shows "length (MissedSpans cur) > 0 \<and> length (regressedFrom (MissedSpans cur) base) > 0 \<longleftrightarrow> newlyMissed cur base \<noteq> {}"
proof -
  have "regressedSpans cur base \<noteq> [] \<longleftrightarrow> newlyMissed cur base \<noteq> {}"
    using regressedSpans_lines [OF assms] merged_nonempty by metis
  moreover have "MissedSpans cur = [] \<Longrightarrow> regressedSpans cur base = []" by (simp add: regressedSpans_def regressedFrom_def)
  ultimately show ?thesis by (auto simp: regressedSpans_def)
qed

definition rowChanged :: "fileRow \<Rightarrow> bool" where
  "rowChanged r \<longleftrightarrow> frCoverageChanged r \<or> frSourceChanged r"

definition rowMove :: "fileRow \<Rightarrow> rat" where
  "rowMove r = (case frBefore r of None \<Rightarrow> 0 | Some (before, _, _) \<Rightarrow> f64 (frCoverage r - before))"

lemma fileRowOf_sort: "srChanged (fileRowOf t ups bf f) = rowChanged (srRow (fileRowOf t ups bf f))"
  "srDelta (fileRowOf t ups bf f) = rowMove (srRow (fileRowOf t ups bf f))"
  by (simp_all add: fileRowOf_def Let_def rowChanged_def rowMove_def split: option.split)

definition touchedPaths :: "diffResult option \<Rightarrow> string list" where
  "touchedPaths diff = (case diff of None \<Rightarrow> [] | Some d \<Rightarrow> map fcPath (rFiles d) @ rUnmatchedFiles d)"

text \<open>The row of a file, in terms of its lines and the diff's paths.\<close>

definition rowShows :: "diffResult option \<Rightarrow> (int, Upload) gomap \<Rightarrow> (string, UploadFile) gomap \<Rightarrow> UploadFile \<Rightarrow> fileRow \<Rightarrow> bool" where
  "rowShows diff ups m f r \<longleftrightarrow> frPath r = ufPath f \<and> frUploadID r = ufUploadID f \<and> frCoverage r = ufPct f
     \<and> (frSourceChanged r \<longleftrightarrow> (\<exists>dp \<in> set (touchedPaths diff).
          binds (case map_of ups (ufUploadID f) of None \<Rightarrow> [] | Some u \<Rightarrow> upPathPrefix u) dp (ufPath f)))
     \<and> (case map_of m (ufPath f) of
          None \<Rightarrow> frNewFile r \<and> frCoverageChanged r \<and> frBefore r = None
        | Some b \<Rightarrow> \<not> frNewFile r \<and> frBefore r = Some (ufPct b, ufCoveredStmts b, ufTotalStmts b)
            \<and> (frCoverageChanged r \<longleftrightarrow> coverageMoved (f64 (ufPct f - ufPct b)) \<or> newlyMissed (ufBlocks f) (ufBlocks b) \<noteq> {}))"

lemma fileRowOf_shows:
  assumes "endsInRange (ufBlocks f)" and "\<And>b. map_of m (ufPath f) = Some b \<Longrightarrow> endsInRange (ufBlocks b)"
  shows "rowShows diff ups m f (srRow (fileRowOf (NewDiffPaths (touchedPaths diff)) ups (Some m) f))"
  using regressed_iff [OF assms(1) assms(2)]
  by (auto simp: rowShows_def fileRowOf_def Let_def Touches_binds split: option.splits)



section \<open>Pages of the history\<close>

definition historyOf :: "memStore \<Rightarrow> Repo \<Rightarrow> string \<Rightarrow> Upload list" where
  "historyOf s repo branch =
     sort_key (\<lambda>u. - upID u) (filter (\<lambda>u. upRepoID u = rpID repo \<and> (branch = [] \<or> upBranch u = branch)) (valuesOf (uploads s)))"

definition pageRows :: "historyPage \<Rightarrow> uploadRow list" where
  "pageRows h = (case h of HistoryPanics \<Rightarrow> [] | HistoryPage rows _ \<Rightarrow> rows)"

lemma atoiValue_atoi: "atoi s = Some v \<Longrightarrow> atoiValue s = v"
  by (auto simp: atoi_def atoiValue_def Let_def inInt64_def split: if_splits)

lemma newestUploads_page:
  assumes "0 \<le> off"
  shows "newestUploads off 11 keep s = take 11 (drop (nat off) (sort_key (\<lambda>u. - upID u) (filter keep (valuesOf (uploads s)))))"
proof -
  have d: "drop (nat (min off (int (length xs)))) xs = drop (nat off) xs" for xs :: "Upload list"
    using assms by (cases "off \<le> int (length xs)") (simp_all add: min_def nat_le_iff)
  have t: "take (nat (min (int (length xs)) 11)) xs = take 11 xs" for xs :: "Upload list"
    by (cases "length xs \<le> 11") (simp_all add: min_def)
  show ?thesis unfolding newestUploads_def atMost_def Let_def d t by simp
qed

lemma history_page:
  assumes "0 \<le> p" and "p * 10 \<le> maxInt64"
  shows "handleAPIRepoUploads s repo branch (itoa p)
    = HistoryPage (take 10 (drop (nat (10 * p)) (map (uploadRowOf repo) (historyOf s repo branch)))) (10 * p + 10 < int (length (historyOf s repo branch)))"
proof -
  have "inInt64 p" using assms by (simp add: inInt64_def minInt64_def)
  then have p: "pageNumber (itoa p) = p" using assms(1) by (simp add: pageNumber_def atoiValue_atoi atoi_itoa)
  have w: "wrap64 (p * uploadsPageSize) = 10 * p" using assms by (simp add: uploadsPageSize_def wrap64_id inInt64_def minInt64_def)
  let ?h = "historyOf s repo branch"
  have f: "(if branch = [] then ListUploads (rpID repo) (10 * p) (uploadsPageSize + 1) s else ListBranchUploads (rpID repo) branch (10 * p) (uploadsPageSize + 1) s)
      = take 11 (drop (nat (10 * p)) ?h)"
    using assms(1) by (simp add: historyOf_def ListUploads_def ListBranchUploads_def newestUploads_page uploadsPageSize_def)
  have len: "take (nat (min (int (length (take 11 xs))) 10)) (take 11 xs) = take 10 xs" "10 < int (length (take 11 xs)) \<longleftrightarrow> 10 < length xs"
    for xs :: "Upload list" by (cases "length xs \<le> 10"; simp add: min_def)+
  have "10 < length (drop (nat (10 * p)) ?h) \<longleftrightarrow> 10 * p + 10 < int (length ?h)" using assms(1) by (simp add: less_diff_conv) linarith
  then show ?thesis using assms(1)
    unfolding handleAPIRepoUploads_def Let_def p w f unfolding uploadsPageSize_def len take_map drop_map by simp
qed

lemma concat_pages: "concat (map (\<lambda>q. take n (drop (n * q) xs)) [0..<k]) = take (n * k) xs"
proof (induction k)
  case (Suc k)
  have "take (n * Suc k) xs = take (n * k) xs @ take n (drop (n * k) xs)" by (simp add: take_add add.commute [of n])
  then show ?case using Suc by simp
qed simp

text \<open>
  C40: the pages of a repo's upload history. Page after page shows the uploads of the repo, or of
  the asked branch, newest first and each once, ten to a page; and a page offers an older one
  exactly when uploads are left.
\<close>

theorem upload_history_paged:
  assumes "0 \<le> p" and "p * 10 \<le> maxInt64"
  shows "concat (map (\<lambda>q. pageRows (handleAPIRepoUploads s repo branch (itoa (int q)))) [0..<nat p + 1])
      = take (nat (10 * p) + 10) (map (uploadRowOf repo) (historyOf s repo branch))
    \<and> (\<exists>rows. handleAPIRepoUploads s repo branch (itoa p) = HistoryPage rows (nat (10 * p) + 10 < length (historyOf s repo branch)))"
proof -
  let ?rows = "map (uploadRowOf repo) (historyOf s repo branch)"
  have page: "pageRows (handleAPIRepoUploads s repo branch (itoa (int q))) = take 10 (drop (10 * q) ?rows)" if "q < nat p + 1" for q
  proof -
    have "int q \<le> p" using that assms(1) by linarith
    then have "handleAPIRepoUploads s repo branch (itoa (int q))
        = HistoryPage (take 10 (drop (nat (10 * int q)) ?rows)) (10 * int q + 10 < int (length (historyOf s repo branch)))"
      using assms by (intro history_page) auto
    moreover have "nat (10 * int q) = 10 * q" by simp
    ultimately show ?thesis by (simp add: pageRows_def)
  qed
  have "map (\<lambda>q. pageRows (handleAPIRepoUploads s repo branch (itoa (int q)))) [0..<nat p + 1] = map (\<lambda>q. take 10 (drop (10 * q) ?rows)) [0..<nat p + 1]"
    by (intro map_cong refl page) auto
  then have "concat (map (\<lambda>q. pageRows (handleAPIRepoUploads s repo branch (itoa (int q)))) [0..<nat p + 1]) = take (10 * (nat p + 1)) ?rows"
    by (simp only: concat_pages)
  then have "concat (map (\<lambda>q. pageRows (handleAPIRepoUploads s repo branch (itoa (int q)))) [0..<nat p + 1]) = take (nat (10 * p) + 10) ?rows"
    using assms(1) by (simp only: nat_mult_distrib distrib_left mult_1_right) simp
  moreover have "10 * p + 10 < int n \<longleftrightarrow> nat (10 * p) + 10 < n" for n using assms(1) by linarith
  ultimately show ?thesis using history_page [OF assms] by auto
qed

text \<open>
  A page number past the range of \<open>int\<close> wraps the offset to a negative one, and the request
  fails instead of showing an empty page, whatever the store holds.
\<close>

theorem history_offset_wraps: "handleAPIRepoUploads s repo branch ''99999999999999999999'' = HistoryPanics"
proof -
  have "wrap64 (pageNumber ''99999999999999999999'' * uploadsPageSize) = - 10" by code_simp
  then show ?thesis by (simp add: handleAPIRepoUploads_def)
qed


section \<open>Witnesses\<close>

lemma distinct_rows: "list_all (\<lambda>(i, fs). distinct (map ufPath fs)) (files s) \<Longrightarrow> distinct (map ufPath (filesOfUpload s i))"
  by (auto simp: filesOfUpload_def list_all_iff split: option.split dest!: map_of_SomeD)

definition twoParts :: memStore where
  "twoParts = storeParts 5 newStore [samplePart ''e2e'' 0 4, samplePart ''unit'' 1 0]"

theorem merged_file_as_card_witness:
  "commitFile 1 ''c'' ''a.go'' twoParts = (case find (\<lambda>f. ufPath f = ''a.go'') (snd (commitFiles 1 ''c'' twoParts)) of None \<Rightarrow> Inl ErrNotFound | Some f \<Rightarrow> Inr f)
    \<and> isl (commitFile 1 ''c'' ''none.go'' twoParts) \<and> \<not> isl (commitFile 1 ''c'' ''a.go'' twoParts)"
proof -
  have rows: "rowsCounted twoParts"
    using sample_stored [of "[samplePart ''e2e'' 0 4, samplePart ''unit'' 1 0]" 5] by (auto simp: twoParts_def)
  have "list_all (\<lambda>(i, fs). distinct (map ufPath fs)) (files twoParts)" by code_simp
  note eq = merged_file_as_card [OF rows distinct_rows [OF this]]
  have "isl (commitFile 1 ''c'' ''none.go'' twoParts) \<and> \<not> isl (commitFile 1 ''c'' ''a.go'' twoParts)" by code_simp
  then show ?thesis using eq [of 1 "''c''" "''a.go''"] by blast
qed

definition cardBlock :: "int \<Rightarrow> int \<Rightarrow> block" where
  "cardBlock l c = \<lparr>StartLine = l, StartCol = 1, EndLine = l, EndCol = 9, NumStmts = 1, Count = c\<rparr>"

definition cardFile :: "string \<Rightarrow> block list \<Rightarrow> UploadFile" where
  "cardFile path bs = newUploadFile \<lparr>fPath = path, fBlocks = bs\<rparr>"


theorem upload_history_paged_witness:
  "concat (map (\<lambda>q. pageRows (handleAPIRepoUploads twoParts (zeroRepo\<lparr>rpID := 1\<rparr>) [] (itoa (int q)))) [0..<2])
      = map (uploadRowOf (zeroRepo\<lparr>rpID := 1\<rparr>)) (historyOf twoParts (zeroRepo\<lparr>rpID := 1\<rparr>) [])
    \<and> map upID (historyOf twoParts (zeroRepo\<lparr>rpID := 1\<rparr>) []) = [2, 1]"
proof -
  have ids: "map upID (historyOf twoParts (zeroRepo\<lparr>rpID := 1\<rparr>) []) = [2, 1]" by code_simp
  have "length (historyOf twoParts (zeroRepo\<lparr>rpID := 1\<rparr>) []) = length (map upID (historyOf twoParts (zeroRepo\<lparr>rpID := 1\<rparr>) []))" by simp
  then have len: "length (historyOf twoParts (zeroRepo\<lparr>rpID := 1\<rparr>) []) = 2" unfolding ids by simp
  have p: "nat 1 + 1 = (2::nat)" by simp
  show ?thesis using upload_history_paged [of 1 twoParts "zeroRepo\<lparr>rpID := 1\<rparr>" "[]"] ids len unfolding p by (simp add: maxInt64_def)
qed

end
