(* ===== verification/Spec2Isabelle.thy ===== *)
theory Spec2Isabelle
  imports Lcov GoCover LineParsers DiffParse DiffMerge CoverageGate StoreFacts PushLease Baseline BlocksJson Ignore Publish
    SeatGuards UploadClaims McpAuth FilesView
begin

text \<open>
  gocov: a coverage server. A CI job uploads a coverage report of a commit; the server parses it,
  drops ignored files, works out totals, diff coverage and the gate, stores an upload with its
  files, merges the newest upload of every part into the commit's report, and pushes the result
  to the forge. Who may read the reports and administer a workspace follows from what the forges
  say of an account when it signs in. This development models the path from report to verdict, the
  in-memory store behind it, the protocols that keep concurrent uploads of one commit consistent,
  the connections to the forges, and the rules of access.

  What models what (paths are under \<open>src/internal/\<close>):

  \<^item> \<open>Prelude\<close>, \<open>Float64\<close>, \<open>GoStrings\<close>, \<open>GoFormat\<close>: the language and its standard library as the
    source uses them. Go's \<open>int\<close> and \<open>int64\<close> are \<open>int\<close> with the wrap-around written out
    (\<open>add64\<close>) where the source does not bound a sum; \<open>float64\<close> is the rational it stands for,
    rounded half to even after every operation (\<open>f64\<close>, no overflow or subnormals: every value
    here is a percentage); strings are lists of bytes; a Go map is an association list with
    distinct keys, and its order stands for any iteration order, so a theorem about it holds for
    every order the runtime may pick.
  \<^item> \<open>Profile\<close>: \<open>profile/profile.go\<close>, \<open>profile/merge.go\<close>. Blocks, coverage counts, \<open>Merge\<close>. Proved:
    what a merge covers, that neither order nor grouping of the parts matters, and where the
    unguarded sum of counts goes wrong.
  \<^item> \<open>LineHits\<close>, \<open>Lcov\<close>, \<open>GoCover\<close>: the parsers and their contract. The locale
    \<open>coverage_parser\<close> is the interface \<open>profile.Parser\<close> with what its clients rely on, and
    \<open>canonical_parser\<close> adds what the merge shortcut relies on; each parser's theory interprets
    the one it satisfies.
  \<^item> \<open>Spans\<close>, \<open>DiffParse\<close>, \<open>DiffCov\<close>, \<open>DiffMerge\<close>: \<open>diffcov/\<close>. Span arithmetic against sets of
    lines, the unified diff parser against diffs as git writes them, diff coverage and its
    pairing of paths against the documented rule, the merge of several parts' diff coverage.
  \<^item> \<open>CoverageGate\<close>: \<open>core/gate.go\<close>, all conditions in float64.
  \<^item> \<open>GoPath\<close>, \<open>Ignore\<close>: \<open>ignore/ignore.go\<close> over Go's \<open>path.Match\<close>. The single-backtrack loop
    against the documented meaning of the patterns, its work budget, what plain patterns ignore.
  \<^item> \<open>BlocksJson\<close>: \<open>profile/blocksjson.go\<close>. The scanner of stored blocks against the JSON grammar;
    \<open>json.Unmarshal\<close>, to which it falls back, is a parameter.
  \<^item> \<open>StoreTypes\<close>, \<open>MemStore\<close>, \<open>MemReports\<close>: \<open>store/store.go\<close>, \<open>store/memory/memory.go\<close>. Every
    operation of the in-memory store as one atomic step, as its single mutex makes it; the clock
    is an argument. \<open>MemInvariant\<close> states the store's invariant and that every operation keeps
    it; \<open>StoreFacts\<close> has the step relation and what follows in every reachable state.
  \<^item> \<open>PushView\<close>, \<open>PushLease\<close>: \<open>core/publish.go\<close> over the store's push leases. What one commit sees
    of the store refines the contract of \<open>ClaimPush\<close> and \<open>FinishPush\<close>; the push rounds of a commit
    interleave with uploads, recomputes and time in a step relation. Proved: one push at a time,
    the newest upload reaches the forge unless something was lost, the rounds end.
  \<^item> \<open>CommitMerge\<close>: \<open>core/merge.go\<close>. The rows of a commit's parts merged, with the shortcut for a
    lone upload against the full merge. The locale \<open>part_files\<close> is the one read a merge needs.
  \<^item> \<open>Baseline\<close>: \<open>core/baseline.go\<close>. The locale \<open>passed_reports\<close> is the interface of that name
    with what the searches rely on; the store interprets it.
  \<^item> \<open>Visibility\<close>: \<open>core/repo.go\<close> and the workspace lookup of \<open>core/forges.go\<close>. Registration of
    repos, the cached answer to whether a repo is public; a step relation interleaves asks, late
    answers, webhooks and lost connections, and pages are public only on the forge's word.
  \<^item> \<open>Publish\<close>: the texts of \<open>core/publish.go\<close>: build status, report card, pull request comment.
  \<^item> \<open>Formats\<close>, \<open>LineParsers\<close>: \<open>profile/formats.go\<close> with detection, test files and language families,
    and the parsers of decoded Cobertura, Clover, JaCoCo, OpenCover, SimpleCov and xccov reports; an
    XML or JSON document arrives decoded.
  \<^item> \<open>Pipeline\<close>, \<open>CommitUploads\<close>, \<open>Accept\<close>: \<open>core/accept.go\<close>, \<open>core/merge.go\<close> and the push rounds of
    \<open>core/publish.go\<close> as one pipeline over the store and the blob store, with the failures of the
    forge, the stores and a cancelled context as answers of the environment. Proved: what an accepted
    upload stores, what a failed one leaves behind, what the merged report is, whatever the order.
  \<^item> \<open>GoURL\<close>: Go's \<open>net/url\<close> and \<open>path.Clean\<close> as the server uses them.
  \<^item> \<open>Grants\<close>: \<open>core/forges.go\<close>. The cached access tokens, the locked refresh of a grant and the client
    of a repo's forge; a step relation interleaves the refreshes of several server instances with
    everything else that touches the grant.
  \<^item> \<open>Access\<close>: \<open>server/session.go\<close>, \<open>server/scope.go\<close>. The sign-in wall and who sees which report.
  \<^item> \<open>Tenants\<close>, \<open>SignIn\<close>: \<open>server/workspace.go\<close>, \<open>register.go\<close>, \<open>grant.go\<close>, \<open>githubapp.go\<close>, \<open>oauth.go\<close>.
    Each handler from its guards to its answer. \<open>Vouched\<close> runs them one after another and shows that
    every seat in a workspace is one the forge vouched for; \<open>SeatGuards\<close> has what each seat allows,
    and the writes that lose another's when handlers do interleave.
  \<^item> \<open>GoFold\<close>: lower case, case folding and the regular expressions of names: \<open>core/part.go\<close> and the
    helpers of \<open>server/upload.go\<close>.
  \<^item> \<open>RunClaims\<close>: \<open>forge/github/tokenless.go\<close>, \<open>server/tokenless.go\<close>. A fork's upload proves itself by its
    workflow run; what GitHub must have answered, for how long it counts, how often it is asked.
  \<^item> \<open>Oidc\<close>: \<open>oidc/oidc.go\<close>. The verifier of the identity tokens a forge's CI mints, with its key cache.
  \<^item> \<open>UploadAuth\<close>, \<open>Uploads\<close>: \<open>server/uploadrepo.go\<close>, \<open>server/oidc.go\<close>, \<open>server/upload.go\<close>. The upload
    endpoint from the posted form to the answer, over the pipeline. \<open>UploadRules\<close> shows that nothing is
    stored without a credential for its repo, \<open>UploadClaims\<close> that a run uploads a part once.
  \<^item> \<open>McpAuth\<close>: \<open>server/mcpauth.go\<close>. OAuth for MCP clients; a step relation runs consents and
    exchanges in any order, and every message let through rests on a consent.
  \<^item> \<open>FilesView\<close>: \<open>server/uploadpage.go\<close>, \<open>server/repopage.go\<close>. The files card of an upload or of a commit's
    merged parts against a baseline, the pages around it, and the upload history by pages.

  Bounds. No fuel is used: loops over strings and spans are recursions with termination proofs.
  A scanner's limit on the length of a line (4 MiB, 1 MiB) is part of the model.

  Arguments. What the source only calls is an argument of the definitions that use it: the forges'
  answers, decoded JSON and XML documents, hashes and signatures, random tokens, the parsing of IP
  addresses, Unicode's case tables. The clock is one too.

  Not modelled: the PostgreSQL store (its logic is SQL text), HTTP routing, the other pages and
  read APIs, the forge clients and sign-in providers (network), command lines and configuration, the web front end.
\<close>

end
